(* ===== verification/Prelude.thy ===== *)
theory Prelude
  imports "HOL-Library.Word" "HOL-Library.Sublist"
begin

unbundle bit_operations_syntax

text \<open>
  Shared material of the development: machine-integer types, the state-and-fault
  programs in which the C functions are written, a simulation relation between such
  programs, byte-addressed memories and the little-endian layout of words.

  A C function that can stop the system (a failed \<^verbatim>\<open>ASSERT\<close>, which is \<open>while(1)\<close> in
  \<^verbatim>\<open>include/generic.h\<close>; a busy-wait that never ends; an access through a NULL pointer or
  outside an array) is a value of type \<open>('s, 'a) prog\<close>: from a state it either
  returns a value and the next state, or ends in a \<open>fault\<close>.
\<close>

type_synonym u8 = "8 word"
type_synonym u16 = "16 word"
type_synonym u32 = "32 word"

datatype fault =
    Assert_Fail
  | Busy_Hang
  | Bad_Index
  | Null_Deref
  | Dangling

type_synonym ('s, 'a) prog = "'s \<Rightarrow> fault + 'a \<times> 's"

named_theorems prog_simps "evaluation of programs"
named_theorems sim_intros "structural rules of the simulation relation"
named_theorems frame_intros "structural rules of the frame condition"
named_theorems stable_intros "structural rules of stability"

definition retM :: "'a \<Rightarrow> ('s, 'a) prog" where
  "retM a = (\<lambda>s. Inr (a, s))"

definition failM :: "fault \<Rightarrow> ('s, 'a) prog" where
  "failM e = (\<lambda>s. Inl e)"

definition bindM :: "('s, 'a) prog \<Rightarrow> ('a \<Rightarrow> ('s, 'b) prog) \<Rightarrow> ('s, 'b) prog" where
  "bindM m f = (\<lambda>s. case m s of Inl e \<Rightarrow> Inl e | Inr (a, s') \<Rightarrow> f a s')"

definition thenM :: "('s, 'a) prog \<Rightarrow> ('s, 'b) prog \<Rightarrow> ('s, 'b) prog" where
  "thenM m n = bindM m (\<lambda>_. n)"

definition getM :: "('s \<Rightarrow> 'a) \<Rightarrow> ('s, 'a) prog" where
  "getM f = (\<lambda>s. Inr (f s, s))"

definition modM :: "('s \<Rightarrow> 's) \<Rightarrow> ('s, unit) prog" where
  "modM f = (\<lambda>s. Inr ((), f s))"

definition assertM :: "bool \<Rightarrow> ('s, unit) prog" where
  "assertM b = (if b then retM () else failM Assert_Fail)"

definition whenM :: "bool \<Rightarrow> ('s, unit) prog \<Rightarrow> ('s, unit) prog" where
  "whenM b m = (if b then m else retM ())"

text \<open>A counted loop whose body is run once per element, in order.\<close>

fun forM :: "'b list \<Rightarrow> ('b \<Rightarrow> ('s, unit) prog) \<Rightarrow> ('s, unit) prog" where
  "forM [] f = retM ()"
| "forM (x # xs) f = thenM (f x) (forM xs f)"

text \<open>A counted loop that collects one value per element.\<close>

fun mapM :: "('b \<Rightarrow> ('s, 'a) prog) \<Rightarrow> 'b list \<Rightarrow> ('s, 'a list) prog" where
  "mapM f [] = retM []"
| "mapM f (x # xs) = bindM (f x) (\<lambda>y. bindM (mapM f xs) (\<lambda>ys. retM (y # ys)))"

lemma retM_run [simp, prog_simps]: "retM a s = Inr (a, s)"
  by (simp add: retM_def)

lemma failM_run [simp, prog_simps]: "failM e s = Inl e"
  by (simp add: failM_def)

lemma getM_run [simp, prog_simps]: "getM f s = Inr (f s, s)"
  by (simp add: getM_def)

lemma modM_run [simp, prog_simps]: "modM f s = Inr ((), f s)"
  by (simp add: modM_def)

lemma bindM_run [prog_simps]:
  "bindM m f s = (case m s of Inl e \<Rightarrow> Inl e | Inr (a, s') \<Rightarrow> f a s')"
  by (simp add: bindM_def)

lemma bindM_Inr [simp]: "m s = Inr (a, s') \<Longrightarrow> bindM m f s = f a s'"
  by (simp add: bindM_def)

lemma bindM_Inl [simp]: "m s = Inl e \<Longrightarrow> bindM m f s = Inl e"
  by (simp add: bindM_def)

lemma thenM_Inr [simp]: "m s = Inr (a, s') \<Longrightarrow> thenM m n s = n s'"
  by (simp add: thenM_def)

lemma thenM_Inl [simp]: "m s = Inl e \<Longrightarrow> thenM m n s = Inl e"
  by (simp add: thenM_def)

lemma thenM_run [prog_simps]:
  "thenM m n s = (case m s of Inl e \<Rightarrow> Inl e | Inr (a, s') \<Rightarrow> n s')"
  by (simp add: thenM_def bindM_def)

lemma thenM_cong: "m s = m' s' \<Longrightarrow> thenM m n s = thenM m' n s'"
  by (simp add: thenM_run)

lemma assertM_run [simp, prog_simps]:
  "assertM b s = (if b then Inr ((), s) else Inl Assert_Fail)"
  by (simp add: assertM_def)

lemma whenM_run [simp, prog_simps]: "whenM b m s = (if b then m s else Inr ((), s))"
  by (simp add: whenM_def)

lemma bindM_eq_Inr:
  "bindM m f s = Inr r \<longleftrightarrow> (\<exists>a s'. m s = Inr (a, s') \<and> f a s' = Inr r)"
  by (auto simp: bindM_def split: sum.splits prod.splits)

lemma thenM_eq_Inr:
  "thenM m n s = Inr r \<longleftrightarrow> (\<exists>a s'. m s = Inr (a, s') \<and> n s' = Inr r)"
  by (simp add: thenM_def bindM_eq_Inr)

lemma thenM_assoc: "thenM (thenM a b) c = thenM a (thenM b c)"
  by (rule ext) (simp add: thenM_def bindM_def split: sum.splits prod.splits)

lemma thenM_retM [simp]: "thenM (retM a) m = m"
  by (simp add: thenM_def bindM_def)

lemma forM_append: "forM (xs @ ys) f = thenM (forM xs f) (forM ys f)"
  by (induction xs) (simp_all add: thenM_assoc)

subsection \<open>Simulation between programs\<close>

text \<open>
  \<open>sim R m g\<close>: from related states, the program \<open>m\<close> follows \<open>g\<close>: it faults where
  \<open>g\<close> faults and otherwise returns the same value in related states. The rules below
  are structural, so that the simulation of a whole function follows from the
  simulation of the primitive operations it is made of.
\<close>

definition sim :: "('s \<Rightarrow> 't \<Rightarrow> bool) \<Rightarrow> ('s, 'a) prog \<Rightarrow> ('t, 'a) prog \<Rightarrow> bool" where
  "sim R m g \<longleftrightarrow> (\<forall>s t. R s t \<longrightarrow>
     (case g t of Inl e \<Rightarrow> m s = Inl e
                | Inr (a, t') \<Rightarrow> \<exists>s'. m s = Inr (a, s') \<and> R s' t'))"

lemma simI:
  assumes "\<And>s t e. R s t \<Longrightarrow> g t = Inl e \<Longrightarrow> m s = Inl e"
    and "\<And>s t a t'. R s t \<Longrightarrow> g t = Inr (a, t') \<Longrightarrow> \<exists>s'. m s = Inr (a, s') \<and> R s' t'"
  shows "sim R m g"
  using assms unfolding sim_def by (fastforce split: sum.splits)

lemma simD_Inr: "sim R m g \<Longrightarrow> R s t \<Longrightarrow> g t = Inr (a, t') \<Longrightarrow> \<exists>s'. m s = Inr (a, s') \<and> R s' t'"
  unfolding sim_def by fastforce

lemma simD_Inl: "sim R m g \<Longrightarrow> R s t \<Longrightarrow> g t = Inl e \<Longrightarrow> m s = Inl e"
  unfolding sim_def by fastforce

lemma sim_retM [sim_intros]: "sim R (retM a) (retM a)"
  by (auto simp: sim_def)

lemma sim_failM [sim_intros]: "sim R (failM e) (failM e)"
  by (auto simp: sim_def)

lemma sim_assertM [sim_intros]: "sim R (assertM b) (assertM b)"
  by (auto simp: sim_def)

lemma sim_bindM [sim_intros]:
  assumes m: "sim R m g" and f: "\<And>a. sim R (f a) (k a)"
  shows "sim R (bindM m f) (bindM g k)"
proof (rule simI)
  fix s t e assume R: "R s t" and b: "bindM g k t = Inl e"
  show "bindM m f s = Inl e"
  proof (cases "g t")
    case (Inl e')
    with b have "e' = e" by simp
    with simD_Inl [OF m R Inl] show ?thesis by simp
  next
    case (Inr p)
    obtain a t' where p: "p = (a, t')" by (cases p)
    from simD_Inr [OF m R Inr [unfolded p]] obtain s' where s': "m s = Inr (a, s')" "R s' t'" by blast
    from b Inr p have "k a t' = Inl e" by simp
    from simD_Inl [OF f s'(2) this] s'(1) show ?thesis by simp
  qed
next
  fix s t b t' assume R: "R s t" and b: "bindM g k t = Inr (b, t')"
  then obtain a u where u: "g t = Inr (a, u)" "k a u = Inr (b, t')" by (auto simp: bindM_eq_Inr)
  from simD_Inr [OF m R u(1)] obtain s' where s': "m s = Inr (a, s')" "R s' u" by blast
  from simD_Inr [OF f s'(2) u(2)] s'(1) show "\<exists>s'. bindM m f s = Inr (b, s') \<and> R s' t'" by auto
qed

lemma sim_thenM [sim_intros]: "sim R m g \<Longrightarrow> sim R n k \<Longrightarrow> sim R (thenM m n) (thenM g k)"
  unfolding thenM_def by (rule sim_bindM)

lemma sim_if [sim_intros]:
  "(b \<Longrightarrow> sim R m g) \<Longrightarrow> (\<not> b \<Longrightarrow> sim R n k) \<Longrightarrow> sim R (if b then m else n) (if b then g else k)"
  by simp

lemma sim_whenM [sim_intros]: "(b \<Longrightarrow> sim R m g) \<Longrightarrow> sim R (whenM b m) (whenM b g)"
  unfolding whenM_def by (intro sim_intros)

lemma sim_case_option [sim_intros]:
  "(x = None \<Longrightarrow> sim R m g) \<Longrightarrow> (\<And>a. x = Some a \<Longrightarrow> sim R (n a) (k a)) \<Longrightarrow>
   sim R (case x of None \<Rightarrow> m | Some a \<Rightarrow> n a) (case x of None \<Rightarrow> g | Some a \<Rightarrow> k a)"
  by (cases x) auto

lemma sim_Let [sim_intros]: "sim R (m a) (g a) \<Longrightarrow> sim R (Let a m) (Let a g)"
  by simp

lemma sim_forM [sim_intros]: "(\<And>x. sim R (f x) (g x)) \<Longrightarrow> sim R (forM xs f) (forM xs g)"
  by (induction xs) (auto intro: sim_intros)

lemma sim_mapM [sim_intros]: "(\<And>x. sim R (f x) (g x)) \<Longrightarrow> sim R (mapM f xs) (mapM g xs)"
  by (induction xs) (auto intro!: sim_intros)

subsection \<open>What a program leaves alone\<close>

text \<open>\<open>frame f m\<close>: when \<open>m\<close> returns, the part \<open>f\<close> of the state is what it was.\<close>

definition frame :: "('s \<Rightarrow> 'c) \<Rightarrow> ('s, 'a) prog \<Rightarrow> bool" where
  "frame f m \<longleftrightarrow> (\<forall>s a s'. m s = Inr (a, s') \<longrightarrow> f s' = f s)"

lemma frameD: "frame f m \<Longrightarrow> m s = Inr (a, s') \<Longrightarrow> f s' = f s"
  by (simp add: frame_def)

lemma frame_basic [frame_intros]: "frame f (retM a)" "frame f (failM e)" "frame f (getM g)" "frame f (assertM b)"
  by (auto simp: frame_def)

lemma frame_modM [frame_intros]: "(\<And>s. f (g s) = f s) \<Longrightarrow> frame f (modM g)"
  by (auto simp: frame_def)

lemma frame_bindM [frame_intros]: "frame f m \<Longrightarrow> (\<And>a. frame f (k a)) \<Longrightarrow> frame f (bindM m k)"
  by (simp add: frame_def bindM_eq_Inr) metis

lemma frame_thenM [frame_intros]: "frame f m \<Longrightarrow> frame f n \<Longrightarrow> frame f (thenM m n)"
  unfolding thenM_def by (rule frame_bindM)

lemma frame_if [frame_intros]: "(b \<Longrightarrow> frame f m) \<Longrightarrow> (\<not> b \<Longrightarrow> frame f n) \<Longrightarrow> frame f (if b then m else n)"
  by simp

lemma frame_whenM [frame_intros]: "(b \<Longrightarrow> frame f m) \<Longrightarrow> frame f (whenM b m)"
  unfolding whenM_def by (intro frame_intros)

lemma frame_case_option [frame_intros]:
  "(x = None \<Longrightarrow> frame f m) \<Longrightarrow> (\<And>a. x = Some a \<Longrightarrow> frame f (n a)) \<Longrightarrow> frame f (case x of None \<Rightarrow> m | Some a \<Rightarrow> n a)"
  by (cases x) auto

lemma frame_case_prod [frame_intros]: "(\<And>a b. frame f (m a b)) \<Longrightarrow> frame f (case p of (a, b) \<Rightarrow> m a b)"
  by (cases p) auto

lemma frame_Let [frame_intros]: "frame f (m a) \<Longrightarrow> frame f (Let a m)"
  by simp

lemma frame_forM [frame_intros]: "(\<And>x. frame f (g x)) \<Longrightarrow> frame f (forM xs g)"
  by (induction xs) (auto intro: frame_intros)

text \<open>\<open>stable P m\<close>: when \<open>m\<close> returns from a state with \<open>P\<close>, it has \<open>P\<close> again.\<close>

definition stable :: "('s \<Rightarrow> bool) \<Rightarrow> ('s, 'a) prog \<Rightarrow> bool" where
  "stable P m \<longleftrightarrow> (\<forall>s a s'. P s \<longrightarrow> m s = Inr (a, s') \<longrightarrow> P s')"

lemma stableD: "stable P m \<Longrightarrow> m s = Inr (a, s') \<Longrightarrow> P s \<Longrightarrow> P s'"
  by (simp add: stable_def)

lemma stable_frame: "frame P m \<Longrightarrow> stable P m"
  unfolding stable_def frame_def by blast

lemma stable_basic [stable_intros]: "stable P (retM a)" "stable P (failM e)" "stable P (getM g)" "stable P (assertM b)"
  by (auto simp: stable_def)

lemma stable_modM [stable_intros]: "(\<And>s. P s \<Longrightarrow> P (g s)) \<Longrightarrow> stable P (modM g)"
  by (auto simp: stable_def)

lemma stable_bindM [stable_intros]: "stable P m \<Longrightarrow> (\<And>a. stable P (k a)) \<Longrightarrow> stable P (bindM m k)"
  unfolding stable_def bindM_eq_Inr by blast

lemma stable_thenM [stable_intros]: "stable P m \<Longrightarrow> stable P n \<Longrightarrow> stable P (thenM m n)"
  unfolding thenM_def by (rule stable_bindM)

lemma stable_if [stable_intros]: "(b \<Longrightarrow> stable P m) \<Longrightarrow> (\<not> b \<Longrightarrow> stable P n) \<Longrightarrow> stable P (if b then m else n)"
  by simp

lemma stable_whenM [stable_intros]: "(b \<Longrightarrow> stable P m) \<Longrightarrow> stable P (whenM b m)"
  unfolding whenM_def by (intro stable_intros)

lemma stable_case_option [stable_intros]:
  "(x = None \<Longrightarrow> stable P m) \<Longrightarrow> (\<And>a. x = Some a \<Longrightarrow> stable P (n a)) \<Longrightarrow> stable P (case x of None \<Rightarrow> m | Some a \<Rightarrow> n a)"
  by (cases x) auto

lemma stable_case_prod [stable_intros]: "(\<And>a b. stable P (m a b)) \<Longrightarrow> stable P (case p of (a, b) \<Rightarrow> m a b)"
  by (cases p) auto

subsection \<open>Byte memories\<close>

text \<open>\<open>mslice m a n\<close> is the \<open>n\<close> cells from \<open>a\<close>; \<open>mstore m a bs\<close> overwrites them.\<close>

definition mslice :: "(nat \<Rightarrow> 'b) \<Rightarrow> nat \<Rightarrow> nat \<Rightarrow> 'b list" where
  "mslice m a n = map m [a..<a + n]"

definition mstore :: "(nat \<Rightarrow> 'b) \<Rightarrow> nat \<Rightarrow> 'b list \<Rightarrow> nat \<Rightarrow> 'b" where
  "mstore m a bs = (\<lambda>i. if a \<le> i \<and> i < a + length bs then bs ! (i - a) else m i)"

lemma length_mslice [simp]: "length (mslice m a n) = n"
  by (simp add: mslice_def)

lemma nth_mslice [simp]: "i < n \<Longrightarrow> mslice m a n ! i = m (a + i)"
  by (simp add: mslice_def)

lemma mslice_0 [simp]: "mslice m a 0 = []"
  by (simp add: mslice_def)

lemma mslice_add: "mslice m a (n + k) = mslice m a n @ mslice m (a + n) k"
  by (rule nth_equalityI) (auto simp: nth_append)

lemma take_mslice: "k \<le> n \<Longrightarrow> take k (mslice m a n) = mslice m a k"
  by (rule nth_equalityI) auto

lemma drop_mslice: "drop k (mslice m a n) = mslice m (a + k) (n - k)"
  by (rule nth_equalityI) (auto simp: add.assoc)

lemma mslice_cong: "(\<And>i. a \<le> i \<Longrightarrow> i < a + n \<Longrightarrow> m i = m' i) \<Longrightarrow> mslice m a n = mslice m' a n"
  by (simp add: mslice_def)

lemma mstore_Nil [simp]: "mstore m a [] = m"
  by (auto simp: mstore_def fun_eq_iff)

lemma mstore_append: "mstore m a (xs @ ys) = mstore (mstore m a xs) (a + length xs) ys"
  by (auto simp: mstore_def fun_eq_iff nth_append)

lemma mstore_outside: "i < a \<or> a + length bs \<le> i \<Longrightarrow> mstore m a bs i = m i"
  by (auto simp: mstore_def)

lemma mslice_mstore_same [simp]: "n = length bs \<Longrightarrow> mslice (mstore m a bs) a n = bs"
  by (rule nth_equalityI) (auto simp: mstore_def)

lemma mslice_mstore_disjoint:
  "a + n \<le> b \<or> b + length bs \<le> a \<Longrightarrow> mslice (mstore m b bs) a n = mslice m a n"
  by (rule mslice_cong) (auto simp: mstore_def)

lemma mslice_mstore_within:
  assumes "b \<le> a" and "a + n \<le> b + length bs"
  shows "mslice (mstore m b bs) a n = take n (drop (a - b) bs)"
  using assms by (intro nth_equalityI) (auto simp: mstore_def)

subsection \<open>Little-endian words\<close>

definition u32_bytes :: "u32 \<Rightarrow> u8 list" where
  "u32_bytes w = [ucast w, ucast (drop_bit 8 w), ucast (drop_bit 16 w), ucast (drop_bit 24 w)]"

fun bytes_u32 :: "u8 list \<Rightarrow> u32" where
  "bytes_u32 (a # b # c # d # _) =
     ucast a OR push_bit 8 (ucast b) OR push_bit 16 (ucast c) OR push_bit 24 (ucast d)"
| "bytes_u32 _ = 0"

definition words_bytes :: "u32 list \<Rightarrow> u8 list" where
  "words_bytes ws = concat (map u32_bytes ws)"

fun bytes_words :: "u8 list \<Rightarrow> u32 list" where
  "bytes_words (a # b # c # d # bs) = bytes_u32 [a, b, c, d] # bytes_words bs"
| "bytes_words _ = []"

lemma length_u32_bytes [simp]: "length (u32_bytes w) = 4"
  by (simp add: u32_bytes_def)

lemma bytes_u32_bytes [simp]: "bytes_u32 (u32_bytes w @ bs) = w"
proof (rule bit_word_eqI)
  fix n assume "n < LENGTH(32)"
  then consider "n < 8" | "8 \<le> n" "n < 16" | "16 \<le> n" "n < 24" | "24 \<le> n" "n < 32"
    by fastforce
  then show "bit (bytes_u32 (u32_bytes w @ bs)) n = bit w n"
    by cases (auto simp: u32_bytes_def bit_simps)
qed

lemma u32_bytes_bytes: "length bs = 4 \<Longrightarrow> u32_bytes (bytes_u32 bs) = bs"
proof -
  assume "length bs = 4"
  then obtain a b c d where bs: "bs = [a, b, c, d]"
    by (auto simp: numeral_eq_Suc length_Suc_conv)
  have high: "8 \<le> k \<Longrightarrow> \<not> bit x (k + n)" for k n and x :: u8
    by (auto dest: bit_imp_le_length)
  show ?thesis
    unfolding bs u32_bytes_def
    by (auto simp: bit_simps high intro!: bit_word_eqI)
qed

lemma words_bytes_words: "length bs = 4 * n \<Longrightarrow> words_bytes (bytes_words bs) = bs"
proof (induction bs arbitrary: n rule: bytes_words.induct)
  case (1 a b c d bs)
  then have "length bs = 4 * (n - 1)" by simp
  then show ?case using "1.IH" u32_bytes_bytes [of "[a, b, c, d]"] by (simp add: words_bytes_def)
qed (auto simp: words_bytes_def, presburger+)

lemma length_bytes_words: "length bs = 4 * n \<Longrightarrow> length (bytes_words bs) = n"
proof (induction bs arbitrary: n rule: bytes_words.induct)
  case (1 a b c d bs)
  then have "length bs = 4 * (n - 1)" "0 < n" by auto
  then show ?case using "1.IH" [of "n - 1"] by simp
qed auto

lemma word_unat_less32: "unat (w::u32) < 2 ^ 32"
  using unsigned_less [of w, where 'a = nat] by simp

end
