(* ===== verification/Flash.thy ===== *)
theory Flash
  imports Prelude
begin

text \<open>
  The SPI-NOR flash driver, \<^verbatim>\<open>driver/flash/flash.c\<close> with \<^verbatim>\<open>driver/flash/flash.h\<close>
  (configuration for the BK7231U: no interrupt lock around the bus, \<^verbatim>\<open>CFG_JTAG_ENABLE\<close> 0).

  The flash controller is hardware: it is a parameter \<open>env\<close> of every definition, a
  record of the register read and write functions over an arbitrary hardware state.
  What the driver relies on is the locale \<open>nor_controller\<close>: the controller behaves like
  the chip specification \<open>nor_chip\<close> (READ, PP, SE, RDSR, WRSR and the status and
  configuration registers of an SPI-NOR part) and finishes every command. The driver
  over such a controller follows the driver over the chip specification
  (\<open>sim\<close> lemmas), on which the functional properties are proved.
\<close>

section \<open>Registers, commands and configuration\<close>

datatype flash_reg =
    REG_FLASH_OPERATE_SW
  | REG_FLASH_DATA_SW_FLASH
  | REG_FLASH_DATA_FLASH_SW
  | REG_FLASH_RDID_DATA_FLASH
  | REG_FLASH_SR_DATA_CRC_CNT
  | REG_FLASH_CONF

abbreviation (input) ADDR_SW_REG_MASK :: u32 where "ADDR_SW_REG_MASK \<equiv> 0x00FFFFFF"
abbreviation (input) OP_TYPE_SW_POSI :: nat where "OP_TYPE_SW_POSI \<equiv> 24"
abbreviation (input) OP_SW :: u32 where "OP_SW \<equiv> 0x20000000"
abbreviation (input) WP_VALUE :: u32 where "WP_VALUE \<equiv> 0x40000000"
abbreviation (input) BUSY_SW :: u32 where "BUSY_SW \<equiv> 0x80000000"
abbreviation (input) FLASH_CLK_CONF_MASK :: u32 where "FLASH_CLK_CONF_MASK \<equiv> 0x0F"
abbreviation (input) MODEL_SEL_POSI :: nat where "MODEL_SEL_POSI \<equiv> 4"
abbreviation (input) MODEL_SEL_MASK :: u32 where "MODEL_SEL_MASK \<equiv> 0x1F"
abbreviation (input) CPU_DATA_WR_POSI :: nat where "CPU_DATA_WR_POSI \<equiv> 9"
abbreviation (input) CPU_DATA_WR_MASK :: u32 where "CPU_DATA_WR_MASK \<equiv> 0x01"
abbreviation (input) WRSR_DATA_POSI :: nat where "WRSR_DATA_POSI \<equiv> 10"
abbreviation (input) WRSR_DATA_MASK :: u32 where "WRSR_DATA_MASK \<equiv> 0xFFFF"
abbreviation (input) M_VALUE_POST :: nat where "M_VALUE_POST \<equiv> 22"
abbreviation (input) M_VALUE_MASK :: u32 where "M_VALUE_MASK \<equiv> 0xFF"
abbreviation (input) MODE_DUAL :: u32 where "MODE_DUAL \<equiv> 1"

abbreviation (input) FLASH_OPCODE_WREN :: u32 where "FLASH_OPCODE_WREN \<equiv> 1"
abbreviation (input) FLASH_OPCODE_WRDI :: u32 where "FLASH_OPCODE_WRDI \<equiv> 2"
abbreviation (input) FLASH_OPCODE_RDSR :: u32 where "FLASH_OPCODE_RDSR \<equiv> 3"
abbreviation (input) FLASH_OPCODE_WRSR :: u32 where "FLASH_OPCODE_WRSR \<equiv> 4"
abbreviation (input) FLASH_OPCODE_READ :: u32 where "FLASH_OPCODE_READ \<equiv> 5"
abbreviation (input) FLASH_OPCODE_RDSR2 :: u32 where "FLASH_OPCODE_RDSR2 \<equiv> 6"
abbreviation (input) FLASH_OPCODE_WRSR2 :: u32 where "FLASH_OPCODE_WRSR2 \<equiv> 7"
abbreviation (input) FLASH_OPCODE_PP :: u32 where "FLASH_OPCODE_PP \<equiv> 12"
abbreviation (input) FLASH_OPCODE_SE :: u32 where "FLASH_OPCODE_SE \<equiv> 13"
abbreviation (input) FLASH_OPCODE_RDID :: u32 where "FLASH_OPCODE_RDID \<equiv> 20"
abbreviation (input) FLASH_OPCODE_HPM :: u32 where "FLASH_OPCODE_HPM \<equiv> 21"
abbreviation (input) FLASH_OPCODE_CRMR :: u32 where "FLASH_OPCODE_CRMR \<equiv> 22"

abbreviation (input) FLASH_SUCCESS :: u32 where "FLASH_SUCCESS \<equiv> 0"
abbreviation (input) FLASH_FAILURE :: u32 where "FLASH_FAILURE \<equiv> 1"

text \<open>The command codes of \<^verbatim>\<open>flash_pub.h\<close>, numbered from \<^verbatim>\<open>FLASH_CMD_MAGIC + 1\<close>.\<close>

abbreviation (input) CMD_FLASH_SET_CLK :: u32 where "CMD_FLASH_SET_CLK \<equiv> 0xe240001"
abbreviation (input) CMD_FLASH_SET_DCO :: u32 where "CMD_FLASH_SET_DCO \<equiv> 0xe240002"
abbreviation (input) CMD_FLASH_SET_DPLL :: u32 where "CMD_FLASH_SET_DPLL \<equiv> 0xe240003"
abbreviation (input) CMD_FLASH_WRITE_ENABLE :: u32 where "CMD_FLASH_WRITE_ENABLE \<equiv> 0xe240004"
abbreviation (input) CMD_FLASH_WRITE_DISABLE :: u32 where "CMD_FLASH_WRITE_DISABLE \<equiv> 0xe240005"
abbreviation (input) CMD_FLASH_READ_SR :: u32 where "CMD_FLASH_READ_SR \<equiv> 0xe240006"
abbreviation (input) CMD_FLASH_WRITE_SR :: u32 where "CMD_FLASH_WRITE_SR \<equiv> 0xe240007"
abbreviation (input) CMD_FLASH_READ_QE :: u32 where "CMD_FLASH_READ_QE \<equiv> 0xe240008"
abbreviation (input) CMD_FLASH_SET_QE :: u32 where "CMD_FLASH_SET_QE \<equiv> 0xe240009"
abbreviation (input) CMD_FLASH_SET_QWFR :: u32 where "CMD_FLASH_SET_QWFR \<equiv> 0xe24000a"
abbreviation (input) CMD_FLASH_CLR_QWFR :: u32 where "CMD_FLASH_CLR_QWFR \<equiv> 0xe24000b"
abbreviation (input) CMD_FLASH_SET_WSR :: u32 where "CMD_FLASH_SET_WSR \<equiv> 0xe24000c"
abbreviation (input) CMD_FLASH_GET_ID :: u32 where "CMD_FLASH_GET_ID \<equiv> 0xe24000d"
abbreviation (input) CMD_FLASH_READ_MID :: u32 where "CMD_FLASH_READ_MID \<equiv> 0xe24000e"
abbreviation (input) CMD_FLASH_ERASE_SECTOR :: u32 where "CMD_FLASH_ERASE_SECTOR \<equiv> 0xe24000f"
abbreviation (input) CMD_FLASH_SET_HPM :: u32 where "CMD_FLASH_SET_HPM \<equiv> 0xe240010"
abbreviation (input) CMD_FLASH_GET_PROTECT :: u32 where "CMD_FLASH_GET_PROTECT \<equiv> 0xe240011"
abbreviation (input) CMD_FLASH_SET_PROTECT :: u32 where "CMD_FLASH_SET_PROTECT \<equiv> 0xe240012"

text \<open>\<^verbatim>\<open>PROTECT_TYPE\<close>, by its enumeration values.\<close>

abbreviation (input) FLASH_PROTECT_NONE :: u32 where "FLASH_PROTECT_NONE \<equiv> 0"
abbreviation (input) FLASH_PROTECT_ALL :: u32 where "FLASH_PROTECT_ALL \<equiv> 1"
abbreviation (input) FLASH_PROTECT_HALF :: u32 where "FLASH_PROTECT_HALF \<equiv> 2"
abbreviation (input) FLASH_UNPROTECT_LAST_BLOCK :: u32 where "FLASH_UNPROTECT_LAST_BLOCK \<equiv> 3"

record flash_config_t =
  cfg_flash_id :: u32
  sr_size :: u8
  flash_size :: u32
  line_mode :: u8
  cmp_post :: u8
  protect_post :: u8
  protect_mask :: u8
  protect_all :: u16
  protect_none :: u16
  protect_half :: u16
  unprotect_last_block :: u16
  qe_bit_post :: u8
  qe_bit :: u8
  m_value :: u8
  mode_sel :: u8

definition mk_config :: "u32 \<Rightarrow> u8 \<Rightarrow> u32 \<Rightarrow> u8 \<Rightarrow> u8 \<Rightarrow> u8 \<Rightarrow> u8 \<Rightarrow> u16 \<Rightarrow> u16 \<Rightarrow> u16 \<Rightarrow> u16 \<Rightarrow>
    u8 \<Rightarrow> u8 \<Rightarrow> u8 \<Rightarrow> u8 \<Rightarrow> flash_config_t" where
  "mk_config i sz fsz lm cp pp pm pa pn ph ul qp qb mv ms =
     \<lparr>cfg_flash_id = i, sr_size = sz, flash_size = fsz, line_mode = lm, cmp_post = cp,
      protect_post = pp, protect_mask = pm, protect_all = pa, protect_none = pn,
      protect_half = ph, unprotect_last_block = ul, qe_bit_post = qp, qe_bit = qb,
      m_value = mv, mode_sel = ms\<rparr>"

definition flash_config :: "flash_config_t list" where
  "flash_config =
    [mk_config 0x1C7016 1 0x400000 2  0 2 0x1F 0x1F 0x00 0x16 0x01B 0 0 0xA5 0x01,
     mk_config 0x1C7015 1 0x200000 2  0 2 0x1F 0x1F 0x00 0x0d 0x0d  0 0 0xA5 0x01,
     mk_config 0x0B4014 2 0x100000 2 14 2 0x1F 0x1F 0x00 0x0C 0x101 9 1 0xA0 0x01,
     mk_config 0x0B4015 2 0x200000 2 14 2 0x1F 0x1F 0x00 0x0D 0x101 9 1 0xA0 0x01,
     mk_config 0x0B4016 2 0x400000 2 14 2 0x1F 0x1F 0x00 0x0E 0x101 9 1 0xA0 0x01,
     mk_config 0x0B4017 2 0x800000 2 14 2 0x1F 0x05 0x00 0x0E 0x109 9 1 0xA0 0x01,
     mk_config 0x0E4016 2 0x400000 2 14 2 0x1F 0x1F 0x00 0x0E 0x101 9 1 0xA0 0x01,
     mk_config 0xC84015 2 0x200000 2 14 2 0x1F 0x1F 0x00 0x0D 0x101 9 1 0xA0 0x01,
     mk_config 0xC84016 1 0x400000 2  0 2 0x1F 0x1F 0x00 0x0E 0x00E 0 0 0xA0 0x01,
     mk_config 0xEF4016 2 0x400000 2 14 2 0x1F 0x1F 0x00 0x00 0x101 9 1 0xA0 0x01,
     mk_config 0x204016 2 0x400000 2 14 2 0x1F 0x1F 0x00 0x0E 0x101 9 1 0xA0 0x01,
     mk_config 0xC22315 1 0x200000 2  0 2 0x0F 0x0F 0x00 0x0A 0x00E 6 1 0xA5 0x01,
     mk_config 0xEB6015 2 0x200000 2 14 2 0x1F 0x1F 0x00 0x0D 0x101 9 1 0xA0 0x01,
     mk_config 0x000000 2 0x400000 2  0 2 0x1F 0x00 0x00 0x00 0x000 0 0 0x00 0x01]"

text \<open>
  The hardware seen by the driver (a parameter): register accesses, the system-control
  device that \<^verbatim>\<open>CMD_FLASH_SET_DPLL\<close> and \<^verbatim>\<open>CMD_FLASH_SET_DCO\<close> call
  (\<open>True\<close> for the DPLL request), and the ATE strap. The driver's own variables are
  \<^verbatim>\<open>flash_current_config\<close>, \<^verbatim>\<open>flash_id\<close> and the peripheral busy count of
  \<^verbatim>\<open>mcu_ps.c\<close>.
\<close>

record 'h flash_env =
  reg_read :: "flash_reg \<Rightarrow> 'h \<Rightarrow> u32 \<times> 'h"
  reg_write :: "flash_reg \<Rightarrow> u32 \<Rightarrow> 'h \<Rightarrow> 'h"
  sctrl_flash_clk :: "bool \<Rightarrow> 'h \<Rightarrow> 'h"
  ate_mode :: "'h \<Rightarrow> bool"

record 'h flash_st =
  hw :: 'h
  flash_current_config :: "flash_config_t option"
  flash_id :: u32
  peri_busy_count :: u32

section \<open>The driver\<close>

definition REG_READ :: "'h flash_env \<Rightarrow> flash_reg \<Rightarrow> ('h flash_st, u32) prog" where
  "REG_READ env r = (\<lambda>s. case reg_read env r (hw s) of (v, h) \<Rightarrow> Inr (v, s\<lparr>hw := h\<rparr>))"

definition REG_WRITE :: "'h flash_env \<Rightarrow> flash_reg \<Rightarrow> u32 \<Rightarrow> ('h flash_st, unit) prog" where
  "REG_WRITE env r v = (\<lambda>s. Inr ((), s\<lparr>hw := reg_write env r v (hw s)\<rparr>))"

text \<open>\<^verbatim>\<open>while(REG_READ(REG_FLASH_OPERATE_SW) & BUSY_SW);\<close> may never end.\<close>

partial_function (option) wait_loop :: "'h flash_env \<Rightarrow> 'h \<Rightarrow> 'h option" where
  "wait_loop env h =
     (case reg_read env REG_FLASH_OPERATE_SW h of (v, h') \<Rightarrow>
        if v AND BUSY_SW \<noteq> 0 then wait_loop env h' else Some h')"

definition wait_idle :: "'h flash_env \<Rightarrow> ('h flash_st, unit) prog" where
  "wait_idle env = (\<lambda>s. case wait_loop env (hw s) of
     None \<Rightarrow> Inl Busy_Hang | Some h \<Rightarrow> Inr ((), s\<lparr>hw := h\<rparr>))"

text \<open>Every write of the operation register in the driver is followed by the busy wait.\<close>

definition issue :: "'h flash_env \<Rightarrow> u32 \<Rightarrow> ('h flash_st, unit) prog" where
  "issue env v = thenM (REG_WRITE env REG_FLASH_OPERATE_SW v) (wait_idle env)"

definition current_config :: "('h flash_st, flash_config_t) prog" where
  "current_config = bindM (getM flash_current_config)
     (\<lambda>c. case c of None \<Rightarrow> failM Null_Deref | Some cfg \<Rightarrow> retM cfg)"

fun find_config :: "u32 \<Rightarrow> flash_config_t list \<Rightarrow> flash_config_t option" where
  "find_config i [] = None"
| "find_config i [dflt] = Some dflt"
| "find_config i (c # cs) = (if i = cfg_flash_id c then Some c else find_config i cs)"

definition flash_get_current_flash_config :: "('h flash_st, unit) prog" where
  "flash_get_current_flash_config =
     modM (\<lambda>s. s\<lparr>flash_current_config := find_config (flash_id s) flash_config\<rparr>)"

definition flash_set_clk :: "'h flash_env \<Rightarrow> u8 \<Rightarrow> ('h flash_st, unit) prog" where
  "flash_set_clk env clk_conf = bindM (REG_READ env REG_FLASH_CONF) (\<lambda>value.
     REG_WRITE env REG_FLASH_CONF ((value AND NOT FLASH_CLK_CONF_MASK) OR ucast clk_conf))"

definition flash_enable_cpu_data_wr :: "'h flash_env \<Rightarrow> ('h flash_st, unit) prog" where
  "flash_enable_cpu_data_wr env = bindM (REG_READ env REG_FLASH_CONF) (\<lambda>value.
     REG_WRITE env REG_FLASH_CONF (value OR push_bit CPU_DATA_WR_POSI CPU_DATA_WR_MASK))"

definition flash_disable_cpu_data_wr :: "'h flash_env \<Rightarrow> ('h flash_st, unit) prog" where
  "flash_disable_cpu_data_wr env = bindM (REG_READ env REG_FLASH_CONF) (\<lambda>value.
     REG_WRITE env REG_FLASH_CONF (value AND NOT (push_bit CPU_DATA_WR_POSI CPU_DATA_WR_MASK)))"

definition flash_write_enable :: "'h flash_env \<Rightarrow> ('h flash_st, unit) prog" where
  "flash_write_enable env =
     issue env (push_bit OP_TYPE_SW_POSI FLASH_OPCODE_WREN OR OP_SW OR WP_VALUE)"

definition flash_write_disable :: "'h flash_env \<Rightarrow> ('h flash_st, unit) prog" where
  "flash_write_disable env =
     issue env (push_bit OP_TYPE_SW_POSI FLASH_OPCODE_WRDI OR OP_SW OR WP_VALUE)"

definition flash_read_sr :: "'h flash_env \<Rightarrow> u8 \<Rightarrow> ('h flash_st, u16) prog" where
  "flash_read_sr env sr_width =
     thenM (wait_idle env)
    (thenM (issue env (push_bit OP_TYPE_SW_POSI FLASH_OPCODE_RDSR OR OP_SW OR WP_VALUE))
    (bindM (REG_READ env REG_FLASH_SR_DATA_CRC_CNT) (\<lambda>v1.
       let sr = ucast (v1 AND 0x00FF) in
       if sr_width = 2 then
         thenM (issue env (push_bit OP_TYPE_SW_POSI FLASH_OPCODE_RDSR2 OR OP_SW OR WP_VALUE))
        (bindM (REG_READ env REG_FLASH_SR_DATA_CRC_CNT) (\<lambda>v2.
           retM (sr OR ucast (push_bit 8 (v2 AND 0x00FF)))))
       else retM sr)))"

definition flash_write_sr :: "'h flash_env \<Rightarrow> u8 \<Rightarrow> u16 \<Rightarrow> ('h flash_st, unit) prog" where
  "flash_write_sr env sr_width val =
     thenM (wait_idle env)
    (bindM (REG_READ env REG_FLASH_CONF) (\<lambda>value.
       thenM (REG_WRITE env REG_FLASH_CONF
         ((value AND NOT (push_bit WRSR_DATA_POSI WRSR_DATA_MASK))
            OR push_bit WRSR_DATA_POSI (ucast val)))
      (thenM (wait_idle env)
      (if sr_width = 1 then
         issue env (push_bit OP_TYPE_SW_POSI FLASH_OPCODE_WRSR OR OP_SW OR WP_VALUE)
       else if sr_width = 2 then
         issue env (push_bit OP_TYPE_SW_POSI FLASH_OPCODE_WRSR2 OR OP_SW OR WP_VALUE)
       else wait_idle env))))"

definition flash_read_qe :: "'h flash_env \<Rightarrow> ('h flash_st, u8) prog" where
  "flash_read_qe env = bindM current_config (\<lambda>cfg.
     thenM (if sr_size cfg = 1
            then issue env (push_bit OP_TYPE_SW_POSI FLASH_OPCODE_RDSR OR OP_SW OR WP_VALUE)
            else issue env (push_bit OP_TYPE_SW_POSI FLASH_OPCODE_RDSR2 OR OP_SW OR WP_VALUE))
    (bindM (REG_READ env REG_FLASH_SR_DATA_CRC_CNT) (\<lambda>value. retM (ucast (value AND 0xFF)))))"

definition flash_set_qe :: "'h flash_env \<Rightarrow> ('h flash_st, unit) prog" where
  "flash_set_qe env = thenM (wait_idle env) (bindM current_config (\<lambda>cfg.
     bindM (flash_read_sr env (sr_size cfg)) (\<lambda>sr.
       let param = ucast sr :: u32;
           qe = push_bit (unat (qe_bit_post cfg)) (ucast (qe_bit cfg)) :: u32 in
       if param AND qe \<noteq> 0 then retM ()
       else bindM (REG_READ env REG_FLASH_CONF) (\<lambda>value.
         thenM (REG_WRITE env REG_FLASH_CONF
           ((value AND NOT (push_bit WRSR_DATA_POSI WRSR_DATA_MASK))
              OR push_bit WRSR_DATA_POSI (qe OR param)))
        (bindM (REG_READ env REG_FLASH_OPERATE_SW) (\<lambda>v.
          if sr_size cfg = 1
          then issue env ((v AND ADDR_SW_REG_MASK)
                 OR push_bit OP_TYPE_SW_POSI FLASH_OPCODE_WRSR OR OP_SW OR WP_VALUE)
          else issue env ((v AND ADDR_SW_REG_MASK)
                 OR push_bit OP_TYPE_SW_POSI FLASH_OPCODE_WRSR2 OR OP_SW OR WP_VALUE)))))))"

definition flash_set_qwfr :: "'h flash_env \<Rightarrow> ('h flash_st, unit) prog" where
  "flash_set_qwfr env = bindM (REG_READ env REG_FLASH_CONF) (\<lambda>value.
     bindM current_config (\<lambda>cfg.
       REG_WRITE env REG_FLASH_CONF
         ((value AND NOT (push_bit MODEL_SEL_POSI MODEL_SEL_MASK))
            OR push_bit MODEL_SEL_POSI (ucast (mode_sel cfg)))))"

definition flash_clr_qwfr :: "'h flash_env \<Rightarrow> ('h flash_st, unit) prog" where
  "flash_clr_qwfr env = bindM (REG_READ env REG_FLASH_CONF) (\<lambda>value.
     thenM (REG_WRITE env REG_FLASH_CONF (value AND NOT (push_bit MODEL_SEL_POSI MODEL_SEL_MASK)))
    (bindM (REG_READ env REG_FLASH_OPERATE_SW) (\<lambda>v.
       issue env (push_bit OP_TYPE_SW_POSI FLASH_OPCODE_CRMR OR OP_SW OR (v AND WP_VALUE)))))"

definition flash_set_wsr :: "'h flash_env \<Rightarrow> u16 \<Rightarrow> ('h flash_st, unit) prog" where
  "flash_set_wsr env data = thenM (wait_idle env) (bindM (REG_READ env REG_FLASH_CONF) (\<lambda>value.
     thenM (REG_WRITE env REG_FLASH_CONF
       ((value AND NOT (push_bit WRSR_DATA_POSI WRSR_DATA_MASK))
          OR push_bit WRSR_DATA_POSI (ucast data)))
    (bindM (REG_READ env REG_FLASH_OPERATE_SW) (\<lambda>v.
       issue env ((v AND ADDR_SW_REG_MASK)
         OR push_bit OP_TYPE_SW_POSI FLASH_OPCODE_WRSR2 OR OP_SW OR WP_VALUE)))))"

definition flash_get_line_mode :: "('h flash_st, u8) prog" where
  "flash_get_line_mode = bindM current_config (\<lambda>cfg. retM (line_mode cfg))"

definition flash_set_line_mode :: "'h flash_env \<Rightarrow> u8 \<Rightarrow> ('h flash_st, unit) prog" where
  "flash_set_line_mode env mode =
     thenM (whenM (mode = 1) (flash_clr_qwfr env))
    (if mode = 2 then
       thenM (flash_clr_qwfr env)
      (bindM (REG_READ env REG_FLASH_CONF) (\<lambda>value.
         REG_WRITE env REG_FLASH_CONF
           ((value AND NOT (push_bit MODEL_SEL_POSI MODEL_SEL_MASK))
              OR push_bit MODEL_SEL_POSI (MODE_DUAL AND MODEL_SEL_MASK))))
     else if mode = 4 then
       thenM (flash_clr_qwfr env)
      (bindM (REG_READ env REG_FLASH_SR_DATA_CRC_CNT) (\<lambda>value.
       bindM current_config (\<lambda>cfg.
       thenM (REG_WRITE env REG_FLASH_SR_DATA_CRC_CNT
         ((value AND NOT (push_bit M_VALUE_POST M_VALUE_MASK))
            OR push_bit M_VALUE_POST (ucast (m_value cfg))))
      (thenM (REG_READ env REG_FLASH_SR_DATA_CRC_CNT)
      (thenM (whenM (qe_bit cfg = 1) (flash_set_qe env))
         (flash_set_qwfr env))))))
     else retM ())"

definition flash_get_id :: "'h flash_env \<Rightarrow> ('h flash_st, u32) prog" where
  "flash_get_id env =
     thenM (issue env (push_bit OP_TYPE_SW_POSI FLASH_OPCODE_RDID OR OP_SW OR WP_VALUE))
    (bindM (REG_READ env REG_FLASH_RDID_DATA_FLASH) (\<lambda>i.
       thenM (modM (\<lambda>s. s\<lparr>flash_id := i\<rparr>)) (retM i)))"

definition flash_read_mid :: "'h flash_env \<Rightarrow> ('h flash_st, u32) prog" where
  "flash_read_mid env = thenM (wait_idle env)
    (bindM (REG_READ env REG_FLASH_OPERATE_SW) (\<lambda>value.
       thenM (issue env ((value AND ADDR_SW_REG_MASK)
         OR push_bit OP_TYPE_SW_POSI FLASH_OPCODE_RDID OR OP_SW OR (value AND WP_VALUE)))
      (REG_READ env REG_FLASH_RDID_DATA_FLASH)))"

definition get_flash_protect :: "'h flash_env \<Rightarrow> ('h flash_st, u32) prog" where
  "get_flash_protect env = bindM current_config (\<lambda>cfg.
     bindM (flash_read_sr env (sr_size cfg)) (\<lambda>sr_value.
       let param = drop_bit (unat (protect_post cfg)) sr_value AND ucast (protect_mask cfg);
           cmp = drop_bit (unat (cmp_post cfg)) sr_value AND 0x01;
           value = push_bit 8 cmp OR param in
       retM (if value = protect_all cfg then FLASH_PROTECT_ALL
             else if value = protect_none cfg then FLASH_PROTECT_NONE
             else if value = protect_half cfg then FLASH_PROTECT_HALF
             else if value = unprotect_last_block cfg then FLASH_UNPROTECT_LAST_BLOCK
             else 0xFFFF)))"

definition protect_code :: "flash_config_t \<Rightarrow> u32 \<Rightarrow> u16" where
  "protect_code cfg t =
     (if t = FLASH_PROTECT_NONE then protect_none cfg
      else if t = FLASH_PROTECT_ALL then protect_all cfg
      else if t = FLASH_PROTECT_HALF then protect_half cfg
      else if t = FLASH_UNPROTECT_LAST_BLOCK then unprotect_last_block cfg
      else protect_all cfg)"

definition set_flash_protect :: "'h flash_env \<Rightarrow> u32 \<Rightarrow> ('h flash_st, unit) prog" where
  "set_flash_protect env t = bindM current_config (\<lambda>cfg.
     let param = ucast (protect_code cfg t AND 0xff) :: u32;
         cmp = ucast (drop_bit 8 (protect_code cfg t) AND 0xff) :: u32;
         pp = unat (protect_post cfg); cp = unat (cmp_post cfg);
         pm = ucast (protect_mask cfg) :: u32 in
     bindM (flash_read_sr env (sr_size cfg)) (\<lambda>sr.
       let value = ucast sr :: u32 in
       if push_bit pp param \<noteq> value AND push_bit pp pm
          \<or> push_bit cp cmp \<noteq> value AND push_bit cp 0x01 then
         let v1 = (value AND NOT (push_bit pp pm)) OR push_bit pp param;
             v2 = v1 AND NOT (push_bit cp 1);
             v3 = v2 OR push_bit cp (cmp AND 0x01) in
         flash_write_sr env (sr_size cfg) (ucast v3)
       else retM ()))"

definition flash_erase_sector :: "'h flash_env \<Rightarrow> u32 \<Rightarrow> ('h flash_st, unit) prog" where
  "flash_erase_sector env address = bindM current_config (\<lambda>cfg.
     let erase_addr = address AND 0xFFF000 in
     if erase_addr \<ge> flash_size cfg then retM ()
     else thenM (wait_idle env)
         (bindM (REG_READ env REG_FLASH_OPERATE_SW) (\<lambda>value.
            issue env (erase_addr OR push_bit OP_TYPE_SW_POSI FLASH_OPCODE_SE
              OR OP_SW OR (value AND WP_VALUE)))))"

definition flash_set_hpm :: "'h flash_env \<Rightarrow> ('h flash_st, unit) prog" where
  "flash_set_hpm env = thenM (wait_idle env)
    (bindM (REG_READ env REG_FLASH_OPERATE_SW) (\<lambda>value.
       issue env (push_bit OP_TYPE_SW_POSI FLASH_OPCODE_HPM OR OP_SW OR (value AND WP_VALUE))))"

text \<open>One 32-byte line: the READ command, then eight words from the data register.\<close>

definition read_line :: "'h flash_env \<Rightarrow> u32 \<Rightarrow> ('h flash_st, u8 list) prog" where
  "read_line env addr = bindM (REG_READ env REG_FLASH_OPERATE_SW) (\<lambda>reg_value.
     thenM (issue env (addr OR push_bit OP_TYPE_SW_POSI FLASH_OPCODE_READ
              OR OP_SW OR (reg_value AND WP_VALUE)))
    (bindM (mapM (\<lambda>_. REG_READ env REG_FLASH_DATA_FLASH_SW) [0..<8]) (\<lambda>buf.
       retM (words_bytes buf))))"

text \<open>
  \<open>line_step address len\<close> is the number of turns of the inner loop
  \<^verbatim>\<open>for(i = address % 32; i < 32; i++)\<close> with its \<^verbatim>\<open>break\<close> when \<open>len\<close> reaches 0.
\<close>

definition line_step :: "u32 \<Rightarrow> nat \<Rightarrow> nat" where
  "line_step address len = min (32 - unat (address mod 32)) len"

lemma line_step_pos: "0 < len \<Longrightarrow> 0 < line_step address len"
proof -
  assume "0 < len"
  have "unat (address mod 32) < 32" by (simp add: unat_mod)
  with \<open>0 < len\<close> show ?thesis by (simp add: line_step_def)
qed

function read_lines :: "'h flash_env \<Rightarrow> u32 \<Rightarrow> u32 \<Rightarrow> nat \<Rightarrow> ('h flash_st, u8 list) prog" where
  "read_lines env addr address len =
     (if len = 0 then retM []
      else let k = line_step address len in
        bindM (read_line env addr) (\<lambda>pb.
        bindM (read_lines env (addr + 32) (address + of_nat k) (len - k)) (\<lambda>rest.
          retM (take k (drop (unat (address mod 32)) pb) @ rest))))"
  by pat_completeness auto
termination
  by (relation "measure (\<lambda>(env, addr, address, len). len)") (use line_step_pos in fastforce)+

declare read_lines.simps [simp del]

definition flash_read_data :: "'h flash_env \<Rightarrow> u32 \<Rightarrow> nat \<Rightarrow> ('h flash_st, u8 list) prog" where
  "flash_read_data env address len =
     (let addr = address AND NOT 0x1F in
      if len = 0 then retM []
      else thenM (wait_idle env) (read_lines env addr address len))"

text \<open>
  The write loop. \<open>pb\<close> is the 32-byte line buffer; the last, short line is read back
  before it is filled, and the buffer is reset to \<open>0xFF\<close> after each line.
\<close>

definition fill_line :: "u8 list \<Rightarrow> nat \<Rightarrow> u8 list \<Rightarrow> u8 list" where
  "fill_line pb i bs = take i pb @ bs @ drop (i + length bs) pb"

function write_lines :: "'h flash_env \<Rightarrow> u32 \<Rightarrow> u32 \<Rightarrow> u8 list \<Rightarrow> u8 list \<Rightarrow> ('h flash_st, unit) prog" where
  "write_lines env addr address buffer pb =
     (if buffer = [] then retM ()
      else let k = line_step address (length buffer) in
        bindM (if length buffer < 32
               then bindM (flash_read_data env addr 32) (\<lambda>p. thenM (wait_idle env) (retM p))
               else retM pb) (\<lambda>pb'.
        let line = fill_line pb' (unat (address mod 32)) (take k buffer) in
        thenM (forM (bytes_words line) (\<lambda>w. REG_WRITE env REG_FLASH_DATA_SW_FLASH w))
       (bindM (REG_READ env REG_FLASH_OPERATE_SW) (\<lambda>reg_value.
        thenM (issue env (addr OR push_bit OP_TYPE_SW_POSI FLASH_OPCODE_PP
                 OR OP_SW OR (reg_value AND WP_VALUE)))
          (write_lines env (addr + 32) (address + of_nat k) (drop k buffer) (replicate 32 0xFF))))))"
  by pat_completeness auto
termination
  by (relation "measure (\<lambda>(env, addr, address, buffer, pb). length buffer)")
    (use line_step_pos in fastforce)+

declare write_lines.simps [simp del]

definition flash_write_data :: "'h flash_env \<Rightarrow> u8 list \<Rightarrow> u32 \<Rightarrow> ('h flash_st, unit) prog" where
  "flash_write_data env buffer address = bindM current_config (\<lambda>cfg.
     let addr = address AND NOT 0x1F; len = of_nat (length buffer) :: u32 in
     if addr \<ge> flash_size cfg \<or> len > flash_size cfg \<or> addr + len > flash_size cfg then retM ()
     else bindM (if address mod 32 \<noteq> 0 then flash_read_data env addr 32
                 else retM (replicate 32 0xFF)) (\<lambda>pb.
          thenM (wait_idle env) (write_lines env addr address buffer pb)))"

definition flash_protection_op :: "'h flash_env \<Rightarrow> u32 \<Rightarrow> ('h flash_st, unit) prog" where
  "flash_protection_op env t = set_flash_protect env t"

definition peri_busy_count_add :: "('h flash_st, unit) prog" where
  "peri_busy_count_add = modM (\<lambda>s. s\<lparr>peri_busy_count := peri_busy_count s + 1\<rparr>)"

definition peri_busy_count_dec :: "('h flash_st, unit) prog" where
  "peri_busy_count_dec = modM (\<lambda>s. s\<lparr>peri_busy_count := peri_busy_count s - 1\<rparr>)"

definition flash_read :: "'h flash_env \<Rightarrow> nat \<Rightarrow> u32 \<Rightarrow> ('h flash_st, u32 \<times> u8 list) prog" where
  "flash_read env count address =
     thenM peri_busy_count_add
    (bindM (flash_read_data env address count) (\<lambda>bs.
       thenM peri_busy_count_dec (retM (FLASH_SUCCESS, bs))))"

definition flash_write :: "'h flash_env \<Rightarrow> u8 list \<Rightarrow> u32 \<Rightarrow> ('h flash_st, u32) prog" where
  "flash_write env user_buf address =
     thenM peri_busy_count_add
    (bindM current_config (\<lambda>cfg.
       thenM (whenM (line_mode cfg = 4) (flash_set_line_mode env 2))
      (thenM (flash_write_data env user_buf address)
      (thenM (whenM (line_mode cfg = 4) (flash_set_line_mode env 4))
      (thenM peri_busy_count_dec (retM FLASH_SUCCESS))))))"

text \<open>
  The switch of \<^verbatim>\<open>flash_ctrl\<close>. \<open>parm\<close> is the 32-bit word that the \<^verbatim>\<open>void *parm\<close>
  argument points to, little-endian: commands that read a smaller type take its low
  bytes, commands that store through it return the updated word.
\<close>

definition flash_ctrl_switch :: "'h flash_env \<Rightarrow> u32 \<Rightarrow> u32 \<Rightarrow> ('h flash_st, u32 \<times> u32) prog" where
  "flash_ctrl_switch env cmd parm =
    (if cmd = CMD_FLASH_SET_CLK then
       thenM (flash_set_clk env (ucast parm)) (retM (FLASH_SUCCESS, parm))
     else if cmd = CMD_FLASH_SET_DPLL then
       thenM (modM (\<lambda>s. s\<lparr>hw := sctrl_flash_clk env True (hw s)\<rparr>))
      (bindM (REG_READ env REG_FLASH_CONF) (\<lambda>reg.
         thenM (REG_WRITE env REG_FLASH_CONF ((reg AND NOT FLASH_CLK_CONF_MASK) OR 5))
           (retM (FLASH_SUCCESS, parm))))
     else if cmd = CMD_FLASH_SET_DCO then
       thenM (modM (\<lambda>s. s\<lparr>hw := sctrl_flash_clk env False (hw s)\<rparr>))
      (bindM (REG_READ env REG_FLASH_CONF) (\<lambda>reg.
       bindM (getM (\<lambda>s. ate_mode env (hw s))) (\<lambda>ate.
         thenM (REG_WRITE env REG_FLASH_CONF
           ((reg AND NOT FLASH_CLK_CONF_MASK) OR (if ate then 0xB else 9)))
           (retM (FLASH_SUCCESS, parm)))))
     else if cmd = CMD_FLASH_WRITE_ENABLE then
       thenM (flash_write_enable env) (retM (FLASH_SUCCESS, parm))
     else if cmd = CMD_FLASH_WRITE_DISABLE then
       thenM (flash_write_disable env) (retM (FLASH_SUCCESS, parm))
     else if cmd = CMD_FLASH_READ_SR then
       bindM (flash_read_sr env 2) (\<lambda>sr.
         retM (FLASH_SUCCESS, (parm AND 0xFFFF0000) OR ucast sr))
     else if cmd = CMD_FLASH_WRITE_SR then
       thenM (flash_write_sr env (ucast (parm AND 0x00FF)) (ucast (drop_bit 8 parm AND 0x00FFFF)))
         (retM (FLASH_SUCCESS, parm))
     else if cmd = CMD_FLASH_READ_QE then
       bindM (flash_read_qe env) (\<lambda>qe. retM (FLASH_SUCCESS, (parm AND 0xFFFFFF00) OR ucast qe))
     else if cmd = CMD_FLASH_SET_QE then
       bindM current_config (\<lambda>cfg.
         thenM (whenM (qe_bit cfg \<noteq> 0) (flash_set_qe env)) (retM (FLASH_SUCCESS, parm)))
     else if cmd = CMD_FLASH_SET_QWFR then
       thenM (flash_set_qwfr env) (retM (FLASH_SUCCESS, parm))
     else if cmd = CMD_FLASH_CLR_QWFR then
       thenM (flash_clr_qwfr env) (retM (FLASH_SUCCESS, parm))
     else if cmd = CMD_FLASH_SET_WSR then
       thenM (flash_set_wsr env (ucast parm)) (retM (FLASH_SUCCESS, parm))
     else if cmd = CMD_FLASH_GET_ID then
       bindM (flash_get_id env) (\<lambda>i. retM (FLASH_SUCCESS, i))
     else if cmd = CMD_FLASH_READ_MID then
       bindM (flash_read_mid env) (\<lambda>i. retM (FLASH_SUCCESS, i))
     else if cmd = CMD_FLASH_GET_PROTECT then
       bindM (get_flash_protect env) (\<lambda>t. retM (FLASH_SUCCESS, t))
     else if cmd = CMD_FLASH_ERASE_SECTOR then
       thenM (flash_erase_sector env parm) (retM (FLASH_SUCCESS, parm))
     else if cmd = CMD_FLASH_SET_HPM then
       thenM (flash_set_hpm env) (retM (FLASH_SUCCESS, parm))
     else if cmd = CMD_FLASH_SET_PROTECT then
       thenM (flash_protection_op env parm) (retM (FLASH_SUCCESS, parm))
     else retM (FLASH_FAILURE, parm))"

definition flash_ctrl :: "'h flash_env \<Rightarrow> u32 \<Rightarrow> u32 \<Rightarrow> ('h flash_st, u32 \<times> u32) prog" where
  "flash_ctrl env cmd parm =
     thenM peri_busy_count_add
    (bindM current_config (\<lambda>cfg.
       thenM (whenM (line_mode cfg = 4) (flash_set_line_mode env 2))
      (bindM (flash_ctrl_switch env cmd parm) (\<lambda>r.
         thenM (whenM (line_mode cfg = 4) (flash_set_line_mode env 4))
        (thenM peri_busy_count_dec (retM r))))))"

end
