(* ===== verification/Flash_Chip.thy ===== *)
theory Flash_Chip
  imports Flash
begin

text \<open>
  What the flash driver relies on: the SPI-NOR chip behind the controller. \<open>nor_chip\<close>
  and \<open>nor_exec\<close> state the documented behaviour of the part (32-byte READ and page
  program PP, which can only clear bits and leaves protected bytes alone; 4 KB sector
  erase SE; status-register commands), and the locale \<open>nor_controller\<close> says that a
  controller implements it and finishes every command. The interpretation \<open>spec\<close> is
  the chip itself; \<open>slow\<close> is a controller that stays busy for a while after each
  command. The \<open>sim\<close> lemmas carry every driver function over to the chip.
\<close>

section \<open>The chip\<close>

record nor_chip =
  nc_mem :: "nat \<Rightarrow> u8"
  nc_sr :: u16
  nc_prot :: "u16 \<Rightarrow> nat \<Rightarrow> bool"
  nc_id :: u32
  nc_ate :: bool
  nc_op :: u32
  nc_conf :: u32
  nc_srdata :: u32
  nc_rx :: "u32 list"
  nc_tx :: "u32 list"

definition cmd_addr :: "u32 \<Rightarrow> nat" where
  "cmd_addr v = unat (v AND ADDR_SW_REG_MASK)"

definition cmd_op :: "u32 \<Rightarrow> u32" where
  "cmd_op v = drop_bit 24 v AND 0x1F"

definition page_program :: "(nat \<Rightarrow> bool) \<Rightarrow> (nat \<Rightarrow> u8) \<Rightarrow> nat \<Rightarrow> u8 list \<Rightarrow> nat \<Rightarrow> u8" where
  "page_program prot m a bs =
     (\<lambda>i. if a \<le> i \<and> i < a + length bs \<and> \<not> prot i then m i AND bs ! (i - a) else m i)"

definition sector_erase :: "(nat \<Rightarrow> bool) \<Rightarrow> (nat \<Rightarrow> u8) \<Rightarrow> nat \<Rightarrow> nat \<Rightarrow> u8" where
  "sector_erase prot m a = (\<lambda>i. if i div 4096 = a div 4096 \<and> \<not> prot i then 0xFF else m i)"

definition nor_exec :: "u32 \<Rightarrow> nor_chip \<Rightarrow> nor_chip" where
  "nor_exec v c0 =
    (let c = c0\<lparr>nc_op := v\<rparr>; a = cmd_addr v; opc = cmd_op v;
         wrsr = ucast (drop_bit WRSR_DATA_POSI (nc_conf c)) :: u16 in
     if v AND OP_SW = 0 then c
     else if opc = FLASH_OPCODE_READ then c\<lparr>nc_rx := bytes_words (mslice (nc_mem c) a 32)\<rparr>
     else if opc = FLASH_OPCODE_PP then
       c\<lparr>nc_mem := page_program (nc_prot c (nc_sr c)) (nc_mem c) a
           (words_bytes (drop (length (nc_tx c) - 8) (nc_tx c)))\<rparr>
     else if opc = FLASH_OPCODE_SE then
       c\<lparr>nc_mem := sector_erase (nc_prot c (nc_sr c)) (nc_mem c) a\<rparr>
     else if opc = FLASH_OPCODE_RDSR then
       c\<lparr>nc_srdata := (nc_srdata c AND NOT 0xFF) OR ucast (nc_sr c AND 0xFF)\<rparr>
     else if opc = FLASH_OPCODE_RDSR2 then
       c\<lparr>nc_srdata := (nc_srdata c AND NOT 0xFF) OR ucast (drop_bit 8 (nc_sr c))\<rparr>
     else if opc = FLASH_OPCODE_WRSR then
       c\<lparr>nc_sr := (nc_sr c AND NOT 0xFF) OR (wrsr AND 0xFF)\<rparr>
     else if opc = FLASH_OPCODE_WRSR2 then c\<lparr>nc_sr := wrsr\<rparr>
     else c)"

text \<open>The receive buffer is read cyclically; the transmit side records the words written.\<close>

fun nor_reg_read :: "flash_reg \<Rightarrow> nor_chip \<Rightarrow> u32 \<times> nor_chip" where
  "nor_reg_read REG_FLASH_OPERATE_SW c = (nc_op c AND NOT BUSY_SW, c)"
| "nor_reg_read REG_FLASH_DATA_FLASH_SW c =
     (case nc_rx c of [] \<Rightarrow> (0, c) | w # ws \<Rightarrow> (w, c\<lparr>nc_rx := ws @ [w]\<rparr>))"
| "nor_reg_read REG_FLASH_RDID_DATA_FLASH c = (nc_id c, c)"
| "nor_reg_read REG_FLASH_SR_DATA_CRC_CNT c = (nc_srdata c, c)"
| "nor_reg_read REG_FLASH_CONF c = (nc_conf c, c)"
| "nor_reg_read REG_FLASH_DATA_SW_FLASH c = (0, c)"

fun nor_reg_write :: "flash_reg \<Rightarrow> u32 \<Rightarrow> nor_chip \<Rightarrow> nor_chip" where
  "nor_reg_write REG_FLASH_OPERATE_SW v c = nor_exec v c"
| "nor_reg_write REG_FLASH_DATA_SW_FLASH v c = c\<lparr>nc_tx := nc_tx c @ [v]\<rparr>"
| "nor_reg_write REG_FLASH_SR_DATA_CRC_CNT v c = c\<lparr>nc_srdata := v\<rparr>"
| "nor_reg_write REG_FLASH_CONF v c = c\<lparr>nc_conf := v\<rparr>"
| "nor_reg_write REG_FLASH_DATA_FLASH_SW v c = c"
| "nor_reg_write REG_FLASH_RDID_DATA_FLASH v c = c"

definition nor_env :: "nor_chip flash_env" where
  "nor_env = \<lparr>reg_read = nor_reg_read, reg_write = nor_reg_write,
     sctrl_flash_clk = (\<lambda>_ c. c), ate_mode = nc_ate\<rparr>"

lemma nor_env_simps [simp]:
  "reg_read nor_env = nor_reg_read" "reg_write nor_env = nor_reg_write"
  "sctrl_flash_clk nor_env b c = c" "ate_mode nor_env = nc_ate"
  by (simp_all add: nor_env_def)

lemma not_busy_and: "(v AND NOT BUSY_SW) AND BUSY_SW = (0::u32)"
  by (simp add: and.assoc)

lemma wait_loop_nor_env [simp]: "wait_loop nor_env c = Some c"
  by (subst wait_loop.simps) (simp add: and.assoc)

section \<open>Controllers that implement the chip\<close>

definition chip_st :: "('h \<Rightarrow> nor_chip) \<Rightarrow> 'h flash_st \<Rightarrow> nor_chip flash_st" where
  "chip_st chip s = \<lparr>hw = chip (hw s), flash_current_config = flash_current_config s,
     flash_id = flash_id s, peri_busy_count = peri_busy_count s\<rparr>"

lemma chip_st_sel [simp]:
  "hw (chip_st chip s) = chip (hw s)"
  "flash_current_config (chip_st chip s) = flash_current_config s"
  "flash_id (chip_st chip s) = flash_id s"
  "peri_busy_count (chip_st chip s) = peri_busy_count s"
  by (simp_all add: chip_st_def)

lemma chip_st_upd [simp]:
  "chip_st chip (s\<lparr>hw := h\<rparr>) = (chip_st chip s)\<lparr>hw := chip h\<rparr>"
  "chip_st chip (s\<lparr>flash_current_config := c\<rparr>) = (chip_st chip s)\<lparr>flash_current_config := c\<rparr>"
  "chip_st chip (s\<lparr>flash_id := i\<rparr>) = (chip_st chip s)\<lparr>flash_id := i\<rparr>"
  "chip_st chip (s\<lparr>peri_busy_count := n\<rparr>) = (chip_st chip s)\<lparr>peri_busy_count := n\<rparr>"
  by (simp_all add: chip_st_def)

locale nor_controller =
  fixes env :: "'h flash_env"
    and chip :: "'h \<Rightarrow> nor_chip"
    and idle :: "'h \<Rightarrow> bool"
  assumes read_law: "idle h \<Longrightarrow> r \<noteq> REG_FLASH_DATA_SW_FLASH \<Longrightarrow> reg_read env r h = (v, h') \<Longrightarrow>
      idle h' \<and> nor_reg_read r (chip h) = (v, chip h')"
    and write_law: "idle h \<Longrightarrow> r \<noteq> REG_FLASH_OPERATE_SW \<Longrightarrow>
      idle (reg_write env r v h) \<and> chip (reg_write env r v h) = nor_reg_write r v (chip h)"
    and command_law: "idle h \<Longrightarrow> \<exists>h'. wait_loop env (reg_write env REG_FLASH_OPERATE_SW v h) = Some h'
      \<and> idle h' \<and> chip h' = nor_exec v (chip h)"
    and clk_law: "idle h \<Longrightarrow> idle (sctrl_flash_clk env b h) \<and> chip (sctrl_flash_clk env b h) = chip h"
    and ate_law: "ate_mode env h = nc_ate (chip h)"
begin

definition rel :: "'h flash_st \<Rightarrow> nor_chip flash_st \<Rightarrow> bool" where
  "rel s t \<longleftrightarrow> idle (hw s) \<and> t = chip_st chip s"

lemma wait_loop_idle: "idle h \<Longrightarrow> \<exists>h'. wait_loop env h = Some h' \<and> idle h' \<and> chip h' = chip h"
proof -
  assume h: "idle h"
  obtain v h' where rd: "reg_read env REG_FLASH_OPERATE_SW h = (v, h')" by fastforce
  from read_law [OF h _ rd] have "idle h'" "v = nc_op (chip h) AND NOT BUSY_SW" "chip h' = chip h" by auto
  with rd not_busy_and show ?thesis by (subst wait_loop.simps) simp
qed

lemma sim_wait_idle [sim_intros]: "sim rel (wait_idle env) (wait_idle nor_env)"
proof (rule simI)
  fix s t e assume "rel s t" "wait_idle nor_env t = Inl e"
  then show "wait_idle env s = Inl e" by (simp add: wait_idle_def)
next
  fix s t a t' assume r: "rel s t" and w: "wait_idle nor_env t = Inr (a, t')"
  then have t': "t' = t" by (simp add: wait_idle_def)
  from r wait_loop_idle obtain h' where "wait_loop env (hw s) = Some h'" "idle h'" "chip h' = chip (hw s)"
    by (auto simp: rel_def)
  with r t' show "\<exists>s'. wait_idle env s = Inr (a, s') \<and> rel s' t'"
    by (auto simp: wait_idle_def rel_def chip_st_def)
qed

lemma sim_issue [sim_intros]: "sim rel (issue env v) (issue nor_env v)"
proof (rule simI)
  fix s t e assume "rel s t" "issue nor_env v t = Inl e"
  then show "issue env v s = Inl e" by (simp add: issue_def REG_WRITE_def wait_idle_def)
next
  fix s t a t' assume r: "rel s t" and w: "issue nor_env v t = Inr (a, t')"
  from r command_law [of "hw s" v] obtain h'
    where "wait_loop env (reg_write env REG_FLASH_OPERATE_SW v (hw s)) = Some h'" "idle h'"
      "chip h' = nor_exec v (chip (hw s))" by (auto simp: rel_def)
  with r w show "\<exists>s'. issue env v s = Inr (a, s') \<and> rel s' t'"
    by (auto simp: issue_def REG_WRITE_def wait_idle_def rel_def)
qed

lemma sim_REG_READ [sim_intros]:
  "r \<noteq> REG_FLASH_DATA_SW_FLASH \<Longrightarrow> sim rel (REG_READ env r) (REG_READ nor_env r)"
proof (rule simI)
  fix s t e assume "rel s t" "REG_READ nor_env r t = Inl e"
  then show "REG_READ env r s = Inl e" by (simp add: REG_READ_def split: prod.splits)
next
  fix s t a t' assume nr: "r \<noteq> REG_FLASH_DATA_SW_FLASH" and r: "rel s t"
    and w: "REG_READ nor_env r t = Inr (a, t')"
  obtain v h' where rd: "reg_read env r (hw s) = (v, h')" by fastforce
  from r have "idle (hw s)" by (simp add: rel_def)
  from read_law [OF this nr rd] r w rd show "\<exists>s'. REG_READ env r s = Inr (a, s') \<and> rel s' t'"
    by (auto simp: REG_READ_def rel_def)
qed

lemma sim_REG_WRITE [sim_intros]:
  "r \<noteq> REG_FLASH_OPERATE_SW \<Longrightarrow> sim rel (REG_WRITE env r v) (REG_WRITE nor_env r v)"
  using write_law by (intro simI) (auto simp: REG_WRITE_def rel_def)

lemma sim_getM_config [sim_intros]: "sim rel (getM flash_current_config) (getM flash_current_config)"
  by (intro simI) (auto simp: rel_def)

lemma sim_getM_ate [sim_intros]:
  "sim rel (getM (\<lambda>s. ate_mode env (hw s))) (getM (\<lambda>s. ate_mode nor_env (hw s)))"
  by (intro simI) (auto simp: rel_def ate_law)

lemma sim_clk [sim_intros]:
  "sim rel (modM (\<lambda>s. s\<lparr>hw := sctrl_flash_clk env b (hw s)\<rparr>))
     (modM (\<lambda>s. s\<lparr>hw := sctrl_flash_clk nor_env b (hw s)\<rparr>))"
  using clk_law by (intro simI) (auto simp: rel_def)

lemma sim_current_config [sim_intros]: "sim rel current_config current_config"
  unfolding current_config_def by (intro sim_intros)

lemma sim_busy [sim_intros]:
  "sim rel peri_busy_count_add peri_busy_count_add" "sim rel peri_busy_count_dec peri_busy_count_dec"
  by (auto simp: peri_busy_count_add_def peri_busy_count_dec_def rel_def intro!: simI)

lemma sim_get_config [sim_intros]:
  "sim rel flash_get_current_flash_config flash_get_current_flash_config"
  by (auto simp: flash_get_current_flash_config_def rel_def intro!: simI)

lemma sim_set_id [sim_intros]: "sim rel (modM (\<lambda>s. s\<lparr>flash_id := i\<rparr>)) (modM (\<lambda>s. s\<lparr>flash_id := i\<rparr>))"
  by (auto simp: rel_def intro!: simI)

lemma sim_registers [sim_intros]:
  "sim rel (flash_set_clk env c) (flash_set_clk nor_env c)"
  "sim rel (flash_enable_cpu_data_wr env) (flash_enable_cpu_data_wr nor_env)"
  "sim rel (flash_disable_cpu_data_wr env) (flash_disable_cpu_data_wr nor_env)"
  "sim rel (flash_write_enable env) (flash_write_enable nor_env)"
  "sim rel (flash_write_disable env) (flash_write_disable nor_env)"
  "sim rel (flash_read_sr env w) (flash_read_sr nor_env w)"
  "sim rel (flash_write_sr env w x) (flash_write_sr nor_env w x)"
  "sim rel (flash_set_qwfr env) (flash_set_qwfr nor_env)"
  "sim rel (flash_clr_qwfr env) (flash_clr_qwfr nor_env)"
  "sim rel (flash_set_wsr env d) (flash_set_wsr nor_env d)"
  "sim rel (flash_get_id env) (flash_get_id nor_env)"
  "sim rel (flash_read_mid env) (flash_read_mid nor_env)"
  "sim rel (flash_set_hpm env) (flash_set_hpm nor_env)"
  "sim rel (flash_read_qe env) (flash_read_qe nor_env)"
  unfolding flash_set_clk_def flash_enable_cpu_data_wr_def flash_disable_cpu_data_wr_def
    flash_write_enable_def flash_write_disable_def flash_read_sr_def flash_write_sr_def
    flash_set_qwfr_def flash_clr_qwfr_def flash_set_wsr_def flash_get_id_def flash_read_mid_def
    flash_set_hpm_def flash_read_qe_def
  by (intro sim_intros; simp)+

lemma sim_protect [sim_intros]:
  "sim rel (flash_set_qe env) (flash_set_qe nor_env)"
  "sim rel (get_flash_protect env) (get_flash_protect nor_env)"
  "sim rel (set_flash_protect env t) (set_flash_protect nor_env t)"
  "sim rel (flash_erase_sector env a) (flash_erase_sector nor_env a)"
  "sim rel (flash_protection_op env t) (flash_protection_op nor_env t)"
  unfolding flash_set_qe_def get_flash_protect_def set_flash_protect_def flash_erase_sector_def
    flash_protection_op_def
  by (intro sim_intros; simp)+

lemma sim_set_line_mode [sim_intros]:
  "sim rel (flash_set_line_mode env m) (flash_set_line_mode nor_env m)"
  unfolding flash_set_line_mode_def by (intro sim_intros; simp)

lemma sim_read_line [sim_intros]: "sim rel (read_line env a) (read_line nor_env a)"
  unfolding read_line_def by (intro sim_intros; simp)

lemma sim_read_lines [sim_intros]:
  "sim rel (read_lines env addr address len) (read_lines nor_env addr address len)"
proof (induction len arbitrary: addr address rule: less_induct)
  case (less len)
  show ?case
  proof (cases "len = 0")
    case True
    then show ?thesis by (simp add: read_lines.simps sim_retM del: retM_run)
  next
    case False
    then have "len - line_step address len < len" using line_step_pos by simp
    note IH = less [OF this]
    from False show ?thesis
      by (simp add: read_lines.simps [of env addr address len] read_lines.simps [of nor_env addr address len])
        (intro sim_intros IH)
  qed
qed

lemma sim_flash_read_data [sim_intros]:
  "sim rel (flash_read_data env a n) (flash_read_data nor_env a n)"
  unfolding flash_read_data_def by (intro sim_intros)

lemma sim_write_lines [sim_intros]:
  "sim rel (write_lines env addr address buffer pb) (write_lines nor_env addr address buffer pb)"
proof (induction "length buffer" arbitrary: addr address buffer pb rule: less_induct)
  case less
  show ?case
  proof (cases "buffer = []")
    case True
    then show ?thesis by (simp add: write_lines.simps sim_intros)
  next
    case False
    then have "length (drop (line_step address (length buffer)) buffer) < length buffer"
      using line_step_pos by simp
    note IH = less [OF this]
    from False show ?thesis
      by (simp add: write_lines.simps [of env addr address buffer pb]
          write_lines.simps [of nor_env addr address buffer pb])
        (intro sim_intros IH impI conjI; simp add: IH sim_intros)
  qed
qed

lemma sim_flash_write_data [sim_intros]:
  "sim rel (flash_write_data env bs a) (flash_write_data nor_env bs a)"
  unfolding flash_write_data_def by (intro sim_intros)

lemma sim_flash_read [sim_intros]: "sim rel (flash_read env n a) (flash_read nor_env n a)"
  unfolding flash_read_def by (intro sim_intros)

lemma sim_flash_write [sim_intros]: "sim rel (flash_write env bs a) (flash_write nor_env bs a)"
  unfolding flash_write_def by (intro sim_intros)

lemma sim_flash_ctrl_switch [sim_intros]:
  "sim rel (flash_ctrl_switch env cmd p) (flash_ctrl_switch nor_env cmd p)"
  unfolding flash_ctrl_switch_def by (intro sim_intros; simp)

lemma sim_flash_ctrl [sim_intros]: "sim rel (flash_ctrl env cmd p) (flash_ctrl nor_env cmd p)"
  unfolding flash_ctrl_def by (intro sim_intros)

end

section \<open>Two controllers\<close>

interpretation spec: nor_controller nor_env "\<lambda>c. c" "\<lambda>_. True"
  by unfold_locales (auto simp: and.assoc)

text \<open>
  A controller that reports busy for \<open>k\<close> reads of the operation register after each
  command; the command's effect is visible when it is done.
\<close>

fun slow_reg_read :: "flash_reg \<Rightarrow> nat \<times> nor_chip \<Rightarrow> u32 \<times> nat \<times> nor_chip" where
  "slow_reg_read REG_FLASH_OPERATE_SW (Suc n, c) = (nc_op c OR BUSY_SW, n, c)"
| "slow_reg_read r (n, c) = (case nor_reg_read r c of (v, c') \<Rightarrow> (v, n, c'))"

fun slow_reg_write :: "nat \<Rightarrow> flash_reg \<Rightarrow> u32 \<Rightarrow> nat \<times> nor_chip \<Rightarrow> nat \<times> nor_chip" where
  "slow_reg_write k r v (n, c) = (if r = REG_FLASH_OPERATE_SW then k else n, nor_reg_write r v c)"

definition slow_env :: "nat \<Rightarrow> (nat \<times> nor_chip) flash_env" where
  "slow_env k = \<lparr>reg_read = slow_reg_read, reg_write = slow_reg_write k,
     sctrl_flash_clk = (\<lambda>_ h. h), ate_mode = (\<lambda>h. nc_ate (snd h))\<rparr>"

lemma slow_env_simps [simp]:
  "reg_read (slow_env k) = slow_reg_read" "reg_write (slow_env k) = slow_reg_write k"
  "sctrl_flash_clk (slow_env k) b h = h" "ate_mode (slow_env k) h = nc_ate (snd h)"
  by (simp_all add: slow_env_def)

lemma or_busy: "(v OR BUSY_SW) AND BUSY_SW = (BUSY_SW :: u32)"
  by (simp add: bit.conj_disj_distrib2 word_ao_absorbs)

lemma wait_loop_slow: "wait_loop (slow_env k) (n, c) = Some (0, c)"
proof (induction n)
  case 0
  show ?case by (subst wait_loop.simps) (simp add: and.assoc)
next
  case (Suc n)
  then show ?case by (subst wait_loop.simps) (simp add: or_busy)
qed

lemma slow_idle_read:
  "r \<noteq> REG_FLASH_DATA_SW_FLASH \<Longrightarrow> slow_reg_read r (0, c) = (case nor_reg_read r c of (v, c') \<Rightarrow> (v, 0, c'))"
  by (cases r) simp_all

interpretation slow: nor_controller "slow_env k" snd "\<lambda>h. fst h = 0" for k
  by unfold_locales (auto simp: slow_idle_read wait_loop_slow split: prod.splits)

end
