(* ===== verification/Flash_Props.thy ===== *)
theory Flash_Props
  imports Flash_Chip
begin

text \<open>
  The driver over the chip specification: what each driver function does to the flash
  contents and to the status register. The statements are lifted to any controller in
  the last section.
\<close>

section \<open>Command words\<close>

lemma below_24_bits:
  assumes "unat (a::u32) < 2 ^ 24"
  shows "a AND 0xFFFFFF = a" "drop_bit 24 a = 0"
proof -
  have "take_bit 24 a = a" using assms by (simp add: word_unat_eq_iff unsigned_take_bit_eq take_bit_nat_eq_self)
  moreover have "take_bit 24 a = a AND 0xFFFFFF" by (simp add: take_bit_eq_mask mask_eq_exp_minus_1)
  ultimately show "a AND 0xFFFFFF = a" by simp
  show "drop_bit 24 a = 0" using assms
    unfolding word_unat_eq_iff unat_drop_bit_eq by (simp add: drop_bit_eq_div)
qed

lemma cmd_decode:
  assumes "unat a < 2 ^ 24"
  shows "cmd_addr (a OR push_bit 24 FLASH_OPCODE_READ OR OP_SW OR (x AND WP_VALUE)) = unat a"
    "cmd_op (a OR push_bit 24 FLASH_OPCODE_READ OR OP_SW OR (x AND WP_VALUE)) = FLASH_OPCODE_READ"
    "cmd_addr (a OR push_bit 24 FLASH_OPCODE_PP OR OP_SW OR (x AND WP_VALUE)) = unat a"
    "cmd_op (a OR push_bit 24 FLASH_OPCODE_PP OR OP_SW OR (x AND WP_VALUE)) = FLASH_OPCODE_PP"
    "cmd_addr (a OR push_bit 24 FLASH_OPCODE_SE OR OP_SW OR (x AND WP_VALUE)) = unat a"
    "cmd_op (a OR push_bit 24 FLASH_OPCODE_SE OR OP_SW OR (x AND WP_VALUE)) = FLASH_OPCODE_SE"
  using below_24_bits [OF assms]
  by (simp_all add: cmd_addr_def cmd_op_def bit.conj_disj_distrib2 and.assoc drop_bit_or drop_bit_and)

lemma cmd_op_sw: "(a OR c OR OP_SW OR x) AND OP_SW \<noteq> 0"
  by (simp add: bit.conj_disj_distrib2 or_eq_0_iff)

section \<open>Lines of the flash\<close>

text \<open>
  \<open>flash_step s m s'\<close>: from \<open>s\<close> to \<open>s'\<close> the flash contents become \<open>m\<close>; the status
  register, the protection, the identity and the driver's variables stay as they are.
\<close>

definition flash_step :: "nor_chip flash_st \<Rightarrow> (nat \<Rightarrow> u8) \<Rightarrow> nor_chip flash_st \<Rightarrow> bool" where
  "flash_step s m s' \<longleftrightarrow> nc_mem (hw s') = m \<and> nc_sr (hw s') = nc_sr (hw s) \<and>
     nc_prot (hw s') = nc_prot (hw s) \<and> nc_id (hw s') = nc_id (hw s) \<and>
     flash_current_config s' = flash_current_config s \<and> flash_id s' = flash_id s \<and>
     peri_busy_count s' = peri_busy_count s"

lemma flash_step_refl [simp]: "m = nc_mem (hw s) \<Longrightarrow> flash_step s m s"
  by (simp add: flash_step_def)

lemma flash_step_trans: "flash_step s m s' \<Longrightarrow> flash_step s' m' s'' \<Longrightarrow> flash_step s m' s''"
  by (simp add: flash_step_def)

lemma wait_idle_nor [simp]: "wait_idle nor_env s = Inr ((), s)"
  by (simp add: wait_idle_def)

lemma issue_nor [simp]: "issue nor_env v s = Inr ((), s\<lparr>hw := nor_exec v (hw s)\<rparr>)"
  by (simp add: issue_def REG_WRITE_def)

lemma REG_READ_nor:
  "REG_READ nor_env r s = (case nor_reg_read r (hw s) of (v, c) \<Rightarrow> Inr (v, s\<lparr>hw := c\<rparr>))"
  by (simp add: REG_READ_def)

lemma REG_WRITE_nor:
  "REG_WRITE nor_env r v s = Inr ((), s\<lparr>hw := nor_reg_write r v (hw s)\<rparr>)"
  by (simp add: REG_WRITE_def)

lemma read_buffer:
  "n \<le> length (nc_rx (hw s)) \<Longrightarrow> length js = n \<Longrightarrow>
   mapM (\<lambda>_. REG_READ nor_env REG_FLASH_DATA_FLASH_SW) js s =
     Inr (take n (nc_rx (hw s)), s\<lparr>hw := (hw s)\<lparr>nc_rx := drop n (nc_rx (hw s)) @ take n (nc_rx (hw s))\<rparr>\<rparr>)"
proof (induction js arbitrary: n s)
  case Nil
  then show ?case by simp
next
  case (Cons j js)
  then obtain w ws where rx: "nc_rx (hw s) = w # ws" by (cases "nc_rx (hw s)") auto
  let ?s = "s\<lparr>hw := (hw s)\<lparr>nc_rx := ws @ [w]\<rparr>\<rparr>"
  from Cons.prems rx have n: "n = Suc (length js)" and l: "length js \<le> length ws" by auto
  have "mapM (\<lambda>_. REG_READ nor_env REG_FLASH_DATA_FLASH_SW) js ?s =
      Inr (take (length js) (nc_rx (hw ?s)),
        ?s\<lparr>hw := (hw ?s)\<lparr>nc_rx := drop (length js) (nc_rx (hw ?s)) @ take (length js) (nc_rx (hw ?s))\<rparr>\<rparr>)"
    using l by (intro Cons.IH) auto
  moreover have "REG_READ nor_env REG_FLASH_DATA_FLASH_SW s = Inr (w, ?s)"
    using rx by (simp add: REG_READ_nor)
  ultimately show ?case using rx n l by (simp add: prog_simps)
qed

lemma write_buffer:
  "forM ws (\<lambda>w. REG_WRITE nor_env REG_FLASH_DATA_SW_FLASH w) s =
     Inr ((), s\<lparr>hw := (hw s)\<lparr>nc_tx := nc_tx (hw s) @ ws\<rparr>\<rparr>)"
  by (induction ws arbitrary: s) (simp_all add: prog_simps REG_WRITE_def)

lemma read_line_nor:
  assumes "unat addr < 2 ^ 24"
  shows "\<exists>s'. read_line nor_env addr s = Inr (mslice (nc_mem (hw s)) (unat addr) 32, s')
     \<and> flash_step s (nc_mem (hw s)) s'"
proof -
  let ?line = "mslice (nc_mem (hw s)) (unat addr) 32"
  have l: "length (bytes_words ?line) = 8" by (rule length_bytes_words) simp
  have w: "words_bytes (bytes_words ?line) = ?line" by (rule words_bytes_words [of _ 8]) simp
  let ?v = "addr OR push_bit 24 FLASH_OPCODE_READ OR OP_SW OR (fst (nor_reg_read REG_FLASH_OPERATE_SW (hw s)) AND WP_VALUE)"
  have x: "nor_exec ?v (hw s) = (hw s)\<lparr>nc_op := ?v, nc_rx := bytes_words ?line\<rparr>"
    using cmd_decode(1,2) [OF assms] cmd_op_sw by (simp add: nor_exec_def Let_def)
  let ?s = "s\<lparr>hw := nor_exec ?v (hw s)\<rparr>"
  have "mapM (\<lambda>_. REG_READ nor_env REG_FLASH_DATA_FLASH_SW) [0..<8] ?s = Inr (bytes_words ?line, ?s)"
    using l x by (subst read_buffer [of 8]) simp_all
  then have "read_line nor_env addr s = Inr (?line, ?s)"
    using w by (simp add: read_line_def prog_simps REG_READ_nor)
  moreover have "flash_step s (nc_mem (hw s)) ?s" unfolding x by (simp add: flash_step_def)
  ultimately show ?thesis by blast
qed

lemma line_address:
  assumes "unat (addr::u32) = unat address div 32 * 32" and "unat address + len \<le> 2 ^ 24"
  shows "line_step address len = min (32 - unat address mod 32) len"
    and "unat (address + of_nat (line_step address len)) = unat address + line_step address len"
    and "line_step address len < len \<Longrightarrow>
      unat (addr + 32) = unat (address + of_nat (line_step address len)) div 32 * 32"
proof -
  show k: "line_step address len = min (32 - unat address mod 32) len"
    by (simp add: line_step_def unat_mod)
  have "unat address + line_step address len < 2 ^ 32" using assms k by simp
  then show a: "unat (address + of_nat (line_step address len)) = unat address + line_step address len"
    by (simp add: unat_word_ariths unat_of_nat)
  assume "line_step address len < len"
  then have "line_step address len = 32 - unat address mod 32" using k by simp
  then have "unat address + line_step address len = (unat address div 32 + 1) * 32"
    by presburger
  moreover have "unat (addr + 32) = unat addr + 32" using assms by (simp add: unat_word_ariths)
  ultimately show "unat (addr + 32) = unat (address + of_nat (line_step address len)) div 32 * 32"
    using a assms(1) by simp
qed

lemma read_lines_nor:
  assumes "len \<noteq> 0 \<Longrightarrow> unat addr = unat address div 32 * 32" and "unat address + len \<le> 2 ^ 24"
  shows "\<exists>s'. read_lines nor_env addr address len s = Inr (mslice (nc_mem (hw s)) (unat address) len, s')
     \<and> flash_step s (nc_mem (hw s)) s'"
  using assms
proof (induction len arbitrary: addr address s rule: less_induct)
  case (less len)
  show ?case
  proof (cases "len = 0")
    case True
    then show ?thesis by (simp add: read_lines.simps)
  next
    case False
    let ?k = "line_step address len" and ?m = "nc_mem (hw s)"
    note la = line_address [OF less.prems(1) [OF False] less.prems(2)]
    have k: "0 < ?k" "?k \<le> len" "?k \<le> 32 - unat address mod 32"
      using line_step_pos False la(1) by auto
    have addr: "unat addr < 2 ^ 24" using less.prems False by (auto simp: not_less)
    from read_line_nor [OF this] obtain s1
      where s1: "read_line nor_env addr s = Inr (mslice ?m (unat addr) 32, s1)" "flash_step s ?m s1" by blast
    then have m1: "nc_mem (hw s1) = ?m" by (simp add: flash_step_def)
    have "\<exists>s'. read_lines nor_env (addr + 32) (address + of_nat ?k) (len - ?k) s1
        = Inr (mslice (nc_mem (hw s1)) (unat (address + of_nat ?k)) (len - ?k), s')
        \<and> flash_step s1 (nc_mem (hw s1)) s'"
    proof (rule less.IH)
      show "len - ?k < len" using k by simp
      show "unat (addr + 32) = unat (address + of_nat ?k) div 32 * 32" if "len - ?k \<noteq> 0"
        using la(3) that by simp
      show "unat (address + of_nat ?k) + (len - ?k) \<le> 2 ^ 24" using la(2) less.prems(2) k by simp
    qed
    then obtain s2 where s2: "read_lines nor_env (addr + 32) (address + of_nat ?k) (len - ?k) s1
        = Inr (mslice ?m (unat address + ?k) (len - ?k), s2)" "flash_step s1 ?m s2"
      using la(2) m1 by auto
    have "take ?k (drop (unat address mod 32) (mslice ?m (unat addr) 32)) = mslice ?m (unat address) ?k"
      using less.prems(1) [OF False] k by (simp add: drop_mslice take_mslice)
    then have "read_lines nor_env addr address len s
        = Inr (mslice ?m (unat address) ?k @ mslice ?m (unat address + ?k) (len - ?k), s2)"
      using s1 s2 False by (simp add: read_lines.simps [of _ addr address len] Let_def unat_mod)
    also have "mslice ?m (unat address) ?k @ mslice ?m (unat address + ?k) (len - ?k) = mslice ?m (unat address) len"
      using k by (simp flip: mslice_add)
    finally show ?thesis using flash_step_trans [OF s1(2) s2(2)] by blast
  qed
qed

lemma align_down: "unat (address AND NOT 0x1F :: u32) = unat address div 32 * 32"
proof -
  have "address AND NOT (mask 5) = push_bit 5 (drop_bit 5 address)"
    by (rule bit_word_eqI) (auto simp: bit_simps)
  then have "unat (address AND NOT 0x1F :: u32) = unat (push_bit 5 (drop_bit 5 address))"
    by (simp add: mask_eq_exp_minus_1)
  also have "\<dots> = unat address div 32 * 32 mod 2 ^ 32"
    unfolding unsigned_push_bit_eq unat_drop_bit_eq
    by (simp add: push_bit_eq_mult drop_bit_eq_div take_bit_eq_mod)
  also have "\<dots> = unat address div 32 * 32"
    using word_unat_less32 [of address] div_times_less_eq_dividend [of "unat address" 32]
    by (intro mod_less) simp
  finally show ?thesis .
qed

lemma flash_read_data_nor:
  assumes "unat address + len \<le> 2 ^ 24"
  shows "\<exists>s'. flash_read_data nor_env address len s = Inr (mslice (nc_mem (hw s)) (unat address) len, s')
     \<and> flash_step s (nc_mem (hw s)) s'"
proof (cases "len = 0")
  case True
  then show ?thesis by (simp add: flash_read_data_def)
next
  case False
  have "\<exists>s'. read_lines nor_env (address AND NOT 0x1F) address len s
      = Inr (mslice (nc_mem (hw s)) (unat address) len, s') \<and> flash_step s (nc_mem (hw s)) s'"
    by (rule read_lines_nor [OF align_down assms])
  then show ?thesis using False by (simp add: flash_read_data_def Let_def)
qed


section \<open>Programming and erasing\<close>

lemma page_program_nil [simp]: "page_program p m a [] = m"
  by (auto simp: page_program_def fun_eq_iff)

lemma page_program_append:
  "page_program p m a (xs @ ys) = page_program p (page_program p m a xs) (a + length xs) ys"
  by (auto simp: page_program_def fun_eq_iff nth_append)

text \<open>
  Programming a whole line with the old bytes (or \<open>0xFF\<close>) around the new ones is the
  same as programming the new bytes alone.
\<close>

lemma page_program_fill:
  assumes "length pb = 32" and "i + length bs \<le> 32"
    and "\<And>j. j < 32 \<Longrightarrow> (j < i \<or> i + length bs \<le> j) \<Longrightarrow> m (a + j) AND pb ! j = m (a + j)"
  shows "page_program p m a (fill_line pb i bs) = page_program p m (a + i) bs"
proof
  fix x
  have n: "fill_line pb i bs ! j = (if j < i \<or> i + length bs \<le> j then pb ! j else bs ! (j - i))"
    if "j < 32" for j
    using assms(1,2) that by (auto simp: fill_line_def nth_append min_def)
  have l: "length (fill_line pb i bs) = 32" using assms(1,2) by (simp add: fill_line_def)
  show "page_program p m a (fill_line pb i bs) x = page_program p m (a + i) bs x"
    using assms(2) assms(3) [of "x - a"] n [of "x - a"]
    by (auto simp: page_program_def l not_less not_le)
qed

lemma length_fill_line: "length pb = 32 \<Longrightarrow> i + length bs \<le> 32 \<Longrightarrow> length (fill_line pb i bs) = 32"
  by (simp add: fill_line_def)

lemma program_line_nor:
  assumes "unat addr < 2 ^ 24" and "length line = 32"
  shows "\<exists>s'. thenM (forM (bytes_words line) (\<lambda>w. REG_WRITE nor_env REG_FLASH_DATA_SW_FLASH w))
      (bindM (REG_READ nor_env REG_FLASH_OPERATE_SW) (\<lambda>v.
         thenM (issue nor_env (addr OR push_bit OP_TYPE_SW_POSI FLASH_OPCODE_PP OR OP_SW OR (v AND WP_VALUE)))
           m)) s = m s'
    \<and> flash_step s (page_program (nc_prot (hw s) (nc_sr (hw s))) (nc_mem (hw s)) (unat addr) line) s'"
proof -
  have l: "length (bytes_words line) = 8" using assms(2) by (intro length_bytes_words) simp
  have w: "words_bytes (bytes_words line) = line" using assms(2) by (intro words_bytes_words [of _ 8]) simp
  show ?thesis
    using cmd_decode(3,4) [OF assms(1)] cmd_op_sw l w
    by (simp add: prog_simps write_buffer REG_READ_nor nor_exec_def Let_def flash_step_def)
      (rule exI, rule conjI, rule refl, simp)
qed

text \<open>
  The bytes around the new ones: a short line is read back, a full one is \<open>0xFF\<close> or was
  read back by the caller.
\<close>

definition old_bytes :: "(nat \<Rightarrow> u8) \<Rightarrow> nat \<Rightarrow> u8 list \<Rightarrow> nat \<Rightarrow> bool" where
  "old_bytes m a pb j \<longleftrightarrow> m (a + j) AND pb ! j = m (a + j)"

lemma old_bytes_mslice [simp]: "j < n \<Longrightarrow> old_bytes m a (mslice m a n) j"
  by (simp add: old_bytes_def)

lemma old_bytes_FF [simp]: "j < 32 \<Longrightarrow> old_bytes m a (replicate 32 0xFF) j"
proof -
  have ff: "(0xFF :: u8) = - 1" by simp
  have "x AND (0xFF :: u8) = x" for x
    unfolding ff by (rule and.right_neutral)
  then show "j < 32 \<Longrightarrow> ?thesis" by (simp add: old_bytes_def)
qed

lemma last_line_nor:
  assumes "unat addr + 32 \<le> 2 ^ 24" and "length pb = 32" and "k \<le> n"
    and "\<And>j. j < i \<Longrightarrow> old_bytes (nc_mem (hw s)) (unat addr) pb j" and "32 \<le> n \<Longrightarrow> i + k = 32"
  shows "\<exists>pb' s1. (if n < 32 then bindM (flash_read_data nor_env addr 32) (\<lambda>p. thenM (wait_idle nor_env) (retM p))
          else retM pb) s = Inr (pb', s1) \<and> flash_step s (nc_mem (hw s)) s1 \<and> length pb' = 32 \<and>
          (\<forall>j<32. (j < i \<or> i + k \<le> j) \<longrightarrow> old_bytes (nc_mem (hw s)) (unat addr) pb' j)"
proof (cases "n < 32")
  case True
  from flash_read_data_nor [OF assms(1)] obtain s1
    where "flash_read_data nor_env addr 32 s = Inr (mslice (nc_mem (hw s)) (unat addr) 32, s1)"
      "flash_step s (nc_mem (hw s)) s1"
    by blast
  with True show ?thesis by simp
next
  case False
  with assms show ?thesis by simp
qed

lemma line_bounds:
  assumes "n \<noteq> 0" and "unat (address::u32) + n \<le> 2 ^ 24" and "unat (addr::u32) = unat address div 32 * 32"
  shows "unat addr < 2 ^ 24" "unat addr + 32 \<le> 2 ^ 24" "unat address = unat addr + unat address mod 32"
proof -
  have "a div 32 * 32 < 2 ^ 24 \<and> a div 32 * 32 + 32 \<le> 2 ^ 24" if "a < 2 ^ 24" for a :: nat
  proof -
    have "a div 32 < 524288" by (rule less_mult_imp_div_less) (use that in simp)
    then show ?thesis by simp
  qed
  moreover have "unat address < 2 ^ 24" using assms by simp
  ultimately show "unat addr < 2 ^ 24" "unat addr + 32 \<le> 2 ^ 24" unfolding assms(3) by auto
  show "unat address = unat addr + unat address mod 32" unfolding assms(3) by simp
qed

lemma write_lines_step:
  fixes buffer :: "u8 list"
  defines "k \<equiv> \<lambda>a. line_step a (length buffer)"
  assumes "buffer \<noteq> []" and al: "unat addr = unat address div 32 * 32"
    and bound: "unat address + length buffer \<le> 2 ^ 24" and "length pb = 32"
    and "\<And>j. j < unat address mod 32 \<Longrightarrow> old_bytes (nc_mem (hw s)) (unat addr) pb j"
  shows "\<exists>s2. write_lines nor_env addr address buffer pb s =
       write_lines nor_env (addr + 32) (address + of_nat (k address)) (drop (k address) buffer) (replicate 32 0xFF) s2
     \<and> flash_step s (page_program (nc_prot (hw s) (nc_sr (hw s))) (nc_mem (hw s)) (unat address)
          (take (k address) buffer)) s2"
proof -
  let ?k = "k address" and ?i = "unat address mod 32" and ?m = "nc_mem (hw s)"
    and ?p = "nc_prot (hw s) (nc_sr (hw s))"
  have k: "?k \<le> length buffer" "?i + ?k \<le> 32" "32 \<le> length buffer \<Longrightarrow> ?i + ?k = 32"
    using line_address(1) [OF al bound] by (auto simp: k_def)
  note b = line_bounds [OF _ bound al]
  from last_line_nor [OF b(2) assms(5) k(1) assms(6) k(3)] assms(2)
  obtain pb' s1 where pb': "(if length buffer < 32 then bindM (flash_read_data nor_env addr 32)
        (\<lambda>p. thenM (wait_idle nor_env) (retM p)) else retM pb) s = Inr (pb', s1)"
    and s1: "flash_step s ?m s1" and l: "length pb' = 32"
    and old: "\<And>j. j < 32 \<Longrightarrow> j < ?i \<or> ?i + ?k \<le> j \<Longrightarrow> old_bytes ?m (unat addr) pb' j"
    by auto
  have um: "unat (address mod 32) = unat address mod 32" by (simp add: unat_mod)
  let ?line = "fill_line pb' ?i (take ?k buffer)"
  let ?rest = "write_lines nor_env (addr + 32) (address + of_nat ?k) (drop ?k buffer) (replicate 32 0xFF)"
  have "length ?line = 32" using l k by (intro length_fill_line) auto
  from program_line_nor [OF b(1) this, of ?rest s1] assms(2) obtain s2 where
    s2: "thenM (forM (bytes_words ?line) (\<lambda>w. REG_WRITE nor_env REG_FLASH_DATA_SW_FLASH w))
      (bindM (REG_READ nor_env REG_FLASH_OPERATE_SW) (\<lambda>v.
       thenM (issue nor_env (addr OR push_bit OP_TYPE_SW_POSI FLASH_OPCODE_PP OR OP_SW OR (v AND WP_VALUE)))
        ?rest)) s1 = ?rest s2"
    and "flash_step s1 (page_program (nc_prot (hw s1) (nc_sr (hw s1))) (nc_mem (hw s1)) (unat addr) ?line) s2"
    by auto
  with s1 have st2: "flash_step s (page_program ?p ?m (unat addr) ?line) s2" by (simp add: flash_step_def)
  have "page_program ?p ?m (unat addr) ?line = page_program ?p ?m (unat addr + ?i) (take ?k buffer)"
    using l k old by (intro page_program_fill) (auto simp: old_bytes_def)
  with st2 b(3) assms(2) have "flash_step s (page_program ?p ?m (unat address) (take ?k buffer)) s2" by simp
  moreover have "write_lines nor_env addr address buffer pb s = ?rest s2"
    unfolding s2 [symmetric] write_lines.simps [of nor_env addr address buffer pb]
    by (simp only: if_not_P [OF assms(2)] Let_def um k_def bindM_Inr [where m =
      "if length buffer < 32 then bindM (flash_read_data nor_env addr 32)
        (\<lambda>p. thenM (wait_idle nor_env) (retM p)) else retM pb", OF pb'])
  ultimately show ?thesis by blast
qed

lemma write_lines_nor:
  assumes "buffer \<noteq> [] \<Longrightarrow> unat addr = unat address div 32 * 32"
    and "unat address + length buffer \<le> 2 ^ 24" and "length pb = 32"
    and "\<And>j. j < unat address mod 32 \<Longrightarrow> old_bytes (nc_mem (hw s)) (unat addr) pb j"
  shows "\<exists>s'. write_lines nor_env addr address buffer pb s = Inr ((), s')
     \<and> flash_step s (page_program (nc_prot (hw s) (nc_sr (hw s))) (nc_mem (hw s)) (unat address) buffer) s'"
  using assms
proof (induction "length buffer" arbitrary: addr address buffer pb s rule: less_induct)
  case less
  show ?case
  proof (cases "buffer = []")
    case True
    then show ?thesis by (simp add: write_lines.simps)
  next
    case False
    let ?k = "line_step address (length buffer)" and ?m = "nc_mem (hw s)" and ?p = "nc_prot (hw s) (nc_sr (hw s))"
    let ?rest = "write_lines nor_env (addr + 32) (address + of_nat ?k) (drop ?k buffer) (replicate 32 0xFF)"
    note la = line_address [OF less.prems(1) [OF False] less.prems(2)]
    have k: "0 < ?k" "?k \<le> length buffer" using line_step_pos False la(1) by auto
    from write_lines_step [OF False less.prems(1) [OF False] less.prems(2-4)]
    obtain s2 where eq: "write_lines nor_env addr address buffer pb s = ?rest s2"
      and st2: "flash_step s (page_program ?p ?m (unat address) (take ?k buffer)) s2" by blast
    have "\<exists>s'. ?rest s2 = Inr ((), s') \<and> flash_step s2 (page_program (nc_prot (hw s2) (nc_sr (hw s2)))
        (nc_mem (hw s2)) (unat (address + of_nat ?k)) (drop ?k buffer)) s'"
    proof (rule less.hyps)
      show "length (drop ?k buffer) < length buffer" using k by simp
      show "unat (addr + 32) = unat (address + of_nat ?k) div 32 * 32" if "drop ?k buffer \<noteq> []"
        using la(3) that by simp
      show "unat (address + of_nat ?k) + length (drop ?k buffer) \<le> 2 ^ 24" using la(2) less.prems(2) k by simp
      show "old_bytes (nc_mem (hw s2)) (unat (addr + 32)) (replicate 32 0xFF) j"
        if "j < unat (address + of_nat ?k) mod 32" for j
        by (rule old_bytes_FF) (use that in simp)
    qed simp
    then obtain s3 where s3: "?rest s2 = Inr ((), s3)"
      and "flash_step s2 (page_program ?p (page_program ?p ?m (unat address) (take ?k buffer))
           (unat address + ?k) (drop ?k buffer)) s3"
      using st2 la(2) by (auto simp: flash_step_def)
    moreover have "page_program ?p (page_program ?p ?m (unat address) (take ?k buffer)) (unat address + ?k) (drop ?k buffer)
      = page_program ?p ?m (unat address) buffer"
      using page_program_append [of ?p ?m "unat address" "take ?k buffer" "drop ?k buffer"] k by simp
    ultimately have "flash_step s (page_program ?p ?m (unat address) buffer) s3"
      using flash_step_trans [OF st2] by simp
    with eq s3 show ?thesis by auto
  qed
qed

section \<open>The driver's entry points over the chip\<close>

text \<open>The part of a configuration row that writing and erasing rely on.\<close>

definition config_ok :: "flash_config_t \<Rightarrow> bool" where
  "config_ok cfg \<longleftrightarrow> line_mode cfg \<noteq> 4 \<and> flash_size cfg \<le> 0x800000 \<and> 0x100000 \<le> flash_size cfg"

lemma flash_config_ok: "cfg \<in> set flash_config \<Longrightarrow> config_ok cfg"
  by (auto simp: flash_config_def mk_config_def config_ok_def)

lemma current_config_run [simp]: "flash_current_config s = Some cfg \<Longrightarrow> current_config s = Inr (cfg, s)"
  by (simp add: current_config_def)

text \<open>
  What the bound check of \<^verbatim>\<open>flash_write_data\<close> accepts: it is made on the address of
  the first line, not on the address itself.
\<close>

definition write_accepted :: "flash_config_t \<Rightarrow> nat \<Rightarrow> nat \<Rightarrow> bool" where
  "write_accepted cfg a n \<longleftrightarrow> a div 32 * 32 < unat (flash_size cfg) \<and> a div 32 * 32 + n \<le> unat (flash_size cfg)"

lemma write_check:
  fixes address :: u32
  assumes "config_ok cfg" and "n < 2 ^ 32"
  defines "addr \<equiv> address AND NOT 0x1F"
  shows "(addr \<ge> flash_size cfg \<or> of_nat n > flash_size cfg \<or> addr + of_nat n > flash_size cfg)
     \<longleftrightarrow> \<not> write_accepted cfg (unat address) n"
proof -
  have s: "unat (flash_size cfg) \<le> 0x800000"
    using assms(1) by (simp add: config_ok_def word_le_nat_alt)
  have n: "unat (of_nat n :: u32) = n" using assms(2) by (simp add: unat_of_nat)
  have a: "unat addr = unat address div 32 * 32" unfolding addr_def by (rule align_down)
  have "unat (addr + of_nat n) = unat addr + n" if "unat addr < unat (flash_size cfg)" "n \<le> unat (flash_size cfg)"
    using that s n by (simp add: unat_word_ariths)
  then show ?thesis unfolding write_accepted_def word_le_nat_alt word_less_nat_alt n a
    by (cases "unat address div 32 * 32 < unat (flash_size cfg) \<and> n \<le> unat (flash_size cfg)") auto
qed

lemma write_accepted_bound:
  assumes "config_ok cfg" and "write_accepted cfg a n"
  shows "a + n \<le> 2 ^ 24" and "a div 32 * 32 + 32 \<le> 2 ^ 24"
proof -
  have s: "unat (flash_size cfg) \<le> 0x800000"
    using assms(1) by (simp add: config_ok_def word_le_nat_alt)
  have "a < a div 32 * 32 + 32" using div_mult_mod_eq [of a 32] mod_less_divisor [of 32 a] by linarith
  with s assms(2) have "a + n \<le> 2 ^ 24 \<and> a div 32 * 32 + 32 \<le> 2 ^ 24"
    unfolding write_accepted_def by simp
  then show "a + n \<le> 2 ^ 24" "a div 32 * 32 + 32 \<le> 2 ^ 24" by simp_all
qed

lemma first_line_nor:
  assumes "unat addr + 32 \<le> 2 ^ 24"
  shows "\<exists>pb s'. (if unat address mod 32 \<noteq> 0 then flash_read_data nor_env addr 32 else retM (replicate 32 0xFF)) s
       = Inr (pb, s') \<and> flash_step s (nc_mem (hw s)) s' \<and> length pb = 32 \<and>
       (\<forall>j < unat address mod 32. old_bytes (nc_mem (hw s)) (unat addr) pb j)"
proof (cases "unat address mod 32 = 0")
  case True
  then show ?thesis by simp
next
  case False
  from flash_read_data_nor [OF assms] obtain s'
    where "flash_read_data nor_env addr 32 s = Inr (mslice (nc_mem (hw s)) (unat addr) 32, s')"
      "flash_step s (nc_mem (hw s)) s'" by blast
  with False show ?thesis by simp
qed

lemma flash_write_data_nor:
  assumes "flash_current_config s = Some cfg" and "config_ok cfg" and "length buffer < 2 ^ 32"
  shows "\<exists>s'. flash_write_data nor_env buffer address s = Inr ((), s') \<and>
     flash_step s (if write_accepted cfg (unat address) (length buffer)
       then page_program (nc_prot (hw s) (nc_sr (hw s))) (nc_mem (hw s)) (unat address) buffer
       else nc_mem (hw s)) s'"
proof (cases "write_accepted cfg (unat address) (length buffer)")
  case False
  then show ?thesis
    using assms(1) write_check [OF assms(2,3), of address] by (simp add: flash_write_data_def Let_def)
next
  case True
  let ?addr = "address AND NOT 0x1F"
  note b = write_accepted_bound [OF assms(2) True]
  from first_line_nor [of ?addr address s] b(2) obtain pb s1 where
    pb: "(if unat address mod 32 \<noteq> 0 then flash_read_data nor_env ?addr 32 else retM (replicate 32 0xFF)) s
       = Inr (pb, s1)" and s1: "flash_step s (nc_mem (hw s)) s1" and l: "length pb = 32"
    and old: "\<forall>j < unat address mod 32. old_bytes (nc_mem (hw s)) (unat ?addr) pb j"
    unfolding align_down by blast
  have "\<exists>s'. write_lines nor_env ?addr address buffer pb s1 = Inr ((), s')
     \<and> flash_step s1 (page_program (nc_prot (hw s1) (nc_sr (hw s1))) (nc_mem (hw s1)) (unat address) buffer) s'"
    using s1 old by (intro write_lines_nor align_down b l) (auto simp: flash_step_def)
  then obtain s' where s': "write_lines nor_env ?addr address buffer pb s1 = Inr ((), s')"
    "flash_step s1 (page_program (nc_prot (hw s) (nc_sr (hw s))) (nc_mem (hw s)) (unat address) buffer) s'"
    using s1 by (auto simp: flash_step_def)
  have md: "address mod 32 \<noteq> 0 \<longleftrightarrow> unat address mod 32 \<noteq> 0" by (simp add: word_unat_eq_iff unat_mod)
  have chk: "\<not> (?addr \<ge> flash_size cfg \<or> of_nat (length buffer) > flash_size cfg
      \<or> ?addr + of_nat (length buffer) > flash_size cfg)"
    using write_check [OF assms(2,3), of address] True by simp
  have "flash_write_data nor_env buffer address s = thenM (wait_idle nor_env) (write_lines nor_env ?addr address buffer pb) s1"
    unfolding flash_write_data_def bindM_Inr [where m = current_config, OF current_config_run [OF assms(1)]] Let_def if_not_P [OF chk] md
    by (rule bindM_Inr) (rule pb)
  with s' flash_step_trans [OF s1 s'(2)] True show ?thesis by auto
qed

lemma flash_erase_sector_nor:
  fixes address :: u32
  assumes "flash_current_config s = Some cfg"
  defines "a \<equiv> unat (address AND 0xFFF000)"
  shows "\<exists>s'. flash_erase_sector nor_env address s = Inr ((), s') \<and>
     flash_step s (if a < unat (flash_size cfg)
       then sector_erase (nc_prot (hw s) (nc_sr (hw s))) (nc_mem (hw s)) a else nc_mem (hw s)) s'"
proof (cases "address AND 0xFFF000 \<ge> flash_size cfg")
  case True
  then show ?thesis using assms(1) by (simp add: flash_erase_sector_def a_def word_le_nat_alt)
next
  case False
  have "address AND 0xFFF000 \<le> 0xFFF000" by (rule word_and_le1)
  then have "a < 2 ^ 24" by (simp add: a_def word_le_nat_alt)
  note d = cmd_decode(5,6) [OF this [unfolded a_def]]
  from False show ?thesis using assms(1) d cmd_op_sw
    by (simp add: flash_erase_sector_def prog_simps REG_READ_nor nor_exec_def Let_def flash_step_def a_def
        word_le_nat_alt)
qed

section \<open>The status register and write protection\<close>

lemma u8_mask: "(0xFF :: 'a::len word) = mask 8"
  by (simp add: mask_eq_exp_minus_1)

lemma sr_low: "ucast (((d AND NOT 0xFF) OR ucast (sr AND 0xFF :: u16)) AND 0xFF :: u32) = (sr AND 0xFF :: u16)"
  unfolding u8_mask by (rule bit_word_eqI) (auto simp: bit_simps)

lemma sr_high:
  "(sr AND 0xFF) OR ucast (push_bit 8 (((d AND NOT 0xFF) OR ucast (drop_bit 8 (sr :: u16))) AND 0xFF :: u32)) = sr"
  unfolding u8_mask by (rule bit_word_eqI) (auto simp: bit_simps not_less)

text \<open>Like \<open>flash_step\<close>, for operations on the status register.\<close>

definition sr_step :: "nor_chip flash_st \<Rightarrow> u16 \<Rightarrow> nor_chip flash_st \<Rightarrow> bool" where
  "sr_step s v s' \<longleftrightarrow> nc_sr (hw s') = v \<and> nc_mem (hw s') = nc_mem (hw s) \<and>
     nc_prot (hw s') = nc_prot (hw s) \<and> nc_id (hw s') = nc_id (hw s) \<and>
     flash_current_config s' = flash_current_config s \<and> flash_id s' = flash_id s \<and>
     peri_busy_count s' = peri_busy_count s"

lemma sr_step_trans: "sr_step s v s' \<Longrightarrow> sr_step s' v' s'' \<Longrightarrow> sr_step s v' s''"
  by (simp add: sr_step_def)

definition sr_view :: "u8 \<Rightarrow> u16 \<Rightarrow> u16" where
  "sr_view w sr = (if w = 2 then sr else sr AND 0xFF)"

lemma flash_read_sr_nor:
  "\<exists>s'. flash_read_sr nor_env w s = Inr (sr_view w (nc_sr (hw s)), s') \<and> sr_step s (nc_sr (hw s)) s'"
proof -
  let ?d = "(nc_srdata (hw s) AND NOT 0xFF) OR ucast (nc_sr (hw s) AND 0xFF)"
  show ?thesis
    using sr_low [of "nc_srdata (hw s)" "nc_sr (hw s)"] sr_high [of "nc_sr (hw s)" ?d]
    by (simp add: flash_read_sr_def prog_simps REG_READ_nor nor_exec_def cmd_op_def Let_def sr_step_def sr_view_def)
qed

definition sr_written :: "u8 \<Rightarrow> u16 \<Rightarrow> u16 \<Rightarrow> u16" where
  "sr_written w old v = (if w = 1 then (old AND NOT 0xFF) OR (v AND 0xFF) else if w = 2 then v else old)"

lemma wrsr_field: "ucast (drop_bit 10 ((c AND NOT (push_bit 10 0xFFFF)) OR push_bit 10 (ucast v)) :: u32) = (v :: u16)"
proof -
  have m: "(0xFFFF :: u32) = mask 16" by (simp add: mask_eq_exp_minus_1)
  show ?thesis unfolding m by (rule bit_word_eqI) (auto simp: bit_simps)
qed

lemma flash_write_sr_nor:
  "\<exists>s'. flash_write_sr nor_env w v s = Inr ((), s') \<and> sr_step s (sr_written w (nc_sr (hw s)) v) s'"
  using wrsr_field [of "nc_conf (hw s)" v]
  by (simp add: flash_write_sr_def prog_simps REG_READ_nor REG_WRITE_nor nor_exec_def cmd_op_def Let_def
      sr_step_def sr_written_def)

text \<open>
  The protection field of the status register: the compare bit above the block-protect
  bits, as \<^verbatim>\<open>get_flash_protect\<close> assembles it, and the value \<^verbatim>\<open>set_flash_protect\<close> writes.
\<close>

definition protect_field :: "flash_config_t \<Rightarrow> u16 \<Rightarrow> u16" where
  "protect_field cfg sr = push_bit 8 (drop_bit (unat (cmp_post cfg)) sr AND 1)
     OR (drop_bit (unat (protect_post cfg)) sr AND ucast (protect_mask cfg))"

definition protect_value :: "u32 \<Rightarrow> nat \<Rightarrow> nat \<Rightarrow> u32 \<Rightarrow> u32 \<Rightarrow> u32 \<Rightarrow> u32" where
  "protect_value value pp cp pm param cmp =
     (((value AND NOT (push_bit pp pm)) OR push_bit pp param) AND NOT (push_bit cp 1)) OR push_bit cp (cmp AND 1)"

lemma protect_value_field:
  fixes pm param cmp :: u32 and w :: "u16 \<Rightarrow> u16"
  assumes disj: "\<And>n. bit pm n \<Longrightarrow> pp + n \<noteq> cp \<and> pp + n < l \<and> pp + n < 16" and "cp < l" "l \<le> 16"
    and sub: "\<And>n. bit param n \<Longrightarrow> bit pm n" and view: "\<And>v n. n < l \<Longrightarrow> bit (w v) n = bit v n"
  shows "drop_bit pp (w (ucast (protect_value value pp cp pm param cmp))) AND ucast pm = (ucast param :: u16)"
    and "drop_bit cp (w (ucast (protect_value value pp cp pm param cmp))) AND 1 = (ucast cmp AND 1 :: u16)"
proof -
  have disj': "pp + n < 16 \<and> pp + n < 32" if "bit param n" for n
    using disj [OF sub [OF that]] by simp
  show "drop_bit pp (w (ucast (protect_value value pp cp pm param cmp))) AND ucast pm = (ucast param :: u16)"
    using assms disj' by (intro bit_word_eqI) (auto simp: bit_simps protect_value_def)
  show "drop_bit cp (w (ucast (protect_value value pp cp pm param cmp))) AND 1 = (ucast cmp AND 1 :: u16)"
    using assms by (intro bit_word_eqI) (auto simp: bit_simps protect_value_def bit_1_iff)
qed

text \<open>The layouts that occur in the configuration table.\<close>

definition protect_layout :: "flash_config_t \<Rightarrow> bool" where
  "protect_layout cfg \<longleftrightarrow> protect_post cfg = 2 \<and> (protect_mask cfg = mask 4 \<or> protect_mask cfg = mask 5) \<and>
     (sr_size cfg = 1 \<and> cmp_post cfg = 0 \<or> sr_size cfg = 2 \<and> (cmp_post cfg = 0 \<or> cmp_post cfg = 14))"

definition code_ok :: "flash_config_t \<Rightarrow> u16 \<Rightarrow> bool" where
  "code_ok cfg c \<longleftrightarrow> c = push_bit 8 (drop_bit 8 c AND 1) OR (c AND 0xff) \<and>
     (c AND 0xff) AND ucast (protect_mask cfg) = c AND 0xff"

lemma flash_config_layout:
  assumes "cfg \<in> set flash_config"
  shows "protect_layout cfg" and "code_ok cfg (protect_code cfg t)"
proof -
  show "protect_layout cfg" using assms
    by (auto simp: flash_config_def mk_config_def protect_layout_def mask_eq_exp_minus_1)
  have "code_ok cfg (protect_none cfg) \<and> code_ok cfg (protect_all cfg) \<and> code_ok cfg (protect_half cfg)
     \<and> code_ok cfg (unprotect_last_block cfg)"
    using assms by (auto simp: flash_config_def mk_config_def code_ok_def)
  then show "code_ok cfg (protect_code cfg t)" by (simp add: protect_code_def)
qed

lemma protect_value_written:
  fixes v0 :: u32 and c :: u16
  assumes "protect_layout cfg" and "code_ok cfg c"
  defines "v \<equiv> protect_value v0 (unat (protect_post cfg)) (unat (cmp_post cfg)) (ucast (protect_mask cfg))
     (ucast (c AND 0xff)) (ucast (drop_bit 8 c AND 0xff))"
  shows "protect_field cfg (sr_view (sr_size cfg) (ucast v)) = c"
proof -
  let ?pm = "ucast (protect_mask cfg) :: u32" and ?l = "if sr_size cfg = 1 then 8 else 16 :: nat"
    and ?param = "ucast (c AND 0xff) :: u32" and ?cmp = "ucast (drop_bit 8 c AND 0xff) :: u32"
  have disj: "unat (protect_post cfg) + n \<noteq> unat (cmp_post cfg) \<and> unat (protect_post cfg) + n < ?l
      \<and> unat (protect_post cfg) + n < 16" if "bit ?pm n" for n
    using assms(1) that by (auto simp: protect_layout_def bit_simps)
  have cp: "unat (cmp_post cfg) < ?l" using assms(1) by (auto simp: protect_layout_def)
  have sub: "bit ?pm n" if "bit ?param n" for n
  proof -
    from that have "bit ((c AND 0xff) AND ucast (protect_mask cfg)) n"
      using assms(2) by (simp add: code_ok_def bit_simps)
    then show ?thesis by (auto simp: bit_simps)
  qed
  have view: "bit (sr_view (sr_size cfg) x) n = bit x n" if "n < ?l" for x n
    using that assms(1) by (auto simp: sr_view_def u8_mask bit_simps protect_layout_def split: if_splits)
  have pm: "ucast ?pm = (ucast (protect_mask cfg) :: u16)"
    by (rule bit_word_eqI) (auto simp: bit_simps)
  note f = protect_value_field [where w = "sr_view (sr_size cfg)" and l = ?l and param = ?param and cmp = ?cmp
      and pm = ?pm, unfolded pm]
  have "drop_bit (unat (protect_post cfg)) (sr_view (sr_size cfg) (ucast v)) AND ucast (protect_mask cfg)
      = (ucast ?param :: u16)"
    unfolding v_def by (rule f(1)) (use disj cp sub view in auto)
  moreover have "drop_bit (unat (cmp_post cfg)) (sr_view (sr_size cfg) (ucast v)) AND 1 = (ucast ?cmp AND 1 :: u16)"
    unfolding v_def by (rule f(2)) (use disj cp sub view in auto)
  ultimately have "protect_field cfg (sr_view (sr_size cfg) (ucast v)) = push_bit 8 (ucast ?cmp AND 1) OR ucast ?param"
    unfolding protect_field_def by (simp only:)
  also have "ucast ?param = c AND 0xff" by (simp add: u8_mask) (rule bit_word_eqI, auto simp: bit_simps)
  also have "ucast ?cmp AND 1 = drop_bit 8 c AND 1"
    by (rule bit_word_eqI) (auto simp: u8_mask bit_simps bit_1_iff)
  finally show ?thesis using assms(2) by (simp add: code_ok_def)
qed

lemma protect_value_same:
  assumes "push_bit pp param = v0 AND push_bit pp pm" "push_bit cp cmp = v0 AND push_bit cp 1" "cp < 32"
  shows "protect_value v0 pp cp pm param cmp = v0"
proof -
  have 1: "bit v0 n \<and> pp \<le> n \<and> bit pm (n - pp) \<longleftrightarrow> pp \<le> n \<and> bit param (n - pp)" if "n < 32" for n
    using arg_cong [OF assms(1), of "\<lambda>w. bit w n"] that by (auto simp: bit_simps)
  have 2: "bit v0 n \<and> n = cp \<longleftrightarrow> cp \<le> n \<and> bit cmp (n - cp)" if "n < 32" for n
    using arg_cong [OF assms(2), of "\<lambda>w. bit w n"] that by (auto simp: bit_simps)
  show ?thesis using 1 2 [of cp] assms(3)
    by (intro bit_word_eqI) (auto simp: protect_value_def bit_simps)
qed

definition protect_type :: "flash_config_t \<Rightarrow> u16 \<Rightarrow> u32" where
  "protect_type cfg c =
     (if c = protect_all cfg then FLASH_PROTECT_ALL
      else if c = protect_none cfg then FLASH_PROTECT_NONE
      else if c = protect_half cfg then FLASH_PROTECT_HALF
      else if c = unprotect_last_block cfg then FLASH_UNPROTECT_LAST_BLOCK
      else 0xFFFF)"

lemma get_flash_protect_nor:
  assumes "flash_current_config s = Some cfg"
  shows "\<exists>s'. get_flash_protect nor_env s
       = Inr (protect_type cfg (protect_field cfg (sr_view (sr_size cfg) (nc_sr (hw s)))), s')
     \<and> sr_step s (nc_sr (hw s)) s'"
proof -
  from flash_read_sr_nor obtain s' where
    "flash_read_sr nor_env (sr_size cfg) s = Inr (sr_view (sr_size cfg) (nc_sr (hw s)), s')"
    "sr_step s (nc_sr (hw s)) s'" by blast
  with assms show ?thesis
    by (simp add: get_flash_protect_def prog_simps Let_def protect_type_def protect_field_def)
qed

lemma sr_view_written: "w = 1 \<or> w = 2 \<Longrightarrow> sr_view w (sr_written w old v) = sr_view w v"
  by (auto simp: sr_view_def sr_written_def bit.conj_disj_distrib2 and.assoc)

lemma sr_view_idem: "ucast (ucast (sr_view w sr) :: u32) = sr_view w sr"
  by (rule bit_word_eqI) (auto simp: bit_simps)

lemma sr_view_view: "sr_view w (sr_view w sr) = sr_view w sr"
  by (simp add: sr_view_def and.assoc)

lemma set_flash_protect_nor:
  assumes "flash_current_config s = Some cfg" and "cfg \<in> set flash_config"
  shows "\<exists>s' v. set_flash_protect nor_env t s = Inr ((), s') \<and> sr_step s v s'
     \<and> protect_field cfg (sr_view (sr_size cfg) v) = protect_code cfg t"
proof -
  let ?c = "protect_code cfg t" and ?w = "sr_size cfg" and ?pp = "unat (protect_post cfg)"
    and ?cp = "unat (cmp_post cfg)" and ?pm = "ucast (protect_mask cfg) :: u32"
  note lay = flash_config_layout [OF assms(2)]
  have w: "?w = 1 \<or> ?w = 2" and cp: "?cp < 32" using lay(1) by (auto simp: protect_layout_def)
  from flash_read_sr_nor obtain s1 where
    s1: "flash_read_sr nor_env ?w s = Inr (sr_view ?w (nc_sr (hw s)), s1)" "sr_step s (nc_sr (hw s)) s1" by blast
  let ?v0 = "ucast (sr_view ?w (nc_sr (hw s))) :: u32"
  let ?v3 = "protect_value ?v0 ?pp ?cp ?pm (ucast (?c AND 0xff)) (ucast (drop_bit 8 ?c AND 0xff))"
  from flash_write_sr_nor obtain s2 where
    s2: "flash_write_sr nor_env ?w (ucast ?v3) s1 = Inr ((), s2)"
      "sr_step s1 (sr_written ?w (nc_sr (hw s1)) (ucast ?v3)) s2" by blast
  note written = protect_value_written [OF lay(1) lay(2), of ?v0 t]
  show ?thesis
  proof (cases "push_bit ?pp (ucast (?c AND 0xff)) = ?v0 AND push_bit ?pp ?pm
      \<and> push_bit ?cp (ucast (drop_bit 8 ?c AND 0xff)) = ?v0 AND push_bit ?cp 1")
    case True
    then have "?v3 = ?v0" using cp by (intro protect_value_same) auto
    with written have "protect_field cfg (sr_view ?w (nc_sr (hw s))) = ?c"
      by (simp add: sr_view_idem sr_view_view)
    with True s1 assms(1) show ?thesis
      by (simp add: set_flash_protect_def Let_def) blast
  next
    case False
    then have "set_flash_protect nor_env t s = Inr ((), s2)"
      using s1(1) s2(1) assms(1)
      by (simp add: set_flash_protect_def Let_def) (auto simp: protect_value_def)
    moreover have "protect_field cfg (sr_view ?w (sr_written ?w (nc_sr (hw s1)) (ucast ?v3))) = ?c"
      using written sr_view_written [OF w] by simp
    ultimately show ?thesis using sr_step_trans [OF s1(2) s2(2)] by blast
  qed
qed

text \<open>The flash contents after an accepted or refused write, and after a sector erase.\<close>

definition written :: "flash_config_t \<Rightarrow> nor_chip \<Rightarrow> u32 \<Rightarrow> u8 list \<Rightarrow> nat \<Rightarrow> u8" where
  "written cfg c address buffer =
     (if write_accepted cfg (unat address) (length buffer)
      then page_program (nc_prot c (nc_sr c)) (nc_mem c) (unat address) buffer else nc_mem c)"

definition erased :: "flash_config_t \<Rightarrow> nor_chip \<Rightarrow> u32 \<Rightarrow> nat \<Rightarrow> u8" where
  "erased cfg c address =
     (if unat (address AND 0xFFF000) < unat (flash_size cfg)
      then sector_erase (nc_prot c (nc_sr c)) (nc_mem c) (unat (address AND 0xFFF000)) else nc_mem c)"

text \<open>Reads, writes and control requests leave the peripheral busy count as they found it.\<close>

lemma flash_read_nor:
  assumes "unat address + n \<le> 2 ^ 24"
  shows "\<exists>s'. flash_read nor_env n address s = Inr ((FLASH_SUCCESS, mslice (nc_mem (hw s)) (unat address) n), s')
     \<and> flash_step s (nc_mem (hw s)) s'"
proof -
  let ?s = "s\<lparr>peri_busy_count := peri_busy_count s + 1\<rparr>"
  from flash_read_data_nor [OF assms, of ?s] obtain s1
    where "flash_read_data nor_env address n ?s = Inr (mslice (nc_mem (hw s)) (unat address) n, s1)"
      "flash_step ?s (nc_mem (hw s)) s1" by auto
  then show ?thesis
    by (auto simp: flash_read_def peri_busy_count_add_def peri_busy_count_dec_def prog_simps flash_step_def)
qed

lemma flash_write_nor:
  assumes "flash_current_config s = Some cfg" and "config_ok cfg" and "length buffer < 2 ^ 32"
  shows "\<exists>s'. flash_write nor_env buffer address s = Inr (FLASH_SUCCESS, s') \<and>
     flash_step s (written cfg (hw s) address buffer) s'"
proof -
  let ?s = "s\<lparr>peri_busy_count := peri_busy_count s + 1\<rparr>"
  have c: "flash_current_config ?s = Some cfg" using assms(1) by simp
  have lm: "line_mode cfg \<noteq> 4" using assms(2) by (simp add: config_ok_def)
  from flash_write_data_nor [OF c assms(2,3), of address, folded written_def] obtain s1 where
    "flash_write_data nor_env buffer address ?s = Inr ((), s1)"
    "flash_step ?s (written cfg (hw s) address buffer) s1" by auto
  with c lm show ?thesis
    by (simp add: flash_write_def peri_busy_count_add_def peri_busy_count_dec_def)
      (simp add: flash_step_def)
qed

lemma flash_ctrl_nor:
  assumes "flash_current_config s = Some cfg" and "config_ok cfg"
    and "flash_ctrl_switch nor_env cmd p (s\<lparr>peri_busy_count := peri_busy_count s + 1\<rparr>) = Inr (r, s')"
  shows "flash_ctrl nor_env cmd p s = Inr (r, s'\<lparr>peri_busy_count := peri_busy_count s' - 1\<rparr>)"
  using assms by (simp add: flash_ctrl_def peri_busy_count_add_def peri_busy_count_dec_def config_ok_def)

lemma flash_ctrl_erase_nor:
  assumes "flash_current_config s = Some cfg" and "config_ok cfg"
  shows "\<exists>s'. flash_ctrl nor_env CMD_FLASH_ERASE_SECTOR address s = Inr ((FLASH_SUCCESS, address), s') \<and>
     flash_step s (erased cfg (hw s) address) s'"
proof -
  let ?s = "s\<lparr>peri_busy_count := peri_busy_count s + 1\<rparr>"
  have c: "flash_current_config ?s = Some cfg" using assms(1) by simp
  from flash_erase_sector_nor [OF c, of address, folded erased_def] obtain s1 where s1: "flash_erase_sector nor_env address ?s = Inr ((), s1)"
    "flash_step ?s (erased cfg (hw s) address) s1" by auto
  then have "flash_ctrl_switch nor_env CMD_FLASH_ERASE_SECTOR address ?s = Inr ((FLASH_SUCCESS, address), s1)"
    by (simp add: flash_ctrl_switch_def)
  from flash_ctrl_nor [OF assms this] s1(2) show ?thesis by (simp add: flash_step_def)
qed

lemma flash_ctrl_set_protect_nor:
  assumes "flash_current_config s = Some cfg" and "cfg \<in> set flash_config"
  shows "\<exists>s' v. flash_ctrl nor_env CMD_FLASH_SET_PROTECT t s = Inr ((FLASH_SUCCESS, t), s') \<and> sr_step s v s'
     \<and> protect_field cfg (sr_view (sr_size cfg) v) = protect_code cfg t"
proof -
  let ?s = "s\<lparr>peri_busy_count := peri_busy_count s + 1\<rparr>"
  have c: "flash_current_config ?s = Some cfg" using assms(1) by simp
  from set_flash_protect_nor [OF c assms(2), of t] obtain s1 v where
    s1: "set_flash_protect nor_env t ?s = Inr ((), s1)" "sr_step ?s v s1"
      "protect_field cfg (sr_view (sr_size cfg) v) = protect_code cfg t" by auto
  then have "flash_ctrl_switch nor_env CMD_FLASH_SET_PROTECT t ?s = Inr ((FLASH_SUCCESS, t), s1)"
    by (simp add: flash_ctrl_switch_def flash_protection_op_def)
  from flash_ctrl_nor [OF assms(1) flash_config_ok [OF assms(2)] this] s1(2,3) show ?thesis
    by (auto simp: sr_step_def)
qed

lemma flash_ctrl_get_protect_nor:
  assumes "flash_current_config s = Some cfg" and "config_ok cfg"
  shows "\<exists>s'. flash_ctrl nor_env CMD_FLASH_GET_PROTECT p s
       = Inr ((FLASH_SUCCESS, protect_type cfg (protect_field cfg (sr_view (sr_size cfg) (nc_sr (hw s))))), s')
     \<and> sr_step s (nc_sr (hw s)) s'"
proof -
  let ?s = "s\<lparr>peri_busy_count := peri_busy_count s + 1\<rparr>"
  have c: "flash_current_config ?s = Some cfg" using assms(1) by simp
  from get_flash_protect_nor [OF c] obtain s1 where
    s1: "get_flash_protect nor_env ?s
      = Inr (protect_type cfg (protect_field cfg (sr_view (sr_size cfg) (nc_sr (hw s)))), s1)"
      "sr_step ?s (nc_sr (hw s)) s1" by auto
  then have "flash_ctrl_switch nor_env CMD_FLASH_GET_PROTECT p ?s
      = Inr ((FLASH_SUCCESS, protect_type cfg (protect_field cfg (sr_view (sr_size cfg) (nc_sr (hw s))))), s1)"
    by (simp add: flash_ctrl_switch_def)
  from flash_ctrl_nor [OF assms this] s1(2) show ?thesis by (simp add: sr_step_def)
qed

section \<open>Any controller\<close>

context nor_controller
begin

lemma run_nor:
  assumes "sim rel m g" and "idle (hw s)" and "g (chip_st chip s) = Inr (a, t)"
  shows "\<exists>s'. m s = Inr (a, s') \<and> idle (hw s') \<and> chip_st chip s' = t"
  using simD_Inr [OF assms(1) _ assms(3), of s] assms(2) by (auto simp: rel_def)

lemma run_nor_ex:
  assumes "sim rel m g" and "idle (hw s)" and "\<exists>t. g (chip_st chip s) = Inr (a, t) \<and> P t"
  shows "\<exists>s'. m s = Inr (a, s') \<and> idle (hw s') \<and> P (chip_st chip s')"
  using assms(3) run_nor [OF assms(1,2)] by blast

lemma flash_read_run:
  assumes "idle (hw s)" and "unat address + n \<le> 2 ^ 24"
  shows "\<exists>s'. flash_read env n address s
       = Inr ((FLASH_SUCCESS, mslice (nc_mem (chip (hw s))) (unat address) n), s')
     \<and> idle (hw s') \<and> flash_step (chip_st chip s) (nc_mem (chip (hw s))) (chip_st chip s')"
  using run_nor_ex [OF sim_flash_read assms(1) flash_read_nor [OF assms(2)]] by simp

lemma flash_write_run:
  assumes "idle (hw s)" and "flash_current_config s = Some cfg" and "config_ok cfg" and "length buffer < 2 ^ 32"
  shows "\<exists>s'. flash_write env buffer address s = Inr (FLASH_SUCCESS, s') \<and> idle (hw s') \<and>
     flash_step (chip_st chip s) (written cfg (chip (hw s)) address buffer) (chip_st chip s')"
proof -
  have c: "flash_current_config (chip_st chip s) = Some cfg" using assms(2) by simp
  show ?thesis using run_nor_ex [OF sim_flash_write assms(1) flash_write_nor [OF c assms(3,4)]] by simp
qed

lemma flash_ctrl_erase_run:
  assumes "idle (hw s)" and "flash_current_config s = Some cfg" and "config_ok cfg"
  shows "\<exists>s'. flash_ctrl env CMD_FLASH_ERASE_SECTOR address s = Inr ((FLASH_SUCCESS, address), s') \<and> idle (hw s') \<and>
     flash_step (chip_st chip s) (erased cfg (chip (hw s)) address) (chip_st chip s')"
proof -
  have c: "flash_current_config (chip_st chip s) = Some cfg" using assms(2) by simp
  show ?thesis using run_nor_ex [OF sim_flash_ctrl assms(1) flash_ctrl_erase_nor [OF c assms(3)]] by simp
qed

lemma flash_ctrl_set_protect_run:
  assumes "idle (hw s)" and "flash_current_config s = Some cfg" and "cfg \<in> set flash_config"
  shows "\<exists>s' v. flash_ctrl env CMD_FLASH_SET_PROTECT t s = Inr ((FLASH_SUCCESS, t), s') \<and> idle (hw s')
     \<and> sr_step (chip_st chip s) v (chip_st chip s')
     \<and> protect_field cfg (sr_view (sr_size cfg) v) = protect_code cfg t"
proof -
  have c: "flash_current_config (chip_st chip s) = Some cfg" using assms(2) by simp
  from flash_ctrl_set_protect_nor [OF c assms(3), of t] obtain t' v where
    g: "flash_ctrl nor_env CMD_FLASH_SET_PROTECT t (chip_st chip s) = Inr ((FLASH_SUCCESS, t), t')"
    and v: "sr_step (chip_st chip s) v t'" "protect_field cfg (sr_view (sr_size cfg) v) = protect_code cfg t"
    by blast
  from run_nor [OF sim_flash_ctrl assms(1) g] v show ?thesis by blast
qed

lemma flash_ctrl_get_protect_run:
  assumes "idle (hw s)" and "flash_current_config s = Some cfg" and "config_ok cfg"
  shows "\<exists>s'. flash_ctrl env CMD_FLASH_GET_PROTECT p s
       = Inr ((FLASH_SUCCESS, protect_type cfg (protect_field cfg (sr_view (sr_size cfg) (nc_sr (chip (hw s)))))), s')
     \<and> idle (hw s') \<and> sr_step (chip_st chip s) (nc_sr (chip (hw s))) (chip_st chip s')"
proof -
  have c: "flash_current_config (chip_st chip s) = Some cfg" using assms(2) by simp
  show ?thesis using run_nor_ex [OF sim_flash_ctrl assms(1) flash_ctrl_get_protect_nor [OF c assms(3)]] by simp
qed

end

section \<open>Properties\<close>

lemma mslice_program:
  assumes "\<forall>i. a \<le> i \<and> i < a + length bs \<longrightarrow> \<not> p i"
  shows "mslice (page_program p m a bs) a (length bs) = map2 (AND) (mslice m a (length bs)) bs"
  using assms by (intro nth_equalityI) (auto simp: page_program_def)

lemma program_outside: "i < a \<or> a + length bs \<le> i \<Longrightarrow> page_program p m a bs i = m i"
  by (auto simp: page_program_def)

lemma accepted_inside:
  assumes "a + n \<le> unat (flash_size cfg)" and "a < unat (flash_size cfg)"
  shows "write_accepted cfg a n"
  unfolding write_accepted_def using assms div_times_less_eq_dividend [of a 32] by linarith

text \<open>
  C4: writing the flash and reading it back, on any controller that implements the
  chip. For a configured part, a write of at most \<open>2 ^ 32 - 1\<close> unprotected bytes inside
  the flash succeeds, reading the same range returns the old bytes with the bits of the
  new ones cleared (on erased flash, the new bytes themselves), every other byte keeps
  its value and the peripheral busy count is back at its old value.
\<close>

theorem flash_write_read:
  assumes "nor_controller env chip idle" and "idle (hw s)" and "flash_current_config s = Some cfg"
    and "cfg \<in> set flash_config" and "unat a + length bs \<le> unat (flash_size cfg)" and "unat a < unat (flash_size cfg)"
    and "\<forall>i. unat a \<le> i \<and> i < unat a + length bs \<longrightarrow> \<not> nc_prot (chip (hw s)) (nc_sr (chip (hw s))) i"
  shows "\<exists>s' s''. flash_write env bs a s = Inr (FLASH_SUCCESS, s')
     \<and> flash_read env (length bs) a s' = Inr ((FLASH_SUCCESS,
          map2 (AND) (mslice (nc_mem (chip (hw s))) (unat a) (length bs)) bs), s'')
     \<and> (\<forall>i. i < unat a \<or> unat a + length bs \<le> i \<longrightarrow> nc_mem (chip (hw s'')) i = nc_mem (chip (hw s)) i)
     \<and> peri_busy_count s'' = peri_busy_count s"
proof -
  note ok = flash_config_ok [OF assms(4)]
  have sz: "unat (flash_size cfg) \<le> 0x800000" using ok by (simp add: config_ok_def word_le_nat_alt)
  have len: "length bs < 2 ^ 32" using assms(5) sz by simp
  have acc: "write_accepted cfg (unat a) (length bs)" by (rule accepted_inside [OF assms(5,6)])
  from nor_controller.flash_write_run [OF assms(1-3) ok len, of a] obtain s' where
    w: "flash_write env bs a s = Inr (FLASH_SUCCESS, s')" "idle (hw s')"
      "flash_step (chip_st chip s) (written cfg (chip (hw s)) a bs) (chip_st chip s')" by blast
  have m: "nc_mem (chip (hw s')) = page_program (nc_prot (chip (hw s)) (nc_sr (chip (hw s)))) (nc_mem (chip (hw s))) (unat a) bs"
    using w(3) acc by (simp add: flash_step_def written_def)
  have "unat a + length bs \<le> 2 ^ 24" using assms(5) sz by simp
  from nor_controller.flash_read_run [OF assms(1) w(2) this] obtain s'' where
    r: "flash_read env (length bs) a s' = Inr ((FLASH_SUCCESS, mslice (nc_mem (chip (hw s'))) (unat a) (length bs)), s'')"
      "flash_step (chip_st chip s') (nc_mem (chip (hw s'))) (chip_st chip s'')" by blast
  have "nc_mem (chip (hw s'')) = nc_mem (chip (hw s'))" "peri_busy_count s'' = peri_busy_count s"
    using w(3) r(2) by (simp_all add: flash_step_def)
  then show ?thesis using w(1) r(1) by (simp add: m mslice_program [OF assms(7)] program_outside)
qed

text \<open>A concrete part behind a slow controller, erased and unprotected.\<close>

definition demo_cfg :: flash_config_t where
  "demo_cfg = flash_config ! 3"

definition demo_chip :: nor_chip where
  "demo_chip = \<lparr>nc_mem = (\<lambda>_. 0xFF), nc_sr = 0,
     nc_prot = (\<lambda>sr i. protect_field demo_cfg (sr_view (sr_size demo_cfg) sr) \<noteq> protect_none demo_cfg),
     nc_id = 0x0B4015, nc_ate = False, nc_op = 0, nc_conf = 0, nc_srdata = 0, nc_rx = [], nc_tx = []\<rparr>"

definition demo_flash :: "(nat \<times> nor_chip) flash_st" where
  "demo_flash = \<lparr>hw = (0, demo_chip), flash_current_config = Some demo_cfg, flash_id = 0x0B4015, peri_busy_count = 0\<rparr>"

lemma demo_cfg_simps [simp]:
  "demo_cfg \<in> set flash_config" "flash_size demo_cfg = 0x200000" "sr_size demo_cfg = 2" "protect_none demo_cfg = 0"
  "protect_all demo_cfg = 0x1F" "protect_half demo_cfg = 0x0D" "unprotect_last_block demo_cfg = 0x101"
  by (simp_all add: demo_cfg_def flash_config_def mk_config_def)

lemma demo_chip_simps [simp]:
  "nc_mem demo_chip i = 0xFF" "nc_sr demo_chip = 0" "\<not> nc_prot demo_chip 0 i" "nc_id demo_chip = 0x0B4015"
  by (simp_all add: demo_chip_def protect_field_def sr_view_def)

lemma demo_flash_simps [simp]:
  "hw demo_flash = (0, demo_chip)" "flash_current_config demo_flash = Some demo_cfg" "peri_busy_count demo_flash = 0"
  by (simp_all add: demo_flash_def)

theorem flash_write_read_witness:
  "\<exists>s' s''. flash_write (slow_env 3) [1, 2, 3] 0x1001F demo_flash = Inr (FLASH_SUCCESS, s')
     \<and> flash_read (slow_env 3) (length [1, 2, 3 :: u8]) 0x1001F s' = Inr ((FLASH_SUCCESS,
          map2 (AND) (mslice (nc_mem (snd (hw demo_flash))) (unat (0x1001F :: u32)) (length [1, 2, 3 :: u8])) [1, 2, 3]), s'')
     \<and> (\<forall>i. i < unat (0x1001F :: u32) \<or> unat (0x1001F :: u32) + length [1, 2, 3 :: u8] \<le> i
          \<longrightarrow> nc_mem (snd (hw s'')) i = nc_mem (snd (hw demo_flash)) i)
     \<and> peri_busy_count s'' = peri_busy_count demo_flash"
  by (rule flash_write_read [OF slow.nor_controller_axioms, where cfg = demo_cfg]) simp_all

text \<open>
  the sector erase. For a configured part and an address inside the flash, the
  request sets every unprotected byte of the 4 KB sector of the address to \<open>0xFF\<close> and
  changes no other byte and not the status register; beyond the flash it changes
  nothing. In both cases it reports success.
\<close>

theorem flash_erase_sector_exact:
  assumes "nor_controller env chip idle" and "idle (hw s)" and "flash_current_config s = Some cfg"
    and "cfg \<in> set flash_config"
  shows "\<exists>s'. flash_ctrl env CMD_FLASH_ERASE_SECTOR a s = Inr ((FLASH_SUCCESS, a), s') \<and> idle (hw s')
     \<and> nc_sr (chip (hw s')) = nc_sr (chip (hw s)) \<and> peri_busy_count s' = peri_busy_count s
     \<and> (\<forall>i. nc_mem (chip (hw s')) i =
          (if unat (a AND 0xFFF000) < unat (flash_size cfg) \<and> i div 4096 = unat (a AND 0xFFF000) div 4096
              \<and> \<not> nc_prot (chip (hw s)) (nc_sr (chip (hw s))) i
           then 0xFF else nc_mem (chip (hw s)) i))"
proof -
  from nor_controller.flash_ctrl_erase_run [OF assms(1-3) flash_config_ok [OF assms(4)], of a] obtain s' where
    "flash_ctrl env CMD_FLASH_ERASE_SECTOR a s = Inr ((FLASH_SUCCESS, a), s')" "idle (hw s')"
    "flash_step (chip_st chip s) (erased cfg (chip (hw s)) a) (chip_st chip s')" by blast
  then show ?thesis by (simp add: flash_step_def erased_def sector_erase_def)
qed

theorem flash_erase_sector_exact_witness:
  "\<exists>s'. flash_ctrl (slow_env 7) CMD_FLASH_ERASE_SECTOR 0x1e1abc demo_flash = Inr ((FLASH_SUCCESS, 0x1e1abc), s') \<and> fst (hw s') = 0
     \<and> nc_sr (snd (hw s')) = nc_sr (snd (hw demo_flash)) \<and> peri_busy_count s' = peri_busy_count demo_flash
     \<and> (\<forall>i. nc_mem (snd (hw s')) i =
          (if unat ((0x1e1abc :: u32) AND 0xFFF000) < unat (flash_size demo_cfg)
              \<and> i div 4096 = unat ((0x1e1abc :: u32) AND 0xFFF000) div 4096
              \<and> \<not> nc_prot (snd (hw demo_flash)) (nc_sr (snd (hw demo_flash))) i
           then 0xFF else nc_mem (snd (hw demo_flash)) i))"
  by (rule flash_erase_sector_exact [OF slow.nor_controller_axioms]) simp_all

text \<open>
  the write protection. Setting a protection type and reading it back on a
  configured part returns the first type, in the order all, none, half, last block, that
  the part's row of the configuration table encodes like the requested one: the
  requested type itself when the row's codes are distinct. The flash contents stay as
  they are.
\<close>

theorem protect_roundtrip:
  assumes "nor_controller env chip idle" and "idle (hw s)" and "flash_current_config s = Some cfg"
    and "cfg \<in> set flash_config"
  shows "\<exists>s' s''. flash_ctrl env CMD_FLASH_SET_PROTECT t s = Inr ((FLASH_SUCCESS, t), s')
     \<and> flash_ctrl env CMD_FLASH_GET_PROTECT p s' = Inr ((FLASH_SUCCESS, protect_type cfg (protect_code cfg t)), s'')
     \<and> nc_mem (chip (hw s'')) = nc_mem (chip (hw s))
     \<and> (distinct [protect_none cfg, protect_all cfg, protect_half cfg, unprotect_last_block cfg] \<and> t \<le> 3
          \<longrightarrow> protect_type cfg (protect_code cfg t) = t)"
proof -
  from nor_controller.flash_ctrl_set_protect_run [OF assms, of t] obtain s' v where
    s': "flash_ctrl env CMD_FLASH_SET_PROTECT t s = Inr ((FLASH_SUCCESS, t), s')" "idle (hw s')"
      "sr_step (chip_st chip s) v (chip_st chip s')"
      "protect_field cfg (sr_view (sr_size cfg) v) = protect_code cfg t" by blast
  then have c: "flash_current_config s' = Some cfg" "nc_sr (chip (hw s')) = v"
    using assms(3) by (simp_all add: sr_step_def)
  from nor_controller.flash_ctrl_get_protect_run [OF assms(1) s'(2) c(1) flash_config_ok [OF assms(4)], of p]
  obtain s'' where s'': "flash_ctrl env CMD_FLASH_GET_PROTECT p s'
      = Inr ((FLASH_SUCCESS, protect_type cfg (protect_code cfg t)), s'')"
    "sr_step (chip_st chip s') v (chip_st chip s'')" using c(2) s'(4) by auto
  have "protect_type cfg (protect_code cfg t) = t"
    if "distinct [protect_none cfg, protect_all cfg, protect_half cfg, unprotect_last_block cfg]" "t \<le> 3"
  proof -
    have "unat t \<le> 3" using that(2) by (simp add: word_le_nat_alt)
    then have "unat t \<in> {0, 1, 2, 3}" by auto
    then have "t \<in> {0, 1, 2, 3}" by (simp add: word_unat_eq_iff)
    then show ?thesis using that(1) by (auto simp: protect_type_def protect_code_def)
  qed
  then show ?thesis using s'(1,3) s'' by (simp add: sr_step_def)
qed

theorem protect_roundtrip_witness:
  "\<exists>s' s''. flash_ctrl (slow_env 2) CMD_FLASH_SET_PROTECT FLASH_UNPROTECT_LAST_BLOCK demo_flash = Inr ((FLASH_SUCCESS, FLASH_UNPROTECT_LAST_BLOCK), s')
     \<and> flash_ctrl (slow_env 2) CMD_FLASH_GET_PROTECT 0 s'
         = Inr ((FLASH_SUCCESS, protect_type demo_cfg (protect_code demo_cfg FLASH_UNPROTECT_LAST_BLOCK)), s'')
     \<and> nc_mem (snd (hw s'')) = nc_mem (snd (hw demo_flash))
     \<and> (distinct [protect_none demo_cfg, protect_all demo_cfg, protect_half demo_cfg, unprotect_last_block demo_cfg]
          \<and> FLASH_UNPROTECT_LAST_BLOCK \<le> 3 \<longrightarrow> protect_type demo_cfg (protect_code demo_cfg FLASH_UNPROTECT_LAST_BLOCK) = FLASH_UNPROTECT_LAST_BLOCK)"
  by (rule protect_roundtrip [OF slow.nor_controller_axioms]) simp_all

text \<open>
  the bounds of a write. Whatever the address and length (a 32-bit count), a write
  changes no byte at or beyond 31 bytes past the end of the flash; the bound check
  accepts a write that ends past the end of the flash, because it is made on the
  address rounded down to a line: two bytes at the last address are accepted.
\<close>

theorem flash_write_bounds:
  assumes "nor_controller env chip idle" and "idle (hw s)" and "flash_current_config s = Some cfg"
    and "cfg \<in> set flash_config" and "length bs < 2 ^ 32"
  shows "\<exists>s'. flash_write env bs a s = Inr (FLASH_SUCCESS, s')
     \<and> (\<forall>i \<ge> unat (flash_size cfg) + 31. nc_mem (chip (hw s')) i = nc_mem (chip (hw s)) i)
     \<and> (a = flash_size cfg - 1 \<and> length bs = 2 \<and> \<not> nc_prot (chip (hw s)) (nc_sr (chip (hw s))) (unat (flash_size cfg))
          \<longrightarrow> nc_mem (chip (hw s')) (unat (flash_size cfg)) = nc_mem (chip (hw s)) (unat (flash_size cfg)) AND bs ! 1)"
proof -
  note ok = flash_config_ok [OF assms(4)]
  have sz: "1 \<le> flash_size cfg" "flash_size cfg \<le> 0x800000" using ok by (auto simp: config_ok_def word_le_nat_alt)
  from nor_controller.flash_write_run [OF assms(1-3) ok assms(5), of a] obtain s' where
    w: "flash_write env bs a s = Inr (FLASH_SUCCESS, s')"
      "flash_step (chip_st chip s) (written cfg (chip (hw s)) a bs) (chip_st chip s')" by blast
  have m: "nc_mem (chip (hw s')) = written cfg (chip (hw s)) a bs" using w(2) by (simp add: flash_step_def)
  have "written cfg (chip (hw s)) a bs i = nc_mem (chip (hw s)) i" if "unat (flash_size cfg) + 31 \<le> i" for i
  proof -
    have "unat a < unat a div 32 * 32 + 32"
      using div_mult_mod_eq [of "unat a" 32] mod_less_divisor [of 32 "unat a"] by linarith
    then show ?thesis using that by (auto simp: written_def write_accepted_def page_program_def)
  qed
  moreover have "written cfg (chip (hw s)) a bs (unat (flash_size cfg)) = nc_mem (chip (hw s)) (unat (flash_size cfg)) AND bs ! 1"
    if "a = flash_size cfg - 1" "length bs = 2" "\<not> nc_prot (chip (hw s)) (nc_sr (chip (hw s))) (unat (flash_size cfg))"
  proof -
    have a: "unat a = unat (flash_size cfg) - 1" using that(1) sz(1) by (simp add: unat_sub)
    have "flash_size cfg \<in> {0x100000, 0x200000, 0x400000, 0x800000}"
      using assms(4) by (auto simp: flash_config_def mk_config_def)
    then have "write_accepted cfg (unat a) 2" unfolding a by (auto simp: write_accepted_def)
    then show ?thesis using that a sz(1) by (auto simp: written_def page_program_def word_le_nat_alt)
  qed
  ultimately show ?thesis using w(1) m by auto
qed

theorem flash_write_bounds_witness:
  "\<exists>s'. flash_write (slow_env 1) [0x12, 0x34] 0x1FFFFF demo_flash = Inr (FLASH_SUCCESS, s')
     \<and> (\<forall>i \<ge> unat (flash_size demo_cfg) + 31. nc_mem (snd (hw s')) i = nc_mem (snd (hw demo_flash)) i)
     \<and> (0x1FFFFF = flash_size demo_cfg - 1 \<and> length [0x12, 0x34 :: u8] = 2
          \<and> \<not> nc_prot (snd (hw demo_flash)) (nc_sr (snd (hw demo_flash))) (unat (flash_size demo_cfg))
          \<longrightarrow> nc_mem (snd (hw s')) (unat (flash_size demo_cfg))
               = nc_mem (snd (hw demo_flash)) (unat (flash_size demo_cfg)) AND [0x12, 0x34] ! 1)"
  by (rule flash_write_bounds [OF slow.nor_controller_axioms]) simp_all

end
