(* ===== verification/Drv_Model.thy ===== *)
theory Drv_Model
  imports Prelude
begin

text \<open>
  The device model, \<^verbatim>\<open>driver/common/drv_model.c\<close> and the start-up walk of
  \<^verbatim>\<open>driver/common/dd.c\<close>: two tables of devices, one with open, close, read, write and
  control operations and use counts, one with control only.

  The operations of a device are function pointers: a record of optional functions
  that act on the world \<open>'w\<close> behind the devices. \<open>'p\<close> is the type behind the
  \<^verbatim>\<open>void *param\<close> of a control request. A NULL name is \<open>None\<close>; the source passes
  it to \<^verbatim>\<open>strncmp\<close>, which then compares the bytes at address 0, the parameter
  \<open>mem0\<close>. C strings are lists without NUL, on which \<open>strncmp(a, b, n) == 0\<close> is
  \<open>take n a = take n b\<close>.
\<close>

abbreviation (input) DRV_SUCCESS :: u32 where "DRV_SUCCESS \<equiv> 0"
abbreviation (input) DRV_FAILURE :: u32 where "DRV_FAILURE \<equiv> 0xFFFFFFFB"
abbreviation (input) DD_HANDLE_MAGIC_WORD :: u32 where "DD_HANDLE_MAGIC_WORD \<equiv> 0xA5A50000"
abbreviation (input) DD_HANDLE_MAGIC_MASK :: u32 where "DD_HANDLE_MAGIC_MASK \<equiv> 0xFFFF0000"
abbreviation (input) DD_HANDLE_ID_MASK :: u32 where "DD_HANDLE_ID_MASK \<equiv> 0x0000FFFF"
abbreviation (input) DD_HANDLE_UNVALID :: u32 where "DD_HANDLE_UNVALID \<equiv> 0xFFFFFFFF"
abbreviation (input) DD_ID_UNVALID :: u32 where "DD_ID_UNVALID \<equiv> 0xFFFFFFFF"
abbreviation (input) DD_MAX_DEV :: nat where "DD_MAX_DEV \<equiv> 10"
abbreviation (input) DD_MAX_SDEV :: nat where "DD_MAX_SDEV \<equiv> 16"
abbreviation (input) DD_MAX_NAME_LEN :: nat where "DD_MAX_NAME_LEN \<equiv> 16"

datatype dd_state = DD_STATE_NODEVICE | DD_STATE_CLOSED | DD_STATE_OPENED | DD_STATE_BREAK | DD_STATE_SUCCESS

text \<open>
  \<open>op_read\<close> gets the old contents of the user buffer and returns the new ones;
  \<open>op_control\<close> gets and returns what the parameter pointer points to.
\<close>

record ('w, 'p) dd_operations =
  op_open :: "(u32 \<Rightarrow> ('w, u32) prog) option"
  op_close :: "('w, u32) prog option"
  op_read :: "(u8 list \<Rightarrow> u32 \<Rightarrow> u32 \<Rightarrow> ('w, u32 \<times> u8 list) prog) option"
  op_write :: "(u8 list \<Rightarrow> u32 \<Rightarrow> u32 \<Rightarrow> ('w, u32) prog) option"
  op_control :: "(u32 \<Rightarrow> 'p \<Rightarrow> ('w, u32 \<times> 'p) prog) option"

record ('w, 'p) sdd_operations =
  sop_control :: "(u32 \<Rightarrow> 'p \<Rightarrow> ('w, u32 \<times> 'p) prog) option"

text \<open>The fields \<^verbatim>\<open>method\<close> and \<^verbatim>\<open>private\<close> of the C structures are never used.\<close>

record ('w, 'p) drv_dev =
  dev_name :: "string option"
  use_cnt :: u32
  dev_state :: dd_state
  dev_op :: "('w, 'p) dd_operations option"

record ('w, 'p) drv_sdev =
  sdev_name :: "string option"
  sdev_state :: dd_state
  sdev_op :: "('w, 'p) sdd_operations option"

record ('w, 'p) drv_st =
  drv_dev_tbl :: "('w, 'p) drv_dev list"
  drv_sdev_tbl :: "('w, 'p) drv_sdev list"
  world :: 'w

definition zero_dev :: "('w, 'p) drv_dev" where
  "zero_dev = \<lparr>dev_name = None, use_cnt = 0, dev_state = DD_STATE_NODEVICE, dev_op = None\<rparr>"

definition zero_sdev :: "('w, 'p) drv_sdev" where
  "zero_sdev = \<lparr>sdev_name = None, sdev_state = DD_STATE_NODEVICE, sdev_op = None\<rparr>"

definition in_world :: "('w, 'a) prog \<Rightarrow> (('w, 'p) drv_st, 'a) prog" where
  "in_world m = (\<lambda>s. case m (world s) of Inl e \<Rightarrow> Inl e | Inr (a, w) \<Rightarrow> Inr (a, s\<lparr>world := w\<rparr>))"

definition upd_dev :: "nat \<Rightarrow> (('w, 'p) drv_dev \<Rightarrow> ('w, 'p) drv_dev) \<Rightarrow> (('w, 'p) drv_st, unit) prog" where
  "upd_dev i f = modM (\<lambda>s. s\<lparr>drv_dev_tbl := (drv_dev_tbl s)[i := f (drv_dev_tbl s ! i)]\<rparr>)"

text \<open>An index past the table is a fault: C would use the memory behind it.\<close>

definition get_dev :: "nat \<Rightarrow> (('w, 'p) drv_st, ('w, 'p) drv_dev) prog" where
  "get_dev i = bindM (getM drv_dev_tbl) (\<lambda>t. if i < length t then retM (t ! i) else failM Bad_Index)"

definition c_str :: "string \<Rightarrow> string option \<Rightarrow> string" where
  "c_str mem0 p = (case p of None \<Rightarrow> mem0 | Some x \<Rightarrow> x)"

definition os_strncmp_eq :: "string \<Rightarrow> string \<Rightarrow> nat \<Rightarrow> bool" where
  "os_strncmp_eq a b n \<longleftrightarrow> take n a = take n b"

fun find_index :: "('a \<Rightarrow> bool) \<Rightarrow> 'a list \<Rightarrow> nat option" where
  "find_index P [] = None"
| "find_index P (x # xs) = (if P x then Some 0 else map_option Suc (find_index P xs))"

section \<open>Operations\<close>

definition drv_model_init :: "(('w, 'p) drv_st, u32) prog" where
  "drv_model_init =
     thenM (modM (\<lambda>s. s\<lparr>drv_dev_tbl := replicate DD_MAX_DEV zero_dev\<rparr>))
    (thenM (modM (\<lambda>s. s\<lparr>drv_sdev_tbl := replicate DD_MAX_SDEV zero_sdev\<rparr>)) (retM DRV_SUCCESS))"

definition drv_model_uninit :: "(('w, 'p) drv_st, u32) prog" where
  "drv_model_uninit =
     thenM (modM (\<lambda>s. s\<lparr>drv_dev_tbl := replicate DD_MAX_DEV zero_dev\<rparr>))
    (thenM (modM (\<lambda>s. s\<lparr>drv_sdev_tbl := replicate DD_MAX_SDEV zero_sdev\<rparr>)) (retM DRV_SUCCESS))"

definition ddev_check_handle :: "u32 \<Rightarrow> u32" where
  "ddev_check_handle handle =
     (if DD_HANDLE_MAGIC_WORD = handle AND DD_HANDLE_MAGIC_MASK
         \<and> handle AND DD_HANDLE_ID_MASK < of_nat DD_MAX_DEV
      then DRV_SUCCESS else DRV_FAILURE)"

definition ddev_make_handle :: "u32 \<Rightarrow> u32" where
  "ddev_make_handle i =
     (if i \<ge> of_nat DD_MAX_DEV then DD_HANDLE_UNVALID else i + DD_HANDLE_MAGIC_WORD)"

definition ddev_get_id_from_handle :: "u32 \<Rightarrow> u32" where
  "ddev_get_id_from_handle handle =
     (if handle AND DD_HANDLE_MAGIC_MASK \<noteq> DD_HANDLE_MAGIC_WORD then DD_ID_UNVALID
      else handle AND DD_HANDLE_ID_MASK)"

text \<open>
  \<open>status\<close> says whether the status pointer is given; the second result is what was
  stored through it, if anything.
\<close>

definition ddev_open :: "string \<Rightarrow> string option \<Rightarrow> bool \<Rightarrow> u32 \<Rightarrow> (('w, 'p) drv_st, u32 \<times> u32 option) prog" where
  "ddev_open mem0 name status op_flag =
    (let name_len = length (c_str mem0 name) in
     case name of None \<Rightarrow> retM (DD_HANDLE_UNVALID, None)
     | Some n \<Rightarrow>
       if \<not> status \<or> name_len > DD_MAX_NAME_LEN then retM (DD_HANDLE_UNVALID, None)
       else bindM (getM drv_dev_tbl) (\<lambda>tbl.
         case find_index (\<lambda>d. os_strncmp_eq (c_str mem0 (dev_name d)) n name_len) tbl of
           None \<Rightarrow> failM Assert_Fail
         | Some i \<Rightarrow>
             let dev = tbl ! i; handle = ddev_make_handle (of_nat i) in
             bindM (if dev_state dev = DD_STATE_OPENED then retM (handle, DRV_FAILURE)
                    else if dev_state dev = DD_STATE_CLOSED then
                      bindM (case dev_op dev of None \<Rightarrow> retM DRV_FAILURE
                             | Some ops \<Rightarrow> (case op_open ops of None \<Rightarrow> retM DRV_FAILURE
                                           | Some f \<Rightarrow> in_world (f op_flag))) (\<lambda>st.
                      thenM (upd_dev i (\<lambda>d. d\<lparr>dev_state := DD_STATE_OPENED, use_cnt := 0\<rparr>))
                        (retM (handle, st)))
                    else retM (DD_HANDLE_UNVALID, DRV_FAILURE)) (\<lambda>(h, st).
             thenM (upd_dev i (\<lambda>d. d\<lparr>use_cnt := use_cnt d + 1\<rparr>))
            (thenM (assertM (h \<noteq> DD_HANDLE_UNVALID))
              (retM (h, Some st))))))"

definition ddev_close :: "u32 \<Rightarrow> (('w, 'p) drv_st, u32) prog" where
  "ddev_close handle =
    (let i = ddev_get_id_from_handle handle in
     if i = DD_ID_UNVALID then retM DRV_FAILURE
     else bindM (get_dev (unat i)) (\<lambda>d.
       thenM (upd_dev (unat i) (\<lambda>d. d\<lparr>use_cnt := use_cnt d - 1\<rparr>))
      (thenM (whenM (use_cnt d - 1 = 0)
         (thenM (case dev_op d of None \<Rightarrow> retM ()
                 | Some ops \<Rightarrow> (case op_close ops of None \<Rightarrow> retM ()
                               | Some f \<Rightarrow> thenM (in_world f) (retM ())))
           (upd_dev (unat i) (\<lambda>d. d\<lparr>dev_state := DD_STATE_CLOSED\<rparr>))))
         (retM DRV_SUCCESS))))"

definition ddev_read :: "u32 \<Rightarrow> u8 list \<Rightarrow> u32 \<Rightarrow> u32 \<Rightarrow> (('w, 'p) drv_st, u32 \<times> u8 list) prog" where
  "ddev_read handle user_buf count op_flag =
    (let i = ddev_get_id_from_handle handle in
     if i = DD_ID_UNVALID then retM (DRV_FAILURE, user_buf)
     else bindM (get_dev (unat i)) (\<lambda>d.
       case dev_op d of None \<Rightarrow> retM (DRV_FAILURE, user_buf)
       | Some ops \<Rightarrow> (case op_read ops of None \<Rightarrow> retM (DRV_FAILURE, user_buf)
                     | Some f \<Rightarrow> in_world (f user_buf count op_flag))))"

definition ddev_write :: "u32 \<Rightarrow> u8 list \<Rightarrow> u32 \<Rightarrow> u32 \<Rightarrow> (('w, 'p) drv_st, u32) prog" where
  "ddev_write handle user_buf count op_flag =
    (let i = ddev_get_id_from_handle handle in
     if i = DD_ID_UNVALID then retM DRV_FAILURE
     else bindM (get_dev (unat i)) (\<lambda>d.
       case dev_op d of None \<Rightarrow> retM DRV_FAILURE
       | Some ops \<Rightarrow> (case op_write ops of None \<Rightarrow> retM DRV_FAILURE
                     | Some f \<Rightarrow> in_world (f user_buf count op_flag))))"

definition ddev_control :: "u32 \<Rightarrow> u32 \<Rightarrow> 'p \<Rightarrow> (('w, 'p) drv_st, u32 \<times> 'p) prog" where
  "ddev_control handle cmd param =
    (let i = ddev_get_id_from_handle handle in
     if i = DD_ID_UNVALID then retM (DRV_FAILURE, param)
     else bindM (get_dev (unat i)) (\<lambda>d.
       case dev_op d of None \<Rightarrow> retM (DRV_FAILURE, param)
       | Some ops \<Rightarrow> (case op_control ops of None \<Rightarrow> retM (DRV_FAILURE, param)
                     | Some f \<Rightarrow> in_world (f cmd param))))"

definition sddev_control :: "string \<Rightarrow> string option \<Rightarrow> u32 \<Rightarrow> 'p \<Rightarrow> (('w, 'p) drv_st, u32 \<times> 'p) prog" where
  "sddev_control mem0 name cmd param =
    (case name of None \<Rightarrow> failM Assert_Fail
     | Some n \<Rightarrow> bindM (getM drv_sdev_tbl) (\<lambda>tbl.
        case find_index (\<lambda>d. os_strncmp_eq (c_str mem0 (sdev_name d)) n (length n)) tbl of
          None \<Rightarrow> failM Assert_Fail
        | Some i \<Rightarrow> (case sdev_op (tbl ! i) of None \<Rightarrow> failM Assert_Fail
            | Some ops \<Rightarrow> (case sop_control ops of None \<Rightarrow> retM (DRV_FAILURE, param)
                          | Some f \<Rightarrow> in_world (f cmd param)))))"

definition ddev_register_dev :: "string option \<Rightarrow> ('w, 'p) dd_operations option \<Rightarrow> (('w, 'p) drv_st, u32) prog" where
  "ddev_register_dev name optr =
    (if name = None then retM DRV_FAILURE
     else case optr of None \<Rightarrow> retM DRV_FAILURE
     | Some ops \<Rightarrow> bindM (getM drv_dev_tbl) (\<lambda>tbl.
        case find_index (\<lambda>d. dev_name d = None \<and> dev_state d = DD_STATE_NODEVICE) tbl of
          None \<Rightarrow> failM Assert_Fail
        | Some i \<Rightarrow>
            thenM (upd_dev i (\<lambda>d. d\<lparr>dev_name := name, dev_op := Some ops, dev_state := DD_STATE_CLOSED\<rparr>))
              (retM DRV_SUCCESS)))"

definition upd_sdev :: "nat \<Rightarrow> (('w, 'p) drv_sdev \<Rightarrow> ('w, 'p) drv_sdev) \<Rightarrow> (('w, 'p) drv_st, unit) prog" where
  "upd_sdev i f = modM (\<lambda>s. s\<lparr>drv_sdev_tbl := (drv_sdev_tbl s)[i := f (drv_sdev_tbl s ! i)]\<rparr>)"

definition sddev_register_dev :: "string option \<Rightarrow> ('w, 'p) sdd_operations option \<Rightarrow> (('w, 'p) drv_st, u32) prog" where
  "sddev_register_dev name optr =
    (if name = None then retM DRV_FAILURE
     else case optr of None \<Rightarrow> retM DRV_FAILURE
     | Some ops \<Rightarrow> bindM (getM drv_sdev_tbl) (\<lambda>tbl.
        case find_index (\<lambda>d. sdev_name d = None \<and> sdev_state d = DD_STATE_NODEVICE) tbl of
          None \<Rightarrow> failM Assert_Fail
        | Some i \<Rightarrow>
            thenM (upd_sdev i (\<lambda>d. d\<lparr>sdev_name := name, sdev_op := Some ops, sdev_state := DD_STATE_CLOSED\<rparr>))
              (retM DRV_SUCCESS)))"

definition ddev_unregister_dev :: "string \<Rightarrow> string option \<Rightarrow> (('w, 'p) drv_st, u32) prog" where
  "ddev_unregister_dev mem0 name =
    (case name of None \<Rightarrow> retM DRV_FAILURE
     | Some n \<Rightarrow>
        if length n > DD_MAX_NAME_LEN then retM DRV_FAILURE
        else bindM (getM drv_dev_tbl) (\<lambda>tbl.
          case find_index (\<lambda>d. os_strncmp_eq (c_str mem0 (dev_name d)) n (length n)) tbl of
            None \<Rightarrow> failM Assert_Fail
          | Some i \<Rightarrow>
              thenM (upd_dev i (\<lambda>d. d\<lparr>dev_name := None, dev_op := None, dev_state := DD_STATE_NODEVICE\<rparr>))
                (retM DRV_SUCCESS)))"

text \<open>The loop of \<^verbatim>\<open>sddev_unregister_dev\<close> runs to \<^verbatim>\<open>DD_MAX_DEV\<close>, not to \<^verbatim>\<open>DD_MAX_SDEV\<close>.\<close>

definition sddev_unregister_dev :: "string \<Rightarrow> string option \<Rightarrow> (('w, 'p) drv_st, u32) prog" where
  "sddev_unregister_dev mem0 name =
    (case name of None \<Rightarrow> retM DRV_FAILURE
     | Some n \<Rightarrow>
        if length n > DD_MAX_NAME_LEN then retM DRV_FAILURE
        else bindM (getM drv_sdev_tbl) (\<lambda>tbl.
          case find_index (\<lambda>d. os_strncmp_eq (c_str mem0 (sdev_name d)) n (length n)) (take DD_MAX_DEV tbl) of
            None \<Rightarrow> failM Assert_Fail
          | Some i \<Rightarrow>
              thenM (upd_sdev i (\<lambda>d. d\<lparr>sdev_name := None, sdev_op := None, sdev_state := DD_STATE_NODEVICE\<rparr>))
                (retM DRV_SUCCESS)))"

text \<open>
  \<^verbatim>\<open>g_dd_init\<close> and \<^verbatim>\<open>g_dd_exit\<close> walk the table of \<^verbatim>\<open>dd.c\<close> (name, init, exit) and
  return at the first row without a name or without the function.
\<close>

type_synonym ('s) dd_init_s = "string option \<times> ('s, unit) prog option \<times> ('s, unit) prog option"

fun g_dd_init :: "'s dd_init_s list \<Rightarrow> ('s, unit) prog" where
  "g_dd_init [] = retM ()"
| "g_dd_init ((name, init, exit) # tbl) =
    (case (name, init) of (Some _, Some f) \<Rightarrow> thenM f (g_dd_init tbl) | _ \<Rightarrow> retM ())"

fun g_dd_exit :: "'s dd_init_s list \<Rightarrow> ('s, unit) prog" where
  "g_dd_exit [] = retM ()"
| "g_dd_exit ((name, init, exit) # tbl) =
    (case (name, exit) of (Some _, Some f) \<Rightarrow> thenM f (g_dd_exit tbl) | _ \<Rightarrow> retM ())"

section \<open>Lookups and handles\<close>

lemma find_index_Some:
  "find_index P xs = Some i \<longleftrightarrow> i < length xs \<and> P (xs ! i) \<and> (\<forall>j<i. \<not> P (xs ! j))"
proof (induction xs arbitrary: i)
  case (Cons x xs)
  show ?case
    by (cases i) (auto simp: Cons less_Suc_eq_0_disj)
qed simp

lemma find_index_None: "find_index P xs = None \<longleftrightarrow> (\<forall>x\<in>set xs. \<not> P x)"
  by (induction xs) auto

lemma find_index_cong:
  "length xs = length ys \<Longrightarrow> (\<And>j. j < length xs \<Longrightarrow> P (xs ! j) = Q (ys ! j)) \<Longrightarrow> find_index P xs = find_index Q ys"
proof (induction xs ys rule: list_induct2)
  case (Cons x xs y ys)
  from Cons.prems [of 0] have "P x = Q y" by simp
  moreover have "find_index P xs = find_index Q ys" using Cons.IH Cons.prems [of "Suc j" for j] by simp
  ultimately show ?case by simp
qed simp

lemma id_cases:
  assumes "i < 10"
  shows "(i :: u32) \<in> {0, 1, 2, 3, 4, 5, 6, 7, 8, 9}"
proof -
  have "unat i < 10" using assms by (simp add: word_less_nat_alt)
  then have "unat i \<in> {0, 1, 2, 3, 4, 5, 6, 7, 8, 9}" by auto
  then show ?thesis by (simp add: word_unat_eq_iff)
qed

lemma handle_id:
  "i < 10 \<Longrightarrow> ddev_get_id_from_handle (ddev_make_handle i) = i"
  "i < 10 \<Longrightarrow> ddev_check_handle (ddev_make_handle i) = DRV_SUCCESS"
  "i < 10 \<Longrightarrow> ddev_make_handle i \<noteq> DD_HANDLE_UNVALID"
  "ddev_get_id_from_handle DD_HANDLE_UNVALID = DD_ID_UNVALID"
  by (auto dest!: id_cases simp: ddev_get_id_from_handle_def ddev_check_handle_def ddev_make_handle_def
      word_le_nat_alt)

lemma handle_of_nat:
  assumes "i < DD_MAX_DEV"
  shows "ddev_get_id_from_handle (ddev_make_handle (of_nat i)) = of_nat i"
    and "unat (of_nat i :: u32) = i" and "ddev_make_handle (of_nat i) \<noteq> DD_HANDLE_UNVALID"
    and "(of_nat i :: u32) \<noteq> DD_ID_UNVALID"
proof -
  show u: "unat (of_nat i :: u32) = i" using assms by (simp add: unat_of_nat)
  then have "(of_nat i :: u32) < 10" using assms by (simp add: word_less_nat_alt)
  then show "ddev_get_id_from_handle (ddev_make_handle (of_nat i)) = of_nat i"
    "ddev_make_handle (of_nat i) \<noteq> DD_HANDLE_UNVALID" "(of_nat i :: u32) \<noteq> DD_ID_UNVALID"
    by (auto simp: handle_id)
qed

section \<open>The table invariant\<close>

definition slot_ok :: "('w, 'p) drv_dev \<Rightarrow> bool" where
  "slot_ok d \<longleftrightarrow> (dev_name d = None \<longleftrightarrow> dev_op d = None) \<and>
     (dev_name d \<noteq> None \<longrightarrow> dev_state d \<noteq> DD_STATE_NODEVICE) \<and>
     dev_state d \<in> {DD_STATE_NODEVICE, DD_STATE_CLOSED, DD_STATE_OPENED}"

definition sslot_ok :: "('w, 'p) drv_sdev \<Rightarrow> bool" where
  "sslot_ok d \<longleftrightarrow> (sdev_name d = None \<longleftrightarrow> sdev_op d = None) \<and>
     sdev_state d = (if sdev_name d = None then DD_STATE_NODEVICE else DD_STATE_CLOSED)"

definition wf_drv :: "('w, 'p) drv_st \<Rightarrow> bool" where
  "wf_drv s \<longleftrightarrow> length (drv_dev_tbl s) = DD_MAX_DEV \<and> length (drv_sdev_tbl s) = DD_MAX_SDEV \<and>
     list_all slot_ok (drv_dev_tbl s) \<and> list_all sslot_ok (drv_sdev_tbl s)"

text \<open>One call into the device model; the devices' own operations are arbitrary.\<close>

inductive drv_step :: "string \<Rightarrow> ('w, 'p) drv_st \<Rightarrow> ('w, 'p) drv_st \<Rightarrow> bool" for mem0 where
  step_init: "drv_model_init s = Inr (r, s') \<Longrightarrow> drv_step mem0 s s'"
| step_uninit: "drv_model_uninit s = Inr (r, s') \<Longrightarrow> drv_step mem0 s s'"
| step_open: "ddev_open mem0 name st flag s = Inr (p, s') \<Longrightarrow> drv_step mem0 s s'"
| step_close: "ddev_close h s = Inr (r, s') \<Longrightarrow> drv_step mem0 s s'"
| step_read: "ddev_read h buf n flag s = Inr (q, s') \<Longrightarrow> drv_step mem0 s s'"
| step_write: "ddev_write h buf n flag s = Inr (r, s') \<Longrightarrow> drv_step mem0 s s'"
| step_control: "ddev_control h cmd p s = Inr (q2, s') \<Longrightarrow> drv_step mem0 s s'"
| step_scontrol: "sddev_control mem0 name cmd p s = Inr (q2, s') \<Longrightarrow> drv_step mem0 s s'"
| step_register: "ddev_register_dev name ops s = Inr (r, s') \<Longrightarrow> drv_step mem0 s s'"
| step_sregister: "sddev_register_dev name sops s = Inr (r, s') \<Longrightarrow> drv_step mem0 s s'"
| step_unregister: "ddev_unregister_dev mem0 name s = Inr (r, s') \<Longrightarrow> drv_step mem0 s s'"
| step_sunregister: "sddev_unregister_dev mem0 name s = Inr (r, s') \<Longrightarrow> drv_step mem0 s s'"

inductive drv_reach :: "string \<Rightarrow> ('w, 'p) drv_st \<Rightarrow> bool" for mem0 where
  reach_init: "drv_model_init s = Inr (r, s') \<Longrightarrow> drv_reach mem0 s'"
| reach_step: "drv_reach mem0 s \<Longrightarrow> drv_step mem0 s s' \<Longrightarrow> drv_reach mem0 s'"

lemma in_world_Inr: "in_world m s = Inr (a, s') \<longleftrightarrow> (\<exists>w. m (world s) = Inr (a, w) \<and> s' = s\<lparr>world := w\<rparr>)"
  by (auto simp: in_world_def split: sum.splits)

lemma wf_world [simp]: "wf_drv (s\<lparr>world := w\<rparr>) = wf_drv s"
  by (simp add: wf_drv_def)

lemma wf_upd_dev:
  assumes "wf_drv s" and "upd_dev i f s = Inr (u, s')"
    and "i < DD_MAX_DEV \<Longrightarrow> slot_ok (drv_dev_tbl s ! i) \<Longrightarrow> slot_ok (f (drv_dev_tbl s ! i))"
  shows "wf_drv s'"
  using assms by (cases "i < DD_MAX_DEV") (auto simp: upd_dev_def wf_drv_def list_all_length nth_list_update)

lemma wf_upd_sdev:
  assumes "wf_drv s" and "upd_sdev i f s = Inr (u, s')"
    and "i < DD_MAX_SDEV \<Longrightarrow> sslot_ok (drv_sdev_tbl s ! i) \<Longrightarrow> sslot_ok (f (drv_sdev_tbl s ! i))"
  shows "wf_drv s'"
  using assms by (cases "i < DD_MAX_SDEV") (auto simp: upd_sdev_def wf_drv_def list_all_length nth_list_update)

lemma wf_init: "drv_model_init s = Inr (r, s') \<Longrightarrow> wf_drv s'"
  by (auto simp: drv_model_init_def wf_drv_def zero_dev_def zero_sdev_def slot_ok_def sslot_ok_def prog_simps
      list_all_iff)

lemma wf_uninit: "drv_model_uninit s = Inr (r, s') \<Longrightarrow> wf_drv s'"
  using wf_init [of s r s'] by (simp add: drv_model_init_def drv_model_uninit_def)

lemma get_dev_Inr: "get_dev i s = Inr (d, s') \<longleftrightarrow> i < length (drv_dev_tbl s) \<and> d = drv_dev_tbl s ! i \<and> s' = s"
  by (auto simp: get_dev_def prog_simps)

lemma wf_io:
  "wf_drv s \<Longrightarrow> ddev_read h buf n flag s = Inr (q, s') \<Longrightarrow> wf_drv s'"
  "wf_drv s \<Longrightarrow> ddev_write h buf n flag s = Inr (r, s') \<Longrightarrow> wf_drv s'"
  "wf_drv s \<Longrightarrow> ddev_control h cmd p s = Inr (q2, s') \<Longrightarrow> wf_drv s'"
  "wf_drv s \<Longrightarrow> sddev_control mem0 name cmd p s = Inr (q2, s') \<Longrightarrow> wf_drv s'"
  by (auto simp: ddev_read_def ddev_write_def ddev_control_def sddev_control_def Let_def bindM_eq_Inr
      get_dev_Inr in_world_Inr split: if_splits option.splits)

lemma upd_dev_Inr: "upd_dev i f s = Inr (u, s') \<longleftrightarrow> s' = s\<lparr>drv_dev_tbl := (drv_dev_tbl s)[i := f (drv_dev_tbl s ! i)]\<rparr>"
  by (auto simp: upd_dev_def)

lemma wf_close:
  assumes "wf_drv s" and "ddev_close h s = Inr (r, s')"
  shows "wf_drv s'"
proof -
  have len: "length (drv_dev_tbl s) = DD_MAX_DEV" and ok: "\<And>i. i < DD_MAX_DEV \<Longrightarrow> slot_ok (drv_dev_tbl s ! i)"
    using assms(1) by (auto simp: wf_drv_def list_all_length)
  show ?thesis
    using assms(2) assms(1) len
    by (auto simp: ddev_close_def Let_def bindM_eq_Inr thenM_eq_Inr get_dev_Inr in_world_Inr upd_dev_Inr
        wf_drv_def list_all_length nth_list_update slot_ok_def split: if_splits option.splits)
qed

lemma wf_register: "wf_drv s \<Longrightarrow> ddev_register_dev name ops s = Inr (r, s') \<Longrightarrow> wf_drv s'"
  by (auto simp: ddev_register_dev_def bindM_eq_Inr thenM_eq_Inr slot_ok_def
      split: if_splits option.splits elim!: wf_upd_dev)

lemma wf_sregister: "wf_drv s \<Longrightarrow> sddev_register_dev name sops s = Inr (r, s') \<Longrightarrow> wf_drv s'"
  by (auto simp: sddev_register_dev_def bindM_eq_Inr thenM_eq_Inr sslot_ok_def
      split: if_splits option.splits elim!: wf_upd_sdev)

lemma wf_unregister: "wf_drv s \<Longrightarrow> ddev_unregister_dev mem0 name s = Inr (r, s') \<Longrightarrow> wf_drv s'"
  by (auto simp: ddev_unregister_dev_def bindM_eq_Inr thenM_eq_Inr slot_ok_def
      split: if_splits option.splits elim!: wf_upd_dev)

lemma wf_sunregister: "wf_drv s \<Longrightarrow> sddev_unregister_dev mem0 name s = Inr (r, s') \<Longrightarrow> wf_drv s'"
  by (auto simp: sddev_unregister_dev_def bindM_eq_Inr thenM_eq_Inr sslot_ok_def
      split: if_splits option.splits elim!: wf_upd_sdev)

lemma wf_open:
  assumes "wf_drv s" and "ddev_open mem0 name st flag s = Inr (p, s')"
  shows "wf_drv s'"
proof -
  have len: "length (drv_dev_tbl s) = DD_MAX_DEV" using assms(1) by (auto simp: wf_drv_def)
  show ?thesis
    using assms(2) assms(1) len
    by (auto simp: ddev_open_def Let_def bindM_eq_Inr thenM_eq_Inr in_world_Inr upd_dev_Inr find_index_Some
        wf_drv_def list_all_length nth_list_update slot_ok_def split: if_splits option.splits)
qed

lemma drv_step_wf: "drv_step mem0 s s' \<Longrightarrow> wf_drv s \<Longrightarrow> wf_drv s'"
  by (induction rule: drv_step.induct)
    (auto dest: wf_init wf_uninit wf_open wf_close wf_io wf_register wf_sregister wf_unregister wf_sunregister)

section \<open>Opening and closing\<close>

primrec repeatM :: "nat \<Rightarrow> ('s, 'a) prog \<Rightarrow> ('s, unit) prog" where
  "repeatM 0 m = retM ()"
| "repeatM (Suc n) m = thenM m (repeatM n m)"

text \<open>The slot that \<^verbatim>\<open>ddev_open\<close> finds for a name: the first whose name starts with it.\<close>

definition finds :: "string \<Rightarrow> string \<Rightarrow> ('w, 'p) drv_st \<Rightarrow> nat \<Rightarrow> bool" where
  "finds mem0 n s i \<longleftrightarrow> length n \<le> DD_MAX_NAME_LEN \<and> length (drv_dev_tbl s) = DD_MAX_DEV \<and>
     find_index (\<lambda>d. os_strncmp_eq (c_str mem0 (dev_name d)) n (length n)) (drv_dev_tbl s) = Some i"

lemma finds_bound: "finds mem0 n s i \<Longrightarrow> i < DD_MAX_DEV"
  by (auto simp: finds_def find_index_Some)

lemma finds_upd:
  assumes "finds mem0 n s i" and "drv_dev_tbl s' = (drv_dev_tbl s)[i := d]" and "dev_name d = dev_name (drv_dev_tbl s ! i)"
  shows "finds mem0 n s' i"
proof -
  let ?P = "\<lambda>d. os_strncmp_eq (c_str mem0 (dev_name d)) n (length n)"
  have "i < length (drv_dev_tbl s)" using assms(1) by (auto simp: finds_def find_index_Some)
  then have "find_index ?P (drv_dev_tbl s') = find_index ?P (drv_dev_tbl s)"
    using assms(2,3) by (intro find_index_cong) (auto simp: nth_list_update)
  with assms show ?thesis by (simp add: finds_def)
qed

text \<open>The state with slot \<open>i\<close> replaced.\<close>

definition set_slot :: "nat \<Rightarrow> ('w, 'p) drv_dev \<Rightarrow> 'w \<Rightarrow> ('w, 'p) drv_st \<Rightarrow> ('w, 'p) drv_st" where
  "set_slot i d w s = s\<lparr>world := w, drv_dev_tbl := (drv_dev_tbl s)[i := d]\<rparr>"

lemma set_slot_simps [simp]:
  "world (set_slot i d w s) = w" "drv_dev_tbl (set_slot i d w s) = (drv_dev_tbl s)[i := d]"
  "drv_sdev_tbl (set_slot i d w s) = drv_sdev_tbl s"
  "set_slot i d w (set_slot i d' w' s) = set_slot i d w s"
  by (simp_all add: set_slot_def)

lemma ddev_open_opened:
  assumes "finds mem0 n s i" and "dev_state (drv_dev_tbl s ! i) = DD_STATE_OPENED"
  shows "ddev_open mem0 (Some n) True flag s = Inr ((ddev_make_handle (of_nat i), Some DRV_FAILURE),
     set_slot i ((drv_dev_tbl s ! i)\<lparr>use_cnt := use_cnt (drv_dev_tbl s ! i) + 1\<rparr>) (world s) s)"
  using assms handle_of_nat(3) [OF finds_bound [OF assms(1)]]
  by (simp add: ddev_open_def Let_def finds_def c_str_def upd_dev_def prog_simps set_slot_def)

definition run_open :: "('w, 'p) drv_dev \<Rightarrow> u32 \<Rightarrow> ('w, u32) prog" where
  "run_open d flag = (case dev_op d of None \<Rightarrow> retM DRV_FAILURE
     | Some ops \<Rightarrow> (case op_open ops of None \<Rightarrow> retM DRV_FAILURE | Some f \<Rightarrow> f flag))"

definition run_close :: "('w, 'p) drv_dev \<Rightarrow> ('w, unit) prog" where
  "run_close d = (case dev_op d of None \<Rightarrow> retM ()
     | Some ops \<Rightarrow> (case op_close ops of None \<Rightarrow> retM () | Some f \<Rightarrow> thenM f (retM ())))"

lemma ddev_open_closed:
  assumes "finds mem0 n s i" and "dev_state (drv_dev_tbl s ! i) = DD_STATE_CLOSED"
    and "run_open (drv_dev_tbl s ! i) flag (world s) = Inr (st, w)"
  shows "ddev_open mem0 (Some n) True flag s = Inr ((ddev_make_handle (of_nat i), Some st),
     set_slot i ((drv_dev_tbl s ! i)\<lparr>dev_state := DD_STATE_OPENED, use_cnt := 1\<rparr>) w s)"
proof -
  have i: "i < length (drv_dev_tbl s)" using assms(1) by (auto simp: finds_def find_index_Some)
  show ?thesis using assms i handle_of_nat(3) [OF finds_bound [OF assms(1)]]
    by (auto simp: ddev_open_def Let_def finds_def c_str_def upd_dev_def prog_simps set_slot_def run_open_def
        in_world_def split: option.splits)
qed

lemma ddev_close_more:
  assumes "i < DD_MAX_DEV" and "length (drv_dev_tbl s) = DD_MAX_DEV" and "use_cnt (drv_dev_tbl s ! i) \<noteq> 1"
  shows "ddev_close (ddev_make_handle (of_nat i)) s = Inr (DRV_SUCCESS,
     set_slot i ((drv_dev_tbl s ! i)\<lparr>use_cnt := use_cnt (drv_dev_tbl s ! i) - 1\<rparr>) (world s) s)"
  using assms handle_of_nat [OF assms(1)]
  by (simp add: ddev_close_def Let_def get_dev_def upd_dev_def prog_simps set_slot_def)

lemma ddev_close_last:
  assumes "i < DD_MAX_DEV" and "length (drv_dev_tbl s) = DD_MAX_DEV" and "use_cnt (drv_dev_tbl s ! i) = 1"
    and "run_close (drv_dev_tbl s ! i) (world s) = Inr ((), w)"
  shows "ddev_close (ddev_make_handle (of_nat i)) s = Inr (DRV_SUCCESS,
     set_slot i ((drv_dev_tbl s ! i)\<lparr>use_cnt := 0, dev_state := DD_STATE_CLOSED\<rparr>) w s)"
  using assms handle_of_nat [OF assms(1)]
  by (auto simp: ddev_close_def Let_def get_dev_def upd_dev_def prog_simps set_slot_def run_close_def in_world_def
      split: option.splits sum.splits)

lemma more_opens:
  assumes "finds mem0 n s i" and "dev_state (drv_dev_tbl s ! i) = DD_STATE_OPENED"
  shows "repeatM k (ddev_open mem0 (Some n) True flag) s = Inr ((),
     set_slot i ((drv_dev_tbl s ! i)\<lparr>use_cnt := use_cnt (drv_dev_tbl s ! i) + of_nat k\<rparr>) (world s) s)"
  using assms
proof (induction k arbitrary: s)
  case 0
  have "set_slot i (drv_dev_tbl s ! i) (world s) s = s" by (simp add: set_slot_def)
  then show ?case by simp
next
  case (Suc k)
  let ?d = "drv_dev_tbl s ! i"
  let ?s = "set_slot i (?d\<lparr>use_cnt := use_cnt ?d + 1\<rparr>) (world s) s"
  have i: "i < length (drv_dev_tbl s)" using Suc.prems(1) by (auto simp: finds_def find_index_Some)
  have "finds mem0 n ?s i" by (rule finds_upd [OF Suc.prems(1), where d = "?d\<lparr>use_cnt := use_cnt ?d + 1\<rparr>"]) simp_all
  moreover have "dev_state (drv_dev_tbl ?s ! i) = DD_STATE_OPENED" using Suc.prems(2) i by simp
  ultimately have "repeatM k (ddev_open mem0 (Some n) True flag) ?s = Inr ((),
     set_slot i ((drv_dev_tbl ?s ! i)\<lparr>use_cnt := use_cnt (drv_dev_tbl ?s ! i) + of_nat k\<rparr>) (world ?s) ?s)"
    by (rule Suc.IH)
  then show ?case using i ddev_open_opened [OF Suc.prems, of flag] by (simp add: add.assoc)
qed

lemma of_nat_u32_neq_1: "0 < k \<Longrightarrow> k + 1 < 2 ^ 32 \<Longrightarrow> (1 + of_nat k :: u32) \<noteq> 1"
  by (simp add: word_unat_eq_iff unat_word_ariths unat_of_nat)

lemma all_closes:
  assumes "i < DD_MAX_DEV" and "length (drv_dev_tbl s) = DD_MAX_DEV" and "use_cnt (drv_dev_tbl s ! i) = 1 + of_nat k"
    and "k + 1 < 2 ^ 32" and "run_close (drv_dev_tbl s ! i) (world s) = Inr ((), w)"
  shows "repeatM (Suc k) (ddev_close (ddev_make_handle (of_nat i))) s = Inr ((),
     set_slot i ((drv_dev_tbl s ! i)\<lparr>use_cnt := 0, dev_state := DD_STATE_CLOSED\<rparr>) w s)"
  using assms(2-)
proof (induction k arbitrary: s)
  case 0
  then show ?case using ddev_close_last [OF assms(1), of s w] by simp
next
  case (Suc k)
  let ?d = "drv_dev_tbl s ! i"
  let ?s = "set_slot i (?d\<lparr>use_cnt := use_cnt ?d - 1\<rparr>) (world s) s"
  have "use_cnt ?d \<noteq> 1" using Suc.prems of_nat_u32_neq_1 [of "Suc k"] by simp
  note c = ddev_close_more [OF assms(1) Suc.prems(1) this]
  have d: "drv_dev_tbl ?s ! i = ?d\<lparr>use_cnt := 1 + of_nat k\<rparr>" using Suc.prems assms(1) by simp
  have "repeatM (Suc k) (ddev_close (ddev_make_handle (of_nat i))) ?s = Inr ((),
     set_slot i ((drv_dev_tbl ?s ! i)\<lparr>use_cnt := 0, dev_state := DD_STATE_CLOSED\<rparr>) w ?s)"
    using Suc.prems d by (intro Suc.IH) (simp_all add: run_close_def)
  then show ?case using d c by simp
qed

lemma set_slot_idle: "i < length (drv_dev_tbl s) \<Longrightarrow> set_slot i (drv_dev_tbl s ! i) (world s) s = s"
  by (simp add: set_slot_def)

lemma register_finds:
  fixes ops :: "('w, 'p) dd_operations"
  assumes "length (drv_dev_tbl s) = DD_MAX_DEV" and "length n \<le> DD_MAX_NAME_LEN"
    and "find_index (\<lambda>d. dev_name d = None \<and> dev_state d = DD_STATE_NODEVICE) (drv_dev_tbl s) = Some i"
    and "\<forall>j<i. take (length n) (c_str mem0 (dev_name (drv_dev_tbl s ! j))) \<noteq> n"
  defines "d \<equiv> (drv_dev_tbl s ! i)\<lparr>dev_name := Some n, dev_op := Some ops, dev_state := DD_STATE_CLOSED\<rparr>"
  shows "ddev_register_dev (Some n) (Some ops) s = Inr (DRV_SUCCESS, set_slot i d (world s) s)"
    and "finds mem0 n (set_slot i d (world s) s) i"
proof -
  have i: "i < DD_MAX_DEV" using assms(1,3) by (auto simp: find_index_Some)
  show "ddev_register_dev (Some n) (Some ops) s = Inr (DRV_SUCCESS, set_slot i d (world s) s)"
    using assms by (simp add: ddev_register_dev_def upd_dev_def prog_simps set_slot_def)
  show "finds mem0 n (set_slot i d (world s) s) i"
    using i assms by (auto simp: finds_def find_index_Some os_strncmp_eq_def c_str_def)
qed

section \<open>Properties\<close>

text \<open>
  Handles of the device model. Every valid table index has a handle from which the
  index is recovered and which passes the handle check; every other index gets the
  invalid handle, which is recognised as such.
\<close>

lemma handle_roundtrip:
  "if i < of_nat DD_MAX_DEV
   then ddev_get_id_from_handle (ddev_make_handle i) = i \<and> ddev_check_handle (ddev_make_handle i) = DRV_SUCCESS
   else ddev_get_id_from_handle (ddev_make_handle i) = DD_ID_UNVALID
      \<and> ddev_check_handle (ddev_make_handle i) = DRV_FAILURE"
  using handle_id by (auto simp: ddev_make_handle_def ddev_check_handle_def not_less)

text \<open>
  C35: the device tables stay well formed. In every state reached from
  \<^verbatim>\<open>drv_model_init\<close> by any sequence of successful calls into the device model, whatever
  the devices' operations do, both tables keep their size, a slot has a name exactly
  when it has operations, and a named slot is closed or opened.
\<close>

theorem drv_reach_wf:
  assumes "drv_reach mem0 s"
  shows "wf_drv s"
  using assms by (induction rule: drv_reach.induct) (auto intro: wf_init drv_step_wf)

definition demo_ops :: "(nat, u32) dd_operations" where
  "demo_ops = \<lparr>op_open = Some (\<lambda>_ w. Inr (DRV_SUCCESS, w + 1)), op_close = Some (\<lambda>w. Inr (DRV_SUCCESS, w + 100)),
     op_read = None, op_write = None, op_control = None\<rparr>"

definition demo_st :: "(nat, u32) drv_st" where
  "demo_st = \<lparr>drv_dev_tbl = replicate DD_MAX_DEV zero_dev, drv_sdev_tbl = replicate DD_MAX_SDEV zero_sdev, world = 0\<rparr>"

definition demo_reg :: "(nat, u32) drv_st" where
  "demo_reg = set_slot 0 \<lparr>dev_name = Some ''flash'', use_cnt = 0, dev_state = DD_STATE_CLOSED, dev_op = Some demo_ops\<rparr> 0 demo_st"

lemma demo_register: "ddev_register_dev (Some ''flash'') (Some demo_ops) demo_st = Inr (DRV_SUCCESS, demo_reg)"
  by (simp add: ddev_register_dev_def demo_st_def demo_reg_def zero_dev_def upd_dev_def prog_simps set_slot_def
      numeral_eq_Suc)

lemma demo_finds: "finds [] ''flash'' demo_reg 0"
  by (simp add: finds_def demo_reg_def demo_st_def os_strncmp_eq_def c_str_def numeral_eq_Suc)

theorem drv_reach_wf_witness: "drv_reach [] demo_reg \<and> wf_drv demo_reg"
proof -
  have "drv_model_init demo_st = Inr (DRV_SUCCESS, demo_st)"
    by (simp add: drv_model_init_def demo_st_def)
  then have "drv_reach [] demo_st" by (rule reach_init)
  then have "drv_reach [] demo_reg" by (rule reach_step) (rule step_register [OF demo_register])
  then show ?thesis using drv_reach_wf by blast
qed

text \<open>
  C34: opening and closing are balanced. If \<open>n > 0\<close> opens (fewer than \<open>2 ^ 32\<close>, the
  range of the use count) of a closed device are followed by as many closes, the
  device's open operation runs exactly once, at the first open, its close operation
  exactly once, at the last close, and the device is closed again with use count 0;
  no other slot changes.
\<close>

theorem open_close_balanced:
  assumes "finds mem0 n s i" and "dev_state (drv_dev_tbl s ! i) = DD_STATE_CLOSED"
    and "run_open (drv_dev_tbl s ! i) flag (world s) = Inr (st, w1)"
    and "run_close (drv_dev_tbl s ! i) w1 = Inr ((), w2)"
    and "0 < k" and "k < 2 ^ 32"
  shows "thenM (repeatM k (ddev_open mem0 (Some n) True flag))
       (repeatM k (ddev_close (ddev_make_handle (of_nat i)))) s =
     Inr ((), set_slot i ((drv_dev_tbl s ! i)\<lparr>use_cnt := 0, dev_state := DD_STATE_CLOSED\<rparr>) w2 s)"
proof -
  obtain j where k: "k = Suc j" using assms(5) by (cases k) auto
  let ?d = "drv_dev_tbl s ! i"
  let ?d1 = "?d\<lparr>dev_state := DD_STATE_OPENED, use_cnt := 1\<rparr>"
  have i: "i < DD_MAX_DEV" "length (drv_dev_tbl s) = DD_MAX_DEV"
    using assms(1) finds_bound by (auto simp: finds_def)
  have f1: "finds mem0 n (set_slot i ?d1 w1 s) i" by (rule finds_upd [OF assms(1), where d = ?d1]) simp_all
  have opens: "repeatM k (ddev_open mem0 (Some n) True flag) s = Inr ((), set_slot i (?d1\<lparr>use_cnt := 1 + of_nat j\<rparr>) w1 s)"
    using ddev_open_closed [OF assms(1-3)] more_opens [OF f1, of j flag] i k by simp
  have "repeatM k (ddev_close (ddev_make_handle (of_nat i))) (set_slot i (?d1\<lparr>use_cnt := 1 + of_nat j\<rparr>) w1 s)
    = Inr ((), set_slot i (?d1\<lparr>use_cnt := 0, dev_state := DD_STATE_CLOSED\<rparr>) w2 s)"
    using i k assms(4,6) all_closes [OF i(1), of "set_slot i (?d1\<lparr>use_cnt := 1 + of_nat j\<rparr>) w1 s" j w2]
    by (simp add: run_close_def)
  with opens show ?thesis by simp
qed

theorem open_close_balanced_witness:
  "thenM (repeatM 3 (ddev_open [] (Some ''flash'') True 0)) (repeatM 3 (ddev_close (ddev_make_handle (of_nat 0)))) demo_reg
   = Inr ((), set_slot 0 ((drv_dev_tbl demo_reg ! 0)\<lparr>use_cnt := 0, dev_state := DD_STATE_CLOSED\<rparr>) 101 demo_reg)"
  by (rule open_close_balanced [OF demo_finds, where st = DRV_SUCCESS and ?w1.0 = 1])
    (simp_all add: demo_reg_def demo_st_def demo_ops_def run_open_def run_close_def)

text \<open>
  a registered device can be opened. Registering a device takes the first free slot;
  if no slot before it has a name that starts with the new name, opening the new name
  runs the device's open operation, stores its status and returns the handle of that slot.
\<close>

theorem register_then_open:
  assumes "wf_drv s" and "length n \<le> DD_MAX_NAME_LEN"
    and "find_index (\<lambda>d. dev_name d = None \<and> dev_state d = DD_STATE_NODEVICE) (drv_dev_tbl s) = Some i"
    and "\<forall>j<i. take (length n) (c_str mem0 (dev_name (drv_dev_tbl s ! j))) \<noteq> n"
    and "op_open ops = Some f" and "f flag (world s) = Inr (st, w)"
  shows "\<exists>s'. thenM (ddev_register_dev (Some n) (Some ops)) (ddev_open mem0 (Some n) True flag) s
       = Inr ((ddev_make_handle (of_nat i), Some st), s')
     \<and> world s' = w \<and> i < DD_MAX_DEV \<and> dev_name (drv_dev_tbl s' ! i) = Some n
     \<and> dev_state (drv_dev_tbl s' ! i) = DD_STATE_OPENED \<and> use_cnt (drv_dev_tbl s' ! i) = 1
     \<and> (\<forall>j. j \<noteq> i \<longrightarrow> drv_dev_tbl s' ! j = drv_dev_tbl s ! j)"
proof -
  let ?d = "(drv_dev_tbl s ! i)\<lparr>dev_name := Some n, dev_op := Some ops, dev_state := DD_STATE_CLOSED\<rparr>"
  have len: "length (drv_dev_tbl s) = DD_MAX_DEV" using assms(1) by (simp add: wf_drv_def)
  have i: "i < DD_MAX_DEV" using len assms(3) by (auto simp: find_index_Some)
  note r = register_finds [OF len assms(2-4), where ops = ops]
  have "run_open (drv_dev_tbl (set_slot i ?d (world s) s) ! i) flag (world (set_slot i ?d (world s) s)) = Inr (st, w)"
    using i len assms(5,6) by (simp add: run_open_def)
  from ddev_open_closed [OF r(2) _ this] r(1) i len show ?thesis by simp
qed

theorem register_then_open_witness:
  "\<exists>s'. thenM (ddev_register_dev (Some ''flash'') (Some demo_ops)) (ddev_open [] (Some ''flash'') True 0) demo_st
       = Inr ((ddev_make_handle (of_nat 0), Some DRV_SUCCESS), s')
     \<and> world s' = 1 \<and> (0::nat) < DD_MAX_DEV \<and> dev_name (drv_dev_tbl s' ! 0) = Some ''flash''
     \<and> dev_state (drv_dev_tbl s' ! 0) = DD_STATE_OPENED \<and> use_cnt (drv_dev_tbl s' ! 0) = 1
     \<and> (\<forall>j. j \<noteq> 0 \<longrightarrow> drv_dev_tbl s' ! j = drv_dev_tbl demo_st ! j)"
  by (rule register_then_open [where f = "\<lambda>_ w. Inr (DRV_SUCCESS, w + 1)"])
    (simp_all add: demo_st_def demo_ops_def zero_dev_def zero_sdev_def wf_drv_def slot_ok_def sslot_ok_def numeral_eq_Suc)

text \<open>
  devices without open operations that sit in the last six slots of their table
  cannot be unregistered. \<^verbatim>\<open>sddev_unregister_dev\<close> searches only the first
  \<^verbatim>\<open>DD_MAX_DEV\<close> slots of a table of \<^verbatim>\<open>DD_MAX_SDEV\<close>, so a device registered in a later
  slot under a name that no earlier slot has is not found, and the call stops in the
  failed assertion although the device is there and answers control requests.
\<close>

theorem sddev_unregister_misses:
  assumes "wf_drv s" and "DD_MAX_DEV \<le> i" and "i < DD_MAX_SDEV" and "length n \<le> DD_MAX_NAME_LEN"
    and "sdev_name (drv_sdev_tbl s ! i) = Some n"
    and "\<forall>j<i. take (length n) (c_str mem0 (sdev_name (drv_sdev_tbl s ! j))) \<noteq> n"
    and "sdev_op (drv_sdev_tbl s ! i) = Some \<lparr>sop_control = Some f\<rparr>" and "f cmd p (world s) = Inr (r, w)"
  shows "sddev_unregister_dev mem0 (Some n) s = Inl Assert_Fail
     \<and> sddev_control mem0 (Some n) cmd p s = Inr (r, s\<lparr>world := w\<rparr>)"
proof -
  let ?P = "\<lambda>d. os_strncmp_eq (c_str mem0 (sdev_name d)) n (length n)"
  have len: "length (drv_sdev_tbl s) = DD_MAX_SDEV" using assms(1) by (simp add: wf_drv_def)
  have "find_index ?P (take DD_MAX_DEV (drv_sdev_tbl s)) = None"
    using assms(2,6) len unfolding find_index_None by (auto simp: os_strncmp_eq_def in_set_conv_nth)
  then have "sddev_unregister_dev mem0 (Some n) s = Inl Assert_Fail"
    using assms(4) by (simp add: sddev_unregister_dev_def)
  moreover have "find_index ?P (drv_sdev_tbl s) = Some i"
    using assms(3,5,6) len by (auto simp: find_index_Some os_strncmp_eq_def c_str_def)
  then have "sddev_control mem0 (Some n) cmd p s = Inr (r, s\<lparr>world := w\<rparr>)"
    using assms(7,8) by (simp add: sddev_control_def in_world_def)
  ultimately show ?thesis by blast
qed

definition demo_sst :: "(nat, u32) drv_st" where
  "demo_sst = demo_st\<lparr>drv_sdev_tbl := (replicate DD_MAX_SDEV zero_sdev)
     [11 := \<lparr>sdev_name = Some ''uart'', sdev_state = DD_STATE_CLOSED,
              sdev_op = Some \<lparr>sop_control = Some (\<lambda>cmd p w. Inr ((DRV_SUCCESS, p + 1), w + 7))\<rparr>\<rparr>]\<rparr>"

lemma demo_sst_wf: "wf_drv demo_sst"
  by (auto simp: demo_sst_def demo_st_def zero_dev_def zero_sdev_def wf_drv_def slot_ok_def sslot_ok_def
      list_all_length nth_list_update)

theorem sddev_unregister_misses_witness:
  "sddev_unregister_dev [] (Some ''uart'') demo_sst = Inl Assert_Fail
   \<and> sddev_control [] (Some ''uart'') 5 3 demo_sst = Inr ((DRV_SUCCESS, 4), demo_sst\<lparr>world := 7\<rparr>)"
  by (rule sddev_unregister_misses [OF demo_sst_wf, where i = 11 and f = "\<lambda>cmd p w. Inr ((DRV_SUCCESS, p + 1), w + 7)"])
    (simp_all add: demo_sst_def demo_st_def zero_sdev_def c_str_def nth_list_update)

end
