(* ===== verification/Flash_Dev.thy ===== *)
theory Flash_Dev
  imports Flash_Props Drv_Model
begin

text \<open>
  The flash driver as a device: \<^verbatim>\<open>flash_op\<close>, \<^verbatim>\<open>flash_init\<close> and \<^verbatim>\<open>flash_exit\<close> of
  \<^verbatim>\<open>driver/flash/flash.c\<close>, and the locale \<open>nor_device\<close>: what the users of the device
  \<^verbatim>\<open>"flash"\<close> rely on, stated over its operations alone. Every \<open>nor_controller\<close> gives
  such a device (sublocale), so what the users prove holds for the driver on any
  controller.
\<close>

definition flash_op :: "'h flash_env \<Rightarrow> ('h flash_st, u32) dd_operations" where
  "flash_op env = \<lparr>op_open = None, op_close = None,
     op_read = Some (\<lambda>user_buf count address.
       bindM (flash_read env (unat count) address) (\<lambda>(st, bs). retM (st, bs @ drop (unat count) user_buf))),
     op_write = Some (\<lambda>user_buf count address. flash_write env (take (unat count) user_buf) address),
     op_control = Some (flash_ctrl env)\<rparr>"

abbreviation (input) FLASH_DEV_NAME :: string where "FLASH_DEV_NAME \<equiv> ''flash''"

definition flash_init :: "'h flash_env \<Rightarrow> (('h flash_st, u32) drv_st, unit) prog" where
  "flash_init env =
     thenM (in_world (thenM (wait_idle env)
      (thenM (flash_get_id env)
      (thenM flash_get_current_flash_config
      (thenM (set_flash_protect env FLASH_UNPROTECT_LAST_BLOCK)
      (thenM (flash_disable_cpu_data_wr env)
      (bindM current_config (\<lambda>cfg.
        thenM (flash_set_line_mode env (line_mode cfg))
        (flash_set_clk env 5)))))))))
    (thenM (ddev_register_dev (Some FLASH_DEV_NAME) (Some (flash_op env))) (retM ()))"

definition flash_exit :: "string \<Rightarrow> (('h flash_st, u32) drv_st, unit) prog" where
  "flash_exit mem0 = thenM (ddev_unregister_dev mem0 (Some FLASH_DEV_NAME)) (retM ())"

section \<open>What the users of the device rely on\<close>

text \<open>
  \<open>mem\<close> is the contents, \<open>prot\<close> the bytes that writes and erases leave alone,
  \<open>fits a n\<close> what the driver's bound check accepts.
\<close>

locale nor_device =
  fixes ops :: "('w, u32) dd_operations"
    and ready :: "'w \<Rightarrow> bool"
    and mem :: "'w \<Rightarrow> nat \<Rightarrow> u8"
    and prot :: "'w \<Rightarrow> nat \<Rightarrow> bool"
    and size :: "'w \<Rightarrow> nat"
  assumes no_open: "op_open ops = None" "op_close ops = None"
    and read_law: "ready w \<Longrightarrow> unat a + unat n \<le> 2 ^ 24 \<Longrightarrow> \<exists>f w'. op_read ops = Some f
      \<and> f buf n a w = Inr ((FLASH_SUCCESS, mslice (mem w) (unat a) (unat n) @ drop (unat n) buf), w')
      \<and> ready w' \<and> mem w' = mem w \<and> prot w' = prot w \<and> size w' = size w"
    and write_law: "ready w \<Longrightarrow> unat n \<le> length buf \<Longrightarrow>
      unat a div 32 * 32 < size w \<Longrightarrow> unat a div 32 * 32 + unat n \<le> size w \<Longrightarrow> \<exists>f w'. op_write ops = Some f
      \<and> f buf n a w = Inr (FLASH_SUCCESS, w') \<and> ready w'
      \<and> mem w' = page_program (prot w) (mem w) (unat a) (take (unat n) buf) \<and> prot w' = prot w \<and> size w' = size w"
    and erase_law: "ready w \<Longrightarrow> unat a < size w \<Longrightarrow> \<exists>f w'. op_control ops = Some f
      \<and> f CMD_FLASH_ERASE_SECTOR a w = Inr ((FLASH_SUCCESS, a), w') \<and> ready w'
      \<and> mem w' = sector_erase (prot w) (mem w) (unat a) \<and> prot w' = prot w \<and> size w' = size w"
    and protect_law: "ready w \<Longrightarrow> \<exists>f w'. op_control ops = Some f
      \<and> f CMD_FLASH_SET_PROTECT t w = Inr ((FLASH_SUCCESS, t), w') \<and> ready w'
      \<and> mem w' = mem w \<and> size w' = size w \<and> (t = FLASH_PROTECT_NONE \<longrightarrow> (\<forall>i. \<not> prot w' i))"
    and size_bound: "ready w \<Longrightarrow> size w \<le> 0x800000"

text \<open>
  The driver on a controller is such a device once it knows its part. A part is
  assumed to protect no byte when its status register holds the code the
  configuration table gives for no protection.
\<close>

definition part_ok :: "flash_config_t \<Rightarrow> nor_chip \<Rightarrow> bool" where
  "part_ok cfg c \<longleftrightarrow> cfg \<in> set flash_config \<and>
     (\<forall>sr i. protect_field cfg (sr_view (sr_size cfg) sr) = protect_none cfg \<longrightarrow> \<not> nc_prot c sr i)"

definition chip_mem :: "('h \<Rightarrow> nor_chip) \<Rightarrow> 'h flash_st \<Rightarrow> nat \<Rightarrow> u8" where
  "chip_mem chip s = nc_mem (chip (hw s))"

definition chip_prot :: "('h \<Rightarrow> nor_chip) \<Rightarrow> 'h flash_st \<Rightarrow> nat \<Rightarrow> bool" where
  "chip_prot chip s = nc_prot (chip (hw s)) (nc_sr (chip (hw s)))"

definition config_size :: "'h flash_st \<Rightarrow> nat" where
  "config_size s = (case flash_current_config s of None \<Rightarrow> 0 | Some cfg \<Rightarrow> unat (flash_size cfg))"

definition flash_ready :: "('h \<Rightarrow> nor_chip) \<Rightarrow> ('h \<Rightarrow> bool) \<Rightarrow> 'h flash_st \<Rightarrow> bool" where
  "flash_ready chip idle s \<longleftrightarrow> idle (hw s) \<and>
     (case flash_current_config s of None \<Rightarrow> False | Some cfg \<Rightarrow> part_ok cfg (chip (hw s)))"

lemma flash_readyE:
  assumes "flash_ready chip idle s"
  obtains cfg where "idle (hw s)" "flash_current_config s = Some cfg" "cfg \<in> set flash_config" "config_ok cfg"
    "part_ok cfg (chip (hw s))" "config_size s = unat (flash_size cfg)"
  using assms flash_config_ok by (auto simp: flash_ready_def part_ok_def config_size_def split: option.splits)

lemma flash_ready_step:
  assumes "flash_ready chip idle s" and "idle (hw s')" and "flash_step (chip_st chip s) m (chip_st chip s')"
  shows "flash_ready chip idle s'" "chip_mem chip s' = m" "chip_prot chip s' = chip_prot chip s"
    "config_size s' = config_size s"
  using assms by (auto simp: flash_ready_def flash_step_def part_ok_def chip_mem_def chip_prot_def config_size_def
      split: option.splits)

lemma sector_mask:
  assumes "unat (a::u32) < 2 ^ 24"
  shows "unat (a AND 0xFFF000) = unat a div 4096 * 4096"
proof -
  have "(0xFFF000 :: u32) = push_bit 12 (mask 12)" by (simp add: mask_eq_exp_minus_1)
  moreover have "a AND push_bit 12 (mask 12) = push_bit 12 (drop_bit 12 a) AND mask 24"
    by (rule bit_word_eqI) (auto simp: bit_simps)
  ultimately have "unat (a AND 0xFFF000) = take_bit 24 (unat (push_bit 12 (drop_bit 12 a)))"
    by (simp add: unsigned_take_bit_eq flip: take_bit_eq_mask)
  also have "unat (push_bit 12 (drop_bit 12 a)) = unat a div 4096 * 4096 mod 2 ^ 32"
    unfolding unsigned_push_bit_eq unat_drop_bit_eq
    by (simp add: push_bit_eq_mult drop_bit_eq_div take_bit_eq_mod)
  also have "take_bit 24 \<dots> = unat a div 4096 * 4096"
    using assms div_times_less_eq_dividend [of "unat a" 4096]
    by (simp add: take_bit_nat_eq_self)
  finally show ?thesis .
qed

lemma page_program_cong: "(\<And>i. p i = q i) \<Longrightarrow> page_program p m a bs = page_program q m a bs"
  by (simp add: page_program_def)

lemma sector_erase_base: "sector_erase p m (a div 4096 * 4096) = sector_erase p m a"
  by (simp add: sector_erase_def)

context nor_controller
begin

lemma flash_op_read:
  assumes "flash_ready chip idle w" and "unat a + unat n \<le> 2 ^ 24"
  shows "\<exists>f w'. op_read (flash_op env) = Some f
      \<and> f buf n a w = Inr ((FLASH_SUCCESS, mslice (chip_mem chip w) (unat a) (unat n) @ drop (unat n) buf), w')
      \<and> flash_ready chip idle w' \<and> chip_mem chip w' = chip_mem chip w \<and> chip_prot chip w' = chip_prot chip w
      \<and> config_size w' = config_size w"
proof -
  from assms(1) have "idle (hw w)" by (simp add: flash_ready_def)
  from flash_read_run [OF this assms(2)] obtain w' where
    "flash_read env (unat n) a w = Inr ((FLASH_SUCCESS, mslice (nc_mem (chip (hw w))) (unat a) (unat n)), w')"
    "idle (hw w')" "flash_step (chip_st chip w) (nc_mem (chip (hw w))) (chip_st chip w')" by blast
  with flash_ready_step [OF assms(1), of w'] show ?thesis
    by (simp add: flash_op_def chip_mem_def)
qed

lemma flash_op_write:
  assumes "flash_ready chip idle w" and "unat n \<le> length buf"
    and "unat a div 32 * 32 < config_size w" and "unat a div 32 * 32 + unat n \<le> config_size w"
  shows "\<exists>f w'. op_write (flash_op env) = Some f
      \<and> f buf n a w = Inr (FLASH_SUCCESS, w') \<and> flash_ready chip idle w'
      \<and> chip_mem chip w' = page_program (chip_prot chip w) (chip_mem chip w) (unat a) (take (unat n) buf)
      \<and> chip_prot chip w' = chip_prot chip w \<and> config_size w' = config_size w"
proof -
  from assms(1) obtain cfg where c: "idle (hw w)" "flash_current_config w = Some cfg" "config_ok cfg"
    "config_size w = unat (flash_size cfg)" by (rule flash_readyE)
  have l: "length (take (unat n) buf) = unat n" using assms(2) by simp
  have n: "length (take (unat n) buf) < 2 ^ 32" using word_unat_less32 l by simp
  have acc: "write_accepted cfg (unat a) (length (take (unat n) buf))"
    using assms(3,4) c(4) l by (simp add: write_accepted_def)
  from flash_write_run [OF c(1-3) n, of a] obtain w' where
    "flash_write env (take (unat n) buf) a w = Inr (FLASH_SUCCESS, w')" "idle (hw w')"
    "flash_step (chip_st chip w) (written cfg (chip (hw w)) a (take (unat n) buf)) (chip_st chip w')"
    by (auto simp: written_def)
  with flash_ready_step [OF assms(1), of w'] acc show ?thesis
    by (simp add: flash_op_def written_def chip_mem_def chip_prot_def)
qed

lemma flash_op_erase:
  assumes "flash_ready chip idle w" and "unat a < config_size w"
  shows "\<exists>f w'. op_control (flash_op env) = Some f
      \<and> f CMD_FLASH_ERASE_SECTOR a w = Inr ((FLASH_SUCCESS, a), w') \<and> flash_ready chip idle w'
      \<and> chip_mem chip w' = sector_erase (chip_prot chip w) (chip_mem chip w) (unat a)
      \<and> chip_prot chip w' = chip_prot chip w \<and> config_size w' = config_size w"
proof -
  from assms(1) obtain cfg where c: "idle (hw w)" "flash_current_config w = Some cfg" "config_ok cfg"
    "config_size w = unat (flash_size cfg)" by (rule flash_readyE)
  have "unat (flash_size cfg) \<le> 0x800000" using c(3) by (simp add: config_ok_def word_le_nat_alt)
  then have m: "unat (a AND 0xFFF000) = unat a div 4096 * 4096" using assms(2) c(4) by (intro sector_mask) simp
  moreover have "unat a div 4096 * 4096 < unat (flash_size cfg)"
    using le_less_trans [OF div_times_less_eq_dividend] assms(2) c(4) by simp
  ultimately have e: "erased cfg (chip (hw w)) a = sector_erase (chip_prot chip w) (chip_mem chip w) (unat a)"
    by (simp add: erased_def sector_erase_base chip_mem_def chip_prot_def)
  from flash_ctrl_erase_run [OF c(1-3), of a] obtain w' where
    "flash_ctrl env CMD_FLASH_ERASE_SECTOR a w = Inr ((FLASH_SUCCESS, a), w')" "idle (hw w')"
    "flash_step (chip_st chip w) (erased cfg (chip (hw w)) a) (chip_st chip w')"
    by (auto simp: erased_def)
  with flash_ready_step [OF assms(1), of w'] e show ?thesis by (simp add: flash_op_def)
qed

lemma flash_op_protect:
  assumes "flash_ready chip idle w"
  shows "\<exists>f w'. op_control (flash_op env) = Some f
      \<and> f CMD_FLASH_SET_PROTECT t w = Inr ((FLASH_SUCCESS, t), w') \<and> flash_ready chip idle w'
      \<and> chip_mem chip w' = chip_mem chip w \<and> config_size w' = config_size w
      \<and> (t = FLASH_PROTECT_NONE \<longrightarrow> (\<forall>i. \<not> chip_prot chip w' i))"
proof -
  from assms obtain cfg where c: "idle (hw w)" "flash_current_config w = Some cfg" "cfg \<in> set flash_config"
    "part_ok cfg (chip (hw w))" by (rule flash_readyE)
  from flash_ctrl_set_protect_run [OF c(1-3), of t] obtain w' v where
    r: "flash_ctrl env CMD_FLASH_SET_PROTECT t w = Inr ((FLASH_SUCCESS, t), w')" "idle (hw w')"
      "sr_step (chip_st chip w) v (chip_st chip w')"
      "protect_field cfg (sr_view (sr_size cfg) v) = protect_code cfg t" by blast
  have "t = FLASH_PROTECT_NONE \<longrightarrow> (\<forall>i. \<not> chip_prot chip w' i)"
    using r(3,4) c(4) by (auto simp: protect_code_def sr_step_def part_ok_def chip_prot_def)
  moreover have "flash_ready chip idle w'" using r(2,3) c
    by (auto simp: flash_ready_def sr_step_def part_ok_def)
  ultimately show ?thesis using r(1,3)
    by (simp add: flash_op_def chip_mem_def config_size_def sr_step_def)
qed

end

sublocale nor_controller < dev: nor_device "flash_op env" "flash_ready chip idle" "chip_mem chip" "chip_prot chip" config_size
proof unfold_locales
  show "op_open (flash_op env) = None" "op_close (flash_op env) = None" by (simp_all add: flash_op_def)
  show "config_size w \<le> 0x800000" if "flash_ready chip idle w" for w
  proof -
    from that obtain cfg where "config_ok cfg" "config_size w = unat (flash_size cfg)" by (rule flash_readyE)
    then show ?thesis by (simp add: config_ok_def word_le_nat_alt)
  qed
qed (rule flash_op_read flash_op_write flash_op_erase flash_op_protect; assumption)+

context nor_controller
begin

lemmas axioms_dev = dev.nor_device_axioms

end

section \<open>The device in the table\<close>

text \<open>The device with operations \<open>ops\<close> is registered as \<^verbatim>\<open>"flash"\<close> in slot \<open>i\<close> and ready.\<close>

definition dev_at :: "('w, u32) dd_operations \<Rightarrow> ('w \<Rightarrow> bool) \<Rightarrow> string \<Rightarrow> nat \<Rightarrow> ('w, u32) drv_st \<Rightarrow> bool" where
  "dev_at ops ready mem0 i s \<longleftrightarrow> finds mem0 FLASH_DEV_NAME s i \<and> dev_op (drv_dev_tbl s ! i) = Some ops \<and>
     (dev_state (drv_dev_tbl s ! i) = DD_STATE_CLOSED \<or> dev_state (drv_dev_tbl s ! i) = DD_STATE_OPENED) \<and>
     ready (world s)"

context nor_device
begin

abbreviation flash_at :: "string \<Rightarrow> nat \<Rightarrow> ('w, u32) drv_st \<Rightarrow> bool" where
  "flash_at \<equiv> dev_at ops ready"

lemma flash_at_world: "flash_at mem0 i s \<Longrightarrow> ready w \<Longrightarrow> flash_at mem0 i (s\<lparr>world := w\<rparr>)"
  by (simp add: dev_at_def finds_def)

lemma flash_at_slot:
  assumes "flash_at mem0 i s" and "dev_name d = dev_name (drv_dev_tbl s ! i)" and "dev_op d = Some ops"
    and "dev_state d = DD_STATE_CLOSED \<or> dev_state d = DD_STATE_OPENED"
  shows "flash_at mem0 i (set_slot i d (world s) s)"
proof -
  have f: "finds mem0 FLASH_DEV_NAME s i" using assms(1) by (simp add: dev_at_def)
  have "finds mem0 FLASH_DEV_NAME (set_slot i d (world s) s) i"
    by (rule finds_upd [OF f, where d = d]) (simp_all add: assms(2))
  moreover have "i < length (drv_dev_tbl s)" using f by (auto simp: finds_def find_index_Some)
  ultimately show ?thesis using assms by (simp add: dev_at_def)
qed

lemma open_flash:
  assumes "flash_at mem0 i s"
  shows "\<exists>st s'. ddev_open mem0 (Some FLASH_DEV_NAME) True flag s = Inr ((ddev_make_handle (of_nat i), Some st), s')
     \<and> flash_at mem0 i s' \<and> world s' = world s"
proof (cases "dev_state (drv_dev_tbl s ! i) = DD_STATE_OPENED")
  case True
  with assms flash_at_slot [OF assms] show ?thesis
    by (auto simp: dev_at_def ddev_open_opened)
next
  case False
  let ?d = "drv_dev_tbl s ! i"
  have "finds mem0 FLASH_DEV_NAME s i" "dev_state ?d = DD_STATE_CLOSED" "run_open ?d flag (world s) = Inr (DRV_FAILURE, world s)"
    using assms False no_open by (auto simp: dev_at_def run_open_def)
  note o = ddev_open_closed [OF this]
  have "flash_at mem0 i (set_slot i (?d\<lparr>dev_state := DD_STATE_OPENED, use_cnt := 1\<rparr>) (world s) s)"
    using assms by (intro flash_at_slot) (auto simp: dev_at_def)
  with o show ?thesis by simp
qed

lemma flash_at_bound:
  assumes "flash_at mem0 i s"
  shows "i < DD_MAX_DEV" "length (drv_dev_tbl s) = DD_MAX_DEV"
  using assms by (auto simp: dev_at_def finds_def find_index_Some)

lemma close_flash:
  assumes "flash_at mem0 i s"
  shows "\<exists>s'. ddev_close (ddev_make_handle (of_nat i)) s = Inr (DRV_SUCCESS, s')
     \<and> flash_at mem0 i s' \<and> world s' = world s"
proof (cases "use_cnt (drv_dev_tbl s ! i) = 1")
  case True
  let ?d = "drv_dev_tbl s ! i"
  have "run_close ?d (world s) = Inr ((), world s)"
    using assms no_open by (auto simp: dev_at_def run_close_def)
  note o = ddev_close_last [OF flash_at_bound [OF assms] True this]
  have "flash_at mem0 i (set_slot i (?d\<lparr>use_cnt := 0, dev_state := DD_STATE_CLOSED\<rparr>) (world s) s)"
    using assms by (intro flash_at_slot) (auto simp: dev_at_def)
  with o show ?thesis by simp
next
  case False
  let ?d = "drv_dev_tbl s ! i"
  have "flash_at mem0 i (set_slot i (?d\<lparr>use_cnt := use_cnt ?d - 1\<rparr>) (world s) s)"
    using assms by (intro flash_at_slot) (auto simp: dev_at_def)
  with ddev_close_more [OF flash_at_bound [OF assms] False] show ?thesis by simp
qed

lemma handle_dev:
  assumes "flash_at mem0 i s"
  shows "ddev_get_id_from_handle (ddev_make_handle (of_nat i)) = of_nat i" "(of_nat i :: u32) \<noteq> DD_ID_UNVALID"
    "get_dev (unat (of_nat i :: u32)) s = Inr (drv_dev_tbl s ! i, s)" "dev_op (drv_dev_tbl s ! i) = Some ops"
  using assms handle_of_nat [OF flash_at_bound(1) [OF assms]] flash_at_bound [OF assms]
  by (auto simp: get_dev_def dev_at_def)

lemma read_flash:
  assumes "flash_at mem0 i s" and "unat a + unat n \<le> 2 ^ 24"
  shows "\<exists>s'. ddev_read (ddev_make_handle (of_nat i)) buf n a s =
       Inr ((FLASH_SUCCESS, mslice (mem (world s)) (unat a) (unat n) @ drop (unat n) buf), s')
     \<and> flash_at mem0 i s' \<and> mem (world s') = mem (world s) \<and> prot (world s') = prot (world s)
     \<and> size (world s') = size (world s)"
proof -
  have "ready (world s)" using assms(1) by (simp add: dev_at_def)
  from read_law [OF this assms(2), of buf] obtain f w' where "op_read ops = Some f"
    "f buf n a (world s) = Inr ((FLASH_SUCCESS, mslice (mem (world s)) (unat a) (unat n) @ drop (unat n) buf), w')"
    "ready w'" "mem w' = mem (world s)" "prot w' = prot (world s)" "size w' = size (world s)" by blast
  with handle_dev [OF assms(1)] flash_at_world [OF assms(1)] show ?thesis
    by (simp add: ddev_read_def in_world_def)
qed

lemma write_flash:
  assumes "flash_at mem0 i s" and "unat n \<le> length buf"
    and "unat a div 32 * 32 < size (world s)" and "unat a div 32 * 32 + unat n \<le> size (world s)"
  shows "\<exists>s'. ddev_write (ddev_make_handle (of_nat i)) buf n a s = Inr (FLASH_SUCCESS, s')
     \<and> flash_at mem0 i s' \<and> mem (world s') = page_program (prot (world s)) (mem (world s)) (unat a) (take (unat n) buf)
     \<and> prot (world s') = prot (world s) \<and> size (world s') = size (world s)"
proof -
  have "ready (world s)" using assms(1) by (simp add: dev_at_def)
  from write_law [OF this assms(2-4)] obtain f w' where "op_write ops = Some f"
    "f buf n a (world s) = Inr (FLASH_SUCCESS, w')" "ready w'"
    "mem w' = page_program (prot (world s)) (mem (world s)) (unat a) (take (unat n) buf)"
    "prot w' = prot (world s)" "size w' = size (world s)" by blast
  with handle_dev [OF assms(1)] flash_at_world [OF assms(1)] show ?thesis
    by (simp add: ddev_write_def in_world_def)
qed

lemma erase_flash:
  assumes "flash_at mem0 i s" and "unat a < size (world s)"
  shows "\<exists>s'. ddev_control (ddev_make_handle (of_nat i)) CMD_FLASH_ERASE_SECTOR a s = Inr ((FLASH_SUCCESS, a), s')
     \<and> flash_at mem0 i s' \<and> mem (world s') = sector_erase (prot (world s)) (mem (world s)) (unat a)
     \<and> prot (world s') = prot (world s) \<and> size (world s') = size (world s)"
proof -
  have "ready (world s)" using assms(1) by (simp add: dev_at_def)
  from erase_law [OF this assms(2)] obtain f w' where "op_control ops = Some f"
    "f CMD_FLASH_ERASE_SECTOR a (world s) = Inr ((FLASH_SUCCESS, a), w')" "ready w'"
    "mem w' = sector_erase (prot (world s)) (mem (world s)) (unat a)"
    "prot w' = prot (world s)" "size w' = size (world s)" by blast
  with handle_dev [OF assms(1)] flash_at_world [OF assms(1)] show ?thesis
    by (simp add: ddev_control_def in_world_def)
qed

lemma protect_flash:
  assumes "flash_at mem0 i s"
  shows "\<exists>s'. ddev_control (ddev_make_handle (of_nat i)) CMD_FLASH_SET_PROTECT t s = Inr ((FLASH_SUCCESS, t), s')
     \<and> flash_at mem0 i s' \<and> mem (world s') = mem (world s) \<and> size (world s') = size (world s)
     \<and> (t = FLASH_PROTECT_NONE \<longrightarrow> (\<forall>j. \<not> prot (world s') j))"
proof -
  have "ready (world s)" using assms(1) by (simp add: dev_at_def)
  from protect_law [OF this, of t] obtain f w' where "op_control ops = Some f"
    "f CMD_FLASH_SET_PROTECT t (world s) = Inr ((FLASH_SUCCESS, t), w')" "ready w'"
    "mem w' = mem (world s)" "size w' = size (world s)" "t = FLASH_PROTECT_NONE \<longrightarrow> (\<forall>j. \<not> prot w' j)" by blast
  with handle_dev [OF assms(1)] flash_at_world [OF assms(1)] show ?thesis
    by (simp add: ddev_control_def in_world_def)
qed

end

section \<open>Bringing the device up\<close>

lemma find_config_in: "cs \<noteq> [] \<Longrightarrow> \<exists>c. find_config i cs = Some c \<and> c \<in> set cs"
  by (induction i cs rule: find_config.induct) auto

lemma flash_config_nonempty: "flash_config \<noteq> []"
  by (simp add: flash_config_def)

text \<open>The part of \<^verbatim>\<open>flash_init\<close> before the registration.\<close>

definition flash_setup :: "'h flash_env \<Rightarrow> ('h flash_st, unit) prog" where
  "flash_setup env = thenM (wait_idle env) (thenM (flash_get_id env) (thenM flash_get_current_flash_config
     (thenM (set_flash_protect env FLASH_UNPROTECT_LAST_BLOCK) (thenM (flash_disable_cpu_data_wr env)
     (bindM current_config (\<lambda>cfg. thenM (flash_set_line_mode env (line_mode cfg)) (flash_set_clk env 5)))))))"

lemma line_mode_2: "cfg \<in> set flash_config \<Longrightarrow> line_mode cfg = 2"
  by (auto simp: flash_config_def mk_config_def)

lemma nor_exec_crmr:
  "nor_exec (push_bit OP_TYPE_SW_POSI FLASH_OPCODE_CRMR OR OP_SW OR (x AND WP_VALUE)) c
     = c\<lparr>nc_op := push_bit OP_TYPE_SW_POSI FLASH_OPCODE_CRMR OR OP_SW OR (x AND WP_VALUE)\<rparr>"
proof -
  have "cmd_op (push_bit 24 FLASH_OPCODE_CRMR OR OP_SW OR (x AND WP_VALUE)) = FLASH_OPCODE_CRMR"
    by (simp add: cmd_op_def bit.conj_disj_distrib2 and.assoc drop_bit_or drop_bit_and)
  then show ?thesis by (simp add: nor_exec_def Let_def)
qed

lemma flash_clr_qwfr_nor:
  "\<exists>s'. flash_clr_qwfr nor_env s = Inr ((), s') \<and> sr_step s (nc_sr (hw s)) s'"
  unfolding flash_clr_qwfr_def
  by (simp only: bindM_run thenM_run REG_READ_nor REG_WRITE_nor issue_nor nor_exec_crmr split: prod.split)
    (simp add: sr_step_def)

lemma flash_conf_nor:
  "\<exists>s'. flash_set_clk nor_env c s = Inr ((), s') \<and> sr_step s (nc_sr (hw s)) s'"
  "\<exists>s'. flash_disable_cpu_data_wr nor_env s = Inr ((), s') \<and> sr_step s (nc_sr (hw s)) s'"
  by (simp_all add: flash_set_clk_def flash_disable_cpu_data_wr_def prog_simps REG_READ_nor REG_WRITE_nor sr_step_def)

lemma flash_set_line_mode_nor:
  "\<exists>s'. flash_set_line_mode nor_env 2 s = Inr ((), s') \<and> sr_step s (nc_sr (hw s)) s'"
proof -
  from flash_clr_qwfr_nor [of s] obtain s1 where s1: "flash_clr_qwfr nor_env s = Inr ((), s1)" "sr_step s (nc_sr (hw s)) s1"
    by blast
  then show ?thesis
    by (simp add: flash_set_line_mode_def prog_simps REG_READ_nor REG_WRITE_nor) (simp add: sr_step_def)
qed

lemma flash_get_id_nor:
  "\<exists>s'. flash_get_id nor_env s = Inr (nc_id (hw s), s') \<and> flash_id s' = nc_id (hw s)
     \<and> nc_mem (hw s') = nc_mem (hw s) \<and> nc_prot (hw s') = nc_prot (hw s)"
  by (simp add: flash_get_id_def prog_simps REG_READ_nor nor_exec_def cmd_op_def Let_def)

lemma flash_tail_nor:
  assumes "flash_current_config s = Some cfg" and "cfg \<in> set flash_config"
  shows "\<exists>s'. thenM (flash_disable_cpu_data_wr nor_env)
     (bindM current_config (\<lambda>cfg. thenM (flash_set_line_mode nor_env (line_mode cfg)) (flash_set_clk nor_env 5))) s
     = Inr ((), s') \<and> sr_step s (nc_sr (hw s)) s'"
proof -
  from flash_conf_nor(2) obtain s1 where
    s1: "flash_disable_cpu_data_wr nor_env s = Inr ((), s1)" "sr_step s (nc_sr (hw s)) s1" by blast
  from flash_set_line_mode_nor obtain s2 where
    s2: "flash_set_line_mode nor_env 2 s1 = Inr ((), s2)" "sr_step s1 (nc_sr (hw s1)) s2" by blast
  from flash_conf_nor(1) obtain s3 where
    s3: "flash_set_clk nor_env 5 s2 = Inr ((), s3)" "sr_step s2 (nc_sr (hw s2)) s3" by blast
  have "flash_current_config s1 = Some cfg" using s1(2) assms(1) by (simp add: sr_step_def)
  with s1(1) s2(1) s3(1) line_mode_2 [OF assms(2)] have "thenM (flash_disable_cpu_data_wr nor_env)
     (bindM current_config (\<lambda>cfg. thenM (flash_set_line_mode nor_env (line_mode cfg)) (flash_set_clk nor_env 5))) s
     = Inr ((), s3)" by simp
  moreover have "sr_step s (nc_sr (hw s)) s3" using s1(2) s2(2) s3(2) by (simp add: sr_step_def)
  ultimately show ?thesis by blast
qed

lemma flash_setup_nor:
  fixes s :: "nor_chip flash_st"
  defines "cfg \<equiv> the (find_config (nc_id (hw s)) flash_config)"
  shows "\<exists>s' v. flash_setup nor_env s = Inr ((), s') \<and> flash_current_config s' = Some cfg \<and> cfg \<in> set flash_config
     \<and> nc_mem (hw s') = nc_mem (hw s) \<and> nc_prot (hw s') = nc_prot (hw s)
     \<and> nc_sr (hw s') = v \<and> protect_field cfg (sr_view (sr_size cfg) v) = unprotect_last_block cfg"
proof -
  from find_config_in [OF flash_config_nonempty, of "nc_id (hw s)"] have
    c: "find_config (nc_id (hw s)) flash_config = Some cfg" "cfg \<in> set flash_config"
    by (auto simp: cfg_def)
  from flash_get_id_nor [of s] obtain s1 where s1: "flash_get_id nor_env s = Inr (nc_id (hw s), s1)" "flash_id s1 = nc_id (hw s)"
    "nc_mem (hw s1) = nc_mem (hw s)" "nc_prot (hw s1) = nc_prot (hw s)" by blast
  let ?s2 = "s1\<lparr>flash_current_config := Some cfg\<rparr>"
  have s2: "flash_get_current_flash_config s1 = Inr ((), ?s2)" using c(1) s1(2) by (simp add: flash_get_current_flash_config_def)
  from set_flash_protect_nor [of ?s2, OF _ c(2), of FLASH_UNPROTECT_LAST_BLOCK] obtain s3 v where
    s3: "set_flash_protect nor_env FLASH_UNPROTECT_LAST_BLOCK ?s2 = Inr ((), s3)" "sr_step ?s2 v s3"
      "protect_field cfg (sr_view (sr_size cfg) v) = protect_code cfg FLASH_UNPROTECT_LAST_BLOCK" by auto
  have c3: "flash_current_config s3 = Some cfg" "nc_sr (hw s3) = v" using s3(2) by (simp_all add: sr_step_def)
  from flash_tail_nor [OF c3(1) c(2)] obtain s4 where
    s4: "thenM (flash_disable_cpu_data_wr nor_env)
      (bindM current_config (\<lambda>cfg. thenM (flash_set_line_mode nor_env (line_mode cfg)) (flash_set_clk nor_env 5))) s3
      = Inr ((), s4)" "sr_step s3 v s4" unfolding c3(2) by blast
  have "flash_setup nor_env s = Inr ((), s4)"
    unfolding flash_setup_def using s1(1) s2 s3(1) s4(1) by simp
  moreover have "protect_code cfg FLASH_UNPROTECT_LAST_BLOCK = unprotect_last_block cfg" by (simp add: protect_code_def)
  ultimately show ?thesis using s1(3,4) s3(2,3) s4(2) c by (auto simp: sr_step_def)
qed

context nor_controller
begin

lemma sim_flash_setup: "sim rel (flash_setup env) (flash_setup nor_env)"
  unfolding flash_setup_def by (intro sim_intros)

lemma flash_setup_run:
  fixes s :: "'h flash_st"
  defines "cfg \<equiv> the (find_config (nc_id (chip (hw s))) flash_config)"
  assumes "idle (hw s)"
  shows "\<exists>s'. flash_setup env s = Inr ((), s') \<and> idle (hw s') \<and> flash_current_config s' = Some cfg \<and> cfg \<in> set flash_config
     \<and> nc_mem (chip (hw s')) = nc_mem (chip (hw s)) \<and> nc_prot (chip (hw s')) = nc_prot (chip (hw s))
     \<and> protect_field cfg (sr_view (sr_size cfg) (nc_sr (chip (hw s')))) = unprotect_last_block cfg"
proof -
  from flash_setup_nor [of "chip_st chip s"] obtain t where
    t: "flash_setup nor_env (chip_st chip s) = Inr ((), t)" "flash_current_config t = Some cfg" "cfg \<in> set flash_config"
     "nc_mem (hw t) = nc_mem (chip (hw s))" "nc_prot (hw t) = nc_prot (chip (hw s))"
     "protect_field cfg (sr_view (sr_size cfg) (nc_sr (hw t))) = unprotect_last_block cfg" by (auto simp: cfg_def)
  from run_nor [OF sim_flash_setup assms(2) t(1)] obtain s' where
    "flash_setup env s = Inr ((), s')" "idle (hw s')" "chip_st chip s' = t" by blast
  with t(2-) show ?thesis by auto
qed

end

text \<open>
  \<^verbatim>\<open>flash_init\<close> brings the device up. On any controller that implements the chip,
  from a well-formed device table whose first free slot is \<open>i\<close> and in which no earlier
  slot's name starts with \<^verbatim>\<open>"flash"\<close>, it returns, the driver has the configuration row of
  the part's identity (the last row for an unknown part), the protection is set to the
  row's last-block code, the contents are untouched and the device is ready in slot \<open>i\<close>.
\<close>

theorem flash_init_ready:
  assumes "nor_controller env chip idle" and "idle (hw (world s))" and "wf_drv s"
    and "find_index (\<lambda>d. dev_name d = None \<and> dev_state d = DD_STATE_NODEVICE) (drv_dev_tbl s) = Some i"
    and "\<forall>j<i. take 5 (c_str mem0 (dev_name (drv_dev_tbl s ! j))) \<noteq> FLASH_DEV_NAME"
    and "part_ok (the (find_config (nc_id (chip (hw (world s)))) flash_config)) (chip (hw (world s)))"
  shows "\<exists>s'. flash_init env s = Inr ((), s') \<and> dev_at (flash_op env) (flash_ready chip idle) mem0 i s'
     \<and> flash_current_config (world s') = find_config (nc_id (chip (hw (world s)))) flash_config
     \<and> chip_mem chip (world s') = chip_mem chip (world s)
     \<and> (\<forall>cfg. flash_current_config (world s') = Some cfg \<longrightarrow>
          protect_field cfg (sr_view (sr_size cfg) (nc_sr (chip (hw (world s'))))) = unprotect_last_block cfg)"
proof -
  let ?cfg = "the (find_config (nc_id (chip (hw (world s)))) flash_config)"
  from nor_controller.flash_setup_run [OF assms(1,2)] obtain w where
    w: "flash_setup env (world s) = Inr ((), w)" "idle (hw w)" "flash_current_config w = Some ?cfg" "?cfg \<in> set flash_config"
     "nc_mem (chip (hw w)) = nc_mem (chip (hw (world s)))" "nc_prot (chip (hw w)) = nc_prot (chip (hw (world s)))"
     "protect_field ?cfg (sr_view (sr_size ?cfg) (nc_sr (chip (hw w)))) = unprotect_last_block ?cfg" by blast
  let ?s1 = "s\<lparr>world := w\<rparr>"
  have len: "length (drv_dev_tbl ?s1) = DD_MAX_DEV" using assms(3) by (simp add: wf_drv_def)
  have i: "i < DD_MAX_DEV" using assms(4) len by (auto simp: find_index_Some)
  let ?d = "(drv_dev_tbl s ! i)\<lparr>dev_name := Some FLASH_DEV_NAME, dev_op := Some (flash_op env), dev_state := DD_STATE_CLOSED\<rparr>"
  have free: "find_index (\<lambda>d. dev_name d = None \<and> dev_state d = DD_STATE_NODEVICE) (drv_dev_tbl ?s1) = Some i"
    using assms(4) by simp
  have other: "\<forall>j<i. take (length FLASH_DEV_NAME) (c_str mem0 (dev_name (drv_dev_tbl ?s1 ! j))) \<noteq> FLASH_DEV_NAME"
    using assms(5) by (simp add: eval_nat_numeral)
  have r: "ddev_register_dev (Some FLASH_DEV_NAME) (Some (flash_op env)) ?s1 = Inr (DRV_SUCCESS, set_slot i ?d w ?s1)"
    "finds mem0 FLASH_DEV_NAME (set_slot i ?d w ?s1) i"
    using register_finds [OF len _ free other, where ops = "flash_op env"] by simp_all
  have "in_world (flash_setup env) s = Inr ((), ?s1)" using w(1) by (simp add: in_world_def)
  then have "flash_init env s = Inr ((), set_slot i ?d w ?s1)"
    using r(1) unfolding flash_init_def flash_setup_def by simp
  moreover have "flash_ready chip idle w" using w assms(6) by (simp add: flash_ready_def part_ok_def)
  then have "dev_at (flash_op env) (flash_ready chip idle) mem0 i (set_slot i ?d w ?s1)"
    using r(2) i len by (simp add: dev_at_def)
  moreover have "find_config (nc_id (chip (hw (world s)))) flash_config = Some ?cfg"
    using find_config_in [OF flash_config_nonempty, of "nc_id (chip (hw (world s)))"] by auto
  ultimately show ?thesis using w by (auto simp: chip_mem_def)
qed

definition demo_drv :: "((nat \<times> nor_chip) flash_st, u32) drv_st" where
  "demo_drv = \<lparr>drv_dev_tbl = replicate DD_MAX_DEV zero_dev, drv_sdev_tbl = replicate DD_MAX_SDEV zero_sdev,
     world = demo_flash\<lparr>flash_current_config := None, flash_id := 0\<rparr>\<rparr>"

lemma demo_find: "find_config 0x0B4015 flash_config = Some demo_cfg"
  by (simp add: flash_config_def demo_cfg_def mk_config_def)

lemma demo_part_ok: "part_ok demo_cfg demo_chip"
  by (simp add: part_ok_def) (simp add: demo_chip_def)

theorem flash_init_ready_witness:
  "\<exists>s'. flash_init (slow_env 4) demo_drv = Inr ((), s') \<and> dev_at (flash_op (slow_env 4)) (flash_ready snd (\<lambda>h. fst h = 0)) [] 0 s'
     \<and> flash_current_config (world s') = find_config (nc_id (snd (hw (world demo_drv)))) flash_config
     \<and> chip_mem snd (world s') = chip_mem snd (world demo_drv)
     \<and> (\<forall>cfg. flash_current_config (world s') = Some cfg \<longrightarrow>
          protect_field cfg (sr_view (sr_size cfg) (nc_sr (snd (hw (world s'))))) = unprotect_last_block cfg)"
proof (rule flash_init_ready [OF slow.nor_controller_axioms])
  show "wf_drv demo_drv" by (simp add: demo_drv_def wf_drv_def zero_dev_def zero_sdev_def slot_ok_def sslot_ok_def list_all_length)
  show "find_index (\<lambda>d. dev_name d = None \<and> dev_state d = DD_STATE_NODEVICE) (drv_dev_tbl demo_drv) = Some 0"
    by (simp add: demo_drv_def zero_dev_def numeral_eq_Suc)
  show "part_ok (the (find_config (nc_id (snd (hw (world demo_drv)))) flash_config)) (snd (hw (world demo_drv)))"
    by (simp add: demo_drv_def demo_find demo_part_ok)
qed (simp_all add: demo_drv_def)

end
