(* ===== verification/Bk_Flash.thy ===== *)
theory Bk_Flash
  imports Flash_Dev
begin

text \<open>
  The partition layer, \<^verbatim>\<open>components/user_driver/BkDriverFlash.c\<close> (not
  \<^verbatim>\<open>SOC_BK7221U\<close>): the partition table and erase, write and read relative to a
  partition, over the device model. A partition number is the value of the C enum.
  \<^verbatim>\<open>OSStatus\<close> is a 32-bit word; printing is left out. \<^verbatim>\<open>GLOBAL_INT_DISABLE\<close> only masks
  interrupts.
\<close>

abbreviation (input) kNoErr :: u32 where "kNoErr \<equiv> 0"
abbreviation (input) kGeneralErr :: u32 where "kGeneralErr \<equiv> - 1"
abbreviation (input) kParamErr :: u32 where "kParamErr \<equiv> - 6705"
abbreviation (input) kNotFoundErr :: u32 where "kNotFoundErr \<equiv> - 6727"
abbreviation (input) kOpenErr :: u32 where "kOpenErr \<equiv> - 6755"

abbreviation (input) BK_PARTITION_BOOTLOADER :: nat where "BK_PARTITION_BOOTLOADER \<equiv> 0"
abbreviation (input) BK_PARTITION_APPLICATION :: nat where "BK_PARTITION_APPLICATION \<equiv> 1"
abbreviation (input) BK_PARTITION_OTA :: nat where "BK_PARTITION_OTA \<equiv> 2"
abbreviation (input) BK_PARTITION_RF_FIRMWARE :: nat where "BK_PARTITION_RF_FIRMWARE \<equiv> 3"
abbreviation (input) BK_PARTITION_NET_PARAM :: nat where "BK_PARTITION_NET_PARAM \<equiv> 4"
abbreviation (input) BK_PARTITION_USR_CONFIG :: nat where "BK_PARTITION_USR_CONFIG \<equiv> 5"
abbreviation (input) BK_PARTITION_MAX :: nat where "BK_PARTITION_MAX \<equiv> 6"

datatype bk_flash_t = BK_FLASH_EMBEDDED | BK_FLASH_SPI | BK_FLASH_MAX | BK_FLASH_NONE

record bk_logic_partition_t =
  partition_owner :: bk_flash_t
  partition_description :: "string option"
  partition_start_addr :: u32
  partition_length :: u32
  partition_options :: u32

text \<open>\<^verbatim>\<open>PAR_OPT_READ_EN\<close> is bit 0, \<^verbatim>\<open>PAR_OPT_WRITE_DIS\<close> is 0.\<close>

definition partition :: "string \<Rightarrow> u32 \<Rightarrow> u32 \<Rightarrow> bk_logic_partition_t" where
  "partition desc start len = \<lparr>partition_owner = BK_FLASH_EMBEDDED, partition_description = Some desc,
     partition_start_addr = start, partition_length = len, partition_options = 1 OR 0\<rparr>"

text \<open>The row of \<^verbatim>\<open>BK_PARTITION_USR_CONFIG\<close> has no initialiser: it is all zero.\<close>

definition bk7231_partitions :: "bk_logic_partition_t list" where
  "bk7231_partitions =
    [partition ''Bootloader'' 0x00000000 0x0F000,
     partition ''Application'' 0x11000 0x143000,
     partition ''ota'' 0x132000 0xAE000,
     partition ''RF Firmware'' 0x1e0000 0x1000,
     partition ''NET info'' 0x1e1000 0x1000,
     \<lparr>partition_owner = BK_FLASH_EMBEDDED, partition_description = None, partition_start_addr = 0,
       partition_length = 0, partition_options = 0\<rparr>]"

text \<open>\<^verbatim>\<open>BkFlashPartitionAssert\<close> asserts a constant truth, whatever its argument.\<close>

definition BkFlashPartitionAssert :: "nat \<Rightarrow> ('s, unit) prog" where
  "BkFlashPartitionAssert inPartition = assertM (BK_PARTITION_BOOTLOADER < BK_PARTITION_MAX)"

definition BkFlashPartitionIsValid :: "nat \<Rightarrow> u32" where
  "BkFlashPartitionIsValid inPartition =
     (if inPartition \<ge> BK_PARTITION_BOOTLOADER \<and> inPartition < BK_PARTITION_MAX then 1 else 0)"

definition bk_flash_get_info :: "nat \<Rightarrow> ('s, bk_logic_partition_t option) prog" where
  "bk_flash_get_info inPartition = thenM (BkFlashPartitionAssert inPartition)
     (if BkFlashPartitionIsValid inPartition \<noteq> 0
      then retM (Some (bk7231_partitions ! inPartition)) else retM None)"

text \<open>
  The loop over the sectors \<open>i\<close> to \<open>end_sector\<close>. The sector numbers are 20-bit values,
  so the loop counter cannot wrap; the fuel is their distance.
\<close>

primrec erase_sectors :: "nat \<Rightarrow> u32 \<Rightarrow> u32 \<Rightarrow> u32 \<Rightarrow> (('w, u32) drv_st, unit) prog" where
  "erase_sectors 0 flash_hdl start i = retM ()"
| "erase_sectors (Suc n) flash_hdl start i =
     thenM (ddev_control flash_hdl CMD_FLASH_ERASE_SECTOR (start + push_bit 12 i))
       (erase_sectors n flash_hdl start (i + 1))"

definition bk_flash_erase :: "string \<Rightarrow> nat \<Rightarrow> u32 \<Rightarrow> u32 \<Rightarrow> (('w, u32) drv_st, u32) prog" where
  "bk_flash_erase mem0 inPartition off_set sz =
    bindM (bk_flash_get_info inPartition) (\<lambda>partition_info.
      let start_sector = drop_bit 12 off_set; end_sector = drop_bit 12 (off_set + sz - 1) in
      bindM (ddev_open mem0 (Some FLASH_DEV_NAME) True 0) (\<lambda>(flash_hdl, _).
        thenM (assertM (DD_HANDLE_UNVALID \<noteq> flash_hdl))
       (if start_sector \<le> end_sector then
          case partition_info of None \<Rightarrow> failM Null_Deref
          | Some pt \<Rightarrow> thenM (erase_sectors (unat end_sector + 1 - unat start_sector) flash_hdl
                         (partition_start_addr pt) start_sector) (retM kNoErr)
        else retM kNoErr)))"

definition bk_flash_write :: "string \<Rightarrow> nat \<Rightarrow> u32 \<Rightarrow> u8 list option \<Rightarrow> u32 \<Rightarrow> (('w, u32) drv_st, u32) prog" where
  "bk_flash_write mem0 inPartition off_set inBuffer inBufferLength =
    (case inBuffer of None \<Rightarrow> retM kParamErr
     | Some buf \<Rightarrow> bindM (bk_flash_get_info inPartition) (\<lambda>partition_info.
        case partition_info of None \<Rightarrow> retM kNotFoundErr
        | Some pt \<Rightarrow>
          let start_addr = partition_start_addr pt + off_set in
          bindM (ddev_open mem0 (Some FLASH_DEV_NAME) True 0) (\<lambda>(flash_hdl, _).
            if DD_HANDLE_UNVALID = flash_hdl then retM kOpenErr
            else thenM (ddev_write flash_hdl buf inBufferLength start_addr) (retM kNoErr))))"

definition bk_flash_read :: "string \<Rightarrow> nat \<Rightarrow> u32 \<Rightarrow> u8 list option \<Rightarrow> u32 \<Rightarrow>
    (('w, u32) drv_st, u32 \<times> u8 list option) prog" where
  "bk_flash_read mem0 inPartition off_set outBuffer inBufferLength =
    (case outBuffer of None \<Rightarrow> retM (kParamErr, None)
     | Some buf \<Rightarrow> bindM (bk_flash_get_info inPartition) (\<lambda>partition_info.
        case partition_info of None \<Rightarrow> retM (kNotFoundErr, Some buf)
        | Some pt \<Rightarrow>
          let start_addr = partition_start_addr pt + off_set in
          bindM (ddev_open mem0 (Some FLASH_DEV_NAME) True 0) (\<lambda>(flash_hdl, _).
            if DD_HANDLE_UNVALID = flash_hdl then retM (kOpenErr, Some buf)
            else bindM (ddev_read flash_hdl buf inBufferLength start_addr) (\<lambda>(_, buf').
              retM (kNoErr, Some buf')))))"

definition bk_flash_enable_security :: "string \<Rightarrow> u32 \<Rightarrow> (('w, u32) drv_st, u32) prog" where
  "bk_flash_enable_security mem0 t =
     bindM (ddev_open mem0 (Some FLASH_DEV_NAME) True 0) (\<lambda>(flash_hdl, _).
       if DD_HANDLE_UNVALID = flash_hdl then retM kOpenErr
       else thenM (ddev_control flash_hdl CMD_FLASH_SET_PROTECT t) (retM kNoErr))"

text \<open>
  The loops \<^verbatim>\<open>for(;addr<tmp;addr+=step)\<close> of the test functions: near the end of the
  address space the addition wraps and the loop does not end, the value \<open>None\<close>.
\<close>

partial_function (option) addr_loop ::
    "(u32 \<Rightarrow> 'a \<Rightarrow> ('s, u32 \<times> 'a) prog) \<Rightarrow> u32 \<Rightarrow> u32 \<Rightarrow> 'a \<Rightarrow> 's \<Rightarrow> (fault + 'a \<times> 's) option" where
  "addr_loop f addr tmp acc s =
     (if addr < tmp
      then case f addr acc s of Inl e \<Rightarrow> Some (Inl e)
           | Inr (r, s') \<Rightarrow> addr_loop f (fst r) tmp (snd r) s'
      else Some (Inr (acc, s)))"

definition run_loop :: "(u32 \<Rightarrow> 'a \<Rightarrow> ('s, u32 \<times> 'a) prog) \<Rightarrow> u32 \<Rightarrow> u32 \<Rightarrow> 'a \<Rightarrow> ('s, 'a) prog" where
  "run_loop f addr tmp acc = (\<lambda>s. case addr_loop f addr tmp acc s of None \<Rightarrow> Inl Busy_Hang | Some r \<Rightarrow> r)"

definition test_flash_write :: "string \<Rightarrow> u32 \<Rightarrow> u32 \<Rightarrow> (('w, u32) drv_st, u32) prog" where
  "test_flash_write mem0 start_addr len =
    (let tmp = start_addr + len; buf = map of_nat [0..<256] in
     bindM (ddev_open mem0 (Some FLASH_DEV_NAME) True 0) (\<lambda>(flash_hdl, _).
       thenM (assertM (DD_HANDLE_UNVALID \<noteq> flash_hdl))
      (thenM (run_loop (\<lambda>addr u. thenM (ddev_write flash_hdl buf 256 addr) (retM (addr + 256, u))) start_addr tmp ())
        (retM kNoErr))))"

definition test_flash_erase :: "string \<Rightarrow> u32 \<Rightarrow> u32 \<Rightarrow> (('w, u32) drv_st, u32) prog" where
  "test_flash_erase mem0 start_addr len =
    (let tmp = start_addr + len in
     bindM (ddev_open mem0 (Some FLASH_DEV_NAME) True 0) (\<lambda>(flash_hdl, _).
       if DD_HANDLE_UNVALID = flash_hdl then retM kOpenErr
       else thenM (run_loop (\<lambda>addr u. bindM (ddev_control flash_hdl CMD_FLASH_ERASE_SECTOR addr)
                     (\<lambda>(_, addr'). retM (addr' + 0x1000, u))) start_addr tmp ())
              (retM kNoErr)))"

text \<open>The second result of \<^verbatim>\<open>test_flash_read\<close> is what it prints, page by page.\<close>

definition test_flash_read :: "string \<Rightarrow> u32 \<Rightarrow> u32 \<Rightarrow> (('w, u32) drv_st, u32 \<times> u8 list list) prog" where
  "test_flash_read mem0 start_addr len =
    (let tmp = start_addr + len in
     bindM (ddev_open mem0 (Some FLASH_DEV_NAME) True 0) (\<lambda>(flash_hdl, _).
       if DD_HANDLE_UNVALID = flash_hdl then retM (kOpenErr, [])
       else bindM (run_loop (\<lambda>addr out. bindM (ddev_read flash_hdl (replicate 256 0) 256 addr)
                     (\<lambda>(_, buf). retM (addr + 256, out @ [buf]))) start_addr tmp [])
              (\<lambda>out. retM (kNoErr, out))))"

section \<open>Erasing, writing and reading a partition\<close>

definition erase_range :: "(nat \<Rightarrow> bool) \<Rightarrow> (nat \<Rightarrow> u8) \<Rightarrow> nat \<Rightarrow> nat \<Rightarrow> nat \<Rightarrow> u8" where
  "erase_range p m lo hi = (\<lambda>i. if lo \<le> i \<and> i < hi \<and> \<not> p i then 0xFF else m i)"

lemma erase_range_empty [simp]: "erase_range p m a a = m"
  by (auto simp: erase_range_def fun_eq_iff)

lemma sector_erase_range:
  assumes "a mod 4096 = 0"
  shows "sector_erase p m a = erase_range p m a (a + 4096)"
proof
  fix i
  obtain k where "a = 4096 * k" using assms by auto
  then have "i div 4096 = a div 4096 \<longleftrightarrow> a \<le> i \<and> i < a + 4096" by auto
  then show "sector_erase p m a i = erase_range p m a (a + 4096) i"
    by (simp add: sector_erase_def erase_range_def)
qed

lemma erase_range_join:
  "lo \<le> mid \<Longrightarrow> mid \<le> hi \<Longrightarrow> erase_range p (erase_range p m lo mid) mid hi = erase_range p m lo hi"
  by (auto simp: erase_range_def fun_eq_iff)

lemma sector_address:
  assumes "unat (start::u32) + unat (i::u32) * 4096 < 2 ^ 32"
  shows "unat (start + push_bit 12 i) = unat start + unat i * 4096"
proof -
  have "unat (push_bit 12 i) = unat i * 4096"
    using assms by (simp add: push_bit_eq_mult unat_word_ariths)
  then show ?thesis using assms by (simp add: unat_word_ariths)
qed

lemma get_info_run: "p < BK_PARTITION_MAX \<Longrightarrow> bk_flash_get_info p s = Inr (Some (bk7231_partitions ! p), s)"
  by (simp add: bk_flash_get_info_def BkFlashPartitionAssert_def BkFlashPartitionIsValid_def)

lemma partition_cases:
  assumes "p < BK_PARTITION_MAX"
  shows "p \<in> {0, 1, 2, 3, 4, 5}"
  using assms by auto

abbreviation part_start :: "nat \<Rightarrow> nat" where
  "part_start p \<equiv> unat (partition_start_addr (bk7231_partitions ! p))"

abbreviation part_len :: "nat \<Rightarrow> nat" where
  "part_len p \<equiv> unat (partition_length (bk7231_partitions ! p))"

lemma partition_layout:
  assumes "p < BK_PARTITION_MAX"
  shows "part_start p mod 4096 = 0" "part_len p mod 4096 = 0" "part_start p + part_len p \<le> 0x200000"
  using partition_cases [OF assms] by (auto simp: bk7231_partitions_def partition_def)

text \<open>The sectors of \<open>n\<close> bytes at offset \<open>off\<close> of a partition.\<close>

definition sectors_lo :: "nat \<Rightarrow> nat" where
  "sectors_lo off = off div 4096 * 4096"

definition sectors_hi :: "nat \<Rightarrow> nat \<Rightarrow> nat" where
  "sectors_hi off n = ((off + n - 1) div 4096 + 1) * 4096"

lemma sectors_bounds: "0 < n \<Longrightarrow> sectors_lo off \<le> off" "0 < n \<Longrightarrow> off + n \<le> sectors_hi off n"
proof -
  show "sectors_lo off \<le> off" by (simp add: sectors_lo_def)
  assume "0 < n"
  then have "off + n - 1 < sectors_hi off n"
    unfolding sectors_hi_def using dividend_less_div_times [of 4096 "off + n - 1"] by simp
  with \<open>0 < n\<close> show "off + n \<le> sectors_hi off n" by linarith
qed

lemma sectors_within:
  assumes "0 < n" and "off + n \<le> len" and "len mod 4096 = 0"
  shows "sectors_hi off n \<le> len"
proof -
  obtain k where k: "len = 4096 * k" using assms(3) by auto
  have "off + n - 1 < 4096 * k" using assms k by linarith
  then have "(off + n - 1) div 4096 < k" by (simp add: less_mult_imp_div_less mult.commute)
  then show ?thesis unfolding sectors_hi_def k by (simp add: Suc_le_eq)
qed

context nor_device
begin

lemma erase_sectors_run:
  assumes "flash_at mem0 d s" and "unat start mod 4096 = 0"
    and "n \<noteq> 0 \<Longrightarrow> unat start + (unat i + n - 1) * 4096 < size (world s)"
  shows "\<exists>s'. erase_sectors n (ddev_make_handle (of_nat d)) start i s = Inr ((), s')
     \<and> flash_at mem0 d s' \<and> prot (world s') = prot (world s) \<and> size (world s') = size (world s)
     \<and> mem (world s') = erase_range (prot (world s)) (mem (world s))
          (unat start + unat i * 4096) (unat start + (unat i + n) * 4096)"
  using assms
proof (induction n arbitrary: i s)
  case 0
  then show ?case by simp
next
  case (Suc n)
  let ?a = "start + push_bit 12 i"
  have "ready (world s)" using Suc.prems(1) by (simp add: dev_at_def)
  then have sz: "size (world s) \<le> 0x800000" by (rule size_bound)
  have b: "unat start + unat i * 4096 \<le> unat start + (unat i + n) * 4096"
    "unat start + (unat i + n) * 4096 < size (world s)" using Suc.prems(3) by auto
  have a: "unat ?a = unat start + unat i * 4096" using b sz by (intro sector_address) simp
  have lt: "unat ?a < size (world s)" using a b by linarith
  from erase_flash [OF Suc.prems(1) lt] obtain s1 where s1:
    "ddev_control (ddev_make_handle (of_nat d)) CMD_FLASH_ERASE_SECTOR ?a s = Inr ((FLASH_SUCCESS, ?a), s1)"
    "flash_at mem0 d s1" "mem (world s1) = sector_erase (prot (world s)) (mem (world s)) (unat ?a)"
    "prot (world s1) = prot (world s)" "size (world s1) = size (world s)" by blast
  have i1: "unat (i + 1) = unat i + 1" using b sz by (simp add: unat_word_ariths)
  from Suc.IH [OF s1(2) Suc.prems(2), of "i + 1"] s1(5) i1 b(2) obtain s2 where s2:
    "erase_sectors n (ddev_make_handle (of_nat d)) start (i + 1) s1 = Inr ((), s2)" "flash_at mem0 d s2"
    "prot (world s2) = prot (world s)" "size (world s2) = size (world s)"
    "mem (world s2) = erase_range (prot (world s)) (mem (world s1))
        (unat start + unat (i + 1) * 4096) (unat start + (unat (i + 1) + n) * 4096)"
    using s1(4) by auto
  have "unat ?a mod 4096 = 0" using a Suc.prems(2) by simp
  then have "mem (world s1) = erase_range (prot (world s)) (mem (world s)) (unat ?a) (unat ?a + 4096)"
    using s1(3) by (simp add: sector_erase_range)
  moreover have e: "unat start + unat (i + 1) * 4096 = unat ?a + 4096"
    "unat start + (unat (i + 1) + n) * 4096 = unat start + (unat i + Suc n) * 4096" using i1 a by simp_all
  ultimately have "mem (world s2) = erase_range (prot (world s)) (mem (world s)) (unat ?a)
      (unat start + (unat i + Suc n) * 4096)"
    using s2(5) unfolding e by (simp only:) (rule erase_range_join, use a in simp_all)
  with s1(1) s2 a show ?case by auto
qed

lemma bk_flash_erase_run:
  assumes "flash_at mem0 d s" and "p < BK_PARTITION_MAX" and "0 < unat n" and "unat off + unat n \<le> part_len p"
    and "part_start p + part_len p \<le> size (world s)"
  shows "\<exists>s'. bk_flash_erase mem0 p off n s = Inr (kNoErr, s')
     \<and> flash_at mem0 d s' \<and> prot (world s') = prot (world s) \<and> size (world s') = size (world s)
     \<and> mem (world s') = erase_range (prot (world s)) (mem (world s))
          (part_start p + sectors_lo (unat off)) (part_start p + sectors_hi (unat off) (unat n))"
proof -
  let ?start = "partition_start_addr (bk7231_partitions ! p)"
  let ?lo = "drop_bit 12 off" and ?hi = "drop_bit 12 (off + n - 1)"
  note lay = partition_layout [OF assms(2)]
  have e: "unat (off + n - 1) = unat off + unat n - 1"
    using assms(3,4) lay(3) unat_plus_if' [of off n] by (simp add: unat_sub word_le_nat_alt)
  have lo: "unat ?lo = unat off div 4096" unfolding unat_drop_bit_eq by (simp add: drop_bit_eq_div)
  have hi: "unat ?hi = (unat off + unat n - 1) div 4096"
    unfolding unat_drop_bit_eq e by (simp add: drop_bit_eq_div)
  have le: "?lo \<le> ?hi" unfolding word_le_nat_alt lo hi by (rule div_le_mono) (use assms(3) in simp)
  let ?k = "unat ?hi + 1 - unat ?lo"
  have k: "unat ?lo + ?k = unat ?hi + 1" using le by (simp add: word_le_nat_alt)
  have "sectors_hi (unat off) (unat n) \<le> part_len p" using assms(3,4) lay(2) by (rule sectors_within)
  then have "part_start p + (unat ?lo + ?k - 1) * 4096 < size (world s)"
    using assms(5) k hi unfolding sectors_hi_def by simp
  note lt = this
  from open_flash [OF assms(1)] obtain st s1 where
    s1: "ddev_open mem0 (Some FLASH_DEV_NAME) True 0 s = Inr ((ddev_make_handle (of_nat d), Some st), s1)"
    "flash_at mem0 d s1" "world s1 = world s" by blast
  from erase_sectors_run [OF s1(2) lay(1), of ?k ?lo, unfolded s1(3), OF lt]
  obtain s2 where s2: "erase_sectors ?k (ddev_make_handle (of_nat d)) ?start ?lo s1 = Inr ((), s2)"
     "flash_at mem0 d s2" "prot (world s2) = prot (world s)" "size (world s2) = size (world s)"
     "mem (world s2) = erase_range (prot (world s)) (mem (world s))
          (part_start p + unat ?lo * 4096) (part_start p + (unat ?lo + ?k) * 4096)"
    by blast
  have "ddev_make_handle (of_nat d) \<noteq> DD_HANDLE_UNVALID"
    using handle_of_nat(3) [OF flash_at_bound(1) [OF assms(1)]] .
  then have "bk_flash_erase mem0 p off n s = Inr (kNoErr, s2)"
    using s1(1) s2(1) le by (simp add: bk_flash_erase_def get_info_run [OF assms(2)] Let_def del: One_nat_def)
  moreover have "part_start p + unat ?lo * 4096 = part_start p + sectors_lo (unat off)"
    "part_start p + (unat ?lo + ?k) * 4096 = part_start p + sectors_hi (unat off) (unat n)"
    unfolding k by (simp_all add: lo hi sectors_lo_def sectors_hi_def)
  ultimately show ?thesis using s2 by simp
qed

end

lemma unat_part_addr:
  assumes "p < BK_PARTITION_MAX" and "unat off \<le> part_len p"
  shows "unat (partition_start_addr (bk7231_partitions ! p) + off) = part_start p + unat off"
  using partition_layout(3) [OF assms(1)] assms(2) by (simp add: unat_word_ariths)

context nor_device
begin

lemma handle_valid: "flash_at mem0 d s \<Longrightarrow> ddev_make_handle (of_nat d) \<noteq> DD_HANDLE_UNVALID"
  using handle_of_nat(3) flash_at_bound(1) by blast

lemma bk_flash_write_run:
  assumes "flash_at mem0 d s" and "p < BK_PARTITION_MAX" and "unat n \<le> length buf"
    and "unat off + unat n \<le> part_len p" and "unat off < part_len p"
    and "part_start p + part_len p \<le> size (world s)"
  shows "\<exists>s'. bk_flash_write mem0 p off (Some buf) n s = Inr (kNoErr, s')
     \<and> flash_at mem0 d s' \<and> prot (world s') = prot (world s) \<and> size (world s') = size (world s)
     \<and> mem (world s') = page_program (prot (world s)) (mem (world s)) (part_start p + unat off) (take (unat n) buf)"
proof -
  let ?a = "partition_start_addr (bk7231_partitions ! p) + off"
  have a: "unat ?a = part_start p + unat off" using assms(2,5) by (intro unat_part_addr) simp_all
  have "unat ?a div 32 * 32 \<le> unat ?a" by simp
  then have b: "unat ?a div 32 * 32 < size (world s)" "unat ?a div 32 * 32 + unat n \<le> size (world s)"
    using assms(4-6) a by linarith+
  from open_flash [OF assms(1)] obtain st s1 where
    s1: "ddev_open mem0 (Some FLASH_DEV_NAME) True 0 s = Inr ((ddev_make_handle (of_nat d), Some st), s1)"
    "flash_at mem0 d s1" "world s1 = world s" by blast
  from write_flash [OF s1(2) assms(3), of ?a] b s1(3) obtain s2 where
    s2: "ddev_write (ddev_make_handle (of_nat d)) buf n ?a s1 = Inr (FLASH_SUCCESS, s2)" "flash_at mem0 d s2"
     "mem (world s2) = page_program (prot (world s)) (mem (world s)) (unat ?a) (take (unat n) buf)"
     "prot (world s2) = prot (world s)" "size (world s2) = size (world s)" by auto
  have "bk_flash_write mem0 p off (Some buf) n s = Inr (kNoErr, s2)"
    using s1(1) s2(1) handle_valid [OF assms(1)]
    by (simp add: bk_flash_write_def get_info_run [OF assms(2)] Let_def)
  with s2 a show ?thesis by simp
qed

lemma bk_flash_read_run:
  assumes "flash_at mem0 d s" and "p < BK_PARTITION_MAX" and "length buf = unat n"
    and "unat off + unat n \<le> part_len p"
  shows "\<exists>s'. bk_flash_read mem0 p off (Some buf) n s =
       Inr ((kNoErr, Some (mslice (mem (world s)) (part_start p + unat off) (unat n))), s')
     \<and> flash_at mem0 d s' \<and> prot (world s') = prot (world s) \<and> size (world s') = size (world s)
     \<and> mem (world s') = mem (world s)"
proof -
  let ?a = "partition_start_addr (bk7231_partitions ! p) + off"
  have a: "unat ?a = part_start p + unat off" using assms(2,4) by (intro unat_part_addr) simp_all
  have b: "unat ?a + unat n \<le> 2 ^ 24" using partition_layout(3) [OF assms(2)] a assms(4) by simp
  from open_flash [OF assms(1)] obtain st s1 where
    s1: "ddev_open mem0 (Some FLASH_DEV_NAME) True 0 s = Inr ((ddev_make_handle (of_nat d), Some st), s1)"
    "flash_at mem0 d s1" "world s1 = world s" by blast
  from read_flash [OF s1(2) b, of buf] s1(3) assms(3) obtain s2 where
    s2: "ddev_read (ddev_make_handle (of_nat d)) buf n ?a s1
        = Inr ((FLASH_SUCCESS, mslice (mem (world s)) (unat ?a) (unat n)), s2)" "flash_at mem0 d s2"
     "mem (world s2) = mem (world s)" "prot (world s2) = prot (world s)" "size (world s2) = size (world s)" by auto
  have "bk_flash_read mem0 p off (Some buf) n s = Inr ((kNoErr, Some (mslice (mem (world s)) (unat ?a) (unat n))), s2)"
    using s1(1) s2(1) handle_valid [OF assms(1)]
    by (simp add: bk_flash_read_def get_info_run [OF assms(2)] Let_def)
  with s2 a show ?thesis by simp
qed

lemma bk_flash_enable_security_run:
  assumes "flash_at mem0 d s"
  shows "\<exists>s'. bk_flash_enable_security mem0 t s = Inr (kNoErr, s')
     \<and> flash_at mem0 d s' \<and> mem (world s') = mem (world s) \<and> size (world s') = size (world s)
     \<and> (t = FLASH_PROTECT_NONE \<longrightarrow> (\<forall>j. \<not> prot (world s') j))"
proof -
  from open_flash [OF assms(1)] obtain st s1 where
    s1: "ddev_open mem0 (Some FLASH_DEV_NAME) True 0 s = Inr ((ddev_make_handle (of_nat d), Some st), s1)"
    "flash_at mem0 d s1" "world s1 = world s" by blast
  from protect_flash [OF s1(2), of t] s1(3) obtain s2 where
    "ddev_control (ddev_make_handle (of_nat d)) CMD_FLASH_SET_PROTECT t s1 = Inr ((FLASH_SUCCESS, t), s2)"
    "flash_at mem0 d s2" "mem (world s2) = mem (world s)" "size (world s2) = size (world s)"
    "t = FLASH_PROTECT_NONE \<longrightarrow> (\<forall>j. \<not> prot (world s2) j)" by auto
  with s1(1) handle_valid [OF assms(1)] show ?thesis by (simp add: bk_flash_enable_security_def)
qed

text \<open>
  The sequence unprotect, erase, write at the start of the data: afterwards the bytes
  are there, the rest of the erased sectors is \<open>0xFF\<close> and nothing else has changed.
\<close>

lemma unprotect_erase_write:
  assumes "flash_at mem0 d s" and "p < BK_PARTITION_MAX" and "length buf = unat n" and "0 < unat n"
    and "unat off + unat n \<le> part_len p" and "part_start p + part_len p \<le> size (world s)"
  shows "\<exists>s'. thenM (bk_flash_enable_security mem0 FLASH_PROTECT_NONE)
        (thenM (bk_flash_erase mem0 p off n) (bk_flash_write mem0 p off (Some buf) n)) s = Inr (kNoErr, s')
     \<and> flash_at mem0 d s' \<and> size (world s') = size (world s)
     \<and> mslice (mem (world s')) (part_start p + unat off) (unat n) = buf
     \<and> (\<forall>i. i < part_start p + sectors_lo (unat off) \<or> part_start p + sectors_hi (unat off) (unat n) \<le> i
          \<longrightarrow> mem (world s') i = mem (world s) i)"
proof -
  from bk_flash_enable_security_run [OF assms(1), of FLASH_PROTECT_NONE] obtain s1 where
    s1: "bk_flash_enable_security mem0 FLASH_PROTECT_NONE s = Inr (kNoErr, s1)" "flash_at mem0 d s1"
      "mem (world s1) = mem (world s)" "size (world s1) = size (world s)" "\<And>j. \<not> prot (world s1) j" by auto
  from bk_flash_erase_run [OF s1(2) assms(2,4,5)] assms(6) s1(4) obtain s2 where
    s2: "bk_flash_erase mem0 p off n s1 = Inr (kNoErr, s2)" "flash_at mem0 d s2" "prot (world s2) = prot (world s1)"
      "size (world s2) = size (world s)"
      "mem (world s2) = erase_range (prot (world s1)) (mem (world s1))
          (part_start p + sectors_lo (unat off)) (part_start p + sectors_hi (unat off) (unat n))" by auto
  have "unat off < part_len p" using assms(4,5) by linarith
  from bk_flash_write_run [OF s2(2) assms(2) _ assms(5) this, of buf] assms(3,6) s2(4) obtain s3 where
    s3: "bk_flash_write mem0 p off (Some buf) n s2 = Inr (kNoErr, s3)" "flash_at mem0 d s3"
      "size (world s3) = size (world s)"
      "mem (world s3) = page_program (prot (world s2)) (mem (world s2)) (part_start p + unat off) buf" by auto
  have ff: "(0xFF :: u8) AND x = x" for x
  proof -
    have "(0xFF :: u8) = - 1" by simp
    then show ?thesis by (simp only: and.left_neutral)
  qed
  note bd = sectors_bounds [OF assms(4), of "unat off"]
  have "mslice (mem (world s3)) (part_start p + unat off) (unat n) = buf"
  proof (rule nth_equalityI)
    fix j assume "j < length (mslice (mem (world s3)) (part_start p + unat off) (unat n))"
    then have "j < unat n" by simp
    with assms(3) s1(5) s2(3,5) s3(4) bd ff show "mslice (mem (world s3)) (part_start p + unat off) (unat n) ! j = buf ! j"
      by (simp add: page_program_def erase_range_def)
  qed (simp add: assms(3))
  moreover have "mem (world s3) i = mem (world s) i"
    if "i < part_start p + sectors_lo (unat off) \<or> part_start p + sectors_hi (unat off) (unat n) \<le> i" for i
    using that bd assms(3) s3(4) s2(5) s1(3) by (auto simp: page_program_def erase_range_def)
  moreover have "thenM (bk_flash_enable_security mem0 FLASH_PROTECT_NONE)
        (thenM (bk_flash_erase mem0 p off n) (bk_flash_write mem0 p off (Some buf) n)) s = Inr (kNoErr, s3)"
    using s1(1) s2(1) s3(1) by simp
  ultimately show ?thesis using s3(2,3) by blast
qed

end

section \<open>Properties\<close>

text \<open>
  C33: storing data in a partition. On any controller that implements the chip, with
  the flash device ready and the partition inside the flash: lifting the protection,
  erasing and writing \<open>n > 0\<close> bytes at an offset succeed, reading them back returns exactly
  the bytes written, and every byte outside the partition keeps its value.
\<close>

theorem bk_flash_store:
  assumes "nor_controller env chip idle" and "dev_at (flash_op env) (flash_ready chip idle) mem0 d s"
    and "p < BK_PARTITION_MAX" and "length buf = unat n" and "0 < unat n" and "unat off + unat n \<le> part_len p"
    and "part_start p + part_len p \<le> config_size (world s)" and "length out = unat n"
  shows "\<exists>s' s''. thenM (bk_flash_enable_security mem0 FLASH_PROTECT_NONE)
        (thenM (bk_flash_erase mem0 p off n) (bk_flash_write mem0 p off (Some buf) n)) s = Inr (kNoErr, s')
     \<and> bk_flash_read mem0 p off (Some out) n s' = Inr ((kNoErr, Some buf), s'')
     \<and> (\<forall>i. i < part_start p \<or> part_start p + part_len p \<le> i \<longrightarrow> chip_mem chip (world s'') i = chip_mem chip (world s) i)"
proof -
  have dev: "nor_device (flash_op env) (flash_ready chip idle) (chip_mem chip) (chip_prot chip) config_size"
    by (rule nor_controller.axioms_dev [OF assms(1)])
  from nor_device.unprotect_erase_write [OF dev assms(2-7)] obtain s' where
    s': "thenM (bk_flash_enable_security mem0 FLASH_PROTECT_NONE)
        (thenM (bk_flash_erase mem0 p off n) (bk_flash_write mem0 p off (Some buf) n)) s = Inr (kNoErr, s')"
      "dev_at (flash_op env) (flash_ready chip idle) mem0 d s'"
      "mslice (chip_mem chip (world s')) (part_start p + unat off) (unat n) = buf"
      "\<And>i. i < part_start p + sectors_lo (unat off) \<or> part_start p + sectors_hi (unat off) (unat n) \<le> i
          \<Longrightarrow> chip_mem chip (world s') i = chip_mem chip (world s) i" by blast
  from nor_device.bk_flash_read_run [OF dev s'(2) assms(3) assms(8) assms(6)] s'(3) obtain s'' where
    s'': "bk_flash_read mem0 p off (Some out) n s' = Inr ((kNoErr, Some buf), s'')"
      "chip_mem chip (world s'') = chip_mem chip (world s')" by auto
  have "sectors_hi (unat off) (unat n) \<le> part_len p"
    using assms(5,6) partition_layout(2) [OF assms(3)] by (rule sectors_within)
  then have "chip_mem chip (world s'') i = chip_mem chip (world s) i"
    if "i < part_start p \<or> part_start p + part_len p \<le> i" for i
    using that s'(4) [of i] s''(2) by auto
  with s'(1) s''(1) show ?thesis by blast
qed

text \<open>The demonstration part, registered in slot 0 and ready.\<close>

definition demo_up :: "((nat \<times> nor_chip) flash_st, u32) drv_st" where
  "demo_up = \<lparr>drv_dev_tbl = (replicate DD_MAX_DEV zero_dev)[0 := \<lparr>dev_name = Some FLASH_DEV_NAME, use_cnt = 0,
       dev_state = DD_STATE_CLOSED, dev_op = Some (flash_op (slow_env 2))\<rparr>],
     drv_sdev_tbl = replicate DD_MAX_SDEV zero_sdev, world = demo_flash\<rparr>"

lemma demo_up_at: "dev_at (flash_op (slow_env 2)) (flash_ready snd (\<lambda>h. fst h = 0)) [] 0 demo_up"
proof -
  have "finds [] FLASH_DEV_NAME demo_up 0"
    by (simp add: finds_def demo_up_def os_strncmp_eq_def c_str_def numeral_eq_Suc)
  moreover have "flash_ready snd (\<lambda>h. fst h = 0) demo_flash" by (simp add: flash_ready_def demo_part_ok)
  ultimately show ?thesis by (simp add: dev_at_def demo_up_def)
qed

lemma demo_up_size [simp]: "config_size (world demo_up) = 0x200000"
  by (simp add: config_size_def demo_up_def)

theorem bk_flash_store_witness:
  "\<exists>s' s''. thenM (bk_flash_enable_security [] FLASH_PROTECT_NONE)
        (thenM (bk_flash_erase [] BK_PARTITION_OTA 0x1234 3) (bk_flash_write [] BK_PARTITION_OTA 0x1234 (Some [7, 8, 9]) 3)) demo_up
        = Inr (kNoErr, s')
     \<and> bk_flash_read [] BK_PARTITION_OTA 0x1234 (Some [0, 0, 0]) 3 s' = Inr ((kNoErr, Some [7, 8, 9]), s'')
     \<and> (\<forall>i. i < part_start BK_PARTITION_OTA \<or> part_start BK_PARTITION_OTA + part_len BK_PARTITION_OTA \<le> i
          \<longrightarrow> chip_mem snd (world s'') i = chip_mem snd (world demo_up) i)"
  by (rule bk_flash_store [OF slow.nor_controller_axioms demo_up_at])
    (simp_all add: bk7231_partitions_def partition_def)

text \<open>
  the calls of the partition layer that fail. A NULL buffer and a partition number
  outside the table are reported before the device is touched, and then nothing has
  changed; an erase of a partition outside the table opens the device and then follows a
  NULL pointer.
\<close>

theorem bk_flash_errors:
  assumes "BK_PARTITION_MAX \<le> p" and "drop_bit 12 off \<le> drop_bit 12 (off + n - 1)"
    and "ddev_open mem0 (Some FLASH_DEV_NAME) True 0 s = Inr ((h, st), s')" and "h \<noteq> DD_HANDLE_UNVALID"
  shows "bk_flash_write mem0 q off None n s = Inr (kParamErr, s)
   \<and> bk_flash_read mem0 q off None n s = Inr ((kParamErr, None), s)
   \<and> bk_flash_write mem0 p off (Some buf) n s = Inr (kNotFoundErr, s)
   \<and> bk_flash_read mem0 p off (Some buf) n s = Inr ((kNotFoundErr, Some buf), s)
   \<and> bk_flash_erase mem0 p off n s = Inl Null_Deref"
  using assms by (simp add: bk_flash_write_def bk_flash_read_def bk_flash_erase_def bk_flash_get_info_def
      BkFlashPartitionAssert_def BkFlashPartitionIsValid_def)

lemma demo_up_open: "ddev_open [] (Some FLASH_DEV_NAME) True 0 demo_up = Inr ((ddev_make_handle (of_nat 0), Some DRV_FAILURE),
   set_slot 0 ((drv_dev_tbl demo_up ! 0)\<lparr>dev_state := DD_STATE_OPENED, use_cnt := 1\<rparr>) demo_flash demo_up)"
proof (rule ddev_open_closed)
  show "finds [] FLASH_DEV_NAME demo_up 0" using demo_up_at by (simp add: dev_at_def)
qed (simp_all add: demo_up_def run_open_def flash_op_def)

theorem bk_flash_errors_witness:
  "bk_flash_write [] 2 0 None 4 demo_up = Inr (kParamErr, demo_up)
   \<and> bk_flash_read [] 2 0 None 4 demo_up = Inr ((kParamErr, None), demo_up)
   \<and> bk_flash_write [] 6 0 (Some [1]) 4 demo_up = Inr (kNotFoundErr, demo_up)
   \<and> bk_flash_read [] 6 0 (Some [1]) 4 demo_up = Inr ((kNotFoundErr, Some [1]), demo_up)
   \<and> bk_flash_erase [] 6 0 4 demo_up = Inl Null_Deref"
  by (rule bk_flash_errors [OF _ _ demo_up_open]) (simp_all add: ddev_make_handle_def)

end
