(* ===== verification/Net_Param.thy ===== *)
theory Net_Param
  imports Bk_Flash "HOL-Library.AList"
begin

text \<open>
  The network parameter store, \<^verbatim>\<open>components/net_param_intf/net_param.c\<close> with
  \<^verbatim>\<open>components/include/net_param_pub.h\<close> (not \<^verbatim>\<open>SOC_BK7221U\<close>): a type-length-value table
  at the start of the partition \<^verbatim>\<open>BK_PARTITION_NET_PARAM\<close>.

  \<open>junk\<close> is the content of the uninitialised local \<^verbatim>\<open>head\<close>; \<open>alloc_ok\<close> says whether
  \<^verbatim>\<open>os_zalloc\<close> of a size succeeds. A NULL pointer argument is \<open>None\<close>; the length of a
  buffer is the memory the caller provides, and a copy beyond it is a fault.
\<close>

abbreviation (input) INFO_TLV_HEADER :: u32 where "INFO_TLV_HEADER \<equiv> 0x00564c54"
abbreviation (input) AUTO_CONNECT_ITEM :: u32 where "AUTO_CONNECT_ITEM \<equiv> 0x11111111"
abbreviation (input) WIFI_MODE_ITEM :: u32 where "WIFI_MODE_ITEM \<equiv> 0x22222222"
abbreviation (input) DHCP_MODE_ITEM :: u32 where "DHCP_MODE_ITEM \<equiv> 0x33333333"
abbreviation (input) WIFI_MAC_ITEM :: u32 where "WIFI_MAC_ITEM \<equiv> 0x44444444"
abbreviation (input) SSID_KEY_ITEM :: u32 where "SSID_KEY_ITEM \<equiv> 0x55555555"
abbreviation (input) IP_CONFIG_ITEM :: u32 where "IP_CONFIG_ITEM \<equiv> 0x66666666"
abbreviation (input) RF_CFG_TSSI_ITEM :: u32 where "RF_CFG_TSSI_ITEM \<equiv> 0x77777777"
abbreviation (input) RF_CFG_DIST_ITEM :: u32 where "RF_CFG_DIST_ITEM \<equiv> 0x88888888"
abbreviation (input) RF_CFG_MODE_ITEM :: u32 where "RF_CFG_MODE_ITEM \<equiv> 0x99999999"
abbreviation (input) CHARGE_CONFIG_ITEM :: u32 where "CHARGE_CONFIG_ITEM \<equiv> 0xaaaaaaaa"
abbreviation (input) RF_CFG_TSSI_B_ITEM :: u32 where "RF_CFG_TSSI_B_ITEM \<equiv> 0xbbbbbbbb"

text \<open>The sizes of the item structures, header included.\<close>

abbreviation (input) sizeof_INFO_ITEM_ST :: u32 where "sizeof_INFO_ITEM_ST \<equiv> 8"
abbreviation (input) sizeof_ITEM_COMM_ST :: u32 where "sizeof_ITEM_COMM_ST \<equiv> 12"
abbreviation (input) sizeof_ITEM_MAC_ADDR_ST :: u32 where "sizeof_ITEM_MAC_ADDR_ST \<equiv> 16"
abbreviation (input) sizeof_ITEM_CHARGE_ST :: u32 where "sizeof_ITEM_CHARGE_ST \<equiv> 12"
abbreviation (input) sizeof_ITEM_SSIDKEY_ST :: u32 where "sizeof_ITEM_SSIDKEY_ST \<equiv> 104"
abbreviation (input) sizeof_ITEM_IP_CONFIG_ST :: u32 where "sizeof_ITEM_IP_CONFIG_ST \<equiv> 56"

definition head_type :: "u8 list \<Rightarrow> u32" where
  "head_type head = bytes_u32 head"

definition head_len :: "u8 list \<Rightarrow> u32" where
  "head_len head = bytes_u32 (drop 4 head)"

definition deref :: "'a option \<Rightarrow> ('s, 'a) prog" where
  "deref p = (case p of None \<Rightarrow> failM Null_Deref | Some x \<Rightarrow> retM x)"

text \<open>A device read into a caller's buffer.\<close>

definition read_into :: "u32 \<Rightarrow> u8 list \<Rightarrow> u32 \<Rightarrow> u32 \<Rightarrow> (('w, u32) drv_st, u8 list) prog" where
  "read_into h buf n addr =
     (if length buf < unat n then failM Bad_Index
      else bindM (ddev_read h buf n addr) (\<lambda>(_, buf'). retM buf'))"

text \<open>Results: the return value, \<^verbatim>\<open>*cfg_len\<close>, and the buffer.\<close>

definition search_info_tbl :: "string \<Rightarrow> u8 list \<Rightarrow> u8 list option \<Rightarrow>
    (('w, u32) drv_st, u32 \<times> u32 \<times> u8 list option) prog" where
  "search_info_tbl mem0 junk buf =
    bindM (bk_flash_get_info BK_PARTITION_NET_PARAM) (\<lambda>pt.
    bindM (ddev_open mem0 (Some FLASH_DEV_NAME) True 0) (\<lambda>(flash_handle, _).
    bindM (deref pt) (\<lambda>pt.
    bindM (read_into flash_handle junk sizeof_INFO_ITEM_ST (partition_start_addr pt)) (\<lambda>head.
    bindM (if INFO_TLV_HEADER = head_type head then
             let cfg_len = head_len head + sizeof_INFO_ITEM_ST in
             (case buf of None \<Rightarrow> retM (1, cfg_len, None)
              | Some b \<Rightarrow> bindM (read_into flash_handle b cfg_len (partition_start_addr pt)) (\<lambda>b'.
                           retM (1, cfg_len, Some b')))
           else retM (0, 0, buf)) (\<lambda>r.
    thenM (ddev_close flash_handle) (retM r))))))"

text \<open>The search loop; a corrupt length can make \<open>addr\<close> wrap and the loop run forever.\<close>

partial_function (option) item_loop ::
    "u32 \<Rightarrow> u32 \<Rightarrow> u32 \<Rightarrow> u32 \<Rightarrow> u8 list \<Rightarrow> ('w, u32) drv_st \<Rightarrow> (fault + u32 \<times> ('w, u32) drv_st) option" where
  "item_loop h t addr end_addr head s =
     (if addr < end_addr then
        case read_into h head sizeof_INFO_ITEM_ST addr s of
          Inl e \<Rightarrow> Some (Inl e)
        | Inr (r) \<Rightarrow>
            (if t \<noteq> head_type (fst r)
             then item_loop h t (addr + sizeof_INFO_ITEM_ST + head_len (fst r)) end_addr (fst r) (snd r)
             else Some (Inr (addr, snd r)))
      else Some (Inr (addr, s)))"

definition search_info_item :: "string \<Rightarrow> u8 list \<Rightarrow> u32 \<Rightarrow> u32 \<Rightarrow> (('w, u32) drv_st, u32) prog" where
  "search_info_item mem0 junk t start_addr =
    bindM (ddev_open mem0 (Some FLASH_DEV_NAME) True 0) (\<lambda>(flash_handle, _).
    bindM (read_into flash_handle junk sizeof_INFO_ITEM_ST start_addr) (\<lambda>head.
      let addr = start_addr + sizeof_INFO_ITEM_ST; end_addr = addr + head_len head in
      bindM (\<lambda>s. case item_loop flash_handle t addr end_addr head s of None \<Rightarrow> Inl Busy_Hang | Some r \<Rightarrow> r) (\<lambda>addr.
        thenM (ddev_close flash_handle) (retM (if addr \<ge> end_addr then 0 else addr)))))"

definition info_item_len :: "u32 \<Rightarrow> u32" where
  "info_item_len item =
    (if item \<in> {AUTO_CONNECT_ITEM, WIFI_MODE_ITEM, DHCP_MODE_ITEM, RF_CFG_TSSI_ITEM, RF_CFG_DIST_ITEM,
                RF_CFG_MODE_ITEM, RF_CFG_TSSI_B_ITEM} then sizeof_ITEM_COMM_ST
     else if item = WIFI_MAC_ITEM then sizeof_ITEM_MAC_ADDR_ST
     else if item = CHARGE_CONFIG_ITEM then sizeof_ITEM_CHARGE_ST
     else if item = SSID_KEY_ITEM then sizeof_ITEM_SSIDKEY_ST
     else if item = IP_CONFIG_ITEM then sizeof_ITEM_IP_CONFIG_ST
     else sizeof_ITEM_COMM_ST)"

text \<open>Results: the return value and the three buffers.\<close>

type_synonym ptrs = "u8 list option \<times> u8 list option \<times> u8 list option"

definition get_item_switch :: "u32 \<Rightarrow> u32 \<Rightarrow> u8 list \<Rightarrow> u32 \<Rightarrow> ptrs \<Rightarrow> (('w, u32) drv_st, u32 \<times> ptrs) prog" where
  "get_item_switch flash_handle item head addr_start ptrs =
    (if item \<in> {AUTO_CONNECT_ITEM, WIFI_MODE_ITEM, DHCP_MODE_ITEM, WIFI_MAC_ITEM, RF_CFG_TSSI_ITEM,
                RF_CFG_DIST_ITEM, RF_CFG_MODE_ITEM, CHARGE_CONFIG_ITEM, RF_CFG_TSSI_B_ITEM} then
       (case ptrs of (Some p0, p1, p2) \<Rightarrow>
          bindM (read_into flash_handle p0 (head_len head) addr_start) (\<lambda>p0'. retM (1, Some p0', p1, p2))
        | _ \<Rightarrow> retM (0, ptrs))
     else if item = SSID_KEY_ITEM then
       (case ptrs of (Some p0, Some p1, p2) \<Rightarrow>
          bindM (read_into flash_handle p0 32 addr_start) (\<lambda>p0'.
          bindM (read_into flash_handle p1 64 (addr_start + 32)) (\<lambda>p1'. retM (1, Some p0', Some p1', p2)))
        | _ \<Rightarrow> retM (0, ptrs))
     else if item = IP_CONFIG_ITEM then
       (case ptrs of (Some p0, Some p1, Some p2) \<Rightarrow>
          bindM (read_into flash_handle p0 16 addr_start) (\<lambda>p0'.
          bindM (read_into flash_handle p1 16 (addr_start + 16)) (\<lambda>p1'.
          bindM (read_into flash_handle p2 16 (addr_start + 16 + 16)) (\<lambda>p2'. retM (1, Some p0', Some p1', Some p2'))))
        | _ \<Rightarrow> retM (0, ptrs))
     else retM (0, ptrs))"

definition get_info_item :: "string \<Rightarrow> u8 list \<Rightarrow> u32 \<Rightarrow> ptrs \<Rightarrow> (('w, u32) drv_st, u32 \<times> ptrs) prog" where
  "get_info_item mem0 junk item ptrs =
    bindM (search_info_tbl mem0 junk None) (\<lambda>(found, _, _).
      if found = 0 then retM (0, ptrs)
      else bindM (bindM (bk_flash_get_info BK_PARTITION_NET_PARAM) deref) (\<lambda>pt.
        bindM (search_info_item mem0 junk item (partition_start_addr pt)) (\<lambda>addr_start.
          if addr_start = 0 then retM (0, ptrs)
          else bindM (ddev_open mem0 (Some FLASH_DEV_NAME) True 0) (\<lambda>(flash_handle, _).
            bindM (read_into flash_handle junk sizeof_INFO_ITEM_ST addr_start) (\<lambda>head.
            bindM (get_item_switch flash_handle item head (addr_start + sizeof_INFO_ITEM_ST) ptrs) (\<lambda>r.
              thenM (ddev_close flash_handle) (retM r)))))))"

text \<open>\<^verbatim>\<open>os_memcpy\<close> into the work buffer from a pointer argument.\<close>

definition copy_in :: "nat \<Rightarrow> u8 list option \<Rightarrow> nat \<Rightarrow> u8 list \<Rightarrow> ('s, u8 list) prog" where
  "copy_in off src n buf =
     bindM (deref src) (\<lambda>bs.
       if length bs < n \<or> length buf < off + n then failM Bad_Index
       else retM (take off buf @ take n bs @ drop (off + n) buf))"

definition save_item_switch :: "u32 \<Rightarrow> ptrs \<Rightarrow> nat \<Rightarrow> u8 list \<Rightarrow> ('s, u8 list) prog" where
  "save_item_switch item ptrs item_buf buf =
    (case ptrs of (ptr0, ptr1, ptr2) \<Rightarrow>
     if item \<in> {AUTO_CONNECT_ITEM, WIFI_MODE_ITEM, DHCP_MODE_ITEM, RF_CFG_TSSI_ITEM, RF_CFG_DIST_ITEM,
                RF_CFG_MODE_ITEM, RF_CFG_TSSI_B_ITEM} then copy_in item_buf ptr0 4 buf
     else if item = WIFI_MAC_ITEM then copy_in item_buf ptr0 6 buf
     else if item = SSID_KEY_ITEM then
       bindM (copy_in item_buf ptr0 32 buf) (copy_in (item_buf + 32) ptr1 64)
     else if item = IP_CONFIG_ITEM then
       bindM (copy_in item_buf ptr0 16 buf) (\<lambda>b1.
       bindM (copy_in (item_buf + 16) ptr1 16 b1) (copy_in (item_buf + 32) ptr2 16))
     else if item = CHARGE_CONFIG_ITEM then copy_in item_buf ptr0 3 buf
     else copy_in item_buf ptr0 4 buf)"

text \<open>The work buffer: its length, the item's offset, the new table length and the bytes.\<close>

definition save_buffer :: "string \<Rightarrow> u8 list \<Rightarrow> (u32 \<Rightarrow> bool) \<Rightarrow> u32 \<Rightarrow>
    (('w, u32) drv_st, (u32 \<times> u32 \<times> u32 \<times> u8 list) option) prog" where
  "save_buffer mem0 junk alloc_ok item =
    (let item_len = info_item_len item in
     bindM (bindM (bk_flash_get_info BK_PARTITION_NET_PARAM) deref) (\<lambda>pt.
     bindM (search_info_tbl mem0 junk None) (\<lambda>(found, cfg_tbl_len, _).
       if found = 0 then
         let n = sizeof_INFO_ITEM_ST + item_len in
         retM (if alloc_ok n then Some (n, sizeof_INFO_ITEM_ST, item_len, replicate (unat n) 0) else None)
       else
         bindM (search_info_item mem0 junk item (partition_start_addr pt)) (\<lambda>addr.
           let n = (if addr = 0 then cfg_tbl_len + item_len else cfg_tbl_len);
               addr_offset = (if addr = 0 then cfg_tbl_len else addr - partition_start_addr pt) in
           if \<not> alloc_ok n then retM None
           else bindM (search_info_tbl mem0 junk (Some (replicate (unat n) 0))) (\<lambda>(_, _, buf).
                bindM (deref buf) (\<lambda>wrbuf. retM (Some (n, addr_offset, n - sizeof_INFO_ITEM_ST, wrbuf))))))))"

definition save_info_item :: "string \<Rightarrow> u8 list \<Rightarrow> (u32 \<Rightarrow> bool) \<Rightarrow> u32 \<Rightarrow> ptrs \<Rightarrow> (('w, u32) drv_st, u32) prog" where
  "save_info_item mem0 junk alloc_ok item ptrs =
    bindM (save_buffer mem0 junk alloc_ok item) (\<lambda>b.
      case b of None \<Rightarrow> retM 0
      | Some (cfg_tbl_len, addr_offset, tbl_len, wrbuf) \<Rightarrow>
          bindM (save_item_switch item ptrs (unat addr_offset + 8) wrbuf) (\<lambda>b1.
          bindM (copy_in (unat addr_offset)
             (Some (u32_bytes item @ u32_bytes (info_item_len item - sizeof_INFO_ITEM_ST))) 8 b1) (\<lambda>b2.
          bindM (copy_in 0 (Some (u32_bytes INFO_TLV_HEADER @ u32_bytes tbl_len)) 8 b2) (\<lambda>b3.
            thenM (bk_flash_enable_security mem0 FLASH_PROTECT_NONE)
           (thenM (bk_flash_erase mem0 BK_PARTITION_NET_PARAM 0 cfg_tbl_len)
           (thenM (bk_flash_write mem0 BK_PARTITION_NET_PARAM 0 (Some b3) cfg_tbl_len)
           (thenM (bk_flash_enable_security mem0 FLASH_UNPROTECT_LAST_BLOCK)
             (retM 1))))))))"

definition test_get_whole_tbl :: "string \<Rightarrow> u8 list \<Rightarrow> u8 list option \<Rightarrow> (('w, u32) drv_st, u32 \<times> u8 list option) prog" where
  "test_get_whole_tbl mem0 junk ptr =
     bindM (search_info_tbl mem0 junk ptr) (\<lambda>(r, _, buf). retM (r, buf))"

section \<open>The table as a list of items\<close>

type_synonym items = "(u32 \<times> u8 list) list"

definition enc_item :: "u32 \<times> u8 list \<Rightarrow> u8 list" where
  "enc_item p = u32_bytes (fst p) @ u32_bytes (of_nat (length (snd p))) @ snd p"

definition enc_items :: "items \<Rightarrow> u8 list" where
  "enc_items its = concat (map enc_item its)"

definition enc_tbl :: "items \<Rightarrow> u8 list" where
  "enc_tbl its = u32_bytes INFO_TLV_HEADER @ u32_bytes (of_nat (length (enc_items its))) @ enc_items its"

text \<open>Data sizes as the code lays them out; the table fits the partition.\<close>

definition wf_items :: "items \<Rightarrow> bool" where
  "wf_items its \<longleftrightarrow> distinct (map fst its) \<and> (\<forall>(t, d)\<in>set its. length d = unat (info_item_len t) - 8) \<and>
     length (enc_tbl its) \<le> part_len BK_PARTITION_NET_PARAM"

text \<open>What the flash holds: nothing that looks like a table, or a table of items.\<close>

definition tbl_at :: "(nat \<Rightarrow> u8) \<Rightarrow> items option \<Rightarrow> bool" where
  "tbl_at m t = (let b = part_start BK_PARTITION_NET_PARAM in
     case t of None \<Rightarrow> head_type (mslice m b 8) \<noteq> INFO_TLV_HEADER
     | Some its \<Rightarrow> wf_items its \<and> mslice m b (length (enc_tbl its)) = enc_tbl its)"

text \<open>The bytes that \<open>save_info_item\<close> copies for an item.\<close>

definition payload :: "u32 \<Rightarrow> u8 list \<Rightarrow> u8 list \<Rightarrow> u8 list \<Rightarrow> u8 list" where
  "payload item p0 p1 p2 =
    (if item = WIFI_MAC_ITEM then take 6 p0
     else if item = SSID_KEY_ITEM then take 32 p0 @ take 64 p1
     else if item = IP_CONFIG_ITEM then take 16 p0 @ take 16 p1 @ take 16 p2
     else if item = CHARGE_CONFIG_ITEM then take 3 p0
     else take 4 p0)"

text \<open>Saving: the payload replaces the start of the old data, or of zeroes in a new item.\<close>

definition tlv_save :: "u32 \<Rightarrow> u8 list \<Rightarrow> items \<Rightarrow> items" where
  "tlv_save item bs its =
     (let old = (case map_of its item of None \<Rightarrow> replicate (unat (info_item_len item) - 8) 0 | Some d \<Rightarrow> d) in
      AList.update item (bs @ drop (length bs) old) its)"

lemma length_enc_item [simp]: "length (enc_item p) = 8 + length (snd p)"
  by (simp add: enc_item_def)

lemma enc_items_simps [simp]:
  "enc_items [] = []" "enc_items (p # its) = enc_item p @ enc_items its" "enc_items (xs @ ys) = enc_items xs @ enc_items ys"
  by (simp_all add: enc_items_def)

lemma length_enc_tbl [simp]: "length (enc_tbl its) = 8 + length (enc_items its)"
  by (simp add: enc_tbl_def)

lemma head_simps [simp]:
  "head_type (u32_bytes t @ bs) = t" "head_len (u32_bytes t @ u32_bytes n @ bs) = n"
  by (simp_all add: head_type_def head_len_def)

lemma head_simps_8 [simp]:
  "head_type (u32_bytes t @ u32_bytes n) = t" "head_len (u32_bytes t @ u32_bytes n) = n"
  using head_simps(1) [of t "u32_bytes n"] head_simps(2) [of t n "[]"] by simp_all

lemma take8_enc_tbl [simp]: "take 8 (enc_tbl its) = u32_bytes INFO_TLV_HEADER @ u32_bytes (of_nat (length (enc_items its)))"
  by (simp add: enc_tbl_def)

lemma take8_enc_item: "take 8 (enc_item p @ xs) = u32_bytes (fst p) @ u32_bytes (of_nat (length (snd p)))"
  by (simp add: enc_item_def)

lemma info_item_len_bounds: "12 \<le> unat (info_item_len t)" "unat (info_item_len t) \<le> 104"
  by (simp_all add: info_item_len_def)

lemma net_param_partition: "part_start BK_PARTITION_NET_PARAM = 0x1e1000" "part_len BK_PARTITION_NET_PARAM = 0x1000"
  "partition_start_addr (bk7231_partitions ! BK_PARTITION_NET_PARAM) = 0x1e1000"
  by (simp_all add: bk7231_partitions_def partition_def)

text \<open>The byte offset of an item among the items.\<close>

fun item_offset :: "u32 \<Rightarrow> items \<Rightarrow> nat" where
  "item_offset t [] = 0"
| "item_offset t (p # its) = (if t = fst p then 0 else 8 + length (snd p) + item_offset t its)"

lemma item_offset_absent: "map_of its t = None \<Longrightarrow> item_offset t its = length (enc_items its)"
  by (induction its) (auto split: if_splits)

lemma item_split:
  assumes "map_of its t = Some d"
  shows "\<exists>pre post. its = pre @ (t, d) # post \<and> item_offset t its = length (enc_items pre)
     \<and> (\<forall>x. AList.update t x its = pre @ (t, x) # post)"
  using assms
proof (induction its)
  case (Cons p its)
  show ?case
  proof (cases "fst p = t")
    case True
    with Cons.prems show ?thesis by (intro exI [of _ "[]"] exI [of _ its]) (cases p, auto)
  next
    case False
    with Cons.prems have "map_of its t = Some d" by (cases p) auto
    with Cons.IH obtain pre post where "its = pre @ (t, d) # post" "item_offset t its = length (enc_items pre)"
      "\<forall>x. AList.update t x its = pre @ (t, x) # post" by blast
    with False show ?thesis by (intro exI [of _ "p # pre"] exI [of _ post]) (cases p, auto)
  qed
qed simp

lemma update_absent: "map_of its t = None \<Longrightarrow> AList.update t x its = its @ [(t, x)]"
  by (induction its) (auto split: if_splits)

section \<open>Searching\<close>

context nor_device
begin

definition keeps :: "string \<Rightarrow> nat \<Rightarrow> ('w, u32) drv_st \<Rightarrow> ('w, u32) drv_st \<Rightarrow> bool" where
  "keeps mem0 d s s' \<longleftrightarrow> flash_at mem0 d s' \<and> mem (world s') = mem (world s) \<and> size (world s') = size (world s)"

lemma keeps_trans: "keeps mem0 d s s1 \<Longrightarrow> keeps mem0 d s1 s2 \<Longrightarrow> keeps mem0 d s s2"
  by (simp add: keeps_def)

lemma keepsD: "keeps mem0 d s s' \<Longrightarrow> flash_at mem0 d s'" "keeps mem0 d s s' \<Longrightarrow> mem (world s') = mem (world s)"
  by (simp_all add: keeps_def)

lemma open_keeps:
  assumes "flash_at mem0 d s"
  shows "\<exists>st s'. ddev_open mem0 (Some FLASH_DEV_NAME) True 0 s = Inr ((ddev_make_handle (of_nat d), Some st), s')
     \<and> keeps mem0 d s s'"
  using open_flash [OF assms, of 0] by (auto simp: keeps_def)

lemma close_keeps:
  assumes "flash_at mem0 d s"
  shows "\<exists>s'. ddev_close (ddev_make_handle (of_nat d)) s = Inr (DRV_SUCCESS, s') \<and> keeps mem0 d s s'"
  using close_flash [OF assms] by (auto simp: keeps_def)

lemma read_into_run:
  assumes "flash_at mem0 d s" and "unat n \<le> length buf" and "unat a + unat n \<le> 2 ^ 24"
  shows "\<exists>s'. read_into (ddev_make_handle (of_nat d)) buf n a s
      = Inr (mslice (mem (world s)) (unat a) (unat n) @ drop (unat n) buf, s') \<and> keeps mem0 d s s'"
  using read_flash [OF assms(1,3), of buf] assms(2) by (auto simp: read_into_def keeps_def)

lemma search_info_tbl_run:
  assumes "flash_at mem0 d s" and "length junk = 8" and "tbl_at (mem (world s)) t"
    and "case (t, buf) of (Some its, Some b) \<Rightarrow> length (enc_tbl its) \<le> length b | _ \<Rightarrow> True"
  shows "\<exists>s'. search_info_tbl mem0 junk buf s = Inr ((case t of None \<Rightarrow> (0, 0, buf)
       | Some its \<Rightarrow> (1, of_nat (length (enc_tbl its)), map_option (\<lambda>b. enc_tbl its @ drop (length (enc_tbl its)) b) buf)), s')
     \<and> keeps mem0 d s s'"
proof -
  let ?h = "ddev_make_handle (of_nat d)" and ?m = "mem (world s)"
  from open_keeps [OF assms(1)] obtain st s1 where
    s1: "ddev_open mem0 (Some FLASH_DEV_NAME) True 0 s = Inr ((?h, Some st), s1)" "keeps mem0 d s s1" by blast
  from read_into_run [OF keepsD(1) [OF s1(2)], where n = 8 and buf = junk and a = "0x1e1000"] assms(2) keepsD(2) [OF s1(2)] obtain s2 where
    s2: "read_into ?h junk 8 0x1e1000 s1 = Inr (mslice ?m 0x1e1000 8, s2)" "keeps mem0 d s1 s2" by auto
  have k2: "keeps mem0 d s s2" using keeps_trans [OF s1(2) s2(2)] .
  note run = search_info_tbl_def get_info_run deref_def net_param_partition Let_def
  show ?thesis
  proof (cases t)
    case None
    then have h: "head_type (mslice ?m 0x1e1000 8) \<noteq> INFO_TLV_HEADER"
      using assms(3) by (simp add: tbl_at_def net_param_partition)
    from close_keeps [OF keepsD(1) [OF k2]] obtain s3 where "ddev_close ?h s2 = Inr (DRV_SUCCESS, s3)" "keeps mem0 d s2 s3"
      by blast
    with h None s1(1) s2(1) keeps_trans [OF k2] show ?thesis by (simp add: run)
  next
    case (Some its)
    let ?e = "enc_tbl its" and ?sa = "partition_start_addr (bk7231_partitions ! 4)"
    have tb: "wf_items its" "mslice ?m 0x1e1000 (length ?e) = ?e"
      using assms(3) Some by (auto simp: tbl_at_def net_param_partition Let_def)
    have "mslice ?m 0x1e1000 8 = take 8 ?e" using tb(2) take_mslice [of 8 "length ?e" ?m "0x1e1000"] by simp
    then have h: "head_type (mslice ?m 0x1e1000 8) = INFO_TLV_HEADER"
      "head_len (mslice ?m 0x1e1000 8) = of_nat (length (enc_items its))" by simp_all
    have le: "length ?e \<le> 0x1000" using tb(1) by (simp add: wf_items_def net_param_partition)
    have n: "unat (of_nat (length ?e) :: u32) = length ?e"
      using le by (simp add: unat_of_nat del: length_enc_tbl)
    have len: "(of_nat (length (enc_items its)) + 8 :: u32) = of_nat (length ?e)" by simp
    have ex: "\<exists>s3. (case buf of None \<Rightarrow> retM (1 :: u32, of_nat (length ?e) :: u32, None)
         | Some b \<Rightarrow> bindM (read_into ?h b (of_nat (length ?e)) ?sa) (\<lambda>b'.
                           retM (1, of_nat (length ?e), Some b'))) s2
       = Inr ((1, of_nat (length ?e), map_option (\<lambda>b. ?e @ drop (length ?e) b) buf), s3) \<and> keeps mem0 d s2 s3"
    proof (cases buf)
      case None
      then show ?thesis using k2 by (simp add: keeps_def)
    next
      case (Some b)
      then have lb: "unat (of_nat (length ?e) :: u32) \<le> length b" using assms(4) \<open>t = Some its\<close> n by simp
      have ad: "unat (0x1e1000 :: u32) + unat (of_nat (length ?e) :: u32) \<le> 2 ^ 24" unfolding n using le by simp
      from read_into_run [OF keepsD(1) [OF k2] lb ad] tb(2) keepsD(2) [OF k2] obtain s3 where
        "read_into ?h b (of_nat (length ?e)) 0x1e1000 s2 = Inr (?e @ drop (length ?e) b, s3)" "keeps mem0 d s2 s3"
        unfolding n by (auto simp del: length_enc_tbl)
      with Some show ?thesis by (simp add: net_param_partition del: length_enc_tbl)
    qed
    then obtain s3 where
      s3: "(case buf of None \<Rightarrow> retM (1 :: u32, of_nat (length ?e) :: u32, None)
         | Some b \<Rightarrow> bindM (read_into ?h b (of_nat (length ?e)) ?sa) (\<lambda>b'.
                           retM (1, of_nat (length ?e), Some b'))) s2
       = Inr ((1, of_nat (length ?e), map_option (\<lambda>b. ?e @ drop (length ?e) b) buf), s3)" "keeps mem0 d s2 s3" by blast
    from close_keeps [OF keepsD(1) [OF s3(2)]] obtain s4 where
      s4: "ddev_close ?h s3 = Inr (DRV_SUCCESS, s4)" "keeps mem0 d s3 s4" by blast
    have "search_info_tbl mem0 junk buf s =
       Inr ((1, of_nat (length ?e), map_option (\<lambda>b. ?e @ drop (length ?e) b) buf), s4)"
      using s1(1) s2(1) s3(1) s4(1) h len by (simp add: run del: length_enc_tbl)
    then show ?thesis using Some keeps_trans [OF k2 keeps_trans [OF s3(2) s4(2)]] by simp
  qed
qed

end

context nor_device
begin

lemma item_loop_run:
  assumes "flash_at mem0 d s" and "length head = 8"
    and "mslice (mem (world s)) (unat addr) (length (enc_items its)) = enc_items its"
    and "unat addr + length (enc_items its) = unat end_addr" and "unat end_addr \<le> 2 ^ 23"
    and "\<forall>p\<in>set its. length (snd p) \<ge> 4"
  shows "\<exists>addr' s'. item_loop (ddev_make_handle (of_nat d)) t addr end_addr head s = Some (Inr (addr', s'))
     \<and> unat addr' = unat addr + item_offset t its \<and> keeps mem0 d s s'"
  using assms
proof (induction its arbitrary: addr head s)
  case Nil
  then have "\<not> addr < end_addr" by (simp add: word_less_nat_alt)
  then show ?case using Nil.prems(1)
    by (subst item_loop.simps) (simp add: keeps_def)
next
  case (Cons p its)
  let ?m = "mem (world s)" and ?h = "ddev_make_handle (of_nat d)"
  have lp: "4 \<le> length (snd p)" using Cons.prems(6) by simp
  have lt: "addr < end_addr" using Cons.prems(4) by (simp add: word_less_nat_alt)
  have enc: "mslice ?m (unat addr) (8 + length (snd p)) = enc_item p"
    "mslice ?m (unat addr + (8 + length (snd p))) (length (enc_items its)) = enc_items its"
    using Cons.prems(3) mslice_add [of ?m "unat addr" "length (enc_item p)" "length (enc_items its)"] by auto
  have "mslice ?m (unat addr) 8 = take 8 (enc_item p)"
    using enc(1) take_mslice [of 8 "8 + length (snd p)" ?m "unat addr"] by simp
  then have hd: "head_type (mslice ?m (unat addr) 8) = fst p"
    "head_len (mslice ?m (unat addr) 8) = of_nat (length (snd p))"
    using take8_enc_item [of p "[]"] by simp_all
  have "unat addr + unat (8::u32) \<le> 2 ^ 24" using Cons.prems(4,5) by simp
  from read_into_run [OF Cons.prems(1) _ this, of head] Cons.prems(2) obtain s1 where
    s1: "read_into ?h head 8 addr s = Inr (mslice ?m (unat addr) 8, s1)" "keeps mem0 d s s1" by auto
  show ?case
  proof (cases "t = fst p")
    case True
    with lt s1 hd show ?thesis by (subst item_loop.simps) simp
  next
    case False
    let ?a = "addr + 8 + of_nat (length (snd p))"
    have a: "unat ?a = unat addr + (8 + length (snd p))"
      using Cons.prems(4,5) by (simp add: unat_word_ariths unat_of_nat)
    have "\<exists>addr' s'. item_loop ?h t ?a end_addr (mslice ?m (unat addr) 8) s1 = Some (Inr (addr', s'))
     \<and> unat addr' = unat ?a + item_offset t its \<and> keeps mem0 d s1 s'"
      using Cons.prems(4-6) enc(2) s1(2)
      by (intro Cons.IH) (auto simp: keeps_def a)
    then obtain addr' s' where
      "item_loop ?h t ?a end_addr (mslice ?m (unat addr) 8) s1 = Some (Inr (addr', s'))"
      "unat addr' = unat addr + (8 + length (snd p) + item_offset t its)" "keeps mem0 d s1 s'"
      using a by auto
    moreover have "item_loop ?h t addr end_addr head s = item_loop ?h t ?a end_addr (mslice ?m (unat addr) 8) s1"
      using lt s1(1) hd False by (subst item_loop.simps) simp
    ultimately show ?thesis using False keeps_trans [OF s1(2)] by auto
  qed
qed

lemma tbl_head:
  assumes "tbl_at m (Some its)"
  shows "head_type (mslice m 0x1e1000 8) = INFO_TLV_HEADER"
    "head_len (mslice m 0x1e1000 8) = of_nat (length (enc_items its))"
    "mslice m 0x1e1008 (length (enc_items its)) = enc_items its"
    "length (enc_items its) \<le> 0x1000 - 8"
proof -
  have tb: "wf_items its" "mslice m 0x1e1000 (8 + length (enc_items its)) = enc_tbl its"
    using assms by (auto simp: tbl_at_def net_param_partition Let_def)
  have "mslice m 0x1e1000 8 = take 8 (enc_tbl its)" using tb(2) take_mslice [of 8 "8 + length (enc_items its)" m "0x1e1000"] by simp
  then show "head_type (mslice m 0x1e1000 8) = INFO_TLV_HEADER"
    "head_len (mslice m 0x1e1000 8) = of_nat (length (enc_items its))" by simp_all
  show "mslice m 0x1e1008 (length (enc_items its)) = enc_items its"
    using arg_cong [OF tb(2), of "drop 8"] by (simp add: drop_mslice enc_tbl_def)
  show "length (enc_items its) \<le> 0x1000 - 8" using tb(1) by (simp add: wf_items_def net_param_partition)
qed

lemma item_offset_found: "map_of its t = Some d \<Longrightarrow> item_offset t its + 8 + length d \<le> length (enc_items its)"
  by (induction its) (auto split: if_splits)

lemma search_info_item_run:
  assumes "flash_at mem0 d s" and "length junk = 8" and "tbl_at (mem (world s)) (Some its)"
  shows "\<exists>s'. search_info_item mem0 junk t 0x1e1000 s
      = Inr ((if map_of its t = None then 0 else of_nat (0x1e1008 + item_offset t its)), s') \<and> keeps mem0 d s s'"
proof -
  let ?h = "ddev_make_handle (of_nat d)" and ?m = "mem (world s)"
  note th = tbl_head [OF assms(3)]
  from open_keeps [OF assms(1)] obtain st s1 where
    s1: "ddev_open mem0 (Some FLASH_DEV_NAME) True 0 s = Inr ((?h, Some st), s1)" "keeps mem0 d s s1" by blast
  from read_into_run [OF keepsD(1) [OF s1(2)], where n = 8 and buf = junk and a = "0x1e1000"] assms(2) keepsD(2) [OF s1(2)]
  obtain s2 where s2: "read_into ?h junk 8 0x1e1000 s1 = Inr (mslice ?m 0x1e1000 8, s2)" "keeps mem0 d s1 s2" by auto
  have k2: "keeps mem0 d s s2" using keeps_trans [OF s1(2) s2(2)] .
  let ?fin = "0x1e1008 + of_nat (length (enc_items its)) :: u32"
  have e: "unat ?fin = 0x1e1008 + length (enc_items its)" using th(4) by (simp add: unat_word_ariths unat_of_nat)
  have ln: "\<forall>p\<in>set its. length (snd p) \<ge> 4"
  proof
    fix p assume "p \<in> set its"
    then have "length (snd p) = unat (info_item_len (fst p)) - 8"
      using assms(3) by (auto simp: tbl_at_def wf_items_def Let_def)
    with info_item_len_bounds(1) [of "fst p"] show "length (snd p) \<ge> 4" by simp
  qed
  have "\<exists>addr' s'. item_loop ?h t 0x1e1008 ?fin (mslice ?m 0x1e1000 8) s2 = Some (Inr (addr', s'))
     \<and> unat addr' = unat (0x1e1008 :: u32) + item_offset t its \<and> keeps mem0 d s2 s'"
    using th k2 e ln by (intro item_loop_run) (auto simp: keeps_def)
  then obtain addr' s3 where s3: "item_loop ?h t 0x1e1008 ?fin (mslice ?m 0x1e1000 8) s2 = Some (Inr (addr', s3))"
    "unat addr' = 0x1e1008 + item_offset t its" "keeps mem0 d s2 s3" by auto
  from close_keeps [OF keepsD(1) [OF s3(3)]] obtain s4 where
    s4: "ddev_close ?h s3 = Inr (DRV_SUCCESS, s4)" "keeps mem0 d s3 s4" by blast
  have ad: "addr' = of_nat (0x1e1008 + item_offset t its)" unfolding s3(2) [symmetric] by simp
  have "item_offset t its < length (enc_items its) \<longleftrightarrow> map_of its t \<noteq> None"
    using item_offset_absent [of its t] item_offset_found [of its t] by force
  then have r: "(if addr' \<ge> ?fin then 0 else addr') = (if map_of its t = None then 0 else of_nat (0x1e1008 + item_offset t its))"
    unfolding ad [symmetric] using s3(2) e by (cases "map_of its t") (auto simp: word_le_nat_alt not_le)
  have "search_info_item mem0 junk t 0x1e1000 s = Inr ((if addr' \<ge> ?fin then 0 else addr'), s4)"
    using s1(1) s2(1) s3(1) s4(1) th(2)
    by (simp add: search_info_item_def Let_def)
  then show ?thesis unfolding r using keeps_trans [OF k2 keeps_trans [OF s3(3) s4(2)]] by blast
qed

end

section \<open>Reading and saving an item\<close>

text \<open>What \<open>get_info_item\<close> returns for the data \<open>d\<close> of an item, and the buffers it needs.\<close>

definition deliver :: "u8 list \<Rightarrow> u8 list \<Rightarrow> u8 list" where
  "deliver bs p = bs @ drop (length bs) p"

definition item_ptrs :: "u32 \<Rightarrow> u8 list \<Rightarrow> ptrs \<Rightarrow> u32 \<times> ptrs" where
  "item_ptrs item d ptrs =
    (if item = SSID_KEY_ITEM then
       (case ptrs of (Some p0, Some p1, p2) \<Rightarrow>
          (1, Some (deliver (take 32 d) p0), Some (deliver (take 64 (drop 32 d)) p1), p2)
        | _ \<Rightarrow> (0, ptrs))
     else if item = IP_CONFIG_ITEM then
       (case ptrs of (Some p0, Some p1, Some p2) \<Rightarrow>
          (1, Some (deliver (take 16 d) p0), Some (deliver (take 16 (drop 16 d)) p1),
              Some (deliver (take 16 (drop 32 d)) p2))
        | _ \<Rightarrow> (0, ptrs))
     else if item \<in> {AUTO_CONNECT_ITEM, WIFI_MODE_ITEM, DHCP_MODE_ITEM, WIFI_MAC_ITEM, RF_CFG_TSSI_ITEM,
                RF_CFG_DIST_ITEM, RF_CFG_MODE_ITEM, CHARGE_CONFIG_ITEM, RF_CFG_TSSI_B_ITEM} then
       (case ptrs of (Some p0, p1, p2) \<Rightarrow> (1, Some (deliver d p0), p1, p2) | _ \<Rightarrow> (0, ptrs))
     else (0, ptrs))"

definition buf_ok :: "nat \<Rightarrow> u8 list option \<Rightarrow> bool" where
  "buf_ok n p \<longleftrightarrow> (case p of None \<Rightarrow> True | Some b \<Rightarrow> n \<le> length b)"

definition get_bufs_ok :: "u32 \<Rightarrow> ptrs \<Rightarrow> bool" where
  "get_bufs_ok item ptrs \<longleftrightarrow> (case ptrs of (p0, p1, p2) \<Rightarrow>
     if item = SSID_KEY_ITEM then buf_ok 32 p0 \<and> buf_ok 64 p1
     else if item = IP_CONFIG_ITEM then buf_ok 16 p0 \<and> buf_ok 16 p1 \<and> buf_ok 16 p2
     else buf_ok (unat (info_item_len item) - 8) p0)"

context nor_device
begin

lemma read_part:
  assumes "flash_at mem0 d s" and "mslice (mem (world s)) (unat a) (length bs) = bs"
    and "off + unat n \<le> length bs" and "unat n \<le> length p" and "unat a' = unat a + off"
    and "unat a + length bs \<le> 2 ^ 24"
  shows "\<exists>s'. read_into (ddev_make_handle (of_nat d)) p n a' s = Inr (deliver (take (unat n) (drop off bs)) p, s')
    \<and> keeps mem0 d s s'"
proof -
  have "mslice (mem (world s)) (unat a + off) (unat n) = take (unat n) (drop off (mslice (mem (world s)) (unat a) (length bs)))"
    using assms(3) by (simp add: drop_mslice take_mslice)
  with assms(2) have "mslice (mem (world s)) (unat a') (unat n) = take (unat n) (drop off bs)" using assms(5) by simp
  moreover have "length (take (unat n) (drop off bs)) = unat n" using assms(3) by simp
  ultimately show ?thesis
    using read_into_run [OF assms(1,4), of a'] assms(3,5,6) by (auto simp: deliver_def)
qed

lemma get_item_switch_run:
  assumes "flash_at mem0 d s" and "mslice (mem (world s)) (unat a) (length bs) = bs"
    and "length bs = unat (info_item_len item) - 8" and "head_len head = of_nat (length bs)"
    and "get_bufs_ok item ptrs" and "unat a + length bs \<le> 2 ^ 23"
  shows "\<exists>s'. get_item_switch (ddev_make_handle (of_nat d)) item head a ptrs s = Inr (item_ptrs item bs ptrs, s')
    \<and> keeps mem0 d s s'"
proof -
  let ?h = "ddev_make_handle (of_nat d)"
  obtain p0 p1 p2 where ptrs: "ptrs = (p0, p1, p2)" by (cases ptrs)
  have a24: "unat a + length bs \<le> 2 ^ 24" using assms(6) by simp
  have refl: "keeps mem0 d s s" using assms(1) by (simp add: keeps_def)
  have rd: "\<exists>s'. read_into ?h p n a' s1 = Inr (deliver (take (unat n) (drop off bs)) p, s') \<and> keeps mem0 d s s'"
    if "keeps mem0 d s s1" "off + unat n \<le> length bs" "unat n \<le> length p" "unat a' = unat a + off" for p n a' off s1
    using read_part [OF keepsD(1) [OF that(1)] _ that(2-4) a24] keepsD(2) [OF that(1)] assms(2) keeps_trans [OF that(1)]
    by auto
  have n: "unat (of_nat (length bs) :: u32) = length bs" using assms(6) by (simp add: unat_of_nat)
  consider (ssid) "item = SSID_KEY_ITEM" | (ip) "item = IP_CONFIG_ITEM" | (other) "item \<noteq> SSID_KEY_ITEM" "item \<noteq> IP_CONFIG_ITEM"
    by blast
  then show ?thesis
  proof cases
    case ssid
    show ?thesis
    proof (cases "p0 = None \<or> p1 = None")
      case True
      then show ?thesis using ssid refl by (auto simp: ptrs get_item_switch_def item_ptrs_def split: option.splits)
    next
      case False
      then obtain b0 b1 where b: "p0 = Some b0" "p1 = Some b1" by auto
      have l: "length bs = 96" using assms(3) ssid by (simp add: info_item_len_def)
      have bl: "32 \<le> length b0" "64 \<le> length b1" using assms(5) ssid b by (auto simp: ptrs get_bufs_ok_def buf_ok_def)
      from rd [OF refl, of 0 32 b0 a] l bl obtain s1 where
        s1: "read_into ?h b0 32 a s = Inr (deliver (take 32 bs) b0, s1)" "keeps mem0 d s s1" by auto
      have a1: "unat (a + 32) = unat a + 32" using assms(6) l by (simp add: unat_word_ariths)
      from rd [OF s1(2), of 32 64 b1 "a + 32"] l bl a1 obtain s2 where
        "read_into ?h b1 64 (a + 32) s1 = Inr (deliver (take 64 (drop 32 bs)) b1, s2)" "keeps mem0 d s s2" by auto
      with s1(1) ssid b show ?thesis by (simp add: ptrs get_item_switch_def item_ptrs_def)
    qed
  next
    case ip
    show ?thesis
    proof (cases "p0 = None \<or> p1 = None \<or> p2 = None")
      case True
      then show ?thesis using ip refl by (auto simp: ptrs get_item_switch_def item_ptrs_def split: option.splits)
    next
      case False
      then obtain b0 b1 b2 where b: "p0 = Some b0" "p1 = Some b1" "p2 = Some b2" by auto
      have l: "length bs = 48" using assms(3) ip by (simp add: info_item_len_def)
      have bl: "16 \<le> length b0" "16 \<le> length b1" "16 \<le> length b2"
        using assms(5) ip b by (auto simp: ptrs get_bufs_ok_def buf_ok_def)
      from rd [OF refl, of 0 16 b0 a] l bl obtain s1 where
        s1: "read_into ?h b0 16 a s = Inr (deliver (take 16 bs) b0, s1)" "keeps mem0 d s s1" by auto
      have a1: "unat (a + 16) = unat a + 16" "unat (a + 32) = unat a + 32"
        using assms(6) l by (simp_all add: unat_word_ariths)
      from rd [OF s1(2), of 16 16 b1 "a + 16"] l bl a1 obtain s2 where
        s2: "read_into ?h b1 16 (a + 16) s1 = Inr (deliver (take 16 (drop 16 bs)) b1, s2)" "keeps mem0 d s s2" by auto
      from rd [OF s2(2), of 32 16 b2 "a + 32"] l bl a1 obtain s3 where
        "read_into ?h b2 16 (a + 32) s2 = Inr (deliver (take 16 (drop 32 bs)) b2, s3)" "keeps mem0 d s s3" by auto
      with s1(1) s2(1) ip b show ?thesis by (simp add: ptrs get_item_switch_def item_ptrs_def add.assoc)
    qed
  next
    case other
    show ?thesis
    proof (cases p0)
      case None
      then show ?thesis using other refl by (auto simp: ptrs get_item_switch_def item_ptrs_def)
    next
      case (Some b0)
      then have "length bs \<le> length b0" using assms(3,5) other by (simp add: ptrs get_bufs_ok_def buf_ok_def)
      with rd [OF refl, of 0 "of_nat (length bs)" b0 a] n obtain s1 where
        s1: "read_into ?h b0 (of_nat (length bs)) a s = Inr (deliver bs b0, s1)" "keeps mem0 d s s1" by auto
      with other Some assms(4) refl show ?thesis
        by (simp add: ptrs get_item_switch_def item_ptrs_def)
    qed
  qed
qed

end

lemma item_data_at:
  assumes "tbl_at m (Some its)" and "map_of its item = Some bs"
  shows "mslice m (0x1e1008 + item_offset item its) 8 = u32_bytes item @ u32_bytes (of_nat (length bs))"
    "mslice m (0x1e1010 + item_offset item its) (length bs) = bs"
    "length bs = unat (info_item_len item) - 8"
    "item_offset item its + 8 + length bs \<le> 0x1000 - 8"
proof -
  from item_split [OF assms(2)] obtain pre post where
    sp: "its = pre @ (item, bs) # post" "item_offset item its = length (enc_items pre)" by blast
  let ?o = "length (enc_items pre)" and ?b = "0x1e1000 + 8 :: nat"
  have wf: "wf_items its" and "mslice m 0x1e1000 (8 + length (enc_items its)) = enc_tbl its"
    using assms(1) by (auto simp: tbl_at_def net_param_partition Let_def)
  then have "drop 8 (mslice m 0x1e1000 (8 + length (enc_items its))) = drop 8 (enc_tbl its)" by simp
  then have e: "mslice m ?b (length (enc_items its)) = enc_items its"
    by (simp add: drop_mslice enc_tbl_def)
  have part: "mslice m (?b + o') n = take n (drop o' (enc_items its))" if "o' + n \<le> length (enc_items its)" for o' n
    using that arg_cong [OF e, of "\<lambda>xs. take n (drop o' xs)"] by (simp add: drop_mslice take_mslice)
  have "mslice m (?b + ?o) 8 = u32_bytes item @ u32_bytes (of_nat (length bs))"
    by (subst part) (simp_all add: sp(1) enc_item_def)
  then show "mslice m (0x1e1008 + item_offset item its) 8 = u32_bytes item @ u32_bytes (of_nat (length bs))"
    using sp(2) by simp
  have "mslice m (?b + (?o + 8)) (length bs) = bs"
    by (subst part) (simp_all add: sp(1) enc_item_def)
  moreover have "?b + (?o + 8) = 0x1e1010 + item_offset item its" using sp(2) by simp
  ultimately show "mslice m (0x1e1010 + item_offset item its) (length bs) = bs" by simp
  show "length bs = unat (info_item_len item) - 8" using wf sp(1) by (auto simp: wf_items_def)
  have "length (enc_items its) \<le> 0x1000 - 8" using wf by (simp add: wf_items_def net_param_partition)
  then show "item_offset item its + 8 + length bs \<le> 0x1000 - 8" using sp by simp
qed

definition tlv_get :: "items option \<Rightarrow> u32 \<Rightarrow> ptrs \<Rightarrow> u32 \<times> ptrs" where
  "tlv_get t item ptrs = (case t of None \<Rightarrow> (0, ptrs)
     | Some its \<Rightarrow> (case map_of its item of None \<Rightarrow> (0, ptrs) | Some d \<Rightarrow> item_ptrs item d ptrs))"

context nor_device
begin

lemma get_info_item_run:
  assumes "flash_at mem0 d s" and "length junk = 8" and "tbl_at (mem (world s)) t" and "get_bufs_ok item ptrs"
  shows "\<exists>s'. get_info_item mem0 junk item ptrs s = Inr (tlv_get t item ptrs, s') \<and> keeps mem0 d s s'"
proof -
  let ?h = "ddev_make_handle (of_nat d)" and ?m = "mem (world s)"
  from search_info_tbl_run [OF assms(1-3), of None] obtain s1 where
    s1: "search_info_tbl mem0 junk None s = Inr ((case t of None \<Rightarrow> (0, 0, None)
       | Some its \<Rightarrow> (1, of_nat (length (enc_tbl its)), None)), s1)" "keeps mem0 d s s1"
    by (cases t) auto
  show ?thesis
  proof (cases t)
    case None
    with s1 show ?thesis by (simp add: get_info_item_def tlv_get_def)
  next
    case (Some its)
    have tb: "tbl_at ?m (Some its)" "tbl_at (mem (world s1)) (Some its)"
      using assms(3) Some keepsD(2) [OF s1(2)] by simp_all
    from search_info_item_run [OF keepsD(1) [OF s1(2)] assms(2) tb(2), of item] obtain s2 where
      s2: "search_info_item mem0 junk item 0x1e1000 s1
        = Inr ((if map_of its item = None then 0 else of_nat (0x1e1008 + item_offset item its)), s2)" "keeps mem0 d s1 s2"
      by blast
    have k2: "keeps mem0 d s s2" using keeps_trans [OF s1(2) s2(2)] .
    note run = get_info_item_def get_info_run deref_def net_param_partition(3)
    show ?thesis
    proof (cases "map_of its item")
      case None
      with s1(1) s2(1) \<open>t = Some its\<close> k2 show ?thesis by (simp add: run tlv_get_def)
    next
      case (Some bs)
      note dat = item_data_at [OF tb(1) Some]
      let ?a = "of_nat (0x1e1008 + item_offset item its) :: u32"
      have a: "unat ?a = 0x1e1008 + item_offset item its" using dat(4) by (simp add: unat_of_nat del: of_nat_add)
      then have a0: "?a \<noteq> 0" by (metis add_is_0 unat_0 zero_neq_numeral)
      have a8: "unat (?a + 8) = 0x1e1010 + item_offset item its" using dat(4) by (simp add: unat_word_ariths unat_of_nat)
      from open_keeps [OF keepsD(1) [OF k2]] obtain st s3 where
        s3: "ddev_open mem0 (Some FLASH_DEV_NAME) True 0 s2 = Inr ((?h, Some st), s3)" "keeps mem0 d s2 s3" by blast
      have k3: "keeps mem0 d s s3" using keeps_trans [OF k2 s3(2)] .
      have "unat ?a + unat (8 :: u32) \<le> 2 ^ 24" unfolding a using dat(4) by simp
      from read_into_run [OF keepsD(1) [OF k3] _ this, of junk] assms(2) keepsD(2) [OF k3] a dat(1) obtain s4 where
        s4: "read_into ?h junk 8 ?a s3 = Inr (u32_bytes item @ u32_bytes (of_nat (length bs)), s4)" "keeps mem0 d s3 s4"
        by auto
      have k4: "keeps mem0 d s s4" using keeps_trans [OF k3 s4(2)] .
      have "\<exists>s'. get_item_switch ?h item (u32_bytes item @ u32_bytes (of_nat (length bs))) (?a + 8) ptrs s4
          = Inr (item_ptrs item bs ptrs, s') \<and> keeps mem0 d s4 s'"
        using dat keepsD [OF k4] a8 assms(4) by (intro get_item_switch_run) auto
      then obtain s5 where s5: "get_item_switch ?h item (u32_bytes item @ u32_bytes (of_nat (length bs))) (?a + 8) ptrs s4
          = Inr (item_ptrs item bs ptrs, s5)" "keeps mem0 d s4 s5" by blast
      from close_keeps [OF keepsD(1) [OF s5(2)]] obtain s6 where
        s6: "ddev_close ?h s5 = Inr (DRV_SUCCESS, s6)" "keeps mem0 d s5 s6" by blast
      have "get_info_item mem0 junk item ptrs s = Inr (item_ptrs item bs ptrs, s6)"
        using s1(1) s2(1) s3(1) s4(1) s5(1) s6(1) Some \<open>t = Some its\<close> a0
        by (simp add: run del: of_nat_add)
      then show ?thesis
        using keeps_trans [OF k4 keeps_trans [OF s5(2) s6(2)]] Some \<open>t = Some its\<close> by (simp add: tlv_get_def)
    qed
  qed
qed

end

section \<open>Saving an item\<close>

definition overwrite :: "nat \<Rightarrow> u8 list \<Rightarrow> u8 list \<Rightarrow> u8 list" where
  "overwrite off bs buf = take off buf @ bs @ drop (off + length bs) buf"

lemma overwrite_mid: "length bs = length ys \<Longrightarrow> overwrite (length xs) bs (xs @ ys @ zs) = xs @ bs @ zs"
  by (simp add: overwrite_def)

lemma overwrite_append:
  "off + length xs + length ys \<le> length buf \<Longrightarrow>
   overwrite (off + length xs) ys (overwrite off xs buf) = overwrite off (xs @ ys) buf"
  by (simp add: overwrite_def ac_simps)

lemma length_overwrite: "off + length bs \<le> length buf \<Longrightarrow> length (overwrite off bs buf) = length buf"
  by (simp add: overwrite_def)

lemma copy_in_run:
  "n \<le> length bs \<Longrightarrow> off + n \<le> length buf \<Longrightarrow> copy_in off (Some bs) n buf s = Inr (overwrite off (take n bs) buf, s)"
  by (simp add: copy_in_def deref_def overwrite_def)

definition arg_ok :: "nat \<Rightarrow> u8 list option \<Rightarrow> bool" where
  "arg_ok n p \<longleftrightarrow> (case p of None \<Rightarrow> False | Some b \<Rightarrow> n \<le> length b)"

definition save_args_ok :: "u32 \<Rightarrow> ptrs \<Rightarrow> bool" where
  "save_args_ok item ptrs \<longleftrightarrow> (case ptrs of (p0, p1, p2) \<Rightarrow>
     if item = WIFI_MAC_ITEM then arg_ok 6 p0
     else if item = SSID_KEY_ITEM then arg_ok 32 p0 \<and> arg_ok 64 p1
     else if item = IP_CONFIG_ITEM then arg_ok 16 p0 \<and> arg_ok 16 p1 \<and> arg_ok 16 p2
     else if item = CHARGE_CONFIG_ITEM then arg_ok 3 p0
     else arg_ok 4 p0)"

definition args_payload :: "u32 \<Rightarrow> ptrs \<Rightarrow> u8 list" where
  "args_payload item ptrs = (case ptrs of (p0, p1, p2) \<Rightarrow>
     payload item (case p0 of None \<Rightarrow> [] | Some b \<Rightarrow> b) (case p1 of None \<Rightarrow> [] | Some b \<Rightarrow> b)
       (case p2 of None \<Rightarrow> [] | Some b \<Rightarrow> b))"

lemma payload_length: "length (args_payload item ptrs) \<le> unat (info_item_len item) - 8"
  by (auto simp: args_payload_def payload_def info_item_len_def split: prod.splits)

lemma save_item_switch_run:
  assumes "save_args_ok item ptrs" and "off + length (args_payload item ptrs) \<le> length buf"
  shows "save_item_switch item ptrs off buf s = Inr (overwrite off (args_payload item ptrs) buf, s)"
proof -
  obtain p0 p1 p2 where ptrs: "ptrs = (p0, p1, p2)" by (cases ptrs)
  obtain b0 where b0: "p0 = Some b0" using assms(1)
    by (auto simp: ptrs save_args_ok_def arg_ok_def split: option.splits if_splits)
  note defs = save_item_switch_def save_args_ok_def args_payload_def payload_def ptrs b0 arg_ok_def
  consider (ssid) "item = SSID_KEY_ITEM" | (ip) "item = IP_CONFIG_ITEM" | (other) "item \<noteq> SSID_KEY_ITEM" "item \<noteq> IP_CONFIG_ITEM"
    by blast
  then show ?thesis
  proof cases
    case ssid
    with assms obtain b1 where b1: "p1 = Some b1" "32 \<le> length b0" "64 \<le> length b1" "off + 96 \<le> length buf"
      by (auto simp: defs split: option.splits)
    have "overwrite (off + length (take 32 b0)) (take 64 b1) (overwrite off (take 32 b0) buf)
        = overwrite off (take 32 b0 @ take 64 b1) buf" using b1 by (intro overwrite_append) simp
    with ssid b1 show ?thesis by (simp add: defs copy_in_run length_overwrite)
  next
    case ip
    with assms obtain b1 b2 where b1: "p1 = Some b1" "p2 = Some b2" "16 \<le> length b0" "16 \<le> length b1"
        "16 \<le> length b2" "off + 48 \<le> length buf"
      by (auto simp: defs split: option.splits)
    have "overwrite (off + length (take 16 b0)) (take 16 b1) (overwrite off (take 16 b0) buf)
        = overwrite off (take 16 b0 @ take 16 b1) buf" using b1 by (intro overwrite_append) simp
    moreover have "overwrite (off + length (take 16 b0 @ take 16 b1)) (take 16 b2)
        (overwrite off (take 16 b0 @ take 16 b1) buf)
        = overwrite off ((take 16 b0 @ take 16 b1) @ take 16 b2) buf" using b1 by (intro overwrite_append) simp
    ultimately show ?thesis using ip b1 by (simp add: defs copy_in_run length_overwrite)
  next
    case other
    with assms show ?thesis by (auto simp: defs copy_in_run min_absorb2)
  qed
qed

text \<open>The three copies turn the work buffer into the encoding of the updated table.\<close>

definition item_head :: "u32 \<Rightarrow> u8 list" where
  "item_head item = u32_bytes item @ u32_bytes (info_item_len item - 8)"

lemma length_item_head [simp]: "length (item_head item) = 8"
  by (simp add: item_head_def)

lemma info_item_len_word: "info_item_len item - 8 = of_nat (unat (info_item_len item) - 8)"
proof -
  have "(8::u32) \<le> info_item_len item" using info_item_len_bounds(1) [of item] by (simp add: word_le_nat_alt)
  then have "unat (info_item_len item - 8) = unat (info_item_len item) - 8" by (simp add: unat_sub)
  then show ?thesis unfolding word_unat_eq_iff using info_item_len_bounds(2) [of item] by (simp add: unat_of_nat)
qed

lemma enc_item_head: "length d = unat (info_item_len item) - 8 \<Longrightarrow> enc_item (item, d) = item_head item @ d"
  unfolding enc_item_def item_head_def info_item_len_word by simp

lemma assemble_table:
  assumes "length H = 8" and "length bs \<le> unat (info_item_len item) - 8"
    and "\<forall>(t, d)\<in>set its. length d = unat (info_item_len t) - 8"
  defines "B \<equiv> H @ enc_items its @ (if map_of its item = None then replicate (unat (info_item_len item)) 0 else [])"
  defines "new \<equiv> tlv_save item bs its"
  shows "overwrite 0 (u32_bytes INFO_TLV_HEADER @ u32_bytes (of_nat (length (enc_items new))))
     (overwrite (8 + item_offset item its) (item_head item)
       (overwrite (8 + item_offset item its + 8) bs B)) = enc_tbl new"
    and "length B = length (enc_tbl new)" and "8 + item_offset item its + unat (info_item_len item) \<le> length B"
proof -
  let ?L = "unat (info_item_len item)"
  obtain pre post old where new: "enc_items new = enc_items pre @ item_head item @ (bs @ drop (length bs) old) @ enc_items post"
    and off: "item_offset item its = length (enc_items pre)" and old: "length old = ?L - 8"
    and B: "\<exists>ih. length ih = 8 \<and> B = H @ enc_items pre @ ih @ old @ enc_items post"
  proof (cases "map_of its item")
    case None
    let ?old = "replicate (?L - 8) (0 :: u8)"
    have "enc_items new = enc_items its @ item_head item @ (bs @ drop (length bs) ?old) @ enc_items []"
      using None assms(2) by (simp add: new_def tlv_save_def update_absent enc_item_head)
    moreover have "replicate ?L (0 :: u8) = replicate 8 0 @ ?old"
      using info_item_len_bounds(1) [of item] by (simp flip: replicate_add)
    then have "B = H @ enc_items its @ replicate 8 0 @ ?old @ enc_items []" using None by (simp add: B_def)
    then have "\<exists>ih. length ih = 8 \<and> B = H @ enc_items its @ ih @ ?old @ enc_items []"
      by (metis length_replicate)
    ultimately show ?thesis using that [of its ?old "[]"] item_offset_absent [OF None] by simp
  next
    case (Some d)
    from item_split [OF Some] obtain pre post where sp: "its = pre @ (item, d) # post"
      "item_offset item its = length (enc_items pre)" "\<And>x. AList.update item x its = pre @ (item, x) # post" by blast
    have d: "length d = ?L - 8" using assms(3) sp(1) by auto
    have "enc_items new = enc_items pre @ item_head item @ (bs @ drop (length bs) d) @ enc_items post"
      using Some assms(2) d by (simp add: new_def tlv_save_def sp(3) enc_item_head)
    moreover have "B = H @ enc_items pre @ item_head item @ d @ enc_items post"
      using Some d by (simp add: B_def sp(1) enc_item_head)
    then have "\<exists>ih. length ih = 8 \<and> B = H @ enc_items pre @ ih @ d @ enc_items post" by (metis length_item_head)
    ultimately show ?thesis using that [of pre d post] sp(2) d by simp
  qed
  from B obtain ih where B: "length ih = 8" "B = H @ enc_items pre @ ih @ old @ enc_items post" by blast
  have tk: "take (length bs) old @ drop (length bs) old @ enc_items post = old @ enc_items post"
    by (simp flip: append_assoc)
  have "overwrite (8 + length (enc_items pre) + 8) bs B
      = (H @ enc_items pre @ ih) @ bs @ (drop (length bs) old @ enc_items post)"
    using overwrite_mid [of bs "take (length bs) old" "H @ enc_items pre @ ih" "drop (length bs) old @ enc_items post"]
      assms(1,2) B old by (simp add: add.assoc tk)
  moreover have "overwrite (8 + length (enc_items pre)) (item_head item) ((H @ enc_items pre @ ih) @ bs @ (drop (length bs) old @ enc_items post))
      = H @ enc_items new"
    using overwrite_mid [of "item_head item" ih "H @ enc_items pre" "bs @ drop (length bs) old @ enc_items post"] assms(1) B(1) new
    by simp
  moreover have "overwrite 0 (u32_bytes INFO_TLV_HEADER @ u32_bytes (of_nat (length (enc_items new)))) (H @ enc_items new) = enc_tbl new"
    using assms(1) by (simp add: overwrite_def enc_tbl_def)
  ultimately show "overwrite 0 (u32_bytes INFO_TLV_HEADER @ u32_bytes (of_nat (length (enc_items new))))
     (overwrite (8 + item_offset item its) (item_head item) (overwrite (8 + item_offset item its + 8) bs B)) = enc_tbl new"
    unfolding off by simp
  show "length B = length (enc_tbl new)" using B assms(1,2) old new by simp
  show "8 + item_offset item its + ?L \<le> length B"
    using B assms(1) old off info_item_len_bounds(1) [of item] by simp
qed

lemma wf_tlv_save:
  assumes "distinct (map fst its)" and "\<forall>(t, d)\<in>set its. length d = unat (info_item_len t) - 8"
    and "length bs \<le> unat (info_item_len item) - 8"
    and "length (enc_tbl (tlv_save item bs its)) \<le> part_len BK_PARTITION_NET_PARAM"
  shows "wf_items (tlv_save item bs its)"
proof -
  have "\<forall>(t, d)\<in>set (tlv_save item bs its). length d = unat (info_item_len t) - 8"
  proof (cases "map_of its item")
    case None
    then show ?thesis using assms(2,3) by (auto simp: tlv_save_def update_absent)
  next
    case (Some d)
    from item_split [OF Some] obtain pre post where sp: "its = pre @ (item, d) # post"
      "\<And>x. AList.update item x its = pre @ (item, x) # post" by blast
    then show ?thesis using assms(2,3) Some by (auto simp: tlv_save_def sp(2))
  qed
  with assms(1,4) show ?thesis by (simp add: wf_items_def tlv_save_def distinct_update)
qed

lemma save_copies:
  assumes "save_args_ok item ptrs" and "off + unat (info_item_len item) \<le> length B" and "length hdr = 8" and "8 \<le> length B"
  shows "bindM (save_item_switch item ptrs (off + 8) B) (\<lambda>b1.
     bindM (copy_in off (Some (u32_bytes item @ u32_bytes (info_item_len item - sizeof_INFO_ITEM_ST))) 8 b1) (\<lambda>b2.
     bindM (copy_in 0 (Some hdr) 8 b2) K)) s
   = K (overwrite 0 hdr (overwrite off (item_head item) (overwrite (off + 8) (args_payload item ptrs) B))) s"
proof -
  let ?b1 = "overwrite (off + 8) (args_payload item ptrs) B"
  have pl: "off + 8 + length (args_payload item ptrs) \<le> length B"
    using assms(2) payload_length [of item ptrs] info_item_len_bounds(1) [of item] by simp
  then have l1: "length ?b1 = length B" by (rule length_overwrite)
  have l2: "length (overwrite off (item_head item) ?b1) = length B" using pl l1 by (simp add: length_overwrite)
  have "copy_in off (Some (item_head item)) 8 ?b1 s = Inr (overwrite off (item_head item) ?b1, s)"
    using copy_in_run [of 8 "item_head item" off ?b1 s] l1 pl by simp
  moreover have "copy_in 0 (Some hdr) 8 (overwrite off (item_head item) ?b1) s
      = Inr (overwrite 0 hdr (overwrite off (item_head item) ?b1), s)"
    using copy_in_run [of 8 hdr 0 "overwrite off (item_head item) ?b1" s] l2 assms(3,4) by simp
  ultimately show ?thesis using save_item_switch_run [OF assms(1) pl, of s] by (simp add: item_head_def)
qed

definition items_of :: "items option \<Rightarrow> items" where
  "items_of t = (case t of None \<Rightarrow> [] | Some its \<Rightarrow> its)"

context nor_device
begin

lemma save_buffer_run:
  fixes item :: u32
  assumes "flash_at mem0 d s" and "length junk = 8" and "tbl_at (mem (world s)) t"
  defines "its \<equiv> items_of t"
  defines "extra \<equiv> (if map_of its item = None then unat (info_item_len item) else 0)"
  assumes "length (enc_tbl its) + extra \<le> 0x1000"
  defines "n \<equiv> of_nat (length (enc_tbl its) + extra) :: u32"
  shows "\<exists>s' H. keeps mem0 d s s' \<and> length H = 8 \<and> save_buffer mem0 junk alloc_ok item s =
     Inr (if alloc_ok n then Some (n, of_nat (8 + item_offset item its), n - 8, H @ enc_items its @ replicate extra 0)
          else None, s')"
proof -
  from search_info_tbl_run [OF assms(1-3), of None] obtain s1 where
    s1: "search_info_tbl mem0 junk None s = Inr ((case t of None \<Rightarrow> (0, 0, None)
       | Some its \<Rightarrow> (1, of_nat (length (enc_tbl its)), None)), s1)" "keeps mem0 d s s1"
    by (cases t) auto
  note run = save_buffer_def get_info_run deref_def net_param_partition(3) Let_def
  show ?thesis
  proof (cases t)
    case None
    have n: "n = 8 + info_item_len item" "unat n = 8 + unat (info_item_len item)"
      using None info_item_len_bounds(2) [of item]
      by (simp_all add: n_def its_def items_of_def extra_def unat_word_ariths)
    have "save_buffer mem0 junk alloc_ok item s =
      Inr (if alloc_ok n then Some (n, 8, info_item_len item, replicate (unat n) 0) else None, s1)"
      using s1(1) None by (simp add: run n(1))
    moreover have "replicate (unat n) (0 :: u8) = replicate 8 0 @ enc_items its @ replicate extra 0"
      using None n(2) by (simp add: its_def items_of_def extra_def replicate_add)
    moreover have "length (replicate 8 (0::u8)) = 8" by simp
    ultimately show ?thesis using s1(2) None n(1)
      by (intro exI [of _ s1] exI [of _ "replicate 8 0"]) (simp add: its_def items_of_def)
  next
    case (Some its')
    then have its: "its' = its" by (simp add: its_def items_of_def)
    have tb: "tbl_at (mem (world s1)) (Some its)" using assms(3) Some its keepsD(2) [OF s1(2)] by simp
    from search_info_item_run [OF keepsD(1) [OF s1(2)] assms(2) tb, of item] obtain s2 where
      s2: "search_info_item mem0 junk item 0x1e1000 s1
        = Inr ((if map_of its item = None then 0 else of_nat (0x1e1008 + item_offset item its)), s2)" "keeps mem0 d s1 s2"
      by blast
    have k2: "keeps mem0 d s s2" using keeps_trans [OF s1(2) s2(2)] .
    have ol: "item_offset item its \<le> length (enc_items its)"
      using item_offset_absent [of its item] item_offset_found [of its item] by (cases "map_of its item") auto
    have le: "8 + length (enc_items its) + extra \<le> 0x1000" using assms(6) by simp
    have ne: "(of_nat (0x1e1008 + item_offset item its) :: u32) \<noteq> 0"
    proof -
      have "unat (of_nat (0x1e1008 + item_offset item its) :: u32) = 0x1e1008 + item_offset item its"
        using ol le by (simp add: unat_of_nat del: of_nat_add)
      then show ?thesis by (metis add_is_0 unat_0 zero_neq_numeral)
    qed
    have nu: "unat n = length (enc_tbl its) + extra"
      unfolding n_def using assms(6) by (simp add: unat_of_nat del: of_nat_add length_enc_tbl)
    let ?b = "replicate (unat n) (0 :: u8)"
    have tb2: "tbl_at (mem (world s2)) t" using assms(3) keepsD(2) [OF k2] by simp
    have "\<exists>s3. search_info_tbl mem0 junk (Some ?b) s2 = Inr ((1, of_nat (length (enc_tbl its)),
        Some (enc_tbl its @ drop (length (enc_tbl its)) ?b)), s3) \<and> keeps mem0 d s2 s3"
      using search_info_tbl_run [OF keepsD(1) [OF k2] assms(2) tb2, of "Some ?b"] Some its nu by simp
    then obtain s3 where s3: "search_info_tbl mem0 junk (Some ?b) s2 = Inr ((1, of_nat (length (enc_tbl its)),
        Some (enc_tbl its @ replicate extra 0)), s3)" "keeps mem0 d s2 s3"
      using nu by auto
    obtain addr :: u32 where addr: "addr = (if map_of its item = None then 0 else of_nat (0x1e1008 + item_offset item its))"
      by blast
    have parts: "(if addr = 0 then of_nat (length (enc_tbl its)) + info_item_len item
        else of_nat (length (enc_tbl its))) = n"
      "(if addr = 0 then of_nat (length (enc_tbl its)) else addr - 0x1e1000) = (of_nat (8 + item_offset item its) :: u32)"
      using item_offset_absent [of its item] ne by (auto simp: n_def extra_def addr)
    have H: "enc_tbl its @ replicate extra 0 = take 8 (enc_tbl its) @ enc_items its @ replicate extra 0"
      by (simp add: enc_tbl_def)
    have "save_buffer mem0 junk alloc_ok item s =
      Inr (if alloc_ok n then Some (n, of_nat (8 + item_offset item its), n - 8, take 8 (enc_tbl its) @ enc_items its @ replicate extra 0)
          else None, if alloc_ok n then s3 else s2)"
      using s1(1) s2(1) s3(1) Some its unfolding H [symmetric] addr [symmetric]
      by (simp add: run parts(1) del: of_nat_add length_enc_tbl take8_enc_tbl) (metis parts(2))
    then show ?thesis using k2 keeps_trans [OF k2 s3(2)]
      by (intro exI [of _ "if alloc_ok n then s3 else s2"] exI [of _ "take 8 (enc_tbl its)"]) simp
  qed
qed

lemma save_info_item_run:
  fixes item :: u32 and ptrs :: ptrs
  assumes "flash_at mem0 d s" and "length junk = 8" and "tbl_at (mem (world s)) t" and "save_args_ok item ptrs"
    and "part_start BK_PARTITION_NET_PARAM + part_len BK_PARTITION_NET_PARAM \<le> size (world s)"
  defines "new \<equiv> tlv_save item (args_payload item ptrs) (items_of t)"
  assumes "length (enc_tbl new) \<le> part_len BK_PARTITION_NET_PARAM"
  shows "\<exists>s'. flash_at mem0 d s' \<and> size (world s') = size (world s) \<and>
     save_info_item mem0 junk alloc_ok item ptrs s = Inr (if alloc_ok (of_nat (length (enc_tbl new))) then 1 else 0, s') \<and>
     (if alloc_ok (of_nat (length (enc_tbl new))) then tbl_at (mem (world s')) (Some new) \<and>
        (\<forall>i. i < part_start BK_PARTITION_NET_PARAM
             \<or> part_start BK_PARTITION_NET_PARAM + part_len BK_PARTITION_NET_PARAM \<le> i \<longrightarrow> mem (world s') i = mem (world s) i)
      else mem (world s') = mem (world s))"
proof -
  let ?its = "items_of t" and ?bs = "args_payload item ptrs"
  let ?extra = "if map_of ?its item = None then unat (info_item_len item) else 0"
  let ?e = "enc_tbl new" and ?n = "of_nat (length (enc_tbl new)) :: u32"
  have dl: "\<forall>(t, d)\<in>set ?its. length d = unat (info_item_len t) - 8" "distinct (map fst ?its)"
    using assms(3) by (auto simp: tbl_at_def items_of_def wf_items_def split: option.splits)
  have ln: "length (enc_tbl ?its) + ?extra = length ?e"
    using assemble_table(2) [OF _ payload_length dl(1), where H = "replicate 8 0"] by (simp add: new_def)
  have e1: "length ?e \<le> 0x1000" using assms(7) by (simp add: net_param_partition)
  have nu: "unat ?n = length ?e" using e1 by (simp add: unat_of_nat del: length_enc_tbl)
  from save_buffer_run [OF assms(1-3), where item = item and alloc_ok = alloc_ok, unfolded ln, OF e1]
  obtain s1 H where s1: "keeps mem0 d s s1" "length H = 8" "save_buffer mem0 junk alloc_ok item s =
     Inr (if alloc_ok ?n then Some (?n, of_nat (8 + item_offset item ?its), ?n - 8, H @ enc_items ?its @ replicate ?extra 0)
          else None, s1)" by blast
  show ?thesis
  proof (cases "alloc_ok ?n")
    case False
    then show ?thesis using s1 by (auto simp: save_info_item_def keeps_def)
  next
    case True
    let ?B = "H @ enc_items ?its @ replicate ?extra 0" and ?o = "of_nat (8 + item_offset item ?its) :: u32"
    have Beq: "H @ enc_items ?its @ (if map_of ?its item = None then replicate (unat (info_item_len item)) 0 else []) = ?B"
      by simp
    note asm = assemble_table [OF s1(2) payload_length [of item ptrs] dl(1), unfolded Beq, folded new_def]
    obtain B where B: "?B = B" by blast
    obtain off where off: "8 + item_offset item ?its = off" by blast
    note asm' = asm [unfolded B off]
    have o: "unat ?o = 8 + item_offset item ?its" using asm(2,3) e1 by (simp add: unat_of_nat del: of_nat_add length_enc_tbl)
    have tl: "?n - 8 = of_nat (length (enc_items new))" by simp
    have sv: "save_info_item mem0 junk alloc_ok item ptrs s =
        thenM (bk_flash_enable_security mem0 FLASH_PROTECT_NONE)
       (thenM (bk_flash_erase mem0 BK_PARTITION_NET_PARAM 0 ?n)
       (thenM (bk_flash_write mem0 BK_PARTITION_NET_PARAM 0 (Some ?e) ?n)
       (thenM (bk_flash_enable_security mem0 FLASH_UNPROTECT_LAST_BLOCK) (retM 1)))) s1"
      using s1(3) True save_copies [OF assms(4) asm'(3), of "u32_bytes INFO_TLV_HEADER @ u32_bytes (?n - 8)"]
        asm'(1,2) o unfolding B off tl
      by (simp add: save_info_item_def del: of_nat_add length_enc_tbl) (simp del: of_nat_add)
    have "\<exists>s2. thenM (bk_flash_enable_security mem0 FLASH_PROTECT_NONE)
        (thenM (bk_flash_erase mem0 BK_PARTITION_NET_PARAM 0 ?n) (bk_flash_write mem0 BK_PARTITION_NET_PARAM 0 (Some ?e) ?n)) s1
        = Inr (kNoErr, s2)
     \<and> flash_at mem0 d s2 \<and> size (world s2) = size (world s1)
     \<and> mslice (mem (world s2)) (part_start BK_PARTITION_NET_PARAM + unat (0::u32)) (unat ?n) = ?e
     \<and> (\<forall>i. i < part_start BK_PARTITION_NET_PARAM + sectors_lo (unat (0::u32))
          \<or> part_start BK_PARTITION_NET_PARAM + sectors_hi (unat (0::u32)) (unat ?n) \<le> i
          \<longrightarrow> mem (world s2) i = mem (world s1) i)"
      using s1(1) nu e1 assms(5) by (intro unprotect_erase_write) (auto simp: keeps_def net_param_partition)
    then obtain s2 where s2: "thenM (bk_flash_enable_security mem0 FLASH_PROTECT_NONE)
        (thenM (bk_flash_erase mem0 BK_PARTITION_NET_PARAM 0 ?n) (bk_flash_write mem0 BK_PARTITION_NET_PARAM 0 (Some ?e) ?n)) s1
        = Inr (kNoErr, s2)" "flash_at mem0 d s2" "size (world s2) = size (world s1)"
      "mslice (mem (world s2)) 0x1e1000 (length ?e) = ?e"
      "\<And>i. i < 0x1e1000 \<or> 0x1e1000 + sectors_hi 0 (length ?e) \<le> i \<Longrightarrow> mem (world s2) i = mem (world s) i"
      using nu keepsD(2) [OF s1(1)] by (auto simp: net_param_partition sectors_lo_def simp del: length_enc_tbl)
    have hi: "sectors_hi 0 (length ?e) \<le> 0x1000" by (rule sectors_within) (use e1 in simp_all)
    from bk_flash_enable_security_run [OF s2(2), of FLASH_UNPROTECT_LAST_BLOCK] obtain s3 where
      s3: "bk_flash_enable_security mem0 FLASH_UNPROTECT_LAST_BLOCK s2 = Inr (kNoErr, s3)" "flash_at mem0 d s3"
        "mem (world s3) = mem (world s2)" "size (world s3) = size (world s2)" by blast
    have "save_info_item mem0 junk alloc_ok item ptrs s = Inr (1, s3)"
      using sv s2(1) s3(1) by (auto simp: thenM_eq_Inr)
    moreover have "wf_items new" unfolding new_def
      using dl payload_length assms(7) by (intro wf_tlv_save) (auto simp: new_def)
    ultimately show ?thesis
      using True s2(3-5) s3(2-4) hi s1(1)
      by (auto simp: tbl_at_def net_param_partition Let_def keeps_def simp del: length_enc_tbl)
  qed
qed

end

section \<open>Properties\<close>

text \<open>
  C1: saving an item refines the update of a map. On any controller that implements the
  chip, with the flash device ready and the parameter partition inside the flash: if
  the partition holds a table (or nothing that looks like one) and the arguments are
  complete, saving an item whose table still fits the partition returns 1 and the
  partition then holds exactly the updated table, if the work buffer can be allocated;
  otherwise it returns 0 and the flash is unchanged. In both cases no byte outside the
  partition changes.
\<close>

theorem save_refines:
  assumes "nor_controller env chip idle" and "dev_at (flash_op env) (flash_ready chip idle) mem0 d s"
    and "length junk = 8" and "tbl_at (chip_mem chip (world s)) t" and "save_args_ok item ptrs"
    and "part_start BK_PARTITION_NET_PARAM + part_len BK_PARTITION_NET_PARAM \<le> config_size (world s)"
    and "length (enc_tbl (tlv_save item (args_payload item ptrs) (items_of t))) \<le> part_len BK_PARTITION_NET_PARAM"
  shows "\<exists>r s'. save_info_item mem0 junk alloc_ok item ptrs s = Inr (r, s')
     \<and> dev_at (flash_op env) (flash_ready chip idle) mem0 d s'
     \<and> (if alloc_ok (of_nat (length (enc_tbl (tlv_save item (args_payload item ptrs) (items_of t)))))
        then r = 1 \<and> tbl_at (chip_mem chip (world s')) (Some (tlv_save item (args_payload item ptrs) (items_of t)))
        else r = 0 \<and> chip_mem chip (world s') = chip_mem chip (world s))
     \<and> (\<forall>i. i < part_start BK_PARTITION_NET_PARAM \<or> part_start BK_PARTITION_NET_PARAM + part_len BK_PARTITION_NET_PARAM \<le> i
          \<longrightarrow> chip_mem chip (world s') i = chip_mem chip (world s) i)"
proof -
  have dev: "nor_device (flash_op env) (flash_ready chip idle) (chip_mem chip) (chip_prot chip) config_size"
    by (rule nor_controller.axioms_dev [OF assms(1)])
  show ?thesis
    using nor_device.save_info_item_run [OF dev assms(2-7), of alloc_ok] by (auto split: if_splits)
qed

text \<open>
  C2: reading an item is a lookup in the table. Under the same conditions and with
  buffers of the item's size, reading an item returns 1 and delivers its bytes when the
  table has it and the pointers the item needs are given, and returns 0 and leaves the
  buffers alone otherwise; the search loop ends and the flash is unchanged.
\<close>

theorem get_refines:
  assumes "nor_controller env chip idle" and "dev_at (flash_op env) (flash_ready chip idle) mem0 d s"
    and "length junk = 8" and "tbl_at (chip_mem chip (world s)) t" and "get_bufs_ok item ptrs"
  shows "\<exists>s'. get_info_item mem0 junk item ptrs s = Inr (tlv_get t item ptrs, s')
     \<and> dev_at (flash_op env) (flash_ready chip idle) mem0 d s' \<and> chip_mem chip (world s') = chip_mem chip (world s)"
proof -
  have dev: "nor_device (flash_op env) (flash_ready chip idle) (chip_mem chip) (chip_prot chip) config_size"
    by (rule nor_controller.axioms_dev [OF assms(1)])
  show ?thesis
    using nor_device.get_info_item_run [OF dev assms(2-5)] by (auto simp: nor_device.keeps_def [OF dev])
qed

lemma map_of_tlv_save:
  "map_of (tlv_save item bs its) j = (if j = item then Some (bs @ drop (length bs)
     (case map_of its item of None \<Rightarrow> replicate (unat (info_item_len item) - 8) 0 | Some d \<Rightarrow> d)) else map_of its j)"
  by (simp add: tlv_save_def update_conv')

text \<open>
  C30: what is saved is what is read. On any controller that implements the chip, with the flash device ready and the
  partition inside the flash, when the partition holds a well-formed table or nothing that looks like one, and the
  table with the new item fits into it: after a save of the network name and key (buffers of at least 32 and 64 bytes) that
  returns 1, reading the item into buffers of 32 and 64 bytes returns 1 and delivers exactly the first 32 bytes of the
  name and the first 64 of the key.
\<close>

theorem save_then_get:
  assumes "nor_controller env chip idle" and "dev_at (flash_op env) (flash_ready chip idle) mem0 d s"
    and "length junk = 8" and "tbl_at (chip_mem chip (world s)) t" and "32 \<le> length name" and "64 \<le> length key"
    and "part_start BK_PARTITION_NET_PARAM + part_len BK_PARTITION_NET_PARAM \<le> config_size (world s)"
    and "length (enc_tbl (tlv_save SSID_KEY_ITEM (args_payload SSID_KEY_ITEM (Some name, Some key, None)) (items_of t)))
           \<le> part_len BK_PARTITION_NET_PARAM"
    and "save_info_item mem0 junk alloc_ok SSID_KEY_ITEM (Some name, Some key, None) s = Inr (1, s')"
    and "length out0 = 32" and "length out1 = 64"
  shows "\<exists>s''. get_info_item mem0 junk SSID_KEY_ITEM (Some out0, Some out1, None) s'
     = Inr ((1, Some (take 32 name), Some (take 64 key), None), s'')"
proof -
  let ?ptrs = "(Some name, Some key, None) :: ptrs" and ?out = "(Some out0, Some out1, None) :: ptrs"
  let ?new = "tlv_save SSID_KEY_ITEM (args_payload SSID_KEY_ITEM ?ptrs) (items_of t)"
  have dev: "nor_device (flash_op env) (flash_ready chip idle) (chip_mem chip) (chip_prot chip) config_size"
    by (rule nor_controller.axioms_dev [OF assms(1)])
  have args: "save_args_ok SSID_KEY_ITEM ?ptrs" using assms(5,6) by (simp add: save_args_ok_def arg_ok_def)
  from nor_device.save_info_item_run [OF dev assms(2-4) args assms(7,8), of alloc_ok] assms(9)
  have s': "dev_at (flash_op env) (flash_ready chip idle) mem0 d s'" "tbl_at (chip_mem chip (world s')) (Some ?new)"
    by (auto split: if_splits)
  have bufs: "get_bufs_ok SSID_KEY_ITEM ?out" using assms(10,11) by (simp add: get_bufs_ok_def buf_ok_def)
  have old: "length (case map_of (items_of t) SSID_KEY_ITEM of None \<Rightarrow> replicate (unat (info_item_len SSID_KEY_ITEM) - 8) 0
      | Some d \<Rightarrow> d) = 96"
  proof -
    have "length d = 96" if "map_of (items_of t) SSID_KEY_ITEM = Some d" for d
      using map_of_SomeD [OF that] assms(4)
      by (auto simp: tbl_at_def items_of_def wf_items_def info_item_len_def Let_def split: option.splits)
    then show ?thesis by (simp add: info_item_len_def split: option.splits)
  qed
  have pl: "args_payload SSID_KEY_ITEM ?ptrs = take 32 name @ take 64 key" by (simp add: args_payload_def payload_def)
  have "tlv_get (Some ?new) SSID_KEY_ITEM ?out = (1, Some (take 32 name), Some (take 64 key), None)"
    unfolding pl using old assms(5,6,10,11)
    by (simp add: tlv_get_def map_of_tlv_save item_ptrs_def deliver_def)
  with nor_device.get_info_item_run [OF dev s'(1) assms(3) s'(2) bufs] show ?thesis by auto
qed


text \<open>The demonstration part holds no table; a first save succeeds.\<close>

lemma demo_tbl: "tbl_at (chip_mem snd (world demo_up)) None"
proof -
  have "mslice (chip_mem snd (world demo_up)) 0x1e1000 8 = replicate 8 0xFF"
    by (rule nth_equalityI) (simp_all add: chip_mem_def demo_up_def)
  moreover have "replicate 8 x = [x, x, x, x, x, x, x, x]" for x :: u8 by (simp add: numeral_eq_Suc)
  then have "bytes_u32 (replicate 8 0xFF) \<noteq> INFO_TLV_HEADER" by simp
  ultimately show ?thesis by (simp add: tbl_at_def net_param_partition Let_def head_type_def)
qed

abbreviation demo_ptrs :: ptrs where
  "demo_ptrs \<equiv> (Some (replicate 32 0x61), Some (replicate 64 0x62), None)"

lemma demo_ptrs_ok: "save_args_ok SSID_KEY_ITEM demo_ptrs"
  by (simp add: save_args_ok_def arg_ok_def)

lemma demo_fits: "length (enc_tbl (tlv_save SSID_KEY_ITEM (args_payload SSID_KEY_ITEM demo_ptrs) (items_of None)))
    \<le> part_len BK_PARTITION_NET_PARAM"
  by (simp add: net_param_partition tlv_save_def items_of_def args_payload_def payload_def info_item_len_def)

lemma demo_space: "part_start BK_PARTITION_NET_PARAM + part_len BK_PARTITION_NET_PARAM \<le> config_size (world demo_up)"
  by (simp add: net_param_partition)

lemmas demo_net = slow.nor_controller_axioms demo_up_at _ demo_tbl

theorem save_refines_witness:
  "\<exists>r s'. save_info_item [] (replicate 8 0) (\<lambda>_. True) SSID_KEY_ITEM demo_ptrs demo_up = Inr (r, s')
     \<and> dev_at (flash_op (slow_env 2)) (flash_ready snd (\<lambda>h. fst h = 0)) [] 0 s'
     \<and> (if (\<lambda>_. True) (of_nat (length (enc_tbl (tlv_save SSID_KEY_ITEM (args_payload SSID_KEY_ITEM demo_ptrs) (items_of None)))) :: u32)
        then r = 1 \<and> tbl_at (chip_mem snd (world s')) (Some (tlv_save SSID_KEY_ITEM (args_payload SSID_KEY_ITEM demo_ptrs) (items_of None)))
        else r = 0 \<and> chip_mem snd (world s') = chip_mem snd (world demo_up))
     \<and> (\<forall>i. i < part_start BK_PARTITION_NET_PARAM \<or> part_start BK_PARTITION_NET_PARAM + part_len BK_PARTITION_NET_PARAM \<le> i
          \<longrightarrow> chip_mem snd (world s') i = chip_mem snd (world demo_up) i)"
  by (rule save_refines [OF demo_net demo_ptrs_ok demo_space demo_fits]) simp

lemma demo_saved: "\<exists>s'. save_info_item [] (replicate 8 0) (\<lambda>_. True) SSID_KEY_ITEM demo_ptrs demo_up = Inr (1, s')"
  using nor_device.save_info_item_run [OF nor_controller.axioms_dev [OF slow.nor_controller_axioms] demo_up_at _ demo_tbl demo_ptrs_ok
      demo_space demo_fits, of "replicate 8 0" "\<lambda>_. True"] by auto

theorem get_refines_witness:
  "\<exists>s'. get_info_item [] (replicate 8 0) IP_CONFIG_ITEM (Some (replicate 16 0), Some (replicate 16 0), Some (replicate 16 0)) demo_up
       = Inr (tlv_get None IP_CONFIG_ITEM (Some (replicate 16 0), Some (replicate 16 0), Some (replicate 16 0)), s')
     \<and> dev_at (flash_op (slow_env 2)) (flash_ready snd (\<lambda>h. fst h = 0)) [] 0 s'
     \<and> chip_mem snd (world s') = chip_mem snd (world demo_up)"
  by (rule get_refines [OF demo_net]) (simp_all add: get_bufs_ok_def buf_ok_def)

theorem save_then_get_witness:
  "\<exists>s' s''. save_info_item [] (replicate 8 0) (\<lambda>_. True) SSID_KEY_ITEM demo_ptrs demo_up = Inr (1, s')
     \<and> get_info_item [] (replicate 8 0) SSID_KEY_ITEM (Some (replicate 32 0), Some (replicate 64 0), None) s'
     = Inr ((1, Some (take 32 (replicate 32 0x61)), Some (take 64 (replicate 64 0x62)), None), s'')"
proof -
  from demo_saved obtain s' where
    s': "save_info_item [] (replicate 8 0) (\<lambda>_. True) SSID_KEY_ITEM demo_ptrs demo_up = Inr (1, s')" by blast
  from save_then_get [OF demo_net _ _ demo_space demo_fits s', of "replicate 32 0" "replicate 64 0"] s'
  show ?thesis by auto
qed


context nor_device
begin

text \<open>The item at \<open>a\<close> is not the one looked for and its length leads back to \<open>a\<close>.\<close>

definition stuck :: "string \<Rightarrow> nat \<Rightarrow> u32 \<Rightarrow> u32 \<Rightarrow> u32 \<Rightarrow> u8 list \<Rightarrow> ('w, u32) drv_st \<Rightarrow> bool" where
  "stuck mem0 d t a e head s \<longleftrightarrow> flash_at mem0 d s \<and> length head = 8 \<and> a < e \<and> unat a + 8 \<le> 2 ^ 24 \<and>
     head_type (mslice (mem (world s)) (unat a) 8) \<noteq> t \<and> head_len (mslice (mem (world s)) (unat a) 8) = 0xFFFFFFF8"

lemma stuck_step:
  assumes "stuck mem0 d t a e head s"
  shows "\<exists>s'. read_into (ddev_make_handle (of_nat d)) head 8 a s = Inr (mslice (mem (world s)) (unat a) 8, s')
     \<and> stuck mem0 d t a e (mslice (mem (world s)) (unat a) 8) s'"
proof -
  have st: "flash_at mem0 d s" "unat (8 :: u32) \<le> length head" "unat a + unat (8 :: u32) \<le> 2 ^ 24" "length head = 8"
    using assms by (auto simp: stuck_def)
  from read_into_run [OF st(1-3)] st(4) assms show ?thesis by (auto simp: stuck_def keeps_def)
qed

lemma item_loop_stuck:
  assumes "item_loop h t a e head s = Some y" and "h = ddev_make_handle (of_nat d)"
  shows "\<not> stuck mem0 d t a e head s"
proof -
  have "h = ddev_make_handle (of_nat d) \<longrightarrow> \<not> stuck mem0 d t a e head s"
  proof (rule item_loop.raw_induct [OF _ assms(1)], intro impI notI)
    fix loop :: "u32 \<Rightarrow> u32 \<Rightarrow> u32 \<Rightarrow> u32 \<Rightarrow> u8 list \<Rightarrow> ('w, u32) drv_st \<Rightarrow> (fault + u32 \<times> ('w, u32) drv_st) option"
    fix h t a e head s y
    assume IH: "\<And>h t a e head s y. loop h t a e head s = Some y \<Longrightarrow> h = ddev_make_handle (of_nat d) \<longrightarrow> \<not> stuck mem0 d t a e head s"
      and body: "(if a < e then case read_into h head 8 a s of Inl e \<Rightarrow> Some (Inl e)
         | Inr r \<Rightarrow> if t \<noteq> head_type (fst r) then loop h t (a + 8 + head_len (fst r)) e (fst r) (snd r) else Some (Inr (a, snd r))
        else Some (Inr (a, s))) = Some y"
      and h: "h = ddev_make_handle (of_nat d)" and st: "stuck mem0 d t a e head s"
    have z: "(4294967296 :: u32) + a = a" by simp
    from stuck_step [OF st] obtain s' where
      "read_into h head 8 a s = Inr (mslice (mem (world s)) (unat a) 8, s')"
      "stuck mem0 d t a e (mslice (mem (world s)) (unat a) 8) s'" unfolding h by blast
    with body st IH [of h t a e "mslice (mem (world s)) (unat a) 8" s' y] h show False by (auto simp: stuck_def z)
  qed
  then show ?thesis using assms(2) by simp
qed

lemma search_stuck:
  assumes "flash_at mem0 d s" and "length junk = 8"
    and "\<not> 0x1e1008 + head_len (mslice (mem (world s)) 0x1e1000 8) \<le> 0x1e1008"
    and "head_type (mslice (mem (world s)) 0x1e1008 8) \<noteq> t" and "head_len (mslice (mem (world s)) 0x1e1008 8) = 0xFFFFFFF8"
  shows "search_info_item mem0 junk t 0x1e1000 s = Inl Busy_Hang"
proof -
  let ?h = "ddev_make_handle (of_nat d)" and ?m = "mem (world s)"
  from open_keeps [OF assms(1)] obtain st s1 where
    s1: "ddev_open mem0 (Some FLASH_DEV_NAME) True 0 s = Inr ((?h, Some st), s1)" "keeps mem0 d s s1" by blast
  from read_into_run [OF keepsD(1) [OF s1(2)], where n = 8 and buf = junk and a = "0x1e1000"] assms(2) keepsD(2) [OF s1(2)]
  obtain s2 where s2: "read_into ?h junk 8 0x1e1000 s1 = Inr (mslice ?m 0x1e1000 8, s2)" "keeps mem0 d s1 s2" by auto
  let ?e = "0x1e1008 + head_len (mslice ?m 0x1e1000 8)"
  have k: "flash_at mem0 d s2" "mem (world s2) = ?m" using keeps_trans [OF s1(2) s2(2)] by (simp_all add: keeps_def)
  then have "stuck mem0 d t 0x1e1008 ?e (mslice ?m 0x1e1000 8) s2" using assms(3-5) by (simp add: stuck_def not_le)
  then have "item_loop ?h t 0x1e1008 ?e (mslice ?m 0x1e1000 8) s2 = None"
    using item_loop_stuck [of ?h t "0x1e1008" ?e "mslice ?m 0x1e1000 8" s2 _ d mem0]
    by (cases "item_loop ?h t 0x1e1008 ?e (mslice ?m 0x1e1000 8) s2") auto
  then show ?thesis using s1(1) s2(1) by (simp add: search_info_item_def Let_def bindM_def)
qed

end

text \<open>
  a corrupt table hangs the search. If the first item of a table is not the one
  looked for and its length field is \<open>0xFFFFFFF8\<close>, the address computed for the next
  item is the address of the item itself and the search never returns.
\<close>

theorem corrupt_table_hangs:
  assumes "nor_controller env chip idle" and "dev_at (flash_op env) (flash_ready chip idle) mem0 d s" and "length junk = 8"
    and "\<not> 0x1e1008 + head_len (mslice (chip_mem chip (world s)) 0x1e1000 8) \<le> 0x1e1008"
    and "head_type (mslice (chip_mem chip (world s)) 0x1e1008 8) \<noteq> item"
    and "head_len (mslice (chip_mem chip (world s)) 0x1e1008 8) = 0xFFFFFFF8"
  shows "search_info_item mem0 junk item 0x1e1000 s = Inl Busy_Hang"
  by (rule nor_device.search_stuck [OF nor_controller.axioms_dev [OF assms(1)] assms(2-6)])

definition bad_up :: "((nat \<times> nor_chip) flash_st, u32) drv_st" where
  "bad_up = demo_up\<lparr>world := demo_flash\<lparr>hw := (0, demo_chip\<lparr>nc_mem := mstore (\<lambda>_. 0xFF) 0x1e1000
     (u32_bytes INFO_TLV_HEADER @ u32_bytes 16 @ u32_bytes WIFI_MODE_ITEM @ u32_bytes 0xFFFFFFF8)\<rparr>)\<rparr>\<rparr>"

lemma bad_up_mem: "chip_mem snd (world bad_up) = mstore (\<lambda>_. 0xFF) 0x1e1000
     (u32_bytes INFO_TLV_HEADER @ u32_bytes 16 @ u32_bytes WIFI_MODE_ITEM @ u32_bytes 0xFFFFFFF8)"
  by (simp add: chip_mem_def bad_up_def)

lemma bad_up_at: "dev_at (flash_op (slow_env 2)) (flash_ready snd (\<lambda>h. fst h = 0)) [] 0 bad_up"
proof -
  have "finds [] FLASH_DEV_NAME bad_up 0" using demo_up_at by (simp add: dev_at_def finds_def bad_up_def)
  moreover have "flash_ready snd (\<lambda>h. fst h = 0) (world bad_up)"
    using demo_part_ok by (simp add: flash_ready_def bad_up_def part_ok_def)
  ultimately show ?thesis using demo_up_at by (simp add: dev_at_def bad_up_def)
qed

theorem corrupt_table_hangs_witness: "search_info_item [] (replicate 8 0) SSID_KEY_ITEM 0x1e1000 bad_up = Inl Busy_Hang"
proof (rule corrupt_table_hangs [OF slow.nor_controller_axioms bad_up_at])
  have "mslice (chip_mem snd (world bad_up)) 0x1e1000 8 = u32_bytes INFO_TLV_HEADER @ u32_bytes 16"
    "mslice (chip_mem snd (world bad_up)) 0x1e1008 8 = u32_bytes WIFI_MODE_ITEM @ u32_bytes 0xFFFFFFF8"
    unfolding bad_up_mem by (simp_all add: mslice_mstore_within)
  then show "\<not> 0x1e1008 + head_len (mslice (chip_mem snd (world bad_up)) 0x1e1000 8) \<le> 0x1e1008"
    "head_type (mslice (chip_mem snd (world bad_up)) 0x1e1008 8) \<noteq> SSID_KEY_ITEM"
    "head_len (mslice (chip_mem snd (world bad_up)) 0x1e1008 8) = 0xFFFFFFF8" by simp_all
qed simp

end
