(* ===== verification/Flash_Stream.thy ===== *)
theory Flash_Stream
  imports Flash_Chip
begin

text \<open>
  Writing a stream to flash in blocks of 1024 bytes, each sector erased when its first block
  arrives: what a block does to the contents. Both download paths, over HTTP and over TFTP,
  write this way.
\<close>

text \<open>The bytes from \<open>a\<close> to the end of its sector are erased, if \<open>a\<close> is inside the sector.\<close>

definition erased_tail :: "(nat \<Rightarrow> u8) \<Rightarrow> nat \<Rightarrow> bool" where
  "erased_tail m a \<longleftrightarrow> (a mod 4096 \<noteq> 0 \<longrightarrow> (\<forall>i. a \<le> i \<and> i div 4096 = a div 4096 \<longrightarrow> m i = 0xFF))"

text \<open>The memory after the erase at a sector boundary, and after the write.\<close>

definition at_sector :: "(nat \<Rightarrow> u8) \<Rightarrow> nat \<Rightarrow> nat \<Rightarrow> u8" where
  "at_sector m a = (if a mod 4096 = 0 then sector_erase (\<lambda>_. False) m a else m)"

definition block_write :: "(nat \<Rightarrow> u8) \<Rightarrow> nat \<Rightarrow> u8 list \<Rightarrow> nat \<Rightarrow> u8" where
  "block_write m a bs = page_program (\<lambda>_. False) (at_sector m a) a bs"

lemma and_FF: "(0xFF :: u8) AND x = x"
proof -
  have "(0xFF :: u8) = - 1" by simp
  then show ?thesis by (simp only: and.left_neutral)
qed

lemma at_sector_outside: "a mod 4096 = 0 \<Longrightarrow> i < a \<or> a + 4096 \<le> i \<Longrightarrow> at_sector m a i = m i"
  by (auto simp: at_sector_def sector_erase_def)

lemma at_sector_below: "i < a \<Longrightarrow> at_sector m a i = m i"
  using at_sector_outside [of a i m] by (auto simp: at_sector_def)

lemma at_sector_tail: "erased_tail m a \<Longrightarrow> a \<le> i \<Longrightarrow> i div 4096 = a div 4096 \<Longrightarrow> at_sector m a i = 0xFF"
  by (auto simp: at_sector_def sector_erase_def erased_tail_def)

text \<open>A sector holds four blocks: the block at \<open>a\<close> lies in the sector of \<open>a\<close>.\<close>

lemma block_sector:
  assumes "a mod 1024 = (0::nat)"
  shows "a div 4096 * 4096 \<le> a" and "a + 1024 \<le> (a div 4096 + 1) * 4096"
proof -
  obtain k where k: "a = 1024 * k" using assms by auto
  have "a div 4096 = k div 4" unfolding k using div_mult_mult1 [of 1024 k 4] by simp
  moreover have "k + 1 \<le> (k div 4 + 1) * 4" by presburger
  ultimately show "a div 4096 * 4096 \<le> a" "a + 1024 \<le> (a div 4096 + 1) * 4096" using k by simp_all
qed

lemma same_sector:
  assumes "a mod 1024 = 0" and "a \<le> i" and "i < a + 1024"
  shows "i div 4096 = (a::nat) div 4096"
  by (rule div_nat_eqI) (use assms block_sector [OF assms(1)] in simp_all)

lemma block_write_within:
  assumes "a mod 1024 = 0" and "length bs \<le> 1024" and "erased_tail m a"
  shows "mslice (block_write m a bs) a (length bs) = bs"
proof (rule nth_equalityI)
  fix j assume "j < length (mslice (block_write m a bs) a (length bs))"
  then have j: "j < length bs" by simp
  then have "at_sector m a (a + j) = 0xFF"
    using assms(2) by (intro at_sector_tail assms(3) same_sector assms(1)) auto
  with j show "mslice (block_write m a bs) a (length bs) ! j = bs ! j"
    by (simp add: block_write_def page_program_def and_FF)
qed simp

lemma block_write_below: "i < a \<Longrightarrow> block_write m a bs i = m i"
  by (simp add: block_write_def page_program_def at_sector_below)

lemma block_write_above: "a + length bs \<le> i \<Longrightarrow> block_write m a bs i = at_sector m a i"
  by (simp add: block_write_def page_program_def)

lemma sector_stop:
  assumes "(a::nat) < e" and "e mod 4096 = 0" and "a mod 4096 = 0"
  shows "a + 4096 \<le> e"
proof -
  obtain k where k: "e = 4096 * k" using assms(2) by auto
  obtain j where j: "a = 4096 * j" using assms(3) by auto
  have "j < k" using assms(1) k j by simp
  then show ?thesis using k j by simp
qed

lemma at_sector_stop: "a < e \<Longrightarrow> e mod 4096 = 0 \<Longrightarrow> e \<le> i \<Longrightarrow> at_sector m a i = m i"
  using sector_stop [of a e] at_sector_outside [of a i m] by (cases "a mod 4096 = 0") (auto simp: at_sector_def)

lemma block_write_stop:
  "a < e \<Longrightarrow> e mod 4096 = 0 \<Longrightarrow> a + length bs \<le> e \<Longrightarrow> e \<le> i \<Longrightarrow> block_write m a bs i = m i"
  by (simp add: block_write_above at_sector_stop)

lemma block_write_tail:
  assumes "a mod 1024 = 0" and "length bs = 1024" and "erased_tail m a"
  shows "erased_tail (block_write m a bs) (a + 1024)"
  unfolding erased_tail_def
proof (intro impI allI, elim conjE)
  fix i assume n: "(a + 1024) mod 4096 \<noteq> 0" and i: "a + 1024 \<le> i" "i div 4096 = (a + 1024) div 4096"
  have "a + 1024 \<noteq> (a div 4096 + 1) * 4096" using n mod_mult_self2_is_0 by metis
  then have "(a + 1024) div 4096 = a div 4096"
    using block_sector [OF assms(1)] by (intro div_nat_eqI) simp_all
  with i assms(2,3) show "block_write m a bs i = 0xFF" by (simp add: block_write_above at_sector_tail)
qed

end
