(* ===== verification/Http_Ota.thy ===== *)
theory Http_Ota
  imports Bk_Flash Flash_Stream
begin

text \<open>
  The download side of the over-the-air update, \<^verbatim>\<open>app/http/utils_httpc.c\<close> as configured
  (\<^verbatim>\<open>HTTP_WR_TO_FLASH\<close>, no \<^verbatim>\<open>CFG_SUPPORT_OTA_TFTP\<close>): the received pages are collected in
  a buffer of 1024 bytes and each full buffer is written to the OTA partition through
  the flash device. Disabling interrupts and printing are left out; the check of the
  bytes read back only prints.
\<close>

abbreviation (input) HTTP_FLASH_WR_BUF_MAX :: nat where "HTTP_FLASH_WR_BUF_MAX \<equiv> 1024"

text \<open>\<^verbatim>\<open>HTTP_DATA_ST\<close>: an allocated buffer is its contents, a NULL pointer is \<open>None\<close>.\<close>

record http_data_st =
  http_total :: u32
  do_data :: u8
  wr_buf :: "u8 list option"
  wr_tmp_buf :: "u8 list option"
  wr_last_len :: u16
  flash_address :: u32
  pt :: "bk_logic_partition_t option"
  flash_hdl :: u32

definition zero_http :: http_data_st where
  "zero_http = \<lparr>http_total = 0, do_data = 0, wr_buf = None, wr_tmp_buf = None, wr_last_len = 0,
     flash_address = 0, pt = None, flash_hdl = 0\<rparr>"

text \<open>The variables \<^verbatim>\<open>bk_http\<close> and \<^verbatim>\<open>ota_wr_block\<close> beside the device table.\<close>

record 'w http_st =
  drv :: "('w, u32) drv_st"
  bk_http :: http_data_st
  ota_wr_block :: u32

definition in_drv :: "(('w, u32) drv_st, 'a) prog \<Rightarrow> ('w http_st, 'a) prog" where
  "in_drv m = (\<lambda>s. case m (drv s) of Inl e \<Rightarrow> Inl e | Inr (a, d) \<Rightarrow> Inr (a, s\<lparr>drv := d\<rparr>))"

definition upd_http :: "(http_data_st \<Rightarrow> http_data_st) \<Rightarrow> ('w http_st, unit) prog" where
  "upd_http f = modM (\<lambda>s. s\<lparr>bk_http := f (bk_http s)\<rparr>)"

text \<open>Copying \<open>bs\<close> to offset \<open>k\<close> of a buffer, and reading into the front of one.\<close>

definition http_memcpy :: "u8 list option \<Rightarrow> nat \<Rightarrow> u8 list \<Rightarrow> ('s, u8 list) prog" where
  "http_memcpy dst k bs =
     (case dst of None \<Rightarrow> failM Null_Deref
      | Some buf \<Rightarrow> if k + length bs \<le> length buf then retM (take k buf @ bs @ drop (k + length bs) buf)
                    else failM Bad_Index)"

definition http_flash_wr :: "u8 list \<Rightarrow> u32 \<Rightarrow> ('w http_st, unit) prog" where
  "http_flash_wr src len =
    bindM (getM bk_http) (\<lambda>h.
      thenM (whenM (flash_address h mod 0x1000 = 0)
        (thenM (in_drv (ddev_control (flash_hdl h) CMD_FLASH_ERASE_SECTOR (flash_address h))) (retM ())))
     (case pt h of None \<Rightarrow> failM Null_Deref
      | Some p \<Rightarrow>
        whenM (flash_address h \<ge> partition_start_addr p
            \<and> flash_address h + len < partition_start_addr p + partition_length p)
         (thenM (in_drv (ddev_write (flash_hdl h) src len (flash_address h)))
         (thenM (case wr_tmp_buf h of None \<Rightarrow> retM ()
                 | Some tmp \<Rightarrow>
                   if unat len \<le> length tmp then
                     bindM (in_drv (ddev_read (flash_hdl h) tmp len (flash_address h))) (\<lambda>(_, tmp').
                       upd_http (wr_tmp_buf_update (\<lambda>_. Some tmp')))
                   else failM Bad_Index)
           (upd_http (\<lambda>h. h\<lparr>flash_address := flash_address h + len\<rparr>))))))"

text \<open>\<open>m1\<close> and \<open>m2\<close> are the results of the two allocations.\<close>

definition http_flash_init :: "string \<Rightarrow> u8 list option \<Rightarrow> u8 list option \<Rightarrow> ('w http_st, unit) prog" where
  "http_flash_init mem0 m1 m2 =
     thenM (upd_http (\<lambda>h. h\<lparr>wr_buf := None, wr_tmp_buf := None\<rparr>))
    (thenM (upd_http (\<lambda>h. if wr_buf h = None then h\<lparr>wr_buf := m1\<rparr> else h))
    (thenM (upd_http (\<lambda>h. if wr_tmp_buf h = None then h\<lparr>wr_tmp_buf := m2\<rparr> else h))
    (bindM (bk_flash_get_info BK_PARTITION_OTA) (\<lambda>info.
       thenM (upd_http (\<lambda>h. h\<lparr>pt := info\<rparr>))
      (bindM (in_drv (ddev_open mem0 (Some FLASH_DEV_NAME) True 0)) (\<lambda>(hdl, _).
         thenM (upd_http (\<lambda>h. h\<lparr>flash_hdl := hdl\<rparr>))
        (thenM (assertM (DD_HANDLE_UNVALID \<noteq> hdl))
        (thenM (upd_http (\<lambda>h. h\<lparr>wr_last_len := 0\<rparr>))
        (thenM (modM (\<lambda>s. s\<lparr>ota_wr_block := 0\<rparr>))
        (case info of None \<Rightarrow> failM Null_Deref
         | Some p \<Rightarrow>
           thenM (upd_http (\<lambda>h. h\<lparr>flash_address := partition_start_addr p\<rparr>))
          (thenM (in_drv (bk_flash_enable_security mem0 FLASH_PROTECT_NONE)) (retM ()))))))))))))"

definition http_flash_deinit :: "string \<Rightarrow> ('w http_st, unit) prog" where
  "http_flash_deinit mem0 =
     thenM (upd_http (\<lambda>_. zero_http))
    (thenM (modM (\<lambda>s. s\<lparr>ota_wr_block := 0\<rparr>))
    (bindM (getM (\<lambda>s. flash_hdl (bk_http s))) (\<lambda>hdl.
       thenM (in_drv (ddev_close hdl))
      (thenM (in_drv (bk_flash_enable_security mem0 FLASH_UNPROTECT_LAST_BLOCK)) (retM ())))))"

text \<open>
  The loop of \<^verbatim>\<open>http_wr_to_flash\<close> from index \<open>i\<close>. A round moves at least one byte unless
  the buffer is full when it starts, and the buffer is empty after such a round: \<open>len + 2\<close>
  rounds are enough, which the properties below include.
\<close>

definition flush_full :: "('w http_st, unit) prog" where
  "flush_full =
     bindM (getM bk_http) (\<lambda>h.
       whenM (wr_last_len h \<ge> of_nat HTTP_FLASH_WR_BUF_MAX)
        (case wr_buf h of None \<Rightarrow> failM Null_Deref
         | Some buf \<Rightarrow> thenM (http_flash_wr buf (of_nat HTTP_FLASH_WR_BUF_MAX))
                         (upd_http (\<lambda>h. h\<lparr>wr_last_len := 0\<rparr>))))"

primrec wr_loop :: "nat \<Rightarrow> u8 list \<Rightarrow> u32 \<Rightarrow> u32 \<Rightarrow> ('w http_st, unit) prog" where
  "wr_loop 0 page len i = (if i < len then failM Busy_Hang else retM ())"
| "wr_loop (Suc fuel) page len i =
    (if i < len then
       bindM (getM bk_http) (\<lambda>h.
         let w_l = min (len - i) (of_nat HTTP_FLASH_WR_BUF_MAX - ucast (wr_last_len h)) in
         if unat i + unat w_l \<le> length page then
           bindM (http_memcpy (wr_buf h) (unat (wr_last_len h)) (take (unat w_l) (drop (unat i) page))) (\<lambda>buf.
             thenM (upd_http (\<lambda>h. h\<lparr>wr_buf := Some buf\<rparr>))
            (thenM (upd_http (\<lambda>h. h\<lparr>wr_last_len := wr_last_len h + ucast w_l\<rparr>))
            (thenM flush_full (wr_loop fuel page len (i + w_l)))))
         else failM Bad_Index)
     else retM ())"

definition http_wr_to_flash :: "u8 list \<Rightarrow> u32 \<Rightarrow> ('w http_st, unit) prog" where
  "http_wr_to_flash page len = wr_loop (unat len + 2) page len 0"

definition http_data_process :: "u8 list \<Rightarrow> u32 \<Rightarrow> ('w http_st, unit) prog" where
  "http_data_process buf len = http_wr_to_flash buf len"

text \<open>
  What \<^verbatim>\<open>httpclient_retrieve_content\<close> does when the body is complete: the rest of the
  buffer is written and the download is closed.
\<close>

definition http_finish :: "string \<Rightarrow> ('w http_st, unit) prog" where
  "http_finish mem0 =
     bindM (getM bk_http) (\<lambda>h.
       thenM (case wr_buf h of
           None \<Rightarrow> if wr_last_len h = 0 then http_flash_wr [] 0 else failM Null_Deref
         | Some buf \<Rightarrow> http_flash_wr buf (ucast (wr_last_len h)))
         (http_flash_deinit mem0))"

section \<open>The buffer as a stream of bytes\<close>

text \<open>
  The reference for the buffering loop: one byte at a time, written out when the buffer
  is full.
\<close>

definition put_byte :: "u8 \<Rightarrow> ('w http_st, unit) prog" where
  "put_byte b =
     bindM (getM bk_http) (\<lambda>h. case wr_buf h of None \<Rightarrow> failM Null_Deref
       | Some buf \<Rightarrow> thenM (upd_http (\<lambda>h. h\<lparr>wr_buf := Some (buf[unat (wr_last_len h) := b]),
                                            wr_last_len := wr_last_len h + 1\<rparr>)) flush_full)"

definition buf_ok :: "'w http_st \<Rightarrow> bool" where
  "buf_ok s \<longleftrightarrow> wr_last_len (bk_http s) < 1024 \<and>
     (case wr_buf (bk_http s) of None \<Rightarrow> False | Some buf \<Rightarrow> length buf = 1024)"

text \<open>The state after \<open>bs\<close> has been copied to the end of the buffered bytes.\<close>

definition buffered :: "u8 list \<Rightarrow> 'w http_st \<Rightarrow> 'w http_st" where
  "buffered bs s = s\<lparr>bk_http := (bk_http s)\<lparr>
     wr_buf := map_option (\<lambda>buf. take (unat (wr_last_len (bk_http s))) buf @ bs
       @ drop (unat (wr_last_len (bk_http s)) + length bs) buf) (wr_buf (bk_http s)),
     wr_last_len := wr_last_len (bk_http s) + of_nat (length bs)\<rparr>\<rparr>"

lemma upd_http_run [simp, prog_simps]: "upd_http f s = Inr ((), s\<lparr>bk_http := f (bk_http s)\<rparr>)"
  by (simp add: upd_http_def)

lemma in_drv_Inr: "in_drv m s = Inr (a, s') \<longleftrightarrow> (\<exists>d. m (drv s) = Inr (a, d) \<and> s' = s\<lparr>drv := d\<rparr>)"
  by (auto simp: in_drv_def split: sum.splits)

lemma in_drv_run: "m (drv s) = Inr (a, d) \<Longrightarrow> in_drv m s = Inr (a, s\<lparr>drv := d\<rparr>)"
  by (simp add: in_drv_def)

lemma frame_in_drv [frame_intros]: "(\<And>s d. f (s\<lparr>drv := d\<rparr>) = f s) \<Longrightarrow> frame f (in_drv m)"
  by (auto simp: frame_def in_drv_Inr)

lemma frame_upd_http [frame_intros]: "(\<And>s. f (s\<lparr>bk_http := g (bk_http s)\<rparr>) = f s) \<Longrightarrow> frame f (upd_http g)"
  unfolding upd_http_def by (rule frame_modM)

text \<open>Writing to the flash moves the address and leaves the buffer, the partition and the handle alone.\<close>

definition http_rest :: "'w http_st \<Rightarrow> u8 list option \<times> u16 \<times> bk_logic_partition_t option \<times> u32" where
  "http_rest s = (wr_buf (bk_http s), wr_last_len (bk_http s), pt (bk_http s), flash_hdl (bk_http s))"

lemma http_flash_wr_frame: "frame http_rest (http_flash_wr src len)"
  unfolding http_flash_wr_def by (intro frame_intros) (auto simp: http_rest_def)

lemma flush_full_buf_ok:
  assumes "flush_full s = Inr (u, s')" and "wr_buf (bk_http s) = Some buf" and "length buf = 1024"
  shows "buf_ok s'"
  using assms by (auto simp: flush_full_def bindM_eq_Inr thenM_eq_Inr buf_ok_def not_le http_rest_def
      dest!: frameD [OF http_flash_wr_frame] split: if_splits)

lemma put_byte_buf_ok: "put_byte b s = Inr (u, s') \<Longrightarrow> buf_ok s \<Longrightarrow> buf_ok s'"
  by (auto simp: put_byte_def bindM_eq_Inr thenM_eq_Inr buf_ok_def [of s] intro: flush_full_buf_ok split: option.splits)

lemma put_bytes_buf_ok: "forM bs put_byte s = Inr (u, s') \<Longrightarrow> buf_ok s \<Longrightarrow> buf_ok s'"
  by (induction bs arbitrary: s) (auto simp: thenM_eq_Inr intro: put_byte_buf_ok)

lemma flush_full_idle: "wr_last_len (bk_http s) < 1024 \<Longrightarrow> flush_full s = Inr ((), s)"
  by (auto simp: flush_full_def)

lemma buffered_single:
  assumes "buf_ok s"
  shows "put_byte b s = flush_full (buffered [b] s)"
proof -
  from assms obtain buf where b: "wr_buf (bk_http s) = Some buf" "length buf = 1024"
    "unat (wr_last_len (bk_http s)) < 1024"
    by (auto simp: buf_ok_def word_less_nat_alt split: option.splits)
  then show ?thesis by (simp add: put_byte_def buffered_def upd_conv_take_nth_drop)
qed

lemma len_plus:
  assumes "unat (w::u16) + n \<le> 1024"
  shows "unat (w + of_nat n) = unat w + n"
  using assms by (simp add: unat_word_ariths unat_of_nat)

lemma buffered_ok:
  assumes "buf_ok s" and "unat (wr_last_len (bk_http s)) + length bs < 1024"
  shows "buf_ok (buffered bs s)"
  using assms len_plus [of "wr_last_len (bk_http s)" "length bs"]
  by (auto simp: buf_ok_def buffered_def word_less_nat_alt split: option.splits)

lemma buffered_buffered:
  assumes "buf_ok s" and "unat (wr_last_len (bk_http s)) + length bs + length cs \<le> 1024"
  shows "buffered cs (buffered bs s) = buffered (bs @ cs) s"
proof -
  have "unat (wr_last_len (bk_http s) + of_nat (length bs)) = unat (wr_last_len (bk_http s)) + length bs"
    using assms(2) by (intro len_plus) simp
  with assms show ?thesis
    by (cases "wr_buf (bk_http s)") (simp_all add: buffered_def buf_ok_def ac_simps)
qed

lemma put_bytes_block:
  assumes "buf_ok s" and "bs \<noteq> []" and "unat (wr_last_len (bk_http s)) + length bs \<le> 1024"
  shows "forM bs put_byte s = flush_full (buffered bs s)"
  using assms
proof (induction bs arbitrary: s)
  case Nil
  then show ?case by simp
next
  case (Cons b bs)
  show ?case
  proof (cases "bs = []")
    case True
    then show ?thesis using buffered_single [OF Cons.prems(1)] by (simp add: thenM_run split: sum.splits)
  next
    case False
    let ?s = "buffered [b] s"
    have lt: "unat (wr_last_len (bk_http s)) + length [b] < 1024" using Cons.prems(3) False by (cases bs) auto
    have ok: "buf_ok ?s" using Cons.prems(1) lt by (rule buffered_ok)
    have l: "unat (wr_last_len (bk_http ?s)) = unat (wr_last_len (bk_http s)) + 1"
      using lt len_plus [of "wr_last_len (bk_http s)" 1] by (simp add: buffered_def)
    have "put_byte b s = Inr ((), ?s)"
      using buffered_single [OF Cons.prems(1)] flush_full_idle [of ?s] ok by (simp add: buf_ok_def)
    with Cons.IH [OF ok False] l Cons.prems(3) buffered_buffered [OF Cons.prems(1), of "[b]" bs]
    show ?thesis by simp
  qed
qed

lemma flush_buffered_ok:
  assumes "flush_full (buffered bs s) = Inr (u, t)" and "buf_ok s" and "unat (wr_last_len (bk_http s)) + length bs \<le> 1024"
  shows "buf_ok t"
proof -
  from assms(2) obtain buf where "wr_buf (bk_http s) = Some buf" "length buf = 1024"
    by (auto simp: buf_ok_def split: option.splits)
  then have "\<exists>buf. wr_buf (bk_http (buffered bs s)) = Some buf \<and> length buf = 1024"
    using assms(3) by (simp add: buffered_def)
  with flush_full_buf_ok [OF assms(1)] show ?thesis by blast
qed

lemma wr_loop_bytes:
  assumes "buf_ok s" and "unat len \<le> length page" and "unat len - unat i \<le> fuel"
  shows "wr_loop fuel page len i s = forM (take (unat len - unat i) (drop (unat i) page)) put_byte s"
  using assms
proof (induction fuel arbitrary: s i)
  case 0
  then show ?case by (simp add: word_less_nat_alt)
next
  case (Suc fuel)
  show ?case
  proof (cases "i < len")
    case False
    then show ?thesis by (simp add: word_less_nat_alt)
  next
    case True
    let ?l = "unat (wr_last_len (bk_http s))" and ?n = "unat len - unat i"
    define w where "w = min (len - i) (of_nat HTTP_FLASH_WR_BUF_MAX - ucast (wr_last_len (bk_http s)))"
    from Suc.prems(1) obtain buf where b: "wr_buf (bk_http s) = Some buf" "length buf = 1024" and l: "?l < 1024"
      by (auto simp: buf_ok_def word_less_nat_alt split: option.splits)
    have d: "unat (len - i) = ?n" using True by (simp add: unat_sub word_less_nat_alt word_le_nat_alt)
    have "unat (1024 - ucast (wr_last_len (bk_http s)) :: u32) = 1024 - ?l"
      using l by (simp add: unat_sub word_le_nat_alt unsigned_ucast_eq take_bit_nat_eq_self)
    with d have w: "unat w = min ?n (1024 - ?l)" unfolding w_def by (simp add: min_def word_le_nat_alt)
    define bs where "bs = take (unat w) (drop (unat i) page)"
    have lb: "length bs = unat w" using Suc.prems(2) w by (simp add: bs_def)
    have w0: "0 < unat w" using w l True by (simp add: word_less_nat_alt)
    have bs: "bs \<noteq> []" using lb w0 by auto
    have i: "unat (i + w) = unat i + unat w" using w word_unat_less32 [of len] True
      by (simp add: unat_word_ariths word_less_nat_alt)
    have cw: "ucast w = (of_nat (length bs) :: u16)" unfolding lb by (simp add: of_nat_unat)
    have wd: "min (len - i) (1024 - ucast (wr_last_len (bk_http s))) = w" by (simp add: w_def)
    have pl: "unat i + unat w \<le> length page" using i w Suc.prems(2) True by (simp add: word_less_nat_alt)
    have rest: "unat len - unat (i + w) \<le> fuel" using Suc.prems(3) i w0 by linarith
    have n: "?n = unat w + (unat len - unat (i + w))" using w i by linarith
    have split: "take ?n (drop (unat i) page) = bs @ take (unat len - unat (i + w)) (drop (unat (i + w)) page)"
      unfolding n take_add bs_def i by (simp add: add.commute)
    have ln: "?l + length bs \<le> 1024" using lb w l by linarith
    have loop: "flush_full (buffered bs s) = Inr (u, t) \<Longrightarrow> wr_loop fuel page len (i + w) t
        = forM (take (unat len - unat (i + w)) (drop (unat (i + w)) page)) put_byte t" for t u
      by (intro Suc.IH Suc.prems(2) rest) (rule flush_buffered_ok [OF _ Suc.prems(1) ln])
    have "wr_loop (Suc fuel) page len i s = thenM flush_full (wr_loop fuel page len (i + w)) (buffered bs s)"
      using True b(1) ln cw wd pl b(2) by (simp add: bs_def [symmetric] http_memcpy_def buffered_def Let_def)
    also have "\<dots> = thenM flush_full (forM (take (unat len - unat (i + w)) (drop (unat (i + w)) page)) put_byte) (buffered bs s)"
      using loop by (auto simp: thenM_run split: sum.splits)
    also have "\<dots> = forM (take ?n (drop (unat i) page)) put_byte s"
      unfolding split forM_append using put_bytes_block [OF Suc.prems(1) bs ln] by (simp add: thenM_run)
    finally show ?thesis .
  qed
qed

lemma http_wr_to_flash_bytes:
  assumes "buf_ok s" and "unat len \<le> length page"
  shows "http_wr_to_flash page len s = forM (take (unat len) page) put_byte s"
  using wr_loop_bytes [OF assms, of 0 "unat len + 2"] by (simp add: http_wr_to_flash_def)

section \<open>The image in the partition\<close>

abbreviation OTA_START :: nat where "OTA_START \<equiv> 0x132000"
abbreviation OTA_LEN :: nat where "OTA_LEN \<equiv> 0xAE000"
abbreviation OTA_STOP :: nat where "OTA_STOP \<equiv> 0x1E0000"

lemma ota_partition [simp]:
  "partition_start_addr (bk7231_partitions ! BK_PARTITION_OTA) = of_nat OTA_START"
  "partition_length (bk7231_partitions ! BK_PARTITION_OTA) = of_nat OTA_LEN"
  by (simp_all add: bk7231_partitions_def partition_def)

context nor_device
begin

text \<open>The download is open on slot \<open>d\<close> and its next block goes to address \<open>a\<close>.\<close>

definition ota_up :: "string \<Rightarrow> nat \<Rightarrow> nat \<Rightarrow> 'w http_st \<Rightarrow> bool" where
  "ota_up mem0 d a s \<longleftrightarrow> flash_at mem0 d (drv s) \<and> prot (world (drv s)) = (\<lambda>_. False)
     \<and> OTA_STOP \<le> size (world (drv s)) \<and> unat (flash_address (bk_http s)) = a
     \<and> pt (bk_http s) = Some (bk7231_partitions ! BK_PARTITION_OTA)
     \<and> flash_hdl (bk_http s) = ddev_make_handle (of_nat d)
     \<and> (\<forall>tmp. wr_tmp_buf (bk_http s) = Some tmp \<longrightarrow> length tmp = 1024)"

abbreviation omem :: "'w http_st \<Rightarrow> nat \<Rightarrow> u8" where
  "omem s \<equiv> mem (world (drv s))"

lemma erase_step:
  assumes "ota_up mem0 d a s" and "a < OTA_STOP"
  shows "\<exists>s1. whenM (flash_address (bk_http s) mod 0x1000 = 0)
       (thenM (in_drv (ddev_control (flash_hdl (bk_http s)) CMD_FLASH_ERASE_SECTOR (flash_address (bk_http s)))) (retM ())) s
       = Inr ((), s1) \<and> ota_up mem0 d a s1 \<and> omem s1 = at_sector (omem s) a \<and> bk_http s1 = bk_http s"
proof (cases "a mod 4096 = 0")
  case True
  have m: "flash_address (bk_http s) mod 0x1000 = 0"
    using assms(1) True by (simp add: ota_up_def word_unat_eq_iff unat_mod)
  have "unat (flash_address (bk_http s)) < size (world (drv s))" using assms by (simp add: ota_up_def)
  with erase_flash [of mem0 d "drv s" "flash_address (bk_http s)"] assms(1) obtain t where
    "ddev_control (ddev_make_handle (of_nat d)) CMD_FLASH_ERASE_SECTOR (flash_address (bk_http s)) (drv s)
       = Inr ((FLASH_SUCCESS, flash_address (bk_http s)), t)"
    "flash_at mem0 d t" "mem (world t) = sector_erase (prot (world (drv s))) (omem s) a"
    "prot (world t) = prot (world (drv s))" "size (world t) = size (world (drv s))"
    by (auto simp: ota_up_def)
  with m assms(1) True show ?thesis by (simp add: in_drv_def ota_up_def at_sector_def)
next
  case False
  then have "flash_address (bk_http s) mod 0x1000 \<noteq> 0"
    using assms(1) by (simp add: ota_up_def word_unat_eq_iff unat_mod)
  with False assms(1) show ?thesis by (simp add: at_sector_def)
qed

lemma read_back_step:
  assumes "ota_up mem0 d a s" and "a + unat n \<le> OTA_STOP" and "unat n \<le> 1024"
  shows "\<exists>s1. (case wr_tmp_buf (bk_http s) of None \<Rightarrow> retM ()
        | Some tmp \<Rightarrow> if unat n \<le> length tmp then
            bindM (in_drv (ddev_read (flash_hdl (bk_http s)) tmp n (flash_address (bk_http s)))) (\<lambda>(_, tmp').
              upd_http (wr_tmp_buf_update (\<lambda>_. Some tmp')))
          else failM Bad_Index) s = Inr ((), s1) \<and> ota_up mem0 d a s1 \<and> omem s1 = omem s"
proof (cases "wr_tmp_buf (bk_http s)")
  case None
  with assms(1) show ?thesis by simp
next
  case (Some tmp)
  then have l: "length tmp = 1024" using assms(1) by (simp add: ota_up_def)
  have "unat (flash_address (bk_http s)) + unat n \<le> 2 ^ 24" using assms by (simp add: ota_up_def)
  with read_flash [of mem0 d "drv s" "flash_address (bk_http s)" n tmp] assms(1) obtain t where
    "ddev_read (ddev_make_handle (of_nat d)) tmp n (flash_address (bk_http s)) (drv s)
       = Inr ((FLASH_SUCCESS, mslice (omem s) a (unat n) @ drop (unat n) tmp), t)"
    "flash_at mem0 d t" "mem (world t) = omem s" "prot (world t) = prot (world (drv s))"
    "size (world t) = size (world (drv s))" by (auto simp: ota_up_def)
  with Some l assms show ?thesis by (simp add: in_drv_def ota_up_def)
qed

lemma write_step:
  assumes "ota_up mem0 d a s" and "a + unat n < OTA_STOP" and "unat n \<le> length src"
  shows "\<exists>s1. in_drv (ddev_write (flash_hdl (bk_http s)) src n (flash_address (bk_http s))) s = Inr (FLASH_SUCCESS, s1)
     \<and> ota_up mem0 d a s1 \<and> omem s1 = page_program (\<lambda>_. False) (omem s) a (take (unat n) src) \<and> bk_http s1 = bk_http s"
proof -
  have "a div 32 * 32 \<le> a" by simp
  then have "a div 32 * 32 < size (world (drv s))" "a div 32 * 32 + unat n \<le> size (world (drv s))"
    using assms(1,2) unfolding ota_up_def by linarith+
  with write_flash [of mem0 d "drv s" n src "flash_address (bk_http s)"] assms(1,3) obtain t where
    "ddev_write (ddev_make_handle (of_nat d)) src n (flash_address (bk_http s)) (drv s) = Inr (FLASH_SUCCESS, t)"
    "flash_at mem0 d t" "mem (world t) = page_program (prot (world (drv s))) (omem s) a (take (unat n) src)"
    "prot (world t) = prot (world (drv s))" "size (world t) = size (world (drv s))" by (auto simp: ota_up_def)
  with assms(1) show ?thesis by (simp add: in_drv_def ota_up_def)
qed

text \<open>One call of \<^verbatim>\<open>http_flash_wr\<close>: a block that does not fit only erases.\<close>

lemma http_flash_wr_run:
  assumes up: "ota_up mem0 d a s" and a: "OTA_START \<le> a" "a < OTA_STOP" and n: "unat n \<le> length src" "unat n \<le> 1024"
  shows "\<exists>s'. http_flash_wr src n s = Inr ((), s') \<and> http_rest s' = http_rest s
     \<and> (if a + unat n < OTA_STOP
        then ota_up mem0 d (a + unat n) s' \<and> omem s' = block_write (omem s) a (take (unat n) src)
        else ota_up mem0 d a s' \<and> omem s' = at_sector (omem s) a)"
proof -
  let ?h = "bk_http s"
  from erase_step [OF up a(2)] obtain s1 where s1: "whenM (flash_address ?h mod 0x1000 = 0)
       (thenM (in_drv (ddev_control (flash_hdl ?h) CMD_FLASH_ERASE_SECTOR (flash_address ?h))) (retM ())) s
       = Inr ((), s1)" "ota_up mem0 d a s1" "omem s1 = at_sector (omem s) a" "bk_http s1 = ?h" by blast
  have ua: "unat (flash_address ?h) = a" using up by (simp add: ota_up_def)
  have sum: "unat (flash_address ?h + n) = a + unat n" using ua a n by (simp add: unat_word_ariths)
  have pt: "pt ?h = Some (bk7231_partitions ! BK_PARTITION_OTA)" using up by (simp add: ota_up_def)
  have guard: "flash_address ?h \<ge> of_nat OTA_START \<and> flash_address ?h + n < of_nat OTA_START + of_nat OTA_LEN
      \<longleftrightarrow> a + unat n < OTA_STOP" using a(1) by (simp add: word_le_nat_alt word_less_nat_alt ua sum)
  show ?thesis
  proof (cases "a + unat n < OTA_STOP")
    case False
    then have run: "http_flash_wr src n s = Inr ((), s1)"
      using s1(1) pt guard by (auto simp: http_flash_wr_def)
    with False s1(2,3) frameD [OF http_flash_wr_frame run] show ?thesis by simp
  next
    case True
    from write_step [OF s1(2) True n(1)] s1(3,4) obtain s2 where
      s2: "in_drv (ddev_write (flash_hdl ?h) src n (flash_address ?h)) s1 = Inr (FLASH_SUCCESS, s2)"
        "ota_up mem0 d a s2" "omem s2 = block_write (omem s) a (take (unat n) src)" "bk_http s2 = ?h"
      by (auto simp: block_write_def)
    from read_back_step [OF s2(2) less_imp_le [OF True] n(2), unfolded s2(4)] obtain s3 where
      s3: "(case wr_tmp_buf ?h of None \<Rightarrow> retM ()
        | Some tmp \<Rightarrow> if unat n \<le> length tmp then
            bindM (in_drv (ddev_read (flash_hdl ?h) tmp n (flash_address ?h))) (\<lambda>(_, tmp').
              upd_http (wr_tmp_buf_update (\<lambda>_. Some tmp')))
          else failM Bad_Index) s2 = Inr ((), s3)" "ota_up mem0 d a s3" "omem s3 = omem s2" by blast
    let ?s = "s3\<lparr>bk_http := bk_http s3\<lparr>flash_address := flash_address (bk_http s3) + n\<rparr>\<rparr>"
    have run: "http_flash_wr src n s = Inr ((), ?s)"
      using s1(1) pt guard True s2(1) s3(1) by (simp add: http_flash_wr_def)
    have "unat (flash_address (bk_http s3) + n) = a + unat n"
      using s3(2) a n by (simp add: ota_up_def unat_word_ariths)
    with s3(2,3) s2(3) have "ota_up mem0 d (a + unat n) ?s" "omem ?s = block_write (omem s) a (take (unat n) src)"
      by (simp_all add: ota_up_def)
    with True run frameD [OF http_flash_wr_frame run] show ?thesis by auto
  qed
qed

end

lemma buffered_fields [simp]:
  "drv (buffered bs s) = drv s" "flash_address (bk_http (buffered bs s)) = flash_address (bk_http s)"
  "pt (bk_http (buffered bs s)) = pt (bk_http s)" "flash_hdl (bk_http (buffered bs s)) = flash_hdl (bk_http s)"
  "wr_tmp_buf (bk_http (buffered bs s)) = wr_tmp_buf (bk_http s)"
  by (simp_all add: buffered_def)

lemma buf_okE:
  assumes "buf_ok s"
  obtains buf where "wr_buf (bk_http s) = Some buf" "length buf = 1024" "unat (wr_last_len (bk_http s)) < 1024"
  using assms by (auto simp: buf_ok_def word_less_nat_alt split: option.splits)

text \<open>Length of the bytes already written out when \<open>n\<close> bytes have been received.\<close>

definition written_out :: "nat \<Rightarrow> nat" where
  "written_out n = n div 1024 * 1024"

lemma written_out_le: "written_out n \<le> n"
  by (simp add: written_out_def)

lemma written_out_rest: "n - written_out n = n mod 1024"
  by (simp add: written_out_def minus_div_mult_eq_mod)

lemma written_out_Suc:
  "Suc (n mod 1024) < 1024 \<Longrightarrow> written_out (Suc n) = written_out n"
  "Suc (n mod 1024) = 1024 \<Longrightarrow> written_out (Suc n) = Suc n" 
  "Suc (n mod 1024) = 1024 \<Longrightarrow> Suc n = written_out n + 1024"
  using mult_div_mod_eq [of 1024 n] by (auto simp: written_out_def div_Suc mod_Suc)

context nor_device
begin

lemma ota_up_buffered [simp]: "ota_up mem0 d a (buffered bs s) = ota_up mem0 d a s"
  by (simp add: ota_up_def)

text \<open>
  \<open>ota_safe\<close>: nothing outside the partition differs from \<open>m0\<close>. \<open>ota_image\<close>: moreover the
  received bytes \<open>bs\<close> are in the partition up to the last full block, and the rest of
  them is in the buffer.
\<close>

definition ota_safe :: "string \<Rightarrow> nat \<Rightarrow> (nat \<Rightarrow> u8) \<Rightarrow> nat \<Rightarrow> 'w http_st \<Rightarrow> bool" where
  "ota_safe mem0 d m0 a s \<longleftrightarrow> ota_up mem0 d a s \<and> buf_ok s \<and> OTA_START \<le> a \<and> a < OTA_STOP \<and> a mod 1024 = 0
     \<and> (\<forall>i. i < OTA_START \<or> OTA_STOP \<le> i \<longrightarrow> omem s i = m0 i)"

definition ota_image :: "string \<Rightarrow> nat \<Rightarrow> (nat \<Rightarrow> u8) \<Rightarrow> u8 list \<Rightarrow> 'w http_st \<Rightarrow> bool" where
  "ota_image mem0 d m0 bs s \<longleftrightarrow> ota_safe mem0 d m0 (OTA_START + written_out (length bs)) s
     \<and> mslice (omem s) OTA_START (written_out (length bs)) = take (written_out (length bs)) bs
     \<and> erased_tail (omem s) (OTA_START + written_out (length bs))
     \<and> unat (wr_last_len (bk_http s)) = length bs mod 1024
     \<and> take (length bs mod 1024) (the (wr_buf (bk_http s))) = drop (written_out (length bs)) bs"

lemma block_outside:
  assumes "OTA_START \<le> a" and "a < OTA_STOP" and "i < OTA_START \<or> OTA_STOP \<le> i"
  shows "at_sector m a i = m i" and "a + length bs \<le> OTA_STOP \<Longrightarrow> block_write m a bs i = m i"
  using assms at_sector_below [of i a m] at_sector_stop [of a OTA_STOP i m]
    block_write_below [of i a m bs] block_write_stop [of a OTA_STOP bs i m] by auto

text \<open>A full buffer is written out and emptied.\<close>

lemma flush_full_run:
  assumes up: "ota_up mem0 d a s" and a: "OTA_START \<le> a" "a < OTA_STOP"
    and b: "wr_buf (bk_http s) = Some buf" "length buf = 1024" "unat (wr_last_len (bk_http s)) = 1024"
  shows "\<exists>s'. flush_full s = Inr ((), s') \<and> wr_buf (bk_http s') = Some buf \<and> wr_last_len (bk_http s') = 0
     \<and> (if a + 1024 < OTA_STOP then ota_up mem0 d (a + 1024) s' \<and> omem s' = block_write (omem s) a buf
        else ota_up mem0 d a s' \<and> omem s' = at_sector (omem s) a)"
proof -
  have n: "unat (of_nat 1024 :: u32) = 1024" by simp
  from http_flash_wr_run [OF up a, of "of_nat 1024" buf, unfolded n] b(2) obtain s1 where
    s1: "http_flash_wr buf (of_nat 1024) s = Inr ((), s1)" "http_rest s1 = http_rest s"
      "if a + 1024 < OTA_STOP then ota_up mem0 d (a + 1024) s1 \<and> omem s1 = block_write (omem s) a buf
        else ota_up mem0 d a s1 \<and> omem s1 = at_sector (omem s) a"
    by auto
  have full: "1024 \<le> wr_last_len (bk_http s)" using b(3) by (simp add: word_le_nat_alt)
  let ?s = "s1\<lparr>bk_http := bk_http s1\<lparr>wr_last_len := 0\<rparr>\<rparr>"
  have "flush_full s = Inr ((), ?s)" using s1(1) full b(1) by (simp add: flush_full_def)
  moreover have "wr_buf (bk_http ?s) = Some buf" using s1(2) b(1) by (simp add: http_rest_def)
  moreover have "ota_up mem0 d x ?s = ota_up mem0 d x s1" for x by (simp add: ota_up_def)
  ultimately show ?thesis using s1(3) by auto
qed

lemma put_byte_safe:
  assumes "ota_safe mem0 d m0 a s"
  shows "\<exists>s' a'. put_byte b s = Inr ((), s') \<and> ota_safe mem0 d m0 a' s'"
proof -
  note s = assms [unfolded ota_safe_def]
  from s obtain buf where b: "wr_buf (bk_http s) = Some buf" "length buf = 1024" "unat (wr_last_len (bk_http s)) < 1024"
    by (blast elim: buf_okE)
  have p: "put_byte b s = flush_full (buffered [b] s)" using s by (intro buffered_single) blast
  show ?thesis
  proof (cases "Suc (unat (wr_last_len (bk_http s))) < 1024")
    case True
    have ok: "buf_ok (buffered [b] s)" using s True by (intro buffered_ok) auto
    then have "put_byte b s = Inr ((), buffered [b] s)" using p flush_full_idle [of "buffered [b] s"] by (simp add: buf_ok_def)
    with s ok show ?thesis by (auto simp: ota_safe_def)
  next
    case False
    with b len_plus [of "wr_last_len (bk_http s)" 1] have "unat (wr_last_len (bk_http (buffered [b] s))) = 1024"
      by (simp add: buffered_def)
    moreover obtain c where "wr_buf (bk_http (buffered [b] s)) = Some c" "length c = 1024"
      using b by (simp add: buffered_def)
    ultimately obtain s' where s': "flush_full (buffered [b] s) = Inr ((), s')" "wr_buf (bk_http s') = Some c"
      "wr_last_len (bk_http s') = 0" "if a + 1024 < OTA_STOP then ota_up mem0 d (a + 1024) s' \<and> omem s' = block_write (omem s) a c
        else ota_up mem0 d a s' \<and> omem s' = at_sector (omem s) a"
      using flush_full_run [of mem0 d a "buffered [b] s" c] s by auto
    have ok: "buf_ok s'" using s'(2,3) \<open>length c = 1024\<close> by (simp add: buf_ok_def)
    have "ota_safe mem0 d m0 (if a + 1024 < OTA_STOP then a + 1024 else a) s'"
      using s s'(4) ok block_outside(1) [of a _ "omem s"] block_outside(2) [where a = a and m = "omem s" and bs = c] \<open>length c = 1024\<close>
      by (auto simp: ota_safe_def split: if_splits)
    with p s'(1) show ?thesis by auto
  qed
qed

lemma put_bytes_safe:
  "ota_safe mem0 d m0 a s \<Longrightarrow> \<exists>s' a'. forM bs put_byte s = Inr ((), s') \<and> ota_safe mem0 d m0 a' s'"
proof (induction bs arbitrary: s a)
  case (Cons b bs)
  from put_byte_safe [OF Cons.prems] obtain s1 a1 where "put_byte b s = Inr ((), s1)" "ota_safe mem0 d m0 a1 s1" by blast
  with Cons.IH [of a1 s1] show ?case by auto
qed auto

end

context nor_device
begin

lemma put_byte_image:
  assumes img: "ota_image mem0 d m0 bs s" and fits: "Suc (length bs) < OTA_LEN"
  shows "\<exists>s'. put_byte b s = Inr ((), s') \<and> ota_image mem0 d m0 (bs @ [b]) s'"
proof -
  let ?n = "length bs" and ?L = "written_out (length bs)"
  note i = img [unfolded ota_image_def ota_safe_def]
  from i obtain buf where b: "wr_buf (bk_http s) = Some buf" "length buf = 1024" by (blast elim: buf_okE)
  have l: "unat (wr_last_len (bk_http s)) = ?n mod 1024" using i by blast
  have p: "put_byte b s = flush_full (buffered [b] s)" using i by (intro buffered_single) blast
  have r: "take (?n mod 1024) buf = drop ?L bs" using i b by simp
  have ul: "unat (wr_last_len (bk_http (buffered [b] s))) = Suc (?n mod 1024)"
    using len_plus [of "wr_last_len (bk_http s)" 1] l by (simp add: buffered_def Suc_le_eq)
  define c where "c = drop ?L bs @ [b] @ drop (Suc (?n mod 1024)) buf"
  have c: "wr_buf (bk_http (buffered [b] s)) = Some c" using b l r by (simp add: buffered_def c_def)
  have lc: "length c = 1024" using b(2) written_out_rest [of ?n] by (simp add: c_def Suc_le_eq)
  show ?thesis
  proof (cases "Suc (?n mod 1024) < 1024")
    case True
    have ok: "buf_ok (buffered [b] s)" using i True l by (intro buffered_ok) auto
    then have q: "put_byte b s = Inr ((), buffered [b] s)"
      using p flush_full_idle [of "buffered [b] s"] by (simp add: buf_ok_def)
    have m: "Suc ?n mod 1024 = Suc (?n mod 1024)" using True by (simp add: mod_Suc)
    have "ota_image mem0 d m0 (bs @ [b]) (buffered [b] s)"
      using i ok ul m c written_out_le [of ?n] written_out_rest [of ?n] written_out_Suc(1) [OF True]
      by (simp add: ota_image_def ota_safe_def c_def)
    with q show ?thesis by blast
  next
    case False
    then have full: "Suc (?n mod 1024) = 1024" using mod_less_divisor [of 1024 ?n] by linarith
    note w = written_out_Suc(2,3) [OF full]
    have cb: "c = drop ?L bs @ [b]" using full b(2) by (simp add: c_def)
    have f: "OTA_START + ?L + 1024 < OTA_STOP" using fits w(2) by linarith
    from flush_full_run [of mem0 d "OTA_START + ?L" "buffered [b] s" c] i c lc ul full f obtain s' where
      s': "flush_full (buffered [b] s) = Inr ((), s')" "wr_buf (bk_http s') = Some c" "wr_last_len (bk_http s') = 0"
        "ota_up mem0 d (OTA_START + ?L + 1024) s'" "omem s' = block_write (omem s) (OTA_START + ?L) c" by auto
    have al: "(OTA_START + ?L) mod 1024 = 0" by (simp add: written_out_def mod_add_eq [symmetric])
    have et: "erased_tail (omem s) (OTA_START + ?L)" using i by blast
    have mem: "mslice (omem s') OTA_START (?L + 1024) = bs @ [b]"
    proof -
      have "mslice (omem s') OTA_START ?L = mslice (omem s) OTA_START ?L"
        unfolding s'(5) by (rule mslice_cong) (simp add: block_write_below)
      moreover have "mslice (omem s') (OTA_START + ?L) 1024 = c"
        using block_write_within [OF al _ et, of c] lc unfolding s'(5) by simp
      ultimately show ?thesis using i cb by (simp add: mslice_add)
    qed
    have out: "omem s' j = m0 j" if "j < OTA_START \<or> OTA_STOP \<le> j" for j
      using block_outside(2) [of "OTA_START + ?L" j c "omem s"] that i f lc s'(5) by auto
    have "erased_tail (omem s') (OTA_START + ?L + 1024)"
      unfolding s'(5) using al lc et by (rule block_write_tail)
    moreover have wn: "written_out (length (bs @ [b])) = ?L + 1024" using trans [OF w] by (simp only: length_append_singleton)
    moreover have "length (bs @ [b]) mod 1024 = 0" by (simp add: mod_Suc full)
    moreover have "take (?L + 1024) (bs @ [b]) = bs @ [b]" "drop (?L + 1024) (bs @ [b]) = []" using w(2) by simp_all
    moreover have "(OTA_START + ?L + 1024) mod 1024 = 0" using al by (simp only: mod_add_self2)
    moreover have "buf_ok s'" using s'(2,3) lc by (simp add: buf_ok_def)
    ultimately have "ota_image mem0 d m0 (bs @ [b]) s'"
      unfolding ota_image_def ota_safe_def using s'(3,4) mem out f by (simp only: add.assoc) simp
    with p s'(1) show ?thesis by auto
  qed
qed

lemma put_bytes_image:
  "ota_image mem0 d m0 bs s \<Longrightarrow> length bs + length cs < OTA_LEN \<Longrightarrow>
   \<exists>s'. forM cs put_byte s = Inr ((), s') \<and> ota_image mem0 d m0 (bs @ cs) s'"
proof (induction cs arbitrary: s bs)
  case (Cons c cs)
  then obtain s1 where "put_byte c s = Inr ((), s1)" "ota_image mem0 d m0 (bs @ [c]) s1"
    using put_byte_image [of mem0 d m0 bs s c] by auto
  with Cons.IH [of "bs @ [c]" s1] Cons.prems(2) show ?case by auto
qed auto

end

lemma ddev_close_zero: "ddev_close 0 s = Inr (DRV_FAILURE, s)"
  by (simp add: ddev_close_def ddev_get_id_from_handle_def)

abbreviation feed :: "u8 list list \<Rightarrow> ('w http_st, unit) prog" where
  "feed pages \<equiv> forM pages (\<lambda>p. http_data_process p (of_nat (length p)))"

lemma feed_bytes:
  "buf_ok s \<Longrightarrow> (\<And>p. p \<in> set pages \<Longrightarrow> length p < 2 ^ 32) \<Longrightarrow> feed pages s = forM (concat pages) put_byte s"
proof (induction pages arbitrary: s)
  case (Cons p pages)
  have "unat (of_nat (length p) :: u32) = length p" using Cons.prems(2) [of p] by (simp add: unat_of_nat)
  then have "http_data_process p (of_nat (length p)) s = forM p put_byte s"
    using http_wr_to_flash_bytes [OF Cons.prems(1), of "of_nat (length p)" p] by (simp add: http_data_process_def)
  moreover have "feed pages t = forM (concat pages) put_byte t" if "forM p put_byte s = Inr (u, t)" for t u
    using Cons.IH [OF put_bytes_buf_ok [OF that Cons.prems(1)]] Cons.prems(2) by simp
  ultimately show ?case by (auto simp: forM_append thenM_run split: sum.splits)
qed simp

lemma ucast_len: "unat (ucast (w::u16) :: u32) = unat w"
  by (simp add: unsigned_ucast_eq take_bit_nat_eq_self_iff)
    (rule less_trans [OF unsigned_less], simp)

context nor_device
begin

lemma http_flash_init_run:
  assumes "flash_at mem0 d (drv s)" and "OTA_STOP \<le> size (world (drv s))"
    and "length b1 = 1024" and "\<And>b2. m2 = Some b2 \<Longrightarrow> length b2 = 1024"
  shows "\<exists>s'. http_flash_init mem0 (Some b1) m2 s = Inr ((), s') \<and> ota_image mem0 d (omem s) [] s'"
proof -
  let ?p = "bk7231_partitions ! BK_PARTITION_OTA"
  from open_flash [OF assms(1)] obtain st t1 where
    t1: "ddev_open mem0 (Some FLASH_DEV_NAME) True 0 (drv s) = Inr ((ddev_make_handle (of_nat d), Some st), t1)"
      "flash_at mem0 d t1" "world t1 = world (drv s)" by blast
  from bk_flash_enable_security_run [OF t1(2), of FLASH_PROTECT_NONE] t1(3) obtain t2 where
    t2: "bk_flash_enable_security mem0 FLASH_PROTECT_NONE t1 = Inr (kNoErr, t2)" "flash_at mem0 d t2"
      "mem (world t2) = omem s" "size (world t2) = size (world (drv s))" "\<And>j. \<not> prot (world t2) j" by auto
  let ?s = "s\<lparr>drv := t2, bk_http := (bk_http s)\<lparr>wr_buf := Some b1, wr_tmp_buf := m2, pt := Some ?p,
     flash_hdl := ddev_make_handle (of_nat d), wr_last_len := 0, flash_address := partition_start_addr ?p\<rparr>, ota_wr_block := 0\<rparr>"
  have info: "bk_flash_get_info BK_PARTITION_OTA x = Inr (Some ?p, x)" for x :: "'w http_st"
    by (rule get_info_run) simp
  have "http_flash_init mem0 (Some b1) m2 s = Inr ((), ?s)"
    using t1(1) t2(1) handle_valid [OF assms(1)] by (simp add: http_flash_init_def info in_drv_def)
  moreover have "prot (world t2) = (\<lambda>_. False)" using t2(5) by auto
  then have "ota_image mem0 d (omem s) [] ?s" using t2 assms
    by (simp add: ota_image_def ota_safe_def ota_up_def buf_ok_def written_out_def erased_tail_def)
  ultimately show ?thesis by blast
qed

lemma http_flash_deinit_run:
  assumes "flash_at mem0 d (drv s)"
  shows "\<exists>s'. http_flash_deinit mem0 s = Inr ((), s') \<and> omem s' = omem s \<and> bk_http s' = zero_http"
proof -
  from bk_flash_enable_security_run [OF assms, of FLASH_UNPROTECT_LAST_BLOCK] obtain t where
    "bk_flash_enable_security mem0 FLASH_UNPROTECT_LAST_BLOCK (drv s) = Inr (kNoErr, t)" "mem (world t) = omem s" by auto
  then show ?thesis by (simp add: http_flash_deinit_def in_drv_def ddev_close_zero zero_http_def)
qed

lemma http_finish_run:
  assumes "ota_safe mem0 d m0 a s"
  shows "\<exists>s'. http_finish mem0 s = Inr ((), s') \<and> bk_http s' = zero_http
     \<and> omem s' = (if a + unat (wr_last_len (bk_http s)) < OTA_STOP
        then block_write (omem s) a (take (unat (wr_last_len (bk_http s))) (the (wr_buf (bk_http s))))
        else at_sector (omem s) a)"
proof -
  note i = assms [unfolded ota_safe_def]
  from i obtain buf where b: "wr_buf (bk_http s) = Some buf" "length buf = 1024" "unat (wr_last_len (bk_http s)) < 1024"
    by (blast elim: buf_okE)
  from http_flash_wr_run [of mem0 d a s "ucast (wr_last_len (bk_http s))" buf, unfolded ucast_len] i b obtain s1 where
    s1: "http_flash_wr buf (ucast (wr_last_len (bk_http s))) s = Inr ((), s1)"
      "if a + unat (wr_last_len (bk_http s)) < OTA_STOP
       then ota_up mem0 d (a + unat (wr_last_len (bk_http s))) s1
         \<and> omem s1 = block_write (omem s) a (take (unat (wr_last_len (bk_http s))) buf)
       else ota_up mem0 d a s1 \<and> omem s1 = at_sector (omem s) a" by auto
  have "flash_at mem0 d (drv s1)" using s1(2) by (auto simp: ota_up_def split: if_splits)
  from http_flash_deinit_run [OF this] s1 b show ?thesis by (auto simp: http_finish_def split: if_splits)
qed

text \<open>A whole download, when the allocation of the buffer succeeds.\<close>

lemma download_safe:
  assumes "flash_at mem0 d (drv s)" and "OTA_STOP \<le> size (world (drv s))" and "length b1 = 1024"
    and "\<And>b2. m2 = Some b2 \<Longrightarrow> length b2 = 1024" and "\<And>p. p \<in> set pages \<Longrightarrow> length p < 2 ^ 32"
  shows "\<exists>s'. thenM (http_flash_init mem0 (Some b1) m2) (thenM (feed pages) (http_finish mem0)) s = Inr ((), s')
     \<and> (\<forall>i. i < OTA_START \<or> OTA_STOP \<le> i \<longrightarrow> omem s' i = omem s i)"
proof -
  from http_flash_init_run [OF assms(1-4)] obtain s1 where
    s1: "http_flash_init mem0 (Some b1) m2 s = Inr ((), s1)" "ota_image mem0 d (omem s) [] s1" by blast
  then have sf: "ota_safe mem0 d (omem s) OTA_START s1" by (simp add: ota_image_def written_out_def)
  from put_bytes_safe [OF sf, of "concat pages"] obtain s2 a where
    s2: "forM (concat pages) put_byte s1 = Inr ((), s2)" "ota_safe mem0 d (omem s) a s2" by blast
  have "feed pages s1 = Inr ((), s2)" using feed_bytes [of s1 pages] sf assms(5) s2(1) by (simp add: ota_safe_def)
  moreover obtain s3 where s3: "http_finish mem0 s2 = Inr ((), s3)"
     "omem s3 = (if a + unat (wr_last_len (bk_http s2)) < OTA_STOP
        then block_write (omem s2) a (take (unat (wr_last_len (bk_http s2))) (the (wr_buf (bk_http s2))))
        else at_sector (omem s2) a)" using http_finish_run [OF s2(2)] by blast
  moreover have "omem s3 i = omem s i" if "i < OTA_START \<or> OTA_STOP \<le> i" for i
    using that s2(2) s3(2) block_outside(1) [of a i "omem s2"]
      block_outside(2) [of a i "take (unat (wr_last_len (bk_http s2))) (the (wr_buf (bk_http s2)))" "omem s2"]
    by (auto simp: ota_safe_def min_def split: if_splits)
  ultimately show ?thesis using s1(1) by auto
qed

lemma download_image:
  assumes "flash_at mem0 d (drv s)" and "OTA_STOP \<le> size (world (drv s))" and "length b1 = 1024"
    and "\<And>b2. m2 = Some b2 \<Longrightarrow> length b2 = 1024" and "length (concat pages) < OTA_LEN"
  shows "\<exists>s'. thenM (http_flash_init mem0 (Some b1) m2) (thenM (feed pages) (http_finish mem0)) s = Inr ((), s')
     \<and> mslice (omem s') OTA_START (length (concat pages)) = concat pages"
proof -
  let ?bs = "concat pages"
  let ?L = "written_out (length ?bs)"
  from http_flash_init_run [OF assms(1-4)] obtain s1 where
    s1: "http_flash_init mem0 (Some b1) m2 s = Inr ((), s1)" "ota_image mem0 d (omem s) [] s1" by blast
  from put_bytes_image [OF s1(2), of ?bs] assms(5) obtain s2 where
    s2: "forM ?bs put_byte s1 = Inr ((), s2)" "ota_image mem0 d (omem s) ?bs s2" by auto
  have "length p < 2 ^ 32" if "p \<in> set pages" for p
    using member_le_sum_list [of "length p" "map length pages"] that assms(5) by (simp add: length_concat)
  then have fd: "feed pages s1 = Inr ((), s2)"
    using feed_bytes [of s1 pages] s1(2) s2(1) by (simp add: ota_image_def ota_safe_def)
  note i = s2(2) [unfolded ota_image_def]
  have sum: "?L + length ?bs mod 1024 = length ?bs"
    using written_out_le [of "length ?bs"] written_out_rest [of "length ?bs"] by linarith
  have f: "OTA_START + ?L + length ?bs mod 1024 < OTA_STOP" using sum assms(5) by linarith
  from http_finish_run [of mem0 d "omem s" "OTA_START + ?L" s2] i f obtain s3 where
    s3: "http_finish mem0 s2 = Inr ((), s3)" "omem s3 = block_write (omem s2) (OTA_START + ?L) (drop ?L ?bs)" by auto
  have "mslice (omem s3) (OTA_START + ?L) (length ?bs mod 1024) = drop ?L ?bs"
    using block_write_within [of "OTA_START + ?L" "drop ?L ?bs" "omem s2"] i written_out_rest [of "length ?bs"]
    by (simp add: s3(2) ota_safe_def)
  moreover have "mslice (omem s3) OTA_START ?L = take ?L ?bs"
    using i unfolding s3(2) by (simp add: block_write_below cong: mslice_cong)
  ultimately have "mslice (omem s3) OTA_START (?L + length ?bs mod 1024) = ?bs" by (simp add: mslice_add)
  with sum s1(1) fd s3(1) show ?thesis by auto
qed

end

section \<open>Properties\<close>

text \<open>
  C6: a download of any number of pages of any sizes, of fewer bytes in total than the OTA
  partition has. On any controller that implements the chip, with the flash device ready and the partition
  inside the flash, when the buffer of 1024 bytes can be allocated (the second buffer may fail to be, or has 1024 bytes too):
  opening the download, feeding the pages and finishing it never stops or faults, and the
  OTA partition then starts with exactly the bytes of the pages in order.
\<close>

theorem http_ota_image:
  assumes "nor_controller env chip idle" and "dev_at (flash_op env) (flash_ready chip idle) mem0 d (drv s)"
    and "OTA_STOP \<le> config_size (world (drv s))" and "length b1 = 1024"
    and "m2 = None \<or> length (the m2) = 1024" and "length (concat pages) < OTA_LEN"
  shows "\<exists>s'. thenM (http_flash_init mem0 (Some b1) m2)
        (thenM (forM pages (\<lambda>p. http_data_process p (of_nat (length p)))) (http_finish mem0)) s = Inr ((), s')
     \<and> mslice (chip_mem chip (world (drv s'))) OTA_START (length (concat pages)) = concat pages"
  by (rule nor_device.download_image [OF nor_controller.axioms_dev [OF assms(1)] assms(2-4) _ assms(6)])
    (use assms(5) in auto)

text \<open>
  whatever is received, however long, the download never stops or faults and changes
  no byte of the flash outside the OTA partition.
\<close>

theorem http_ota_confined:
  assumes "nor_controller env chip idle" and "dev_at (flash_op env) (flash_ready chip idle) mem0 d (drv s)"
    and "OTA_STOP \<le> config_size (world (drv s))" and "length b1 = 1024"
    and "m2 = None \<or> length (the m2) = 1024" and "\<forall>p \<in> set pages. length p < 2 ^ 32"
  shows "\<exists>s'. thenM (http_flash_init mem0 (Some b1) m2)
        (thenM (forM pages (\<lambda>p. http_data_process p (of_nat (length p)))) (http_finish mem0)) s = Inr ((), s')
     \<and> (\<forall>i. i < OTA_START \<or> OTA_STOP \<le> i \<longrightarrow> chip_mem chip (world (drv s')) i = chip_mem chip (world (drv s)) i)"
  by (rule nor_device.download_safe [OF nor_controller.axioms_dev [OF assms(1)] assms(2-4)])
    (use assms(5,6) in auto)

text \<open>
  C40: the buffering does not depend on how the stream is cut into pages. With the buffer
  allocated and not full, storing two pieces one after the other is storing their
  concatenation, on every device and in every state, faults included; both run to the end.
\<close>

theorem http_wr_chunking:
  assumes "buf_ok s" and "length a + length b < 2 ^ 32"
  shows "http_wr_to_flash (a @ b) (of_nat (length a + length b)) s
     = thenM (http_wr_to_flash a (of_nat (length a))) (http_wr_to_flash b (of_nat (length b))) s
   \<and> http_wr_to_flash (a @ b) (of_nat (length a + length b)) s = forM (a @ b) put_byte s"
proof -
  have n: "unat (of_nat (length a + length b) :: u32) = length a + length b"
    "unat (of_nat (length a) :: u32) = length a" "unat (of_nat (length b) :: u32) = length b"
    using assms(2) by (simp_all only: unat_of_nat) simp_all
  have w: "http_wr_to_flash (a @ b) (of_nat (length a + length b)) s = forM (a @ b) put_byte s"
    using http_wr_to_flash_bytes [OF assms(1), of "of_nat (length a + length b)" "a @ b"] n(1) by simp
  have "http_wr_to_flash b (of_nat (length b)) t = forM b put_byte t" if "forM a put_byte s = Inr (u, t)" for t u
    using http_wr_to_flash_bytes [OF put_bytes_buf_ok [OF that assms(1)], of "of_nat (length b)" b] n(3) by simp
  moreover have "http_wr_to_flash a (of_nat (length a)) s = forM a put_byte s"
    using http_wr_to_flash_bytes [OF assms(1), of "of_nat (length a)" a] n(2) by simp
  ultimately have "thenM (http_wr_to_flash a (of_nat (length a))) (http_wr_to_flash b (of_nat (length b))) s
      = forM (a @ b) put_byte s"
    by (auto simp: forM_append thenM_run split: sum.splits)
  with w show ?thesis by simp
qed

lemma in_world_frame: "frame drv_dev_tbl (in_world m)"
  by (auto simp: frame_def in_world_Inr)

lemma ddev_control_frame: "frame drv_dev_tbl (ddev_control h c p)"
  unfolding ddev_control_def get_dev_def by (intro frame_intros in_world_frame)

text \<open>
  closing the download does not close the device. The handle is cleared before it is
  passed to \<^verbatim>\<open>ddev_close\<close>, which rejects it; the use count of the flash device grows by the
  open in \<^verbatim>\<open>bk_flash_enable_security\<close> instead of going back.
\<close>

theorem http_deinit_keeps_open:
  assumes "nor_controller env chip idle" and "dev_at (flash_op env) (flash_ready chip idle) mem0 d (drv s)"
    and "dev_state (drv_dev_tbl (drv s) ! d) = DD_STATE_OPENED"
  shows "\<exists>s'. http_flash_deinit mem0 s = Inr ((), s') \<and> bk_http s' = zero_http
     \<and> use_cnt (drv_dev_tbl (drv s') ! d) = use_cnt (drv_dev_tbl (drv s) ! d) + 1
     \<and> dev_state (drv_dev_tbl (drv s') ! d) = DD_STATE_OPENED"
proof -
  note dev = nor_controller.axioms_dev [OF assms(1)]
  have f: "finds mem0 FLASH_DEV_NAME (drv s) d" using assms(2) by (simp add: dev_at_def)
  note o = ddev_open_opened [OF f assms(3), of 0]
  from nor_device.open_flash [OF dev assms(2), of 0] o obtain s1 where
    s1: "ddev_open mem0 (Some FLASH_DEV_NAME) True 0 (drv s) = Inr ((ddev_make_handle (of_nat d), Some DRV_FAILURE), s1)"
    "dev_at (flash_op env) (flash_ready chip idle) mem0 d s1"
    "s1 = set_slot d ((drv_dev_tbl (drv s) ! d)\<lparr>use_cnt := use_cnt (drv_dev_tbl (drv s) ! d) + 1\<rparr>) (world (drv s)) (drv s)"
    by auto
  from nor_device.protect_flash [OF dev s1(2), of FLASH_UNPROTECT_LAST_BLOCK] obtain s2 where
    s2: "ddev_control (ddev_make_handle (of_nat d)) CMD_FLASH_SET_PROTECT FLASH_UNPROTECT_LAST_BLOCK s1
       = Inr ((FLASH_SUCCESS, FLASH_UNPROTECT_LAST_BLOCK), s2)" by blast
  have "drv_dev_tbl s2 = drv_dev_tbl s1" by (rule frameD [OF ddev_control_frame s2])
  moreover have "d < length (drv_dev_tbl (drv s))" using nor_device.flash_at_bound [OF dev assms(2)] by simp
  moreover have "http_flash_deinit mem0 s = Inr ((), s\<lparr>bk_http := zero_http, ota_wr_block := 0, drv := s2\<rparr>)"
    using s1(1) s2 nor_device.handle_valid [OF dev assms(2)]
    by (simp add: http_flash_deinit_def in_drv_def zero_http_def ddev_close_zero bk_flash_enable_security_def)
  ultimately show ?thesis using s1(3) assms(3) by simp
qed

definition demo_http :: "(nat \<times> nor_chip) flash_st http_st" where
  "demo_http = \<lparr>drv = demo_up, bk_http = zero_http, ota_wr_block = 7\<rparr>"

lemma demo_http_drv [simp]: "drv demo_http = demo_up"
  by (simp add: demo_http_def)

theorem http_ota_image_witness:
  "\<exists>s'. thenM (http_flash_init [] (Some (replicate 1024 0)) None)
        (thenM (forM [[1, 2], [], [3]] (\<lambda>p. http_data_process p (of_nat (length p)))) (http_finish [])) demo_http = Inr ((), s')
     \<and> mslice (chip_mem snd (world (drv s'))) OTA_START 3 = [1, 2, 3]"
  using http_ota_image [OF slow.nor_controller_axioms [of 2], of "[]" 0 demo_http "replicate 1024 0" None "[[1, 2], [], [3]]"]
    demo_up_at by (simp add: numeral_3_eq_3)

theorem http_ota_confined_witness:
  "\<exists>s'. thenM (http_flash_init [] (Some (replicate 1024 0)) (Some (replicate 1024 9)))
        (thenM (forM [replicate 0x100000 5] (\<lambda>p. http_data_process p (of_nat (length p)))) (http_finish [])) demo_http = Inr ((), s')
     \<and> (\<forall>i. i < OTA_START \<or> OTA_STOP \<le> i \<longrightarrow> chip_mem snd (world (drv s')) i = chip_mem snd (world demo_up) i)"
  using http_ota_confined [OF slow.nor_controller_axioms [of 2], of "[]" 0 demo_http "replicate 1024 0"
      "Some (replicate 1024 9)" "[replicate 0x100000 5]"] demo_up_at
  by simp

lemma demo_buf_ok: "buf_ok (demo_http\<lparr>bk_http := zero_http\<lparr>wr_buf := Some (replicate 1024 0)\<rparr>\<rparr>)"
  by (simp add: buf_ok_def zero_http_def)

theorem http_wr_chunking_witness:
  "http_wr_to_flash ([1, 2] @ [3]) (of_nat (length [1, 2 :: u8] + length [3 :: u8]))
        (demo_http\<lparr>bk_http := zero_http\<lparr>wr_buf := Some (replicate 1024 0)\<rparr>\<rparr>)
     = thenM (http_wr_to_flash [1, 2] (of_nat (length [1, 2 :: u8]))) (http_wr_to_flash [3] (of_nat (length [3 :: u8])))
        (demo_http\<lparr>bk_http := zero_http\<lparr>wr_buf := Some (replicate 1024 0)\<rparr>\<rparr>)"
  by (rule conjunct1 [OF http_wr_chunking [OF demo_buf_ok]]) simp

theorem http_deinit_keeps_open_witness:
  "\<exists>s s' :: (nat \<times> nor_chip) flash_st http_st. http_flash_deinit [] s = Inr ((), s')
     \<and> use_cnt (drv_dev_tbl (drv s) ! 0) = 1 \<and> use_cnt (drv_dev_tbl (drv s') ! 0) = 2"
proof -
  let ?d = "set_slot 0 ((drv_dev_tbl demo_up ! 0)\<lparr>dev_state := DD_STATE_OPENED, use_cnt := 1\<rparr>) demo_flash demo_up"
  let ?s = "demo_http\<lparr>drv := ?d\<rparr>"
  from nor_device.open_flash [OF nor_controller.axioms_dev [OF slow.nor_controller_axioms] demo_up_at, of 0] demo_up_open
  have "dev_at (flash_op (slow_env 2)) (flash_ready snd (\<lambda>h. fst h = 0)) [] 0 ?d" by auto
  with http_deinit_keeps_open [OF slow.nor_controller_axioms [of 2], of "[]" 0 ?s]
  have "\<exists>s'. http_flash_deinit [] ?s = Inr ((), s') \<and> use_cnt (drv_dev_tbl (drv s') ! 0) = use_cnt (drv_dev_tbl (drv ?s) ! 0) + 1"
    by (auto simp: demo_up_def)
  moreover have "use_cnt (drv_dev_tbl (drv ?s) ! 0) = 1" by (simp add: demo_up_def)
  ultimately show ?thesis by fastforce
qed

end
