(* ===== verification/Base64.thy ===== *)
theory Base64
  imports Prelude
begin

text \<open>
  The Base64 codec of \<^verbatim>\<open>components/base64/base_64.c\<close>. A source buffer is the list of its
  \<open>len\<close> bytes; the output of a function is the list of the bytes it stores from \<open>out\<close> on,
  so that its length is the room the function needs. \<open>NULL\<close> output pointers and a failing
  allocation are arguments, and the value of \<open>*out_len\<close> is \<open>None\<close> where the function leaves
  it alone. The two functions that read Base64 build a table in an allocated block and never free it; the last part of
  their result is the number of blocks that the call leaves allocated.
\<close>

section \<open>The code\<close>

definition base_64_table :: "u8 list" where
  "base_64_table = map of_char ''ABCDEFGHIJKLMNOPQRSTUVWXYZabcdefghijklmnopqrstuvwxyz0123456789+/''"

abbreviation LF :: u8 where "LF \<equiv> 10"
abbreviation PAD :: u8 where "PAD \<equiv> 61"

definition b64 :: "u8 \<Rightarrow> u8" where
  "b64 k = base_64_table ! unat k"

definition base64_calc_encode_length :: "u32 \<Rightarrow> u32" where
  "base64_calc_encode_length src_Len =
     (let enc_len = src_Len * 4 div 3 + 4;
          enc_len = enc_len + enc_len div 72
      in enc_len + 1)"

text \<open>The \<open>while (end - in >= 3)\<close> loop: what is left of the input, the line length, the output.\<close>

fun enc_loop :: "u8 list \<Rightarrow> nat \<Rightarrow> u8 list \<Rightarrow> u8 list \<times> nat \<times> u8 list" where
  "enc_loop (a # b # c # rest) line_len pos =
     (let pos = pos @ [b64 (drop_bit 2 a),
                       b64 (push_bit 4 (a AND 0x03) OR drop_bit 4 b),
                       b64 (push_bit 2 (b AND 0x0f) OR drop_bit 6 c),
                       b64 (c AND 0x3f)];
          line_len = line_len + 4
      in if line_len \<ge> 72 then enc_loop rest 0 (pos @ [LF]) else enc_loop rest line_len pos)"
| "enc_loop rest line_len pos = (rest, line_len, pos)"

text \<open>The block for the one or two bytes that remain.\<close>

definition enc_tail :: "u8 list \<Rightarrow> u8 list" where
  "enc_tail rest = (case rest of
     [a] \<Rightarrow> [b64 (drop_bit 2 a), b64 (push_bit 4 (a AND 0x03)), PAD, PAD]
   | [a, b] \<Rightarrow> [b64 (drop_bit 2 a), b64 (push_bit 4 (a AND 0x03) OR drop_bit 4 b), b64 (push_bit 2 (b AND 0x0f)), PAD]
   | _ \<Rightarrow> [])"

text \<open>Returns the result, \<open>*out_len\<close> and the stored bytes, of which the last is the terminator.\<close>

definition base64_encode :: "bool \<Rightarrow> u8 list \<Rightarrow> u8 \<times> int option \<times> u8 list" where
  "base64_encode out_null src =
     (if out_null then (0, None, [])
      else
        (let (rest, line_len, pos) = enc_loop src 0 [];
             pos = pos @ enc_tail rest;
             line_len = (if rest \<noteq> [] then line_len + 4 else line_len);
             pos = (if line_len \<noteq> 0 then pos @ [LF] else pos)
         in (1, Some (int (length pos)), pos @ [0])))"

definition build_dtable :: "u8 \<Rightarrow> u8" where
  "build_dtable = (fold (\<lambda>i d. d(base_64_table ! i := of_nat i)) [0..<64] (\<lambda>_. 0x80))(PAD := 0)"

definition count_symbols :: "u8 list \<Rightarrow> u32" where
  "count_symbols src = fold (\<lambda>x n. if build_dtable x \<noteq> 0x80 then n + 1 else n) src 0"

definition base64_calc_decode_length :: "bool \<Rightarrow> u8 list \<Rightarrow> u32 \<times> nat" where
  "base64_calc_decode_length alloc_ok src =
     (if \<not> alloc_ok then (0, 0)
      else let dec_len = count_symbols src in (if dec_len mod 4 \<noteq> 0 then 0 else dec_len, 1))"

text \<open>
  The decoding loop; \<open>inp\<close> and \<open>block\<close> are the arrays \<open>in[4]\<close> and \<open>block[4]\<close> with whatever the
  stack held.
\<close>

fun dec_loop :: "u8 list \<Rightarrow> (nat \<Rightarrow> u8) \<Rightarrow> (nat \<Rightarrow> u8) \<Rightarrow> nat \<Rightarrow> u8 list \<Rightarrow> (nat \<Rightarrow> u8) \<times> u8 list" where
  "dec_loop [] inp block count pos = (inp, pos)"
| "dec_loop (x # src) inp block count pos =
     (let tmp = build_dtable x in
      if tmp = 0x80 then dec_loop src inp block count pos
      else
        (let inp = inp(count := x); block = block(count := tmp); count = Suc count in
         if count = 4 then
           dec_loop src inp block 0
             (pos @ [push_bit 2 (block 0) OR drop_bit 4 (block 1),
                     push_bit 4 (block 1) OR drop_bit 2 (block 2),
                     push_bit 6 (block 2) OR block 3])
         else dec_loop src inp block count pos))"

definition base64_decode ::
  "bool \<Rightarrow> bool \<Rightarrow> (nat \<Rightarrow> u8) \<Rightarrow> (nat \<Rightarrow> u8) \<Rightarrow> u8 list \<Rightarrow> u8 \<times> int option \<times> u8 list \<times> nat" where
  "base64_decode alloc_ok out_null inp0 block0 src =
     (if \<not> alloc_ok then (0, Some 0, [], 0)
      else let count = count_symbols src in
        if count mod 4 \<noteq> 0 then (0, None, [], 1)
        else if out_null then (0, Some (uint (count * 3 div 4)), [], 1)
        else
          (let (inp, pos) = dec_loop src inp0 block0 0 [];
               n = int (length pos);
               n = (if pos \<noteq> [] then if inp 2 = PAD then n - 2 else if inp 3 = PAD then n - 1 else n else n)
           in (1, Some n, pos, 1)))"

section \<open>The symbols\<close>

text \<open>The four six-bit groups of three bytes.\<close>

definition s0 :: "u8 \<Rightarrow> u8" where
  "s0 a = drop_bit 2 a"

definition s1 :: "u8 \<Rightarrow> u8 \<Rightarrow> u8" where
  "s1 a b = push_bit 4 (a AND 0x03) OR drop_bit 4 b"

definition s2 :: "u8 \<Rightarrow> u8 \<Rightarrow> u8" where
  "s2 b c = push_bit 2 (b AND 0x0f) OR drop_bit 6 c"

definition s3 :: "u8 \<Rightarrow> u8" where
  "s3 c = c AND 0x3f"

definition quad :: "u8 \<Rightarrow> u8 \<Rightarrow> u8 \<Rightarrow> u8 list" where
  "quad a b c = [b64 (s0 a), b64 (s1 a b), b64 (s2 b c), b64 (s3 c)]"

text \<open>Encoding without line feeds: the reference that the two loops are compared with.\<close>

fun quads :: "u8 list \<Rightarrow> u8 list" where
  "quads (a # b # c # rest) = quad a b c @ quads rest"
| "quads rest = enc_tail rest"

lemma table_inverse_all:
  "\<forall>i \<in> set [0..<64]. build_dtable (base_64_table ! i) = of_nat i \<and> base_64_table ! i \<noteq> PAD"
  by code_simp

lemma dtable_b64: "k < 64 \<Longrightarrow> build_dtable (b64 k) = k \<and> b64 k \<noteq> PAD"
proof -
  assume "k < 64"
  then have "unat k \<in> set [0..<64]" by (simp add: word_less_nat_alt)
  then show ?thesis using table_inverse_all by (auto simp: b64_def)
qed

lemma dtable_special: "build_dtable LF = 0x80" "build_dtable PAD = 0" "build_dtable 0 = 0x80"
  by code_simp+

lemma small_word: "(\<And>n. bit (x::u8) n \<Longrightarrow> n < 6) \<Longrightarrow> x < 64"
proof -
  assume b: "\<And>n. bit (x::u8) n \<Longrightarrow> n < 6"
  have "take_bit 6 x = x" by (rule bit_word_eqI) (auto simp: bit_take_bit_iff b)
  then have "uint x = take_bit 6 (uint x)" by (metis unsigned_take_bit_eq)
  also have "\<dots> < 2 ^ 6" by (rule take_bit_int_less_exp)
  finally show ?thesis by (simp add: word_less_def)
qed

lemma masks: "(0x03 :: u8) = mask 2" "(0x0f :: u8) = mask 4" "(0x3f :: u8) = mask 6"
  by (simp_all add: mask_eq_exp_minus_1)

lemmas byte_bits = masks bit_or_iff bit_and_iff bit_push_bit_iff bit_drop_bit_eq bit_mask_iff

lemma bit_u8: "bit (x::u8) n \<Longrightarrow> n < 8"
  using bit_imp_le_length [of x n] by simp

lemma sextet_less: "s0 a < 64" "s1 a b < 64" "s2 b c < 64" "s3 c < 64"
  unfolding s0_def s1_def s2_def s3_def
  by (rule small_word, use bit_u8 in \<open>fastforce simp only: byte_bits comp_def\<close>)+

lemma bit_u8_high: "8 \<le> n \<Longrightarrow> \<not> bit (x::u8) n"
  using bit_u8 by fastforce

lemma byte_eqI:
  fixes x y :: u8
  assumes "bit x 0 = bit y 0" "bit x 1 = bit y 1" "bit x 2 = bit y 2" "bit x 3 = bit y 3"
    "bit x 4 = bit y 4" "bit x 5 = bit y 5" "bit x 6 = bit y 6" "bit x 7 = bit y 7"
  shows "x = y"
proof (rule bit_word_eqI)
  fix n assume "n < LENGTH(8)"
  then have "n = 0 \<or> n = 1 \<or> n = 2 \<or> n = 3 \<or> n = 4 \<or> n = 5 \<or> n = 6 \<or> n = 7" by auto
  with assms show "bit x n = bit y n" by blast
qed

lemma block_bytes:
  "push_bit 2 (s0 a) OR drop_bit 4 (s1 a b) = a"
  "push_bit 4 (s1 a b) OR drop_bit 2 (s2 b c) = b"
  "push_bit 6 (s2 b c) OR s3 c = c"
  unfolding masks s0_def s1_def s2_def s3_def by (rule byte_eqI; simp add: byte_bits bit_u8_high)+

lemma enc_loop_quad:
  "enc_loop (a # b # c # rest) l pos =
     (if l + 4 \<ge> 72 then enc_loop rest 0 (pos @ quad a b c @ [LF]) else enc_loop rest (l + 4) (pos @ quad a b c))"
  by (simp add: quad_def s0_def s1_def s2_def s3_def Let_def)

lemma enc_tail_simps:
  "enc_tail [] = []"
  "enc_tail [a] = [b64 (s0 a), b64 (s1 a 0), PAD, PAD]"
  "enc_tail [a, b] = [b64 (s0 a), b64 (s1 a b), b64 (s2 b 0), PAD]"
  by (simp_all add: enc_tail_def s0_def s1_def s2_def)

section \<open>The decoding loop\<close>

definition valid :: "u8 \<Rightarrow> bool" where
  "valid x \<longleftrightarrow> build_dtable x \<noteq> 0x80"

lemma dec_loop_filter: "dec_loop src inp block count pos = dec_loop (filter valid src) inp block count pos"
  by (induction src arbitrary: inp block count pos) (simp_all add: valid_def Let_def)

lemma sextet_valid: "k < (64 :: u8) \<Longrightarrow> k \<noteq> 0x80"
  by auto

lemma dec_loop_step:
  assumes "count < 4" "build_dtable x = k" "k < 64"
  shows "dec_loop (x # src) inp block count pos = (if count = 3 then
      dec_loop src (inp(3 := x)) (block(3 := k)) 0 (pos @ [push_bit 2 (block 0) OR drop_bit 4 (block 1),
             push_bit 4 (block 1) OR drop_bit 2 (block 2), push_bit 6 (block 2) OR k])
    else dec_loop src (inp(count := x)) (block(count := k)) (Suc count) pos)"
  using assms sextet_valid [OF assms(3)] by (auto simp: Let_def)

text \<open>One whole block of four symbols.\<close>

lemma dec_block:
  assumes "build_dtable w = k0" "build_dtable x = k1" "build_dtable y = k2" "build_dtable z = k3"
    "k0 < 64" "k1 < 64" "k2 < 64" "k3 < 64"
  shows "dec_loop (w # x # y # z # src) inp block 0 pos
    = dec_loop src (inp(0 := w, 1 := x, 2 := y, 3 := z)) (block(0 := k0, 1 := k1, 2 := k2, 3 := k3)) 0
       (pos @ [push_bit 2 k0 OR drop_bit 4 k1, push_bit 4 k1 OR drop_bit 2 k2, push_bit 6 k2 OR k3])"
  using dec_loop_step [OF _ assms(1,5)] dec_loop_step [OF _ assms(2,6)] dec_loop_step [OF _ assms(3,7)]
    dec_loop_step [OF _ assms(4,8)]
  by (simp add: numeral_eq_Suc del: dec_loop.simps)

lemmas dtable_sextet = dtable_b64 [THEN conjunct1]
lemmas b64_not_pad = dtable_b64 [THEN conjunct2]

lemma dec_quad:
  "dec_loop (quad a b c @ src) inp block 0 pos
    = dec_loop src (inp(0 := b64 (s0 a), 1 := b64 (s1 a b), 2 := b64 (s2 b c), 3 := b64 (s3 c)))
       (block(0 := s0 a, 1 := s1 a b, 2 := s2 b c, 3 := s3 c)) 0 (pos @ [a, b, c])"
  using dec_block [of "b64 (s0 a)" "s0 a" "b64 (s1 a b)" "s1 a b" "b64 (s2 b c)" "s2 b c" "b64 (s3 c)" "s3 c"]
    dtable_sextet sextet_less
  by (simp add: quad_def block_bytes del: dec_loop.simps)

text \<open>Decoding the encoded symbols: the bytes again, padded with zeros to whole blocks, and the
  last block still tells how many of them count.\<close>

definition fill :: "nat \<Rightarrow> nat" where
  "fill n = (if n mod 3 = 0 then 0 else 3 - n mod 3)"

lemma zero_sextets: "s2 0 0 = 0" "s3 0 = 0"
  by (simp_all add: s2_def s3_def)

lemma dec_tail1:
  "dec_loop (enc_tail [a]) inp block 0 pos
    = (inp(0 := b64 (s0 a), 1 := b64 (s1 a 0), 2 := PAD, 3 := PAD), pos @ [a, 0, 0])"
  using dec_block [of "b64 (s0 a)" "s0 a" "b64 (s1 a 0)" "s1 a 0" PAD 0 PAD 0 "[]"]
    dtable_sextet sextet_less dtable_special(2) block_bytes(2) [of a 0 0] block_bytes(3) [of 0 0]
  by (simp add: enc_tail_simps block_bytes zero_sextets)

lemma dec_tail2:
  "dec_loop (enc_tail [a, b]) inp block 0 pos
    = (inp(0 := b64 (s0 a), 1 := b64 (s1 a b), 2 := b64 (s2 b 0), 3 := PAD), pos @ [a, b, 0])"
  using dec_block [of "b64 (s0 a)" "s0 a" "b64 (s1 a b)" "s1 a b" "b64 (s2 b 0)" "s2 b 0" PAD 0 "[]"]
    dtable_sextet sextet_less dtable_special(2) block_bytes(3) [of b 0]
  by (simp add: enc_tail_simps block_bytes zero_sextets)

lemma dec_quads:
  assumes "dec_loop (quads src) inp block 0 pos = (inp', pos')" "src \<noteq> []"
  shows "pos' = pos @ src @ replicate (fill (length src)) 0
    \<and> (inp' 2 = PAD \<longleftrightarrow> length src mod 3 = 1) \<and> (inp' 3 = PAD \<longleftrightarrow> length src mod 3 \<noteq> 0)"
  using assms
proof (induction src arbitrary: inp block pos rule: quads.induct [case_names block nil one two])
  case (block a b c rest)
  have n: "b64 (s2 b c) \<noteq> PAD" "b64 (s3 c) \<noteq> PAD" using b64_not_pad sextet_less by blast+
  show ?case
  proof (cases "rest = []")
    case True
    with block(2) n dec_quad [of a b c "[]"] show ?thesis
      by (auto simp: fill_def enc_tail_simps simp del: dec_loop.simps(2))
  next
    case False
    from block(2) have d: "dec_loop (quads rest) (inp(0 := b64 (s0 a), 1 := b64 (s1 a b), 2 := b64 (s2 b c), 3 := b64 (s3 c)))
        (block(0 := s0 a, 1 := s1 a b, 2 := s2 b c, 3 := s3 c)) 0 (pos @ [a, b, c]) = (inp', pos')"
      by (simp add: dec_quad del: dec_loop.simps)
    from block(1) [OF d False] show ?thesis by (simp add: fill_def)
  qed
next
  case (one a)
  then show ?case by (auto simp: dec_tail1 fill_def numeral_2_eq_2 simp del: dec_loop.simps)
next
  case (two a b)
  have "b64 (s2 b 0) \<noteq> PAD" using b64_not_pad sextet_less by blast
  with two show ?case by (auto simp: dec_tail2 fill_def simp del: dec_loop.simps)
qed simp

section \<open>The encoding loop\<close>

lemma valid_b64: "k < 64 \<Longrightarrow> valid (b64 k)"
  using dtable_sextet [of k] sextet_valid [of k] by (simp add: valid_def)

lemma valid_special: "\<not> valid LF" "valid PAD" "\<not> valid 0"
  using dtable_special by (simp_all add: valid_def)

lemma length_quad [simp]: "length (quad a b c) = 4"
  by (simp add: quad_def)

lemma filter_quad [simp]: "filter valid (quad a b c) = quad a b c"
  using valid_b64 sextet_less by (simp add: quad_def)

lemma filter_tail [simp]: "filter valid (enc_tail xs) = enc_tail xs"
proof -
  consider "xs = []" | a where "xs = [a]" | a b where "xs = [a, b]" | a b c r where "xs = a # b # c # r"
    by (metis list.exhaust)
  then show ?thesis using valid_b64 sextet_less valid_special
    by cases (simp_all add: enc_tail_simps, simp add: enc_tail_def)
qed

text \<open>
  After \<open>j\<close> blocks of the current line, the loop consumes all whole blocks, and breaks the line
  after each eighteenth.
\<close>

lemma enc_loop_run:
  assumes "j < 18"
  shows "\<exists>body rest. enc_loop src (4 * j) pos = (rest, 4 * ((j + length src div 3) mod 18), pos @ body)
    \<and> filter valid body @ enc_tail rest = quads src
    \<and> length body = 4 * (length src div 3) + (j + length src div 3) div 18
    \<and> length rest = length src mod 3"
  using assms
proof (induction src arbitrary: j pos rule: quads.induct)
  case (1 a b c rest)
  have len: "length (a # b # c # rest) div 3 = Suc (length rest div 3)" "length (a # b # c # rest) mod 3 = length rest mod 3"
    by simp_all
  show ?case
  proof (cases "j = 17")
    case True
    have "(17 + Suc m) mod 18 = m mod 18" "(17 + Suc m) div 18 = Suc (m div 18)" for m :: nat by simp_all
    with 1(1) [of 0 "pos @ quad a b c @ [LF]"] True show ?thesis
      unfolding len by (auto simp: enc_loop_quad valid_special simp del: enc_loop.simps)
  next
    case False
    with 1(2) have j: "Suc j < 18" by simp
    with 1(1) [OF j, of "pos @ quad a b c"] show ?thesis
      unfolding len by (auto simp: enc_loop_quad add.commute [of 4] simp del: enc_loop.simps)
  qed
qed (simp_all add: enc_tail_simps)

section \<open>Properties\<close>

lemma u32_nat: "n < 2 ^ 32 \<Longrightarrow> unat (of_nat n :: u32) = n"
  by (simp add: unat_of_nat take_bit_eq_mod)

lemma u32_plus: "unat a + unat b < 2 ^ 32 \<Longrightarrow> unat (a + b :: u32) = unat a + unat b"
  by (simp add: unat_word_ariths)

lemma u32_times: "unat a * unat b < 2 ^ 32 \<Longrightarrow> unat (a * b :: u32) = unat a * unat b"
  by (simp add: unat_word_ariths)

lemma count_symbols_filter: "count_symbols src = of_nat (length (filter valid src))"
proof -
  have "fold (\<lambda>x n. if build_dtable x \<noteq> 0x80 then n + 1 else n) src k = k + of_nat (length (filter valid src))" for k :: u32
    by (induction src arbitrary: k) (auto simp: valid_def algebra_simps)
  then show ?thesis by (simp add: count_symbols_def)
qed

lemma length_quads: "length (quads src) = 4 * ((length src + 2) div 3)"
proof (induction src rule: quads.induct)
  case (1 a b c rest)
  have "(n + 3 + 2) div 3 = Suc ((n + 2) div 3)" for n :: nat by presburger
  from this [of "length rest"] 1 show ?case by simp
qed (simp_all add: enc_tail_simps)

lemma ceil3: "n mod 3 = 0 \<Longrightarrow> (n + 2) div 3 = n div 3" "n mod 3 \<noteq> 0 \<Longrightarrow> (n + 2) div 3 = n div 3 + 1"
  for n :: nat
  by presburger+

lemma ceil18: "(n + 17) div 18 = n div 18 + (if n mod 18 = 0 then 0 else 1)" for n :: nat
proof -
  define q r where "q = n div 18" and "r = n mod 18"
  have n: "n = 18 * q + r" "r < 18" by (simp_all add: q_def r_def)
  have "(18 * q + r + 17) div 18 = q + (r + 17) div 18" by (metis add.assoc div_mult_self4 numeral_neq_zero zero_neq_numeral)
  moreover have "(r + 17) div 18 = (if r = 0 then 0 else 1)"
    using n(2) by (cases r) auto
  ultimately show ?thesis using n by simp
qed

lemma encode_shape:
  obtains enc where "base64_encode False src = (1, Some (int (length enc)), enc @ [0])"
    "filter valid enc = quads src"
    "length enc = 4 * ((length src + 2) div 3) + ((length src + 2) div 3 + 17) div 18"
proof -
  let ?q = "length src div 3" and ?m = "length src mod 3"
  obtain body rest where e: "enc_loop src 0 [] = (rest, 4 * (?q mod 18), body)"
    "filter valid body @ enc_tail rest = quads src" "length body = 4 * ?q + ?q div 18" "length rest = ?m"
    using enc_loop_run [of 0 src "[]"] by auto
  let ?l = "4 * (?q mod 18) + (if ?m = 0 then 0 else 4)"
  let ?t = "body @ enc_tail rest @ (if ?l = 0 then [] else [LF])"
  have "length rest = 0 \<or> length rest = 1 \<or> length rest = 2" using e(4) by linarith
  then have tail: "length (enc_tail rest) = (if ?m = 0 then 0 else 4)" using e(4)
    by (auto simp: length_Suc_conv enc_tail_simps numeral_2_eq_2)
  have "base64_encode False src = (1, Some (int (length ?t)), ?t @ [0])"
    using e(1,4) by (cases rest) (auto simp: base64_encode_def)
  moreover have "filter valid ?t = quads src" using e(2) by (simp add: valid_special)
  moreover have "length ?t = 4 * ((length src + 2) div 3) + ((length src + 2) div 3 + 17) div 18"
  proof -
    show ?thesis
    proof (cases "?m = 0")
      case True
      then have "length ?t = 4 * ?q + (?q div 18 + (if ?q mod 18 = 0 then 0 else 1))" using e(3) tail by auto
      then show ?thesis unfolding ceil3(1) [OF True] ceil18 .
    next
      case False
      then have "length ?t = 4 * (?q + 1) + (?q div 18 + 1)" using e(3) tail by auto
      moreover have "(?q + 1 + 17) div 18 = ?q div 18 + 1" by simp
      ultimately show ?thesis unfolding ceil3(2) [OF False] by (simp only:)
    qed
  qed
  ultimately show thesis by (rule that)
qed

text \<open>C29: Round trip: the text that \<open>base64_encode\<close> writes (its \<open>*out_len\<close> bytes, with the line feeds) for a source of
  fewer than \<open>2 ^ 30\<close> bytes, given to \<open>base64_decode\<close>. When the decoder gets the memory for its table, it succeeds, whatever the stack
  holds, reports the length of the source and stores the source bytes, and leaves its table allocated;
  when it does not, it returns 0 with a length of 0 and stores nothing.\<close>

theorem base64_roundtrip:
  assumes len: "length src < 2 ^ 30" and enc: "base64_encode False src = (ret, Some n, out)"
  shows "ret = 1 \<and> (\<exists>bytes. base64_decode True False inp0 block0 (take (nat n) out) = (1, Some (int (length src)), bytes, 1)
       \<and> take (length src) bytes = src)
    \<and> base64_decode False False inp0 block0 (take (nat n) out) = (0, Some 0, [], 0)"
proof -
  obtain e where e: "base64_encode False src = (1, Some (int (length e)), e @ [0])" "filter valid e = quads src"
    using encode_shape by blast
  with enc have r: "ret = 1" "take (nat n) out = e" by auto
  let ?k = "(length src + 2) div 3"
  have cnt: "count_symbols e = of_nat (4 * ?k)" by (simp add: count_symbols_filter e(2) length_quads)
  have "unat (of_nat (4 * ?k) :: u32) = 4 * ?k" by (rule u32_nat) (use len in simp)
  then have "unat ((of_nat (4 * ?k) :: u32) mod 4) = 0" unfolding unat_mod by (simp del: of_nat_mult)
  then have m4: "(of_nat (4 * ?k) :: u32) mod 4 = 0" by (simp only: unat_eq_0)
  obtain inp pos where d: "dec_loop e inp0 block0 0 [] = (inp, pos)" by fastforce
  show ?thesis
  proof (cases "src = []")
    case True
    with d e(2) have "pos = []" by (auto simp: dec_loop_filter [of e] enc_tail_simps)
    with True r cnt m4 d show ?thesis by (simp add: base64_decode_def)
  next
    case False
    from d e(2) have "dec_loop (quads src) inp0 block0 0 [] = (inp, pos)" by (simp add: dec_loop_filter [of e])
    from dec_quads [OF this False] have p: "pos = src @ replicate (fill (length src)) 0"
      "inp 2 = PAD \<longleftrightarrow> length src mod 3 = 1" "inp 3 = PAD \<longleftrightarrow> length src mod 3 \<noteq> 0" by simp_all
    have "length src mod 3 < 3" by simp
    then have "int (length pos) - (if inp 2 = PAD then 2 else if inp 3 = PAD then 1 else 0) = int (length src)"
      unfolding p by (auto simp: fill_def)
    with False p(1) r cnt m4 d show ?thesis by (auto simp: base64_decode_def)
  qed
qed

text \<open>The buffer that \<open>base64_calc_encode_length\<close> asks for is large enough for everything
  \<open>base64_encode\<close> stores, terminator included, as long as four times the length does not
  overflow 32 bits.\<close>

theorem base64_encode_fits:
  assumes len: "length src < 2 ^ 30"
  shows "length (snd (snd (base64_encode False src))) \<le> unat (base64_calc_encode_length (of_nat (length src)))"
proof -
  let ?n = "length src"
  obtain e where e: "base64_encode False src = (1, Some (int (length e)), e @ [0])"
    "length e = 4 * ((?n + 2) div 3) + ((?n + 2) div 3 + 17) div 18" using encode_shape by blast
  have "unat (base64_calc_encode_length (of_nat ?n)) = (?n * 4 div 3 + 4) + (?n * 4 div 3 + 4) div 72 + 1"
  proof -
    have "?n < 2 ^ 32" using len by simp
    note n = u32_nat [OF this]
    have 1: "unat (of_nat ?n * 4 :: u32) = ?n * 4" using len n by (subst u32_times) auto
    have 2: "unat (of_nat ?n * 4 div 3 + 4 :: u32) = ?n * 4 div 3 + 4"
      using len 1 by (subst u32_plus) (simp_all add: unat_div)
    have 3: "unat (of_nat ?n * 4 div 3 + 4 + (of_nat ?n * 4 div 3 + 4) div 72 :: u32)
        = (?n * 4 div 3 + 4) + (?n * 4 div 3 + 4) div 72"
      using len 2 by (subst u32_plus) (simp_all add: unat_div)
    show ?thesis unfolding base64_calc_encode_length_def Let_def
      using len 3 by (subst u32_plus) simp_all
  qed
  moreover have a: "4 * ((?n + 2) div 3) + 1 \<le> ?n * 4 div 3 + 4" by presburger
  moreover have "(k + 17) div 18 \<le> (L div 72) + 1" if "4 * k + 1 \<le> L" for k L :: nat using that by linarith
  note this [OF a]
  moreover have "length (snd (snd (base64_encode False src))) = length e + 1" using e(1) by simp
  ultimately show ?thesis unfolding e(2) by linarith
qed

theorem base64_roundtrip_witness:
  "\<exists>n out bytes. base64_encode False [104, 105, 33, 7] = (1, Some n, out)
     \<and> base64_decode True False (\<lambda>_. 0) (\<lambda>_. 0) (take (nat n) out) = (1, Some 4, bytes, 1)
     \<and> take 4 bytes = [104, 105, 33, 7] \<and> base64_decode False False (\<lambda>_. 0) (\<lambda>_. 0) (take (nat n) out) = (0, Some 0, [], 0)"
proof -
  define s :: "u8 list" where "s = [104, 105, 33, 7]"
  have l: "length s = 4" by (simp add: s_def)
  obtain e where e: "base64_encode False s = (1, Some (int (length e)), e @ [0])" using encode_shape by blast
  from base64_roundtrip [OF _ e, of "\<lambda>_. 0" "\<lambda>_. 0"] e show ?thesis unfolding l s_def [symmetric] by auto
qed

theorem base64_encode_fits_witness:
  "length (snd (snd (base64_encode False [104, 105]))) \<le> unat (base64_calc_encode_length 2)"
  using base64_encode_fits [of "[104, 105]"] by simp

lemma dec_loop_length:
  assumes "count < 4"
  shows "length (snd (dec_loop src inp block count pos)) = length pos + 3 * ((count + length (filter valid src)) div 4)"
  using assms
proof (induction src arbitrary: inp block count pos)
  case Nil
  then show ?case by simp
next
  case (Cons x src)
  show ?case
  proof (cases "valid x")
    case False
    with Cons show ?thesis by (simp add: valid_def Let_def)
  next
    case True
    show ?thesis
    proof (cases "count = 3")
      case 3: True
      have "(4 + n) div 4 = Suc (n div 4)" for n :: nat by simp
      with 3 True Cons.IH [of 0] show ?thesis by (simp add: valid_def Let_def)
    next
      case F: False
      with Cons.prems have "Suc count < 4" by simp
      with F True Cons.IH [of "Suc count"] show ?thesis by (simp add: valid_def Let_def)
    qed
  qed
qed

text \<open>What \<open>base64_decode\<close> accepts and how much it stores. It succeeds exactly when its table
  could be allocated and the number of alphabet and padding characters is a multiple of
  four, whatever else the text contains; on failure it stores nothing. On success it stores
  three bytes per four characters, which fits in what \<open>base64_calc_decode_length\<close> asks for,
  and reports at most two bytes less. Each call that gets its table, successful or not, leaves it allocated.\<close>

theorem base64_decode_result:
  assumes len: "length src < 2 ^ 31" and dec: "base64_decode alloc_ok False inp0 block0 src = (ret, n, bytes, left)"
  shows "(ret = 1 \<longleftrightarrow> alloc_ok \<and> 4 dvd length (filter valid src))
    \<and> (ret = 0 \<longleftrightarrow> ret \<noteq> 1) \<and> (ret = 0 \<longrightarrow> bytes = []) \<and> left = (if alloc_ok then 1 else 0)
    \<and> (ret = 1 \<longrightarrow> 4 * length bytes = 3 * length (filter valid src)
         \<and> length bytes \<le> unat (fst (base64_calc_decode_length True src))
         \<and> (\<exists>k \<le> 2. n = Some (int (length bytes) - int k) \<and> k \<le> length bytes))"
proof -
  let ?k = "length (filter valid src)"
  have "?k < 2 ^ 32" using len length_filter_le [of valid src] by (simp del: length_filter_le)
  note u = u32_nat [OF this]
  have m: "(of_nat ?k :: u32) mod 4 = 0 \<longleftrightarrow> 4 dvd ?k"
  proof -
    have "(of_nat ?k :: u32) mod 4 = 0 \<longleftrightarrow> unat ((of_nat ?k :: u32) mod 4) = 0" by (simp only: unat_eq_0)
    then show ?thesis unfolding unat_mod u by (simp add: mod_eq_0_iff_dvd)
  qed
  obtain inp pos where d: "dec_loop src inp0 block0 0 [] = (inp, pos)" by fastforce
  have l: "length pos = 3 * (?k div 4)" using dec_loop_length [of 0 src inp0 block0 "[]"] d by simp
  show ?thesis
  proof (cases "alloc_ok \<and> 4 dvd ?k")
    case False
    with dec m have "ret = 0 \<and> bytes = [] \<and> left = (if alloc_ok then 1 else 0)"
      by (cases alloc_ok) (auto simp: base64_decode_def count_symbols_filter Let_def)
    with False show ?thesis by simp
  next
    case True
    then have r: "ret = 1" "bytes = pos" "left = 1"
      "n = Some (int (length pos) - (if pos \<noteq> [] then if inp 2 = PAD then 2 else if inp 3 = PAD then 1 else 0 else 0))"
      using dec m d by (auto simp: base64_decode_def count_symbols_filter Let_def)
    moreover have "4 * length pos = 3 * ?k" using l True by auto
    moreover have "unat (fst (base64_calc_decode_length True src)) = ?k"
      using True m u by (simp add: base64_calc_decode_length_def count_symbols_filter)
    moreover have "pos \<noteq> [] \<Longrightarrow> 3 \<le> length pos" using l by (cases "?k div 4") auto
    ultimately show ?thesis using True
      by (auto intro: exI [of _ "if pos \<noteq> [] then if inp 2 = PAD then 2 else if inp 3 = PAD then 1 else 0 else 0"])
  qed
qed

theorem base64_decode_result_witness:
  "\<exists>bytes n. base64_decode True False (\<lambda>_. 0) (\<lambda>_. 0) [97, 10, 71, 107, 104] = (1, n, bytes, 1) \<and> length bytes = 3"
proof -
  let ?src = "[97, 10, 71, 107, 104] :: u8 list"
  obtain ret n bytes left where d: "base64_decode True False (\<lambda>_. 0) (\<lambda>_. 0) ?src = (ret, n, bytes, left)" using prod_cases4 by blast
  have f: "length (filter valid ?src) = 4" by code_simp
  from base64_decode_result [OF _ d] f d show ?thesis by auto
qed

end
