(* ===== verification/Http_Client.thy ===== *)
theory Http_Client
  imports Base64
begin

text \<open>
  The request side of the HTTP client, \<^verbatim>\<open>app/http/utils_httpc.c\<close>: splitting of a URL,
  the basic-authentication header with its own Base64 encoder, and the send buffer.
  A C string is the list of its bytes before the terminator; plain \<^verbatim>\<open>char\<close> is unsigned, as on
  the ARM targets.
\<close>

abbreviation (input) ERROR_HTTP_PARSE :: int where "ERROR_HTTP_PARSE \<equiv> -7"
abbreviation (input) ERROR_HTTP :: int where "ERROR_HTTP \<equiv> -4"
abbreviation (input) SUCCESS_RETURN :: int where "SUCCESS_RETURN \<equiv> 0"
abbreviation (input) HTTPCLIENT_AUTHB_SIZE :: nat where "HTTPCLIENT_AUTHB_SIZE \<equiv> 128"
abbreviation (input) HTTPCLIENT_SEND_BUF_SIZE :: nat where "HTTPCLIENT_SEND_BUF_SIZE \<equiv> 2048"

type_synonym cstr = "u8 list"

definition str :: "string \<Rightarrow> cstr" where
  "str s = map of_char s"

fun os_strstr :: "cstr \<Rightarrow> cstr \<Rightarrow> nat option" where
  "os_strstr [] pat = (if pat = [] then Some 0 else None)"
| "os_strstr (c # cs) pat = (if prefix pat (c # cs) then Some 0 else map_option Suc (os_strstr cs pat))"

fun os_strchr :: "cstr \<Rightarrow> u8 \<Rightarrow> nat option" where
  "os_strchr [] x = None"
| "os_strchr (c # cs) x = (if c = x then Some 0 else map_option Suc (os_strchr cs x))"

section \<open>The encoder\<close>

definition code :: "u8 list" where
  "code = str ''ABCDEFGHIJKLMNOPQRSTUVWXYZabcdefghijklmnopqrstuvwxyz0123456789+/=''"

text \<open>The inner loop \<open>for (l += 8; l >= 6; l -= 6)\<close>; \<open>x\<close> is an \<^verbatim>\<open>int\<close>.\<close>

fun enc_emit :: "u32 \<Rightarrow> nat \<Rightarrow> u8 list \<Rightarrow> nat \<times> u8 list" where
  "enc_emit x l out =
     (if 6 \<le> l then enc_emit x (l - 6) (out @ [code ! unat (signed_drop_bit (l - 6) x AND 0x3f)]) else (l, out))"

declare enc_emit.simps [simp del]

fun enc_chars :: "u8 list \<Rightarrow> u32 \<Rightarrow> nat \<Rightarrow> u8 list \<Rightarrow> u32 \<times> nat \<times> u8 list" where
  "enc_chars [] x l out = (x, l, out)"
| "enc_chars (c # cs) x l out =
     (if c = 0 then (x, l, out)
      else let x = push_bit 8 x OR ucast c; (l, out) = enc_emit x (l + 8) out in enc_chars cs x l out)"

definition enc_pad :: "u8 list \<Rightarrow> u8 list" where
  "enc_pad out = out @ replicate ((4 - length out mod 4) mod 4) (code ! 64)"

text \<open>The bytes stored at \<open>out\<close>, the terminator included.\<close>

definition httpclient_base64enc :: "u8 list \<Rightarrow> u8 list" where
  "httpclient_base64enc inp =
     (let (x, l, out) = enc_chars inp 0 0 [];
          out = (if 0 < l then out @ [code ! unat (push_bit (6 - l) x AND 0x3f)] else out)
      in enc_pad out @ [0])"

section \<open>URLs\<close>

text \<open>
  What \<^verbatim>\<open>httpclient_parse_url\<close> returns and has stored through its pointers; \<open>None\<close> where
  it stores nothing. A copy of more bytes than the URL has is a fault.
\<close>

record url_result =
  url_ret :: int
  url_scheme :: "cstr option"
  url_host :: "cstr option"
  url_path :: "cstr option"

definition url_error :: "int \<Rightarrow> cstr option \<Rightarrow> cstr option \<Rightarrow> fault + url_result" where
  "url_error e sch h = Inr \<lparr>url_ret = e, url_scheme = sch, url_host = h, url_path = None\<rparr>"

definition httpclient_parse_url :: "cstr \<Rightarrow> u32 \<Rightarrow> u32 \<Rightarrow> u32 \<Rightarrow> fault + url_result" where
  "httpclient_parse_url url max_scheme_len maxhost_len max_path_len =
    (case os_strstr url (str ''://'') of
       None \<Rightarrow> url_error ERROR_HTTP_PARSE None None
     | Some k \<Rightarrow>
       if max_scheme_len < of_nat k + 1 then url_error ERROR_HTTP_PARSE None None
       else let scheme = take k url; host_ptr = drop (k + 3) url in
         case os_strchr host_ptr (of_char CHR ''/'') of
           None \<Rightarrow> url_error (-1) (Some scheme) None
         | Some host_len \<Rightarrow>
           if maxhost_len < of_nat host_len + 1 then url_error ERROR_HTTP_PARSE (Some scheme) None
           else let host = take host_len host_ptr; path_ptr = drop host_len host_ptr;
                    path_len = (case os_strchr host_ptr (of_char CHR ''#'') of
                        Some f \<Rightarrow> of_nat f - of_nat host_len
                      | None \<Rightarrow> of_nat (length path_ptr)) in
             if max_path_len < path_len + 1 then url_error ERROR_HTTP_PARSE (Some scheme) (Some host)
             else if length path_ptr < unat path_len then Inl Bad_Index
             else Inr \<lparr>url_ret = SUCCESS_RETURN, url_scheme = Some scheme, url_host = Some host,
                       url_path = Some (take (unat path_len) path_ptr)\<rparr>)"

text \<open>
  \<^verbatim>\<open>httpclient_parse_host\<close> subtracts from the result of \<^verbatim>\<open>os_strchr\<close> without a NULL check;
  \<open>base\<close> is the address of the URL.
\<close>

definition httpclient_parse_host :: "u32 \<Rightarrow> cstr \<Rightarrow> u32 \<Rightarrow> fault + int \<times> cstr option" where
  "httpclient_parse_host base url maxhost_len =
    (case os_strstr url (str ''://'') of
       None \<Rightarrow> Inr (ERROR_HTTP_PARSE, None)
     | Some k \<Rightarrow>
       let host_ptr = drop (k + 3) url;
           host_len = (case os_strchr host_ptr (of_char CHR ''/'') of
               Some n \<Rightarrow> of_nat n
             | None \<Rightarrow> 0 - (base + of_nat (k + 3))) in
       if maxhost_len < host_len + 1 then Inr (ERROR_HTTP_PARSE, None)
       else if length host_ptr < unat host_len then Inl Bad_Index
       else Inr (SUCCESS_RETURN, Some (take (unat host_len) host_ptr)))"

section \<open>The send buffer\<close>

text \<open>
  \<^verbatim>\<open>client->net.write\<close> (a function pointer) is a parameter: the result and the next state of
  the connection. The buffer is its contents up to \<open>send_idx\<close>. The loop of
  \<^verbatim>\<open>httpclient_get_info\<close> stops when \<open>len\<close> is 0 or the write reports anything but 0; it never
  resets the index, so the value \<open>None\<close> (no end) is possible.
\<close>

type_synonym 'n net_write = "cstr \<Rightarrow> 'n \<Rightarrow> int \<times> 'n"

partial_function (option) info_loop ::
    "'n net_write \<Rightarrow> cstr \<Rightarrow> cstr \<Rightarrow> nat \<Rightarrow> 'n \<Rightarrow> (int \<times> cstr \<times> 'n) option" where
  "info_loop wr send_buf buf len n =
     (let idx = length send_buf;
          cp_len = (if len \<le> HTTPCLIENT_SEND_BUF_SIZE - idx then len else HTTPCLIENT_SEND_BUF_SIZE - idx);
          send_buf = send_buf @ take cp_len buf;
          len = len - cp_len in
      if idx + cp_len = HTTPCLIENT_SEND_BUF_SIZE
      then case wr send_buf n of (ret, n') \<Rightarrow>
             if ret \<noteq> 0 then Some (ret, send_buf, n')
             else if len \<noteq> 0 then info_loop wr send_buf buf len n'
             else Some (SUCCESS_RETURN, send_buf, n')
      else if len \<noteq> 0 then info_loop wr send_buf buf len n
      else Some (SUCCESS_RETURN, send_buf, n))"

definition httpclient_get_info :: "'n net_write \<Rightarrow> cstr \<Rightarrow> cstr \<Rightarrow> nat \<Rightarrow> 'n \<Rightarrow> (int \<times> cstr \<times> 'n) option" where
  "httpclient_get_info wr send_buf buf len n = info_loop wr send_buf buf (if len = 0 then length buf else len) n"

record httpclient_t =
  cl_header :: "cstr option"
  auth_user :: "cstr option"
  auth_password :: "cstr option"

definition httpclient_set_custom_header :: "cstr option \<Rightarrow> httpclient_t \<Rightarrow> httpclient_t" where
  "httpclient_set_custom_header h c = c\<lparr>cl_header := h\<rparr>"

definition httpclient_basic_auth :: "cstr \<Rightarrow> cstr \<Rightarrow> httpclient_t \<Rightarrow> int \<times> httpclient_t" where
  "httpclient_basic_auth user password c =
     (if HTTPCLIENT_AUTHB_SIZE \<le> length user + length password then (ERROR_HTTP, c)
      else (SUCCESS_RETURN, c\<lparr>auth_user := Some user, auth_password := Some password\<rparr>))"

text \<open>The two stack arrays of \<^verbatim>\<open>httpclient_send_auth\<close>: what is formatted into them has to fit.\<close>

definition httpclient_send_auth ::
    "'n net_write \<Rightarrow> cstr \<Rightarrow> cstr \<Rightarrow> cstr \<Rightarrow> 'n \<Rightarrow> fault + (int \<times> cstr \<times> 'n) option" where
  "httpclient_send_auth wr user password send_buf n =
    (case httpclient_get_info wr send_buf (str ''Authorization: Basic '') 0 n of
       None \<Rightarrow> Inr None
     | Some (_, send_buf, n) \<Rightarrow>
       let base64buff = user @ [of_char CHR '':''] @ password @ [0] in
       if HTTPCLIENT_AUTHB_SIZE + 3 < length base64buff then Inl Bad_Index
       else let b_auth = httpclient_base64enc base64buff in
         if (HTTPCLIENT_AUTHB_SIZE + 3) * 4 div 3 + 1 < length b_auth + 1 then Inl Bad_Index
         else let b_auth = butlast b_auth @ [10] in
           case httpclient_get_info wr send_buf b_auth 0 n of
             None \<Rightarrow> Inr None
           | Some (_, send_buf, n) \<Rightarrow> Inr (Some (SUCCESS_RETURN, send_buf, n)))"

section \<open>The two encoders agree\<close>

lemma code_append: "code = base_64_table @ [PAD]" "length base_64_table = 64"
  by (simp_all add: code_def base_64_table_def str_def)

lemma code_table: "i < 64 \<Longrightarrow> code ! i = base_64_table ! i"
  by (simp add: code_append nth_append)

lemma code_pad: "code ! 64 = PAD"
  by (simp add: code_append nth_append)

lemma mask6: "(0x3f :: 'a::len word) = mask 6"
  by (simp add: mask_eq_exp_minus_1)

lemma code_b64: "code ! unat (w AND 0x3f :: u32) = b64 (ucast w AND 0x3f)"
proof -
  have "w AND 0x3f < 64" unfolding mask6 by (rule and_mask_less_size [where n = 6, simplified]) (simp add: word_size)
  then have lt: "unat (w AND 0x3f) < 64" by (simp add: word_less_nat_alt)
  have "ucast w AND (0x3f :: u8) = ucast (w AND 0x3f)" unfolding mask6 by (rule bit_word_eqI) (auto simp: bit_simps)
  with lt show ?thesis
    by (simp add: code_table b64_def unsigned_ucast_eq take_bit_nat_eq_self)
qed

lemma enc_emit_end: "l < 6 \<Longrightarrow> enc_emit x l out = (l, out)"
  by (simp add: enc_emit.simps)

lemma enc_emit_one:
  "6 \<le> l \<Longrightarrow> enc_emit x l out = enc_emit x (l - 6) (out @ [b64 (ucast (signed_drop_bit (l - 6) x) AND 0x3f)])"
  by (subst enc_emit.simps) (simp add: code_b64)

text \<open>The register after one more byte.\<close>

definition shift_in :: "u32 \<Rightarrow> u8 \<Rightarrow> u32" where
  "shift_in x c = push_bit 8 x OR ucast c"

lemma sextets:
  fixes a b c :: u8 and x :: u32
  shows "ucast (signed_drop_bit 2 (shift_in x a)) AND 0x3f = s0 a"
    "ucast (signed_drop_bit 4 (shift_in (shift_in x a) b)) AND 0x3f = s1 a b"
    "ucast (signed_drop_bit 6 (shift_in (shift_in x b) c)) AND 0x3f = s2 b c"
    "ucast (signed_drop_bit 0 (shift_in x c)) AND 0x3f = s3 c"
    "ucast (push_bit 4 (shift_in x a)) AND 0x3f = s1 a 0"
    "ucast (push_bit 2 (shift_in x b)) AND 0x3f = s2 b 0"
proof -
  have cs: "n = 0 \<or> n = 1 \<or> n = 2 \<or> n = 3 \<or> n = 4 \<or> n = 5 \<or> n = 6 \<or> n = 7" if "n < LENGTH(8)" for n
    using that by auto
  have m: "(0x03 :: u8) = mask 2" "(0x0f :: u8) = mask 4" by (simp_all add: mask_eq_exp_minus_1)
  have high: "8 \<le> k \<Longrightarrow> \<not> bit y k" for k and y :: u8 by (auto dest: bit_imp_le_length)
  note bits = bit_simps bit_signed_drop_bit_iff high
  note defs = shift_in_def s0_def s1_def s2_def s3_def mask6 m
  show "ucast (signed_drop_bit 2 (shift_in x a)) AND 0x3f = s0 a"
    unfolding defs by (rule bit_word_eqI, drule cs) (auto simp: bits)
  show "ucast (signed_drop_bit 4 (shift_in (shift_in x a) b)) AND 0x3f = s1 a b"
    unfolding defs by (rule bit_word_eqI, drule cs) (auto simp: bits)
  show "ucast (signed_drop_bit 6 (shift_in (shift_in x b) c)) AND 0x3f = s2 b c"
    unfolding defs by (rule bit_word_eqI, drule cs) (auto simp: bits)
  show "ucast (signed_drop_bit 0 (shift_in x c)) AND 0x3f = s3 c"
    unfolding defs by (rule bit_word_eqI, drule cs) (auto simp: bits)
  show "ucast (push_bit 4 (shift_in x a)) AND 0x3f = s1 a 0"
    unfolding defs by (rule bit_word_eqI, drule cs) (auto simp: bits)
  show "ucast (push_bit 2 (shift_in x b)) AND 0x3f = s2 b 0"
    unfolding defs by (rule bit_word_eqI, drule cs) (auto simp: bits)
qed

lemma enc_chars_stop: "enc_chars inp x l out = enc_chars (takeWhile (\<lambda>b. b \<noteq> 0) inp) x l out"
  by (induction inp x l out rule: enc_chars.induct) (simp_all add: Let_def split_def)

definition enc_finish :: "u32 \<times> nat \<times> u8 list \<Rightarrow> u8 list" where
  "enc_finish = (\<lambda>(x, l, out).
     enc_pad (if 0 < l then out @ [code ! unat (push_bit (6 - l) x AND 0x3f)] else out))"

lemma enc_step:
  assumes "c \<noteq> 0"
  shows "enc_chars (c # cs) x 0 out = enc_chars cs (shift_in x c) 2 (out @ [b64 (s0 c)])"
    and "enc_chars (c # cs) (shift_in x a) 2 out = enc_chars cs (shift_in (shift_in x a) c) 4 (out @ [b64 (s1 a c)])"
    and "enc_chars (c # cs) (shift_in x a) 4 out = enc_chars cs (shift_in (shift_in x a) c) 0 (out @ [b64 (s2 a c), b64 (s3 c)])"
  using assms sextets(4) [of "shift_in x a" c]
  by (simp_all add: enc_emit_one enc_emit_end sextets Let_def flip: shift_in_def)

lemma enc_pad_end:
  assumes "length out mod 4 = 0"
  shows "enc_pad out = out" "enc_pad (out @ [p, q]) = out @ [p, q, PAD, PAD]" "enc_pad (out @ [p, q, r]) = out @ [p, q, r, PAD]"
proof -
  have "Suc (Suc (length out)) mod 4 = 2" "Suc (Suc (Suc (length out))) mod 4 = 3" using assms by presburger+
  then show "enc_pad out = out" "enc_pad (out @ [p, q]) = out @ [p, q, PAD, PAD]" "enc_pad (out @ [p, q, r]) = out @ [p, q, r, PAD]"
    using assms by (simp_all add: enc_pad_def code_pad numeral_2_eq_2)
qed

lemma enc_rest:
  assumes "length out mod 4 = 0"
  shows "enc_finish (enc_chars [] x 0 out) = out"
    and "a \<noteq> 0 \<Longrightarrow> enc_finish (enc_chars [a] x 0 out) = out @ enc_tail [a]"
    and "a \<noteq> 0 \<Longrightarrow> b \<noteq> 0 \<Longrightarrow> enc_finish (enc_chars [a, b] x 0 out) = out @ enc_tail [a, b]"
  using assms
  by (simp_all add: enc_step enc_finish_def enc_pad_end code_b64 sextets enc_tail_simps del: enc_chars.simps(2))

lemma enc_chars_quads:
  "0 \<notin> set src \<Longrightarrow> length out mod 4 = 0 \<Longrightarrow> enc_finish (enc_chars src x 0 out) = out @ quads src"
proof (induction src arbitrary: x out rule: quads.induct)
  case (1 a b c rest)
  then show ?case by (simp add: enc_step quad_def del: enc_chars.simps(2))
qed (auto simp: enc_rest enc_tail_simps simp del: enc_chars.simps)

lemma base64enc_quads: "httpclient_base64enc inp = quads (takeWhile (\<lambda>b. b \<noteq> 0) inp) @ [0]"
proof -
  have "0 \<notin> set (takeWhile (\<lambda>b. b \<noteq> 0) inp)" by (auto dest: set_takeWhileD)
  then show ?thesis
    using enc_chars_quads [of "takeWhile (\<lambda>b. b \<noteq> 0) inp" "[]" 0] enc_chars_stop [of inp 0 0 "[]"]
    by (simp add: httpclient_base64enc_def enc_finish_def split_def Let_def)
qed

text \<open>
  the HTTP client's Base64 encoder computes what the Base64 component computes. On every
  string (the bytes before the first 0) it stores the encoding that
  \<^verbatim>\<open>components/base64/base_64.c\<close> produces with the characters outside the alphabet (the line
  feeds) left out, and the terminator.
\<close>

theorem base64enc_agrees:
  assumes "base64_encode False (takeWhile (\<lambda>b. b \<noteq> 0) inp) = (ret, Some n, out)"
  shows "httpclient_base64enc inp = filter valid (take (nat n) out) @ [0]"
proof -
  let ?src = "takeWhile (\<lambda>b. b \<noteq> 0) inp"
  obtain e where "base64_encode False ?src = (1, Some (int (length e)), e @ [0])" "filter valid e = quads ?src"
    using encode_shape by blast
  with assms base64enc_quads [of inp] show ?thesis by auto
qed

theorem base64enc_agrees_witness:
  "\<exists>n out. base64_encode False [104, 105, 33, 7] = (1, Some n, out)
     \<and> httpclient_base64enc [104, 105, 33, 7, 0, 9] = filter valid (take (nat n) out) @ [0]"
proof -
  obtain e where e: "base64_encode False [104, 105, 33, 7] = (1, Some (int (length e)), e @ [0])"
    using encode_shape by blast
  then have "base64_encode False (takeWhile (\<lambda>b. b \<noteq> 0) [104, 105, 33, 7, 0, 9]) = (1, Some (int (length e)), e @ [0])"
    by simp
  from base64enc_agrees [OF this] e show ?thesis by blast
qed

section \<open>Splitting a URL\<close>

abbreviation (input) SLASH :: u8 where "SLASH \<equiv> of_char CHR ''/''"
abbreviation (input) HASH :: u8 where "HASH \<equiv> of_char CHR ''#''"
abbreviation (input) COLON :: u8 where "COLON \<equiv> of_char CHR '':''"

lemma strchr_none [simp]: "x \<notin> set s \<Longrightarrow> os_strchr s x = None"
  by (induction s) auto

lemma strchr_append [simp]: "x \<notin> set a \<Longrightarrow> os_strchr (a @ b) x = map_option (\<lambda>i. length a + i) (os_strchr b x)"
  by (induction a; cases "os_strchr b x") auto

lemma strstr_scheme:
  "COLON \<notin> set a \<Longrightarrow> os_strstr (a @ str ''://'' @ b) (str ''://'') = Some (length a)"
  by (induction a) (auto simp: str_def)

text \<open>The parser on a URL whose parts are delimited where it looks for the delimiters.\<close>

lemma parse_url_split:
  assumes "COLON \<notin> set scheme" and "SLASH \<notin> set host"
    and "of_nat (length scheme) + 1 \<le> ms" and "of_nat (length host) + 1 \<le> mh"
  shows "httpclient_parse_url (scheme @ str ''://'' @ host @ SLASH # rest) ms mh mp =
    (let path_len = (case os_strchr (host @ SLASH # rest) HASH of
         Some f \<Rightarrow> of_nat f - of_nat (length host) | None \<Rightarrow> of_nat (Suc (length rest))) in
     if mp < path_len + 1 then url_error ERROR_HTTP_PARSE (Some scheme) (Some host)
     else if Suc (length rest) < unat path_len then Inl Bad_Index
     else Inr \<lparr>url_ret = SUCCESS_RETURN, url_scheme = Some scheme, url_host = Some host,
               url_path = Some (take (unat path_len) (SLASH # rest))\<rparr>)"
proof -
  have d: "drop (length scheme + 3) (scheme @ str ''://'' @ host @ SLASH # rest) = host @ SLASH # rest"
    by (simp add: str_def)
  have s: "os_strchr (host @ SLASH # rest) SLASH = Some (length host)" using assms(2) by simp
  have t: "take (length scheme) (scheme @ xs) = scheme" "take (length host) (host @ xs) = host"
    "drop (length host) (host @ xs) = xs" "length (SLASH # rest) = Suc (length rest)" for xs by simp_all
  have g: "\<not> ms < of_nat (length scheme) + 1" "\<not> mh < of_nat (length host) + 1" using assms(3,4) by simp_all
  show ?thesis
    unfolding httpclient_parse_url_def strstr_scheme [OF assms(1)] option.case Let_def d s if_not_P [OF g(1)] if_not_P [OF g(2)] t
    by (rule refl)
qed

text \<open>
  splitting inverts assembling. A URL made of a scheme, a host and a path, with or
  without a fragment, whose parts fit the buffers with their terminators, is split into
  exactly these parts, and the fragment is dropped.
\<close>

theorem parse_url_roundtrip:
  assumes "COLON \<notin> set scheme" and "SLASH \<notin> set host" and "HASH \<notin> set host" and "HASH \<notin> set rest"
    and "fragment = [] \<or> hd fragment = HASH"
    and "length scheme < unat ms" and "length host < unat mh" and "Suc (length rest) < unat mp"
  shows "httpclient_parse_url (scheme @ str ''://'' @ host @ SLASH # rest @ fragment) ms mh mp =
     Inr \<lparr>url_ret = SUCCESS_RETURN, url_scheme = Some scheme, url_host = Some host, url_path = Some (SLASH # rest)\<rparr>"
proof -
  have b: "length scheme + 1 < 2 ^ 32" "length host + 1 < 2 ^ 32" "length rest + 2 < 2 ^ 32"
    using assms(6-8) word_unat_less32 [of ms] word_unat_less32 [of mh] word_unat_less32 [of mp] by linarith+
  have u: "unat (of_nat (length scheme) + 1 :: u32) = length scheme + 1" "unat (of_nat (length host) + 1 :: u32) = length host + 1"
    using b by (simp_all add: unat_word_ariths unat_of_nat)
  have le: "of_nat (length scheme) + 1 \<le> ms" "of_nat (length host) + 1 \<le> mh"
    using assms(6,7) by (simp_all only: word_le_nat_alt u)
  define pl :: u32 where "pl = of_nat (Suc (length rest))"
  have pl: "unat pl = Suc (length rest)" "unat (pl + 1) = Suc (length rest) + 1"
    using b(3) by (simp_all add: pl_def unat_word_ariths unat_of_nat)
  have "(case os_strchr (host @ SLASH # rest @ fragment) HASH of
         Some f \<Rightarrow> of_nat f - of_nat (length host) | None \<Rightarrow> of_nat (Suc (length (rest @ fragment)))) = pl"
    using assms(3-5) by (cases fragment) (auto simp: pl_def)
  moreover have "\<not> mp < pl + 1" using assms(8) pl(2) by (simp add: word_less_nat_alt)
  ultimately show ?thesis
    using parse_url_split [OF assms(1,2) le, of "rest @ fragment" mp] pl(1) by (simp add: Let_def)
qed

text \<open>
  a fragment before the path defeats the check of the path length. When the first slash
  after the scheme follows a \<open>#\<close> directly, the length is computed as -1, its increment as 0,
  which passes every bound, and the copy of the path runs past the URL.
\<close>

theorem parse_url_fragment_faults:
  assumes "COLON \<notin> set scheme" and "SLASH \<notin> set h" and "HASH \<notin> set h" and "length rest < 2 ^ 31"
    and "length scheme < unat ms" and "Suc (length h) < unat mh"
  shows "httpclient_parse_url (scheme @ str ''://'' @ (h @ [HASH]) @ SLASH # rest) ms mh mp = Inl Bad_Index"
proof -
  have b: "length scheme + 1 < 2 ^ 32" "length h + 2 < 2 ^ 32"
    using assms(5,6) word_unat_less32 [of ms] word_unat_less32 [of mh] by linarith+
  have u: "unat (of_nat (length scheme) + 1 :: u32) = length scheme + 1"
    "unat (of_nat (length (h @ [HASH])) + 1 :: u32) = length h + 2"
    using b by (simp_all add: unat_word_ariths unat_of_nat)
  have le: "of_nat (length scheme) + 1 \<le> ms" "of_nat (length (h @ [HASH])) + 1 \<le> mh"
    using assms(5,6) by (simp_all only: word_le_nat_alt u)
  have "(case os_strchr ((h @ [HASH]) @ SLASH # rest) HASH of
         Some f \<Rightarrow> of_nat f - of_nat (length (h @ [HASH])) | None \<Rightarrow> of_nat (Suc (length rest))) = (- 1 :: u32)"
    using assms(3) by simp
  moreover have "SLASH \<notin> set (h @ [HASH])" using assms(2) by simp
  ultimately show ?thesis
    using parse_url_split [OF assms(1) _ le, of rest mp] assms(4) by (simp add: Let_def unsigned_minus_1_eq_mask mask_eq_exp_minus_1)
qed

theorem parse_url_roundtrip_witness:
  "httpclient_parse_url (str ''http'' @ str ''://'' @ str ''host:80'' @ SLASH # str ''a/b'' @ str ''#x/y'') 8 64 64 =
     Inr \<lparr>url_ret = SUCCESS_RETURN, url_scheme = Some (str ''http''), url_host = Some (str ''host:80''),
          url_path = Some (SLASH # str ''a/b'')\<rparr>"
  by (rule parse_url_roundtrip) (simp_all add: str_def)

theorem parse_url_fragment_faults_witness:
  "httpclient_parse_url (str ''http'' @ str ''://'' @ (str ''h'' @ [HASH]) @ SLASH # str ''x'') 8 64 64 = Inl Bad_Index"
  by (rule parse_url_fragment_faults) (simp_all add: str_def)

section \<open>The authentication header\<close>

lemma get_info_fits:
  assumes "length send_buf + length buf < 2048"
  shows "httpclient_get_info wr send_buf buf 0 n = Some (SUCCESS_RETURN, send_buf @ buf, n)"
proof -
  have "length buf \<le> 2048 - length send_buf" "length send_buf + length buf \<noteq> 2048" using assms by linarith+
  then show ?thesis
    unfolding httpclient_get_info_def by (subst info_loop.simps) (simp add: Let_def)
qed

lemma takeWhile_string: "0 \<notin> set src \<Longrightarrow> takeWhile (\<lambda>b. b \<noteq> 0) (src @ [0]) = (src :: u8 list)"
  by (induction src) auto

text \<open>
  credentials that \<^verbatim>\<open>httpclient_basic_auth\<close> accepts fit the two arrays of
  \<^verbatim>\<open>httpclient_send_auth\<close>: it never writes outside them, and with room in the send buffer it
  appends the header with the encoding of \<open>user:password\<close>, ended by a line feed alone.
\<close>

theorem send_auth_header:
  assumes "httpclient_basic_auth user password c = (SUCCESS_RETURN, c')" and "0 \<notin> set user" and "0 \<notin> set password"
    and "length send_buf \<le> 1800"
  shows "auth_user c' = Some user \<and> auth_password c' = Some password
   \<and> httpclient_send_auth wr user password send_buf n =
       Inr (Some (SUCCESS_RETURN, send_buf @ str ''Authorization: Basic '' @ quads (user @ COLON # password) @ [10], n))"
proof -
  have l: "length user + length password < 128" and c: "c' = c\<lparr>auth_user := Some user, auth_password := Some password\<rparr>"
    using assms(1) by (auto simp: httpclient_basic_auth_def split: if_splits)
  let ?s = "user @ COLON # password" and ?h = "str ''Authorization: Basic ''"
  have q: "length (quads ?s) \<le> 172" unfolding length_quads using l div_le_mono [of "length ?s + 2" 130 3] by simp
  have z: "0 \<notin> set ?s" using assms(2,3) by simp
  have e: "httpclient_base64enc (user @ [COLON] @ password @ [0]) = quads ?s @ [0]" using base64enc_quads [of "?s @ [0]"] takeWhile_string [OF z] by simp
  have h: "length ?h = 21" by (simp add: str_def)
  have 1: "httpclient_get_info wr send_buf ?h 0 n = Some (SUCCESS_RETURN, send_buf @ ?h, n)"
    by (rule get_info_fits) (use assms(4) h in linarith)
  have 2: "httpclient_get_info wr (send_buf @ ?h) (quads ?s @ [10]) 0 n
      = Some (SUCCESS_RETURN, (send_buf @ ?h) @ quads ?s @ [10], n)"
    by (rule get_info_fits) (use assms(4) h q in simp)
  have "\<not> 131 < length (user @ [COLON] @ password @ [0])" using l by simp
  moreover have "\<not> (HTTPCLIENT_AUTHB_SIZE + 3) * 4 div 3 + 1 < length (quads ?s @ [0]) + 1" using q by simp
  ultimately show ?thesis
    unfolding httpclient_send_auth_def 1 option.case prod.case Let_def e using 2 c by simp
qed

theorem send_auth_header_witness:
  "httpclient_send_auth (\<lambda>_ n. (0, n)) [117] [112, 119] [] () =
     Inr (Some (SUCCESS_RETURN, [] @ str ''Authorization: Basic '' @ quads ([117] @ COLON # [112, 119]) @ [10], ()))"
  by (rule send_auth_header [THEN conjunct2, THEN conjunct2,
        of _ _ "\<lparr>cl_header = None, auth_user = None, auth_password = None\<rparr>"])
    (simp_all add: httpclient_basic_auth_def)

end
