(* ===== verification/Tftp.thy ===== *)
theory Tftp
  imports Flash_Dev Flash_Stream
begin

text \<open>
  The TFTP firmware client, \<^verbatim>\<open>app/tftp/tftpclient.c\<close>, over the flash driver: the packets it
  sends, the handler of received packets, the timer, starting and stopping, and
  \<^verbatim>\<open>store_block\<close>, which writes the image. Outside the sources and parameters of the model
  (\<open>tftp_env\<close>): the CRC of the MAC library, the results of the allocations, of
  \<^verbatim>\<open>socket\<close> and of the kernel calls. Printing is left out, but a string read by an
  argument of a print that runs past the receive buffer is a fault.
\<close>

section \<open>State\<close>

text \<open>\<^verbatim>\<open>TftpState\<close> is an int that is 0 before the first start.\<close>

datatype tftp_state = STATE_ZERO | STATE_RRQ | STATE_DATA | STATE_TOO_LARGE | STATE_BAD_MAGIC | STATE_OACK

record send_ptk_hd =
  total_len :: u32
  seq :: u16
  total_seq :: u16
  os0_ex_addr :: u32
  os_hd_addr :: u32
  os0_flash_addr :: u32
  os1_flash_addr :: u32

record img_head =
  bkup_addr :: u32
  bkup_len :: u32
  ex_addr :: u32
  os_addr :: u32
  hd_addr :: u32
  img_crc :: u32
  img_status :: u32
  img_bk :: u32

text \<open>The receive buffer pointer and the thread handle, with what they point to.\<close>

datatype tf_buf = Buf_Null | Buf_Live "u8 list" | Buf_Freed
datatype tf_thread = Thr_None | Thr_Live | Thr_Gone

record 'h tftp_st =
  fl :: "'h flash_st"
  TftpServerPort :: u16
  TftpOurPort :: u32
  TftpTimeoutCount :: u32
  TftpBlock :: "64 word"
  TftpLastBlock :: "64 word"
  TftpBlockWrap :: "64 word"
  TftpBlockWrapOffset :: "64 word"
  TftpState :: tftp_state
  TftpBlkSize :: u16
  BootFile :: "u8 list"
  send_hd :: send_ptk_hd
  send_hd_bk :: send_ptk_hd
  os_data_addr :: u32
  tftp_crc :: u32
  img_hd :: img_head
  sin_port :: u16
  udp_fd :: int
  tftp_buf :: tf_buf
  timer_on :: bool
  thread :: tf_thread
  sent :: "(u16 \<times> u8 list) list"

text \<open>
  \<open>sent\<close> lists the datagrams handed to \<^verbatim>\<open>sendto\<close> with the port they go to. \<open>crc bs c\<close> is
  \<^verbatim>\<open>co_crc32\<close> over the bytes \<open>bs\<close> from \<open>c\<close>; \<open>heap\<close> the outcome of the allocation in
  \<^verbatim>\<open>store_block\<close>.
\<close>

record tftp_env =
  crc :: "u8 list \<Rightarrow> u32 \<Rightarrow> u32"
  heap :: bool
  rx_alloc :: "u8 list option"
  sock :: int
  tick :: u32
  timer_ok :: bool
  thread_ok :: bool

abbreviation (input) OS1_FLASH_ADDR :: u32 where "OS1_FLASH_ADDR \<equiv> 0x8C000"
abbreviation (input) TFTP_PKT_HD_LEN :: nat where "TFTP_PKT_HD_LEN \<equiv> 24"
abbreviation (input) WELL_KNOWN_PORT :: u16 where "WELL_KNOWN_PORT \<equiv> 69"
abbreviation (input) TIMEOUT_COUNT :: int where "TIMEOUT_COUNT \<equiv> 10"
abbreviation (input) TFTP_RRQ :: u16 where "TFTP_RRQ \<equiv> 1"
abbreviation (input) TFTP_DATA :: u16 where "TFTP_DATA \<equiv> 3"
abbreviation (input) TFTP_ACK :: u16 where "TFTP_ACK \<equiv> 4"
abbreviation (input) TFTP_ERROR :: u16 where "TFTP_ERROR \<equiv> 5"
abbreviation (input) TFTP_OACK :: u16 where "TFTP_OACK \<equiv> 6"
abbreviation (input) TFTP_BLOCK_SIZE :: u16 where "TFTP_BLOCK_SIZE \<equiv> 512"
abbreviation (input) TFTP_MTU_BLOCKSIZE :: nat where "TFTP_MTU_BLOCKSIZE \<equiv> 1024 + 24"
abbreviation (input) TFTP_LEN :: nat where "TFTP_LEN \<equiv> 1600"

definition cs :: "string \<Rightarrow> u8 list" where
  "cs s = map of_char s"

definition be16 :: "u16 \<Rightarrow> u8 list" where
  "be16 w = [ucast (drop_bit 8 w), ucast w]"

definition ntohs :: "u8 \<Rightarrow> u8 \<Rightarrow> u16" where
  "ntohs a b = push_bit 8 (ucast a) OR ucast b"

fun u16_le :: "u8 list \<Rightarrow> u16" where
  "u16_le (a # b # _) = ucast a OR push_bit 8 (ucast b)"
| "u16_le _ = 0"

definition in_fl :: "('h flash_st, 'a) prog \<Rightarrow> ('h tftp_st, 'a) prog" where
  "in_fl m = (\<lambda>s. case m (fl s) of Inl e \<Rightarrow> Inl e | Inr (a, f) \<Rightarrow> Inr (a, s\<lparr>fl := f\<rparr>))"

section \<open>Sending\<close>

text \<open>Decimal digits of the numbers in the request, as \<^verbatim>\<open>sprintf\<close> prints them.\<close>

fun dec_digits :: "nat \<Rightarrow> u8 list" where
  "dec_digits n = (if n < 10 then [of_nat (48 + n)] else dec_digits (n div 10) @ [of_nat (48 + n mod 10)])"

declare dec_digits.simps [simp del]

definition tftp_packet :: "tftp_state \<Rightarrow> u8 list \<Rightarrow> 64 word \<Rightarrow> u8 list" where
  "tftp_packet st file block =
    (case st of
       STATE_RRQ \<Rightarrow> be16 TFTP_RRQ @ file @ [0] @ cs ''octet'' @ [0] @ cs ''timeout'' @ [0] @ dec_digits 5 @ [0]
         @ cs ''blksize'' @ [0] @ dec_digits TFTP_MTU_BLOCKSIZE @ [0]
     | STATE_OACK \<Rightarrow> be16 TFTP_ACK @ be16 (ucast block)
     | STATE_DATA \<Rightarrow> be16 TFTP_ACK @ be16 (ucast block)
     | STATE_TOO_LARGE \<Rightarrow> be16 TFTP_ERROR @ be16 3 @ cs ''File too large'' @ [0]
     | STATE_BAD_MAGIC \<Rightarrow> be16 TFTP_ERROR @ be16 2 @ cs ''File has bad magic'' @ [0]
     | STATE_ZERO \<Rightarrow> [])"

definition TftpSend :: "('h tftp_st, unit) prog" where
  "TftpSend = modM (\<lambda>s. s\<lparr>sent := sent s @ [(sin_port s, tftp_packet (TftpState s) (BootFile s) (TftpBlock s))]\<rparr>)"

section \<open>Stopping\<close>

text \<open>
  \<open>self\<close> says whether the caller is the client's own thread: deleting itself does not
  return, so that the handle is not cleared. A buffer freed twice and a look at the task
  control block of a thread that is gone are faults.
\<close>

definition Tftp_Uninit :: "bool \<Rightarrow> ('h tftp_st, unit) prog" where
  "Tftp_Uninit self =
     thenM (modM (\<lambda>s. s\<lparr>timer_on := False\<rparr>))
    (bindM (getM tftp_buf) (\<lambda>b.
       thenM (case b of Buf_Null \<Rightarrow> retM ()
              | Buf_Live _ \<Rightarrow> modM (\<lambda>s. s\<lparr>tftp_buf := Buf_Null\<rparr>)
              | Buf_Freed \<Rightarrow> failM Dangling)
      (bindM (getM thread) (\<lambda>t.
         case t of Thr_None \<Rightarrow> retM ()
         | Thr_Live \<Rightarrow> modM (\<lambda>s. s\<lparr>thread := (if self then Thr_Gone else Thr_None)\<rparr>)
         | Thr_Gone \<Rightarrow> failM Dangling))))"

section \<open>Storing a block\<close>

definition parse_hd :: "u8 list \<Rightarrow> send_ptk_hd" where
  "parse_hd bs = \<lparr>total_len = bytes_u32 bs, seq = u16_le (drop 4 bs), total_seq = u16_le (drop 6 bs),
     os0_ex_addr = bytes_u32 (drop 8 bs), os_hd_addr = bytes_u32 (drop 12 bs),
     os0_flash_addr = bytes_u32 (drop 16 bs), os1_flash_addr = bytes_u32 (drop 20 bs)\<rparr>"

definition img_bytes :: "img_head \<Rightarrow> u8 list" where
  "img_bytes h = words_bytes [bkup_addr h, bkup_len h, ex_addr h, os_addr h, hd_addr h, img_crc h, img_status h, img_bk h]"

text \<open>
  A write of \<open>n\<close> bytes from \<open>bs\<close>: the driver rejects a count above the flash size before it
  reads the source, otherwise reading past the receive buffer is a fault.
\<close>

definition flash_write_from :: "'h flash_env \<Rightarrow> u8 list \<Rightarrow> u32 \<Rightarrow> u32 \<Rightarrow> ('h flash_st, unit) prog" where
  "flash_write_from fe bs n address =
     (if unat n \<le> length bs then thenM (flash_write fe (take (unat n) bs) address) (retM ())
      else bindM current_config (\<lambda>cfg. if flash_size cfg < n then retM () else failM Bad_Index))"

text \<open>The end of the image: the checksum decides whether the boot header is written.\<close>

definition store_last :: "'h flash_env \<Rightarrow> tftp_env \<Rightarrow> u8 list \<Rightarrow> nat \<Rightarrow> u32 \<Rightarrow> ('h tftp_st, unit) prog" where
  "store_last fe env p src len =
    (if length p < src + unat len \<or> len < 4 then failM Bad_Index
     else
       let or_crc = bytes_u32 (drop (src + unat len - 4) p) in
       thenM (modM (\<lambda>s. s\<lparr>tftp_crc := crc env (take (unat (len - 4)) (drop src p)) (tftp_crc s)\<rparr>))
      (bindM (getM tftp_crc) (\<lambda>c.
         whenM (c = or_crc)
          (thenM (modM (\<lambda>s. s\<lparr>img_hd := (img_hd s)\<lparr>bkup_addr := os1_flash_addr (send_hd s),
               bkup_len := total_len (send_hd_bk s), img_crc := or_crc, ex_addr := os0_ex_addr (send_hd s),
               os_addr := os0_flash_addr (send_hd s), hd_addr := os_hd_addr (send_hd s), img_status := 1\<rparr>\<rparr>))
          (bindM (getM (\<lambda>s. os_hd_addr (send_hd s))) (\<lambda>a.
             thenM (in_fl (flash_ctrl fe CMD_FLASH_ERASE_SECTOR a))
            (bindM (getM img_hd) (\<lambda>h.
               thenM (in_fl (flash_write fe (img_bytes h) a)) (retM ())))))))))"

definition store_tail :: "'h flash_env \<Rightarrow> tftp_env \<Rightarrow> u8 list \<Rightarrow> nat \<Rightarrow> u32 \<Rightarrow> ('h tftp_st, unit) prog" where
  "store_tail fe env p src len =
    (let n = len - of_nat TFTP_PKT_HD_LEN in
     bindM (getM os_data_addr) (\<lambda>addr.
       thenM (in_fl (flash_write_from fe (drop (src + TFTP_PKT_HD_LEN) p) n addr))
      (thenM (whenM (heap env)
         (if unat n \<le> 1024 then thenM (in_fl (flash_read fe (unat n) addr)) (retM ()) else failM Bad_Index))
      (bindM (getM send_hd) (\<lambda>h.
         thenM (if seq h \<noteq> total_seq h
            then if length p < src + unat len then failM Bad_Index
                 else modM (\<lambda>s. s\<lparr>tftp_crc := crc env (take (unat len) (drop src p)) (tftp_crc s)\<rparr>)
            else store_last fe env p src len)
         (modM (\<lambda>s. s\<lparr>os_data_addr := os_data_addr s + n\<rparr>)))))))"

text \<open>\<open>p\<close> is the whole receive buffer and \<open>src\<close> the offset of the block in it.\<close>

definition store_block :: "'h flash_env \<Rightarrow> tftp_env \<Rightarrow> u32 \<Rightarrow> u8 list \<Rightarrow> nat \<Rightarrow> u32 \<Rightarrow> ('h tftp_st, unit) prog" where
  "store_block fe env block p src len =
    (if length p < src + TFTP_PKT_HD_LEN then failM Bad_Index
     else
       thenM (modM (\<lambda>s. s\<lparr>send_hd := parse_hd (drop src p)\<rparr>))
      (thenM (whenM (block = 0) (modM (\<lambda>s. s\<lparr>os_data_addr := os1_flash_addr (send_hd s), tftp_crc := 0\<rparr>)))
      (thenM (modM (\<lambda>s. s\<lparr>send_hd_bk := send_hd s\<rparr>))
      (bindM (getM os_data_addr) (\<lambda>addr.
         thenM (whenM (addr mod 0x1000 = 0) (thenM (in_fl (flash_ctrl fe CMD_FLASH_ERASE_SECTOR addr)) (retM ())))
        (if 0x200000 \<le> addr \<or> addr < 0x27000 then retM ()
         else whenM (addr < 0x400000) (store_tail fe env p src len)))))))"

section \<open>The handler of received packets\<close>

text \<open>
  \<^verbatim>\<open>os_strcmp\<close> against a literal (with its terminator) and \<^verbatim>\<open>os_strtoul\<close> in base 10; \<open>None\<close>
  when they read past the buffer.
\<close>

fun c_streq :: "u8 list \<Rightarrow> u8 list \<Rightarrow> bool option" where
  "c_streq xs [] = Some True"
| "c_streq [] (q # qs) = None"
| "c_streq (x # xs) (q # qs) = (if x = q then c_streq xs qs else Some False)"

fun digits :: "u8 list \<Rightarrow> nat \<Rightarrow> nat option" where
  "digits [] n = None"
| "digits (x # xs) n = (if 48 \<le> x \<and> x \<le> 57 then digits xs (10 * n + unat (x - 48)) else Some n)"

definition is_space :: "u8 \<Rightarrow> bool" where
  "is_space x \<longleftrightarrow> x = 32 \<or> (9 \<le> x \<and> x \<le> 13)"

definition os_strtoul :: "u8 list \<Rightarrow> u32 option" where
  "os_strtoul s =
    (case dropWhile is_space s of [] \<Rightarrow> None
     | x # xs \<Rightarrow>
       map_option (\<lambda>n. if 2 ^ 32 \<le> n then - 1 else if x = 45 then - of_nat n else of_nat n)
         (digits (if x = 43 \<or> x = 45 then xs else x # xs) 0))"

text \<open>
  The loop \<^verbatim>\<open>for (i = 0; i + 8 < len; i++)\<close> over the options of an OACK: \<open>k\<close> rounds are left.
  It gives the value of the first \<^verbatim>\<open>blksize\<close>, if there is one.
\<close>

fun blk_scan :: "nat \<Rightarrow> u8 list \<Rightarrow> fault + u32 option" where
  "blk_scan 0 xs = Inr None"
| "blk_scan (Suc k) xs =
    (case c_streq xs (cs ''blksize'' @ [0]) of
       None \<Rightarrow> Inl Bad_Index
     | Some True \<Rightarrow> (case os_strtoul (drop 8 xs) of None \<Rightarrow> Inl Bad_Index | Some v \<Rightarrow> Inr (Some v))
     | Some False \<Rightarrow> blk_scan k (tl xs))"

definition liftM :: "fault + 'a \<Rightarrow> ('s, 'a) prog" where
  "liftM r = (\<lambda>s. case r of Inl e \<Rightarrow> Inl e | Inr a \<Rightarrow> Inr (a, s))"

definition handle_oack :: "u8 list \<Rightarrow> u32 \<Rightarrow> u16 \<Rightarrow> ('h tftp_st, unit) prog" where
  "handle_oack pkt len port =
    (if 0 \<notin> set pkt then failM Bad_Index
     else
       thenM (modM (\<lambda>s. s\<lparr>TftpState := STATE_OACK, TftpServerPort := port\<rparr>))
      (bindM (liftM (blk_scan (unat len - 8) pkt)) (\<lambda>v.
         thenM (case v of None \<Rightarrow> retM () | Some b \<Rightarrow> modM (\<lambda>s. s\<lparr>TftpBlkSize := ucast b\<rparr>))
           TftpSend)))"

definition handle_data :: "'h flash_env \<Rightarrow> tftp_env \<Rightarrow> u8 list \<Rightarrow> u32 \<Rightarrow> u16 \<Rightarrow> ('h tftp_st, unit) prog" where
  "handle_data fe env p len port =
     thenM (modM (\<lambda>s. s\<lparr>TftpBlock := ucast (ntohs (p ! 2) (p ! 3))\<rparr>))
    (thenM (modM (\<lambda>s. if TftpBlock s = 0
         then s\<lparr>TftpBlockWrap := TftpBlockWrap s + 1,
                TftpBlockWrapOffset := TftpBlockWrapOffset s + ucast (TftpBlkSize s) * 2 ^ 16\<rparr> else s))
    (bindM (getM (\<lambda>s. TftpState s = STATE_RRQ \<or> TftpState s = STATE_OACK)) (\<lambda>first.
       thenM (whenM first (modM (\<lambda>s. s\<lparr>TftpState := STATE_DATA, TftpServerPort := port, TftpLastBlock := 0,
           TftpBlockWrap := 0, TftpBlockWrapOffset := 0\<rparr>)))
      (bindM (getM TftpBlock) (\<lambda>block.
       bindM (getM TftpLastBlock) (\<lambda>last.
         if first \<and> block \<noteq> 1 then retM ()
         else if block = last then TftpSend
         else
           thenM (modM (\<lambda>s. s\<lparr>TftpLastBlock := block\<rparr>))
          (thenM (store_block fe env (ucast (block - 1)) p 4 len)
          (thenM TftpSend
          (bindM (getM TftpBlkSize) (\<lambda>bs.
             whenM (len < ucast bs) (Tftp_Uninit True)))))))))))"

text \<open>
  \<open>p\<close> is the receive buffer, of which \<open>len\<close> bytes are the packet (a failed \<^verbatim>\<open>recvfrom\<close>
  passes -1, which is a large unsigned length).
\<close>

definition TftpHandler :: "'h flash_env \<Rightarrow> tftp_env \<Rightarrow> u8 list \<Rightarrow> u32 \<Rightarrow> u16 \<Rightarrow> ('h tftp_st, unit) prog" where
  "TftpHandler fe env p len port =
    bindM (getM (\<lambda>s. TftpState s \<noteq> STATE_RRQ \<and> port \<noteq> TftpServerPort s)) (\<lambda>foreign.
      if foreign then retM ()
      else if len < 2 then retM ()
      else if length p < 4 then failM Bad_Index
      else let proto = ntohs (p ! 0) (p ! 1) in
        if proto = TFTP_OACK then handle_oack (drop 2 p) (len - 2) port
        else if proto = TFTP_DATA then
          (if len - 2 < 2 then retM () else handle_data fe env p (len - 2 - 2) port)
        else retM ())"

section \<open>Timer, start and receive loop\<close>

definition TftpTimeout :: "('h tftp_st, unit) prog" where
  "TftpTimeout =
     thenM (modM (\<lambda>s. s\<lparr>TftpTimeoutCount := TftpTimeoutCount s + 1\<rparr>))
    (bindM (getM TftpTimeoutCount) (\<lambda>n. if sint n > TIMEOUT_COUNT then retM () else TftpSend))"

definition tftp_timer_callback :: "('h tftp_st, unit) prog" where
  "tftp_timer_callback = TftpTimeout"

definition TftpStart :: "tftp_env \<Rightarrow> ('h tftp_st, unit) prog" where
  "TftpStart env = modM (\<lambda>s. s\<lparr>tftp_crc := 0, TftpServerPort := WELL_KNOWN_PORT, TftpTimeoutCount := 0,
     TftpState := STATE_RRQ, TftpOurPort := 1024 + tick env mod 3072, TftpBlock := 0, TftpBlkSize := TFTP_BLOCK_SIZE\<rparr>)"

text \<open>
  \<^verbatim>\<open>tftp_server_process\<close> up to its loop. On the exit path the buffer is freed, its pointer
  kept, and the thread deletes itself.
\<close>

definition server_exit :: "'h flash_env \<Rightarrow> ('h tftp_st, unit) prog" where
  "server_exit fe =
     thenM (modM (\<lambda>s. s\<lparr>tftp_buf := (case tftp_buf s of Buf_Live _ \<Rightarrow> Buf_Freed | b \<Rightarrow> b)\<rparr>))
    (thenM (in_fl (flash_protection_op fe FLASH_UNPROTECT_LAST_BLOCK))
    (modM (\<lambda>s. s\<lparr>thread := Thr_Gone\<rparr>)))"

definition tftp_server_process :: "'h flash_env \<Rightarrow> tftp_env \<Rightarrow> ('h tftp_st, unit) prog" where
  "tftp_server_process fe env =
     thenM (modM (\<lambda>s. s\<lparr>tftp_buf := (case rx_alloc env of None \<Rightarrow> Buf_Null | Some b \<Rightarrow> Buf_Live b)\<rparr>))
    (if rx_alloc env = None then server_exit fe
     else
       thenM (modM (\<lambda>s. s\<lparr>udp_fd := sock env\<rparr>))
      (if sock env = - 1 then server_exit fe
       else
         thenM (modM (\<lambda>s. s\<lparr>sin_port := WELL_KNOWN_PORT\<rparr>))
        (thenM (TftpStart env)
        (thenM (assertM (timer_ok env))
        (thenM (modM (\<lambda>s. s\<lparr>timer_on := True\<rparr>))
           (in_fl (flash_protection_op fe FLASH_PROTECT_NONE)))))))"

definition tftp_start :: "tftp_env \<Rightarrow> ('h tftp_st, unit) prog" where
  "tftp_start env = thenM (Tftp_Uninit False)
     (modM (\<lambda>s. if thread_ok env then s\<lparr>thread := Thr_Live\<rparr> else s))"

text \<open>
  One round of the receive loop. \<^verbatim>\<open>recvfrom\<close> overwrites the front of the buffer and the
  server address, whoever the sender is; a failure leaves both and returns -1.
\<close>

datatype tftp_event = Rx "u8 list" u16 | Rx_Fail | Tick

definition tftp_receive :: "'h flash_env \<Rightarrow> tftp_env \<Rightarrow> (u8 list \<times> u16) option \<Rightarrow> ('h tftp_st, unit) prog" where
  "tftp_receive fe env r =
    bindM (getM tftp_buf) (\<lambda>b.
      case b of Buf_Null \<Rightarrow> failM Null_Deref
      | Buf_Freed \<Rightarrow> failM Dangling
      | Buf_Live old \<Rightarrow>
        (case r of
           None \<Rightarrow> bindM (getM sin_port) (\<lambda>port. TftpHandler fe env old (- 1) port)
         | Some (bytes, port) \<Rightarrow>
           let d = take (length old) bytes; p = d @ drop (length d) old in
           thenM (modM (\<lambda>s. s\<lparr>tftp_buf := Buf_Live p, sin_port := port\<rparr>))
             (TftpHandler fe env p (of_nat (length d)) port)))"

text \<open>The thread receives as long as it lives, the timer fires as long as it is on.\<close>

definition tftp_event_step :: "'h flash_env \<Rightarrow> tftp_env \<Rightarrow> tftp_event \<Rightarrow> ('h tftp_st, unit) prog" where
  "tftp_event_step fe env e =
    bindM (getM thread) (\<lambda>t. bindM (getM timer_on) (\<lambda>on.
      case e of
        Tick \<Rightarrow> whenM on tftp_timer_callback
      | Rx bytes port \<Rightarrow> whenM (t = Thr_Live) (tftp_receive fe env (Some (bytes, port)))
      | Rx_Fail \<Rightarrow> whenM (t = Thr_Live) (tftp_receive fe env None)))"

end
