(* ===== verification/Role_Launch.thy ===== *)
theory Role_Launch
  imports Prelude
begin

text \<open>
  The role-launch queue of \<^verbatim>\<open>components/joint_up/role_launch.c\<close>: the component that
  serialises the requests to bring the station or the access point up or down. A request
  first lands in a one-place socket (\<open>g_rl_socket\<close>); the enter timer moves it into the
  queue, which has a running (\<^emph>\<open>previous\<close>) and a waiting (\<^emph>\<open>following\<close>) entity per role;
  the launch timer retires the running entity when the WLAN layer reports a state in which
  it may be replaced, and starts the waiting one. The second group of definitions is the
  one-shot timer layer of \<^verbatim>\<open>os/FreeRTOSv9.0.0/rtos_pub.c\<close>.

  Entities live in an explicit heap, so that a leak, a double free or a dangling pointer of
  the queue is visible: a freed address is not mapped any more and every access to it is the
  fault \<^term>\<open>Dangling\<close>. The WLAN layer (\<^verbatim>\<open>wlan_ui.c\<close>: \<open>bk_wlan_start_sta\<close> and the like) and
  the kernel's timer commands are the record \<open>rl_env\<close> of functions on a world of
  any type; a WLAN call answers with the role-launch functions it calls back before it
  returns. \<open>GLOBAL_INT_DISABLE\<close> and \<open>GLOBAL_INT_RESTORE\<close> have no effect on the data; a
  handler is one step.
\<close>

section \<open>Data\<close>

text \<open>\<open>beken2_timer_t\<close>: whether the kernel object exists, and whether it is counting.\<close>

record beken2_timer =
  handle :: bool
  running :: bool

record 'd launch_req =
  descr :: 'd
  req_type :: u32

record ('d, 'c) rl_entity =
  launch_type :: u32
  relaunch_limit :: u32
  launch_count :: u32
  rlaunch :: "'d launch_req"
  completion_cb :: "'c option"

record ('d, 'c) rl_socket =
  sta_req_flag :: u32
  sta_param :: "'d launch_req"
  sta_completion :: "'c option"
  ap_req_flag :: u32
  ap_param :: "'d launch_req"
  ap_completion :: "'c option"

record ('d, 'c) rl_socket_cache =
  cache_req_flag :: u32
  cache_param :: "'d launch_req"
  cache_completion :: "'c option"

record role_launch =
  enter_timer :: beken2_timer
  rl_timer :: beken2_timer
  rl_timer_flag :: u32
  rl_status :: u32
  pre_entity_type :: u32
  pre_sta_cancel :: u32
  pre_sta_status :: u32
  pre_ap_cancel :: u32
  pre_ap_status :: u32
  jl_previous_sta :: "nat option"
  jl_following_sta :: "nat option"
  jl_previous_ap :: "nat option"
  jl_following_ap :: "nat option"

text \<open>The globals of the file, the entity heap and the world of the layers below.\<close>

record ('d, 'c, 'w) rl_state =
  g_role_launch :: role_launch
  g_rl_socket :: "('d, 'c) rl_socket"
  g_sta_cache :: "('d, 'c) rl_socket_cache"
  g_mrole_csa_flag :: u32
  heap :: "nat \<rightharpoonup> ('d, 'c) rl_entity"
  brk :: nat
  world :: 'w

text \<open>Role-launch functions that the WLAN layer calls while it serves a request.\<close>

datatype rl_call =
    Call_sta_set_status u32
  | Call_ap_set_status u32
  | Call_sta_clear_cancel
  | Call_init_csa
  | Call_csa_switched
  | Call_set_st_state u32
  | Call_reset_st_state u32

record ('d, 'w) rl_env =
  x_timer_create :: "'w \<Rightarrow> bool \<times> 'w"
  x_timer_command :: "'w \<Rightarrow> bool \<times> 'w"
  x_alloc :: "'w \<Rightarrow> bool \<times> 'w"
  x_start_sta :: "'d \<Rightarrow> role_launch \<Rightarrow> 'w \<Rightarrow> rl_call list \<times> 'w"
  x_scan_app_init :: "role_launch \<Rightarrow> 'w \<Rightarrow> rl_call list \<times> 'w"
  x_stop_sta :: "role_launch \<Rightarrow> 'w \<Rightarrow> rl_call list \<times> 'w"
  x_start_ap :: "'d \<Rightarrow> role_launch \<Rightarrow> 'w \<Rightarrow> rl_call list \<times> 'w"
  x_stop_ap :: "role_launch \<Rightarrow> 'w \<Rightarrow> rl_call list \<times> 'w"
  x_hw_ap_disable :: "'w \<Rightarrow> 'w"
  x_is_monitor_mode :: "'w \<Rightarrow> bool"
  x_zero_descr :: 'd

type_synonym ('d, 'c, 'w, 'a) rl = "(('d, 'c, 'w) rl_state, 'a) prog"

abbreviation LAUNCH_REQ_STA :: u32 where "LAUNCH_REQ_STA \<equiv> 1"
abbreviation LAUNCH_REQ_AP :: u32 where "LAUNCH_REQ_AP \<equiv> 2"
abbreviation LAUNCH_REQ_PURE_STA_SCAN :: u32 where "LAUNCH_REQ_PURE_STA_SCAN \<equiv> 3"
abbreviation LAUNCH_REQ_DELIF_STA :: u32 where "LAUNCH_REQ_DELIF_STA \<equiv> 4"
abbreviation LAUNCH_REQ_DELIF_AP :: u32 where "LAUNCH_REQ_DELIF_AP \<equiv> 5"
abbreviation LAUNCH_TYPE_ASAP :: u32 where "LAUNCH_TYPE_ASAP \<equiv> 1"
abbreviation LAUNCH_STATUS_OVER :: u32 where "LAUNCH_STATUS_OVER \<equiv> 0"
abbreviation LAUNCH_STATUS_CONT :: u32 where "LAUNCH_STATUS_CONT \<equiv> 1"
abbreviation RL_STATUS_CANCEL :: u32 where "RL_STATUS_CANCEL \<equiv> 0x8000"
abbreviation RL_STATUS_UNKNOWN :: u32 where "RL_STATUS_UNKNOWN \<equiv> 0"
abbreviation RL_STATUS_STA_INITING :: u32 where "RL_STATUS_STA_INITING \<equiv> 1"
abbreviation RL_STATUS_STA_SCANNING :: u32 where "RL_STATUS_STA_SCANNING \<equiv> 2"
abbreviation RL_STATUS_STA_SCAN_OVER :: u32 where "RL_STATUS_STA_SCAN_OVER \<equiv> 3"
abbreviation RL_STATUS_STA_CONNECTING :: u32 where "RL_STATUS_STA_CONNECTING \<equiv> 4"
abbreviation RL_STATUS_STA_DHCPING :: u32 where "RL_STATUS_STA_DHCPING \<equiv> 5"
abbreviation RL_STATUS_MROLE_CHANNEL_SWITCHING :: u32 where "RL_STATUS_MROLE_CHANNEL_SWITCHING \<equiv> 6"
abbreviation RL_STATUS_MROLE_CHANNEL_SWITCHED :: u32 where "RL_STATUS_MROLE_CHANNEL_SWITCHED \<equiv> 7"
abbreviation RL_STATUS_STA_LAUNCHED :: u32 where "RL_STATUS_STA_LAUNCHED \<equiv> 9"
abbreviation RL_STATUS_STA_LAUNCH_FAILED :: u32 where "RL_STATUS_STA_LAUNCH_FAILED \<equiv> 10"
abbreviation RL_STATUS_AP_INITING :: u32 where "RL_STATUS_AP_INITING \<equiv> 0x11"
abbreviation RL_STATUS_AP_TRANSMITTED_BCN :: u32 where "RL_STATUS_AP_TRANSMITTED_BCN \<equiv> 0x14"
abbreviation RL_STATUS_AP_LAUNCHED :: u32 where "RL_STATUS_AP_LAUNCHED \<equiv> 0x15"
abbreviation RL_TIMER_UNINIT :: u32 where "RL_TIMER_UNINIT \<equiv> 0"
abbreviation RL_TIMER_INIT :: u32 where "RL_TIMER_INIT \<equiv> 1"
abbreviation RL_TIMER_START :: u32 where "RL_TIMER_START \<equiv> 2"
abbreviation RL_TIMER_STOP :: u32 where "RL_TIMER_STOP \<equiv> 3"
abbreviation PRE_ENTITY_IDLE :: u32 where "PRE_ENTITY_IDLE \<equiv> 0"
abbreviation PRE_ENTITY_STA :: u32 where "PRE_ENTITY_STA \<equiv> 1"
abbreviation PRE_ENTITY_AP :: u32 where "PRE_ENTITY_AP \<equiv> 2"
abbreviation RL_PRIV_STATUS_MASK :: u32 where "RL_PRIV_STATUS_MASK \<equiv> 0x00FF0000"
abbreviation RL_PRIV_STATUS_STA_ADV :: u32 where "RL_PRIV_STATUS_STA_ADV \<equiv> 0x10000"
abbreviation RL_PRIV_STATUS_STA_ADV_RDY :: u32 where "RL_PRIV_STATUS_STA_ADV_RDY \<equiv> 0x20000"
abbreviation RL_ST_STATUS_MASK :: u32 where "RL_ST_STATUS_MASK \<equiv> 0xFF000000"
abbreviation RL_ST_STATUS_RESTART_HOLD :: u32 where "RL_ST_STATUS_RESTART_HOLD \<equiv> 0x1000000"
abbreviation RL_ST_STATUS_RESTART_ST :: u32 where "RL_ST_STATUS_RESTART_ST \<equiv> 0x2000000"
abbreviation RL_STA_STATE_MASK :: u32 where "RL_STA_STATE_MASK \<equiv> 0x3000000"
abbreviation RL_STA_STATE_HOLD :: u32 where "RL_STA_STATE_HOLD \<equiv> 0x1000000"
abbreviation RL_STATUS_BIT_MASK :: u32 where "RL_STATUS_BIT_MASK \<equiv> 0xFFFF"
abbreviation RL_STATUS_PENDING :: u32 where "RL_STATUS_PENDING \<equiv> 1"
abbreviation RL_STATUS_DOING :: u32 where "RL_STATUS_DOING \<equiv> 2"
abbreviation RL_STATUS_PAUSE :: u32 where "RL_STATUS_PAUSE \<equiv> 0x80"
abbreviation RL_STATUS_MASK :: u32 where "RL_STATUS_MASK \<equiv> RL_STATUS_PAUSE"

definition upd_g :: "(role_launch \<Rightarrow> role_launch) \<Rightarrow> ('d, 'c, 'w, unit) rl" where
  "upd_g f = modM (\<lambda>s. s\<lparr>g_role_launch := f (g_role_launch s)\<rparr>)"

definition get_g :: "(role_launch \<Rightarrow> 'a) \<Rightarrow> ('d, 'c, 'w, 'a) rl" where
  "get_g f = getM (\<lambda>s. f (g_role_launch s))"

definition set_status_bits :: "u32 \<Rightarrow> ('d, 'c, 'w, unit) rl" where
  "set_status_bits b = upd_g (rl_status_update (\<lambda>x. x OR b))"

definition bits_clear :: "u32 \<Rightarrow> u32 \<Rightarrow> u32" where
  "bits_clear x b = x AND NOT b"

definition clear_status_bits :: "u32 \<Rightarrow> ('d, 'c, 'w, unit) rl" where
  "clear_status_bits b = upd_g (rl_status_update (\<lambda>x. bits_clear x b))"

definition on_world :: "('w \<Rightarrow> 'a \<times> 'w) \<Rightarrow> ('d, 'c, 'w, 'a) rl" where
  "on_world f = (\<lambda>s. let (a, w) = f (world s) in Inr (a, s\<lparr>world := w\<rparr>))"

section \<open>One-shot timers (rtos_pub.c)\<close>

text \<open>Which of the two timers of \<open>g_role_launch\<close> a call names.\<close>

datatype rl_tid = Enter_Timer | Rl_Timer

definition timer_of :: "rl_tid \<Rightarrow> role_launch \<Rightarrow> beken2_timer" where
  "timer_of t r = (case t of Enter_Timer \<Rightarrow> enter_timer r | Rl_Timer \<Rightarrow> rl_timer r)"

definition upd_timer :: "rl_tid \<Rightarrow> (beken2_timer \<Rightarrow> beken2_timer) \<Rightarrow> ('d, 'c, 'w, unit) rl" where
  "upd_timer t f = upd_g (case t of Enter_Timer \<Rightarrow> enter_timer_update f | Rl_Timer \<Rightarrow> rl_timer_update f)"

text \<open>
  A kernel timer command either passes, and then has its effect on the timer, or fails and
  leaves it as it was; on a timer that was never created it goes through a null handle. The result of every operation is whether it returned \<open>kNoErr\<close>.
\<close>

definition timer_command :: "('d, 'w) rl_env \<Rightarrow> rl_tid \<Rightarrow> (beken2_timer \<Rightarrow> beken2_timer) \<Rightarrow> ('d, 'c, 'w, bool) rl" where
  "timer_command E t f =
     bindM (get_g (\<lambda>r. handle (timer_of t r))) (\<lambda>created.
     if \<not> created then failM Null_Deref
     else bindM (on_world (x_timer_command E)) (\<lambda>pass.
          thenM (whenM pass (upd_timer t f)) (retM pass)))"

definition rtos_start_oneshot_timer :: "('d, 'w) rl_env \<Rightarrow> rl_tid \<Rightarrow> ('d, 'c, 'w, bool) rl" where
  "rtos_start_oneshot_timer E t = timer_command E t (running_update (\<lambda>_. True))"

definition rtos_deinit_oneshot_timer :: "('d, 'w) rl_env \<Rightarrow> rl_tid \<Rightarrow> ('d, 'c, 'w, bool) rl" where
  "rtos_deinit_oneshot_timer E t = timer_command E t (\<lambda>_. \<lparr>handle = False, running = False\<rparr>)"

definition rtos_stop_oneshot_timer :: "('d, 'w) rl_env \<Rightarrow> rl_tid \<Rightarrow> ('d, 'c, 'w, bool) rl" where
  "rtos_stop_oneshot_timer E t = timer_command E t (running_update (\<lambda>_. False))"

definition rtos_is_oneshot_timer_init :: "rl_tid \<Rightarrow> ('d, 'c, 'w, bool) rl" where
  "rtos_is_oneshot_timer_init t = get_g (\<lambda>r. handle (timer_of t r))"

definition rtos_oneshot_reload_timer :: "('d, 'w) rl_env \<Rightarrow> rl_tid \<Rightarrow> ('d, 'c, 'w, bool) rl" where
  "rtos_oneshot_reload_timer E t = timer_command E t (running_update (\<lambda>_. True))"

definition rtos_init_oneshot_timer :: "('d, 'w) rl_env \<Rightarrow> rl_tid \<Rightarrow> ('d, 'c, 'w, bool) rl" where
  "rtos_init_oneshot_timer E t =
     bindM (on_world (x_timer_create E)) (\<lambda>ok.
     thenM (upd_timer t (\<lambda>_. \<lparr>handle = ok, running = False\<rparr>)) (retM ok))"

section \<open>Status and cancel flags\<close>

definition rl_pre_sta_get_status :: "('d, 'c, 'w, u32) rl" where
  "rl_pre_sta_get_status = get_g pre_sta_status"

definition rl_pre_ap_get_status :: "('d, 'c, 'w, u32) rl" where
  "rl_pre_ap_get_status = get_g pre_ap_status"

definition rl_init_csa_status :: "('d, 'c, 'w, u32) rl" where
  "rl_init_csa_status = thenM (modM (g_mrole_csa_flag_update (\<lambda>_. 0))) (retM 0)"

definition rl_set_csa_switching :: "('d, 'c, 'w, u32) rl" where
  "rl_set_csa_switching =
     bindM (get_g (\<lambda>r. pre_sta_cancel r \<noteq> 0 \<or> pre_ap_cancel r \<noteq> 0)) (\<lambda>busy.
     if busy then retM 1
     else thenM (modM (g_mrole_csa_flag_update (\<lambda>_. RL_STATUS_MROLE_CHANNEL_SWITCHING))) (retM 0))"

definition rl_set_csa_switched :: "('d, 'c, 'w, u32) rl" where
  "rl_set_csa_switched =
     thenM (modM (g_mrole_csa_flag_update (\<lambda>_. RL_STATUS_MROLE_CHANNEL_SWITCHED))) (retM 0)"

definition rl_pre_sta_set_status :: "u32 \<Rightarrow> ('d, 'c, 'w, u32) rl" where
  "rl_pre_sta_set_status status =
     bindM (get_g (\<lambda>r. (pre_sta_status r, pre_sta_cancel r))) (\<lambda>(cur, cancel).
     if status = RL_STATUS_STA_SCANNING \<and> cur \<noteq> RL_STATUS_STA_INITING \<and> cur \<noteq> RL_STATUS_STA_SCAN_OVER
     then retM 6
     else if status = RL_STATUS_STA_SCANNING \<and> cancel \<noteq> 0 then retM 8
     else thenM (upd_g (pre_sta_status_update (\<lambda>_. status))) (get_g pre_sta_cancel))"

definition rl_pre_ap_disable_autobcn :: "('d, 'w) rl_env \<Rightarrow> ('d, 'c, 'w, u32) rl" where
  "rl_pre_ap_disable_autobcn E =
     bindM (get_g pre_ap_cancel) (\<lambda>cancel.
     thenM (whenM (cancel \<noteq> 0) (modM (world_update (x_hw_ap_disable E)))) (get_g pre_ap_cancel))"

definition rl_pre_ap_set_status :: "u32 \<Rightarrow> ('d, 'c, 'w, u32) rl" where
  "rl_pre_ap_set_status status =
     thenM (upd_g (pre_ap_status_update (\<lambda>_. status)))
     (bindM (get_g pre_ap_cancel) (\<lambda>cancel.
      thenM (whenM (cancel \<noteq> 0) (upd_g (pre_ap_status_update (\<lambda>x. x + RL_STATUS_CANCEL)))) (retM cancel)))"

definition rl_pre_sta_set_cancel :: "('d, 'c, 'w, unit) rl" where
  "rl_pre_sta_set_cancel = upd_g (pre_sta_cancel_update (\<lambda>_. 1))"

definition rl_pre_sta_clear_cancel :: "('d, 'c, 'w, unit) rl" where
  "rl_pre_sta_clear_cancel = upd_g (pre_sta_cancel_update (\<lambda>_. 0))"

definition fl_get_pre_sta_cancel_status :: "('d, 'c, 'w, u32) rl" where
  "fl_get_pre_sta_cancel_status = get_g pre_sta_cancel"

definition rl_pre_ap_set_cancel :: "('d, 'c, 'w, unit) rl" where
  "rl_pre_ap_set_cancel = upd_g (pre_ap_cancel_update (\<lambda>_. 1))"

definition rl_pre_ap_clear_cancel :: "('d, 'c, 'w, unit) rl" where
  "rl_pre_ap_clear_cancel = upd_g (pre_ap_cancel_update (\<lambda>_. 0))"

definition fl_get_pre_ap_cancel_status :: "('d, 'c, 'w, u32) rl" where
  "fl_get_pre_ap_cancel_status = get_g pre_ap_cancel"

definition rl_pre_ap_init :: "('d, 'c, 'w, unit) rl" where
  "rl_pre_ap_init = upd_g (\<lambda>r. r\<lparr>pre_ap_cancel := 0, pre_ap_status := 0\<rparr>)"

definition rl_pre_sta_init :: "('d, 'c, 'w, unit) rl" where
  "rl_pre_sta_init = upd_g (\<lambda>r. r\<lparr>pre_sta_cancel := 0, pre_sta_status := 0\<rparr>)"

definition rl_status_is_idle :: "('d, 'c, 'w, bool) rl" where
  "rl_status_is_idle = get_g (\<lambda>r. (rl_status r AND RL_STATUS_BIT_MASK) AND NOT RL_STATUS_MASK = 0)"

definition rl_status_set_pause :: "bool \<Rightarrow> ('d, 'c, 'w, unit) rl" where
  "rl_status_set_pause en =
     (if en then set_status_bits RL_STATUS_PAUSE else clear_status_bits RL_STATUS_PAUSE)"

definition rl_status_set_private_state :: "u32 \<Rightarrow> ('d, 'c, 'w, unit) rl" where
  "rl_status_set_private_state st = set_status_bits (st AND RL_PRIV_STATUS_MASK)"

definition rl_status_reset_private_state :: "u32 \<Rightarrow> ('d, 'c, 'w, unit) rl" where
  "rl_status_reset_private_state st = clear_status_bits (st AND RL_PRIV_STATUS_MASK)"

definition rl_sta_adv_register_cache_station :: "'d launch_req \<Rightarrow> ('d, 'c, 'w, unit) rl" where
  "rl_sta_adv_register_cache_station lreq =
     modM (\<lambda>s. s\<lparr>g_sta_cache := \<lparr>cache_req_flag = 1, cache_param = lreq, cache_completion = None\<rparr>\<rparr>)"

definition rl_status_set_st_state :: "u32 \<Rightarrow> ('d, 'c, 'w, unit) rl" where
  "rl_status_set_st_state st = set_status_bits (st AND RL_ST_STATUS_MASK)"

definition rl_status_reset_st_state :: "u32 \<Rightarrow> ('d, 'c, 'w, unit) rl" where
  "rl_status_reset_st_state st = clear_status_bits (st AND RL_ST_STATUS_MASK)"

text \<open>What the WLAN layer does to this component while it serves a request.\<close>

definition run_call :: "rl_call \<Rightarrow> ('d, 'c, 'w, unit) rl" where
  "run_call c = (case c of
     Call_sta_set_status st \<Rightarrow> bindM (rl_pre_sta_set_status st) (\<lambda>_. retM ())
   | Call_ap_set_status st \<Rightarrow> bindM (rl_pre_ap_set_status st) (\<lambda>_. retM ())
   | Call_sta_clear_cancel \<Rightarrow> rl_pre_sta_clear_cancel
   | Call_init_csa \<Rightarrow> bindM rl_init_csa_status (\<lambda>_. retM ())
   | Call_csa_switched \<Rightarrow> bindM rl_set_csa_switched (\<lambda>_. retM ())
   | Call_set_st_state st \<Rightarrow> rl_status_set_st_state st
   | Call_reset_st_state st \<Rightarrow> rl_status_reset_st_state st)"

definition wlan_call :: "(role_launch \<Rightarrow> 'w \<Rightarrow> rl_call list \<times> 'w) \<Rightarrow> ('d, 'c, 'w, unit) rl" where
  "wlan_call f =
     bindM (getM g_role_launch) (\<lambda>r. bindM (on_world (f r)) (\<lambda>calls. forM calls run_call))"

section \<open>Timers and entities of the queue\<close>

definition rl_relaunch_chance :: "('d, 'w) rl_env \<Rightarrow> ('d, 'c, 'w, u32) rl" where
  "rl_relaunch_chance E =
     bindM (rtos_is_oneshot_timer_init Rl_Timer) (\<lambda>ok.
     thenM (assertM ok)
     (bindM (rtos_oneshot_reload_timer E Rl_Timer) (\<lambda>_. retM 0)))"

definition rl_start :: "('d, 'w) rl_env \<Rightarrow> ('d, 'c, 'w, unit) rl" where
  "rl_start E =
     bindM (rtos_stop_oneshot_timer E Rl_Timer) (\<lambda>_.
     thenM (upd_g (rl_timer_flag_update (\<lambda>_. RL_TIMER_STOP)))
     (bindM (rtos_start_oneshot_timer E Rl_Timer) (\<lambda>ok.
      thenM (assertM ok)
      (upd_g (rl_timer_flag_update (\<lambda>_. RL_TIMER_START))))))"

definition rl_stop :: "('d, 'w) rl_env \<Rightarrow> ('d, 'c, 'w, unit) rl" where
  "rl_stop E =
     bindM (rtos_stop_oneshot_timer E Rl_Timer) (\<lambda>ok.
     thenM (assertM ok)
     (bindM (rtos_stop_oneshot_timer E Enter_Timer) (\<lambda>ok.
      thenM (assertM ok)
      (upd_g (rl_timer_flag_update (\<lambda>_. RL_TIMER_STOP))))))"

definition rl_init :: "('d, 'w) rl_env \<Rightarrow> ('d, 'c, 'w, unit) rl" where
  "rl_init E =
     bindM (rtos_init_oneshot_timer E Rl_Timer) (\<lambda>ok.
     thenM (assertM ok)
     (bindM (rtos_init_oneshot_timer E Enter_Timer) (\<lambda>ok.
      thenM (assertM ok)
      (upd_g (rl_timer_flag_update (\<lambda>_. RL_TIMER_INIT))))))"

definition rl_uninit :: "('d, 'w) rl_env \<Rightarrow> ('d, 'c, 'w, unit) rl" where
  "rl_uninit E =
     bindM (get_g rl_timer_flag) (\<lambda>flag.
     thenM (whenM (flag = RL_TIMER_START) (rl_stop E))
     (bindM (rtos_deinit_oneshot_timer E Rl_Timer) (\<lambda>ok.
      thenM (assertM ok)
      (bindM (rtos_deinit_oneshot_timer E Enter_Timer) (\<lambda>ok.
       thenM (assertM ok)
       (upd_g (rl_timer_flag_update (\<lambda>_. RL_TIMER_UNINIT))))))))"

text \<open>\<open>os_zalloc\<close> hands out the next unused address with all fields zero.\<close>

definition rl_alloc_entity ::
  "('d, 'w) rl_env \<Rightarrow> 'd launch_req \<Rightarrow> 'c option \<Rightarrow> ('d, 'c, 'w, nat option) rl" where
  "rl_alloc_entity E param completion =
     bindM (on_world (x_alloc E)) (\<lambda>ok.
     thenM (assertM ok)
     (bindM (getM brk) (\<lambda>p.
      thenM (modM (\<lambda>s. s\<lparr>brk := Suc p,
               heap := (heap s)(p \<mapsto> \<lparr>launch_type = LAUNCH_TYPE_ASAP, relaunch_limit = 0, launch_count = 0,
                                         rlaunch = param, completion_cb = completion\<rparr>)\<rparr>))
      (retM (Some p)))))"

definition rl_free_entity :: "nat option \<Rightarrow> ('d, 'c, 'w, unit) rl" where
  "rl_free_entity d = (case d of
     None \<Rightarrow> retM ()
   | Some p \<Rightarrow> bindM (getM heap) (\<lambda>h.
       if h p = None then failM Dangling else modM (\<lambda>s. s\<lparr>heap := (heap s)(p := None)\<rparr>)))"

text \<open>Reading an entity through a pointer.\<close>

definition deref :: "nat option \<Rightarrow> ('d, 'c, 'w, ('d, 'c) rl_entity) rl" where
  "deref d = (case d of
     None \<Rightarrow> failM Null_Deref
   | Some p \<Rightarrow> bindM (getM heap) (\<lambda>h. case h p of None \<Rightarrow> failM Dangling | Some e \<Rightarrow> retM e))"

definition rl_pre_sta_stop_launch :: "('d, 'c, 'w, u32) rl" where
  "rl_pre_sta_stop_launch = retM 0"

definition rl_pre_ap_stop_launch :: "('d, 'c, 'w, u32) rl" where
  "rl_pre_ap_stop_launch = retM 0"

definition rl_sta_is_launched :: "('d, 'c, 'w, bool) rl" where
  "rl_sta_is_launched =
     bindM (getM g_mrole_csa_flag) (\<lambda>csa. bindM rl_pre_sta_get_status (\<lambda>st.
     retM (csa = RL_STATUS_MROLE_CHANNEL_SWITCHED \<or> st = RL_STATUS_STA_LAUNCHED)))"

definition rl_sta_may_next_launch :: "('d, 'c, 'w, u32) rl" where
  "rl_sta_may_next_launch =
     bindM (getM g_mrole_csa_flag) (\<lambda>csa.
     bindM (get_g pre_sta_cancel) (\<lambda>cancel.
     bindM rl_pre_sta_get_status (\<lambda>st.
     let yes = (if csa = RL_STATUS_MROLE_CHANNEL_SWITCHED then 1
                else if cancel \<noteq> 0 \<and> (st = RL_STATUS_STA_DHCPING \<or> st = RL_STATUS_STA_INITING
                        \<or> st = RL_STATUS_STA_SCAN_OVER \<or> st = RL_STATUS_STA_CONNECTING) then 2
                else if st = RL_STATUS_STA_LAUNCH_FAILED then 3
                else if st = RL_STATUS_STA_LAUNCHED then 4
                else 0)
     in retM (if csa = RL_STATUS_MROLE_CHANNEL_SWITCHING then 0 else yes))))"

definition rl_ap_may_next_launch :: "u32 \<Rightarrow> ('d, 'c, 'w, u32) rl" where
  "rl_ap_may_next_launch pre_cancel =
     bindM (getM g_mrole_csa_flag) (\<lambda>csa.
     bindM rl_pre_ap_get_status (\<lambda>st.
     if pre_cancel = 0 then retM 1
     else let yes = (if st = RL_STATUS_AP_TRANSMITTED_BCN + RL_STATUS_CANCEL
                        \<or> st AND NOT RL_STATUS_CANCEL = RL_STATUS_AP_LAUNCHED then 1 else 0)
          in retM (if csa = RL_STATUS_MROLE_CHANNEL_SWITCHING then 0 else yes)))"

section \<open>Serving a request\<close>

definition rl_sta_request_start :: "('d, 'w) rl_env \<Rightarrow> 'd launch_req option \<Rightarrow> ('d, 'c, 'w, unit) rl" where
  "rl_sta_request_start E req = (case req of
     None \<Rightarrow> failM Assert_Fail
   | Some q \<Rightarrow>
       if req_type q = LAUNCH_REQ_STA then
         thenM rl_pre_sta_init (wlan_call (x_start_sta E (descr q)))
       else if req_type q = LAUNCH_REQ_PURE_STA_SCAN then
         thenM rl_pre_sta_init (wlan_call (x_scan_app_init E))
       else if req_type q = LAUNCH_REQ_DELIF_STA then
         wlan_call (x_stop_sta E)
       else retM ())"

definition rl_ap_request_start :: "('d, 'w) rl_env \<Rightarrow> 'd launch_req option \<Rightarrow> ('d, 'c, 'w, unit) rl" where
  "rl_ap_request_start E req = (case req of
     None \<Rightarrow> failM Assert_Fail
   | Some q \<Rightarrow>
       if req_type q = LAUNCH_REQ_AP then
         thenM rl_pre_ap_init (wlan_call (x_start_ap E (descr q)))
       else if req_type q = LAUNCH_REQ_DELIF_AP then
         wlan_call (x_stop_ap E)
       else retM ())"

text \<open>The guard under which a station request may be started: not paused, not on hold.\<close>

definition sta_open :: "role_launch \<Rightarrow> bool" where
  "sta_open r \<longleftrightarrow> rl_status r AND RL_STATUS_MASK = 0
     \<and> rl_status r AND RL_STA_STATE_MASK \<noteq> RL_STA_STATE_HOLD"

definition rl_launch_sta :: "('d, 'w) rl_env \<Rightarrow> ('d, 'c, 'w, u32) rl" where
  "rl_launch_sta E =
     bindM (get_g jl_previous_sta) (\<lambda>prev. bindM (get_g jl_following_sta) (\<lambda>foll.
     if prev = None then
       (if foll = None then retM LAUNCH_STATUS_OVER
        else
          thenM (upd_g (jl_following_sta_update (\<lambda>_. None)))
          (bindM (get_g sta_open) (\<lambda>ok.
           if ok then
             thenM (set_status_bits RL_STATUS_DOING)
             (thenM (upd_g (jl_previous_sta_update (\<lambda>_. foll)))
             (bindM (deref foll) (\<lambda>pre_entity.
              thenM (rl_sta_request_start E (Some (rlaunch pre_entity)))
              (thenM (clear_status_bits RL_STATUS_DOING)
              (retM LAUNCH_STATUS_CONT)))))
           else
             thenM (rl_free_entity foll) (retM LAUNCH_STATUS_OVER))))
     else
       thenM (if foll = None then retM ()
              else bindM (deref foll) (\<lambda>entity.
                   whenM (launch_type entity = LAUNCH_TYPE_ASAP) rl_pre_sta_set_cancel))
       (bindM (deref prev) (\<lambda>pre_entity.
        thenM (whenM (relaunch_limit pre_entity \<noteq> 0 \<and> relaunch_limit pre_entity \<le> launch_count pre_entity)
                 rl_pre_sta_set_cancel)
        (bindM rl_sta_may_next_launch (\<lambda>next_launch_flag.
         if next_launch_flag = 0 then retM LAUNCH_STATUS_CONT
         else
           thenM rl_pre_sta_stop_launch
           (thenM (rl_free_entity prev)
           (thenM (upd_g (jl_following_sta_update (\<lambda>_. None)))
           (bindM (get_g sta_open) (\<lambda>ok.
            if ok then
              thenM (set_status_bits RL_STATUS_DOING)
              (thenM (upd_g (jl_previous_sta_update (\<lambda>_. foll)))
              (bindM (if foll = None then retM LAUNCH_STATUS_OVER
                      else bindM (deref foll) (\<lambda>pre_entity.
                           thenM (rl_sta_request_start E (Some (rlaunch pre_entity)))
                           (retM LAUNCH_STATUS_CONT))) (\<lambda>ret.
               thenM (clear_status_bits RL_STATUS_DOING) (retM ret))))
            else
              thenM (rl_free_entity foll)
              (thenM (upd_g (jl_previous_sta_update (\<lambda>_. None)))
              (retM LAUNCH_STATUS_OVER))))))))))))"

definition rl_launch_ap :: "('d, 'w) rl_env \<Rightarrow> ('d, 'c, 'w, u32) rl" where
  "rl_launch_ap E =
     bindM (get_g jl_previous_ap) (\<lambda>prev. bindM (get_g jl_following_ap) (\<lambda>foll.
     if prev = None then
       (if foll = None then retM LAUNCH_STATUS_OVER
        else
          thenM (upd_g (jl_following_ap_update (\<lambda>_. None)))
          (bindM (get_g (\<lambda>r. rl_status r AND RL_STATUS_MASK = 0)) (\<lambda>ok.
           if ok then
             thenM (set_status_bits RL_STATUS_DOING)
             (thenM (upd_g (jl_previous_ap_update (\<lambda>_. foll)))
             (thenM rl_pre_ap_init
             (bindM (deref foll) (\<lambda>pre_entity.
              thenM (rl_ap_request_start E (Some (rlaunch pre_entity)))
              (thenM (clear_status_bits RL_STATUS_DOING)
              (retM LAUNCH_STATUS_CONT))))))
           else
             thenM (rl_free_entity foll) (retM LAUNCH_STATUS_OVER))))
     else
       bindM (if foll = None then retM 0
              else bindM (deref foll) (\<lambda>entity.
                   if launch_type entity = LAUNCH_TYPE_ASAP then thenM rl_pre_ap_set_cancel (retM 1)
                   else retM 0)) (\<lambda>cancel_pre_flag.
       bindM (deref prev) (\<lambda>pre_entity.
       bindM (if relaunch_limit pre_entity \<noteq> 0 \<and> relaunch_limit pre_entity \<le> launch_count pre_entity
              then thenM rl_pre_ap_set_cancel (retM 1) else retM cancel_pre_flag) (\<lambda>cancel_pre_flag.
       bindM (rl_ap_may_next_launch cancel_pre_flag) (\<lambda>next_launch_flag.
         if next_launch_flag = 0 then retM LAUNCH_STATUS_CONT
         else
           thenM rl_pre_ap_stop_launch
           (thenM (rl_free_entity prev)
           (thenM (upd_g (jl_following_ap_update (\<lambda>_. None)))
           (bindM (get_g (\<lambda>r. rl_status r AND RL_STATUS_MASK = 0)) (\<lambda>ok.
            if ok then
              thenM (set_status_bits RL_STATUS_DOING)
              (thenM (upd_g (jl_previous_ap_update (\<lambda>_. foll)))
              (bindM (if foll = None then retM LAUNCH_STATUS_OVER
                      else thenM rl_pre_ap_init
                           (bindM (deref foll) (\<lambda>pre_entity.
                            thenM (rl_ap_request_start E (Some (rlaunch pre_entity)))
                            (retM LAUNCH_STATUS_CONT)))) (\<lambda>ret.
               thenM (clear_status_bits RL_STATUS_DOING) (retM ret))))
            else
              thenM (rl_free_entity foll)
              (thenM (upd_g (jl_previous_ap_update (\<lambda>_. None)))
              (retM LAUNCH_STATUS_OVER)))))))))))) "

definition rl_sta_req_is_null :: "('d, 'c, 'w, bool) rl" where
  "rl_sta_req_is_null = get_g (\<lambda>r. jl_previous_sta r = None \<and> jl_following_sta r = None)"

definition sta_request_enter ::
  "('d, 'w) rl_env \<Rightarrow> 'd launch_req \<Rightarrow> 'c option \<Rightarrow> ('d, 'c, 'w, u32) rl" where
  "sta_request_enter E param completion =
     thenM (set_status_bits RL_STATUS_DOING)
     (bindM (getM g_role_launch) (\<lambda>r.
      bindM
       (if jl_previous_ap r = None \<and> jl_previous_sta r = None
           \<and> rl_status r AND RL_STA_STATE_MASK \<noteq> RL_STA_STATE_HOLD then
          bindM (rl_alloc_entity E param completion) (\<lambda>entity.
          thenM (upd_g (jl_previous_sta_update (\<lambda>_. entity)))
          (thenM (rl_sta_request_start E (Some param))
          (retM (1, entity))))
        else if jl_following_sta r = None
           \<and> rl_status r AND RL_STA_STATE_MASK \<noteq> RL_STA_STATE_HOLD then
          bindM (rl_alloc_entity E param completion) (\<lambda>entity.
          thenM (upd_g (jl_following_sta_update (\<lambda>_. entity)))
          (thenM (rl_start E)
          (retM (2, entity))))
        else thenM (rl_start E) (retM (0, None))) (\<lambda>(ret, entity).
      bindM (get_g pre_entity_type) (\<lambda>ty.
      thenM (whenM (entity \<noteq> None \<and> ty = PRE_ENTITY_IDLE)
               (upd_g (pre_entity_type_update (\<lambda>_. PRE_ENTITY_STA))))
      (thenM (clear_status_bits RL_STATUS_DOING) (retM ret))))))"

definition ap_request_enter ::
  "('d, 'w) rl_env \<Rightarrow> 'd launch_req \<Rightarrow> 'c option \<Rightarrow> ('d, 'c, 'w, u32) rl" where
  "ap_request_enter E param completion =
     bindM (getM g_role_launch) (\<lambda>r.
     bindM
       (if jl_previous_ap r = None \<and> jl_previous_sta r = None then
          bindM (rl_alloc_entity E param completion) (\<lambda>entity.
          thenM (upd_g (jl_previous_ap_update (\<lambda>_. entity)))
          (thenM (rl_ap_request_start E (Some param))
          (retM (1, entity))))
        else if jl_following_ap r = None then
          bindM (rl_alloc_entity E param completion) (\<lambda>entity.
          thenM (upd_g (jl_following_ap_update (\<lambda>_. entity)))
          (thenM (rl_start E)
          (retM (2, entity))))
        else thenM (rl_start E) (retM (0, None))) (\<lambda>(ret, entity).
     bindM (get_g pre_entity_type) (\<lambda>ty.
     thenM (whenM (entity \<noteq> None \<and> ty = PRE_ENTITY_IDLE)
              (upd_g (pre_entity_type_update (\<lambda>_. PRE_ENTITY_AP))))
     (retM ret))))"

section \<open>Timer handlers and the request interface\<close>

definition zero_req :: "('d, 'w) rl_env \<Rightarrow> 'd launch_req" where
  "zero_req E = \<lparr>descr = x_zero_descr E, req_type = 0\<rparr>"

definition zero_socket :: "('d, 'w) rl_env \<Rightarrow> ('d, 'c) rl_socket" where
  "zero_socket E = \<lparr>sta_req_flag = 0, sta_param = zero_req E, sta_completion = None,
                    ap_req_flag = 0, ap_param = zero_req E, ap_completion = None\<rparr>"

definition zero_cache :: "('d, 'w) rl_env \<Rightarrow> ('d, 'c) rl_socket_cache" where
  "zero_cache E = \<lparr>cache_req_flag = 0, cache_param = zero_req E, cache_completion = None\<rparr>"

definition rl_enter_handler :: "('d, 'w) rl_env \<Rightarrow> ('d, 'c, 'w, unit) rl" where
  "rl_enter_handler E =
     bindM (on_world (x_alloc E)) (\<lambda>ok.
     if \<not> ok then retM ()
     else
       bindM (getM g_rl_socket) (\<lambda>k.
       thenM (modM (g_rl_socket_update (\<lambda>_. zero_socket E)))
       (bindM (get_g rl_status) (\<lambda>st.
        if st AND RL_STATUS_MASK = 0 then
          thenM (set_status_bits RL_STATUS_PENDING)
          (thenM (whenM (sta_req_flag k \<noteq> 0)
             (bindM (sta_request_enter E (sta_param k) (sta_completion k)) (\<lambda>ret.
              whenM (ret \<noteq> 0 \<and> req_type (sta_param k) = LAUNCH_REQ_STA)
                (modM (\<lambda>s. s\<lparr>g_sta_cache := \<lparr>cache_req_flag = 1, cache_param = sta_param k,
                                              cache_completion = sta_completion k\<rparr>\<rparr>)))))
          (thenM (whenM (ap_req_flag k \<noteq> 0)
             (bindM (ap_request_enter E (ap_param k) (ap_completion k)) (\<lambda>_. retM ())))
          (clear_status_bits RL_STATUS_PENDING)))
        else retM ()))))"

definition rl_sta_request_enter_handle ::
  "('d, 'w) rl_env \<Rightarrow> 'd launch_req \<Rightarrow> 'c option \<Rightarrow> ('d, 'c, 'w, unit) rl" where
  "rl_sta_request_enter_handle E param completion =
     thenM (modM (\<lambda>s. s\<lparr>g_rl_socket := (g_rl_socket s)\<lparr>sta_completion := completion, sta_param := param,
                                                      sta_req_flag := 1\<rparr>\<rparr>))
     (bindM (rtos_stop_oneshot_timer E Enter_Timer) (\<lambda>_.
      bindM (rtos_start_oneshot_timer E Enter_Timer) (\<lambda>ok. assertM ok)))"

definition rl_sta_request_enter ::
  "('d, 'w) rl_env \<Rightarrow> 'd launch_req \<Rightarrow> 'c option \<Rightarrow> ('d, 'c, 'w, unit) rl" where
  "rl_sta_request_enter E param completion =
     thenM (rl_status_reset_st_state RL_ST_STATUS_RESTART_HOLD)
     (rl_sta_request_enter_handle E param completion)"

definition rl_ap_request_enter ::
  "('d, 'w) rl_env \<Rightarrow> 'd launch_req \<Rightarrow> 'c option \<Rightarrow> ('d, 'c, 'w, unit) rl" where
  "rl_ap_request_enter E param completion =
     thenM (modM (\<lambda>s. s\<lparr>g_rl_socket := (g_rl_socket s)\<lparr>ap_completion := completion, ap_param := param,
                                                      ap_req_flag := 1\<rparr>\<rparr>))
     (bindM (rtos_stop_oneshot_timer E Enter_Timer) (\<lambda>_.
      bindM (rtos_start_oneshot_timer E Enter_Timer) (\<lambda>ok. assertM ok)))"

definition rl_sta_cache_request_enter :: "('d, 'w) rl_env \<Rightarrow> ('d, 'c, 'w, u32) rl" where
  "rl_sta_cache_request_enter E =
     bindM (getM g_sta_cache) (\<lambda>c. bindM (get_g rl_status) (\<lambda>st.
     bindM (getM (\<lambda>s. x_is_monitor_mode E (world s))) (\<lambda>monitor.
     bindM (if cache_req_flag c \<noteq> 0 \<and> \<not> monitor
               \<and> st AND RL_PRIV_STATUS_STA_ADV_RDY = 0
               \<and> st AND RL_STA_STATE_MASK \<noteq> RL_STA_STATE_HOLD then
              thenM (whenM (st AND RL_PRIV_STATUS_STA_ADV \<noteq> 0)
                       (rl_status_reset_private_state RL_PRIV_STATUS_STA_ADV))
              (thenM (rl_sta_request_enter_handle E (cache_param c) (cache_completion c))
              (retM 1))
            else
              thenM (whenM (st AND RL_PRIV_STATUS_STA_ADV \<noteq> 0 \<and> st AND RL_PRIV_STATUS_STA_ADV_RDY = 0)
                (thenM (rl_status_reset_private_state RL_PRIV_STATUS_STA_ADV)
                 (rl_sta_request_enter E ((zero_req E)\<lparr>req_type := LAUNCH_REQ_DELIF_STA\<rparr>) None)))
              (retM 0)) (\<lambda>ret.
     thenM (modM (g_sta_cache_update (\<lambda>_. zero_cache E))) (retM ret)))))"

definition rl_launch_handler :: "('d, 'w) rl_env \<Rightarrow> ('d, 'c, 'w, unit) rl" where
  "rl_launch_handler E =
     bindM (get_g pre_entity_type) (\<lambda>ty.
     bindM
       (if ty = PRE_ENTITY_AP then
          bindM (rl_launch_ap E) (\<lambda>ap_ret.
          if ap_ret = LAUNCH_STATUS_OVER then
            thenM (upd_g (pre_entity_type_update (\<lambda>_. PRE_ENTITY_STA)))
            (bindM (rl_launch_sta E) (\<lambda>sta_ret. retM (sta_ret, ap_ret)))
          else retM (LAUNCH_STATUS_OVER, ap_ret))
        else if ty = PRE_ENTITY_STA then
          bindM (rl_launch_sta E) (\<lambda>sta_ret.
          if sta_ret = LAUNCH_STATUS_OVER then
            thenM (upd_g (pre_entity_type_update (\<lambda>_. PRE_ENTITY_AP)))
            (bindM (rl_launch_ap E) (\<lambda>ap_ret. retM (sta_ret, ap_ret)))
          else retM (sta_ret, LAUNCH_STATUS_OVER))
        else retM (LAUNCH_STATUS_OVER, LAUNCH_STATUS_OVER)) (\<lambda>(sta_ret, ap_ret).
     if sta_ret = LAUNCH_STATUS_OVER \<and> ap_ret = LAUNCH_STATUS_OVER then retM ()
     else bindM (rl_relaunch_chance E) (\<lambda>_. retM ())))"

section \<open>What the layers below may change\<close>

text \<open>
  \<open>low24 a b\<close>: the two status words agree below the station-restart bits. \<open>wlan_frame\<close>:
  what a WLAN call may change of this component's data: the role states, the cancel flags,
  the channel-switch flag and the restart bits, and nothing of the queue, the socket, the
  cache or the timers.
\<close>

definition low24 :: "u32 \<Rightarrow> u32 \<Rightarrow> bool" where
  "low24 a b \<longleftrightarrow> (\<forall>n<24. bit a n = bit b n)"

definition queue_frame :: "role_launch \<Rightarrow> role_launch \<Rightarrow> bool" where
  "queue_frame r r' \<longleftrightarrow> jl_previous_sta r' = jl_previous_sta r \<and> jl_following_sta r' = jl_following_sta r
     \<and> jl_previous_ap r' = jl_previous_ap r \<and> jl_following_ap r' = jl_following_ap r"

definition ctl_frame :: "role_launch \<Rightarrow> role_launch \<Rightarrow> bool" where
  "ctl_frame r r' \<longleftrightarrow> enter_timer r' = enter_timer r \<and> rl_timer r' = rl_timer r
     \<and> rl_timer_flag r' = rl_timer_flag r \<and> pre_entity_type r' = pre_entity_type r
     \<and> low24 (rl_status r') (rl_status r)"

definition mem_frame :: "('d, 'c, 'w) rl_state \<Rightarrow> ('d, 'c, 'w) rl_state \<Rightarrow> bool" where
  "mem_frame s s' \<longleftrightarrow> heap s' = heap s \<and> brk s' = brk s \<and> g_rl_socket s' = g_rl_socket s
     \<and> g_sta_cache s' = g_sta_cache s"

definition wlan_frame :: "('d, 'c, 'w) rl_state \<Rightarrow> ('d, 'c, 'w) rl_state \<Rightarrow> bool" where
  "wlan_frame s s' \<longleftrightarrow> queue_frame (g_role_launch s) (g_role_launch s')
     \<and> ctl_frame (g_role_launch s) (g_role_launch s') \<and> mem_frame s s'"

lemmas frame_defs = queue_frame_def ctl_frame_def mem_frame_def wlan_frame_def

lemma low24_refl [simp]: "low24 a a"
  by (simp add: low24_def)

lemma low24_trans: "low24 a b \<Longrightarrow> low24 b c \<Longrightarrow> low24 a c"
  by (simp add: low24_def)

lemma wlan_frame_refl [simp]: "wlan_frame s s"
  by (simp add: frame_defs)

lemma wlan_frame_trans: "wlan_frame s t \<Longrightarrow> wlan_frame t u \<Longrightarrow> wlan_frame s u"
  by (auto simp: frame_defs intro: low24_trans)

lemma bit_st_mask: "n < 24 \<Longrightarrow> \<not> bit RL_ST_STATUS_MASK n"
proof -
  assume n: "n < 24"
  have "RL_ST_STATUS_MASK = push_bit 24 (0xFF :: u32)" by simp
  with n show ?thesis by (metis bit_push_bit_iff not_le)
qed

lemma bit_bits_clear [simp]: "bit (bits_clear x b) n \<longleftrightarrow> bit x n \<and> \<not> bit b n"
  by (auto simp: bits_clear_def bit_and_iff bit_not_iff dest: bit_imp_le_length)

lemma low24_set_st [simp]: "low24 (x OR st AND RL_ST_STATUS_MASK) x"
  using bit_st_mask by (auto simp: low24_def bit_or_iff bit_and_iff)

lemma low24_reset_st [simp]: "low24 (bits_clear x (st AND RL_ST_STATUS_MASK)) x"
  using bit_st_mask by (auto simp: low24_def bit_and_iff)

lemmas rl_basic = upd_g_def get_g_def set_status_bits_def clear_status_bits_def

lemmas rl_flag_ops =
  rl_pre_sta_get_status_def rl_pre_ap_get_status_def rl_init_csa_status_def rl_set_csa_switching_def
  rl_set_csa_switched_def rl_pre_sta_set_status_def rl_pre_ap_disable_autobcn_def
  rl_pre_ap_set_status_def rl_pre_sta_set_cancel_def rl_pre_sta_clear_cancel_def
  rl_pre_ap_set_cancel_def rl_pre_ap_clear_cancel_def rl_pre_ap_init_def rl_pre_sta_init_def
  rl_status_set_st_state_def rl_status_reset_st_state_def

lemma run_call_frame: "\<exists>s'. run_call c s = Inr ((), s') \<and> wlan_frame s s'"
  by (cases c) (auto simp: run_call_def rl_flag_ops rl_basic prog_simps frame_defs)

lemma run_calls_frame: "\<exists>s'. forM cs run_call s = Inr ((), s') \<and> wlan_frame s s'"
proof (induction cs arbitrary: s)
  case Nil
  then show ?case by simp
next
  case (Cons c cs)
  obtain t where t: "run_call c s = Inr ((), t)" "wlan_frame s t" using run_call_frame by blast
  obtain u where "forM cs run_call t = Inr ((), u)" "wlan_frame t u" using Cons.IH by blast
  with t show ?case by (auto intro: wlan_frame_trans)
qed

lemma wlan_call_frame: "\<exists>s'. wlan_call f s = Inr ((), s') \<and> wlan_frame s s'"
proof -
  obtain cs w where f: "f (g_role_launch s) (world s) = (cs, w)" by force
  obtain s' where s': "forM cs run_call (s\<lparr>world := w\<rparr>) = Inr ((), s')" "wlan_frame (s\<lparr>world := w\<rparr>) s'"
    using run_calls_frame by blast
  have "wlan_frame s s'" using s'(2) by (simp add: frame_defs)
  with s'(1) f show ?thesis by (auto simp: wlan_call_def on_world_def prog_simps)
qed

lemma wlan_frame_pre: "wlan_frame (s\<lparr>g_role_launch := r\<rparr>) s' \<Longrightarrow> queue_frame (g_role_launch s) r \<Longrightarrow>
    ctl_frame (g_role_launch s) r \<Longrightarrow> wlan_frame s s'"
  by (auto simp: frame_defs intro: low24_trans)

lemma sta_request_start_frame: "\<exists>s'. rl_sta_request_start E (Some q) s = Inr ((), s') \<and> wlan_frame s s'"
proof -
  have i: "\<exists>s'. thenM rl_pre_sta_init (wlan_call f) s = Inr ((), s') \<and> wlan_frame s s'" for f
  proof -
    let ?r = "(g_role_launch s)\<lparr>pre_sta_cancel := 0, pre_sta_status := 0\<rparr>"
    have 1: "rl_pre_sta_init s = Inr ((), s\<lparr>g_role_launch := ?r\<rparr>)"
      by (simp add: rl_pre_sta_init_def rl_basic)
    obtain s' where 2: "wlan_call f (s\<lparr>g_role_launch := ?r\<rparr>) = Inr ((), s')"
      "wlan_frame (s\<lparr>g_role_launch := ?r\<rparr>) s'" using wlan_call_frame by blast
    have "wlan_frame s s'" by (rule wlan_frame_pre [OF 2(2)]) (simp_all add: frame_defs)
    with 1 2 show ?thesis by auto
  qed
  show ?thesis unfolding rl_sta_request_start_def using i wlan_call_frame [of _ s] by auto
qed

lemma ap_request_start_frame: "\<exists>s'. rl_ap_request_start E (Some q) s = Inr ((), s') \<and> wlan_frame s s'"
proof -
  have i: "\<exists>s'. thenM rl_pre_ap_init (wlan_call f) s = Inr ((), s') \<and> wlan_frame s s'" for f
  proof -
    let ?r = "(g_role_launch s)\<lparr>pre_ap_cancel := 0, pre_ap_status := 0\<rparr>"
    have 1: "rl_pre_ap_init s = Inr ((), s\<lparr>g_role_launch := ?r\<rparr>)"
      by (simp add: rl_pre_ap_init_def rl_basic)
    obtain s' where 2: "wlan_call f (s\<lparr>g_role_launch := ?r\<rparr>) = Inr ((), s')"
      "wlan_frame (s\<lparr>g_role_launch := ?r\<rparr>) s'" using wlan_call_frame by blast
    have "wlan_frame s s'" by (rule wlan_frame_pre [OF 2(2)]) (simp_all add: frame_defs)
    with 1 2 show ?thesis by auto
  qed
  show ?thesis unfolding rl_ap_request_start_def using i wlan_call_frame [of _ s] by auto
qed

section \<open>Ownership of the entities\<close>

text \<open>
  \<open>rl_mem\<close>: the four queue pointers are distinct and own exactly the allocated entities
  (nothing leaks, nothing dangles), and every entity is as \<open>rl_alloc_entity\<close> made it.
\<close>

fun opt_list :: "'a option \<Rightarrow> 'a list" where
  "opt_list None = []"
| "opt_list (Some x) = [x]"

definition ptrs :: "role_launch \<Rightarrow> nat list" where
  "ptrs r = opt_list (jl_previous_sta r) @ opt_list (jl_following_sta r)
          @ opt_list (jl_previous_ap r) @ opt_list (jl_following_ap r)"

definition rl_mem :: "('d, 'c, 'w) rl_state \<Rightarrow> bool" where
  "rl_mem s \<longleftrightarrow> distinct (ptrs (g_role_launch s)) \<and> dom (heap s) = set (ptrs (g_role_launch s))
     \<and> (\<forall>p \<in> set (ptrs (g_role_launch s)). p < brk s)
     \<and> (\<forall>e \<in> ran (heap s). launch_type e = LAUNCH_TYPE_ASAP \<and> relaunch_limit e = 0)"

lemma opt_list_set [simp]: "p \<in> set (opt_list x) \<longleftrightarrow> x = Some p"
  by (cases x) auto

lemma opt_list_Nil [simp]: "opt_list x = [] \<longleftrightarrow> x = None"
  by (cases x) auto

lemma opt_list_distinct [simp]: "distinct (opt_list x)"
  by (cases x) auto

lemma rl_mem_lookup:
  assumes "rl_mem s" "p \<in> set (ptrs (g_role_launch s))"
  obtains e where "heap s p = Some e" "launch_type e = LAUNCH_TYPE_ASAP" "relaunch_limit e = 0"
proof -
  from assms have "p \<in> dom (heap s)" by (simp add: rl_mem_def)
  then obtain e where "heap s p = Some e" by blast
  moreover with assms(1) have "launch_type e = LAUNCH_TYPE_ASAP" "relaunch_limit e = 0"
    by (auto simp: rl_mem_def ran_def)
  ultimately show thesis by (rule that)
qed

lemma rl_mem_frame: "rl_mem s \<Longrightarrow> wlan_frame s s' \<Longrightarrow> rl_mem s'"
  by (auto simp: rl_mem_def frame_defs ptrs_def)

text \<open>Dropping one owner together with its entity keeps the ownership.\<close>

lemma rl_mem_drop:
  assumes "rl_mem s" "distinct (p # ptrs r)" "set (ptrs (g_role_launch s)) = insert p (set (ptrs r))"
  shows "rl_mem (s\<lparr>g_role_launch := r, heap := (heap s)(p := None)\<rparr>)"
  using assms by (auto simp: rl_mem_def ran_def)

lemma rl_mem_move:
  assumes "rl_mem s" "distinct (ptrs r)" "set (ptrs (g_role_launch s)) = set (ptrs r)"
  shows "rl_mem (s\<lparr>g_role_launch := r\<rparr>)"
  using assms by (auto simp: rl_mem_def)

text \<open>One order for the updates of the state: world, globals, allocator, heap.\<close>

lemma state_update_order [simp]:
  "(s\<lparr>heap := h\<rparr>)\<lparr>g_role_launch := r\<rparr> = s\<lparr>g_role_launch := r, heap := h\<rparr>"
  "(s\<lparr>brk := b\<rparr>)\<lparr>g_role_launch := r\<rparr> = s\<lparr>g_role_launch := r, brk := b\<rparr>"
  "(s\<lparr>g_role_launch := r\<rparr>)\<lparr>world := w\<rparr> = s\<lparr>world := w, g_role_launch := r\<rparr>"
  "(s\<lparr>brk := b\<rparr>)\<lparr>world := w\<rparr> = s\<lparr>world := w, brk := b\<rparr>"
  "(s\<lparr>heap := h\<rparr>)\<lparr>world := w\<rparr> = s\<lparr>world := w, heap := h\<rparr>"
  by simp_all

lemma rl_mem_world [simp]: "rl_mem (s\<lparr>world := w\<rparr>) = rl_mem s"
  by (simp add: rl_mem_def)

text \<open>
  The result of one of the two launch functions: \<open>CONT\<close> exactly when an entity of the role
  is running, \<open>OVER\<close> exactly when nothing of the role is left in the queue.
\<close>

definition launched :: "u32 \<Rightarrow> nat option \<Rightarrow> nat option \<Rightarrow> bool" where
  "launched ret prev foll \<longleftrightarrow> (ret = LAUNCH_STATUS_CONT \<and> prev \<noteq> None)
     \<or> (ret = LAUNCH_STATUS_OVER \<and> prev = None \<and> foll = None)"

definition sta_post :: "('d, 'c, 'w) rl_state \<Rightarrow> u32 \<Rightarrow> ('d, 'c, 'w) rl_state \<Rightarrow> bool" where
  "sta_post s ret s' \<longleftrightarrow> rl_mem s' \<and> ctl_frame (g_role_launch s) (g_role_launch s')
     \<and> g_rl_socket s' = g_rl_socket s \<and> g_sta_cache s' = g_sta_cache s
     \<and> jl_previous_ap (g_role_launch s') = jl_previous_ap (g_role_launch s)
     \<and> jl_following_ap (g_role_launch s') = jl_following_ap (g_role_launch s)
     \<and> launched ret (jl_previous_sta (g_role_launch s')) (jl_following_sta (g_role_launch s'))"

definition ap_post :: "('d, 'c, 'w) rl_state \<Rightarrow> u32 \<Rightarrow> ('d, 'c, 'w) rl_state \<Rightarrow> bool" where
  "ap_post s ret s' \<longleftrightarrow> rl_mem s' \<and> ctl_frame (g_role_launch s) (g_role_launch s')
     \<and> g_rl_socket s' = g_rl_socket s \<and> g_sta_cache s' = g_sta_cache s
     \<and> jl_previous_sta (g_role_launch s') = jl_previous_sta (g_role_launch s)
     \<and> jl_following_sta (g_role_launch s') = jl_following_sta (g_role_launch s)
     \<and> launched ret (jl_previous_ap (g_role_launch s')) (jl_following_ap (g_role_launch s'))"

text \<open>Setting the DOING bit, serving a request and clearing the bit leaves the low bits.\<close>

lemma low24_flag:
  assumes "low24 y (x OR b)" "\<not> bit x k" and b: "\<And>n. bit b n \<longleftrightarrow> n = k"
  shows "low24 (bits_clear y b) x"
  unfolding low24_def
proof (intro allI impI)
  fix n :: nat
  assume "n < 24"
  with assms(1) have "bit y n \<longleftrightarrow> bit x n \<or> bit b n" by (simp only: low24_def bit_or_iff)
  with assms(2) show "bit (bits_clear y b) n = bit x n" by (cases "n = k") (simp_all add: b)
qed

lemma bit_doing: "bit RL_STATUS_DOING n \<longleftrightarrow> n = 1"
  by (cases n) (auto simp: bit_Suc bit_1_iff)

lemma bit_pending: "bit RL_STATUS_PENDING n \<longleftrightarrow> n = 0"
  by (simp add: bit_1_iff)

lemmas low24_doing = low24_flag [OF _ _ bit_doing]
lemmas low24_pending = low24_flag [OF _ _ bit_pending]

lemma serve_doing_frame:
  assumes "wlan_frame (s\<lparr>g_role_launch := rl_status_update (\<lambda>x. x OR RL_STATUS_DOING) r\<rparr>) t"
    and "\<not> bit (rl_status r) 1"
  shows "wlan_frame (s\<lparr>g_role_launch := r\<rparr>)
           (t\<lparr>g_role_launch := rl_status_update (\<lambda>x. bits_clear x RL_STATUS_DOING) (g_role_launch t)\<rparr>)"
  using assms by (auto simp: frame_defs intro: low24_doing)

lemma status_update_inner [simp]:
  "(rl_status_update f r)\<lparr>jl_previous_sta := p\<rparr> = rl_status_update f (r\<lparr>jl_previous_sta := p\<rparr>)"
  "(rl_status_update f r)\<lparr>jl_previous_ap := p\<rparr> = rl_status_update f (r\<lparr>jl_previous_ap := p\<rparr>)"
  by (cases r; simp)+

text \<open>The part of \<open>rl_launch_sta\<close> that follows the two cancel checks.\<close>

definition retire_sta :: "('d, 'w) rl_env \<Rightarrow> nat option \<Rightarrow> nat option \<Rightarrow> ('d, 'c, 'w, u32) rl" where
  "retire_sta E prev foll =
     bindM rl_sta_may_next_launch (\<lambda>next_launch_flag.
     if next_launch_flag = 0 then retM LAUNCH_STATUS_CONT
     else
       thenM rl_pre_sta_stop_launch
       (thenM (rl_free_entity prev)
       (thenM (upd_g (jl_following_sta_update (\<lambda>_. None)))
       (bindM (get_g sta_open) (\<lambda>ok.
        if ok then
          thenM (set_status_bits RL_STATUS_DOING)
          (thenM (upd_g (jl_previous_sta_update (\<lambda>_. foll)))
          (bindM (if foll = None then retM LAUNCH_STATUS_OVER
                  else bindM (deref foll) (\<lambda>pre_entity.
                       thenM (rl_sta_request_start E (Some (rlaunch pre_entity)))
                       (retM LAUNCH_STATUS_CONT))) (\<lambda>ret.
           thenM (clear_status_bits RL_STATUS_DOING) (retM ret))))
        else
          thenM (rl_free_entity foll)
          (thenM (upd_g (jl_previous_sta_update (\<lambda>_. None)))
          (retM LAUNCH_STATUS_OVER)))))))"

lemma sta_may_next_run: "\<exists>n. rl_sta_may_next_launch s = Inr (n, s)"
  by (simp add: rl_sta_may_next_launch_def rl_flag_ops rl_basic prog_simps Let_def)

lemma retire_sta_run:
  assumes mem: "rl_mem s" and idle: "\<not> bit (rl_status (g_role_launch s)) 1"
    and q: "jl_previous_sta (g_role_launch s) = Some q" and foll: "jl_following_sta (g_role_launch s) = foll"
  shows "\<exists>ret s'. retire_sta E (Some q) foll s = Inr (ret, s') \<and> sta_post s ret s'"
proof -
  obtain n where n: "rl_sta_may_next_launch s = Inr (n, s)" using sta_may_next_run by blast
  obtain e where e: "heap s q = Some e" using rl_mem_lookup [OF mem, of q] q by (auto simp: ptrs_def)
  let ?r1 = "(g_role_launch s)\<lparr>jl_following_sta := None\<rparr>"
  let ?r = "?r1\<lparr>jl_previous_sta := foll\<rparr>"
  let ?s = "s\<lparr>heap := (heap s)(q := None)\<rparr>"
  have mem1: "rl_mem (?s\<lparr>g_role_launch := ?r\<rparr>)"
    using rl_mem_drop [OF mem, of q ?r] mem q foll by (auto simp: ptrs_def rl_mem_def)
  consider "n = 0" | "n \<noteq> 0" "\<not> sta_open ?r1" | "n \<noteq> 0" "sta_open ?r1" "foll = None"
    | p where "n \<noteq> 0" "sta_open ?r1" "foll = Some p"
    by (cases foll) auto
  then show ?thesis
  proof cases
    case 1
    with n q mem show ?thesis
      by (simp add: retire_sta_def prog_simps sta_post_def launched_def ctl_frame_def)
  next
    case 2
    let ?h = "case foll of None \<Rightarrow> (heap s)(q := None) | Some p \<Rightarrow> (heap s)(q := None, p := None)"
    have "rl_mem (s\<lparr>g_role_launch := ?r1\<lparr>jl_previous_sta := None\<rparr>, heap := ?h\<rparr>)"
      using mem q foll by (cases foll) (auto simp: ptrs_def rl_mem_def ran_def)
    moreover have "\<exists>e. heap s p = Some e" "p \<noteq> q" if "foll = Some p" for p
      using mem q foll that rl_mem_lookup [OF mem, of p] by (auto simp: ptrs_def rl_mem_def)
    ultimately show ?thesis using 2 n e
      by (cases foll) (auto simp: retire_sta_def rl_basic prog_simps rl_free_entity_def
          rl_pre_sta_stop_launch_def sta_post_def launched_def frame_defs)
  next
    case 3
    have "wlan_frame (?s\<lparr>g_role_launch := ?r\<rparr>)
       (?s\<lparr>g_role_launch := rl_status_update (\<lambda>x. bits_clear (x OR RL_STATUS_DOING) RL_STATUS_DOING) ?r\<rparr>)"
      using serve_doing_frame [OF wlan_frame_refl, of ?r ?s] idle by (simp add: comp_def)
    with 3 n e mem1 rl_mem_frame [OF mem1 this] show ?thesis
      by (auto simp: comp_def retire_sta_def rl_basic prog_simps rl_free_entity_def rl_pre_sta_stop_launch_def
          sta_post_def launched_def frame_defs)
  next
    case (4 p)
    obtain e' where e': "heap s p = Some e'"
      using foll 4(3) rl_mem_lookup [OF mem, of p] by (auto simp: ptrs_def)
    have pq: "p \<noteq> q" using mem q foll 4(3) by (auto simp: ptrs_def rl_mem_def)
    obtain t where t: "rl_sta_request_start E (Some (rlaunch e'))
          (?s\<lparr>g_role_launch := rl_status_update (\<lambda>x. x OR RL_STATUS_DOING) ?r\<rparr>) = Inr ((), t)"
        "wlan_frame (?s\<lparr>g_role_launch := rl_status_update (\<lambda>x. x OR RL_STATUS_DOING) ?r\<rparr>) t"
      using sta_request_start_frame by blast
    have fr: "wlan_frame (?s\<lparr>g_role_launch := ?r\<rparr>)
         (t\<lparr>g_role_launch := rl_status_update (\<lambda>x. bits_clear x RL_STATUS_DOING) (g_role_launch t)\<rparr>)"
      by (rule serve_doing_frame [OF t(2)]) (use idle in simp)
    with rl_mem_frame [OF mem1 fr] 4 n e e' pq t(1) show ?thesis
      by (auto simp: retire_sta_def rl_basic prog_simps rl_free_entity_def rl_pre_sta_stop_launch_def
          deref_def sta_post_def launched_def frame_defs)
  qed
qed

lemma rl_launch_sta_run:
  assumes mem: "rl_mem s" and idle: "\<not> bit (rl_status (g_role_launch s)) 1"
  shows "\<exists>ret s'. rl_launch_sta E s = Inr (ret, s') \<and> sta_post s ret s'"
proof (cases "jl_previous_sta (g_role_launch s)")
  case None
  show ?thesis
  proof (cases "jl_following_sta (g_role_launch s)")
    case f: None
    with None mem show ?thesis
      by (simp add: rl_launch_sta_def rl_basic prog_simps sta_post_def launched_def ctl_frame_def)
  next
    case (Some p)
    obtain e where e: "heap s p = Some e"
      using rl_mem_lookup [OF mem, of p] Some by (auto simp: ptrs_def)
    let ?r1 = "(g_role_launch s)\<lparr>jl_following_sta := None\<rparr>"
    show ?thesis
    proof (cases "sta_open ?r1")
      case True
      let ?r = "?r1\<lparr>jl_previous_sta := Some p\<rparr>"
      obtain t where t: "rl_sta_request_start E (Some (rlaunch e))
            (s\<lparr>g_role_launch := rl_status_update (\<lambda>x. x OR RL_STATUS_DOING) ?r\<rparr>) = Inr ((), t)"
          "wlan_frame (s\<lparr>g_role_launch := rl_status_update (\<lambda>x. x OR RL_STATUS_DOING) ?r\<rparr>) t"
        using sta_request_start_frame by blast
      have fr: "wlan_frame (s\<lparr>g_role_launch := ?r\<rparr>)
           (t\<lparr>g_role_launch := rl_status_update (\<lambda>x. bits_clear x RL_STATUS_DOING) (g_role_launch t)\<rparr>)"
        by (rule serve_doing_frame [OF t(2)]) (use idle in simp)
      have "rl_mem (s\<lparr>g_role_launch := ?r\<rparr>)"
        by (rule rl_mem_move) (use mem None Some in \<open>auto simp: ptrs_def rl_mem_def\<close>)
      from rl_mem_frame [OF this fr] fr None Some True e t(1) show ?thesis
        by (auto simp: rl_launch_sta_def rl_basic prog_simps deref_def sta_post_def launched_def frame_defs)
    next
      case False
      have "rl_mem (s\<lparr>g_role_launch := ?r1, heap := (heap s)(p := None)\<rparr>)"
        by (rule rl_mem_drop) (use mem None Some in \<open>auto simp: ptrs_def rl_mem_def\<close>)
      with None Some False e show ?thesis
        by (auto simp: rl_launch_sta_def rl_basic prog_simps rl_free_entity_def sta_post_def
            launched_def frame_defs)
    qed
  qed
next
  case (Some q)
  obtain e where e: "heap s q = Some e" "relaunch_limit e = 0"
    using rl_mem_lookup [OF mem, of q] Some by (auto simp: ptrs_def)
  define foll where "foll = jl_following_sta (g_role_launch s)"
  define r0 where "r0 = (if foll = None then g_role_launch s else (g_role_launch s)\<lparr>pre_sta_cancel := 1\<rparr>)"
  have r0: "rl_status r0 = rl_status (g_role_launch s)" "jl_previous_sta r0 = Some q" "jl_following_sta r0 = foll"
    by (simp_all add: r0_def Some foll_def)
  have foll: "\<exists>e. heap s p = Some e \<and> launch_type e = LAUNCH_TYPE_ASAP" if "foll = Some p" for p
    using rl_mem_lookup [OF mem, of p] that by (auto simp: ptrs_def foll_def)
  have start: "rl_launch_sta E s = retire_sta E (Some q) foll (s\<lparr>g_role_launch := r0\<rparr>)"
    using Some e foll unfolding r0_def foll_def
    by (auto simp: rl_launch_sta_def retire_sta_def rl_basic prog_simps deref_def rl_pre_sta_set_cancel_def)
  have mem0: "rl_mem (s\<lparr>g_role_launch := r0\<rparr>)"
    by (rule rl_mem_move) (use mem in \<open>auto simp: r0_def ptrs_def rl_mem_def\<close>)
  obtain ret s' where run: "retire_sta E (Some q) foll (s\<lparr>g_role_launch := r0\<rparr>) = Inr (ret, s')"
      "sta_post (s\<lparr>g_role_launch := r0\<rparr>) ret s'"
    using retire_sta_run [OF mem0, of q foll E] idle r0 by auto
  have "sta_post s ret s'" using run(2) by (auto simp: sta_post_def r0_def ctl_frame_def split: if_splits)
  with start run(1) show ?thesis by auto
qed

text \<open>The part of \<open>rl_launch_ap\<close> that follows the two cancel checks.\<close>

definition retire_ap :: "('d, 'w) rl_env \<Rightarrow> nat option \<Rightarrow> nat option \<Rightarrow> u32 \<Rightarrow> ('d, 'c, 'w, u32) rl" where
  "retire_ap E prev foll cancel_pre_flag =
     bindM (rl_ap_may_next_launch cancel_pre_flag) (\<lambda>next_launch_flag.
     if next_launch_flag = 0 then retM LAUNCH_STATUS_CONT
     else
       thenM rl_pre_ap_stop_launch
       (thenM (rl_free_entity prev)
       (thenM (upd_g (jl_following_ap_update (\<lambda>_. None)))
       (bindM (get_g (\<lambda>r. rl_status r AND RL_STATUS_MASK = 0)) (\<lambda>ok.
        if ok then
          thenM (set_status_bits RL_STATUS_DOING)
          (thenM (upd_g (jl_previous_ap_update (\<lambda>_. foll)))
          (bindM (if foll = None then retM LAUNCH_STATUS_OVER
                  else thenM rl_pre_ap_init
                       (bindM (deref foll) (\<lambda>pre_entity.
                        thenM (rl_ap_request_start E (Some (rlaunch pre_entity)))
                        (retM LAUNCH_STATUS_CONT)))) (\<lambda>ret.
           thenM (clear_status_bits RL_STATUS_DOING) (retM ret))))
        else
          thenM (rl_free_entity foll)
          (thenM (upd_g (jl_previous_ap_update (\<lambda>_. None)))
          (retM LAUNCH_STATUS_OVER)))))))"

lemma ap_may_next_run: "\<exists>n. rl_ap_may_next_launch c s = Inr (n, s)"
  by (simp add: rl_ap_may_next_launch_def rl_flag_ops rl_basic prog_simps Let_def)

text \<open>Initialising the access-point state and serving the request is again a WLAN frame.\<close>

lemma ap_init_start_frame:
  "\<exists>s'. thenM rl_pre_ap_init (rl_ap_request_start E (Some q)) s = Inr ((), s') \<and> wlan_frame s s'"
proof -
  let ?r = "(g_role_launch s)\<lparr>pre_ap_cancel := 0, pre_ap_status := 0\<rparr>"
  have 1: "rl_pre_ap_init s = Inr ((), s\<lparr>g_role_launch := ?r\<rparr>)"
    by (simp add: rl_pre_ap_init_def rl_basic)
  obtain s' where 2: "rl_ap_request_start E (Some q) (s\<lparr>g_role_launch := ?r\<rparr>) = Inr ((), s')"
    "wlan_frame (s\<lparr>g_role_launch := ?r\<rparr>) s'" using ap_request_start_frame by blast
  have "wlan_frame s s'" by (rule wlan_frame_pre [OF 2(2)]) (simp_all add: frame_defs)
  with 1 2 show ?thesis by auto
qed

lemma retire_ap_run:
  assumes mem: "rl_mem s" and idle: "\<not> bit (rl_status (g_role_launch s)) 1"
    and q: "jl_previous_ap (g_role_launch s) = Some q" and foll: "jl_following_ap (g_role_launch s) = foll"
  shows "\<exists>ret s'. retire_ap E (Some q) foll c s = Inr (ret, s') \<and> ap_post s ret s'"
proof -
  obtain n where n: "rl_ap_may_next_launch c s = Inr (n, s)" using ap_may_next_run by blast
  obtain e where e: "heap s q = Some e" using rl_mem_lookup [OF mem, of q] q by (auto simp: ptrs_def)
  let ?r1 = "(g_role_launch s)\<lparr>jl_following_ap := None\<rparr>"
  let ?r = "?r1\<lparr>jl_previous_ap := foll\<rparr>"
  let ?s = "s\<lparr>heap := (heap s)(q := None)\<rparr>"
  have mem1: "rl_mem (?s\<lparr>g_role_launch := ?r\<rparr>)"
    using rl_mem_drop [OF mem, of q ?r] mem q foll by (auto simp: ptrs_def rl_mem_def)
  consider "n = 0" | "n \<noteq> 0" "\<not> (rl_status (g_role_launch s) AND RL_STATUS_MASK = 0)" | "n \<noteq> 0" "(rl_status (g_role_launch s) AND RL_STATUS_MASK = 0)" "foll = None"
    | p where "n \<noteq> 0" "(rl_status (g_role_launch s) AND RL_STATUS_MASK = 0)" "foll = Some p"
    by (cases foll) auto
  then show ?thesis
  proof cases
    case 1
    with n q mem show ?thesis
      by (simp add: retire_ap_def prog_simps ap_post_def launched_def ctl_frame_def)
  next
    case 2
    let ?h = "case foll of None \<Rightarrow> (heap s)(q := None) | Some p \<Rightarrow> (heap s)(q := None, p := None)"
    have "rl_mem (s\<lparr>g_role_launch := ?r1\<lparr>jl_previous_ap := None\<rparr>, heap := ?h\<rparr>)"
      using mem q foll by (cases foll) (auto simp: ptrs_def rl_mem_def ran_def)
    moreover have "\<exists>e. heap s p = Some e" "p \<noteq> q" if "foll = Some p" for p
      using mem q foll that rl_mem_lookup [OF mem, of p] by (auto simp: ptrs_def rl_mem_def)
    ultimately show ?thesis using 2 n e
      by (cases foll) (auto simp: retire_ap_def rl_basic prog_simps rl_free_entity_def
          rl_pre_ap_stop_launch_def ap_post_def launched_def frame_defs)
  next
    case 3
    have "wlan_frame (?s\<lparr>g_role_launch := ?r\<rparr>)
       (?s\<lparr>g_role_launch := rl_status_update (\<lambda>x. bits_clear (x OR RL_STATUS_DOING) RL_STATUS_DOING) ?r\<rparr>)"
      using serve_doing_frame [OF wlan_frame_refl, of ?r ?s] idle by (simp add: comp_def)
    with 3 n e mem1 rl_mem_frame [OF mem1 this] show ?thesis
      by (auto simp: comp_def retire_ap_def rl_basic prog_simps rl_free_entity_def rl_pre_ap_stop_launch_def
          ap_post_def launched_def frame_defs)
  next
    case (4 p)
    obtain e' where e': "heap s p = Some e'"
      using foll 4(3) rl_mem_lookup [OF mem, of p] by (auto simp: ptrs_def)
    have pq: "p \<noteq> q" using mem q foll 4(3) by (auto simp: ptrs_def rl_mem_def)
    obtain t where t: "thenM rl_pre_ap_init (rl_ap_request_start E (Some (rlaunch e')))
          (?s\<lparr>g_role_launch := rl_status_update (\<lambda>x. x OR RL_STATUS_DOING) ?r\<rparr>) = Inr ((), t)"
        "wlan_frame (?s\<lparr>g_role_launch := rl_status_update (\<lambda>x. x OR RL_STATUS_DOING) ?r\<rparr>) t"
      using ap_init_start_frame by blast
    have fr: "wlan_frame (?s\<lparr>g_role_launch := ?r\<rparr>)
         (t\<lparr>g_role_launch := rl_status_update (\<lambda>x. bits_clear x RL_STATUS_DOING) (g_role_launch t)\<rparr>)"
      by (rule serve_doing_frame [OF t(2)]) (use idle in simp)
    with rl_mem_frame [OF mem1 fr] 4 n e e' pq t(1) show ?thesis
      by (auto simp: retire_ap_def rl_basic prog_simps rl_free_entity_def rl_pre_ap_stop_launch_def
          deref_def rl_pre_ap_init_def ap_post_def launched_def frame_defs)
  qed
qed

lemma rl_launch_ap_run:
  assumes mem: "rl_mem s" and idle: "\<not> bit (rl_status (g_role_launch s)) 1"
  shows "\<exists>ret s'. rl_launch_ap E s = Inr (ret, s') \<and> ap_post s ret s'"
proof (cases "jl_previous_ap (g_role_launch s)")
  case None
  show ?thesis
  proof (cases "jl_following_ap (g_role_launch s)")
    case f: None
    with None mem show ?thesis
      by (simp add: rl_launch_ap_def rl_basic prog_simps ap_post_def launched_def ctl_frame_def)
  next
    case (Some p)
    obtain e where e: "heap s p = Some e"
      using rl_mem_lookup [OF mem, of p] Some by (auto simp: ptrs_def)
    let ?r1 = "(g_role_launch s)\<lparr>jl_following_ap := None\<rparr>"
    show ?thesis
    proof (cases "(rl_status (g_role_launch s) AND RL_STATUS_MASK = 0)")
      case True
      let ?r = "?r1\<lparr>jl_previous_ap := Some p\<rparr>"
      obtain t where t: "thenM rl_pre_ap_init (rl_ap_request_start E (Some (rlaunch e)))
            (s\<lparr>g_role_launch := rl_status_update (\<lambda>x. x OR RL_STATUS_DOING) ?r\<rparr>) = Inr ((), t)"
          "wlan_frame (s\<lparr>g_role_launch := rl_status_update (\<lambda>x. x OR RL_STATUS_DOING) ?r\<rparr>) t"
        using ap_init_start_frame by blast
      have fr: "wlan_frame (s\<lparr>g_role_launch := ?r\<rparr>)
           (t\<lparr>g_role_launch := rl_status_update (\<lambda>x. bits_clear x RL_STATUS_DOING) (g_role_launch t)\<rparr>)"
        by (rule serve_doing_frame [OF t(2)]) (use idle in simp)
      have "rl_mem (s\<lparr>g_role_launch := ?r\<rparr>)"
        by (rule rl_mem_move) (use mem None Some in \<open>auto simp: ptrs_def rl_mem_def\<close>)
      from rl_mem_frame [OF this fr] fr None Some True e t(1) show ?thesis
        by (auto simp: rl_launch_ap_def rl_basic prog_simps deref_def rl_pre_ap_init_def ap_post_def launched_def frame_defs)
    next
      case False
      have "rl_mem (s\<lparr>g_role_launch := ?r1, heap := (heap s)(p := None)\<rparr>)"
        by (rule rl_mem_drop) (use mem None Some in \<open>auto simp: ptrs_def rl_mem_def\<close>)
      with None Some False e show ?thesis
        by (auto simp: rl_launch_ap_def rl_basic prog_simps rl_free_entity_def ap_post_def
            launched_def frame_defs)
    qed
  qed
next
  case (Some q)
  obtain e where e: "heap s q = Some e" "relaunch_limit e = 0"
    using rl_mem_lookup [OF mem, of q] Some by (auto simp: ptrs_def)
  define foll where "foll = jl_following_ap (g_role_launch s)"
  define r0 where "r0 = (if foll = None then g_role_launch s else (g_role_launch s)\<lparr>pre_ap_cancel := 1\<rparr>)"
  have r0: "rl_status r0 = rl_status (g_role_launch s)" "jl_previous_ap r0 = Some q" "jl_following_ap r0 = foll"
    by (simp_all add: r0_def Some foll_def)
  have foll: "\<exists>e. heap s p = Some e \<and> launch_type e = LAUNCH_TYPE_ASAP" if "foll = Some p" for p
    using rl_mem_lookup [OF mem, of p] that by (auto simp: ptrs_def foll_def)
  have start: "rl_launch_ap E s = retire_ap E (Some q) foll (if foll = None then 0 else 1) (s\<lparr>g_role_launch := r0\<rparr>)"
    using Some e foll unfolding r0_def foll_def
    by (auto simp: rl_launch_ap_def retire_ap_def rl_basic prog_simps deref_def rl_pre_ap_set_cancel_def)
  have mem0: "rl_mem (s\<lparr>g_role_launch := r0\<rparr>)"
    by (rule rl_mem_move) (use mem in \<open>auto simp: r0_def ptrs_def rl_mem_def\<close>)
  obtain ret s' where run: "retire_ap E (Some q) foll (if foll = None then 0 else 1) (s\<lparr>g_role_launch := r0\<rparr>) = Inr (ret, s')"
      "ap_post (s\<lparr>g_role_launch := r0\<rparr>) ret s'"
    using retire_ap_run [OF mem0, of q foll E "if foll = None then 0 else 1"] idle r0 by auto
  have "ap_post s ret s'" using run(2) by (auto simp: ap_post_def r0_def ctl_frame_def split: if_splits)
  with start run(1) show ?thesis by auto
qed

section \<open>The invariant of the queue\<close>

text \<open>
  The kernel's timer commands and the allocator succeed: timer commands are sent with an
  infinite wait, and an allocation failure is a failed assertion (see \<open>rl_alloc_entity\<close>).
\<close>

definition env_ok :: "('d, 'w) rl_env \<Rightarrow> bool" where
  "env_ok E \<longleftrightarrow> (\<forall>w. fst (x_timer_command E w) \<and> fst (x_timer_create E w) \<and> fst (x_alloc E w))"

text \<open>
  \<open>rl_core\<close>: besides the ownership of the entities, both timers exist, the alternation flag
  is one of the three values, an idle queue is empty, something waits only behind something
  that runs, and then the launch timer is counting.
\<close>

definition rl_core :: "('d, 'c, 'w) rl_state \<Rightarrow> bool" where
  "rl_core s \<longleftrightarrow> rl_mem s \<and> (let r = g_role_launch s in
     handle (rl_timer r) \<and> handle (enter_timer r)
     \<and> pre_entity_type r \<in> {PRE_ENTITY_IDLE, PRE_ENTITY_STA, PRE_ENTITY_AP}
     \<and> (pre_entity_type r = PRE_ENTITY_IDLE \<longrightarrow> ptrs r = [])
     \<and> (jl_previous_sta r = None \<and> jl_previous_ap r = None \<longrightarrow> ptrs r = [])
     \<and> (jl_following_sta r \<noteq> None \<or> jl_following_ap r \<noteq> None \<longrightarrow> running (rl_timer r)))"

definition rl_inv :: "('d, 'c, 'w) rl_state \<Rightarrow> bool" where
  "rl_inv s \<longleftrightarrow> rl_core s \<and> (\<forall>n<16. n \<noteq> 7 \<longrightarrow> \<not> bit (rl_status (g_role_launch s)) n)
     \<and> (sta_req_flag (g_rl_socket s) \<noteq> 0 \<or> ap_req_flag (g_rl_socket s) \<noteq> 0
          \<longrightarrow> running (enter_timer (g_role_launch s)))"

lemma timer_command_run:
  assumes "env_ok E" "handle (timer_of t (g_role_launch s))"
  shows "\<exists>w. timer_command E t f s = Inr (True, (case t of
           Enter_Timer \<Rightarrow> s\<lparr>g_role_launch := enter_timer_update f (g_role_launch s), world := w\<rparr>
         | Rl_Timer \<Rightarrow> s\<lparr>g_role_launch := rl_timer_update f (g_role_launch s), world := w\<rparr>))"
proof -
  obtain w where "x_timer_command E (world s) = (True, w)"
    using assms(1) unfolding env_ok_def by (metis prod.collapse)
  then show ?thesis using assms(2)
    by (cases t) (auto simp: timer_command_def on_world_def upd_timer_def rl_basic prog_simps)
qed

lemma rl_start_run:
  assumes E: "env_ok E" and h: "handle (rl_timer (g_role_launch s))"
  shows "\<exists>w. rl_start E s = Inr ((), s\<lparr>world := w, g_role_launch := (g_role_launch s)
           \<lparr>rl_timer := \<lparr>handle = True, running = True\<rparr>, rl_timer_flag := RL_TIMER_START\<rparr>\<rparr>)"
proof -
  obtain w where 1: "timer_command E Rl_Timer (running_update (\<lambda>_. False)) s
      = Inr (True, s\<lparr>g_role_launch := rl_timer_update (running_update (\<lambda>_. False)) (g_role_launch s), world := w\<rparr>)"
    using timer_command_run [OF E, of Rl_Timer s] h by (auto simp: timer_of_def)
  let ?t = "s\<lparr>g_role_launch := (rl_timer_update (running_update (\<lambda>_. False)) (g_role_launch s))
              \<lparr>rl_timer_flag := RL_TIMER_STOP\<rparr>, world := w\<rparr>"
  obtain w' where "timer_command E Rl_Timer (running_update (\<lambda>_. True)) ?t
      = Inr (True, ?t\<lparr>g_role_launch := rl_timer_update (running_update (\<lambda>_. True)) (g_role_launch ?t), world := w'\<rparr>)"
    using timer_command_run [OF E, of Rl_Timer ?t] h by (auto simp: timer_of_def)
  with 1 h show ?thesis
    by (auto simp: rl_start_def rtos_stop_oneshot_timer_def rtos_start_oneshot_timer_def rl_basic prog_simps
        intro!: exI [of _ w'] rl_state.equality role_launch.equality)
qed

lemma rl_alloc_entity_run:
  assumes "env_ok E"
  shows "\<exists>w. rl_alloc_entity E q c s = Inr (Some (brk s), s\<lparr>world := w, brk := Suc (brk s),
    heap := (heap s)(brk s \<mapsto> \<lparr>launch_type = LAUNCH_TYPE_ASAP, relaunch_limit = 0, launch_count = 0,
                               rlaunch = q, completion_cb = c\<rparr>)\<rparr>)"
proof -
  obtain w where "x_alloc E (world s) = (True, w)"
    using assms unfolding env_ok_def by (metis prod.collapse)
  then show ?thesis by (auto simp: rl_alloc_entity_def on_world_def prog_simps)
qed

lemma rl_mem_fresh: "rl_mem s \<Longrightarrow> brk s \<notin> set (ptrs (g_role_launch s))"
  by (auto simp: rl_mem_def)

lemma rl_mem_add:
  assumes "rl_mem s" "distinct (ptrs r)" "set (ptrs r) = insert (brk s) (set (ptrs (g_role_launch s)))"
    "launch_type e = LAUNCH_TYPE_ASAP" "relaunch_limit e = 0"
  shows "rl_mem (s\<lparr>g_role_launch := r, world := w, brk := Suc (brk s), heap := (heap s)(brk s \<mapsto> e)\<rparr>)"
  using assms by (auto simp: rl_mem_def ran_def less_Suc_eq)

text \<open>What moving a request into the queue leaves alone.\<close>

definition enter_post :: "('d, 'c, 'w) rl_state \<Rightarrow> ('d, 'c, 'w) rl_state \<Rightarrow> bool" where
  "enter_post s s' \<longleftrightarrow> rl_core s' \<and> low24 (rl_status (g_role_launch s')) (rl_status (g_role_launch s))
     \<and> enter_timer (g_role_launch s') = enter_timer (g_role_launch s)
     \<and> g_rl_socket s' = g_rl_socket s \<and> g_sta_cache s' = g_sta_cache s"

lemma ptrs_Nil: "ptrs r = [] \<longleftrightarrow> jl_previous_sta r = None \<and> jl_following_sta r = None
    \<and> jl_previous_ap r = None \<and> jl_following_ap r = None"
  by (auto simp: ptrs_def)

text \<open>Entering the request when nothing runs: the new entity is started at once.\<close>

lemma enter_start_core:
  assumes core: "rl_core s" and none: "jl_previous_sta (g_role_launch s) = None" "jl_previous_ap (g_role_launch s) = None"
    and r: "ptrs r = [brk s]" "jl_following_sta r = None" "jl_following_ap r = None"
      "rl_timer r = rl_timer (g_role_launch s)" "enter_timer r = enter_timer (g_role_launch s)"
    and e: "launch_type e = LAUNCH_TYPE_ASAP" "relaunch_limit e = 0"
    and fr: "wlan_frame (s\<lparr>world := w, g_role_launch := r, brk := Suc (brk s), heap := (heap s)(brk s \<mapsto> e)\<rparr>) t"
    and t': "t' = t\<lparr>g_role_launch := r'\<rparr>" "queue_frame (g_role_launch t) r'"
      "rl_timer r' = rl_timer (g_role_launch t)" "enter_timer r' = enter_timer (g_role_launch t)"
      "pre_entity_type r' \<in> {PRE_ENTITY_STA, PRE_ENTITY_AP}"
  shows "rl_core t'"
proof -
  from core none have "ptrs (g_role_launch s) = []" by (simp add: rl_core_def Let_def)
  then have "rl_mem (s\<lparr>g_role_launch := r, world := w, brk := Suc (brk s), heap := (heap s)(brk s \<mapsto> e)\<rparr>)"
    using core e r(1) by (intro rl_mem_add) (auto simp: rl_core_def)
  then have "rl_mem t" using rl_mem_frame [OF _ fr] by simp
  moreover have f: "jl_previous_sta r' = jl_previous_sta r" "jl_previous_ap r' = jl_previous_ap r"
    "jl_following_sta r' = None" "jl_following_ap r' = None"
    "rl_timer r' = rl_timer (g_role_launch s)" "enter_timer r' = enter_timer (g_role_launch s)"
    using fr t'(2-4) r by (simp_all add: frame_defs)
  moreover have "ptrs (g_role_launch t) = ptrs r'" using t'(2) by (simp add: queue_frame_def ptrs_def)
  ultimately have "rl_mem t'" unfolding t'(1) by (simp add: rl_mem_def)
  moreover have "jl_previous_sta r \<noteq> None \<or> jl_previous_ap r \<noteq> None"
    using r(1-3) by (cases "jl_previous_sta r"; cases "jl_previous_ap r") (simp_all add: ptrs_def)
  moreover have "handle (rl_timer (g_role_launch s))" "handle (enter_timer (g_role_launch s))"
    using core by (simp_all add: rl_core_def Let_def)
  ultimately show ?thesis using t'(5) unfolding t'(1)
    by (auto simp: rl_core_def Let_def f)
qed

text \<open>Entering the request behind a running one: it waits and the launch timer counts.\<close>

lemma enter_wait_core:
  assumes core: "rl_core s" and some: "jl_previous_sta (g_role_launch s) \<noteq> None \<or> jl_previous_ap (g_role_launch s) \<noteq> None"
    and r: "distinct (ptrs r)" "set (ptrs r) = insert (brk s) (set (ptrs (g_role_launch s)))"
      "jl_previous_sta r = jl_previous_sta (g_role_launch s)" "jl_previous_ap r = jl_previous_ap (g_role_launch s)"
      "handle (rl_timer r)" "running (rl_timer r)" "enter_timer r = enter_timer (g_role_launch s)"
      "pre_entity_type r = pre_entity_type (g_role_launch s)"
    and e: "launch_type e = LAUNCH_TYPE_ASAP" "relaunch_limit e = 0"
  shows "rl_core (s\<lparr>world := w, g_role_launch := r, brk := Suc (brk s), heap := (heap s)(brk s \<mapsto> e)\<rparr>)"
proof -
  have "rl_mem (s\<lparr>g_role_launch := r, world := w, brk := Suc (brk s), heap := (heap s)(brk s \<mapsto> e)\<rparr>)"
    using core e r by (intro rl_mem_add) (auto simp: rl_core_def)
  moreover have "pre_entity_type (g_role_launch s) \<noteq> PRE_ENTITY_IDLE"
    using core some by (auto simp: rl_core_def Let_def ptrs_Nil)
  ultimately show ?thesis using core some r by (auto simp: rl_core_def Let_def)
qed

lemma sta_request_enter_run:
  assumes E: "env_ok E" and core: "rl_core s" and idle: "\<not> bit (rl_status (g_role_launch s)) 1"
  shows "\<exists>ret s'. sta_request_enter E q c s = Inr (ret, s') \<and> enter_post s s'"
proof -
  let ?g = "g_role_launch s"
  let ?r0 = "rl_status_update (\<lambda>x. x OR RL_STATUS_DOING) ?g"
  let ?s0 = "s\<lparr>g_role_launch := ?r0\<rparr>"
  let ?e = "\<lparr>launch_type = LAUNCH_TYPE_ASAP, relaunch_limit = 0, launch_count = 0, rlaunch = q, completion_cb = c\<rparr>"
  let ?free = "rl_status ?r0 AND RL_STA_STATE_MASK \<noteq> RL_STA_STATE_HOLD"
  obtain w where alloc: "rl_alloc_entity E q c ?s0 = Inr (Some (brk s), ?s0\<lparr>world := w, brk := Suc (brk s),
      heap := (heap s)(brk s \<mapsto> ?e)\<rparr>)" using rl_alloc_entity_run [OF E, of q c ?s0] by auto
  consider (start) "jl_previous_ap ?g = None" "jl_previous_sta ?g = None" ?free
    | (wait) "\<not> (jl_previous_ap ?g = None \<and> jl_previous_sta ?g = None)" "jl_following_sta ?g = None" ?free
    | (drop) "\<not> (jl_previous_ap ?g = None \<and> jl_previous_sta ?g = None \<and> ?free)" "\<not> (jl_following_sta ?g = None \<and> ?free)"
    by (cases ?free; cases "jl_previous_ap ?g"; cases "jl_previous_sta ?g"; cases "jl_following_sta ?g"; simp)
  then show ?thesis
  proof cases
    case start
    let ?r = "?r0\<lparr>jl_previous_sta := Some (brk s)\<rparr>"
    obtain t where t: "rl_sta_request_start E (Some q) (?s0\<lparr>world := w, g_role_launch := ?r, brk := Suc (brk s),
        heap := (heap s)(brk s \<mapsto> ?e)\<rparr>) = Inr ((), t)"
      "wlan_frame (?s0\<lparr>world := w, g_role_launch := ?r, brk := Suc (brk s), heap := (heap s)(brk s \<mapsto> ?e)\<rparr>) t"
      using sta_request_start_frame by blast
    let ?r' = "rl_status_update (\<lambda>x. bits_clear x RL_STATUS_DOING) ((g_role_launch t)\<lparr>pre_entity_type :=
        (if pre_entity_type ?g = PRE_ENTITY_IDLE then PRE_ENTITY_STA else pre_entity_type ?g)\<rparr>)"
    have f: "pre_entity_type (g_role_launch t) = pre_entity_type ?g"
      "enter_timer (g_role_launch t) = enter_timer ?g" "g_rl_socket t = g_rl_socket s"
      "g_sta_cache t = g_sta_cache s" "low24 (rl_status (g_role_launch t)) (rl_status ?g OR RL_STATUS_DOING)"
      using t(2) by (simp_all add: frame_defs)
    have run: "sta_request_enter E q c s = Inr (1, t\<lparr>g_role_launch := ?r'\<rparr>)"
      using start alloc t(1) f(1)
      by (simp add: sta_request_enter_def rl_basic prog_simps)
    have nil: "ptrs ?g = []" using core start by (simp add: rl_core_def Let_def)
    have "rl_core (t\<lparr>g_role_launch := ?r'\<rparr>)"
    proof (rule enter_start_core [OF core start(2,1), of ?r ?e w t _ ?r'])
      show "ptrs ?r = [brk s]" "jl_following_sta ?r = None" "jl_following_ap ?r = None"
        using nil by (simp_all add: ptrs_Nil ptrs_def)
      show "pre_entity_type ?r' \<in> {PRE_ENTITY_STA, PRE_ENTITY_AP}"
        using core by (auto simp: rl_core_def Let_def)
    qed (use t(2) in \<open>simp_all add: queue_frame_def\<close>)
    with run f(2-4) low24_doing [OF f(5)] idle show ?thesis
      by (auto simp: enter_post_def)
  next
    case wait
    let ?r = "?r0\<lparr>jl_following_sta := Some (brk s)\<rparr>"
    let ?r1 = "?r\<lparr>rl_timer := \<lparr>handle = True, running = True\<rparr>, rl_timer_flag := RL_TIMER_START\<rparr>"
    let ?s1 = "?s0\<lparr>world := w, g_role_launch := ?r, brk := Suc (brk s), heap := (heap s)(brk s \<mapsto> ?e)\<rparr>"
    obtain w' where st: "rl_start E ?s1 = Inr ((), ?s1\<lparr>world := w', g_role_launch := ?r1\<rparr>)"
      using rl_start_run [OF E, of ?s1] core by (auto simp: rl_core_def Let_def)
    let ?r' = "rl_status_update (\<lambda>x. bits_clear x RL_STATUS_DOING) ?r1"
    have ty: "pre_entity_type ?g \<noteq> PRE_ENTITY_IDLE"
      using core wait(1) by (auto simp: rl_core_def Let_def ptrs_Nil)
    have run: "sta_request_enter E q c s = Inr (2, s\<lparr>world := w', g_role_launch := ?r', brk := Suc (brk s),
        heap := (heap s)(brk s \<mapsto> ?e)\<rparr>)"
      using wait alloc st ty
      by (cases "jl_previous_ap ?g"; cases "jl_previous_sta ?g")
        (simp_all add: sta_request_enter_def rl_basic prog_simps)
    have "distinct (ptrs ?g)" "brk s \<notin> set (ptrs ?g)"
      using core rl_mem_fresh [of s] by (auto simp: rl_core_def rl_mem_def)
    with wait(2) have d: "distinct (ptrs ?r')" "set (ptrs ?r') = insert (brk s) (set (ptrs ?g))"
      by (auto simp: ptrs_def)
    have "rl_core (s\<lparr>world := w', g_role_launch := ?r', brk := Suc (brk s), heap := (heap s)(brk s \<mapsto> ?e)\<rparr>)"
      by (rule enter_wait_core [OF core _ d]) (use wait(1) in auto)
    with run idle show ?thesis
      by (auto simp: enter_post_def intro!: low24_doing)
  next
    case drop
    let ?r1 = "?r0\<lparr>rl_timer := \<lparr>handle = True, running = True\<rparr>, rl_timer_flag := RL_TIMER_START\<rparr>"
    obtain w' where st: "rl_start E ?s0 = Inr ((), ?s0\<lparr>world := w', g_role_launch := ?r1\<rparr>)"
      using rl_start_run [OF E, of ?s0] core by (auto simp: rl_core_def Let_def)
    let ?r' = "rl_status_update (\<lambda>x. bits_clear x RL_STATUS_DOING) ?r1"
    have "sta_request_enter E q c s = Inr (0, s\<lparr>world := w', g_role_launch := ?r'\<rparr>)"
      using drop st by (auto simp: sta_request_enter_def rl_basic prog_simps)
    moreover have "rl_core (s\<lparr>world := w', g_role_launch := ?r'\<rparr>)"
      using core by (auto simp: rl_core_def Let_def rl_mem_def ptrs_def)
    ultimately show ?thesis using idle by (auto simp: enter_post_def intro!: low24_doing)
  qed
qed

lemma ap_request_enter_run:
  assumes E: "env_ok E" and core: "rl_core s"
  shows "\<exists>ret s'. ap_request_enter E q c s = Inr (ret, s') \<and> enter_post s s'"
proof -
  let ?g = "g_role_launch s"
  let ?e = "\<lparr>launch_type = LAUNCH_TYPE_ASAP, relaunch_limit = 0, launch_count = 0, rlaunch = q, completion_cb = c\<rparr>"
  obtain w where alloc: "rl_alloc_entity E q c s = Inr (Some (brk s), s\<lparr>world := w, brk := Suc (brk s),
      heap := (heap s)(brk s \<mapsto> ?e)\<rparr>)" using rl_alloc_entity_run [OF E, of q c s] by auto
  consider (start) "jl_previous_ap ?g = None" "jl_previous_sta ?g = None"
    | (wait) "\<not> (jl_previous_ap ?g = None \<and> jl_previous_sta ?g = None)" "jl_following_ap ?g = None"
    | (drop) "\<not> (jl_previous_ap ?g = None \<and> jl_previous_sta ?g = None)" "jl_following_ap ?g \<noteq> None"
    by (cases "jl_previous_ap ?g"; cases "jl_previous_sta ?g"; cases "jl_following_ap ?g"; simp)
  then show ?thesis
  proof cases
    case start
    let ?r = "?g\<lparr>jl_previous_ap := Some (brk s)\<rparr>"
    let ?s1 = "s\<lparr>world := w, g_role_launch := ?r, brk := Suc (brk s), heap := (heap s)(brk s \<mapsto> ?e)\<rparr>"
    obtain t where t: "rl_ap_request_start E (Some q) ?s1 = Inr ((), t)" "wlan_frame ?s1 t"
      using ap_request_start_frame by blast
    let ?r' = "(g_role_launch t)\<lparr>pre_entity_type :=
        (if pre_entity_type ?g = PRE_ENTITY_IDLE then PRE_ENTITY_AP else pre_entity_type ?g)\<rparr>"
    have f: "pre_entity_type (g_role_launch t) = pre_entity_type ?g"
      "enter_timer (g_role_launch t) = enter_timer ?g" "g_rl_socket t = g_rl_socket s"
      "g_sta_cache t = g_sta_cache s" "low24 (rl_status (g_role_launch t)) (rl_status ?g)"
      using t(2) by (simp_all add: frame_defs)
    have eq: "t\<lparr>g_role_launch := ?r'\<rparr> = t" if "pre_entity_type ?g \<noteq> PRE_ENTITY_IDLE"
      using that f(1) by (intro rl_state.equality role_launch.equality) auto
    have run: "ap_request_enter E q c s = Inr (1, t\<lparr>g_role_launch := ?r'\<rparr>)"
      using start alloc t(1) f(1) eq
      by (cases "pre_entity_type ?g = PRE_ENTITY_IDLE") (simp_all add: ap_request_enter_def rl_basic prog_simps)
    have nil: "ptrs ?g = []" using core start by (simp add: rl_core_def Let_def)
    have "rl_core (t\<lparr>g_role_launch := ?r'\<rparr>)"
    proof (rule enter_start_core [OF core start(2,1), of ?r ?e w t _ ?r'])
      show "ptrs ?r = [brk s]" "jl_following_sta ?r = None" "jl_following_ap ?r = None"
        using nil by (simp_all add: ptrs_Nil ptrs_def)
      show "pre_entity_type ?r' \<in> {PRE_ENTITY_STA, PRE_ENTITY_AP}"
        using core by (auto simp: rl_core_def Let_def)
    qed (use t(2) in \<open>simp_all add: queue_frame_def\<close>)
    with run f(2-5) show ?thesis by (auto simp: enter_post_def)
  next
    case wait
    let ?r = "?g\<lparr>jl_following_ap := Some (brk s)\<rparr>"
    let ?r1 = "?r\<lparr>rl_timer := \<lparr>handle = True, running = True\<rparr>, rl_timer_flag := RL_TIMER_START\<rparr>"
    let ?s1 = "s\<lparr>world := w, g_role_launch := ?r, brk := Suc (brk s), heap := (heap s)(brk s \<mapsto> ?e)\<rparr>"
    obtain w' where st: "rl_start E ?s1 = Inr ((), ?s1\<lparr>world := w', g_role_launch := ?r1\<rparr>)"
      using rl_start_run [OF E, of ?s1] core by (auto simp: rl_core_def Let_def)
    have ty: "pre_entity_type ?g \<noteq> PRE_ENTITY_IDLE"
      using core wait(1) by (auto simp: rl_core_def Let_def ptrs_Nil)
    have run: "ap_request_enter E q c s = Inr (2, s\<lparr>world := w', g_role_launch := ?r1, brk := Suc (brk s),
        heap := (heap s)(brk s \<mapsto> ?e)\<rparr>)"
      using wait alloc st ty
      by (cases "jl_previous_ap ?g"; cases "jl_previous_sta ?g")
        (simp_all add: ap_request_enter_def rl_basic prog_simps)
    have "distinct (ptrs ?g)" "brk s \<notin> set (ptrs ?g)"
      using core rl_mem_fresh [of s] by (auto simp: rl_core_def rl_mem_def)
    with wait(2) have d: "distinct (ptrs ?r1)" "set (ptrs ?r1) = insert (brk s) (set (ptrs ?g))"
      by (auto simp: ptrs_def)
    have "rl_core (s\<lparr>world := w', g_role_launch := ?r1, brk := Suc (brk s), heap := (heap s)(brk s \<mapsto> ?e)\<rparr>)"
      by (rule enter_wait_core [OF core _ d]) (use wait(1) in auto)
    with run show ?thesis by (auto simp: enter_post_def)
  next
    case drop
    let ?r1 = "?g\<lparr>rl_timer := \<lparr>handle = True, running = True\<rparr>, rl_timer_flag := RL_TIMER_START\<rparr>"
    obtain w' where st: "rl_start E s = Inr ((), s\<lparr>world := w', g_role_launch := ?r1\<rparr>)"
      using rl_start_run [OF E, of s] core by (auto simp: rl_core_def Let_def)
    have "ap_request_enter E q c s = Inr (0, s\<lparr>world := w', g_role_launch := ?r1\<rparr>)"
      using drop st by (auto simp: ap_request_enter_def rl_basic prog_simps)
    moreover have "rl_core (s\<lparr>world := w', g_role_launch := ?r1\<rparr>)"
      using core by (auto simp: rl_core_def Let_def rl_mem_def ptrs_def)
    ultimately show ?thesis by (auto simp: enter_post_def)
  qed
qed

text \<open>The status word between two handlers: no bit of the low half but the pause bit.\<close>

definition clean :: "u32 \<Rightarrow> bool" where
  "clean x \<longleftrightarrow> (\<forall>n<16. n \<noteq> 7 \<longrightarrow> \<not> bit x n)"

lemma clean_low24: "clean x \<Longrightarrow> low24 y x \<Longrightarrow> clean y"
  by (simp add: clean_def low24_def)

lemma clean_bits: "clean x \<Longrightarrow> \<not> bit x 0 \<and> \<not> bit x 1"
  by (simp add: clean_def)

lemma rl_inv_alt: "rl_inv s \<longleftrightarrow> rl_core s \<and> clean (rl_status (g_role_launch s))
     \<and> (sta_req_flag (g_rl_socket s) \<noteq> 0 \<or> ap_req_flag (g_rl_socket s) \<noteq> 0
          \<longrightarrow> running (enter_timer (g_role_launch s)))"
  by (simp add: rl_inv_def clean_def)

lemma rl_core_status: "rl_core (s\<lparr>g_role_launch := rl_status_update f (g_role_launch s)\<rparr>) = rl_core s"
  by (simp add: rl_core_def rl_mem_def ptrs_def Let_def)

lemma rl_core_frame:
  assumes "rl_core s" "g_role_launch s' = g_role_launch s" "heap s' = heap s" "brk s' = brk s"
  shows "rl_core s'"
  using assms by (simp add: rl_core_def rl_mem_def)

lemma rl_enter_handler_run:
  assumes E: "env_ok E" and core: "rl_core s" and cl: "clean (rl_status (g_role_launch s))"
  shows "\<exists>s'. rl_enter_handler E s = Inr ((), s') \<and> rl_core s'
    \<and> low24 (rl_status (g_role_launch s')) (rl_status (g_role_launch s))
    \<and> enter_timer (g_role_launch s') = enter_timer (g_role_launch s) \<and> g_rl_socket s' = zero_socket E"
proof -
  obtain w where w: "x_alloc E (world s) = (True, w)"
    using E unfolding env_ok_def by (metis prod.collapse)
  let ?k = "g_rl_socket s"
  let ?s0 = "s\<lparr>world := w, g_rl_socket := zero_socket E\<rparr>"
  have core0: "rl_core ?s0" by (rule rl_core_frame [OF core]) simp_all
  show ?thesis
  proof (cases "rl_status (g_role_launch s) AND RL_STATUS_MASK = 0")
    case False
    with w core0 show ?thesis
      by (simp add: rl_enter_handler_def on_world_def prog_simps rl_basic)
  next
    case True
    let ?s1 = "?s0\<lparr>g_role_launch := rl_status_update (\<lambda>x. x OR RL_STATUS_PENDING) (g_role_launch s)\<rparr>"
    have core1: "rl_core ?s1" using core0 rl_core_status [of _ ?s0] by simp
    have b: "\<not> bit (rl_status (g_role_launch ?s1)) 1"
      using clean_bits [OF cl] bit_pending [of 1] by (simp add: bit_or_iff)
    obtain s2 where s2: "(if sta_req_flag ?k \<noteq> 0 then bindM (sta_request_enter E (sta_param ?k) (sta_completion ?k)) (\<lambda>ret.
              whenM (ret \<noteq> 0 \<and> req_type (sta_param ?k) = LAUNCH_REQ_STA)
                (modM (\<lambda>s. s\<lparr>g_sta_cache := \<lparr>cache_req_flag = 1, cache_param = sta_param ?k,
                                              cache_completion = sta_completion ?k\<rparr>\<rparr>))) ?s1 else Inr ((), ?s1)) = Inr ((), s2)"
      "rl_core s2" "low24 (rl_status (g_role_launch s2)) (rl_status (g_role_launch ?s1))"
      "enter_timer (g_role_launch s2) = enter_timer (g_role_launch s)" "g_rl_socket s2 = zero_socket E"
    proof (cases "sta_req_flag ?k = 0")
      case True
      with core1 show thesis by (intro that [of ?s1]) simp_all
    next
      case False
      obtain ret t where t: "sta_request_enter E (sta_param ?k) (sta_completion ?k) ?s1 = Inr (ret, t)" "enter_post ?s1 t"
        using sta_request_enter_run [OF E core1 b] by blast
      let ?t = "if ret \<noteq> 0 \<and> req_type (sta_param ?k) = LAUNCH_REQ_STA
                then t\<lparr>g_sta_cache := \<lparr>cache_req_flag = 1, cache_param = sta_param ?k,
                                        cache_completion = sta_completion ?k\<rparr>\<rparr> else t"
      have "rl_core ?t" by (rule rl_core_frame [of t]) (use t(2) in \<open>simp_all add: enter_post_def\<close>)
      with False t show thesis by (intro that [of ?t]) (auto simp: enter_post_def)
    qed
    obtain s3 where s3: "(if ap_req_flag ?k \<noteq> 0 then bindM (ap_request_enter E (ap_param ?k) (ap_completion ?k)) (\<lambda>_. retM ()) s2
              else Inr ((), s2)) = Inr ((), s3)" "rl_core s3"
      "low24 (rl_status (g_role_launch s3)) (rl_status (g_role_launch s2))"
      "enter_timer (g_role_launch s3) = enter_timer (g_role_launch s2)" "g_rl_socket s3 = zero_socket E"
    proof (cases "ap_req_flag ?k = 0")
      case True
      with s2 show thesis by (intro that [of s2]) simp_all
    next
      case False
      obtain ret t where t: "ap_request_enter E (ap_param ?k) (ap_completion ?k) s2 = Inr (ret, t)" "enter_post s2 t"
        using ap_request_enter_run [OF E s2(2)] by blast
      with False s2(5) show thesis by (intro that [of t]) (auto simp: enter_post_def)
    qed
    let ?s4 = "s3\<lparr>g_role_launch := rl_status_update (\<lambda>x. bits_clear x RL_STATUS_PENDING) (g_role_launch s3)\<rparr>"
    have "rl_enter_handler E s = Inr ((), ?s4)"
      using w True s2(1) s3(1)
      by (simp add: rl_enter_handler_def on_world_def prog_simps rl_basic)
    moreover have "low24 (rl_status (g_role_launch s3)) (rl_status (g_role_launch s) OR RL_STATUS_PENDING)"
      using low24_trans [OF s3(3) s2(3)] by simp
    then have "low24 (bits_clear (rl_status (g_role_launch s3)) RL_STATUS_PENDING) (rl_status (g_role_launch s))"
      using clean_bits [OF cl] by (intro low24_pending) simp_all
    ultimately show ?thesis using s3 s2 by (simp add: rl_core_status)
  qed
qed

lemma sta_post_mem:
  assumes "sta_post s ret s'"
  shows "rl_mem s'" "rl_status (g_role_launch s) = x \<Longrightarrow> low24 (rl_status (g_role_launch s')) x"
    "launched ret (jl_previous_sta (g_role_launch s')) (jl_following_sta (g_role_launch s'))"
    "rl_timer (g_role_launch s') = rl_timer (g_role_launch s)"
    "enter_timer (g_role_launch s') = enter_timer (g_role_launch s)"
    "pre_entity_type (g_role_launch s') = pre_entity_type (g_role_launch s)" "g_rl_socket s' = g_rl_socket s"
    "jl_previous_ap (g_role_launch s') = jl_previous_ap (g_role_launch s)"
    "jl_following_ap (g_role_launch s') = jl_following_ap (g_role_launch s)"
  using assms by (simp_all add: sta_post_def ctl_frame_def)

lemma ap_post_mem:
  assumes "ap_post s ret s'"
  shows "rl_mem s'" "rl_status (g_role_launch s) = x \<Longrightarrow> low24 (rl_status (g_role_launch s')) x"
    "launched ret (jl_previous_ap (g_role_launch s')) (jl_following_ap (g_role_launch s'))"
    "rl_timer (g_role_launch s') = rl_timer (g_role_launch s)"
    "enter_timer (g_role_launch s') = enter_timer (g_role_launch s)"
    "pre_entity_type (g_role_launch s') = pre_entity_type (g_role_launch s)" "g_rl_socket s' = g_rl_socket s"
    "jl_previous_sta (g_role_launch s') = jl_previous_sta (g_role_launch s)"
    "jl_following_sta (g_role_launch s') = jl_following_sta (g_role_launch s)"
  using assms by (simp_all add: ap_post_def ctl_frame_def)

text \<open>
  The alternation of \<open>rl_launch_handler\<close>: after it something runs or the queue is empty,
  and the two results tell which.
\<close>

definition alternate :: "('d, 'w) rl_env \<Rightarrow> ('d, 'c, 'w, u32 \<times> u32) rl" where
  "alternate E = bindM (get_g pre_entity_type) (\<lambda>ty.
       if ty = PRE_ENTITY_AP then
          bindM (rl_launch_ap E) (\<lambda>ap_ret.
          if ap_ret = LAUNCH_STATUS_OVER then
            thenM (upd_g (pre_entity_type_update (\<lambda>_. PRE_ENTITY_STA)))
            (bindM (rl_launch_sta E) (\<lambda>sta_ret. retM (sta_ret, ap_ret)))
          else retM (LAUNCH_STATUS_OVER, ap_ret))
        else if ty = PRE_ENTITY_STA then
          bindM (rl_launch_sta E) (\<lambda>sta_ret.
          if sta_ret = LAUNCH_STATUS_OVER then
            thenM (upd_g (pre_entity_type_update (\<lambda>_. PRE_ENTITY_AP)))
            (bindM (rl_launch_ap E) (\<lambda>ap_ret. retM (sta_ret, ap_ret)))
          else retM (sta_ret, LAUNCH_STATUS_OVER))
        else retM (LAUNCH_STATUS_OVER, LAUNCH_STATUS_OVER))"

lemma rl_launch_handler_alternate:
  "rl_launch_handler E = bindM (alternate E) (\<lambda>(sta_ret, ap_ret).
     if sta_ret = LAUNCH_STATUS_OVER \<and> ap_ret = LAUNCH_STATUS_OVER then retM ()
     else bindM (rl_relaunch_chance E) (\<lambda>_. retM ()))"
  by (rule ext) (simp add: rl_launch_handler_def alternate_def rl_basic prog_simps split: sum.split prod.split)

definition alt_post :: "('d, 'c, 'w) rl_state \<Rightarrow> u32 \<Rightarrow> u32 \<Rightarrow> ('d, 'c, 'w) rl_state \<Rightarrow> bool" where
  "alt_post s sta_ret ap_ret s' \<longleftrightarrow> rl_mem s' \<and> low24 (rl_status (g_role_launch s')) (rl_status (g_role_launch s))
     \<and> rl_timer (g_role_launch s') = rl_timer (g_role_launch s)
     \<and> enter_timer (g_role_launch s') = enter_timer (g_role_launch s) \<and> g_rl_socket s' = g_rl_socket s
     \<and> pre_entity_type (g_role_launch s') \<in> {PRE_ENTITY_STA, PRE_ENTITY_AP}
     \<and> (if sta_ret = LAUNCH_STATUS_OVER \<and> ap_ret = LAUNCH_STATUS_OVER then ptrs (g_role_launch s') = []
        else jl_previous_sta (g_role_launch s') \<noteq> None \<or> jl_previous_ap (g_role_launch s') \<noteq> None)"

lemma rl_mem_type [simp]: "rl_mem (s\<lparr>g_role_launch := (g_role_launch s)\<lparr>pre_entity_type := x\<rparr>\<rparr>) = rl_mem s"
  by (simp add: rl_mem_def ptrs_def)

lemma alternate_run:
  assumes mem: "rl_mem s" and cl: "clean (rl_status (g_role_launch s))"
    and ty: "pre_entity_type (g_role_launch s) \<in> {PRE_ENTITY_STA, PRE_ENTITY_AP}"
  shows "\<exists>a b s'. alternate E s = Inr ((a, b), s') \<and> alt_post s a b s'"
proof -
  have i: "\<not> bit (rl_status (g_role_launch s)) 1" using clean_bits [OF cl] by blast
  obtain ra t where t: "rl_launch_ap E s = Inr (ra, t)" "ap_post s ra t" using rl_launch_ap_run [OF mem i] by blast
  obtain rs u where u: "rl_launch_sta E s = Inr (rs, u)" "sta_post s rs u" using rl_launch_sta_run [OF mem i] by blast
  note t' = ap_post_mem [OF t(2)] and u' = sta_post_mem [OF u(2)]
  let ?t = "t\<lparr>g_role_launch := (g_role_launch t)\<lparr>pre_entity_type := PRE_ENTITY_STA\<rparr>\<rparr>"
  let ?u = "u\<lparr>g_role_launch := (g_role_launch u)\<lparr>pre_entity_type := PRE_ENTITY_AP\<rparr>\<rparr>"
  have it: "\<not> bit (rl_status (g_role_launch ?t)) 1" and iu: "\<not> bit (rl_status (g_role_launch ?u)) 1"
    using clean_bits [OF clean_low24 [OF cl t'(2)]] clean_bits [OF clean_low24 [OF cl u'(2)]] by auto
  obtain rs' v where v: "rl_launch_sta E ?t = Inr (rs', v)" "sta_post ?t rs' v"
    using rl_launch_sta_run [OF _ it, of E] t'(1) by auto
  obtain ra' z where z: "rl_launch_ap E ?u = Inr (ra', z)" "ap_post ?u ra' z"
    using rl_launch_ap_run [OF _ iu, of E] u'(1) by auto
  note v' = sta_post_mem [OF v(2)] and z' = ap_post_mem [OF z(2)]
  show ?thesis
  proof (cases "pre_entity_type (g_role_launch s) = PRE_ENTITY_AP")
    case True
    show ?thesis
    proof (cases "ra = LAUNCH_STATUS_OVER")
      case over: True
      have "alternate E s = Inr ((rs', ra), v)"
        using True over t(1) v(1) by (simp add: alternate_def rl_basic prog_simps)
      moreover have "alt_post s rs' ra v"
        using over v' t' low24_trans [OF v'(2) [OF refl], of "rl_status (g_role_launch s)"]
        by (auto simp: alt_post_def launched_def ptrs_Nil)
      ultimately show ?thesis by blast
    next
      case False
      with True t(1) t' have "alternate E s = Inr ((0, ra), t) \<and> alt_post s 0 ra t"
        by (simp add: alternate_def rl_basic prog_simps alt_post_def launched_def)
      then show ?thesis by blast
    qed
  next
    case F: False
    with ty have ty': "pre_entity_type (g_role_launch s) = PRE_ENTITY_STA" by simp
    show ?thesis
    proof (cases "rs = LAUNCH_STATUS_OVER")
      case over: True
      have "alternate E s = Inr ((rs, ra'), z)"
        using ty' over u(1) z(1) by (simp add: alternate_def rl_basic prog_simps)
      moreover have "alt_post s rs ra' z"
        using over z' u' low24_trans [OF z'(2) [OF refl], of "rl_status (g_role_launch s)"]
        by (auto simp: alt_post_def launched_def ptrs_Nil)
      ultimately show ?thesis by blast
    next
      case False
      with ty' u(1) u' have "alternate E s = Inr ((rs, 0), u) \<and> alt_post s rs 0 u"
        by (simp add: alternate_def rl_basic prog_simps alt_post_def launched_def)
      then show ?thesis by blast
    qed
  qed
qed

lemma rl_launch_handler_run:
  assumes E: "env_ok E" and inv: "rl_inv s"
  shows "\<exists>s'. rl_launch_handler E (s\<lparr>g_role_launch := rl_timer_update (running_update (\<lambda>_. False)) (g_role_launch s)\<rparr>)
        = Inr ((), s') \<and> rl_inv s'"
proof -
  let ?s = "s\<lparr>g_role_launch := rl_timer_update (running_update (\<lambda>_. False)) (g_role_launch s)\<rparr>"
  have mem: "rl_mem ?s" using inv by (simp add: rl_inv_def rl_core_def rl_mem_def ptrs_def)
  have cl: "clean (rl_status (g_role_launch ?s))" using inv by (simp add: rl_inv_alt)
  show ?thesis
  proof (cases "pre_entity_type (g_role_launch s) = PRE_ENTITY_IDLE")
    case True
    with inv have "ptrs (g_role_launch s) = []" by (auto simp: rl_inv_def rl_core_def Let_def)
    with True inv show ?thesis
      by (auto simp: rl_launch_handler_def rl_basic prog_simps rl_inv_alt rl_core_def rl_mem_def ptrs_Nil ptrs_def Let_def)
  next
    case False
    with inv have ty: "pre_entity_type (g_role_launch ?s) \<in> {PRE_ENTITY_STA, PRE_ENTITY_AP}"
      by (auto simp: rl_inv_def rl_core_def Let_def)
    obtain a b t where t: "alternate E ?s = Inr ((a, b), t)" "alt_post ?s a b t"
      using alternate_run [OF mem cl ty] by blast
    have cl': "clean (rl_status (g_role_launch t))"
      using clean_low24 [OF cl] t(2) by (auto simp: alt_post_def)
    have h: "handle (rl_timer (g_role_launch t))" "handle (enter_timer (g_role_launch t))"
      and so: "sta_req_flag (g_rl_socket t) \<noteq> 0 \<or> ap_req_flag (g_rl_socket t) \<noteq> 0 \<longrightarrow> running (enter_timer (g_role_launch t))"
      using t(2) inv by (auto simp: alt_post_def rl_inv_def rl_core_def Let_def)
    show ?thesis
    proof (cases "a = LAUNCH_STATUS_OVER \<and> b = LAUNCH_STATUS_OVER")
      case True
      with t(1) have "rl_launch_handler E ?s = Inr ((), t)"
        by (simp add: rl_launch_handler_alternate prog_simps)
      moreover have "rl_inv t" using True t(2) h cl' so
        by (auto simp: alt_post_def rl_inv_alt rl_core_def Let_def ptrs_Nil)
      ultimately show ?thesis by blast
    next
      case F: False
      obtain w where w: "timer_command E Rl_Timer (running_update (\<lambda>_. True)) t
          = Inr (True, t\<lparr>g_role_launch := rl_timer_update (running_update (\<lambda>_. True)) (g_role_launch t), world := w\<rparr>)"
        using timer_command_run [OF E, of Rl_Timer t] h(1) by (auto simp: timer_of_def)
      let ?u = "t\<lparr>world := w, g_role_launch := rl_timer_update (running_update (\<lambda>_. True)) (g_role_launch t)\<rparr>"
      have "rl_launch_handler E ?s = Inr ((), ?u)" using F t(1) w h(1)
        by (auto simp: rl_launch_handler_alternate prog_simps rl_relaunch_chance_def rl_basic timer_of_def
            rtos_is_oneshot_timer_init_def rtos_oneshot_reload_timer_def)
      moreover have "rl_inv ?u" using F t(2) h cl' so
        by (auto simp: alt_post_def rl_inv_alt rl_core_def rl_mem_def ptrs_def Let_def split: if_splits)
      ultimately show ?thesis by blast
    qed
  qed
qed

section \<open>The component as a state machine\<close>

text \<open>
  Everything that reaches the component from outside: the expiry of its two timers, the
  public functions, the reports of the WLAN layer and any activity of the layers below.
\<close>

datatype ('d, 'c, 'w) rl_op =
    Fire_enter
  | Fire_launch
  | Op_sta_request "'d launch_req" "'c option"
  | Op_ap_request "'d launch_req" "'c option"
  | Op_sta_cache_request
  | Op_sta_cache_register "'d launch_req"
  | Op_report rl_call
  | Op_csa_switching
  | Op_pause bool
  | Op_set_private u32
  | Op_reset_private u32
  | Op_disable_autobcn
  | Op_outside "'w \<Rightarrow> 'w"

definition rl_enabled :: "('d, 'c, 'w) rl_op \<Rightarrow> ('d, 'c, 'w) rl_state \<Rightarrow> bool" where
  "rl_enabled p s = (case p of
     Fire_enter \<Rightarrow> running (enter_timer (g_role_launch s))
   | Fire_launch \<Rightarrow> running (rl_timer (g_role_launch s))
   | _ \<Rightarrow> True)"

definition ignore :: "('d, 'c, 'w, 'a) rl \<Rightarrow> ('d, 'c, 'w, unit) rl" where
  "ignore m = bindM m (\<lambda>_. retM ())"

definition rl_exec :: "('d, 'w) rl_env \<Rightarrow> ('d, 'c, 'w) rl_op \<Rightarrow> ('d, 'c, 'w, unit) rl" where
  "rl_exec E p = (case p of
     Fire_enter \<Rightarrow> thenM (upd_timer Enter_Timer (running_update (\<lambda>_. False))) (rl_enter_handler E)
   | Fire_launch \<Rightarrow> thenM (upd_timer Rl_Timer (running_update (\<lambda>_. False))) (rl_launch_handler E)
   | Op_sta_request q c \<Rightarrow> rl_sta_request_enter E q c
   | Op_ap_request q c \<Rightarrow> rl_ap_request_enter E q c
   | Op_sta_cache_request \<Rightarrow> ignore (rl_sta_cache_request_enter E)
   | Op_sta_cache_register q \<Rightarrow> rl_sta_adv_register_cache_station q
   | Op_report c \<Rightarrow> run_call c
   | Op_csa_switching \<Rightarrow> ignore rl_set_csa_switching
   | Op_pause en \<Rightarrow> rl_status_set_pause en
   | Op_set_private st \<Rightarrow> rl_status_set_private_state st
   | Op_reset_private st \<Rightarrow> rl_status_reset_private_state st
   | Op_disable_autobcn \<Rightarrow> ignore (rl_pre_ap_disable_autobcn E)
   | Op_outside f \<Rightarrow> modM (world_update f))"

text \<open>The zeroed globals of the file, before \<open>rl_init\<close>.\<close>

definition zero_role_launch :: role_launch where
  "zero_role_launch = \<lparr>enter_timer = \<lparr>handle = False, running = False\<rparr>,
     rl_timer = \<lparr>handle = False, running = False\<rparr>, rl_timer_flag = 0, rl_status = 0,
     pre_entity_type = 0, pre_sta_cancel = 0, pre_sta_status = 0, pre_ap_cancel = 0, pre_ap_status = 0,
     jl_previous_sta = None, jl_following_sta = None, jl_previous_ap = None, jl_following_ap = None\<rparr>"

definition zero_state :: "('d, 'w) rl_env \<Rightarrow> 'w \<Rightarrow> ('d, 'c, 'w) rl_state" where
  "zero_state E w = \<lparr>g_role_launch = zero_role_launch, g_rl_socket = zero_socket E, g_sta_cache = zero_cache E,
     g_mrole_csa_flag = 0, heap = Map.empty, brk = 0, world = w\<rparr>"

inductive rl_reach :: "('d, 'w) rl_env \<Rightarrow> ('d, 'c, 'w) rl_state \<Rightarrow> bool" for E where
  init: "rl_init E (zero_state E w) = Inr ((), s) \<Longrightarrow> rl_reach E s"
| step: "rl_reach E s \<Longrightarrow> rl_enabled p s \<Longrightarrow> rl_exec E p s = Inr ((), s') \<Longrightarrow> rl_reach E s'"

lemma rl_init_inv: "rl_init E (zero_state E w) = Inr ((), s) \<Longrightarrow> rl_inv s"
  by (auto simp: rl_init_def rtos_init_oneshot_timer_def on_world_def upd_timer_def rl_basic prog_simps
      zero_state_def zero_role_launch_def zero_socket_def rl_inv_alt rl_core_def rl_mem_def ptrs_def clean_def Let_def
      split: prod.splits if_splits)

text \<open>Arming the enter timer: the common end of the two request functions.\<close>

lemma arm_enter_run:
  assumes E: "env_ok E" and core: "rl_core s" "clean (rl_status (g_role_launch s))"
  shows "\<exists>s'. bindM (rtos_stop_oneshot_timer E Enter_Timer) (\<lambda>_.
      bindM (rtos_start_oneshot_timer E Enter_Timer) (\<lambda>ok. assertM ok)) s = Inr ((), s') \<and> rl_inv s'
      \<and> g_sta_cache s' = g_sta_cache s"
proof -
  have h: "handle (enter_timer (g_role_launch s))" using core by (simp add: rl_core_def Let_def)
  obtain w where 1: "timer_command E Enter_Timer (running_update (\<lambda>_. False)) s
      = Inr (True, s\<lparr>world := w, g_role_launch := enter_timer_update (running_update (\<lambda>_. False)) (g_role_launch s)\<rparr>)"
    using timer_command_run [OF E, of Enter_Timer s] h by (auto simp: timer_of_def)
  let ?t = "s\<lparr>world := w, g_role_launch := enter_timer_update (running_update (\<lambda>_. False)) (g_role_launch s)\<rparr>"
  obtain w' where 2: "timer_command E Enter_Timer (running_update (\<lambda>_. True)) ?t
      = Inr (True, ?t\<lparr>world := w', g_role_launch := enter_timer_update (running_update (\<lambda>_. True)) (g_role_launch ?t)\<rparr>)"
    using timer_command_run [OF E, of Enter_Timer ?t] h by (auto simp: timer_of_def)
  have "rl_inv (?t\<lparr>world := w', g_role_launch := enter_timer_update (running_update (\<lambda>_. True)) (g_role_launch ?t)\<rparr>)"
    using core by (simp add: rl_inv_alt rl_core_def rl_mem_def ptrs_def Let_def)
  with 1 2 show ?thesis
    by (simp add: rtos_stop_oneshot_timer_def rtos_start_oneshot_timer_def prog_simps)
qed

lemma rl_core_socket [simp]: "rl_core (s\<lparr>g_rl_socket := k\<rparr>) = rl_core s"
  "rl_core (s\<lparr>g_sta_cache := c\<rparr>) = rl_core s" "rl_core (s\<lparr>g_mrole_csa_flag := x\<rparr>) = rl_core s"
  "rl_core (world_update f s) = rl_core s"
  by (simp_all add: rl_core_def rl_mem_def)

lemma clean_clear: "clean x \<Longrightarrow> clean (bits_clear x b)"
  by (simp add: clean_def)

lemma rl_sta_request_enter_handle_run:
  assumes "env_ok E" "rl_inv s"
  shows "\<exists>s'. rl_sta_request_enter_handle E q c s = Inr ((), s') \<and> rl_inv s'"
  using arm_enter_run [OF assms(1), of "s\<lparr>g_rl_socket := (g_rl_socket s)\<lparr>sta_completion := c, sta_param := q,
                                                      sta_req_flag := 1\<rparr>\<rparr>"] assms(2)
  by (auto simp: rl_sta_request_enter_handle_def rl_inv_alt)

lemma rl_ap_request_enter_run:
  assumes "env_ok E" "rl_inv s"
  shows "\<exists>s'. rl_ap_request_enter E q c s = Inr ((), s') \<and> rl_inv s'"
  using arm_enter_run [OF assms(1), of "s\<lparr>g_rl_socket := (g_rl_socket s)\<lparr>ap_completion := c, ap_param := q,
                                                      ap_req_flag := 1\<rparr>\<rparr>"] assms(2)
  by (auto simp: rl_ap_request_enter_def rl_inv_alt)

lemma rl_inv_clear_bits: "rl_inv s \<Longrightarrow> \<exists>s'. clear_status_bits b s = Inr ((), s') \<and> rl_inv s'"
  by (simp add: rl_basic rl_inv_alt rl_core_status clean_clear)

lemma rl_sta_request_enter_run:
  assumes "env_ok E" "rl_inv s"
  shows "\<exists>s'. rl_sta_request_enter E q c s = Inr ((), s') \<and> rl_inv s'"
  using rl_inv_clear_bits [OF assms(2)] rl_sta_request_enter_handle_run [OF assms(1)]
  unfolding rl_sta_request_enter_def rl_status_reset_st_state_def by (metis thenM_Inr)

lemma bit_priv_mask: "n < 16 \<Longrightarrow> \<not> bit RL_PRIV_STATUS_MASK n"
proof -
  assume n: "n < 16"
  have "RL_PRIV_STATUS_MASK = push_bit 16 (0xFF :: u32)" by simp
  with n show ?thesis by (metis bit_push_bit_iff not_le)
qed

lemma bit_pause: "bit RL_STATUS_PAUSE n \<longleftrightarrow> n = 7"
proof -
  have "RL_STATUS_PAUSE = 2 ^ 7" by simp
  then have "bit RL_STATUS_PAUSE n \<longleftrightarrow> possible_bit TYPE(u32) 7 \<and> n = 7" by (simp only: bit_exp_iff) auto
  then show ?thesis by simp
qed

lemma clean_set_pause: "clean x \<Longrightarrow> clean (x OR RL_STATUS_PAUSE)"
  unfolding clean_def bit_or_iff bit_pause by simp

lemma clean_set_private: "clean x \<Longrightarrow> clean (x OR st AND RL_PRIV_STATUS_MASK)"
  using bit_priv_mask unfolding clean_def bit_or_iff bit_and_iff by blast

lemma rl_sta_cache_request_enter_run:
  assumes E: "env_ok E" and inv: "rl_inv s"
  shows "\<exists>s'. ignore (rl_sta_cache_request_enter E) s = Inr ((), s') \<and> rl_inv s'"
proof -
  let ?c = "g_sta_cache s"
  let ?z = "\<lparr>descr = x_zero_descr E, req_type = LAUNCH_REQ_DELIF_STA\<rparr>"
  let ?b = "RL_PRIV_STATUS_STA_ADV AND RL_PRIV_STATUS_MASK"
  obtain t where t: "clear_status_bits ?b s = Inr ((), t)" "rl_inv t" using rl_inv_clear_bits [OF inv] by blast
  obtain u where u: "rl_sta_request_enter_handle E (cache_param ?c) (cache_completion ?c) s = Inr ((), u)" "rl_inv u"
    using rl_sta_request_enter_handle_run [OF E inv] by blast
  obtain v where v: "rl_sta_request_enter_handle E (cache_param ?c) (cache_completion ?c) t = Inr ((), v)" "rl_inv v"
    using rl_sta_request_enter_handle_run [OF E t(2)] by blast
  obtain z where z: "rl_sta_request_enter E ?z None t = Inr ((), z)" "rl_inv z"
    using rl_sta_request_enter_run [OF E t(2)] by blast
  have c: "rl_inv (x\<lparr>g_sta_cache := zero_cache E\<rparr>)" if "rl_inv x" for x :: "('a, 'c, 'b) rl_state"
    using that by (simp add: rl_inv_alt)
  from t(1) u v z inv show ?thesis
    by (simp add: ignore_def rl_sta_cache_request_enter_def get_g_def prog_simps c zero_req_def
        rl_status_reset_private_state_def)
qed

lemma rl_inv_wlan: "rl_inv s \<Longrightarrow> wlan_frame s s' \<Longrightarrow> rl_inv s'"
  by (auto simp: rl_inv_alt rl_core_def rl_mem_def ptrs_def frame_defs Let_def intro: clean_low24)

lemma rl_exec_inv:
  assumes E: "env_ok E" and inv: "rl_inv s"
  shows "\<exists>s'. rl_exec E p s = Inr ((), s') \<and> rl_inv s'"
proof (cases p)
  case Fire_enter
  let ?s = "s\<lparr>g_role_launch := enter_timer_update (running_update (\<lambda>_. False)) (g_role_launch s)\<rparr>"
  have "rl_core ?s" "clean (rl_status (g_role_launch ?s))"
    using inv by (simp_all add: rl_inv_alt rl_core_def rl_mem_def ptrs_def Let_def)
  from rl_enter_handler_run [OF E this] this(2) show ?thesis
    by (auto simp: Fire_enter rl_exec_def upd_timer_def rl_basic rl_inv_alt zero_socket_def intro: clean_low24)
next
  case Fire_launch
  with rl_launch_handler_run [OF E inv] show ?thesis by (simp add: rl_exec_def upd_timer_def rl_basic)
next
  case (Op_sta_request q c)
  with rl_sta_request_enter_run [OF E inv] show ?thesis by (simp add: rl_exec_def)
next
  case (Op_ap_request q c)
  with rl_ap_request_enter_run [OF E inv] show ?thesis by (simp add: rl_exec_def)
next
  case Op_sta_cache_request
  with rl_sta_cache_request_enter_run [OF E inv] show ?thesis by (simp add: rl_exec_def)
next
  case (Op_report c)
  with run_call_frame [of c s] rl_inv_wlan [OF inv] show ?thesis by (auto simp: rl_exec_def)
next
  case (Op_pause en)
  with inv rl_inv_clear_bits [OF inv] show ?thesis
    by (cases en) (simp_all add: rl_exec_def rl_status_set_pause_def rl_basic rl_inv_alt rl_core_status clean_set_pause)
next
  case (Op_set_private st)
  with inv show ?thesis
    by (simp add: rl_exec_def rl_status_set_private_state_def rl_basic rl_inv_alt rl_core_status clean_set_private)
next
  case (Op_reset_private st)
  with rl_inv_clear_bits [OF inv] show ?thesis by (simp add: rl_exec_def rl_status_reset_private_state_def)
qed (use inv in \<open>auto simp: rl_exec_def ignore_def rl_flag_ops rl_basic prog_simps rl_inv_alt
       rl_sta_adv_register_cache_station_def\<close>)

end
