(* ===== verification/Role_Launch_Props.thy ===== *)
theory Role_Launch_Props
  imports Role_Launch
begin

text \<open>
  The properties of the role-launch queue (\<^verbatim>\<open>components/joint_up/role_launch.c\<close>) and a
  concrete environment on which they are exercised.
\<close>

section \<open>A concrete environment\<close>

text \<open>
  Timers and allocations succeed, descriptors are numbers, and the world is the log of the
  station descriptors that were started; starting a station reports that it is initialising.
\<close>

definition demo_env :: "(nat, nat list) rl_env" where
  "demo_env = \<lparr>x_timer_create = (\<lambda>w. (True, w)), x_timer_command = (\<lambda>w. (True, w)), x_alloc = (\<lambda>w. (True, w)),
     x_start_sta = (\<lambda>d r w. ([Call_init_csa, Call_sta_set_status RL_STATUS_STA_INITING], d # w)),
     x_scan_app_init = (\<lambda>r w. ([], w)),
     x_stop_sta = (\<lambda>r w. ([Call_sta_set_status RL_STATUS_UNKNOWN, Call_sta_clear_cancel,
                             Call_sta_set_status RL_STATUS_STA_LAUNCHED], w)),
     x_start_ap = (\<lambda>d r w. ([Call_ap_set_status RL_STATUS_AP_INITING], w)), x_stop_ap = (\<lambda>r w. ([], w)),
     x_hw_ap_disable = (\<lambda>w. w), x_is_monitor_mode = (\<lambda>w. False), x_zero_descr = 0\<rparr>"

definition demo_req :: "nat \<Rightarrow> nat launch_req" where
  "demo_req d = \<lparr>descr = d, req_type = LAUNCH_REQ_STA\<rparr>"

definition demo_entity :: "nat \<Rightarrow> (nat, unit) rl_entity" where
  "demo_entity d = \<lparr>launch_type = LAUNCH_TYPE_ASAP, relaunch_limit = 0, launch_count = 0, rlaunch = demo_req d,
     completion_cb = None\<rparr>"

text \<open>A running station (request 7) with a status, and a waiting one (request 8).\<close>

definition demo_two :: "u32 \<Rightarrow> (nat, unit, nat list) rl_state" where
  "demo_two st = (zero_state demo_env [])\<lparr>g_role_launch := zero_role_launch
     \<lparr>enter_timer := \<lparr>handle = True, running = False\<rparr>, rl_timer := \<lparr>handle = True, running = True\<rparr>,
      pre_entity_type := PRE_ENTITY_STA, pre_sta_status := st, jl_previous_sta := Some 0, jl_following_sta := Some 1\<rparr>,
     heap := [0 \<mapsto> demo_entity 7, 1 \<mapsto> demo_entity 8], brk := 2\<rparr>"

lemma demo_env_ok: "env_ok demo_env"
  by (simp add: env_ok_def demo_env_def)

lemma demo_two_mem: "rl_mem (demo_two st)"
  by (auto simp: rl_mem_def demo_two_def zero_state_def zero_role_launch_def ptrs_def demo_entity_def)

lemma demo_two_inv: "rl_inv (demo_two st)"
  using demo_two_mem [of st]
  by (simp add: rl_inv_alt rl_core_def clean_def demo_two_def zero_state_def zero_role_launch_def zero_socket_def Let_def)

fun rl_run :: "('d, 'w) rl_env \<Rightarrow> ('d, 'c, 'w) rl_op list \<Rightarrow> ('d, 'c, 'w) rl_state \<Rightarrow> ('d, 'c, 'w) rl_state option" where
  "rl_run E [] s = Some s"
| "rl_run E (p # ps) s = (if rl_enabled p s then (case rl_exec E p s of Inl _ \<Rightarrow> None | Inr (_, s') \<Rightarrow> rl_run E ps s')
                          else None)"

lemma rl_run_reach: "rl_reach E s \<Longrightarrow> rl_run E ps s = Some s' \<Longrightarrow> rl_reach E s'"
proof (induction ps arbitrary: s)
  case Nil
  then show ?case by simp
next
  case (Cons p ps)
  then obtain t where t: "rl_enabled p s" "rl_exec E p s = Inr ((), t)" "rl_run E ps t = Some s'"
    by (auto split: if_splits sum.splits)
  from rl_reach.step [OF Cons.prems(1) t(1,2)] t(3) Cons.IH show ?case by blast
qed

section \<open>Properties\<close>

text \<open>C3: As long as every allocation and every creation and command of a timer succeeds (\<open>env_ok\<close>; a failed allocation
  ends in the failed \<open>ASSERT(entity)\<close>, and one in \<open>rl_enter_handler\<close> leaves its request without a timer): in
  every state that a sequence of requests, timer expiries, WLAN reports and other
  activity reaches after \<open>rl_init\<close>, the four queue pointers own exactly the allocated
  entities (no leak, no dangling pointer, no shared entity), something waits only behind
  something that runs and then the launch timer is counting, a pending request has the enter
  timer counting, \<open>rl_status_is_idle\<close> answers yes (so the wait loop of a caller that paused
  the queue ends), and no further operation can fail an assertion or touch a freed entity.\<close>

theorem rl_reach_safe:
  assumes E: "env_ok E" and reach: "rl_reach E s"
  shows "rl_inv s \<and> rl_status_is_idle s = Inr (True, s) \<and> (\<forall>p. \<exists>s'. rl_exec E p s = Inr ((), s') \<and> rl_mem s')"
proof -
  from reach have inv: "rl_inv s"
  proof induction
    case (init w s)
    then show ?case by (rule rl_init_inv)
  next
    case (step s p s')
    with rl_exec_inv [OF E, of s p] show ?case by auto
  qed
  have "rl_status_is_idle s = Inr (True, s)"
  proof -
    have "bit ((rl_status (g_role_launch s) AND RL_STATUS_BIT_MASK) AND NOT RL_STATUS_MASK) n = False" for n
    proof -
      have "bit RL_STATUS_BIT_MASK n \<Longrightarrow> n < 16"
      proof -
        have "RL_STATUS_BIT_MASK = mask 16" by (simp add: mask_eq_exp_minus_1)
        then show "bit RL_STATUS_BIT_MASK n \<Longrightarrow> n < 16" by (simp only: bit_mask_iff)
      qed
      with inv show ?thesis unfolding rl_inv_def bit_and_iff bit_not_iff bit_pause by blast
    qed
    then have "(rl_status (g_role_launch s) AND RL_STATUS_BIT_MASK) AND NOT RL_STATUS_MASK = 0"
      by (intro bit_eqI) simp
    then show ?thesis unfolding rl_status_is_idle_def get_g_def by (simp only: getM_run refl simp_thms)
  qed
  with inv rl_exec_inv [OF E inv] show ?thesis by (force simp: rl_inv_def rl_core_def)
qed

theorem rl_reach_safe_witness:
  "\<exists>s :: (nat, unit, nat list) rl_state. rl_reach demo_env s \<and> world s = [7]
     \<and> jl_previous_sta (g_role_launch s) = Some 0 \<and> jl_following_sta (g_role_launch s) = Some 1
     \<and> rl_inv s \<and> rl_status_is_idle s = Inr (True, s)
     \<and> (\<exists>s'. rl_exec demo_env Fire_launch s = Inr ((), s') \<and> rl_mem s')"
proof -
  let ?ops = "[Op_sta_request (demo_req 7) None, Fire_enter, Op_sta_request (demo_req 8) None, Fire_enter]"
  obtain s0 :: "(nat, unit, nat list) rl_state" where s0: "rl_init demo_env (zero_state demo_env []) = Inr ((), s0)"
    "s0 = (zero_state demo_env [])\<lparr>g_role_launch := zero_role_launch\<lparr>rl_timer := \<lparr>handle = True, running = False\<rparr>,
        enter_timer := \<lparr>handle = True, running = False\<rparr>, rl_timer_flag := RL_TIMER_INIT\<rparr>\<rparr>"
    by (simp add: rl_init_def rtos_init_oneshot_timer_def on_world_def upd_timer_def rl_basic prog_simps
        demo_env_def zero_state_def zero_role_launch_def)
  obtain s where s: "rl_run demo_env ?ops s0 = Some s" "world s = [7]"
    "jl_previous_sta (g_role_launch s) = Some 0" "jl_following_sta (g_role_launch s) = Some 1"
    by (simp add: s0(2) rl_enabled_def rl_exec_def rl_sta_request_enter_def rl_sta_request_enter_handle_def
        rl_status_reset_st_state_def rtos_stop_oneshot_timer_def rtos_start_oneshot_timer_def timer_command_def
        timer_of_def upd_timer_def on_world_def rl_enter_handler_def sta_request_enter_def rl_alloc_entity_def
        rl_sta_request_start_def rl_pre_sta_init_def wlan_call_def run_call_def rl_init_csa_status_def
        rl_pre_sta_set_status_def rl_start_def rl_basic prog_simps demo_env_def demo_req_def zero_state_def
        zero_role_launch_def zero_socket_def zero_req_def bits_clear_def)
  have r: "rl_reach demo_env s" by (rule rl_run_reach [OF rl_reach.init [OF s0(1)] s(1)])
  from rl_reach_safe [OF demo_env_ok r] r s show ?thesis by blast
qed

text \<open>
  The states of the station in which its running entity may be replaced while another one
  waits: any but an unfinished scan and the time before initialisation, and never during a
  channel switch.
\<close>

definition sta_replaceable :: "('d, 'c, 'w) rl_state \<Rightarrow> bool" where
  "sta_replaceable s \<longleftrightarrow> g_mrole_csa_flag s \<noteq> RL_STATUS_MROLE_CHANNEL_SWITCHING
     \<and> (g_mrole_csa_flag s = RL_STATUS_MROLE_CHANNEL_SWITCHED
        \<or> pre_sta_status (g_role_launch s) \<in> {RL_STATUS_STA_INITING, RL_STATUS_STA_SCAN_OVER,
             RL_STATUS_STA_CONNECTING, RL_STATUS_STA_DHCPING, RL_STATUS_STA_LAUNCHED, RL_STATUS_STA_LAUNCH_FAILED})"

lemma sta_may_next_waiting:
  "\<exists>n. rl_sta_may_next_launch (s\<lparr>g_role_launch := (g_role_launch s)\<lparr>pre_sta_cancel := 1\<rparr>\<rparr>)
      = Inr (n, s\<lparr>g_role_launch := (g_role_launch s)\<lparr>pre_sta_cancel := 1\<rparr>\<rparr>) \<and> (n = 0 \<longleftrightarrow> \<not> sta_replaceable s)"
  by (simp add: rl_sta_may_next_launch_def rl_flag_ops rl_basic prog_simps sta_replaceable_def Let_def)

lemma launch_sta_eq:
  assumes mem: "rl_mem s" and prev: "jl_previous_sta (g_role_launch s) = Some q"
    and foll: "jl_following_sta (g_role_launch s) = Some p" and e: "heap s p = Some e"
  shows "rl_launch_sta E s = (let r1 = (g_role_launch s)\<lparr>pre_sta_cancel := 1\<rparr> in
    if \<not> sta_replaceable s then Inr (LAUNCH_STATUS_CONT, s\<lparr>g_role_launch := r1\<rparr>)
    else if sta_open (g_role_launch s) then
      thenM (rl_sta_request_start E (Some (rlaunch e)))
        (thenM (clear_status_bits RL_STATUS_DOING) (retM LAUNCH_STATUS_CONT))
        (s\<lparr>g_role_launch := rl_status_update (\<lambda>x. x OR RL_STATUS_DOING)
             (r1\<lparr>jl_following_sta := None, jl_previous_sta := Some p\<rparr>), heap := (heap s)(q := None)\<rparr>)
    else Inr (LAUNCH_STATUS_OVER, s\<lparr>g_role_launch := r1\<lparr>jl_following_sta := None, jl_previous_sta := None\<rparr>,
             heap := (heap s)(q := None, p := None)\<rparr>))"
proof -
  obtain e' where e': "heap s q = Some e'" "relaunch_limit e' = 0"
    using rl_mem_lookup [OF mem, of q] prev by (auto simp: ptrs_def)
  have "launch_type e = LAUNCH_TYPE_ASAP" using mem e by (auto simp: rl_mem_def ran_def)
  moreover have "p \<noteq> q" using mem prev foll by (auto simp: rl_mem_def ptrs_def)
  moreover have "sta_open (r\<lparr>pre_sta_cancel := a, jl_following_sta := b\<rparr>) = sta_open r" for r a b
    by (simp add: sta_open_def)
  moreover obtain n where n: "rl_sta_may_next_launch (s\<lparr>g_role_launch := (g_role_launch s)\<lparr>pre_sta_cancel := 1\<rparr>\<rparr>)
      = Inr (n, s\<lparr>g_role_launch := (g_role_launch s)\<lparr>pre_sta_cancel := 1\<rparr>\<rparr>)" "n = 0 \<longleftrightarrow> \<not> sta_replaceable s"
    using sta_may_next_waiting by blast
  moreover obtain t where "rl_sta_request_start E (Some (rlaunch e)) (s\<lparr>g_role_launch :=
      rl_status_update (\<lambda>x. x OR RL_STATUS_DOING) ((g_role_launch s)\<lparr>pre_sta_cancel := 1, jl_following_sta := None,
        jl_previous_sta := Some p\<rparr>), heap := (heap s)(q := None)\<rparr>) = Inr ((), t)"
    using sta_request_start_frame by blast
  ultimately show ?thesis using prev foll e e'
    by (simp add: rl_launch_sta_def rl_pre_sta_set_cancel_def rl_basic prog_simps deref_def rl_free_entity_def
        Let_def rl_pre_sta_stop_launch_def)
qed


lemma sta_waits:
  assumes "rl_mem s" "jl_previous_sta (g_role_launch s) = Some q" "jl_following_sta (g_role_launch s) = Some p"
    "heap s p = Some e" "\<not> sta_replaceable s"
  shows "rl_launch_sta E s = Inr (LAUNCH_STATUS_CONT, s\<lparr>g_role_launch := (g_role_launch s)\<lparr>pre_sta_cancel := 1\<rparr>\<rparr>)"
  using launch_sta_eq [OF assms(1-4)] assms(5) by (simp add: Let_def)

text \<open>One run of \<open>rl_launch_sta\<close> with a running and a waiting station entity: while the
  running one is not replaceable it only raises the cancel flag and asks to be called
  again; otherwise it frees the running entity and serves the waiting request from its
  entity, which is now the running one; if the component is paused or on hold it discards
  both.\<close>

theorem rl_launch_sta_replaces:
  assumes mem: "rl_mem s" and prev: "jl_previous_sta (g_role_launch s) = Some q"
    and foll: "jl_following_sta (g_role_launch s) = Some p" and e: "heap s p = Some e"
  shows "rl_launch_sta E s = (let r1 = (g_role_launch s)\<lparr>pre_sta_cancel := 1\<rparr> in
    if \<not> sta_replaceable s then Inr (LAUNCH_STATUS_CONT, s\<lparr>g_role_launch := r1\<rparr>)
    else if sta_open (g_role_launch s) then
      thenM (rl_sta_request_start E (Some (rlaunch e)))
        (thenM (clear_status_bits RL_STATUS_DOING) (retM LAUNCH_STATUS_CONT))
        (s\<lparr>g_role_launch := rl_status_update (\<lambda>x. x OR RL_STATUS_DOING)
             (r1\<lparr>jl_following_sta := None, jl_previous_sta := Some p\<rparr>), heap := (heap s)(q := None)\<rparr>)
    else Inr (LAUNCH_STATUS_OVER, s\<lparr>g_role_launch := r1\<lparr>jl_following_sta := None, jl_previous_sta := None\<rparr>,
             heap := (heap s)(q := None, p := None)\<rparr>))"
  by (rule launch_sta_eq [OF assms])

theorem rl_launch_sta_replaces_witness:
  "\<exists>s'. rl_launch_sta demo_env (demo_two RL_STATUS_STA_LAUNCHED) = Inr (LAUNCH_STATUS_CONT, s') \<and> world s' = [8]
     \<and> jl_previous_sta (g_role_launch s') = Some 1 \<and> jl_following_sta (g_role_launch s') = None
     \<and> heap s' = [1 \<mapsto> demo_entity 8]"
proof -
  have s: "jl_previous_sta (g_role_launch (demo_two st)) = Some 0" "jl_following_sta (g_role_launch (demo_two st)) = Some 1"
    "heap (demo_two st) 1 = Some (demo_entity 8)" for st
    by (simp_all add: demo_two_def)
  note r = rl_launch_sta_replaces [OF demo_two_mem s, of demo_env RL_STATUS_STA_LAUNCHED]
  show ?thesis unfolding r
    by (simp add: demo_two_def zero_state_def zero_role_launch_def sta_replaceable_def sta_open_def Let_def
        demo_entity_def rl_sta_request_start_def rl_pre_sta_init_def wlan_call_def on_world_def run_call_def
        rl_init_csa_status_def rl_pre_sta_set_status_def rl_basic prog_simps demo_env_def demo_req_def)
qed

text \<open>The answer of \<open>_sta_request_enter\<close> in a reachable state. A request is refused exactly
  when the station is on hold or when something runs and another station request already
  waits; otherwise a new entity holding the request and its completion becomes the running
  one (answer 1, nothing ran) or the waiting one (answer 2), and no other entity changes.\<close>

theorem sta_request_enter_result:
  assumes E: "env_ok E" and inv: "rl_inv s"
    and run: "sta_request_enter E q c s = Inr (ret, s')"
  shows "let r = g_role_launch s; r' = g_role_launch s'; p = brk s;
           hold = (rl_status r AND RL_STA_STATE_MASK = RL_STA_STATE_HOLD);
           e = \<lparr>launch_type = LAUNCH_TYPE_ASAP, relaunch_limit = 0, launch_count = 0, rlaunch = q, completion_cb = c\<rparr> in
         if \<not> hold \<and> jl_previous_ap r = None \<and> jl_previous_sta r = None then
           ret = 1 \<and> heap s' = (heap s)(p \<mapsto> e) \<and> jl_previous_sta r' = Some p \<and> jl_following_sta r' = None
         else if \<not> hold \<and> jl_following_sta r = None then
           ret = 2 \<and> heap s' = (heap s)(p \<mapsto> e) \<and> jl_following_sta r' = Some p
           \<and> jl_previous_sta r' = jl_previous_sta r \<and> running (rl_timer r')
         else ret = 0 \<and> heap s' = heap s \<and> queue_frame r r'"
proof -
  let ?g = "g_role_launch s"
  let ?r0 = "rl_status_update (\<lambda>x. x OR RL_STATUS_DOING) ?g"
  let ?s0 = "s\<lparr>g_role_launch := ?r0\<rparr>"
  let ?e = "\<lparr>launch_type = LAUNCH_TYPE_ASAP, relaunch_limit = 0, launch_count = 0, rlaunch = q, completion_cb = c\<rparr>"
  let ?hold = "rl_status ?g AND RL_STA_STATE_MASK = RL_STA_STATE_HOLD"
  have h: "handle (rl_timer ?g)" and nil: "jl_previous_ap ?g = None \<Longrightarrow> jl_previous_sta ?g = None \<Longrightarrow> ptrs ?g = []"
    using inv by (auto simp: rl_inv_def rl_core_def Let_def)
  have hold: "(rl_status ?g OR RL_STATUS_DOING) AND RL_STA_STATE_MASK = rl_status ?g AND RL_STA_STATE_MASK"
    by (simp add: bit.conj_disj_distrib2)
  obtain w where alloc: "rl_alloc_entity E q c ?s0 = Inr (Some (brk s), ?s0\<lparr>world := w, brk := Suc (brk s),
      heap := (heap s)(brk s \<mapsto> ?e)\<rparr>)" using rl_alloc_entity_run [OF E, of q c ?s0] by auto
  let ?s1 = "s\<lparr>world := w, g_role_launch := ?r0\<lparr>jl_previous_sta := Some (brk s)\<rparr>, brk := Suc (brk s),
      heap := (heap s)(brk s \<mapsto> ?e)\<rparr>"
  let ?s2 = "s\<lparr>world := w, g_role_launch := ?r0\<lparr>jl_following_sta := Some (brk s)\<rparr>, brk := Suc (brk s),
      heap := (heap s)(brk s \<mapsto> ?e)\<rparr>"
  obtain t where t: "rl_sta_request_start E (Some q) ?s1 = Inr ((), t)" "wlan_frame ?s1 t"
    using sta_request_start_frame by blast
  obtain w2 where w2: "rl_start E ?s2 = Inr ((), ?s2\<lparr>world := w2, g_role_launch := (g_role_launch ?s2)
         \<lparr>rl_timer := \<lparr>handle = True, running = True\<rparr>, rl_timer_flag := RL_TIMER_START\<rparr>\<rparr>)"
    using rl_start_run [OF E, of ?s2] h by auto
  obtain w0 where w0: "rl_start E ?s0 = Inr ((), ?s0\<lparr>world := w0, g_role_launch := ?r0
         \<lparr>rl_timer := \<lparr>handle = True, running = True\<rparr>, rl_timer_flag := RL_TIMER_START\<rparr>\<rparr>)"
    using rl_start_run [OF E, of ?s0] h by auto
  note ev = sta_request_enter_def rl_basic prog_simps hold
  consider (start) "\<not> ?hold" "jl_previous_ap ?g = None" "jl_previous_sta ?g = None"
    | (wait) "\<not> ?hold" "\<not> (jl_previous_ap ?g = None \<and> jl_previous_sta ?g = None)" "jl_following_sta ?g = None"
    | (drop) "?hold \<or> \<not> (jl_previous_ap ?g = None \<and> jl_previous_sta ?g = None) \<and> jl_following_sta ?g \<noteq> None"
    by metis
  then show ?thesis
  proof cases
    case start
    with run alloc t nil show ?thesis
      by (auto simp: ev frame_defs ptrs_Nil Let_def split: if_splits)
  next
    case wait
    with run alloc w2 show ?thesis
      by (cases "jl_previous_ap ?g"; cases "jl_previous_sta ?g") (auto simp: ev Let_def split: if_splits)
  next
    case drop
    with run w0 show ?thesis
      by (auto simp: ev Let_def queue_frame_def split: if_splits)
  qed
qed

theorem sta_request_enter_result_witness:
  "\<exists>s'. sta_request_enter demo_env (demo_req 9) None (demo_two RL_STATUS_STA_LAUNCHED) = Inr (0, s')
     \<and> heap s' = heap (demo_two RL_STATUS_STA_LAUNCHED)"
proof -
  have "\<not> bit (rl_status (g_role_launch (demo_two st))) 1" for st
    by (simp add: demo_two_def zero_role_launch_def)
  moreover have "rl_core (demo_two st)" for st using demo_two_inv [of st] by (simp add: rl_inv_def)
  ultimately obtain ret s' where r: "sta_request_enter demo_env (demo_req 9) None (demo_two RL_STATUS_STA_LAUNCHED)
      = Inr (ret, s')" using sta_request_enter_run [OF demo_env_ok] by blast
  from sta_request_enter_result [OF demo_env_ok demo_two_inv r] have "ret = 0 \<and> heap s' = heap (demo_two RL_STATUS_STA_LAUNCHED)"
    by (simp add: Let_def demo_two_def)
  with r show ?thesis by blast
qed

text \<open>A request that waits keeps the running station from starting a new scan: once
  \<open>rl_launch_sta\<close> has seen it and the running entity was not replaceable, every report
  that a scan begins is refused (the caller is told to abandon it) and changes nothing,
  whereas without a waiting request a scan may begin exactly from the initialised or the
  scanned state.\<close>

theorem waiting_request_blocks_scan:
  assumes "rl_mem s" "jl_previous_sta (g_role_launch s) = Some q" "jl_following_sta (g_role_launch s) = Some p"
    and "\<not> sta_replaceable s"
  shows "(\<exists>s' n. rl_launch_sta E s = Inr (LAUNCH_STATUS_CONT, s') \<and> n \<noteq> 0
       \<and> rl_pre_sta_set_status RL_STATUS_STA_SCANNING s' = Inr (n, s')
       \<and> pre_sta_status (g_role_launch s') = pre_sta_status (g_role_launch s))
    \<and> (pre_sta_cancel (g_role_launch s) = 0 \<longrightarrow>
       ((\<exists>t. rl_pre_sta_set_status RL_STATUS_STA_SCANNING s = Inr (0, t)
             \<and> pre_sta_status (g_role_launch t) = RL_STATUS_STA_SCANNING)
        \<longleftrightarrow> pre_sta_status (g_role_launch s) \<in> {RL_STATUS_STA_INITING, RL_STATUS_STA_SCAN_OVER}))"
proof -
  obtain e where "heap s p = Some e" using rl_mem_lookup [OF assms(1), of p] assms(3) by (auto simp: ptrs_def)
  from sta_waits [OF assms(1-3) this assms(4), of E] show ?thesis
    by (auto simp: rl_pre_sta_set_status_def rl_basic prog_simps split: if_splits)
qed

theorem waiting_request_blocks_scan_witness:
  "\<exists>s' n. rl_launch_sta demo_env (demo_two RL_STATUS_STA_SCANNING) = Inr (LAUNCH_STATUS_CONT, s') \<and> n \<noteq> 0
     \<and> rl_pre_sta_set_status RL_STATUS_STA_SCANNING s' = Inr (n, s')"
proof -
  have "jl_previous_sta (g_role_launch (demo_two st)) = Some 0" "jl_following_sta (g_role_launch (demo_two st)) = Some 1"
    "\<not> sta_replaceable (demo_two RL_STATUS_STA_SCANNING)" for st
    by (simp_all add: demo_two_def sta_replaceable_def zero_state_def)
  from waiting_request_blocks_scan [OF demo_two_mem this, of demo_env] show ?thesis by blast
qed

text \<open>Channel switching and replacement exclude each other: \<open>rl_set_csa_switching\<close> succeeds
  exactly when no replacement is being forced on either role, and while the switch lasts no
  running entity that somebody waits for is replaced; the end of the switch lets the
  station be replaced whatever its state.\<close>

theorem csa_excludes_replacement:
  "rl_set_csa_switching s = (if pre_sta_cancel (g_role_launch s) = 0 \<and> pre_ap_cancel (g_role_launch s) = 0
      then Inr (0, s\<lparr>g_mrole_csa_flag := RL_STATUS_MROLE_CHANNEL_SWITCHING\<rparr>) else Inr (1, s))
   \<and> rl_sta_may_next_launch (s\<lparr>g_mrole_csa_flag := RL_STATUS_MROLE_CHANNEL_SWITCHING\<rparr>)
      = Inr (0, s\<lparr>g_mrole_csa_flag := RL_STATUS_MROLE_CHANNEL_SWITCHING\<rparr>)
   \<and> rl_ap_may_next_launch 1 (s\<lparr>g_mrole_csa_flag := RL_STATUS_MROLE_CHANNEL_SWITCHING\<rparr>)
      = Inr (0, s\<lparr>g_mrole_csa_flag := RL_STATUS_MROLE_CHANNEL_SWITCHING\<rparr>)
   \<and> rl_sta_may_next_launch (s\<lparr>g_mrole_csa_flag := RL_STATUS_MROLE_CHANNEL_SWITCHED\<rparr>)
      = Inr (1, s\<lparr>g_mrole_csa_flag := RL_STATUS_MROLE_CHANNEL_SWITCHED\<rparr>)"
  by (simp add: rl_flag_ops rl_sta_may_next_launch_def rl_ap_may_next_launch_def rl_basic prog_simps Let_def)

text \<open>While the queue is paused a firing enter timer discards the pending request: it empties
  the socket and leaves the queue, its entities, the status and the cache as they were.\<close>

theorem paused_enter_discards:
  assumes "env_ok E" "rl_status (g_role_launch s) AND RL_STATUS_PAUSE \<noteq> 0"
  shows "\<exists>w. rl_enter_handler E s = Inr ((), s\<lparr>world := w, g_rl_socket := zero_socket E\<rparr>)"
proof -
  obtain w where "x_alloc E (world s) = (True, w)"
    using assms(1) unfolding env_ok_def by (metis prod.collapse)
  with assms(2) show ?thesis
    by (auto simp: rl_enter_handler_def on_world_def rl_basic prog_simps)
qed

theorem paused_enter_discards_witness:
  "\<exists>w. rl_enter_handler demo_env ((demo_two 1)\<lparr>g_role_launch := (g_role_launch (demo_two 1))\<lparr>rl_status := RL_STATUS_PAUSE\<rparr>\<rparr>)
     = Inr ((), (demo_two 1)\<lparr>g_role_launch := (g_role_launch (demo_two 1))\<lparr>rl_status := RL_STATUS_PAUSE\<rparr>,
                  world := w, g_rl_socket := zero_socket demo_env\<rparr>)"
  using paused_enter_discards [OF demo_env_ok, of "(demo_two 1)\<lparr>g_role_launch := (g_role_launch (demo_two 1))\<lparr>rl_status := RL_STATUS_PAUSE\<rparr>\<rparr>"]
  by simp

end
