(* ===== verification/Multi_Button.thy ===== *)
theory Multi_Button
  imports Prelude
begin

text \<open>
  The button component of \<^verbatim>\<open>components/key/multi_button.c\<close>: a per-button state machine that
  turns sampled pin levels into press, click and long-press events, and the intrusive linked
  list of the buttons that the 5 ms tick serves. Bit fields keep their widths. A callback of
  the client is a value that the handler emits; a pin is sampled once per tick and the level
  read is an argument. The list is walked through the \<open>next\<close> pointers of an explicit memory,
  so that a walk that does not end has no result.
\<close>

section \<open>Data\<close>

datatype press_evt =
    PRESS_DOWN
  | PRESS_UP
  | PRESS_REPEAT
  | SINGLE_CLICK
  | DOUBLE_CLICK
  | LONG_PRESS_START
  | LONG_PRESS_HOLD
  | NONE_PRESS

record ('c, 'u) button =
  ticks :: u16
  repeat :: "4 word"
  event :: press_evt
  state :: "3 word"
  debounce_cnt :: "3 word"
  active_level :: "1 word"
  button_level :: "1 word"
  user_data :: 'u
  cb :: "press_evt \<Rightarrow> 'c option"
  nxt :: "nat option"

text \<open>The buttons in memory, and \<open>head_handle\<close>.\<close>

record ('c, 'u) button_list =
  mem :: "nat \<Rightarrow> ('c, 'u) button"
  head_handle :: "nat option"

abbreviation DEBOUNCE_TICKS :: "3 word" where "DEBOUNCE_TICKS \<equiv> 6"
abbreviation SHORT_TICKS :: u16 where "SHORT_TICKS \<equiv> 80"
abbreviation LONG_TICKS :: u16 where "LONG_TICKS \<equiv> 200"

section \<open>The state machine\<close>

definition button_init :: "u8 \<Rightarrow> u8 \<Rightarrow> 'u \<Rightarrow> ('c, 'u) button" where
  "button_init level active user =
     \<lparr>ticks = 0, repeat = 0, event = NONE_PRESS, state = 0, debounce_cnt = 0, active_level = ucast active,
      button_level = ucast level, user_data = user, cb = (\<lambda>_. None), nxt = None\<rparr>"

definition button_attach :: "('c, 'u) button \<Rightarrow> press_evt \<Rightarrow> 'c \<Rightarrow> ('c, 'u) button" where
  "button_attach b ev f = b\<lparr>cb := (cb b)(ev \<mapsto> f)\<rparr>"

definition button_get_event :: "('c, 'u) button \<Rightarrow> press_evt" where
  "button_get_event b = event b"

definition EVENT_CB :: "('c, 'u) button \<Rightarrow> press_evt \<Rightarrow> (press_evt \<times> 'c) list" where
  "EVENT_CB b ev = (case cb b ev of None \<Rightarrow> [] | Some f \<Rightarrow> [(ev, f)])"

text \<open>The first half of \<open>button_handler\<close>: the tick counter and the debouncing of the level.\<close>

definition debounce :: "u8 \<Rightarrow> ('c, 'u) button \<Rightarrow> ('c, 'u) button" where
  "debounce read_gpio_level b =
     (let b = (if state b > 0 then b\<lparr>ticks := ticks b + 1\<rparr> else b) in
      if read_gpio_level \<noteq> ucast (button_level b) then
        (let b = b\<lparr>debounce_cnt := debounce_cnt b + 1\<rparr> in
         if debounce_cnt b \<ge> DEBOUNCE_TICKS
         then b\<lparr>button_level := ucast read_gpio_level, debounce_cnt := 0\<rparr> else b)
      else b\<lparr>debounce_cnt := 0\<rparr>)"

text \<open>The second half: the state machine, with the callbacks it makes in order.\<close>

definition machine :: "('c, 'u) button \<Rightarrow> ('c, 'u) button \<times> (press_evt \<times> 'c) list" where
  "machine b = (let pressed = (button_level b = active_level b) in
     if state b = 0 then
       (if pressed then (b\<lparr>event := PRESS_DOWN, ticks := 0, repeat := 1, state := 1\<rparr>, EVENT_CB b PRESS_DOWN)
        else (b\<lparr>event := NONE_PRESS\<rparr>, []))
     else if state b = 1 then
       (if \<not> pressed then (b\<lparr>event := PRESS_UP, ticks := 0, state := 2\<rparr>, EVENT_CB b PRESS_UP)
        else if ticks b > LONG_TICKS then (b\<lparr>event := LONG_PRESS_START, state := 5\<rparr>, EVENT_CB b LONG_PRESS_START)
        else (b, []))
     else if state b = 2 then
       (if pressed then
          (b\<lparr>event := PRESS_DOWN, repeat := repeat b + 1, ticks := 0, state := 3\<rparr>,
           EVENT_CB b PRESS_DOWN @ (if repeat b + 1 = 2 then EVENT_CB b DOUBLE_CLICK else []) @ EVENT_CB b PRESS_REPEAT)
        else if ticks b > SHORT_TICKS then
          (if repeat b = 1 then (b\<lparr>event := SINGLE_CLICK, state := 0\<rparr>, EVENT_CB b SINGLE_CLICK)
           else if repeat b = 2 then (b\<lparr>event := DOUBLE_CLICK, state := 0\<rparr>, [])
           else (b\<lparr>state := 0\<rparr>, []))
        else (b, []))
     else if state b = 3 then
       (if \<not> pressed then
          (if ticks b < SHORT_TICKS then (b\<lparr>event := PRESS_UP, ticks := 0, state := 2\<rparr>, EVENT_CB b PRESS_UP)
           else (b\<lparr>event := PRESS_UP, state := 0\<rparr>, EVENT_CB b PRESS_UP))
        else (b, []))
     else if state b = 5 then
       (if pressed then (b\<lparr>event := LONG_PRESS_HOLD\<rparr>, EVENT_CB b LONG_PRESS_HOLD)
        else (b\<lparr>event := PRESS_UP, state := 0\<rparr>, EVENT_CB b PRESS_UP))
     else (b, []))"

definition button_handler :: "u8 \<Rightarrow> ('c, 'u) button \<Rightarrow> ('c, 'u) button \<times> (press_evt \<times> 'c) list" where
  "button_handler read_gpio_level b = machine (debounce read_gpio_level b)"

section \<open>The list of active buttons\<close>

text \<open>\<open>while (target)\<close>: is \<open>handle\<close> on the list that starts at \<open>target\<close>?\<close>

partial_function (option) on_list :: "(nat \<Rightarrow> ('c, 'u) button) \<Rightarrow> nat \<Rightarrow> nat option \<Rightarrow> bool option" where
  "on_list m handle target = (case target of
     None \<Rightarrow> Some False
   | Some t \<Rightarrow> if t = handle then Some True else on_list m handle (nxt (m t)))"

definition button_start :: "nat \<Rightarrow> ('c, 'u) button_list \<Rightarrow> (int \<times> ('c, 'u) button_list) option" where
  "button_start handle l = (case on_list (mem l) handle (head_handle l) of
     None \<Rightarrow> None
   | Some True \<Rightarrow> Some (-1, l)
   | Some False \<Rightarrow>
       Some (0, l\<lparr>mem := (mem l)(handle := (mem l handle)\<lparr>nxt := head_handle l\<rparr>), head_handle := Some handle\<rparr>))"

text \<open>The pointer \<open>curr\<close> of \<open>button_stop\<close>: the head variable or the \<open>next\<close> field of a button.\<close>

definition read_link :: "nat option \<Rightarrow> ('c, 'u) button_list \<Rightarrow> nat option" where
  "read_link link l = (case link of None \<Rightarrow> head_handle l | Some a \<Rightarrow> nxt (mem l a))"

definition write_link :: "nat option \<Rightarrow> nat option \<Rightarrow> ('c, 'u) button_list \<Rightarrow> ('c, 'u) button_list" where
  "write_link link v l = (case link of
     None \<Rightarrow> l\<lparr>head_handle := v\<rparr>
   | Some a \<Rightarrow> l\<lparr>mem := (mem l)(a := (mem l a)\<lparr>nxt := v\<rparr>)\<rparr>)"

partial_function (option) stop_loop ::
  "nat \<Rightarrow> nat option \<Rightarrow> ('c, 'u) button_list \<Rightarrow> ('c, 'u) button_list option" where
  "stop_loop handle link l = (case read_link link l of
     None \<Rightarrow> Some l
   | Some entry \<Rightarrow>
       if entry = handle then stop_loop handle link (write_link link (nxt (mem l entry)) l)
       else stop_loop handle (Some entry) l)"

definition button_stop :: "nat \<Rightarrow> ('c, 'u) button_list \<Rightarrow> ('c, 'u) button_list option" where
  "button_stop handle l = stop_loop handle None l"

partial_function (option) find_loop :: "(nat \<Rightarrow> ('c, 'u) button) \<Rightarrow> 'u \<Rightarrow> nat option \<Rightarrow> nat option option" where
  "find_loop m user entry = (case entry of
     None \<Rightarrow> Some None
   | Some t \<Rightarrow> if user_data (m t) = user then Some (Some t) else find_loop m user (nxt (m t)))"

definition button_find_with_user_data :: "'u \<Rightarrow> ('c, 'u) button_list \<Rightarrow> nat option option" where
  "button_find_with_user_data user l = find_loop (mem l) user (head_handle l)"

text \<open>The tick: every button on the list is handled with the level its pin has, in list order.\<close>

partial_function (option) ticks_loop ::
  "(nat \<Rightarrow> u8) \<Rightarrow> nat option \<Rightarrow> (nat \<Rightarrow> ('c, 'u) button) \<times> (nat \<times> press_evt \<times> 'c) list
   \<Rightarrow> ((nat \<Rightarrow> ('c, 'u) button) \<times> (nat \<times> press_evt \<times> 'c) list) option" where
  "ticks_loop pin target acc = (case target of
     None \<Rightarrow> Some acc
   | Some t \<Rightarrow>
       (let (m, out) = acc; (b, evs) = button_handler (pin t) (m t); m' = m(t := b)
        in ticks_loop pin (nxt (m' t)) (m', out @ map (\<lambda>(ev, f). (t, ev, f)) evs)))"

definition button_ticks ::
  "(nat \<Rightarrow> u8) \<Rightarrow> ('c, 'u) button_list \<Rightarrow> (('c, 'u) button_list \<times> (nat \<times> press_evt \<times> 'c) list) option" where
  "button_ticks pin l =
     map_option (\<lambda>(m, out). (l\<lparr>mem := m\<rparr>, out)) (ticks_loop pin (head_handle l) (mem l, []))"

section \<open>The list as a list\<close>

text \<open>\<open>linked m p xs\<close>: following \<open>next\<close> from \<open>p\<close> visits exactly \<open>xs\<close>.\<close>

fun linked :: "(nat \<Rightarrow> ('c, 'u) button) \<Rightarrow> nat option \<Rightarrow> nat list \<Rightarrow> bool" where
  "linked m p [] \<longleftrightarrow> p = None"
| "linked m p (x # xs) \<longleftrightarrow> p = Some x \<and> linked m (nxt (m x)) xs"

definition active :: "('c, 'u) button_list \<Rightarrow> nat list \<Rightarrow> bool" where
  "active l xs \<longleftrightarrow> linked (mem l) (head_handle l) xs \<and> distinct xs"

lemma linked_cong: "(\<And>x. x \<in> set xs \<Longrightarrow> nxt (m' x) = nxt (m x)) \<Longrightarrow> linked m' p xs = linked m p xs"
  by (induction xs arbitrary: p) auto

lemma on_list_linked: "linked m p xs \<Longrightarrow> on_list m h p = Some (h \<in> set xs)"
proof (induction xs arbitrary: p)
  case Nil
  then show ?case by (simp add: on_list.simps)
next
  case (Cons x xs)
  then show ?case by (subst on_list.simps) auto
qed

lemma find_loop_linked: "linked m p xs \<Longrightarrow> find_loop m u p = Some (List.find (\<lambda>x. user_data (m x) = u) xs)"
proof (induction xs arbitrary: p)
  case Nil
  then show ?case by (simp add: find_loop.simps)
next
  case (Cons x xs)
  then show ?case by (subst find_loop.simps) auto
qed

fun path :: "(nat \<Rightarrow> ('c, 'u) button) \<Rightarrow> nat option \<Rightarrow> nat list \<Rightarrow> bool" where
  "path m p [] \<longleftrightarrow> True"
| "path m p (x # xs) \<longleftrightarrow> p = Some x \<and> path m (nxt (m x)) xs"

definition lend :: "(nat \<Rightarrow> ('c, 'u) button) \<Rightarrow> nat option \<Rightarrow> nat list \<Rightarrow> nat option" where
  "lend m p ys = (if ys = [] then p else nxt (m (last ys)))"

lemma linked_append: "linked m p (ys @ xs) \<longleftrightarrow> path m p ys \<and> linked m (lend m p ys) xs"
  by (induction ys arbitrary: p) (auto simp: lend_def)

lemma path_cong: "(\<And>x. x \<in> set (butlast xs) \<Longrightarrow> nxt (m' x) = nxt (m x)) \<Longrightarrow> path m' p xs = path m p xs"
proof (induction xs arbitrary: p)
  case (Cons a xs)
  then show ?case by (cases "xs = []") auto
qed simp

definition link_of :: "nat list \<Rightarrow> nat option" where
  "link_of ys = (if ys = [] then None else Some (last ys))"

lemma read_link_lend: "read_link (link_of ys) l = lend (mem l) (head_handle l) ys"
  by (simp add: read_link_def link_of_def lend_def)

text \<open>Redirecting the link behind \<open>ys\<close> past one entry takes that entry off the list.\<close>

lemma write_link_unlink:
  assumes "active l (ys @ x # xs)"
  shows "active (write_link (link_of ys) (nxt (mem l x)) l) (ys @ xs)"
proof (cases ys rule: rev_cases)
  case Nil
  with assms show ?thesis by (simp add: active_def write_link_def link_of_def)
next
  case (snoc zs z)
  let ?m = "(mem l)(z := (mem l z)\<lparr>nxt := nxt (mem l x)\<rparr>)"
  from assms snoc have d: "distinct (zs @ z # x # xs)" and p: "path (mem l) (head_handle l) ys"
    and r: "linked (mem l) (nxt (mem l x)) xs"
    using linked_append [of "mem l" "head_handle l" ys "x # xs"] by (auto simp: active_def)
  have "path ?m (head_handle l) ys = path (mem l) (head_handle l) ys"
    by (rule path_cong) (use d snoc in auto)
  with p have "path ?m (head_handle l) ys" by simp
  moreover have "linked ?m (nxt (mem l x)) xs = linked (mem l) (nxt (mem l x)) xs"
    by (rule linked_cong) (use d in auto)
  ultimately have "linked ?m (head_handle l) (ys @ xs)" using snoc r by (simp only: linked_append) (simp add: lend_def)
  then show ?thesis using snoc d by (auto simp: active_def write_link_def link_of_def)
qed

definition same_buttons :: "('c, 'u) button_list \<Rightarrow> ('c, 'u) button_list \<Rightarrow> bool" where
  "same_buttons l l' \<longleftrightarrow> (\<forall>x. \<exists>n. mem l' x = (mem l x)\<lparr>nxt := n\<rparr>)"

lemma same_buttons_refl [simp]: "same_buttons l l"
proof -
  have "mem l x = (mem l x)\<lparr>nxt := nxt (mem l x)\<rparr>" for x by simp
  then show ?thesis unfolding same_buttons_def by blast
qed

lemma same_buttons_write [simp]:
  assumes "same_buttons (write_link c v l) l'"
  shows "same_buttons l l'"
  unfolding same_buttons_def
proof
  fix x
  obtain n where "mem l' x = (mem (write_link c v l) x)\<lparr>nxt := n\<rparr>" using assms by (auto simp: same_buttons_def)
  moreover have "\<exists>k. mem (write_link c v l) x = (mem l x)\<lparr>nxt := k\<rparr>"
    by (cases c) (auto simp: write_link_def intro: exI [of _ "nxt (mem l x)"])
  ultimately show "\<exists>n. mem l' x = (mem l x)\<lparr>nxt := n\<rparr>" by auto
qed

lemma stop_loop_removes:
  assumes "active l (ys @ xs)" "h \<notin> set ys"
  shows "\<exists>l'. stop_loop h (link_of ys) l = Some l' \<and> active l' (ys @ removeAll h xs) \<and> same_buttons l l'"
  using assms
proof (induction xs arbitrary: ys l)
  case Nil
  then have "lend (mem l) (head_handle l) ys = None"
    using linked_append [of "mem l" "head_handle l" ys "[]"] by (simp add: active_def)
  with Nil show ?case by (subst stop_loop.simps) (auto simp: read_link_lend)
next
  case (Cons x xs)
  from Cons.prems have rd: "read_link (link_of ys) l = Some x"
    by (auto simp: active_def linked_append read_link_lend)
  show ?case
  proof (cases "x = h")
    case True
    let ?l = "write_link (link_of ys) (nxt (mem l x)) l"
    obtain l' where "stop_loop h (link_of ys) ?l = Some l'" "active l' (ys @ removeAll h xs)" "same_buttons ?l l'"
      using Cons.IH [OF write_link_unlink [OF Cons.prems(1)] Cons.prems(2)] by blast
    with True rd show ?thesis by (subst stop_loop.simps) auto
  next
    case False
    obtain l' where "stop_loop h (link_of (ys @ [x])) l = Some l'" "active l' ((ys @ [x]) @ removeAll h xs)" "same_buttons l l'"
      using Cons.IH [of l "ys @ [x]"] Cons.prems False by auto
    with False rd show ?thesis by (subst stop_loop.simps) (auto simp: link_of_def)
  qed
qed

lemma handler_nxt [simp]: "nxt (fst (button_handler r b)) = nxt b"
  by (simp add: button_handler_def machine_def debounce_def Let_def)

lemma ticks_loop_linked:
  assumes "linked m p xs" "distinct xs"
  shows "ticks_loop pin p (m, out) = Some
    (\<lambda>x. if x \<in> set xs then fst (button_handler (pin x) (m x)) else m x,
     out @ concat (map (\<lambda>x. map (\<lambda>(ev, f). (x, ev, f)) (snd (button_handler (pin x) (m x)))) xs))"
  using assms
proof (induction xs arbitrary: m p out)
  case Nil
  then show ?case by (simp add: ticks_loop.simps)
next
  case (Cons x xs)
  let ?m = "m(x := fst (button_handler (pin x) (m x)))"
  have "linked ?m (nxt (m x)) xs" using Cons.prems linked_cong [of xs ?m m] by auto
  note ih = Cons.IH [OF this]
  have eq: "concat (map (\<lambda>y. map (\<lambda>(ev, f). (y, ev, f)) (snd (button_handler (pin y) (?m y)))) xs)
      = concat (map (\<lambda>y. map (\<lambda>(ev, f). (y, ev, f)) (snd (button_handler (pin y) (m y)))) xs)"
    using Cons.prems(2) by (intro arg_cong [where f = concat] map_cong) auto
  obtain b evs where h: "button_handler (pin x) (m x) = (b, evs)" by fastforce
  then have "nxt b = nxt (m x)" using handler_nxt [of "pin x" "m x"] by simp
  moreover have "(\<lambda>y. if y \<in> set xs then fst (button_handler (pin y) (?m y)) else ?m y)
      = (\<lambda>y. if y \<in> set (x # xs) then fst (button_handler (pin y) (m y)) else m y)"
    using Cons.prems(2) by (auto simp: fun_eq_iff)
  ultimately show ?case
    using ih [of "out @ map (\<lambda>(ev, f). (x, ev, f)) evs", unfolded eq] Cons.prems h
    by (subst ticks_loop.simps) (simp add: fun_upd_def)
qed

section \<open>Runs of one button\<close>

text \<open>One handler call per sampled level, with the callbacks of the whole run.\<close>

fun feed :: "u8 list \<Rightarrow> ('c, 'u) button \<Rightarrow> ('c, 'u) button \<times> (press_evt \<times> 'c) list" where
  "feed [] b = (b, [])"
| "feed (r # rs) b = (let (b1, e1) = button_handler r b; (b2, e2) = feed rs b1 in (b2, e1 @ e2))"

lemma feed_append:
  "feed (rs @ qs) b = (let (b1, e1) = feed rs b; (b2, e2) = feed qs b1 in (b2, e1 @ e2))"
  by (induction rs arbitrary: b) (simp_all add: Let_def split_beta)

lemma feed_app: "feed rs b = (b1, e1) \<Longrightarrow> feed qs b1 = (b2, e2) \<Longrightarrow> feed (rs @ qs) b = (b2, e1 @ e2)"
  by (simp add: feed_append)

text \<open>
  The button with the fields that the handler changes made explicit: state \<open>s\<close>, \<open>t\<close> ticks in
  that state, \<open>k\<close> presses, debounced level \<open>lv\<close>, \<open>c\<close> deviating samples, last event \<open>e\<close>.
\<close>

definition mk :: "('c, 'u) button \<Rightarrow> 3 word \<Rightarrow> nat \<Rightarrow> nat \<Rightarrow> 1 word \<Rightarrow> nat \<Rightarrow> press_evt \<Rightarrow> ('c, 'u) button" where
  "mk b s t k lv c e = b\<lparr>state := s, ticks := of_nat t, repeat := of_nat k, button_level := lv,
     debounce_cnt := of_nat c, event := e\<rparr>"

text \<open>The states in which the machine waits, up to a number of ticks.\<close>

definition quiet :: "3 word \<Rightarrow> bool \<Rightarrow> nat \<Rightarrow> bool" where
  "quiet s pressed t \<longleftrightarrow> (s = 1 \<and> pressed \<and> t \<le> 200) \<or> (s = 2 \<and> \<not> pressed \<and> t \<le> 80)
     \<or> (s = 3 \<and> pressed)"

lemma quiet_mono: "quiet s p t \<Longrightarrow> t' \<le> t \<Longrightarrow> quiet s p t'"
  by (auto simp: quiet_def)

lemma ticks_less: "n < 65536 \<Longrightarrow> (m::u16) < of_nat n \<longleftrightarrow> unat m < n"
  by (simp add: word_less_nat_alt unat_of_nat take_bit_eq_mod)

lemma ticks_less': "n < 65536 \<Longrightarrow> of_nat n < (m::u16) \<longleftrightarrow> n < unat m"
  by (simp add: word_less_nat_alt unat_of_nat take_bit_eq_mod)

lemma machine_quiet:
  assumes "quiet s (lv = active_level b) t"
  shows "machine (mk b s t k lv c e) = (mk b s t k lv c e, [])"
proof -
  have "\<not> (200::u16) < of_nat t" if "t \<le> 200" using that by (subst ticks_less) auto
  moreover have "\<not> (80::u16) < of_nat t" if "t \<le> 80" using that by (subst ticks_less) auto
  ultimately show ?thesis using assms
    by (auto simp: machine_def mk_def quiet_def Let_def)
qed

lemma debounce_same:
  "s \<noteq> 0 \<Longrightarrow> debounce (ucast lv) (mk b s t k lv c e) = mk b s (Suc t) k lv 0 e"
  by (simp add: debounce_def mk_def Let_def word_neq_0_conv [symmetric] add.commute)

lemma debounce_same_idle: "debounce (ucast lv) (mk b 0 t k lv c e) = mk b 0 t k lv 0 e"
  by (simp add: debounce_def mk_def Let_def)

lemma debounce_limit: "c < 6 \<Longrightarrow> DEBOUNCE_TICKS \<le> of_nat c + 1 \<longleftrightarrow> c = 5"
proof -
  assume c: "c < 6"
  have "unat (of_nat c + 1 :: 3 word) = Suc c"
    using c unat_of_nat [of "Suc c", where 'a = 3] by (simp add: add.commute take_bit_eq_mod)
  moreover have "unat (6 :: 3 word) = 6" by (simp add: take_bit_eq_mod)
  ultimately show ?thesis using c by (simp add: word_le_nat_alt) auto
qed

lemma debounce_count:
  assumes "c < 6" "rd \<noteq> ucast lv"
  shows "debounce rd (mk b s t k lv c e)
    = mk b s (if s = 0 then t else Suc t) k (if c = 5 then ucast rd else lv) (if c = 5 then 0 else Suc c) e"
  using assms debounce_limit [OF assms(1)]
  by (simp add: debounce_def mk_def Let_def word_neq_0_conv [symmetric] add.commute)

text \<open>A steady level in a waiting state only lets the tick counter run.\<close>

lemma feed_steady:
  assumes "quiet s (lv = active_level b) (t + n)" "n = 0 \<Longrightarrow> c = 0"
  shows "feed (replicate n (ucast lv)) (mk b s t k lv c e) = (mk b s (t + n) k lv 0 e, [])"
  using assms
proof (induction n arbitrary: t c)
  case 0
  then show ?case by simp
next
  case (Suc n)
  have s: "s \<noteq> 0" using Suc.prems by (auto simp: quiet_def)
  have "button_handler (ucast lv) (mk b s t k lv c e) = (mk b s (Suc t) k lv 0 e, [])"
    using machine_quiet [of s lv b "Suc t"] quiet_mono [OF Suc.prems(1)] s
    by (simp add: button_handler_def debounce_same)
  with Suc.IH [of "Suc t" 0] Suc.prems show ?case by simp
qed

text \<open>Fewer than six deviating samples only count; the sixth one changes the level.\<close>

lemma feed_bounce:
  assumes "c + n < 6" "rd \<noteq> ucast lv" "quiet s (lv = active_level b) (t + n)"
  shows "feed (replicate n rd) (mk b s t k lv c e) = (mk b s (t + n) k lv (c + n) e, [])"
  using assms
proof (induction n arbitrary: t c)
  case 0
  then show ?case by simp
next
  case (Suc n)
  have s: "s \<noteq> 0" using Suc.prems by (auto simp: quiet_def)
  have "button_handler rd (mk b s t k lv c e) = (mk b s (Suc t) k lv (Suc c) e, [])"
    using machine_quiet [of s lv b "Suc t"] quiet_mono [OF Suc.prems(3), of "Suc t"] s Suc.prems
    by (simp add: button_handler_def debounce_count)
  with Suc.IH [of "Suc c" "Suc t"] Suc.prems show ?case by simp
qed

lemma feed_change:
  assumes "rd \<noteq> ucast lv" "quiet s (lv = active_level b) (t + 5)"
  shows "feed (replicate 6 rd) (mk b s t k lv 0 e) = machine (mk b s (t + 6) k (ucast rd) 0 e)"
proof -
  have s: "s \<noteq> 0" using assms by (auto simp: quiet_def)
  have "feed (replicate 5 rd) (mk b s t k lv 0 e) = (mk b s (t + 5) k lv 5 e, [])"
    using feed_bounce [of 0 5 rd lv s b t k e] assms by simp
  moreover have "feed [rd] (mk b s (t + 5) k lv 5 e) = machine (mk b s (t + 6) k (ucast rd) 0 e)"
    using s assms(1) by (simp add: button_handler_def debounce_count split_beta add.commute)
  moreover have "replicate 6 rd = replicate 5 rd @ [rd]" by (simp add: numeral_eq_Suc)
  ultimately show ?thesis by (simp add: feed_append)
qed

text \<open>The level of the pressed and of the released pin.\<close>

definition down :: "('c, 'u) button \<Rightarrow> u8" where
  "down b = ucast (active_level b)"

definition up :: "('c, 'u) button \<Rightarrow> u8" where
  "up b = ucast (active_level b + 1)"

lemma ucast_level [simp]: "ucast (ucast (lv :: 1 word) :: u8) = lv"
  by (simp add: unsigned_ucast_eq take_bit_word_eq_self)

lemma level_inj: "(ucast (lv :: 1 word) :: u8) = ucast lv' \<longleftrightarrow> lv = lv'"
  by (metis ucast_level)

text \<open>A released button at rest, and the rest of a click up to the release.\<close>

definition at_rest :: "('c, 'u) button \<Rightarrow> bool" where
  "at_rest b \<longleftrightarrow> state b = 0 \<and> button_level b = active_level b + 1 \<and> debounce_cnt b = 0"

lemma at_rest_mk: "at_rest b \<Longrightarrow> \<exists>t k. b = mk b 0 t k (active_level b + 1) 0 (event b)"
  by (intro exI [of _ "unat (ticks b)"] exI [of _ "unat (repeat b)"] button.equality)
     (simp_all add: at_rest_def mk_def)

lemma machine_idle: "lv \<noteq> active_level b \<Longrightarrow> machine (mk b 0 t k lv c e) = (mk b 0 t k lv c NONE_PRESS, [])"
  by (simp add: machine_def mk_def Let_def)

lemma of_nat_4: "(of_nat n :: 4 word) = of_nat m \<longleftrightarrow> n mod 16 = m mod 16"
  by (simp add: word_of_nat_eq_iff take_bit_eq_mod)

lemma machine_press:
  "machine (mk b 0 t k (active_level b) c e) = (mk b 1 0 1 (active_level b) c PRESS_DOWN, EVENT_CB b PRESS_DOWN)"
  by (simp add: machine_def mk_def Let_def EVENT_CB_def)

lemma machine_release:
  "lv \<noteq> active_level b \<Longrightarrow> machine (mk b 1 t k lv c e) = (mk b 2 0 k lv c PRESS_UP, EVENT_CB b PRESS_UP)"
  by (simp add: machine_def mk_def Let_def EVENT_CB_def)

lemma machine_long:
  assumes "200 < t" "t < 65536"
  shows "machine (mk b 1 t k (active_level b) c e)
    = (mk b 5 t k (active_level b) c LONG_PRESS_START, EVENT_CB b LONG_PRESS_START)"
  using assms ticks_less [of t 200] by (simp add: machine_def mk_def Let_def EVENT_CB_def)

lemma machine_hold:
  "machine (mk b 5 t k (active_level b) c e) = (mk b 5 t k (active_level b) c LONG_PRESS_HOLD, EVENT_CB b LONG_PRESS_HOLD)"
  by (simp add: machine_def mk_def Let_def EVENT_CB_def)

lemma machine_again:
  "machine (mk b 2 t k (active_level b) c e) = (mk b 3 0 (Suc k) (active_level b) c PRESS_DOWN,
     EVENT_CB b PRESS_DOWN @ (if Suc k mod 16 = 2 then EVENT_CB b DOUBLE_CLICK else []) @ EVENT_CB b PRESS_REPEAT)"
proof -
  have "of_nat k + 1 = (2 :: 4 word) \<longleftrightarrow> Suc k mod 16 = 2"
    using of_nat_4 [of "Suc k" 2] by (simp add: add.commute numeral_2_eq_2)
  then show ?thesis by (simp add: machine_def mk_def Let_def EVENT_CB_def add.commute)
qed

lemma machine_release_again:
  assumes "lv \<noteq> active_level b" "t < 80"
  shows "machine (mk b 3 t k lv c e) = (mk b 2 0 k lv c PRESS_UP, EVENT_CB b PRESS_UP)"
  using assms ticks_less' [of t 80] by (simp add: machine_def mk_def Let_def EVENT_CB_def)

text \<open>The end of a series of \<open>k\<close> clicks, as the four-bit counter remembers it.\<close>

definition click_event :: "nat \<Rightarrow> press_evt" where
  "click_event k = (if k mod 16 = 1 then SINGLE_CLICK else if k mod 16 = 2 then DOUBLE_CLICK else PRESS_UP)"

lemma machine_timeout:
  assumes "lv \<noteq> active_level b" "80 < t" "t < 65536"
  shows "machine (mk b 2 t k lv c PRESS_UP)
    = (mk b 0 t k lv c (click_event k), if k mod 16 = 1 then EVENT_CB b SINGLE_CLICK else [])"
  using assms ticks_less [of t 80] of_nat_4 [of k 1] of_nat_4 [of k 2]
  by (simp add: machine_def mk_def Let_def EVENT_CB_def click_event_def)

lemma feed_idle_bounce:
  assumes "c + n < 6" "lv \<noteq> active_level b" "rd \<noteq> ucast lv" "0 < n"
  shows "feed (replicate n rd) (mk b 0 t k lv c e) = (mk b 0 t k lv (c + n) NONE_PRESS, [])"
  using assms
proof (induction n arbitrary: c e)
  case (Suc n)
  have "button_handler rd (mk b 0 t k lv c e) = (mk b 0 t k lv (Suc c) NONE_PRESS, [])"
    using Suc.prems by (simp add: button_handler_def debounce_count machine_idle)
  with Suc show ?case by (cases n) simp_all
qed simp

lemma first_press:
  assumes "at_rest b"
  shows "feed (replicate 6 (down b)) b = (mk b 1 0 1 (active_level b) 0 PRESS_DOWN, EVENT_CB b PRESS_DOWN)"
proof -
  obtain t k where b: "b = mk b 0 t k (active_level b + 1) 0 (event b)" using at_rest_mk [OF assms] by blast
  have ne: "down b \<noteq> ucast (active_level b + 1)" by (simp add: down_def level_inj)
  have "feed (replicate 5 (down b)) b = (mk b 0 t k (active_level b + 1) 5 NONE_PRESS, [])"
    using feed_idle_bounce [of 0 5 "active_level b + 1" b "down b" t k "event b"] ne b by simp
  moreover have "feed [down b] (mk b 0 t k (active_level b + 1) 5 NONE_PRESS)
      = (mk b 1 0 1 (active_level b) 0 PRESS_DOWN, EVENT_CB b PRESS_DOWN)"
    using ne by (simp add: button_handler_def debounce_count split_beta machine_press down_def)
  moreover have "replicate 6 (down b) = replicate 5 (down b) @ [down b]" by (simp add: numeral_eq_Suc)
  ultimately show ?thesis by (simp add: feed_append)
qed

text \<open>
  A click of \<open>dn\<close> pressed and \<open>gap\<close> released samples: seen from rest it leads into the
  released waiting state, seen from there it counts one more press.
\<close>

lemma released_steady:
  assumes "6 \<le> gap" "gap \<le> 86"
  shows "feed (replicate (gap - 6) (up b)) (mk b 2 0 k (active_level b + 1) 0 e)
    = (mk b 2 (gap - 6) k (active_level b + 1) 0 e, [])"
  using feed_steady [of 2 "active_level b + 1" b 0 "gap - 6" 0 k e] assms by (simp add: quiet_def up_def)

lemma release_phase:
  assumes s: "s = 1 \<or> s = 3" and dn: "6 \<le> dn" "dn < 80" and gap: "6 \<le> gap" "gap \<le> 86"
  shows "feed (replicate (dn - 6) (down b) @ replicate gap (up b)) (mk b s 0 k (active_level b) 0 e)
    = (mk b 2 (gap - 6) k (active_level b + 1) 0 PRESS_UP, EVENT_CB b PRESS_UP)"
proof -
  have 1: "feed (replicate (dn - 6) (down b)) (mk b s 0 k (active_level b) 0 e)
      = (mk b s (dn - 6) k (active_level b) 0 e, [])"
    using feed_steady [of s "active_level b" b 0 "dn - 6" 0 k e] s dn by (auto simp: quiet_def down_def)
  have "up b \<noteq> ucast (active_level b)" by (simp add: up_def level_inj)
  from feed_change [OF this, of s b "dn - 6" k e] s dn
  have "feed (replicate 6 (up b)) (mk b s (dn - 6) k (active_level b) 0 e)
      = machine (mk b s dn k (active_level b + 1) 0 e)"
    by (auto simp: quiet_def up_def)
  with s dn have 2: "feed (replicate 6 (up b)) (mk b s (dn - 6) k (active_level b) 0 e)
      = (mk b 2 0 k (active_level b + 1) 0 PRESS_UP, EVENT_CB b PRESS_UP)"
    by (auto simp: machine_release machine_release_again)
  have "replicate gap (up b) = replicate 6 (up b) @ replicate (gap - 6) (up b)"
    using gap by (simp add: replicate_add [symmetric])
  with feed_app [OF 1 feed_app [OF 2 released_steady [OF gap]]] show ?thesis by simp
qed

lemma down_split: "6 \<le> dn \<Longrightarrow> replicate dn (down b) = replicate 6 (down b) @ replicate (dn - 6) (down b)"
  by (simp add: replicate_add [symmetric])

lemma first_click:
  assumes "at_rest b" "6 \<le> dn" "dn < 80" "6 \<le> gap" "gap \<le> 86"
  shows "feed (replicate dn (down b) @ replicate gap (up b)) b
    = (mk b 2 (gap - 6) 1 (active_level b + 1) 0 PRESS_UP, EVENT_CB b PRESS_DOWN @ EVENT_CB b PRESS_UP)"
  using feed_app [OF first_press [OF assms(1)] release_phase [of 1 dn gap b 1 PRESS_DOWN]] assms
  unfolding down_split [OF assms(2)] append_assoc by simp

lemma next_click:
  assumes "6 \<le> gap0" "gap0 \<le> 81" and "6 \<le> dn" "dn < 80" "6 \<le> gap" "gap \<le> 81"
  shows "feed (replicate dn (down b) @ replicate gap (up b)) (mk b 2 (gap0 - 6) k (active_level b + 1) 0 PRESS_UP)
    = (mk b 2 (gap - 6) (Suc k) (active_level b + 1) 0 PRESS_UP,
       EVENT_CB b PRESS_DOWN @ (if Suc k mod 16 = 2 then EVENT_CB b DOUBLE_CLICK else []) @ EVENT_CB b PRESS_REPEAT
       @ EVENT_CB b PRESS_UP)"
proof -
  have "down b \<noteq> ucast (active_level b + 1)" by (simp add: down_def level_inj)
  from feed_change [OF this, of 2 b "gap0 - 6" k PRESS_UP] assms
  have 1: "feed (replicate 6 (down b)) (mk b 2 (gap0 - 6) k (active_level b + 1) 0 PRESS_UP)
      = (mk b 3 0 (Suc k) (active_level b) 0 PRESS_DOWN,
         EVENT_CB b PRESS_DOWN @ (if Suc k mod 16 = 2 then EVENT_CB b DOUBLE_CLICK else []) @ EVENT_CB b PRESS_REPEAT)"
    by (simp add: quiet_def down_def machine_again)
  from feed_app [OF 1 release_phase [of 3 dn gap b "Suc k" PRESS_DOWN]] assms show ?thesis
    unfolding down_split [OF assms(3)] append_assoc by simp
qed

text \<open>A series of clicks: for each, the number of pressed and of released samples.\<close>

definition click_samples :: "('c, 'u) button \<Rightarrow> (nat \<times> nat) list \<Rightarrow> u8 list" where
  "click_samples b cs = concat (map (\<lambda>(dn, gap). replicate dn (down b) @ replicate gap (up b)) cs)"

definition click_ok :: "nat \<times> nat \<Rightarrow> bool" where
  "click_ok c \<longleftrightarrow> 6 \<le> fst c \<and> fst c < 80 \<and> 6 \<le> snd c \<and> snd c \<le> 81"

lemma many_clicks:
  assumes "at_rest b" and "cs \<noteq> []" and "\<forall>c \<in> set cs. click_ok c"
  shows "\<exists>evs. feed (click_samples b cs) b = (mk b 2 (snd (last cs) - 6) (length cs) (active_level b + 1) 0 PRESS_UP, evs)
    \<and> SINGLE_CLICK \<notin> fst ` set evs"
  using assms(2,3)
proof (induction cs rule: rev_nonempty_induct)
  case (single c)
  obtain dn gap where c: "c = (dn, gap)" by (cases c)
  from single c have "6 \<le> dn" "dn < 80" "6 \<le> gap" "gap \<le> 86" by (simp_all add: click_ok_def)
  from first_click [OF assms(1) this] show ?case by (auto simp: c click_samples_def EVENT_CB_def split: option.splits)
next
  case (snoc c cs)
  obtain dn gap where c: "c = (dn, gap)" by (cases c)
  from snoc obtain evs where e: "feed (click_samples b cs) b
      = (mk b 2 (snd (last cs) - 6) (length cs) (active_level b + 1) 0 PRESS_UP, evs)" "SINGLE_CLICK \<notin> fst ` set evs" by auto
  have "6 \<le> snd (last cs)" "snd (last cs) \<le> 81" "6 \<le> dn" "dn < 80" "6 \<le> gap" "gap \<le> 81"
    using snoc c by (simp_all add: click_ok_def)
  from feed_app [OF e(1) next_click [OF this]] e(2) show ?case
    by (auto simp: c click_samples_def EVENT_CB_def split: option.splits if_splits)
qed

section \<open>Properties\<close>

text \<open>C32: Counting clicks. From rest, a series of presses of 6 to 79 samples, each followed by 6 to 81
  released samples (the lengths may differ from press to press), and then the time-out of the series, leave the button at rest with the
  number \<open>n\<close> of presses modulo 16: the single-click callback is made exactly when \<open>n mod 16 = 1\<close>, and the
  event left for polling is single click, double click or release by \<open>n mod 16\<close>. So a
  series of at most sixteen presses is classified by its length, and one of seventeen is
  taken for a single click, because the counter has four bits.\<close>

theorem click_series:
  assumes "at_rest b" and "cs \<noteq> []" and "\<forall>c \<in> set cs. click_ok c"
  shows "\<exists>b' evs. feed (click_samples b cs @ replicate (87 - snd (last cs)) (up b)) b = (b', evs)
     \<and> at_rest b' \<and> repeat b' = of_nat (length cs) \<and> button_get_event b' = click_event (length cs)
     \<and> filter (\<lambda>(ev, _). ev = SINGLE_CLICK) evs = (if length cs mod 16 = 1 then EVENT_CB b SINGLE_CLICK else [])"
proof -
  let ?gap = "snd (last cs)" and ?n = "length cs"
  obtain evs where e: "feed (click_samples b cs) b
      = (mk b 2 (?gap - 6) ?n (active_level b + 1) 0 PRESS_UP, evs)" "SINGLE_CLICK \<notin> fst ` set evs"
    using many_clicks [OF assms] by blast
  have gap: "6 \<le> ?gap" "?gap \<le> 81" using assms(2,3) by (simp_all add: click_ok_def)
  let ?m = "\<lambda>t. mk b 2 t ?n (active_level b + 1) 0 PRESS_UP"
  let ?out = "if ?n mod 16 = 1 then EVENT_CB b SINGLE_CLICK else []"
  let ?b = "mk b 0 81 ?n (active_level b + 1) 0 (click_event ?n)"
  have 1: "feed (replicate (86 - ?gap) (up b)) (?m (?gap - 6)) = (?m 80, [])"
    using feed_steady [of 2 "active_level b + 1" b "?gap - 6" "86 - ?gap" 0 ?n PRESS_UP] gap
    by (simp add: quiet_def up_def)
  have 2: "feed [up b] (?m 80) = (?b, ?out)"
    using machine_timeout [of "active_level b + 1" b 81 ?n 0]
    by (simp add: button_handler_def up_def debounce_same)
  have "replicate (87 - ?gap) (up b) = replicate (86 - ?gap) (up b) @ [up b]"
    using gap(2) by (simp add: replicate_append_same Suc_diff_le flip: replicate_Suc)
  with feed_app [OF e(1) feed_app [OF 1 2]] have "feed (click_samples b cs @ replicate (87 - ?gap) (up b)) b = (?b, evs @ ?out)" by simp
  moreover have "at_rest ?b" "repeat ?b = of_nat ?n" "event ?b = click_event ?n"
    by (simp_all add: at_rest_def mk_def)
  moreover have single: "(SINGLE_CLICK, f) \<notin> set evs" for f using e(2) by force
  have "filter (\<lambda>(ev, _). ev = SINGLE_CLICK) (evs @ ?out) = ?out"
    using single by (auto simp: EVENT_CB_def filter_empty_conv split: option.splits)
  ultimately show ?thesis unfolding button_get_event_def by blast
qed

text \<open>Seventeen presses, the last longer than the others.\<close>

theorem click_series_witness:
  "\<exists>b' evs. feed (click_samples (button_attach (button_init 0 1 ()) SINGLE_CLICK (5 :: nat)) (replicate 16 (10, 20) @ [(70, 30)]) @ replicate (87 - 30) 0)
       (button_attach (button_init 0 1 ()) SINGLE_CLICK (5 :: nat)) = (b', evs)
     \<and> repeat b' = 1 \<and> filter (\<lambda>(ev, _). ev = SINGLE_CLICK) evs = [(SINGLE_CLICK, 5)]"
proof -
  let ?b = "button_attach (button_init 0 1 ()) SINGLE_CLICK (5 :: nat)" and ?cs = "replicate 16 (10, 20) @ [(70, 30)] :: (nat \<times> nat) list"
  have r: "at_rest ?b" "up ?b = 0" "EVENT_CB ?b SINGLE_CLICK = [(SINGLE_CLICK, 5)]"
    by (simp_all add: at_rest_def button_attach_def button_init_def up_def EVENT_CB_def)
  have c: "?cs \<noteq> []" "\<forall>c \<in> set ?cs. click_ok c" "snd (last ?cs) = 30" "length ?cs = 17" by (simp_all add: click_ok_def)
  from click_series [OF r(1) c(1,2), unfolded r(2,3) c(3,4)]
  obtain b' evs where "feed (click_samples ?b ?cs @ replicate (87 - 30) 0) ?b = (b', evs)"
    "repeat b' = of_nat 17" "filter (\<lambda>(ev, _). ev = SINGLE_CLICK) evs = [(SINGLE_CLICK, 5)]" by auto
  then show ?thesis by (intro exI [of _ b'] exI [of _ evs]) simp
qed

text \<open>A long press. From rest, a press of 206 samples has made the press-down callback only;
  the next sample starts the long press, and each further sample while the pin stays down
  makes one hold callback, for any length of time.\<close>

theorem long_press:
  assumes "at_rest b"
  shows "snd (feed (replicate 206 (down b)) b) = EVENT_CB b PRESS_DOWN
    \<and> snd (feed (replicate (207 + n) (down b)) b)
      = EVENT_CB b PRESS_DOWN @ EVENT_CB b LONG_PRESS_START @ concat (replicate n (EVENT_CB b LONG_PRESS_HOLD))"
proof -
  let ?m = "\<lambda>s t e. mk b s t 1 (active_level b) 0 e"
  have 1: "feed (replicate 200 (down b)) (?m 1 0 PRESS_DOWN) = (?m 1 200 PRESS_DOWN, [])"
    using feed_steady [of 1 "active_level b" b 0 200 0 1 PRESS_DOWN] by (simp add: quiet_def down_def)
  have 2: "feed [down b] (?m 1 200 PRESS_DOWN) = (?m 5 201 LONG_PRESS_START, EVENT_CB b LONG_PRESS_START)"
    by (simp add: button_handler_def down_def debounce_same machine_long)
  have 3: "\<exists>t e. feed (replicate n (down b)) (?m 5 201 LONG_PRESS_START)
      = (?m 5 t e, concat (replicate n (EVENT_CB b LONG_PRESS_HOLD)))"
  proof (induction n)
    case 0
    then show ?case by auto
  next
    case (Suc n)
    then obtain t e where f: "feed (replicate n (down b)) (?m 5 201 LONG_PRESS_START)
      = (?m 5 t e, concat (replicate n (EVENT_CB b LONG_PRESS_HOLD)))" by blast
    have g: "feed [down b] (?m 5 t e) = (?m 5 (Suc t) LONG_PRESS_HOLD, EVENT_CB b LONG_PRESS_HOLD)"
      by (simp add: button_handler_def down_def debounce_same machine_hold)
    have "replicate (Suc n) x = replicate n x @ [x]" for x :: u8 by (simp add: replicate_append_same)
    moreover have "concat (replicate (Suc n) xs) = concat (replicate n xs) @ xs" for xs :: "(press_evt \<times> 'a) list"
      by (induction n) simp_all
    ultimately show ?case using feed_app [OF f g] by auto
  qed
  have a: "feed (replicate 206 (down b)) b = (?m 1 200 PRESS_DOWN, EVENT_CB b PRESS_DOWN)"
  proof -
    have "replicate 206 (down b) = replicate (6 + 200) (down b)" by simp
    also have "\<dots> = replicate 6 (down b) @ replicate 200 (down b)" by (simp only: replicate_add)
    finally show ?thesis using feed_app [OF first_press [OF assms] 1] by simp
  qed
  have "replicate (207 + n) (down b) = replicate 206 (down b) @ [down b] @ replicate n (down b)"
  proof -
    have "replicate (207 + n) (down b) = replicate (206 + (1 + n)) (down b)" by simp
    also have "\<dots> = replicate 206 (down b) @ replicate 1 (down b) @ replicate n (down b)"
      by (simp only: replicate_add)
    finally show ?thesis by simp
  qed
  with 3 feed_app [OF a feed_app [OF 2]] a show ?thesis by fastforce
qed

theorem long_press_witness:
  "snd (feed (replicate (207 + 3) 1) (button_attach (button_init 0 1 ()) LONG_PRESS_HOLD (9 :: nat)))
     = [(LONG_PRESS_HOLD, 9), (LONG_PRESS_HOLD, 9), (LONG_PRESS_HOLD, 9)]"
proof -
  let ?b = "button_attach (button_init 0 1 ()) LONG_PRESS_HOLD (9 :: nat)"
  have r: "at_rest ?b" "down ?b = 1" "EVENT_CB ?b PRESS_DOWN = []" "EVENT_CB ?b LONG_PRESS_START = []"
    "EVENT_CB ?b LONG_PRESS_HOLD = [(LONG_PRESS_HOLD, 9)]"
    by (simp_all add: at_rest_def button_attach_def button_init_def down_def EVENT_CB_def)
  have "concat (replicate 3 [x]) = [x, x, x]" for x :: "press_evt \<times> nat" by (simp add: numeral_eq_Suc)
  with long_press [OF r(1), of 3, unfolded r(2-5)] show ?thesis by (simp only: append_Nil)
qed

lemma handler_level:
  "button_level (fst (button_handler r b)) = button_level (debounce r b)"
  "debounce_cnt (fst (button_handler r b)) = debounce_cnt (debounce r b)"
  unfolding button_handler_def machine_def Let_def by simp_all

lemma debounce_cases:
  assumes "unat (debounce_cnt b) < 6"
  shows "button_level (debounce r b) = (if r \<noteq> ucast (button_level b) \<and> unat (debounce_cnt b) = 5 then ucast r else button_level b)"
    and "unat (debounce_cnt (debounce r b)) =
      (if r = ucast (button_level b) \<or> unat (debounce_cnt b) = 5 then 0 else Suc (unat (debounce_cnt b)))"
proof -
  let ?c = "unat (debounce_cnt b)"
  have "unat (of_nat (Suc ?c) :: 3 word) = Suc ?c" using assms by (simp only: unat_of_nat take_bit_eq_mod) simp
  moreover have "of_nat (Suc ?c) = debounce_cnt b + 1" by (simp add: add.commute)
  ultimately have u: "unat (debounce_cnt b + 1) = Suc ?c" by (simp only:)
  have l: "DEBOUNCE_TICKS \<le> debounce_cnt b + 1 \<longleftrightarrow> ?c = 5"
    using debounce_limit [OF assms] by simp
  show "button_level (debounce r b) = (if r \<noteq> ucast (button_level b) \<and> ?c = 5 then ucast r else button_level b)"
    by (simp add: debounce_def Let_def l)
  show "unat (debounce_cnt (debounce r b)) = (if r = ucast (button_level b) \<or> ?c = 5 then 0 else Suc ?c)"
    by (simp add: debounce_def Let_def l u)
qed

lemma feed_Cons_fst: "fst (feed (r # rs) b) = fst (feed rs (fst (button_handler r b)))"
  by (simp add: split_beta Let_def)

text \<open>With \<open>c\<close> deviating samples already counted, the level changes only after \<open>6 - c\<close> more in a
  row, or after six in a row later.\<close>

lemma level_change_run:
  assumes "unat (debounce_cnt b) < 6" "button_level (fst (feed rs b)) \<noteq> button_level b"
  shows "(\<exists>vs ws. rs = vs @ ws \<and> length vs + unat (debounce_cnt b) = 6 \<and> (\<forall>v \<in> set vs. v \<noteq> ucast (button_level b)))
    \<or> (\<exists>us vs ws. rs = us @ vs @ ws \<and> length vs = 6 \<and> (\<forall>v \<in> set vs. v \<noteq> ucast (button_level b)))"
  using assms
proof (induction rs arbitrary: b)
  case Nil
  then show ?case by simp
next
  case (Cons r rs)
  let ?b = "fst (button_handler r b)" and ?c = "unat (debounce_cnt b)"
  show ?case
  proof (cases "r \<noteq> ucast (button_level b) \<and> ?c = 5")
    case True
    then show ?thesis by (intro disjI1 exI [of _ "[r]"] exI [of _ rs]) simp
  next
    case False
    have lv: "button_level ?b = button_level b"
      using False debounce_cases(1) [OF Cons.prems(1), of r] by (auto simp: handler_level)
    have c: "unat (debounce_cnt ?b) = (if r = ucast (button_level b) then 0 else Suc ?c)"
      using False debounce_cases(2) [OF Cons.prems(1), of r] by (auto simp: handler_level)
    have c6: "unat (debounce_cnt ?b) < 6" using c False Cons.prems(1) by (auto split: if_splits)
    from Cons.IH [OF c6] Cons.prems(2) lv
    consider vs ws where "rs = vs @ ws" "length vs + unat (debounce_cnt ?b) = 6" "\<forall>v \<in> set vs. v \<noteq> ucast (button_level b)"
      | us vs ws where "rs = us @ vs @ ws" "length vs = 6" "\<forall>v \<in> set vs. v \<noteq> ucast (button_level b)"
      by (auto simp: feed_Cons_fst simp del: feed.simps)
    then show ?thesis
    proof cases
      case 1
      show ?thesis
      proof (cases "r = ucast (button_level b)")
        case True
        with 1 c show ?thesis by (intro disjI2 exI [of _ "[r]"] exI [of _ vs] exI [of _ ws]) simp
      next
        case F: False
        with 1 c show ?thesis by (intro disjI1 exI [of _ "r # vs"] exI [of _ ws]) simp
      qed
    next
      case 2
      then show ?thesis by (intro disjI2 exI [of _ "r # us"] exI [of _ vs] exI [of _ ws]) simp
    qed
  qed
qed

text \<open>Debouncing. The debounced level differs after a run from what it was before only if the
  samples of the run contain six in a row that deviate from the old level; conversely six
  deviating samples in a row do change it.\<close>

theorem debounce_six:
  assumes "debounce_cnt b = 0"
  shows "(button_level (fst (feed rs b)) \<noteq> button_level b \<longrightarrow>
       (\<exists>us vs ws. rs = us @ vs @ ws \<and> length vs = 6 \<and> (\<forall>v \<in> set vs. v \<noteq> ucast (button_level b))))
    \<and> (button_level (fst (feed (replicate 6 (ucast (button_level b + 1))) b)) = button_level b + 1)"
proof -
  have runs: "\<exists>us vs ws. rs = us @ vs @ ws \<and> length vs = 6 \<and> (\<forall>v \<in> set vs. v \<noteq> ucast (button_level b))"
    if "button_level (fst (feed rs b)) \<noteq> button_level b"
  proof -
    from level_change_run [of b rs] that assms
    consider vs ws where "rs = [] @ vs @ ws" "length vs = 6" "\<forall>v \<in> set vs. v \<noteq> ucast (button_level b)"
      | us vs ws where "rs = us @ vs @ ws" "length vs = 6" "\<forall>v \<in> set vs. v \<noteq> ucast (button_level b)"
      by auto
    then show ?thesis by cases blast+
  qed
  have "button_level (fst (feed (replicate n (ucast (button_level b + 1))) b)) = button_level b
      \<and> unat (debounce_cnt (fst (feed (replicate n (ucast (button_level b + 1))) b))) = n" if "n < 6" for n
    using that
  proof (induction n)
    case 0
    then show ?case using assms by simp
  next
    case (Suc n)
    have "replicate (Suc n) x = replicate n x @ [x]" for x :: u8 by (simp add: replicate_append_same)
    moreover have "(ucast (button_level b + 1) :: u8) \<noteq> ucast (button_level b)" by (simp add: level_inj)
    ultimately show ?case using Suc debounce_cases [of "fst (feed (replicate n (ucast (button_level b + 1))) b)"]
      by (simp add: feed_append split_beta Let_def handler_level del: replicate.simps)
  qed
  note five = this [of 5]
  have "replicate 6 x = replicate 5 x @ [x]" for x :: u8 by (simp add: numeral_eq_Suc)
  moreover have "(ucast (button_level b + 1) :: u8) \<noteq> ucast (button_level b)" by (simp add: level_inj)
  ultimately have "button_level (fst (feed (replicate 6 (ucast (button_level b + 1))) b)) = button_level b + 1"
    using five debounce_cases(1) [of "fst (feed (replicate 5 (ucast (button_level b + 1))) b)"]
    by (simp add: feed_append split_beta Let_def handler_level del: replicate.simps)
  with runs show ?thesis by blast
qed

theorem debounce_six_witness:
  "\<exists>us vs ws. [1, 1, 0, 1, 1, 1, 1, 1, 1] = us @ vs @ ws \<and> length vs = 6 \<and> set vs = {1 :: u8}
     \<and> button_level (fst (feed [1, 1, 0, 1, 1, 1, 1, 1, 1] (button_init 0 1 () :: (nat, unit) button))) = 1"
proof -
  let ?b = "button_init 0 1 () :: (nat, unit) button" and ?rs = "[1, 1, 0, 1, 1, 1, 1, 1, 1] :: u8 list"
  have c: "debounce_cnt ?b = 0" and l: "button_level ?b = 0" by (simp_all add: button_init_def)
  have "button_level (fst (feed ?rs ?b)) = 1" by code_simp
  with debounce_six [OF c, of ?rs] l obtain us vs ws where v: "?rs = us @ vs @ ws" "length vs = 6"
    "\<forall>v \<in> set vs. v \<noteq> ucast (0 :: 1 word)" by auto
  have "set vs \<subseteq> set ?rs" using v(1) by (metis Un_upper1 Un_upper2 set_append subset_trans)
  moreover have "set ?rs = {0, 1}" by auto
  ultimately have "set vs \<subseteq> {1}" using v(3) by auto
  moreover have "vs \<noteq> []" using v(2) by auto
  ultimately have "set vs = {1}" by (simp add: subset_singleton_iff)
  with v(1,2) \<open>button_level (fst (feed ?rs ?b)) = 1\<close> show ?thesis by blast
qed

text \<open>The linked list of active buttons behaves as a list: in a memory whose \<open>next\<close> pointers
  from \<open>head_handle\<close> visit the distinct buttons \<open>xs\<close>, every walk ends; \<open>button_start\<close> puts a new
  button in front and refuses one that is already there, \<open>button_stop\<close> takes the button out
  wherever it is and touches nothing but links, \<open>button_find_with_user_data\<close> finds the first
  button with the user data, and \<open>button_ticks\<close> handles each button once, in list order.\<close>

theorem button_list_refines:
  assumes act: "active l xs"
  shows "(\<exists>l'. button_start h l = Some (if h \<in> set xs then (-1, l) else (0, l')) \<and> (h \<in> set xs \<or> active l' (h # xs)))
    \<and> (\<exists>l'. button_stop h l = Some l' \<and> active l' (removeAll h xs) \<and> same_buttons l l')
    \<and> button_find_with_user_data u l = Some (List.find (\<lambda>x. user_data (mem l x) = u) xs)
    \<and> (\<exists>l'. button_ticks pin l = Some (l', concat (map (\<lambda>x. map (\<lambda>(ev, f). (x, ev, f))
              (snd (button_handler (pin x) (mem l x)))) xs)) \<and> active l' xs
         \<and> mem l' = (\<lambda>x. if x \<in> set xs then fst (button_handler (pin x) (mem l x)) else mem l x))"
proof (intro conjI)
  have link: "linked (mem l) (head_handle l) xs" and dist: "distinct xs" using act by (simp_all add: active_def)
  let ?l = "l\<lparr>mem := (mem l)(h := (mem l h)\<lparr>nxt := head_handle l\<rparr>), head_handle := Some h\<rparr>"
  have "active ?l (h # xs)" if "h \<notin> set xs"
  proof -
    have "linked (mem ?l) (head_handle l) xs = linked (mem l) (head_handle l) xs"
      by (rule linked_cong) (use that in auto)
    with that link dist show ?thesis by (simp add: active_def)
  qed
  then show "\<exists>l'. button_start h l = Some (if h \<in> set xs then (-1, l) else (0, l')) \<and> (h \<in> set xs \<or> active l' (h # xs))"
    by (auto simp: button_start_def on_list_linked [OF link] intro!: exI [of _ ?l])
  show "\<exists>l'. button_stop h l = Some l' \<and> active l' (removeAll h xs) \<and> same_buttons l l'"
    using stop_loop_removes [of l "[]" xs h] act by (simp add: button_stop_def link_of_def)
  show "button_find_with_user_data u l = Some (List.find (\<lambda>x. user_data (mem l x) = u) xs)"
    by (simp add: button_find_with_user_data_def find_loop_linked [OF link])
  let ?m = "\<lambda>x. if x \<in> set xs then fst (button_handler (pin x) (mem l x)) else mem l x"
  have "linked ?m (head_handle l) xs = linked (mem l) (head_handle l) xs" by (rule linked_cong) simp
  with link dist have "active (l\<lparr>mem := ?m\<rparr>) xs" by (simp add: active_def)
  with ticks_loop_linked [OF link dist, of pin "[]"]
  show "\<exists>l'. button_ticks pin l = Some (l', concat (map (\<lambda>x. map (\<lambda>(ev, f). (x, ev, f))
              (snd (button_handler (pin x) (mem l x)))) xs)) \<and> active l' xs \<and> mem l' = ?m"
    by (intro exI [of _ "l\<lparr>mem := ?m\<rparr>"]) (simp add: button_ticks_def)
qed

theorem button_list_refines_witness:
  "\<exists>l l' :: (nat, nat) button_list. active l [4, 2] \<and> button_stop 2 l = Some l' \<and> active l' [4]
     \<and> button_find_with_user_data 7 l = Some (Some 4)"
proof -
  let ?l = "\<lparr>mem = (\<lambda>x. (button_init 0 1 7)\<lparr>nxt := (if x = 4 then Some 2 else None)\<rparr>), head_handle = Some 4\<rparr>
    :: (nat, nat) button_list"
  have a: "active ?l [4, 2]" by (simp add: active_def)
  have u: "user_data (mem ?l 4) = 7" by (simp add: button_init_def)
  from button_list_refines [OF a, of 2 7] a u show ?thesis by fastforce
qed

end
