(* ===== verification/Doubly_List.thy ===== *)
theory Doubly_List
  imports Prelude
begin

text \<open>
  The intrusive doubly linked lists of \<^verbatim>\<open>include/doubly_list.h\<close>. A \<^verbatim>\<open>struct list_head\<close> is a node
  of some type \<open>'n\<close> of places that carry one; the two pointers of every node are a pair of maps
  (\<open>None\<close> is NULL). Every inline function is a program over the pointers, in the order of its
  assignments, and reading or writing through NULL is the fault \<open>Null_Deref\<close>. The walks
  \<^verbatim>\<open>list_for_each_safe\<close> and \<^verbatim>\<open>list_for_each_entry\<close> may not end.

  The meaning is \<open>ring\<close>: a head and a list of distinct nodes that the pointers link in both
  directions. Each function is shown to do to the list what its comment says. The
  locale \<open>ring_walk\<close> is what a component relies on to walk a list it owns.
\<close>

section \<open>The functions of the header\<close>

record 'n links =
  lnext :: "'n \<Rightarrow> 'n option"
  lprev :: "'n \<Rightarrow> 'n option"

definition deref :: "'n option \<Rightarrow> ('s, 'n) prog" where
  "deref p = (case p of None \<Rightarrow> failM Null_Deref | Some n \<Rightarrow> retM n)"

definition set_next :: "'n option \<Rightarrow> 'n option \<Rightarrow> ('n links, unit) prog" where
  "set_next p v = bindM (deref p) (\<lambda>n. modM (\<lambda>l. l\<lparr>lnext := (lnext l)(n := v)\<rparr>))"

definition set_prev :: "'n option \<Rightarrow> 'n option \<Rightarrow> ('n links, unit) prog" where
  "set_prev p v = bindM (deref p) (\<lambda>n. modM (\<lambda>l. l\<lparr>lprev := (lprev l)(n := v)\<rparr>))"

definition INIT_LIST_HEAD :: "'n \<Rightarrow> ('n links, unit) prog" where
  "INIT_LIST_HEAD p = thenM (set_next (Some p) (Some p)) (set_prev (Some p) (Some p))"

definition list_add0 :: "'n \<Rightarrow> 'n option \<Rightarrow> 'n option \<Rightarrow> ('n links, unit) prog" where
  "list_add0 new_node prev nxt =
     thenM (set_prev nxt (Some new_node))
    (thenM (set_next (Some new_node) nxt)
    (thenM (set_prev (Some new_node) prev)
           (set_next prev (Some new_node))))"

definition list_add_head :: "'n \<Rightarrow> 'n \<Rightarrow> ('n links, unit) prog" where
  "list_add_head new_node head = bindM (getM (\<lambda>l. lnext l head)) (\<lambda>nxt. list_add0 new_node (Some head) nxt)"

definition list_add_tail :: "'n \<Rightarrow> 'n \<Rightarrow> ('n links, unit) prog" where
  "list_add_tail new_node head = bindM (getM (\<lambda>l. lprev l head)) (\<lambda>prev. list_add0 new_node prev (Some head))"

definition list_del0 :: "'n option \<Rightarrow> 'n option \<Rightarrow> ('n links, unit) prog" where
  "list_del0 prev nxt = thenM (set_prev nxt prev) (set_next prev nxt)"

definition list_del :: "'n \<Rightarrow> ('n links, unit) prog" where
  "list_del entry = bindM (getM (\<lambda>l. (lprev l entry, lnext l entry))) (\<lambda>(prev, nxt). list_del0 prev nxt)"

definition list_del_init :: "'n \<Rightarrow> ('n links, unit) prog" where
  "list_del_init entry = thenM (list_del entry) (INIT_LIST_HEAD entry)"

definition list_move :: "'n \<Rightarrow> 'n \<Rightarrow> ('n links, unit) prog" where
  "list_move entry head = thenM (list_del entry) (list_add_head entry head)"

definition list_move_tail :: "'n \<Rightarrow> 'n \<Rightarrow> ('n links, unit) prog" where
  "list_move_tail entry head = thenM (list_del entry) (list_add_tail entry head)"

definition list_empty :: "'n \<Rightarrow> ('n links, bool) prog" where
  "list_empty head = getM (\<lambda>l. lnext l head = Some head)"

definition list_splice0 :: "'n \<Rightarrow> 'n \<Rightarrow> ('n links, unit) prog" where
  "list_splice0 lst head =
     bindM (getM (\<lambda>l. (lnext l lst, lprev l lst, lnext l head))) (\<lambda>(first, last, at).
     thenM (set_prev first (Some head))
    (thenM (set_next (Some head) first)
    (thenM (set_next last at)
           (set_prev at last))))"

definition list_splice :: "'n \<Rightarrow> 'n \<Rightarrow> ('n links, unit) prog" where
  "list_splice lst head = bindM (list_empty lst) (\<lambda>e. whenM (\<not> e) (list_splice0 lst head))"

definition list_splice_init :: "'n \<Rightarrow> 'n \<Rightarrow> ('n links, unit) prog" where
  "list_splice_init lst head =
     bindM (list_empty lst) (\<lambda>e. whenM (\<not> e) (thenM (list_splice0 lst head) (INIT_LIST_HEAD lst)))"

text \<open>
  \<^verbatim>\<open>list_for_each_safe\<close> over a state \<open>'s\<close> in which \<open>nx\<close> reads the next pointer of a node: the
  body gets the position and an accumulator for its local variables and says whether it
  leaves the loop. The successor \<open>n\<close> is read before the body runs, and \<open>n->next\<close>
  after it; both reads go through a pointer that may be NULL.
\<close>

partial_function (option) safe_loop ::
    "('s \<Rightarrow> 'n \<Rightarrow> 'n option) \<Rightarrow> 'n \<Rightarrow> ('n \<Rightarrow> 'a \<Rightarrow> ('s, 'a \<times> bool) prog) \<Rightarrow> 'n \<Rightarrow> 'n option \<Rightarrow> 'a \<Rightarrow> 's
     \<Rightarrow> (fault + 'a \<times> 's) option" where
  "safe_loop nx head body pos n acc s =
     (if pos = head then Some (Inr (acc, s))
      else case body pos acc s of
        Inl e \<Rightarrow> Some (Inl e)
      | Inr (r, s') \<Rightarrow>
          if snd r then Some (Inr (fst r, s'))
          else case n of
            None \<Rightarrow> Some (Inl Null_Deref)
          | Some q \<Rightarrow> safe_loop nx head body q (nx s' q) (fst r) s')"

definition list_for_each_safe ::
    "('s \<Rightarrow> 'n \<Rightarrow> 'n option) \<Rightarrow> 'n \<Rightarrow> ('n \<Rightarrow> 'a \<Rightarrow> ('s, 'a \<times> bool) prog) \<Rightarrow> 'a \<Rightarrow> ('s, 'a) prog" where
  "list_for_each_safe nx head body acc = (\<lambda>s.
     case nx s head of
       None \<Rightarrow> Inl Null_Deref
     | Some pos \<Rightarrow> (case safe_loop nx head body pos (nx s pos) acc s of None \<Rightarrow> Inl Busy_Hang | Some r \<Rightarrow> r))"

text \<open>\<^verbatim>\<open>list_for_each_entry\<close> reads the successor after the body.\<close>

partial_function (option) entry_loop ::
    "('s \<Rightarrow> 'n \<Rightarrow> 'n option) \<Rightarrow> 'n \<Rightarrow> ('n \<Rightarrow> 'a \<Rightarrow> ('s, 'a \<times> bool) prog) \<Rightarrow> 'n option \<Rightarrow> 'a \<Rightarrow> 's
     \<Rightarrow> (fault + 'a \<times> 's) option" where
  "entry_loop nx head body pos acc s = (case pos of
     None \<Rightarrow> Some (Inl Null_Deref)
   | Some p \<Rightarrow>
      if p = head then Some (Inr (acc, s))
      else case body p acc s of
        Inl e \<Rightarrow> Some (Inl e)
      | Inr (r, s') \<Rightarrow>
          if snd r then Some (Inr (fst r, s'))
          else entry_loop nx head body (nx s' p) (fst r) s')"

definition list_for_each_entry ::
    "('s \<Rightarrow> 'n \<Rightarrow> 'n option) \<Rightarrow> 'n \<Rightarrow> ('n \<Rightarrow> 'a \<Rightarrow> ('s, 'a \<times> bool) prog) \<Rightarrow> 'a \<Rightarrow> ('s, 'a) prog" where
  "list_for_each_entry nx head body acc = (\<lambda>s.
     case entry_loop nx head body (nx s head) acc s of None \<Rightarrow> Inl Busy_Hang | Some r \<Rightarrow> r)"

text \<open>The macro \<^verbatim>\<open>list_for_each_entry_safe\<close> differs in the type of its loop variables only.\<close>

definition list_for_each_entry_safe ::
    "('s \<Rightarrow> 'n \<Rightarrow> 'n option) \<Rightarrow> 'n \<Rightarrow> ('n \<Rightarrow> 'a \<Rightarrow> ('s, 'a \<times> bool) prog) \<Rightarrow> 'a \<Rightarrow> ('s, 'a) prog" where
  "list_for_each_entry_safe = list_for_each_safe"

definition list_switch :: "'n option \<times> 'n option \<Rightarrow> 'n option \<times> 'n option" where
  "list_switch = (\<lambda>(list1, list2). (list2, list1))"

definition list_size :: "'n \<Rightarrow> ('n links, u32) prog" where
  "list_size lst = list_for_each_safe lnext lst (\<lambda>_ num. retM (num + 1, False)) 0"

text \<open>A program on the pointers, run on the part of a larger state that holds them.\<close>

definition on_links ::
    "('s \<Rightarrow> 'n links) \<Rightarrow> (('n links \<Rightarrow> 'n links) \<Rightarrow> 's \<Rightarrow> 's) \<Rightarrow> ('n links, 'a) prog \<Rightarrow> ('s, 'a) prog" where
  "on_links get upd m = (\<lambda>s. case m (get s) of Inl e \<Rightarrow> Inl e | Inr (a, l) \<Rightarrow> Inr (a, upd (\<lambda>_. l) s))"

section \<open>Rings\<close>

fun chain :: "'n links \<Rightarrow> 'n \<Rightarrow> 'n list \<Rightarrow> 'n \<Rightarrow> bool" where
  "chain l a [] b \<longleftrightarrow> lnext l a = Some b \<and> lprev l b = Some a"
| "chain l a (x # xs) b \<longleftrightarrow> lnext l a = Some x \<and> lprev l x = Some a \<and> chain l x xs b"

definition ring :: "'n links \<Rightarrow> 'n \<Rightarrow> 'n list \<Rightarrow> bool" where
  "ring l h xs \<longleftrightarrow> chain l h xs h \<and> distinct (h # xs)"

definition link_in :: "'n \<Rightarrow> 'n \<Rightarrow> 'n \<Rightarrow> 'n links \<Rightarrow> 'n links" where
  "link_in new p q l =
     l\<lparr>lnext := (lnext l)(new := Some q, p := Some new), lprev := (lprev l)(q := Some new, new := Some p)\<rparr>"

definition unlink :: "'n \<Rightarrow> 'n \<Rightarrow> 'n links \<Rightarrow> 'n links" where
  "unlink p q l = l\<lparr>lnext := (lnext l)(p := Some q), lprev := (lprev l)(q := Some p)\<rparr>"

lemma deref_run [simp]: "deref (Some n) s = Inr (n, s)" "deref None s = Inl Null_Deref"
  by (simp_all add: deref_def)

lemma set_run [simp]:
  "set_next (Some n) v l = Inr ((), l\<lparr>lnext := (lnext l)(n := v)\<rparr>)"
  "set_prev (Some n) v l = Inr ((), l\<lparr>lprev := (lprev l)(n := v)\<rparr>)"
  "set_next None v l = Inl Null_Deref" "set_prev None v l = Inl Null_Deref"
  by (simp_all add: set_next_def set_prev_def)

lemma INIT_LIST_HEAD_run [simp]:
  "INIT_LIST_HEAD p l = Inr ((), l\<lparr>lnext := (lnext l)(p := Some p), lprev := (lprev l)(p := Some p)\<rparr>)"
  by (simp add: INIT_LIST_HEAD_def)

lemma list_add0_run [simp]: "list_add0 new (Some p) (Some q) l = Inr ((), link_in new p q l)"
  by (simp add: list_add0_def link_in_def)

lemma list_del0_run [simp]: "list_del0 (Some p) (Some q) l = Inr ((), unlink p q l)"
  by (simp add: list_del0_def unlink_def)

lemma link_in_sel [simp]:
  "lnext (link_in new p q l) = (lnext l)(new := Some q, p := Some new)"
  "lprev (link_in new p q l) = (lprev l)(q := Some new, new := Some p)"
  "lnext (unlink p q l) = (lnext l)(p := Some q)"
  "lprev (unlink p q l) = (lprev l)(q := Some p)"
  by (simp_all add: link_in_def unlink_def)

lemma chain_append: "chain l a (xs @ y # ys) b \<longleftrightarrow> chain l a xs y \<and> chain l y ys b"
  by (induction xs arbitrary: a) auto

lemma chain_cong:
  assumes "\<And>x. x \<in> insert a (set xs) \<Longrightarrow> lnext l' x = lnext l x"
    and "\<And>x. x \<in> insert b (set xs) \<Longrightarrow> lprev l' x = lprev l x"
  shows "chain l' a xs b \<longleftrightarrow> chain l a xs b"
  using assms by (induction xs arbitrary: a) auto

lemma chain_next: "chain l a xs b \<Longrightarrow> lnext l a = Some (hd (xs @ [b]))"
  by (cases xs) auto

lemma chain_prev: "chain l a xs b \<Longrightarrow> lprev l b = Some (last (a # xs))"
  by (induction xs arbitrary: a) auto

lemma chain_mid:
  assumes "chain l a (xs @ x # ys) b"
  shows "lprev l x = Some (last (a # xs))" "lnext l x = Some (hd (ys @ [b]))"
  using assms chain_prev [of l a xs x] chain_next [of l x ys b] by (auto simp: chain_append)

lemma chain_link_in:
  assumes "chain l a (xs @ ys) b" and "distinct (a # xs @ ys)" and "distinct (xs @ ys @ [b])"
    and "new \<notin> insert a (insert b (set (xs @ ys)))"
  shows "chain (link_in new (last (a # xs)) (hd (ys @ [b])) l) a (xs @ new # ys) b"
  using assms
proof (induction xs arbitrary: a)
  case Nil
  show ?case
  proof (cases ys)
    case (Cons y zs)
    have "chain (link_in new a y l) y zs b \<longleftrightarrow> chain l y zs b"
      by (rule chain_cong) (use Nil Cons in auto)
    with Nil Cons show ?thesis by auto
  qed (use Nil in auto)
next
  case (Cons x xs)
  then have "hd (ys @ [b]) \<noteq> x" by (cases ys) auto
  moreover have "last (x # xs) \<noteq> a"
    using Cons.prems(2) last_in_set [of "x # xs"] by (auto split: if_splits)
  ultimately show ?case using Cons.IH [of x] Cons.prems by auto
qed

lemma chain_unlink:
  assumes "chain l a (xs @ x # ys) b" and "distinct (a # xs @ x # ys)" and "distinct (xs @ x # ys @ [b])"
  shows "chain (unlink (last (a # xs)) (hd (ys @ [b])) l) a (xs @ ys) b"
  using assms
proof (induction xs arbitrary: a)
  case Nil
  show ?case
  proof (cases ys)
    case (Cons y zs)
    have "chain (unlink a y l) y zs b \<longleftrightarrow> chain l y zs b"
      by (rule chain_cong) (use Nil Cons in auto)
    with Nil Cons show ?thesis by auto
  qed (use Nil in auto)
next
  case (Cons z xs)
  then have "hd (ys @ [b]) \<noteq> z" by (cases ys) auto
  moreover have "last (z # xs) \<noteq> a" using Cons.prems(2) last_in_set [of "z # xs"] by (auto split: if_splits)
  ultimately show ?case using Cons.IH [of z] Cons.prems by auto
qed

section \<open>What each function does to the ring\<close>

named_theorems ring_ops "effect of the list functions on rings"

lemma ring_distinct: "ring l h xs \<Longrightarrow> distinct (h # xs)"
  by (simp add: ring_def)

lemma ring_head:
  assumes "ring l h xs"
  shows "lnext l h = Some (hd (xs @ [h]))" "lprev l h = Some (last (h # xs))"
  using assms chain_next chain_prev by (fastforce simp: ring_def)+

lemma ring_mid:
  assumes "ring l h (xs @ x # ys)"
  shows "lprev l x = Some (last (h # xs))" "lnext l x = Some (hd (ys @ [h]))"
  using assms chain_mid by (fastforce simp: ring_def)+

lemma ring_cong:
  assumes "\<And>x. x \<in> insert h (set xs) \<Longrightarrow> lnext l' x = lnext l x \<and> lprev l' x = lprev l x"
  shows "ring l' h xs \<longleftrightarrow> ring l h xs"
  unfolding ring_def using chain_cong [of h xs l' l h] assms by auto

lemma ring_link_in:
  assumes "ring l h (xs @ ys)" and "new \<notin> set (h # xs @ ys)"
  shows "ring (link_in new (last (h # xs)) (hd (ys @ [h])) l) h (xs @ new # ys)"
  using assms chain_link_in [of l h xs ys h new] by (auto simp: ring_def)

lemma ring_unlink:
  assumes "ring l h (xs @ x # ys)"
  shows "ring (unlink (last (h # xs)) (hd (ys @ [h])) l) h (xs @ ys)"
  using assms chain_unlink [of l h xs x ys h] by (auto simp: ring_def)

lemma ring_init [ring_ops]: "\<exists>l'. INIT_LIST_HEAD h l = Inr ((), l') \<and> ring l' h []"
  by (simp add: ring_def)

lemma ring_empty [ring_ops]: "ring l h xs \<Longrightarrow> list_empty h l = Inr (xs = [], l)"
  using ring_head(1) [of l h xs] ring_distinct [of l h xs] by (cases xs) (auto simp: list_empty_def)

lemma ring_add_head [ring_ops]:
  assumes "ring l h xs" and "new \<notin> set (h # xs)"
  shows "list_add_head new h l = Inr ((), link_in new h (hd (xs @ [h])) l)
    \<and> ring (link_in new h (hd (xs @ [h])) l) h (new # xs)"
  using assms ring_head [of l h xs] ring_link_in [of l h "[]" xs new] by (simp add: list_add_head_def)

text \<open>\<open>list_add_tail\<close> inserts before any node of the ring; before the head that is the end of the list.\<close>

lemma ring_add_before [ring_ops]:
  assumes "ring l h (xs @ y # ys)" and "new \<notin> set (h # xs @ y # ys)"
  shows "list_add_tail new y l = Inr ((), link_in new (last (h # xs)) y l)
    \<and> ring (link_in new (last (h # xs)) y l) h (xs @ new # y # ys)"
  using assms ring_mid(1) [of l h xs y ys] ring_link_in [of l h xs "y # ys" new]
  by (simp add: list_add_tail_def)

lemma ring_add_tail [ring_ops]:
  assumes "ring l h xs" and "new \<notin> set (h # xs)"
  shows "list_add_tail new h l = Inr ((), link_in new (last (h # xs)) h l)
    \<and> ring (link_in new (last (h # xs)) h l) h (xs @ [new])"
  using assms ring_head(2) [of l h xs] ring_link_in [of l h xs "[]" new] by (simp add: list_add_tail_def)

lemma ring_del [ring_ops]:
  assumes "ring l h (xs @ x # ys)"
  shows "list_del x l = Inr ((), unlink (last (h # xs)) (hd (ys @ [h])) l)
    \<and> ring (unlink (last (h # xs)) (hd (ys @ [h])) l) h (xs @ ys)"
  using assms ring_mid [of l h xs x ys] ring_unlink [of l h xs x ys] by (simp add: list_del_def)

lemma ring_init_other:
  assumes "ring l h xs" and "x \<notin> set (h # xs)"
  shows "ring (l\<lparr>lnext := (lnext l)(x := Some x), lprev := (lprev l)(x := Some x)\<rparr>) h xs"
proof -
  have "y \<noteq> x" if "y \<in> insert h (set xs)" for y using that assms(2) by auto
  with assms(1) show ?thesis by (subst ring_cong [where l = l]) simp_all
qed

lemma ring_del_init [ring_ops]:
  assumes "ring l h (xs @ x # ys)"
  shows "\<exists>l'. list_del_init x l = Inr ((), l') \<and> ring l' h (xs @ ys) \<and> ring l' x []"
proof -
  from ring_del [OF assms] obtain k where k: "list_del x l = Inr ((), k)" "ring k h (xs @ ys)" by blast
  have "x \<notin> set (h # xs @ ys)" using ring_distinct [OF assms] by auto
  note ring_init_other [OF k(2) this]
  moreover have "ring (k\<lparr>lnext := (lnext k)(x := Some x), lprev := (lprev k)(x := Some x)\<rparr>) x []"
    by (simp add: ring_def)
  ultimately show ?thesis using k(1) by (simp add: list_del_init_def)
qed

lemma ring_move [ring_ops]:
  assumes "ring l h (xs @ x # ys)"
  shows "\<exists>l'. list_move x h l = Inr ((), l') \<and> ring l' h (x # xs @ ys)"
    and "\<exists>l'. list_move_tail x h l = Inr ((), l') \<and> ring l' h (xs @ ys @ [x])"
proof -
  from ring_del [OF assms] obtain k where k: "list_del x l = Inr ((), k)" "ring k h (xs @ ys)" by blast
  have x: "x \<notin> set (h # xs @ ys)" using ring_distinct [OF assms] by auto
  from ring_add_head [OF k(2) x] k(1)
  show "\<exists>l'. list_move x h l = Inr ((), l') \<and> ring l' h (x # xs @ ys)" by (auto simp: list_move_def)
  from ring_add_tail [OF k(2) x] k(1)
  show "\<exists>l'. list_move_tail x h l = Inr ((), l') \<and> ring l' h (xs @ ys @ [x])" by (auto simp: list_move_tail_def)
qed

text \<open>The pointers of nodes outside the two neighbours are left alone.\<close>

lemma ring_other:
  assumes "ring l h xs" and "p \<notin> set (h # xs)" "q \<notin> set (h # xs)"
  shows "new \<notin> set (h # xs) \<Longrightarrow> ring (link_in new p q l) h xs" and "ring (unlink p q l) h xs"
proof -
  have "x \<noteq> p \<and> x \<noteq> q" if "x \<in> insert h (set xs)" for x using that assms(2,3) by auto
  with assms(1) show "ring (unlink p q l) h xs" by (subst ring_cong [where l = l]) simp_all
next
  assume "new \<notin> set (h # xs)"
  then have "x \<noteq> p \<and> x \<noteq> q \<and> x \<noteq> new" if "x \<in> insert h (set xs)" for x using that assms(2,3) by auto
  with assms(1) show "ring (link_in new p q l) h xs" by (subst ring_cong [where l = l]) simp_all
qed

text \<open>Splicing: the run from one ring is given new neighbours and then hangs in the other.\<close>

lemma chain_retarget:
  assumes "chain l x xs b" and "\<And>y. y \<in> set (butlast (x # xs)) \<Longrightarrow> lnext l' y = lnext l y"
    and "\<And>y. y \<in> set xs \<Longrightarrow> lprev l' y = lprev l y"
    and "lnext l' (last (x # xs)) = Some q" "lprev l' q = Some (last (x # xs))"
  shows "chain l' x xs q"
  using assms by (induction xs arbitrary: x) auto

lemma ring_splice0:
  assumes r: "ring l g (x # xs)" "ring l h ys" and d: "set (g # x # xs) \<inter> set (h # ys) = {}"
  shows "\<exists>l'. list_splice0 g h l = Inr ((), l') \<and> ring l' h (x # xs @ ys)
     \<and> (\<forall>k. k \<notin> set (h # x # xs @ ys) \<longrightarrow> lnext l' k = lnext l k \<and> lprev l' k = lprev l k)"
proof -
  define z where "z = last (x # xs)"
  define q where "q = hd (ys @ [h])"
  define l' where "l' = l\<lparr>lnext := (lnext l)(h := Some x, z := Some q), lprev := (lprev l)(x := Some h, q := Some z)\<rparr>"
  have z: "z \<in> set (x # xs)" using last_in_set [of "x # xs"] by (simp add: z_def)
  have q: "q \<in> set (h # ys)" by (cases ys) (auto simp: q_def)
  have dist: "distinct (x # xs)" "distinct (h # ys)" using r by (auto simp: ring_def)
  have run: "list_splice0 g h l = Inr ((), l')"
    using ring_head [OF r(1)] ring_head(1) [OF r(2)]
    by (simp add: list_splice0_def l'_def z_def q_def)
  have bl: "y \<noteq> z" if "y \<in> set (butlast (x # xs))" for y
    using that dist(1) append_butlast_last_id [of "x # xs"] unfolding z_def
    by (metis distinct_butlast not_distinct_conv_prefix list.distinct(1))
  have run1: "chain l' x xs q"
  proof (rule chain_retarget)
    show "chain l x xs g" using r(1) by (simp add: ring_def)
    show "lnext l' y = lnext l y" if "y \<in> set (butlast (x # xs))" for y
      using that bl [OF that] d in_set_butlastD [OF that] by (auto simp: l'_def)
    show "lprev l' y = lprev l y" if "y \<in> set xs" for y
      using that dist(1) q d by (auto simp: l'_def)
  qed (auto simp: l'_def z_def)
  have "chain l' h (x # xs @ ys) h"
  proof (cases ys)
    case Nil
    have "lprev l' x = Some h" using q d by (auto simp: l'_def)
    moreover have "lnext l' h = Some x" using z d by (auto simp: l'_def)
    ultimately show ?thesis using run1 Nil by (simp add: q_def)
  next
    case (Cons y zs)
    then have y: "q = y" by (simp add: q_def)
    have "chain l y zs h" using r(2) Cons by (simp add: ring_def)
    moreover have "chain l' y zs h \<longleftrightarrow> chain l y zs h"
      by (rule chain_cong) (use d z y Cons dist in \<open>auto simp: l'_def\<close>)
    moreover have "lprev l' x = Some h" using q d by (auto simp: l'_def)
    moreover have "lnext l' h = Some x" using z d by (auto simp: l'_def)
    ultimately show ?thesis using run1 Cons y chain_append [of l' x xs y zs h] by simp
  qed
  moreover have "distinct (h # x # xs @ ys)" using dist d by auto
  moreover have "k \<notin> set (h # x # xs @ ys) \<Longrightarrow> lnext l' k = lnext l k \<and> lprev l' k = lprev l k" for k
    using z q by (auto simp: l'_def)
  ultimately show ?thesis using run by (auto simp: ring_def)
qed

lemma ring_splice [ring_ops]:
  assumes "ring l g xs" "ring l h ys" "set (g # xs) \<inter> set (h # ys) = {}"
  shows "\<exists>l'. list_splice g h l = Inr ((), l') \<and> ring l' h (xs @ ys)"
proof (cases xs)
  case (Cons x zs)
  from ring_splice0 [OF assms(1) [unfolded Cons] assms(2)] assms(3) Cons
  obtain k where "list_splice0 g h l = Inr ((), k)" "ring k h (x # zs @ ys)" by auto
  then show ?thesis using Cons ring_empty [OF assms(1)] by (simp add: list_splice_def bindM_run)
qed (use assms ring_empty [of l g xs] in \<open>simp add: list_splice_def bindM_run\<close>)

lemma ring_splice_init [ring_ops]:
  assumes "ring l g xs" "ring l h ys" "set (g # xs) \<inter> set (h # ys) = {}"
  shows "\<exists>l'. list_splice_init g h l = Inr ((), l') \<and> ring l' h (xs @ ys) \<and> ring l' g []"
proof (cases xs)
  case (Cons x zs)
  from ring_splice0 [OF assms(1) [unfolded Cons] assms(2)] assms(3) Cons
  obtain k where k: "list_splice0 g h l = Inr ((), k)" "ring k h (x # zs @ ys)" by auto
  have "g \<notin> set (h # x # zs @ ys)" using assms(3) ring_distinct [OF assms(1)] Cons by auto
  note ring_init_other [OF k(2) this]
  moreover have "ring (k\<lparr>lnext := (lnext k)(g := Some g), lprev := (lprev k)(g := Some g)\<rparr>) g []"
    by (simp add: ring_def)
  ultimately show ?thesis
    using k(1) Cons ring_empty [OF assms(1)] by (simp add: list_splice_init_def bindM_run thenM_run)
qed (use assms ring_empty [of l g xs] in \<open>simp add: list_splice_init_def bindM_run\<close>)

section \<open>Walking a ring\<close>

text \<open>What the two loops do when they meet the nodes of a list one after the other.\<close>

fun each_list :: "('n \<Rightarrow> 'a \<Rightarrow> ('s, 'a \<times> bool) prog) \<Rightarrow> 'n list \<Rightarrow> 'a \<Rightarrow> ('s, 'a) prog" where
  "each_list body [] acc = retM acc"
| "each_list body (x # xs) acc =
     bindM (body x acc) (\<lambda>r. if snd r then retM (fst r) else each_list body xs (fst r))"

text \<open>
  \<open>K s xs\<close>: in state \<open>s\<close> the nodes \<open>xs\<close> are still to come. The safe loop needs the successor of a
  node when it arrives there, the other loop when it leaves.
\<close>

lemma safe_loop_list:
  assumes K: "\<And>s x ys. K s (x # ys) \<Longrightarrow> x \<noteq> h \<and> nx s x = Some (hd (ys @ [h]))"
    and step: "\<And>s x ys acc acc' s'. K s (x # ys) \<Longrightarrow> body x acc s = Inr ((acc', False), s') \<Longrightarrow> K s' ys"
  shows "K s xs \<Longrightarrow> pos = hd (xs @ [h]) \<Longrightarrow> (xs \<noteq> [] \<Longrightarrow> n = nx s pos) \<Longrightarrow>
    safe_loop nx h body pos n acc s = Some (each_list body xs acc s)"
proof (induction xs arbitrary: s pos n acc)
  case Nil
  then show ?case by (simp add: safe_loop.simps)
next
  case (Cons x ys)
  from K [OF Cons.prems(1)] Cons.prems(2,3)
  have x: "pos = x" "x \<noteq> h" "n = Some (hd (ys @ [h]))" by simp_all
  show ?case
  proof (cases "body x acc s")
    case (Inr r)
    obtain acc' stop s' where r: "r = ((acc', stop), s')" by (metis prod.exhaust)
    show ?thesis
    proof (cases stop)
      case False
      with step [OF Cons.prems(1)] Inr r have "K s' ys" by simp
      from Cons.IH [OF this refl refl, of acc'] Inr r False x
      show ?thesis by (subst safe_loop.simps) simp
    qed (use Inr r x in \<open>subst safe_loop.simps, simp\<close>)
  qed (use x in \<open>subst safe_loop.simps, simp\<close>)
qed

lemma entry_loop_list:
  assumes K: "\<And>s x ys. K s (x # ys) \<Longrightarrow> x \<noteq> h"
    and step: "\<And>s x ys acc acc' s'. K s (x # ys) \<Longrightarrow> body x acc s = Inr ((acc', False), s')
      \<Longrightarrow> K s' ys \<and> nx s' x = Some (hd (ys @ [h]))"
  shows "K s xs \<Longrightarrow> pos = Some (hd (xs @ [h])) \<Longrightarrow>
    entry_loop nx h body pos acc s = Some (each_list body xs acc s)"
proof (induction xs arbitrary: s pos acc)
  case Nil
  then show ?case by (simp add: entry_loop.simps)
next
  case (Cons x ys)
  note x = K [OF Cons.prems(1)]
  show ?case
  proof (cases "body x acc s")
    case (Inr r)
    obtain acc' stop s' where r: "r = ((acc', stop), s')" by (metis prod.exhaust)
    show ?thesis
    proof (cases stop)
      case False
      with step [OF Cons.prems(1)] Inr r have s': "K s' ys" "nx s' x = Some (hd (ys @ [h]))" by simp_all
      from Cons.IH [OF s', of acc'] Inr r False x Cons.prems(2)
      show ?thesis by (subst entry_loop.simps) simp
    qed (use Inr r x Cons.prems(2) in \<open>subst entry_loop.simps, simp\<close>)
  qed (use x Cons.prems(2) in \<open>subst entry_loop.simps, simp\<close>)
qed

lemma each_list_cong:
  "(\<And>x acc. x \<in> set xs \<Longrightarrow> f x acc = g x acc) \<Longrightarrow> each_list f xs acc = each_list g xs acc"
  by (induction xs arbitrary: acc) (auto simp: bindM_def fun_eq_iff split: sum.splits)

text \<open>The suffixes of a ring, from which the walks take their next node.\<close>

definition suffix_of :: "'n links \<Rightarrow> 'n \<Rightarrow> 'n list \<Rightarrow> bool" where
  "suffix_of l h ys \<longleftrightarrow> (\<exists>xs. ring l h (xs @ ys))"

lemma suffix_of_Cons:
  assumes "suffix_of l h (x # ys)"
  shows "x \<noteq> h" "lnext l x = Some (hd (ys @ [h]))" "suffix_of l h ys"
proof -
  from assms obtain xs where r: "ring l h (xs @ x # ys)" by (auto simp: suffix_of_def)
  from ring_distinct [OF r] ring_mid(2) [OF r] show "x \<noteq> h" "lnext l x = Some (hd (ys @ [h]))" by auto
  from r show "suffix_of l h ys" unfolding suffix_of_def by (metis append.assoc append_Cons append_Nil)
qed

text \<open>
  The contract between these lists and a component whose state \<open>'s\<close> holds the nodes: \<open>lk\<close> reads all
  pointers and \<open>upd\<close> replaces them.
\<close>

locale list_owner =
  fixes lk :: "'s \<Rightarrow> 'n links"
    and upd :: "('n links \<Rightarrow> 'n links) \<Rightarrow> 's \<Rightarrow> 's"
  assumes lk_upd: "lk (upd f s) = f (lk s)"
begin

lemma walk_safe:
  assumes r: "ring (lk s) h xs"
    and keep: "\<And>x acc acc' s s'. x \<in> set xs \<Longrightarrow> body x acc s = Inr ((acc', False), s') \<Longrightarrow> lk s' = lk s"
  shows "list_for_each_safe (\<lambda>s. lnext (lk s)) h body acc s = each_list body xs acc s"
proof -
  let ?K = "\<lambda>s ys. suffix_of (lk s) h ys \<and> set ys \<subseteq> set xs"
  have "?K s xs" using r by (auto simp: suffix_of_def intro: exI [of _ "[]"])
  with safe_loop_list [where K = ?K and nx = "\<lambda>s. lnext (lk s)" and body = body and h = h and s = s and xs = xs
      and pos = "hd (xs @ [h])" and n = "lnext (lk s) (hd (xs @ [h]))" and acc = acc]
    suffix_of_Cons keep
  have "safe_loop (\<lambda>s. lnext (lk s)) h body (hd (xs @ [h])) (lnext (lk s) (hd (xs @ [h]))) acc s
    = Some (each_list body xs acc s)" by fastforce
  then show ?thesis using ring_head(1) [OF r] by (simp add: list_for_each_safe_def)
qed

lemma walk_entry:
  assumes r: "ring (lk s) h xs"
    and keep: "\<And>x acc acc' s s'. x \<in> set xs \<Longrightarrow> body x acc s = Inr ((acc', False), s') \<Longrightarrow> lk s' = lk s"
  shows "list_for_each_entry (\<lambda>s. lnext (lk s)) h body acc s = each_list body xs acc s"
proof -
  let ?K = "\<lambda>s ys. suffix_of (lk s) h ys \<and> set ys \<subseteq> set xs"
  have "?K s xs" using r by (auto simp: suffix_of_def intro: exI [of _ "[]"])
  with entry_loop_list [where K = ?K and nx = "\<lambda>s. lnext (lk s)" and body = body and h = h and s = s and xs = xs
      and pos = "Some (hd (xs @ [h]))" and acc = acc]
    suffix_of_Cons keep
  have "entry_loop (\<lambda>s. lnext (lk s)) h body (Some (hd (xs @ [h]))) acc s = Some (each_list body xs acc s)"
    by fastforce
  then show ?thesis using ring_head(1) [OF r] by (simp add: list_for_each_entry_def)
qed

lemma on_links_add_tail:
  assumes "ring (lk s) h xs" and "new \<notin> set (h # xs)"
  shows "on_links lk upd (list_add_tail new h) s = Inr ((), upd (\<lambda>_. link_in new (last (h # xs)) h (lk s)) s)
    \<and> ring (lk (upd (\<lambda>_. link_in new (last (h # xs)) h (lk s)) s)) h (xs @ [new])"
  using ring_add_tail [OF assms] by (simp add: on_links_def lk_upd)

lemma on_links_add_before:
  assumes "ring (lk s) h (xs @ y # ys)" and "new \<notin> set (h # xs @ y # ys)"
  shows "on_links lk upd (list_add_tail new y) s = Inr ((), upd (\<lambda>_. link_in new (last (h # xs)) y (lk s)) s)
    \<and> ring (lk (upd (\<lambda>_. link_in new (last (h # xs)) y (lk s)) s)) h (xs @ new # y # ys)"
  using ring_add_before [OF assms] by (simp add: on_links_def lk_upd)

lemma on_links_del:
  assumes "ring (lk s) h (xs @ x # ys)"
  shows "on_links lk upd (list_del x) s = Inr ((), upd (\<lambda>_. unlink (last (h # xs)) (hd (ys @ [h])) (lk s)) s)
    \<and> ring (lk (upd (\<lambda>_. unlink (last (h # xs)) (hd (ys @ [h])) (lk s)) s)) h (xs @ ys)"
  using ring_del [OF assms] by (simp add: on_links_def lk_upd)

end

interpretation plain: list_owner "\<lambda>l. l" "\<lambda>f l. f l"
  by unfold_locales simp

lemma each_list_count: "each_list (\<lambda>_ num. retM (num + 1, False)) xs (n::u32) s = Inr (n + of_nat (length xs), s)"
  by (induction xs arbitrary: n) (simp_all add: algebra_simps)

lemma list_size_ring: "ring l h xs \<Longrightarrow> list_size h l = Inr (of_nat (length xs), l)"
  unfolding list_size_def by (subst plain.walk_safe) (auto simp: each_list_count)

text \<open>
  A walk that can never end: every position it reaches is in a set that has no way out, and the
  body never leaves the loop.
\<close>

lemma safe_loop_hangs:
  assumes body: "\<And>x acc s. x \<in> C \<Longrightarrow> Q acc s \<Longrightarrow> \<exists>acc' s'. body x acc s = Inr ((acc', False), s') \<and> Q acc' s'"
    and nx: "\<And>x acc s. x \<in> C \<Longrightarrow> Q acc s \<Longrightarrow> \<exists>y\<in>C. nx s x = Some y"
    and h: "h \<notin> C"
  shows "pos \<in> C \<Longrightarrow> Q acc s \<Longrightarrow> safe_loop nx h body pos (nx s pos) acc s = None"
proof (rule ccontr)
  assume start: "pos \<in> C" "Q acc s" and "safe_loop nx h body pos (nx s pos) acc s \<noteq> None"
  then obtain y where run: "safe_loop nx h body pos (nx s pos) acc s = Some y" by blast
  let ?P = "\<lambda>nx' h' body' pos n acc s (y :: fault + 'b \<times> 'c).
    nx' = nx \<longrightarrow> h' = h \<longrightarrow> body' = body \<longrightarrow> n = nx s pos \<longrightarrow> \<not> (pos \<in> C \<and> Q acc s)"
  have "?P nx h body pos (nx s pos) acc s y"
  proof (rule safe_loop.raw_induct [OF _ run, of ?P], intro impI notI)
    fix loop nx' h' body' pos n acc s y
    assume IH: "\<And>nx' h' body' pos n acc s y. loop nx' h' body' pos n acc s = Some y \<Longrightarrow> ?P nx' h' body' pos n acc s y"
      and step: "(if pos = h' then Some (Inr (acc, s)) else case body' pos acc s of Inl e \<Rightarrow> Some (Inl e)
          | Inr (r, s') \<Rightarrow> if snd r then Some (Inr (fst r, s')) else case n of None \<Rightarrow> Some (Inl Null_Deref)
            | Some q \<Rightarrow> loop nx' h' body' q (nx' s' q) (fst r) s') = Some y"
      and eqs: "nx' = nx" "h' = h" "body' = body" "n = nx s pos" and pos: "pos \<in> C \<and> Q acc s"
    from pos body obtain acc' s' where b: "body pos acc s = Inr ((acc', False), s')" "Q acc' s'" by blast
    from pos nx obtain q where q: "nx s pos = Some q" "q \<in> C" by blast
    from step eqs b q h pos have "loop nx h body q (nx s' q) acc' s' = Some y" by (auto split: if_splits)
    from IH [OF this] q b(2) show False by simp
  qed
  with start show False by simp
qed

end
