(* ===== verification/Intc.thy ===== *)
theory Intc
  imports Doubly_List Drv_Model
begin

text \<open>
  Interrupts: \<^verbatim>\<open>driver/icu/icu.c\<close> (the registers of the interrupt control unit, reached through the
  device model under the name \<open>icu\<close>) and \<^verbatim>\<open>driver/intc/intc.c\<close> (the table of service routines,
  linked by priority, and the dispatch of IRQ and FIQ). The build is the one for BK7231U.

  The state of \<^verbatim>\<open>intc.c\<close> is the table \<open>_isrs\<close>, the mask of registered numbers and the list
  pointers of the table entries and of \<open>isr_hdr\<close>. Its surroundings are parameters: how
  registers read and write (\<open>icu_env\<close>), and what the service routines and
  \<^verbatim>\<open>power_save_dtim_wake\<close> do (\<open>isr_env\<close>), which may touch the whole state.
\<close>

section \<open>The control unit\<close>

definition ICU_BASE :: u32 where
  "ICU_BASE = 0x00802000"

definition ICU_PERI_CLK_MUX :: u32 where "ICU_PERI_CLK_MUX = ICU_BASE + 0 * 4"
definition ICU_PWM_CLK_MUX :: u32 where "ICU_PWM_CLK_MUX = ICU_BASE + 1 * 4"
definition ICU_PERI_CLK_PWD :: u32 where "ICU_PERI_CLK_PWD = ICU_BASE + 2 * 4"
definition ICU_PERI_CLK_GATING :: u32 where "ICU_PERI_CLK_GATING = ICU_BASE + 3 * 4"
definition ICU_TL410_CLK_PWD :: u32 where "ICU_TL410_CLK_PWD = ICU_BASE + 4 * 4"
definition ICU_JTAG_SELECT :: u32 where "ICU_JTAG_SELECT = ICU_BASE + 6 * 4"
definition ICU_INTERRUPT_ENABLE :: u32 where "ICU_INTERRUPT_ENABLE = ICU_BASE + 16 * 4"
definition ICU_GLOBAL_INT_EN :: u32 where "ICU_GLOBAL_INT_EN = ICU_BASE + 17 * 4"
definition ICU_INT_RAW_STATUS :: u32 where "ICU_INT_RAW_STATUS = ICU_BASE + 18 * 4"
definition ICU_INT_STATUS :: u32 where "ICU_INT_STATUS = ICU_BASE + 19 * 4"
definition ICU_ARM_WAKEUP_EN :: u32 where "ICU_ARM_WAKEUP_EN = ICU_BASE + 20 * 4"

definition ICU_CMD_MAGIC :: u32 where "ICU_CMD_MAGIC = 0xe220000"

definition CMD_ICU_CLKGATING_DISABLE :: u32 where "CMD_ICU_CLKGATING_DISABLE = ICU_CMD_MAGIC + 1"
definition CMD_ICU_CLKGATING_ENABLE :: u32 where "CMD_ICU_CLKGATING_ENABLE = ICU_CMD_MAGIC + 2"
definition CMD_ICU_INT_DISABLE :: u32 where "CMD_ICU_INT_DISABLE = ICU_CMD_MAGIC + 3"
definition CMD_ICU_INT_ENABLE :: u32 where "CMD_ICU_INT_ENABLE = ICU_CMD_MAGIC + 4"
definition CMD_ICU_GLOBAL_INT_DISABLE :: u32 where "CMD_ICU_GLOBAL_INT_DISABLE = ICU_CMD_MAGIC + 5"
definition CMD_ICU_GLOBAL_INT_ENABLE :: u32 where "CMD_ICU_GLOBAL_INT_ENABLE = ICU_CMD_MAGIC + 6"
definition CMD_GET_INTR_STATUS :: u32 where "CMD_GET_INTR_STATUS = ICU_CMD_MAGIC + 7"
definition CMD_CLR_INTR_STATUS :: u32 where "CMD_CLR_INTR_STATUS = ICU_CMD_MAGIC + 8"
definition CMD_GET_INTR_RAW_STATUS :: u32 where "CMD_GET_INTR_RAW_STATUS = ICU_CMD_MAGIC + 9"
definition CMD_CLR_INTR_RAW_STATUS :: u32 where "CMD_CLR_INTR_RAW_STATUS = ICU_CMD_MAGIC + 10"
definition CMD_CLK_PWR_DOWN :: u32 where "CMD_CLK_PWR_DOWN = ICU_CMD_MAGIC + 11"
definition CMD_CLK_PWR_UP :: u32 where "CMD_CLK_PWR_UP = ICU_CMD_MAGIC + 12"
definition CMD_CONF_PWM_PCLK :: u32 where "CMD_CONF_PWM_PCLK = ICU_CMD_MAGIC + 13"
definition CMD_CONF_PWM_LPOCLK :: u32 where "CMD_CONF_PWM_LPOCLK = ICU_CMD_MAGIC + 14"
definition CMD_TL410_CLK_PWR_DOWN :: u32 where "CMD_TL410_CLK_PWR_DOWN = ICU_CMD_MAGIC + 15"
definition CMD_TL410_CLK_PWR_UP :: u32 where "CMD_TL410_CLK_PWR_UP = ICU_CMD_MAGIC + 16"
definition CMD_CONF_PCLK_26M :: u32 where "CMD_CONF_PCLK_26M = ICU_CMD_MAGIC + 17"
definition CMD_CONF_PCLK_DCO :: u32 where "CMD_CONF_PCLK_DCO = ICU_CMD_MAGIC + 18"
definition CMD_SET_JTAG_MODE :: u32 where "CMD_SET_JTAG_MODE = ICU_CMD_MAGIC + 19"
definition CMD_GET_JTAG_MODE :: u32 where "CMD_GET_JTAG_MODE = ICU_CMD_MAGIC + 20"
definition CMD_ARM_WAKEUP :: u32 where "CMD_ARM_WAKEUP = ICU_CMD_MAGIC + 21"
definition CMD_QSPI_CLK_SEL :: u32 where "CMD_QSPI_CLK_SEL = ICU_CMD_MAGIC + 22"

lemmas icu_consts = ICU_BASE_def ICU_PERI_CLK_MUX_def ICU_PWM_CLK_MUX_def ICU_PERI_CLK_PWD_def
  ICU_PERI_CLK_GATING_def ICU_TL410_CLK_PWD_def ICU_JTAG_SELECT_def ICU_INTERRUPT_ENABLE_def
  ICU_GLOBAL_INT_EN_def ICU_INT_RAW_STATUS_def ICU_INT_STATUS_def ICU_ARM_WAKEUP_EN_def

lemmas icu_cmds = ICU_CMD_MAGIC_def CMD_ICU_CLKGATING_DISABLE_def CMD_ICU_CLKGATING_ENABLE_def
  CMD_ICU_INT_DISABLE_def CMD_ICU_INT_ENABLE_def CMD_ICU_GLOBAL_INT_DISABLE_def CMD_ICU_GLOBAL_INT_ENABLE_def
  CMD_GET_INTR_STATUS_def CMD_CLR_INTR_STATUS_def CMD_GET_INTR_RAW_STATUS_def CMD_CLR_INTR_RAW_STATUS_def
  CMD_CLK_PWR_DOWN_def CMD_CLK_PWR_UP_def CMD_CONF_PWM_PCLK_def CMD_CONF_PWM_LPOCLK_def
  CMD_TL410_CLK_PWR_DOWN_def CMD_TL410_CLK_PWR_UP_def CMD_CONF_PCLK_26M_def CMD_CONF_PCLK_DCO_def
  CMD_SET_JTAG_MODE_def CMD_GET_JTAG_MODE_def CMD_ARM_WAKEUP_def CMD_QSPI_CLK_SEL_def

text \<open>Registers are volatile: a read may change the hardware, a write need not store what it is given.\<close>

record 'h icu_env =
  icu_rd :: "u32 \<Rightarrow> 'h \<Rightarrow> u32 \<times> 'h"
  icu_wr :: "u32 \<Rightarrow> u32 \<Rightarrow> 'h \<Rightarrow> 'h"

definition icu_read :: "'h icu_env \<Rightarrow> u32 \<Rightarrow> ('h, u32) prog" where
  "icu_read env r = (\<lambda>h. Inr (icu_rd env r h))"

definition icu_write :: "'h icu_env \<Rightarrow> u32 \<Rightarrow> u32 \<Rightarrow> ('h, unit) prog" where
  "icu_write env r v = (\<lambda>h. Inr ((), icu_wr env r v h))"

text \<open>\<open>reg = REG_READ(r); reg = f(reg, *param); REG_WRITE(r, reg)\<close>\<close>

definition rmw :: "'h icu_env \<Rightarrow> u32 \<Rightarrow> (u32 \<Rightarrow> u32 \<Rightarrow> u32) \<Rightarrow> u32 option \<Rightarrow> ('h, u32 \<times> u32 option) prog" where
  "rmw env r f param =
     bindM (icu_read env r) (\<lambda>reg.
     bindM (deref param) (\<lambda>p.
     thenM (icu_write env r (f reg p)) (retM (0, param))))"

definition JTAG_SEL_WR_ARM :: u32 where "JTAG_SEL_WR_ARM = 0x7111E968"
definition JTAG_SEL_WR_TL4 :: u32 where "JTAG_SEL_WR_TL4 = 0x7111E410"

definition icu_ctrl :: "'h icu_env \<Rightarrow> u32 \<Rightarrow> u32 option \<Rightarrow> ('h, u32 \<times> u32 option) prog" where
  "icu_ctrl env cmd param =
    (let shl = \<lambda>p. push_bit (unat p) 1 :: u32 in
     if cmd = CMD_CONF_PCLK_26M then rmw env ICU_PERI_CLK_MUX (\<lambda>reg p. reg OR p) param
     else if cmd = CMD_CONF_PWM_LPOCLK then rmw env ICU_PWM_CLK_MUX (\<lambda>reg p. reg OR shl p) param
     else if cmd = CMD_CONF_PCLK_DCO then rmw env ICU_PERI_CLK_MUX (\<lambda>reg p. reg AND NOT p) param
     else if cmd = CMD_CONF_PWM_PCLK then rmw env ICU_PWM_CLK_MUX (\<lambda>reg p. reg AND NOT (shl p)) param
     else if cmd = CMD_CLK_PWR_UP then rmw env ICU_PERI_CLK_PWD (\<lambda>reg p. reg AND NOT p) param
     else if cmd = CMD_CLK_PWR_DOWN then rmw env ICU_PERI_CLK_PWD (\<lambda>reg p. reg OR p) param
     else if cmd = CMD_TL410_CLK_PWR_UP then rmw env ICU_TL410_CLK_PWD (\<lambda>reg p. reg AND NOT p) param
     else if cmd = CMD_TL410_CLK_PWR_DOWN then rmw env ICU_TL410_CLK_PWD (\<lambda>reg p. reg OR p) param
     else if cmd = CMD_ICU_CLKGATING_DISABLE then rmw env ICU_PERI_CLK_GATING (\<lambda>reg p. reg OR p) param
     else if cmd = CMD_ICU_CLKGATING_ENABLE then rmw env ICU_PERI_CLK_GATING (\<lambda>reg p. reg AND NOT p) param
     else if cmd = CMD_ICU_INT_DISABLE then rmw env ICU_INTERRUPT_ENABLE (\<lambda>reg p. reg AND NOT p) param
     else if cmd = CMD_ICU_INT_ENABLE then rmw env ICU_INTERRUPT_ENABLE (\<lambda>reg p. reg OR p) param
     else if cmd = CMD_ICU_GLOBAL_INT_DISABLE then rmw env ICU_GLOBAL_INT_EN (\<lambda>reg p. reg AND NOT p) param
     else if cmd = CMD_ICU_GLOBAL_INT_ENABLE then rmw env ICU_GLOBAL_INT_EN (\<lambda>reg p. reg OR p) param
     else if cmd = CMD_GET_INTR_STATUS then
       bindM (icu_read env ICU_INT_STATUS) (\<lambda>ret. retM (ret, param))
     else if cmd = CMD_CLR_INTR_STATUS then
       thenM (assertM (param \<noteq> None)) (rmw env ICU_INT_STATUS (\<lambda>reg p. reg OR p) param)
     else if cmd = CMD_GET_INTR_RAW_STATUS then
       bindM (icu_read env ICU_INT_RAW_STATUS) (\<lambda>ret. retM (ret, param))
     else if cmd = CMD_CLR_INTR_RAW_STATUS then
       thenM (assertM (param \<noteq> None)) (rmw env ICU_INT_RAW_STATUS (\<lambda>reg p. reg OR p) param)
     else if cmd = CMD_SET_JTAG_MODE then
       thenM (assertM (param \<noteq> None))
        (thenM (if param = Some 0 then icu_write env ICU_JTAG_SELECT JTAG_SEL_WR_ARM
                else if param = Some 1 then icu_write env ICU_JTAG_SELECT JTAG_SEL_WR_TL4
                else retM ())
         (retM (0, param)))
     else if cmd = CMD_GET_JTAG_MODE then
       bindM (icu_read env ICU_JTAG_SELECT) (\<lambda>ret. retM (ret, param))
     else if cmd = CMD_ARM_WAKEUP then
       bindM (deref param) (\<lambda>p. thenM (icu_write env ICU_ARM_WAKEUP_EN p) (retM (0, param)))
     else if cmd = CMD_QSPI_CLK_SEL then
       rmw env ICU_PERI_CLK_MUX (\<lambda>reg p. (reg AND NOT (push_bit 16 3)) OR p) param
     else retM (0, param))"

definition ICU_DEV_NAME :: string where
  "ICU_DEV_NAME = ''icu''"

definition icu_op :: "'h icu_env \<Rightarrow> ('h, u32 option) sdd_operations" where
  "icu_op env = \<lparr>sop_control = Some (icu_ctrl env)\<rparr>"

text \<open>\<open>PCLK_POSI_UART1 | UART2 | PWMS | SDIO | I2C1 | I2C2\<close>\<close>

definition icu_init :: "'h icu_env \<Rightarrow> (('h, u32 option) drv_st, unit) prog" where
  "icu_init env =
     thenM (sddev_register_dev (Some ICU_DEV_NAME) (Some (icu_op env)))
    (thenM (in_world (icu_ctrl env CMD_CONF_PCLK_26M (Some 0x197))) (retM ()))"

definition icu_exit :: "string \<Rightarrow> (('h, u32 option) drv_st, unit) prog" where
  "icu_exit mem0 = thenM (sddev_unregister_dev mem0 (Some ICU_DEV_NAME)) (retM ())"

section \<open>The table of service routines\<close>

text \<open>The places that carry a list node: \<open>isr_hdr.isr\<close> and \<open>_isrs[i].list\<close>.\<close>

datatype isr_node = Isr_Hdr | Isr nat

record ISR_T =
  isr_func :: "nat option"
  pri :: u8
  int_num :: u8

record ('h, 'd) intc_st =
  isrs :: "nat \<Rightarrow> ISR_T"
  isrs_mask :: u32
  isr_links :: "isr_node links"
  drv :: "('h, u32 option) drv_st"
  devs :: 'd

record ('h, 'd) isr_env =
  call_isr :: "nat \<Rightarrow> (('h, 'd) intc_st, unit) prog"
  dtim_wake :: "u32 \<Rightarrow> (('h, 'd) intc_st, unit) prog"

definition INTC_MAX_COUNT :: nat where
  "INTC_MAX_COUNT = 32"

definition BIT :: "nat \<Rightarrow> u32" where
  "BIT i = push_bit i 1"

definition in_drv :: "(('h, u32 option) drv_st, 'a) prog \<Rightarrow> (('h, 'd) intc_st, 'a) prog" where
  "in_drv m = (\<lambda>s. case m (drv s) of Inl e \<Rightarrow> Inl e | Inr (a, d) \<Rightarrow> Inr (a, s\<lparr>drv := d\<rparr>))"

abbreviation in_links :: "(isr_node links, 'a) prog \<Rightarrow> (('h, 'd) intc_st, 'a) prog" where
  "in_links \<equiv> on_links isr_links isr_links_update"

text \<open>\<open>list_entry(pos, ISR_T, list)\<close>; the header is no entry of the table.\<close>

definition isr_at :: "isr_node \<Rightarrow> (('h, 'd) intc_st, ISR_T) prog" where
  "isr_at pos = (case pos of Isr_Hdr \<Rightarrow> failM Dangling | Isr i \<Rightarrow> getM (\<lambda>s. isrs s i))"

text \<open>The copy \<open>buf_ele\<close> of a table entry takes its list pointers along, and so does copying it back.\<close>

type_synonym isr_copy = "ISR_T \<times> isr_node option \<times> isr_node option"

definition save_entry :: "nat \<Rightarrow> (('h, 'd) intc_st, isr_copy) prog" where
  "save_entry i = getM (\<lambda>s. (isrs s i, lnext (isr_links s) (Isr i), lprev (isr_links s) (Isr i)))"

definition put_entry :: "nat \<Rightarrow> isr_copy \<Rightarrow> (('h, 'd) intc_st, unit) prog" where
  "put_entry i buf = (case buf of (e, nx, pv) \<Rightarrow> modM (\<lambda>s. s\<lparr>isrs := (isrs s)(i := e),
     isr_links := (isr_links s)\<lparr>lnext := (lnext (isr_links s))(Isr i := nx), lprev := (lprev (isr_links s))(Isr i := pv)\<rparr>\<rparr>))"

definition hdl_body :: "('h, 'd) isr_env \<Rightarrow> isr_node \<Rightarrow> u32 \<Rightarrow> (('h, 'd) intc_st, u32 \<times> bool) prog" where
  "hdl_body env pos status =
     bindM (isr_at pos) (\<lambda>f.
     let i = unat (int_num f) in
     bindM (if BIT i AND status \<noteq> 0
            then bindM (deref (isr_func f)) (\<lambda>func. thenM (call_isr env func) (retM (status AND NOT (BIT i))))
            else retM status) (\<lambda>status. retM (status, status = 0)))"

definition intc_hdl_entry :: "('h, 'd) isr_env \<Rightarrow> u32 \<Rightarrow> (('h, 'd) intc_st, unit) prog" where
  "intc_hdl_entry env int_status =
     bindM (getM isrs_mask) (\<lambda>mask.
     let status = int_status AND mask in
     thenM (dtim_wake env status)
    (thenM (list_for_each_safe (\<lambda>s. lnext (isr_links s)) Isr_Hdr (hdl_body env) status)
           (retM ())))"

text \<open>The loop of the registration: the result says which label it jumps to (\<open>None\<close>: it runs to the end).\<close>

datatype reg_exit = Reg_Ok | Reg_Error

definition reg_body :: "nat \<Rightarrow> u8 \<Rightarrow> isr_node \<Rightarrow> reg_exit option \<Rightarrow> (('h, 'd) intc_st, reg_exit option \<times> bool) prog" where
  "reg_body cur int_pri pos acc =
     bindM (isr_at pos) (\<lambda>tmp.
     if int_pri < pri tmp then thenM (in_links (list_add_tail (Isr cur) pos)) (retM (Some Reg_Ok, True))
     else if int_pri = pri tmp then retM (Some Reg_Error, True)
     else retM (acc, False))"

definition intc_service_register :: "u8 \<Rightarrow> u8 \<Rightarrow> nat option \<Rightarrow> (('h, 'd) intc_st, unit) prog" where
  "intc_service_register num int_pri isr =
    (let i = unat num; ok = modM (\<lambda>s. s\<lparr>isrs_mask := isrs_mask s OR BIT i\<rparr>) in
     if INTC_MAX_COUNT \<le> i then failM Bad_Index
     else
       bindM (save_entry i) (\<lambda>buf_ele.
       thenM (modM (\<lambda>s. s\<lparr>isrs := (isrs s)(i := \<lparr>isr_func = isr, pri = int_pri, int_num = num\<rparr>)\<rparr>))
      (bindM (in_links (list_empty Isr_Hdr)) (\<lambda>empty.
       if empty then thenM (in_links (list_add_head (Isr i) Isr_Hdr)) ok
       else
         bindM (list_for_each_safe (\<lambda>s. lnext (isr_links s)) Isr_Hdr (reg_body i int_pri) None) (\<lambda>r.
         case r of
           None \<Rightarrow> thenM (in_links (list_add_tail (Isr i) Isr_Hdr)) ok
         | Some Reg_Ok \<Rightarrow> ok
         | Some Reg_Error \<Rightarrow> put_entry i buf_ele)))))"

definition change_body :: "u8 \<Rightarrow> isr_node \<Rightarrow> bool \<Rightarrow> (('h, 'd) intc_st, bool \<times> bool) prog" where
  "change_body int_pri pos found =
     bindM (isr_at pos) (\<lambda>tmp. if int_pri = pri tmp then retM (True, True) else retM (found, False))"

definition intc_service_change_handler :: "u8 \<Rightarrow> nat option \<Rightarrow> (('h, 'd) intc_st, unit) prog" where
  "intc_service_change_handler num isr =
    (let i = unat num in
     if INTC_MAX_COUNT \<le> i then failM Bad_Index
     else
       bindM (save_entry i) (\<lambda>buf_ele.
       let int_pri = pri (fst buf_ele) in
       if isr_func (fst buf_ele) = None then retM ()
       else
         bindM (in_links (list_empty Isr_Hdr)) (\<lambda>empty.
         if empty then put_entry i buf_ele
         else
           bindM (list_for_each_safe (\<lambda>s. lnext (isr_links s)) Isr_Hdr (change_body int_pri) False) (\<lambda>found.
           put_entry i (if found then ((fst buf_ele)\<lparr>isr_func := isr\<rparr>, snd buf_ele) else buf_ele)))))"

section \<open>Enabling, disabling and the two interrupt lines\<close>

definition intc_spurious :: "('s, unit) prog" where
  "intc_spurious = assertM False"

definition intc_enable :: "string \<Rightarrow> nat \<Rightarrow> (('h, 'd) intc_st, unit) prog" where
  "intc_enable mem0 index =
     thenM (in_drv (sddev_control mem0 (Some ICU_DEV_NAME) CMD_ICU_INT_ENABLE (Some (BIT index)))) (retM ())"

definition intc_disable :: "string \<Rightarrow> nat \<Rightarrow> (('h, 'd) intc_st, unit) prog" where
  "intc_disable mem0 index =
     thenM (in_drv (sddev_control mem0 (Some ICU_DEV_NAME) CMD_ICU_INT_DISABLE (Some (BIT index)))) (retM ())"

definition intc_irq :: "'h icu_env \<Rightarrow> ('h, 'd) isr_env \<Rightarrow> (('h, 'd) intc_st, unit) prog" where
  "intc_irq ienv env =
     bindM (in_drv (in_world (icu_ctrl ienv CMD_GET_INTR_STATUS None))) (\<lambda>r.
     let irq_status = fst r AND 0xFFFF in
     thenM (in_drv (in_world (icu_ctrl ienv CMD_CLR_INTR_STATUS (Some irq_status))))
           (intc_hdl_entry env irq_status))"

definition intc_fiq :: "'h icu_env \<Rightarrow> ('h, 'd) isr_env \<Rightarrow> (('h, 'd) intc_st, unit) prog" where
  "intc_fiq ienv env =
     bindM (in_drv (in_world (icu_ctrl ienv CMD_GET_INTR_STATUS None))) (\<lambda>r.
     let fiq_status = fst r AND 0xFFFF0000 in
     thenM (in_drv (in_world (icu_ctrl ienv CMD_CLR_INTR_STATUS (Some fiq_status))))
           (intc_hdl_entry env fiq_status))"

text \<open>
  \<open>intc_init\<close> after it has stored the exception vectors: the MAC interrupts
  \<open>FIQ_MAC_GENERAL\<close> (22), \<open>PROT_TRIGGER\<close> (21), \<open>TX_TRIGGER\<close> (20), \<open>RX_TRIGGER\<close> (19), \<open>TX_RX_MISC\<close> (18),
  \<open>TX_RX_TIMER\<close> (17) and \<open>FIQ_MODEM\<close> (16), then both lines. \<open>intc_deinit\<close> goes up to \<open>FIQ_DPLL_UNLOCK\<close> (28).
\<close>

definition intc_init :: "string \<Rightarrow> (('h, 'd) intc_st, unit) prog" where
  "intc_init mem0 =
     thenM (forM [22, 21, 20, 19, 18, 17, 16] (intc_enable mem0))
    (thenM (in_drv (sddev_control mem0 (Some ICU_DEV_NAME) CMD_ICU_GLOBAL_INT_ENABLE (Some 3)))
           (retM ()))"

definition intc_deinit :: "string \<Rightarrow> (('h, 'd) intc_st, unit) prog" where
  "intc_deinit mem0 =
     thenM (forM [0..<29] (intc_disable mem0))
    (thenM (in_drv (sddev_control mem0 (Some ICU_DEV_NAME) CMD_ICU_GLOBAL_INT_DISABLE (Some 3)))
           (retM ()))"

text \<open>The state at start-up: a zeroed table and an empty list.\<close>

definition intc_start :: "('h, u32 option) drv_st \<Rightarrow> 'd \<Rightarrow> ('h, 'd) intc_st" where
  "intc_start d0 x0 = \<lparr>isrs = (\<lambda>_. \<lparr>isr_func = None, pri = 0, int_num = 0\<rparr>), isrs_mask = 0,
     isr_links = \<lparr>lnext = (\<lambda>n. if n = Isr_Hdr then Some Isr_Hdr else None),
                  lprev = (\<lambda>n. if n = Isr_Hdr then Some Isr_Hdr else None)\<rparr>,
     drv = d0, devs = x0\<rparr>"

interpretation isr: list_owner "isr_links :: ('h, 'd) intc_st \<Rightarrow> isr_node links" isr_links_update
  by unfold_locales simp

end
