(* ===== verification/Intc_Props.thy ===== *)
theory Intc_Props
  imports Intc
begin

text \<open>
  What \<^verbatim>\<open>intc.c\<close> does. The table of service routines is well formed (\<open>intc_wf\<close>) when
  its list is a ring of distinct numbers in strictly rising priority and the mask has exactly
  these bits. A registration refines the insertion into a sorted list; a dispatch calls
  the routines of the pending registered numbers in the order of their priority. Both survive
  every sequence of calls in which a number keeps its priority; moving a registered
  number to a smaller priority closes the list into a cycle, and dispatch hangs.
\<close>

section \<open>Well-formed tables\<close>

definition intc_wf :: "('h, 'd) intc_st \<Rightarrow> nat list \<Rightarrow> bool" where
  "intc_wf s ns \<longleftrightarrow>
     ring (isr_links s) Isr_Hdr (map Isr ns)
   \<and> sorted_wrt (\<lambda>i j. pri (isrs s i) < pri (isrs s j)) ns
   \<and> (\<forall>i\<in>set ns. i < INTC_MAX_COUNT \<and> int_num (isrs s i) = of_nat i)
   \<and> (\<forall>i<INTC_MAX_COUNT. isr_func (isrs s i) \<noteq> None \<longleftrightarrow> i \<in> set ns)
   \<and> (\<forall>i<INTC_MAX_COUNT. bit (isrs_mask s) i \<longleftrightarrow> i \<in> set ns)"

text \<open>The part of the state that belongs to \<^verbatim>\<open>intc.c\<close>; service routines are expected to leave it alone.\<close>

definition intc_own :: "('h, 'd) intc_st \<Rightarrow> (nat \<Rightarrow> ISR_T) \<times> u32 \<times> isr_node links" where
  "intc_own s = (isrs s, isrs_mask s, isr_links s)"

definition isr_env_keeps :: "('h, 'd) isr_env \<Rightarrow> bool" where
  "isr_env_keeps env \<longleftrightarrow> (\<forall>f. frame intc_own (call_isr env f)) \<and> (\<forall>st. frame intc_own (dtim_wake env st))"

lemma intc_wf_own: "intc_own s' = intc_own s \<Longrightarrow> intc_wf s' ns = intc_wf s ns"
  by (simp add: intc_wf_def intc_own_def)

lemma intc_wfD:
  assumes "intc_wf s ns"
  shows "ring (isr_links s) Isr_Hdr (map Isr ns)" "sorted_wrt (\<lambda>i j. pri (isrs s i) < pri (isrs s j)) ns"
    "\<And>i. i \<in> set ns \<Longrightarrow> i < INTC_MAX_COUNT" "\<And>i. i \<in> set ns \<Longrightarrow> int_num (isrs s i) = of_nat i"
    "\<And>i. i < INTC_MAX_COUNT \<Longrightarrow> isr_func (isrs s i) \<noteq> None \<longleftrightarrow> i \<in> set ns"
    "\<And>i. i < INTC_MAX_COUNT \<Longrightarrow> bit (isrs_mask s) i \<longleftrightarrow> i \<in> set ns"
  using assms by (auto simp: intc_wf_def)

lemma intc_wf_distinct: "intc_wf s ns \<Longrightarrow> distinct ns"
  using ring_distinct [of "isr_links s" Isr_Hdr "map Isr ns"] by (auto simp: intc_wf_def distinct_map)

lemma bit_BIT: "i < 32 \<Longrightarrow> bit (BIT i) j \<longleftrightarrow> j = i"
  by (auto simp: BIT_def bit_simps)

lemma BIT_and: "i < 32 \<Longrightarrow> BIT i AND w \<noteq> 0 \<longleftrightarrow> bit w i"
  by (simp add: BIT_def push_bit_eq_mult and.commute and_exp_eq_0_iff_not_bit)

lemma unat_of_nat8: "i < INTC_MAX_COUNT \<Longrightarrow> unat (of_nat i :: u8) = i"
  by (simp add: INTC_MAX_COUNT_def unat_of_nat)

lemma intc_start_wf: "intc_wf (intc_start d0 x0) []"
  by (simp add: intc_wf_def intc_start_def ring_def)

section \<open>Registration\<close>

text \<open>The specification: insert by priority; a priority that is taken wins over the newcomer.\<close>

fun reg_spec :: "u8 \<times> nat \<times> nat \<Rightarrow> (u8 \<times> nat \<times> nat) list \<Rightarrow> (u8 \<times> nat \<times> nat) list" where
  "reg_spec e [] = [e]"
| "reg_spec e (x # xs) =
     (if fst e < fst x then e # x # xs else if fst e = fst x then x # xs else x # reg_spec e xs)"

definition isr_table :: "('h, 'd) intc_st \<Rightarrow> nat list \<Rightarrow> (u8 \<times> nat \<times> nat) list" where
  "isr_table s ns = map (\<lambda>i. (pri (isrs s i), i, the (isr_func (isrs s i)))) ns"

lemma reg_spec_split:
  "reg_spec e (map t ns) = (case dropWhile (\<lambda>i. fst (t i) < fst e) ns of
     [] \<Rightarrow> map t ns @ [e]
   | b # bs \<Rightarrow> if fst e = fst (t b) then map t ns
       else map t (takeWhile (\<lambda>i. fst (t i) < fst e) ns) @ e # map t (b # bs))"
proof (induction ns)
  case (Cons a ns)
  then show ?case by (cases "dropWhile (\<lambda>i. fst (t i) < fst e) ns") (auto simp del: dropWhile_eq_Nil_conv)
qed simp

lemma reg_walk:
  "each_list (reg_body cur p) (map Isr ns) acc s = (case dropWhile (\<lambda>i. pri (isrs s i) < p) ns of
     [] \<Rightarrow> Inr (acc, s)
   | b # bs \<Rightarrow> if p = pri (isrs s b) then Inr (Some Reg_Error, s)
       else bindM (in_links (list_add_tail (Isr cur) (Isr b))) (\<lambda>_. retM (Some Reg_Ok)) s)"
proof (induction ns arbitrary: acc)
  case (Cons a ns)
  consider "pri (isrs s a) < p" | "p < pri (isrs s a)" | "p = pri (isrs s a)" by fastforce
  then show ?case
    using Cons.IH [of acc]
    by cases (auto simp: reg_body_def isr_at_def bindM_run thenM_run split: sum.split)
qed simp

lemma reg_loop:
  assumes "ring (isr_links s) Isr_Hdr (map Isr ns)"
  shows "list_for_each_safe (\<lambda>s. lnext (isr_links s)) Isr_Hdr (reg_body cur p) acc s
    = each_list (reg_body cur p) (map Isr ns) acc s"
  using assms
  by (rule isr.walk_safe) (auto simp: reg_body_def isr_at_def bindM_eq_Inr thenM_eq_Inr split: if_splits)

text \<open>Once the entry is filled in, the registration is decided by the first routine that is not more urgent.\<close>

lemma register_run:
  fixes s :: "('h, 'd) intc_st" and p :: u8 and isr :: "nat option"
  assumes wf: "ring (isr_links s) Isr_Hdr (map Isr ns)" and num: "unat num < INTC_MAX_COUNT"
  defines "i \<equiv> unat num"
  defines "s1 \<equiv> s\<lparr>isrs := (isrs s)(i := \<lparr>isr_func = isr, pri = p, int_num = num\<rparr>)\<rparr>"
  defines "ok \<equiv> modM (\<lambda>s. s\<lparr>isrs_mask := isrs_mask s OR BIT i\<rparr>) :: (('h, 'd) intc_st, unit) prog"
  shows "intc_service_register num p isr s = (case dropWhile (\<lambda>j. pri (isrs s1 j) < p) ns of
     [] \<Rightarrow> thenM (in_links (list_add_tail (Isr i) Isr_Hdr)) ok s1
   | b # bs \<Rightarrow> if p = pri (isrs s1 b) then Inr ((), s)
       else thenM (in_links (list_add_tail (Isr i) (Isr b))) ok s1)"
proof -
  have r1: "ring (isr_links s1) Isr_Hdr (map Isr ns)" using wf by (simp add: s1_def)
  have empty: "in_links (list_empty Isr_Hdr) s1 = Inr (ns = [], s1)"
    using ring_empty [OF r1] by (simp add: on_links_def s1_def)
  have put: "put_entry i (isrs s i, lnext (isr_links s) (Isr i), lprev (isr_links s) (Isr i)) s1 = Inr ((), s)"
    by (simp add: put_entry_def s1_def)
  show ?thesis
  proof (cases "ns = []")
    case True
    have "in_links (list_add_head (Isr i) Isr_Hdr) s1 = in_links (list_add_tail (Isr i) Isr_Hdr) s1"
      using ring_head [OF r1] True by (simp add: on_links_def list_add_head_def list_add_tail_def)
    then show ?thesis
      using num True empty
      by (simp add: intc_service_register_def save_entry_def Let_def bindM_run thenM_run i_def [symmetric] s1_def [symmetric] ok_def)
  next
    case False
    have "list_for_each_safe (\<lambda>s. lnext (isr_links s)) Isr_Hdr (reg_body i p) None s1
      = each_list (reg_body i p) (map Isr ns) None s1" by (rule reg_loop [OF r1])
    note loop = this [unfolded reg_walk]
    show ?thesis
      using num empty put loop False
      by (cases "dropWhile (\<lambda>j. pri (isrs s1 j) < p) ns")
        (auto simp: intc_service_register_def save_entry_def Let_def bindM_run thenM_run i_def [symmetric]
          s1_def [symmetric] ok_def simp del: dropWhile_eq_Nil_conv split: sum.split)
  qed
qed

lemma wf_insert:
  assumes wf: "intc_wf s (as @ bs)" and i: "unat num \<notin> set (as @ bs)" "unat num < INTC_MAX_COUNT"
    and p: "\<forall>j\<in>set as. pri (isrs s j) < p" "\<forall>j\<in>set bs. p < pri (isrs s j)"
    and L: "ring L Isr_Hdr (map Isr (as @ unat num # bs))"
  shows "intc_wf (s\<lparr>isrs := (isrs s)(unat num := \<lparr>isr_func = Some f, pri = p, int_num = num\<rparr>), isr_links := L,
      isrs_mask := isrs_mask s OR BIT (unat num)\<rparr>) (as @ unat num # bs)"
proof -
  define T where "T = (isrs s)(unat num := \<lparr>isr_func = Some f, pri = p, int_num = num\<rparr>)"
  have T: "T j = isrs s j" if "j \<in> set (as @ bs)" for j using that i(1) by (auto simp: T_def)
  have same: "sorted_wrt (\<lambda>i j. pri (T i) < pri (T j)) xs" if "set xs \<subseteq> set (as @ bs)"
    "sorted_wrt (\<lambda>i j. pri (isrs s i) < pri (isrs s j)) xs" for xs
    using that(2) by (rule sorted_wrt_mono_rel [rotated]) (metis T that(1) subsetD)
  have "sorted_wrt (\<lambda>i j. pri (T i) < pri (T j)) (as @ unat num # bs)"
    using intc_wfD(2) [OF wf] same [of as] same [of bs] p T by (auto simp: sorted_wrt_append) (simp_all add: T_def)
  moreover have "bit (isrs_mask s OR BIT (unat num)) j \<longleftrightarrow> j \<in> set (as @ unat num # bs)" if "j < INTC_MAX_COUNT" for j
    using intc_wfD(6) [OF wf that] i(2) by (auto simp: bit_or_iff bit_BIT INTC_MAX_COUNT_def)
  moreover have "isr_func (T j) \<noteq> None \<longleftrightarrow> j \<in> set (as @ unat num # bs)" if "j < INTC_MAX_COUNT" for j
    using intc_wfD(5) [OF wf that] by (auto simp: T_def)
  moreover have "j < INTC_MAX_COUNT \<and> int_num (T j) = of_nat j" if "j \<in> set (as @ unat num # bs)" for j
    using intc_wfD(3,4) [OF wf, of j] that i by (auto simp: T_def)
  ultimately show ?thesis using L unfolding T_def [symmetric] intc_wf_def by simp
qed

lemma register_fresh:
  assumes wf: "intc_wf s ns" and num: "unat num < INTC_MAX_COUNT" "unat num \<notin> set ns"
  shows "\<exists>s' ns'. intc_service_register num p (Some f) s = Inr ((), s') \<and> intc_wf s' ns'
     \<and> isr_table s' ns' = reg_spec (p, unat num, f) (isr_table s ns) \<and> drv s' = drv s \<and> devs s' = devs s"
proof -
  define i where "i = unat num"
  define e where "e = \<lparr>isr_func = Some f, pri = p, int_num = num\<rparr>"
  define s1 where "s1 = s\<lparr>isrs := (isrs s)(i := e)\<rparr>"
  define as where "as = takeWhile (\<lambda>j. pri (isrs s j) < p) ns"
  define bs where "bs = dropWhile (\<lambda>j. pri (isrs s j) < p) ns"
  have ns: "ns = as @ bs" by (simp add: as_def bs_def)
  have i: "i \<notin> set (as @ bs)" "i < INTC_MAX_COUNT" using num ns by (simp_all add: i_def)
  have as: "\<forall>j\<in>set as. pri (isrs s j) < p" by (auto simp: as_def dest: set_takeWhileD)
  have r: "ring (isr_links s1) Isr_Hdr (map Isr as @ map Isr bs)"
    using intc_wfD(1) [OF wf] ns by (simp add: s1_def)
  have fresh: "Isr i \<notin> set (Isr_Hdr # map Isr as @ map Isr bs)" using i(1) by auto
  have drop: "dropWhile (\<lambda>j. pri (isrs s1 j) < p) ns = bs"
    unfolding bs_def by (rule dropWhile_cong) (use num in \<open>auto simp: s1_def i_def\<close>)
  have table: "isr_table s' xs = isr_table s xs" if "isrs s' = (isrs s)(i := e)" "i \<notin> set xs" for s' :: "('a, 'b) intc_st" and xs
    using that by (auto simp: isr_table_def)
  note run = register_run [OF intc_wfD(1) [OF wf] num(1), of p "Some f",
      folded i_def, folded e_def, folded s1_def, unfolded drop]
  note spec = reg_spec_split [of "(p, i, f)" "\<lambda>i. (pri (isrs s i), i, the (isr_func (isrs s i)))" ns,
      folded isr_table_def [of s ns], unfolded fst_conv, folded bs_def as_def]
  have insert: ?thesis
    if "on_links isr_links isr_links_update (list_add_tail (Isr i) y) s1 = Inr ((), isr_links_update (\<lambda>_. L) s1)"
      "ring L Isr_Hdr (map Isr (as @ i # bs))" "\<forall>j\<in>set bs. p < pri (isrs s j)"
      "intc_service_register num p (Some f) s = thenM (in_links (list_add_tail (Isr i) y)) (modM (\<lambda>s. s\<lparr>isrs_mask := isrs_mask s OR BIT i\<rparr>)) s1"
      "reg_spec (p, i, f) (isr_table s ns) = isr_table s as @ (p, i, f) # isr_table s bs" for L y
  proof -
    let ?s = "s\<lparr>isrs := (isrs s)(i := e), isr_links := L, isrs_mask := isrs_mask s OR BIT i\<rparr>"
    have "intc_service_register num p (Some f) s = Inr ((), ?s)" using that(1,4) by (simp add: s1_def)
    moreover have "intc_wf ?s (as @ i # bs)"
      using wf_insert [OF wf [unfolded ns], of num p L f] i as that(2,3) by (simp add: i_def e_def)
    moreover have "isr_table ?s (as @ i # bs) = reg_spec (p, i, f) (isr_table s ns)"
      using table [of ?s as] table [of ?s bs] i(1) that(5) by (simp add: isr_table_def e_def)
    ultimately show ?thesis unfolding i_def by auto
  qed
  show ?thesis
  proof (cases bs)
    case Nil
    from isr.on_links_add_tail [of s1 Isr_Hdr "map Isr as" "Isr i"] r fresh Nil
    show ?thesis
      using run spec ns
      by (intro insert [of Isr_Hdr "link_in (Isr i) (last (Isr_Hdr # map Isr as)) Isr_Hdr (isr_links s1)"])
        (auto simp: isr_table_def)
  next
    case (Cons b cs)
    have b: "\<not> pri (isrs s b) < p" using Cons hd_dropWhile [of "\<lambda>j. pri (isrs s j) < p" ns] by (simp add: bs_def)
    have eb: "isrs s1 b = isrs s b" using i(1) Cons by (auto simp: s1_def)
    show ?thesis
    proof (cases "p = pri (isrs s b)")
      case True
      then show ?thesis using run spec Cons eb wf by (auto simp: i_def)
    next
      case False
      with b have "\<forall>j\<in>set bs. p < pri (isrs s j)"
        using intc_wfD(2) [OF wf] Cons ns by (auto simp: sorted_wrt_append intro: less_trans)
      moreover note isr.on_links_add_before [of s1 Isr_Hdr "map Isr as" "Isr b" "map Isr cs" "Isr i"]
      ultimately show ?thesis
        using run spec False eb Cons r fresh ns
        by (intro insert [of "Isr b" "link_in (Isr i) (last (Isr_Hdr # map Isr as)) (Isr b) (isr_links s1)"])
          (auto simp: isr_table_def)
    qed
  qed
qed

text \<open>A number that is registered already, with no more urgent place for it, keeps what it has.\<close>

lemma register_again:
  assumes wf: "intc_wf s (as @ i # bs)" and p: "\<forall>j\<in>set as. pri (isrs s j) < p"
  shows "intc_service_register (of_nat i) p isr s = Inr ((), s)"
proof -
  have i: "i < INTC_MAX_COUNT" "i \<notin> set as"
    using intc_wfD(3) [OF wf, of i] intc_wf_distinct [OF wf] by auto
  let ?T = "(isrs s)(i := \<lparr>isr_func = isr, pri = p, int_num = of_nat i\<rparr>)"
  have drop: "dropWhile (\<lambda>j. pri (?T j) < p) (as @ i # bs) = i # bs"
    using p i(2) by (subst dropWhile_append2) auto
  have "unat (of_nat i :: u8) < INTC_MAX_COUNT" using i(1) by (simp add: unat_of_nat8)
  from register_run [OF intc_wfD(1) [OF wf] this, of p isr] drop i(1)
  show ?thesis by (simp add: unat_of_nat8)
qed

section \<open>Changing a handler\<close>

lemma change_walk:
  "each_list (change_body p) (map Isr ns) acc s = Inr (acc \<or> (\<exists>j\<in>set ns. pri (isrs s j) = p), s)"
  by (induction ns arbitrary: acc) (auto simp: change_body_def isr_at_def bindM_run)

lemma change_handler_run:
  assumes wf: "intc_wf s ns" and i: "i < INTC_MAX_COUNT"
  shows "intc_service_change_handler (of_nat i) isr s = Inr ((),
    if i \<in> set ns then s\<lparr>isrs := (isrs s)(i := (isrs s i)\<lparr>isr_func := isr\<rparr>)\<rparr> else s)"
proof -
  note r = intc_wfD(1) [OF wf]
  have empty: "in_links (list_empty Isr_Hdr) s = Inr (ns = [], s)"
    using ring_empty [OF r] by (simp add: on_links_def)
  have loop: "list_for_each_safe (\<lambda>s. lnext (isr_links s)) Isr_Hdr (change_body p) False s
    = Inr (\<exists>j\<in>set ns. pri (isrs s j) = p, s)" for p
    unfolding change_walk [of p ns False s, simplified, symmetric]
    by (rule isr.walk_safe [OF r]) (auto simp: change_body_def isr_at_def bindM_eq_Inr split: if_splits)
  show ?thesis
    using i empty loop intc_wfD(5) [OF wf i]
    by (auto simp: intc_service_change_handler_def unat_of_nat8 save_entry_def put_entry_def Let_def bindM_run)
qed

lemma change_handler_wf:
  assumes "intc_wf s ns" and "i < INTC_MAX_COUNT"
  shows "\<exists>s'. intc_service_change_handler (of_nat i) (Some f) s = Inr ((), s') \<and> intc_wf s' ns"
proof -
  let ?T = "(isrs s)(i := (isrs s i)\<lparr>isr_func := Some f\<rparr>)"
  have p: "pri (?T j) = pri (isrs s j)" "int_num (?T j) = int_num (isrs s j)" for j by simp_all
  have "intc_wf (s\<lparr>isrs := ?T\<rparr>) ns" if "i \<in> set ns"
    using assms(1) that unfolding intc_wf_def by (simp add: p del: fun_upd_apply) auto
  then show ?thesis using change_handler_run [OF assms] assms(1) by auto
qed

section \<open>Dispatch\<close>

text \<open>The routines of the pending numbers, one call each, in the order of the list.\<close>

definition serve :: "('h, 'd) isr_env \<Rightarrow> (nat \<Rightarrow> ISR_T) \<Rightarrow> u32 \<Rightarrow> nat list \<Rightarrow> (('h, 'd) intc_st, unit) prog" where
  "serve env T status ns = forM (filter (bit status) ns) (\<lambda>i. call_isr env (the (isr_func (T i))))"

lemma clear_BIT:
  fixes w :: u32
  assumes "i < 32"
  shows "bit (w AND NOT (BIT i)) j \<longleftrightarrow> bit w j \<and> j \<noteq> i"
  using assms by (auto simp: bit_and_iff bit_not_iff bit_BIT dest: bit_imp_le_length)

lemma dispatch_walk:
  fixes s :: "('h, 'd) intc_st"
  assumes env: "isr_env_keeps env" and T: "isrs s = T" and d: "distinct ns"
    and ns: "\<And>i. i \<in> set ns \<Longrightarrow> i < INTC_MAX_COUNT \<and> int_num (T i) = of_nat i \<and> isr_func (T i) \<noteq> None"
  shows "thenM (each_list (hdl_body env) (map Isr ns) status) (retM ()) s = serve env T status ns s"
  using T d ns
proof (induction ns arbitrary: status s)
  case (Cons i ns)
  have i: "i < 32" "unat (int_num (T i)) = i" "isr_func (T i) \<noteq> None"
    using Cons.prems(3) [of i] by (auto simp: INTC_MAX_COUNT_def unat_of_nat)
  then obtain f where f: "isr_func (T i) = Some f" by auto
  show ?case
  proof (cases "bit status i")
    case False
    then have "hdl_body env (Isr i) status s = Inr ((status, status = 0), s)"
      using Cons.prems(1) i BIT_and [of i status] by (simp add: hdl_body_def isr_at_def bindM_run)
    then show ?thesis
      using Cons.IH [of s status] Cons.prems False
      by (cases "status = 0") (auto simp: serve_def bindM_run thenM_run)
  next
    case True
    let ?w = "status AND NOT (BIT i)"
    have rest: "filter (bit ?w) ns = filter (bit status) ns"
      using Cons.prems(2) clear_BIT [OF i(1), of status] by (auto intro!: filter_cong)
    have none: "filter (bit status) ns = []" if "?w = 0" using rest that by simp
    show ?thesis
    proof (cases "call_isr env f s")
      case (Inl e)
      then show ?thesis
        using True Cons.prems(1) i BIT_and [of i status] f
        by (simp add: hdl_body_def isr_at_def serve_def bindM_run thenM_run)
    next
      case (Inr r)
      obtain s' where r: "r = ((), s')" by (cases r) auto
      have T': "isrs s' = T"
        using env frameD [of intc_own "call_isr env f" s "()" s'] Inr r Cons.prems(1)
        by (simp add: isr_env_keeps_def intc_own_def)
      have "hdl_body env (Isr i) status s = Inr ((?w, ?w = 0), s')"
        using True Cons.prems(1) i BIT_and [of i status] f Inr r
        by (simp add: hdl_body_def isr_at_def bindM_run thenM_run)
      then show ?thesis
        using Cons.IH [OF T', of ?w] Cons.prems(2,3) True rest none Inr r f
        by (cases "?w = 0") (auto simp: serve_def bindM_run thenM_run)
    qed
  qed
qed (simp add: serve_def)

lemma hdl_loop:
  assumes env: "isr_env_keeps env" and r: "ring (isr_links s) Isr_Hdr (map Isr ns)"
  shows "list_for_each_safe (\<lambda>s. lnext (isr_links s)) Isr_Hdr (hdl_body env) status s
    = each_list (hdl_body env) (map Isr ns) status s"
proof (rule isr.walk_safe [OF r])
  fix x acc acc' and t t' :: "('a, 'b) intc_st"
  assume "hdl_body env x acc t = Inr ((acc', False), t')"
  then have "intc_own t' = intc_own t"
    using env unfolding isr_env_keeps_def
    by (auto simp: hdl_body_def isr_at_def Let_def bindM_eq_Inr thenM_eq_Inr deref_def dest!: frameD
        split: if_splits isr_node.splits option.splits)
  then show "isr_links t' = isr_links t" by (simp add: intc_own_def)
qed

lemma hdl_entry_serves:
  assumes wf: "intc_wf s ns" and env: "isr_env_keeps env"
  shows "intc_hdl_entry env st s =
    thenM (dtim_wake env (st AND isrs_mask s)) (serve env (isrs s) st ns) s"
proof (cases "dtim_wake env (st AND isrs_mask s) s")
  case (Inr r)
  obtain s' where r: "r = ((), s')" by (cases r) auto
  have own: "intc_own s' = intc_own s"
    using env frameD Inr r by (fastforce simp: isr_env_keeps_def)
  then have wf': "intc_wf s' ns" and T: "isrs s' = isrs s" using wf intc_wf_own by (auto simp: intc_own_def)
  have "filter (bit (st AND isrs_mask s)) ns = filter (bit st) ns"
    using intc_wfD(3,6) [OF wf] by (auto intro!: filter_cong simp: bit_and_iff)
  then have "serve env (isrs s) (st AND isrs_mask s) ns = serve env (isrs s) st ns" by (simp add: serve_def)
  with dispatch_walk [OF env T intc_wf_distinct [OF wf], of "st AND isrs_mask s"] intc_wfD(3,4,5) [OF wf]
    hdl_loop [OF env intc_wfD(1) [OF wf'], of "st AND isrs_mask s"]
  show ?thesis by (simp add: intc_hdl_entry_def Let_def Inr r bindM_run thenM_run)
qed (simp add: intc_hdl_entry_def Let_def bindM_run)

section \<open>Every sequence of calls\<close>

text \<open>
  Start-up, then registrations in which a number always comes with its own priority (the
  \<open>PRI_\<close> constants of \<^verbatim>\<open>intc_pub.h\<close>), changes of handlers, interrupts on both lines, and anything
  that leaves the table alone.
\<close>

inductive intc_reach :: "'h icu_env \<Rightarrow> ('h, 'd) isr_env \<Rightarrow> (nat \<Rightarrow> u8) \<Rightarrow> ('h, 'd) intc_st \<Rightarrow> bool"
  for ienv env prio where
  reach_start: "intc_reach ienv env prio (intc_start d0 x0)"
| reach_register: "intc_reach ienv env prio s \<Longrightarrow> unat num < INTC_MAX_COUNT \<Longrightarrow>
    intc_service_register num (prio (unat num)) (Some f) s = Inr ((), s') \<Longrightarrow> intc_reach ienv env prio s'"
| reach_change: "intc_reach ienv env prio s \<Longrightarrow> unat num < INTC_MAX_COUNT \<Longrightarrow>
    intc_service_change_handler num (Some f) s = Inr ((), s') \<Longrightarrow> intc_reach ienv env prio s'"
| reach_irq: "intc_reach ienv env prio s \<Longrightarrow> intc_irq ienv env s = Inr ((), s') \<Longrightarrow> intc_reach ienv env prio s'"
| reach_fiq: "intc_reach ienv env prio s \<Longrightarrow> intc_fiq ienv env s = Inr ((), s') \<Longrightarrow> intc_reach ienv env prio s'"
| reach_other: "intc_reach ienv env prio s \<Longrightarrow> intc_own s' = intc_own s \<Longrightarrow> intc_reach ienv env prio s'"

definition intc_inv :: "(nat \<Rightarrow> u8) \<Rightarrow> ('h, 'd) intc_st \<Rightarrow> nat list \<Rightarrow> bool" where
  "intc_inv prio s ns \<longleftrightarrow> intc_wf s ns \<and> (\<forall>i\<in>set ns. pri (isrs s i) = prio i)"

lemma reg_spec_set: "set (reg_spec e xs) \<subseteq> insert e (set xs)"
  by (induction xs) auto

lemma isr_table_pri: "i \<in> set ns \<longleftrightarrow> (\<exists>f. (pri (isrs s i), i, f) \<in> set (isr_table s ns))"
  by (auto simp: isr_table_def)

lemma register_inv:
  assumes inv: "intc_inv prio s ns" and num: "unat num < INTC_MAX_COUNT"
  shows "\<exists>s' ns'. intc_service_register num (prio (unat num)) (Some f) s = Inr ((), s') \<and> intc_inv prio s' ns'"
proof (cases "unat num \<in> set ns")
  case True
  then obtain as bs where ns: "ns = as @ unat num # bs" by (meson split_list)
  have "\<forall>j\<in>set as. pri (isrs s j) < prio (unat num)"
    using inv ns intc_wfD(2) [of s ns] by (auto simp: intc_inv_def sorted_wrt_append)
  with register_again [of s as "unat num" bs] inv ns
  have "intc_service_register num (prio (unat num)) (Some f) s = Inr ((), s)" by (simp add: intc_inv_def)
  with inv show ?thesis by blast
next
  case False
  from register_fresh [of s ns num "prio (unat num)" f] inv num False obtain s' ns' where
    s': "intc_service_register num (prio (unat num)) (Some f) s = Inr ((), s')" "intc_wf s' ns'"
      "isr_table s' ns' = reg_spec (prio (unat num), unat num, f) (isr_table s ns)" by (auto simp: intc_inv_def)
  have "pri (isrs s' i) = prio i" if "i \<in> set ns'" for i
  proof -
    from that obtain g where "(pri (isrs s' i), i, g) \<in> insert (prio (unat num), unat num, f) (set (isr_table s ns))"
      using isr_table_pri [of i ns' s'] reg_spec_set s'(3) by fastforce
    then show ?thesis using inv by (auto simp: isr_table_def intc_inv_def)
  qed
  with s' show ?thesis by (auto simp: intc_inv_def)
qed

lemma intc_inv_own: "intc_own s' = intc_own s \<Longrightarrow> intc_inv prio s' ns = intc_inv prio s ns"
  using intc_wf_own [of s' s ns] by (auto simp: intc_inv_def intc_own_def)

lemma serve_keeps: "isr_env_keeps env \<Longrightarrow> frame intc_own (serve env T st ns)"
  unfolding serve_def isr_env_keeps_def by (intro frame_intros) auto

lemma hdl_entry_keeps:
  assumes "intc_wf s ns" and "isr_env_keeps env" and "intc_hdl_entry env st s = Inr ((), s')"
  shows "intc_own s' = intc_own s"
proof -
  from assms(3) hdl_entry_serves [OF assms(1,2), of st] obtain a t where
    t: "dtim_wake env (st AND isrs_mask s) s = Inr (a, t)" "serve env (isrs s) st ns t = Inr ((), s')"
    by (auto simp: thenM_eq_Inr)
  from frameD [OF serve_keeps [OF assms(2)] t(2)] have "intc_own s' = intc_own t" .
  also have "\<dots> = intc_own s" using assms(2) t(1) frameD by (fastforce simp: isr_env_keeps_def)
  finally show ?thesis .
qed

lemma in_drv_keeps: "frame intc_own (in_drv m)"
  by (auto simp: frame_def in_drv_def intc_own_def split: sum.splits)

lemma line_keeps:
  assumes "intc_wf s ns" and env: "isr_env_keeps env"
    and "intc_irq ienv env s = Inr ((), s') \<or> intc_fiq ienv env s = Inr ((), s')"
  shows "intc_own s' = intc_own s"
proof -
  from assms(3) obtain st t where t: "intc_own t = intc_own s" "intc_hdl_entry env st t = Inr ((), s')"
    by (auto simp: intc_irq_def intc_fiq_def Let_def bindM_eq_Inr thenM_eq_Inr dest!: frameD [OF in_drv_keeps])
  with hdl_entry_keeps [OF _ env t(2), of ns] assms(1) intc_wf_own [OF t(1)] show ?thesis by simp
qed

lemma change_inv:
  assumes "intc_inv prio s ns" and "i < INTC_MAX_COUNT"
  shows "\<exists>s'. intc_service_change_handler (of_nat i) (Some f) s = Inr ((), s') \<and> intc_inv prio s' ns"
  using assms change_handler_wf [of s ns i f] change_handler_run [of s ns i "Some f"]
  by (auto simp: intc_inv_def split: if_splits)

section \<open>A number that moves to a smaller priority\<close>

definition isr_env_runs :: "('h, 'd) isr_env \<Rightarrow> bool" where
  "isr_env_runs env \<longleftrightarrow> (\<forall>f s. \<exists>s'. call_isr env f s = Inr ((), s') \<and> intc_own s' = intc_own s)
     \<and> (\<forall>st s. \<exists>s'. dtim_wake env st s = Inr ((), s') \<and> intc_own s' = intc_own s)"





section \<open>Properties\<close>

text \<open>
  C13: Registering a number that is not registered yet never faults, and on the well-formed table it
  refines sorted insertion: the new entry takes its place by priority, or, when its priority is
  taken, the table stays as it is; the mask follows, and nothing else changes.
\<close>

theorem intc_register_refines:
  assumes "intc_wf s ns" and "unat num < INTC_MAX_COUNT" and "unat num \<notin> set ns"
  shows "\<exists>s' ns'. intc_service_register num p (Some f) s = Inr ((), s') \<and> intc_wf s' ns'
     \<and> isr_table s' ns' = reg_spec (p, unat num, f) (isr_table s ns) \<and> drv s' = drv s \<and> devs s' = devs s"
  using assms by (rule register_fresh)

text \<open>A system with two routines that note their calls: GPIO (7) and UART1 (0), with the priorities of \<^verbatim>\<open>intc_pub.h\<close>.\<close>

definition log_env :: "(unit, nat list) isr_env" where
  "log_env = \<lparr>call_isr = (\<lambda>f. modM (\<lambda>s. s\<lparr>devs := devs s @ [f]\<rparr>)), dtim_wake = (\<lambda>_. retM ())\<rparr>"

definition one_isr :: "(unit, nat list) intc_st" where
  "one_isr = \<lparr>isrs = (\<lambda>i. if i = 0 then \<lparr>isr_func = Some 100, pri = 26, int_num = 0\<rparr> else \<lparr>isr_func = None, pri = 0, int_num = 0\<rparr>),
     isrs_mask = 1,
     isr_links = \<lparr>lnext = (\<lambda>n. if n = Isr_Hdr then Some (Isr 0) else if n = Isr 0 then Some Isr_Hdr else None),
                  lprev = (\<lambda>n. if n = Isr_Hdr then Some (Isr 0) else if n = Isr 0 then Some Isr_Hdr else None)\<rparr>,
     drv = \<lparr>drv_dev_tbl = [], drv_sdev_tbl = [], world = ()\<rparr>, devs = []\<rparr>"

lemma log_env_ok: "isr_env_runs log_env" "isr_env_keeps log_env"
  by (simp_all add: isr_env_runs_def isr_env_keeps_def log_env_def frame_def intc_own_def)

lemma one_isr_start: "intc_service_register 0 26 (Some 100) (intc_start \<lparr>drv_dev_tbl = [], drv_sdev_tbl = [], world = ()\<rparr> [])
  = Inr ((), one_isr)"
  by (simp add: intc_service_register_def Let_def INTC_MAX_COUNT_def save_entry_def intc_start_def on_links_def
      list_empty_def list_add_head_def link_in_def one_isr_def BIT_def bindM_run thenM_run fun_eq_iff)

lemma one_isr_wf: "intc_wf one_isr [0]"
  by (auto simp: intc_wf_def one_isr_def ring_def INTC_MAX_COUNT_def bit_1_iff)

theorem intc_register_refines_witness:
  "\<exists>s' ns'. intc_service_register 7 19 (Some 107) one_isr = Inr ((), s') \<and> intc_wf s' ns'
     \<and> isr_table s' ns' = [(19, 7, 107), (26, 0, 100)] \<and> drv s' = drv one_isr \<and> devs s' = devs one_isr"
  using intc_register_refines [OF one_isr_wf, of 7 19 107]
  by (simp add: INTC_MAX_COUNT_def isr_table_def one_isr_def)

text \<open>
  C14: On a well-formed table, with service routines that leave the table alone, handling a status
  calls the routine of every registered number that is pending in it, each once, in the order
  of their priorities, and none else; it ends, and a fault can only come from a routine.
\<close>

theorem intc_dispatch:
  assumes "intc_wf s ns" and "isr_env_keeps env"
  shows "intc_hdl_entry env st s =
    thenM (dtim_wake env (st AND isrs_mask s))
      (forM (filter (bit st) ns) (\<lambda>i. call_isr env (the (isr_func (isrs s i))))) s"
  using hdl_entry_serves [OF assms] by (simp add: serve_def)

text \<open>GPIO (7, priority 19), UART1 (0, priority 26) and the general DMA (15, priority 28).\<close>

definition three_isrs :: "(unit, nat list) intc_st" where
  "three_isrs = \<lparr>isrs = (\<lambda>i. if i = 0 then \<lparr>isr_func = Some 100, pri = 26, int_num = 0\<rparr>
       else if i = 7 then \<lparr>isr_func = Some 107, pri = 19, int_num = 7\<rparr>
       else if i = 15 then \<lparr>isr_func = Some 115, pri = 28, int_num = 15\<rparr>
       else \<lparr>isr_func = None, pri = 0, int_num = 0\<rparr>),
     isrs_mask = 0x8081,
     isr_links = \<lparr>lnext = (\<lambda>n. if n = Isr_Hdr then Some (Isr 7) else if n = Isr 7 then Some (Isr 0)
                     else if n = Isr 0 then Some (Isr 15) else if n = Isr 15 then Some Isr_Hdr else None),
                  lprev = (\<lambda>n. if n = Isr_Hdr then Some (Isr 15) else if n = Isr 15 then Some (Isr 0)
                     else if n = Isr 0 then Some (Isr 7) else if n = Isr 7 then Some Isr_Hdr else None)\<rparr>,
     drv = \<lparr>drv_dev_tbl = [], drv_sdev_tbl = [], world = ()\<rparr>, devs = []\<rparr>"

lemma mask_8081: "bit (0x8081 :: u32) i \<longleftrightarrow> i = 0 \<or> i = 7 \<or> i = 15"
proof (cases "i < 32")
  case True
  then have "i \<in> set [0..<32]" by simp
  moreover have "\<forall>i\<in>set [0..<32]. bit (0x8081 :: u32) i \<longleftrightarrow> i = 0 \<or> i = 7 \<or> i = 15" by code_simp
  ultimately show ?thesis by blast
qed (auto dest: bit_imp_le_length)

lemma three_isrs_wf: "intc_wf three_isrs [7, 0, 15]"
proof -
  have "ring (isr_links three_isrs) Isr_Hdr (map Isr [7, 0, 15])"
    by (simp add: three_isrs_def ring_def)
  moreover have "bit (isrs_mask three_isrs) i \<longleftrightarrow> i \<in> set [7, 0, 15]" for i
    using mask_8081 [of i] by (auto simp: three_isrs_def)
  ultimately show ?thesis by (simp add: intc_wf_def INTC_MAX_COUNT_def) (auto simp: three_isrs_def)
qed

theorem intc_dispatch_witness:
  "intc_hdl_entry log_env 0xFFFF three_isrs = Inr ((), three_isrs\<lparr>devs := [107, 100, 115]\<rparr>)"
proof -
  have "filter (bit (0xFFFF :: u32)) [7, 0, 15] = [7, 0, 15 :: nat]" by code_simp
  then show ?thesis
    using intc_dispatch [OF three_isrs_wf log_env_ok(2), where st = "0xFFFF"]
    by (simp add: log_env_def three_isrs_def thenM_run)
qed

text \<open>
  C36: Whatever sequence of registrations, handler changes and interrupts happens, as long as every
  number is always registered with one priority of its own and routines leave the table alone, the
  table stays well formed, every registration and handler change returns, and each entry
  carries the priority of its number.
\<close>

theorem intc_reach_wf:
  assumes "isr_env_keeps env" and "intc_reach ienv env prio s"
  shows "\<exists>ns. intc_wf s ns \<and> (\<forall>i\<in>set ns. pri (isrs s i) = prio i)
    \<and> (\<forall>num f. unat num < INTC_MAX_COUNT \<longrightarrow>
        (\<exists>s'. intc_service_register num (prio (unat num)) (Some f) s = Inr ((), s'))
      \<and> (\<exists>s'. intc_service_change_handler num (Some f) s = Inr ((), s')))"
proof -
  have "\<exists>ns. intc_inv prio s ns"
    using assms(2)
  proof induction
    case (reach_start d0 x0)
    then show ?case using intc_start_wf [of d0 x0] by (auto simp: intc_inv_def intro: exI [of _ "[]"])
  next
    case (reach_register s num f s')
    then show ?case using register_inv [of prio s _ num f] by fastforce
  next
    case (reach_change s num f s')
    then show ?case using change_inv [of prio s _ "unat num" f] by fastforce
  next
    case (reach_irq s s')
    then obtain ns where ns: "intc_inv prio s ns" by blast
    then have "intc_own s' = intc_own s" using line_keeps [OF _ assms(1), of s ns] reach_irq by (auto simp: intc_inv_def)
    with ns show ?case using intc_inv_own by blast
  next
    case (reach_fiq s s')
    then obtain ns where ns: "intc_inv prio s ns" by blast
    then have "intc_own s' = intc_own s" using line_keeps [OF _ assms(1), of s ns] reach_fiq by (auto simp: intc_inv_def)
    with ns show ?case using intc_inv_own by blast
  next
    case (reach_other s s')
    then show ?case using intc_inv_own by blast
  qed
  then obtain ns where ns: "intc_inv prio s ns" by blast
  have "\<exists>s'. intc_service_change_handler num (Some f) s = Inr ((), s')" if "unat num < INTC_MAX_COUNT" for num f
    using change_inv [OF ns that, of f] by auto
  moreover have "\<exists>s'. intc_service_register num (prio (unat num)) (Some f) s = Inr ((), s')"
    if "unat num < INTC_MAX_COUNT" for num f
    using register_inv [OF ns that, of f] by auto
  ultimately show ?thesis using ns unfolding intc_inv_def by blast
qed

theorem intc_reach_wf_witness:
  "\<exists>ns. intc_wf one_isr ns \<and> (\<forall>i\<in>set ns. pri (isrs one_isr i) = (if i = 0 then 26 else 19))
    \<and> (\<forall>num f. unat (num :: u8) < INTC_MAX_COUNT \<longrightarrow>
        (\<exists>s'. intc_service_register num (if unat num = 0 then 26 else 19) (Some f) one_isr = Inr ((), s'))
      \<and> (\<exists>s'. intc_service_change_handler num (Some f) one_isr = Inr ((), s')))"
proof -
  let ?prio = "\<lambda>i. if i = 0 then 26 else 19 :: u8"
  let ?ienv = "\<lparr>icu_rd = (\<lambda>_ h. (0, h)), icu_wr = (\<lambda>_ _ h. h)\<rparr> :: unit icu_env"
  have "intc_reach ?ienv log_env ?prio one_isr"
    using one_isr_start by (intro reach_register [OF reach_start, where num = 0 and f = 100]) (simp_all add: INTC_MAX_COUNT_def)
  from intc_reach_wf [OF log_env_ok(2) this] show ?thesis by simp
qed



section \<open>Enable bits\<close>

text \<open>The control unit as it is found through the device table, over registers that hold what is written.\<close>

definition plain_icu :: "(u32 \<Rightarrow> u32) icu_env" where
  "plain_icu = \<lparr>icu_rd = (\<lambda>r h. (h r, h)), icu_wr = (\<lambda>r v h. h(r := v))\<rparr>"

definition icu_at :: "string \<Rightarrow> 'h icu_env \<Rightarrow> ('h, u32 option) drv_st \<Rightarrow> bool" where
  "icu_at mem0 env s \<longleftrightarrow> (\<exists>i. find_index (\<lambda>d. os_strncmp_eq (c_str mem0 (sdev_name d)) ICU_DEV_NAME (length ICU_DEV_NAME))
     (drv_sdev_tbl s) = Some i \<and> sdev_op (drv_sdev_tbl s ! i) = Some (icu_op env))"

lemma icu_control: "icu_at mem0 env s \<Longrightarrow> sddev_control mem0 (Some ICU_DEV_NAME) cmd p s = in_world (icu_ctrl env cmd p) s"
  by (auto simp: icu_at_def sddev_control_def icu_op_def)

lemma icu_at_world [simp]: "icu_at mem0 env (s\<lparr>world := w\<rparr>) = icu_at mem0 env s"
  by (simp add: icu_at_def)

lemma icu_int_cmds:
  "icu_ctrl plain_icu CMD_ICU_INT_ENABLE (Some p) h = Inr ((0, Some p), h(ICU_INTERRUPT_ENABLE := h ICU_INTERRUPT_ENABLE OR p))"
  "icu_ctrl plain_icu CMD_ICU_INT_DISABLE (Some p) h = Inr ((0, Some p), h(ICU_INTERRUPT_ENABLE := h ICU_INTERRUPT_ENABLE AND NOT p))"
  "icu_ctrl plain_icu CMD_ICU_GLOBAL_INT_ENABLE (Some p) h = Inr ((0, Some p), h(ICU_GLOBAL_INT_EN := h ICU_GLOBAL_INT_EN OR p))"
  "icu_ctrl plain_icu CMD_ICU_GLOBAL_INT_DISABLE (Some p) h = Inr ((0, Some p), h(ICU_GLOBAL_INT_EN := h ICU_GLOBAL_INT_EN AND NOT p))"
  by (simp_all add: icu_ctrl_def icu_cmds rmw_def icu_read_def icu_write_def plain_icu_def bindM_run thenM_run)

abbreviation icu_upd :: "((u32 \<Rightarrow> u32) \<Rightarrow> u32 \<Rightarrow> u32) \<Rightarrow> ((u32 \<Rightarrow> u32), 'd) intc_st \<Rightarrow> ((u32 \<Rightarrow> u32), 'd) intc_st" where
  "icu_upd f s \<equiv> s\<lparr>drv := (drv s)\<lparr>world := f (world (drv s))\<rparr>\<rparr>"

lemma intc_enable_run:
  "icu_at mem0 plain_icu (drv s) \<Longrightarrow>
   intc_enable mem0 i s = Inr ((), icu_upd (\<lambda>h. h(ICU_INTERRUPT_ENABLE := h ICU_INTERRUPT_ENABLE OR BIT i)) s)"
  "icu_at mem0 plain_icu (drv s) \<Longrightarrow>
   intc_disable mem0 i s = Inr ((), icu_upd (\<lambda>h. h(ICU_INTERRUPT_ENABLE := h ICU_INTERRUPT_ENABLE AND NOT (BIT i))) s)"
  by (simp_all add: intc_enable_def intc_disable_def in_drv_def icu_control in_world_def icu_int_cmds thenM_run)

lemma forM_enable:
  "icu_at mem0 plain_icu (drv s) \<Longrightarrow> forM is (intc_enable mem0) s
   = Inr ((), icu_upd (\<lambda>h. h(ICU_INTERRUPT_ENABLE := foldl (\<lambda>w i. w OR BIT i) (h ICU_INTERRUPT_ENABLE) is)) s)"
  "icu_at mem0 plain_icu (drv s) \<Longrightarrow> forM is (intc_disable mem0) s
   = Inr ((), icu_upd (\<lambda>h. h(ICU_INTERRUPT_ENABLE := foldl (\<lambda>w i. w AND NOT (BIT i)) (h ICU_INTERRUPT_ENABLE) is)) s)"
  by (induction "is" arbitrary: s) (simp_all add: intc_enable_run thenM_run)

lemma bit_foldl_set:
  "\<forall>i\<in>set is. i < 32 \<Longrightarrow> bit (foldl (\<lambda>w i. w OR BIT i) w is) j \<longleftrightarrow> bit w j \<or> j \<in> set is"
  "\<forall>i\<in>set is. i < 32 \<Longrightarrow> bit (foldl (\<lambda>w i. w AND NOT (BIT i)) w is) j \<longleftrightarrow> bit w j \<and> j \<notin> set is"
  by (induction "is" arbitrary: w) (auto simp: bit_or_iff bit_BIT clear_BIT)

text \<open>
  Start-up enables exactly the seven MAC and modem numbers and both lines; shut-down
  disables the lines and the numbers up to 28, so the numbers 29 to 31 keep their enable bit.
\<close>

theorem intc_init_deinit:
  assumes "icu_at mem0 plain_icu (drv s)"
  shows "\<exists>s' w. intc_init mem0 s = Inr ((), s') \<and> w = world (drv s')
       \<and> (\<forall>i. bit (w ICU_INTERRUPT_ENABLE) i \<longleftrightarrow> bit (world (drv s) ICU_INTERRUPT_ENABLE) i \<or> i \<in> {16..22})
       \<and> w ICU_GLOBAL_INT_EN = world (drv s) ICU_GLOBAL_INT_EN OR 3"
    and "\<exists>s' w. intc_deinit mem0 s = Inr ((), s') \<and> w = world (drv s')
       \<and> (\<forall>i. bit (w ICU_INTERRUPT_ENABLE) i \<longleftrightarrow> bit (world (drv s) ICU_INTERRUPT_ENABLE) i \<and> 29 \<le> i)
       \<and> w ICU_GLOBAL_INT_EN = world (drv s) ICU_GLOBAL_INT_EN AND NOT 3"
proof -
  have r: "ICU_GLOBAL_INT_EN \<noteq> ICU_INTERRUPT_ENABLE" by (simp add: icu_consts)
  have iv: "i \<in> {16..22} \<longleftrightarrow> i \<in> set [22, 21, 20, 19, 18, 17, 16]" for i :: nat by auto
  show "\<exists>s' w. intc_init mem0 s = Inr ((), s') \<and> w = world (drv s')
       \<and> (\<forall>i. bit (w ICU_INTERRUPT_ENABLE) i \<longleftrightarrow> bit (world (drv s) ICU_INTERRUPT_ENABLE) i \<or> i \<in> {16..22})
       \<and> w ICU_GLOBAL_INT_EN = world (drv s) ICU_GLOBAL_INT_EN OR 3"
    unfolding iv intc_init_def thenM_run forM_enable(1) [OF assms]
    using r bit_foldl_set(1) [of "[22, 21, 20, 19, 18, 17, 16]" "world (drv s) ICU_INTERRUPT_ENABLE"]
    by (simp add: in_drv_def icu_control [of mem0 plain_icu] assms in_world_def icu_int_cmds del: foldl.simps)
  have "bit (foldl (\<lambda>w i. w AND NOT (BIT i)) w [0..<29]) i \<longleftrightarrow> bit w i \<and> 29 \<le> i" for w i
    using bit_foldl_set(2) [of "[0..<29]" w i] by auto
  then show "\<exists>s' w. intc_deinit mem0 s = Inr ((), s') \<and> w = world (drv s')
       \<and> (\<forall>i. bit (w ICU_INTERRUPT_ENABLE) i \<longleftrightarrow> bit (world (drv s) ICU_INTERRUPT_ENABLE) i \<and> 29 \<le> i)
       \<and> w ICU_GLOBAL_INT_EN = world (drv s) ICU_GLOBAL_INT_EN AND NOT 3"
    unfolding intc_deinit_def thenM_run forM_enable(2) [OF assms]
    using r by (simp add: in_drv_def icu_control [of mem0 plain_icu] assms in_world_def icu_int_cmds)
qed

end
