(* ===== verification/Bk_Aware.thy ===== *)
theory Bk_Aware
  imports Doubly_List
begin

text \<open>
  The peer-to-peer service of \<^verbatim>\<open>components/bk_aware/bk_aware.c\<close>: a list of peers in allocated
  memory, vendor action frames that carry up to 250 bytes of user data, and their
  receiver. All functions of the file are modelled.

  The state holds the module's \<open>bk_aware_env\<close>, the list pointers, and the allocated
  blocks: list entries and peer records as maps from addresses, frames as a list of addresses with
  their bytes. A freed or NULL block that is used is a fault. Calls that leave the module (WLAN layer, user
  callbacks) are noted in a trace. Allocation, the random numbers and the number of interfaces are parameters.
\<close>

section \<open>Data\<close>

datatype aware_node = Aware_Head | Priv nat

record aware_peer =
  peer_addr :: "u8 list"
  lmk :: "u8 list"
  channel :: u8
  ifidx :: u8
  encrypt :: bool
  priv :: "nat option"

record bk_aware_env_tag =
  sema :: "nat option"
  local_addr :: "u8 list"
  oui :: "u8 list"
  fetch_pos :: int
  inited :: bool
  recv_cb :: "nat option"
  send_cb :: "nat option"

datatype aware_event =
    Monitor_Started | Monitor_Stopped
  | Rx_Mgmt_Cb bool
  | Other_Bssid bool
  | Raw_Post nat nat
  | Recv_Cb nat "u8 list" "u8 list" int
  | Send_Cb nat "u8 list" bool

record aware_st =
  aenv :: bk_aware_env_tag
  alinks :: "aware_node links"
  privs :: "nat \<Rightarrow> nat option option"
  peers :: "nat \<Rightarrow> aware_peer option"
  frame_mem :: "(nat \<times> u8 list) list"
  trace :: "aware_event list"

text \<open>
  \<open>malloc\<close> gets the addresses in use and answers with a free one or
  NULL; \<open>sema_ok\<close> says whether the kernel can make a semaphore; \<open>stale\<close> is what a byte of a new block holds.
\<close>

record aware_par =
  malloc :: "nat set \<Rightarrow> nat option"
  sema_ok :: bool
  mac_address :: "u8 list"
  vif_cnt :: nat
  rand :: u32
  stale :: u8

definition BK_OK :: int where "BK_OK = 0"
definition BK_ERR_BK_AWARE_NOT_INIT :: int where "BK_ERR_BK_AWARE_NOT_INIT = 101"
definition BK_ERR_BK_AWARE_ARG :: int where "BK_ERR_BK_AWARE_ARG = 102"
definition BK_ERR_BK_AWARE_NO_MEM :: int where "BK_ERR_BK_AWARE_NO_MEM = 103"
definition BK_ERR_BK_AWARE_NOT_FOUND :: int where "BK_ERR_BK_AWARE_NOT_FOUND = 105"
definition BK_ERR_BK_AWARE_INTERNAL :: int where "BK_ERR_BK_AWARE_INTERNAL = 106"
definition BK_ERR_BK_AWARE_EXIST :: int where "BK_ERR_BK_AWARE_EXIST = 107"

lemmas aware_errs = BK_OK_def BK_ERR_BK_AWARE_NOT_INIT_def BK_ERR_BK_AWARE_ARG_def BK_ERR_BK_AWARE_NO_MEM_def
  BK_ERR_BK_AWARE_NOT_FOUND_def BK_ERR_BK_AWARE_INTERNAL_def BK_ERR_BK_AWARE_EXIST_def

definition BK_AWARE_MAX_DATA_LEN :: nat where "BK_AWARE_MAX_DATA_LEN = 250"

definition CFG_BK_AWARE_OUI :: "u8 list" where "CFG_BK_AWARE_OUI = [0xC8, 0x47, 0x8C]"

section \<open>Memory and helpers\<close>

definition live :: "aware_st \<Rightarrow> nat set" where
  "live s = dom (privs s) \<union> dom (peers s) \<union> fst ` set (frame_mem s)"

definition emit :: "aware_event \<Rightarrow> (aware_st, unit) prog" where
  "emit e = modM (\<lambda>s. s\<lparr>trace := trace s @ [e]\<rparr>)"

definition upd_env :: "(bk_aware_env_tag \<Rightarrow> bk_aware_env_tag) \<Rightarrow> (aware_st, unit) prog" where
  "upd_env f = modM (\<lambda>s. s\<lparr>aenv := f (aenv s)\<rparr>)"

abbreviation in_alinks :: "(aware_node links, 'a) prog \<Rightarrow> (aware_st, 'a) prog" where
  "in_alinks \<equiv> on_links alinks alinks_update"

text \<open>\<open>priv->peer\<close> for the list entry at \<open>pos\<close>, and the record behind it.\<close>

definition peer_ptr :: "aware_node \<Rightarrow> (aware_st, nat \<times> nat option) prog" where
  "peer_ptr pos = (case pos of
     Aware_Head \<Rightarrow> failM Dangling
   | Priv a \<Rightarrow> bindM (getM (\<lambda>s. privs s a)) (\<lambda>e. case e of None \<Rightarrow> failM Dangling | Some p \<Rightarrow> retM (a, p)))"

definition peer_at :: "nat option \<Rightarrow> (aware_st, nat \<times> aware_peer) prog" where
  "peer_at p = bindM (deref p) (\<lambda>b. bindM (getM (\<lambda>s. peers s b)) (\<lambda>i. case i of None \<Rightarrow> failM Dangling | Some info \<Rightarrow> retM (b, info)))"

definition free_priv :: "nat \<Rightarrow> (aware_st, unit) prog" where
  "free_priv a = modM (\<lambda>s. s\<lparr>privs := (privs s)(a := None)\<rparr>)"

definition free_peer :: "nat option \<Rightarrow> (aware_st, unit) prog" where
  "free_peer p = (case p of None \<Rightarrow> retM () | Some b \<Rightarrow> modM (\<lambda>s. s\<lparr>peers := (peers s)(b := None)\<rparr>))"

definition set_peer_ptr :: "nat \<Rightarrow> nat option \<Rightarrow> (aware_st, unit) prog" where
  "set_peer_ptr a p = modM (\<lambda>s. s\<lparr>privs := (privs s)(a := Some p)\<rparr>)"

text \<open>\<open>os_memcmp(a, b, ETH_ALEN) == 0\<close>, and the group bit of an address.\<close>

definition same_addr :: "u8 list \<Rightarrow> u8 list \<Rightarrow> bool" where
  "same_addr a b \<longleftrightarrow> take 6 a = take 6 b"

definition is_multicast_ether_addr :: "u8 list \<Rightarrow> bool" where
  "is_multicast_ether_addr a \<longleftrightarrow> a ! 0 AND 0x01 \<noteq> 0"

text \<open>\<open>xSemaphoreTake\<close> without a timeout: nobody else can give the semaphore while one call runs.\<close>

definition bk_aware_lock :: "(aware_st, unit) prog" where
  "bk_aware_lock = bindM (getM (\<lambda>s. sema (aenv s))) (\<lambda>h. case h of
     None \<Rightarrow> failM Null_Deref
   | Some 0 \<Rightarrow> failM Busy_Hang
   | Some (Suc n) \<Rightarrow> upd_env (sema_update (\<lambda>_. Some n)))"

definition bk_aware_unlock :: "(aware_st, unit) prog" where
  "bk_aware_unlock = bindM (getM (\<lambda>s. sema (aenv s))) (\<lambda>h. case h of
     None \<Rightarrow> failM Null_Deref
   | Some n \<Rightarrow> upd_env (sema_update (\<lambda>_. Some (if n < 1 then Suc n else n))))"

definition bk_aware_inited :: "(aware_st, bool) prog" where
  "bk_aware_inited = getM (\<lambda>s. inited (aenv s))"

definition zero_env :: bk_aware_env_tag where
  "zero_env = \<lparr>sema = None, local_addr = replicate 6 0, oui = replicate 3 0, fetch_pos = 0, inited = False, recv_cb = None, send_cb = None\<rparr>"

text \<open>\<open>os_memset(&bk_aware_env, 0, sizeof(bk_aware_env))\<close>, the list head included.\<close>

definition clear_env :: "(aware_st, unit) prog" where
  "clear_env = modM (\<lambda>s. s\<lparr>aenv := zero_env,
     alinks := (alinks s)\<lparr>lnext := (lnext (alinks s))(Aware_Head := None), lprev := (lprev (alinks s))(Aware_Head := None)\<rparr>\<rparr>)"

section \<open>The functions\<close>

definition bk_aware_init :: "aware_par \<Rightarrow> (aware_st, int) prog" where
  "bk_aware_init par = bindM bk_aware_inited (\<lambda>i.
     if i then retM BK_OK
     else
       thenM clear_env
      (thenM (in_alinks (INIT_LIST_HEAD Aware_Head))
      (thenM (upd_env (sema_update (\<lambda>_. if sema_ok par then Some 1 else None)))
      (thenM (upd_env (local_addr_update (\<lambda>_. mac_address par)))
      (thenM (upd_env (oui_update (\<lambda>_. CFG_BK_AWARE_OUI)))
      (thenM (if vif_cnt par = 0 then emit Monitor_Started
              else thenM (emit (Rx_Mgmt_Cb True)) (emit (Other_Bssid True)))
      (thenM (upd_env (inited_update (\<lambda>_. True)))
             (retM BK_OK))))))))"

definition match_body :: "u8 list \<Rightarrow> (nat \<Rightarrow> nat \<Rightarrow> aware_peer \<Rightarrow> 'a \<Rightarrow> (aware_st, 'a \<times> bool) prog)
    \<Rightarrow> aware_node \<Rightarrow> 'a \<Rightarrow> (aware_st, 'a \<times> bool) prog" where
  "match_body addr f pos acc =
     bindM (peer_ptr pos) (\<lambda>(a, p).
     bindM (peer_at p) (\<lambda>(b, info).
     if same_addr (peer_addr info) addr then f a b info acc else retM (acc, False)))"

definition bk_aware_is_peer_exist :: "u8 list \<Rightarrow> (aware_st, bool) prog" where
  "bk_aware_is_peer_exist addr =
     thenM bk_aware_lock
    (bindM (list_for_each_entry (\<lambda>s. lnext (alinks s)) Aware_Head (match_body addr (\<lambda>_ _ _ _. retM (True, True))) False) (\<lambda>found.
     thenM bk_aware_unlock (retM found)))"

definition del_entry :: "nat \<Rightarrow> nat option \<Rightarrow> (aware_st, unit) prog" where
  "del_entry a p =
     thenM (free_peer p)
    (thenM (set_peer_ptr a None)
    (thenM (in_alinks (list_del (Priv a)))
           (free_priv a)))"

definition bk_aware_deinit :: "aware_par \<Rightarrow> (aware_st, int) prog" where
  "bk_aware_deinit par = bindM bk_aware_inited (\<lambda>i.
     if \<not> i then retM BK_OK
     else
       thenM bk_aware_lock
      (thenM (list_for_each_entry_safe (\<lambda>s. lnext (alinks s)) Aware_Head
                (\<lambda>pos acc. bindM (peer_ptr pos) (\<lambda>(a, p). thenM (del_entry a p) (retM ((), False)))) ())
      (thenM (upd_env (inited_update (\<lambda>_. False)))
      (thenM bk_aware_unlock
      (thenM (upd_env (sema_update (\<lambda>_. None)))
      (thenM clear_env
      (thenM (if vif_cnt par = 0 then emit Monitor_Stopped
              else if vif_cnt par = 1 then thenM (emit (Rx_Mgmt_Cb False)) (emit (Other_Bssid False))
              else retM ())
             (retM BK_OK))))))))"

definition bk_aware_get_version :: "('s, int \<times> u32) prog" where
  "bk_aware_get_version = retM (BK_OK, 1)"

definition when_inited :: "(aware_st, int) prog \<Rightarrow> (aware_st, int) prog" where
  "when_inited m = bindM bk_aware_inited (\<lambda>i. if \<not> i then retM BK_ERR_BK_AWARE_NOT_INIT else m)"

definition bk_aware_register_recv_cb :: "nat option \<Rightarrow> (aware_st, int) prog" where
  "bk_aware_register_recv_cb cb = when_inited (thenM (upd_env (recv_cb_update (\<lambda>_. cb))) (retM BK_OK))"

definition bk_aware_unregister_recv_cb :: "(aware_st, int) prog" where
  "bk_aware_unregister_recv_cb = when_inited (thenM (upd_env (recv_cb_update (\<lambda>_. None))) (retM BK_OK))"

definition bk_aware_register_send_cb :: "nat option \<Rightarrow> (aware_st, int) prog" where
  "bk_aware_register_send_cb cb = when_inited (thenM (upd_env (send_cb_update (\<lambda>_. cb))) (retM BK_OK))"

definition bk_aware_unregister_send_cb :: "(aware_st, int) prog" where
  "bk_aware_unregister_send_cb = when_inited (thenM (upd_env (send_cb_update (\<lambda>_. None))) (retM BK_OK))"

text \<open>
  The frame: the MAC header (frame control \<open>MAC_FCTRL_ACTION\<close>, duration, three addresses, sequence
  control), category 127, OUI, four random bytes, and the vendor element: 221, length, OUI,
  type 4, version 1 and the user's bytes. The block has one byte more than is written; the
  address of the block is returned, with the length of what is written.
\<close>

definition u16_bytes :: "u16 \<Rightarrow> u8 list" where
  "u16_bytes w = [ucast w, ucast (drop_bit 8 w)]"

definition MAC_FCTRL_ACTION :: u16 where "MAC_FCTRL_ACTION = 0x00D0"
definition MAC_FCTRL_TYPESUBTYPE_MASK :: u16 where "MAC_FCTRL_TYPESUBTYPE_MASK = 0x00FC"
definition WLAN_ACTION_VENDOR_SPECIFIC :: u8 where "WLAN_ACTION_VENDOR_SPECIFIC = 127"
definition WLAN_EID_VENDOR_SPECIFIC :: u8 where "WLAN_EID_VENDOR_SPECIFIC = 221"

definition bk_aware_construct_frame :: "aware_par \<Rightarrow> u8 list \<Rightarrow> u8 list \<Rightarrow> nat \<Rightarrow> (aware_st, (nat \<times> nat) option) prog" where
  "bk_aware_construct_frame par addr bytes len = bindM (getM (\<lambda>s. (malloc par (live s), aenv s))) (\<lambda>(block, env).
     case block of None \<Rightarrow> retM None
     | Some p \<Rightarrow>
        if length bytes < len then failM Bad_Index
        else let frame =
          u16_bytes MAC_FCTRL_ACTION @ u16_bytes 0
          @ take 6 addr @ take 6 (local_addr env)
          @ (if is_multicast_ether_addr addr then take 6 addr else take 6 (local_addr env))
          @ u16_bytes 0
          @ [WLAN_ACTION_VENDOR_SPECIFIC] @ take 3 (oui env) @ u32_bytes (rand par)
          @ [WLAN_EID_VENDOR_SPECIFIC, 3 + 1 + 1 + of_nat len] @ take 3 (oui env)
          @ [4, 1] @ take len bytes
        in thenM (modM (\<lambda>s. s\<lparr>frame_mem := (p, frame @ [stale par]) # frame_mem s\<rparr>)) (retM (Some (p, length frame))))"

text \<open>The driver reports a frame as sent: \<open>node\<close> is the memory it was sent from, whose content is read before the NULL check.\<close>

definition bk_aware_send_callback :: "u8 list option \<Rightarrow> u32 \<Rightarrow> (aware_st, unit) prog" where
  "bk_aware_send_callback node status =
     bindM (deref node) (\<lambda>content.
     bindM (getM (\<lambda>s. send_cb (aenv s))) (\<lambda>cb.
     case cb of None \<Rightarrow> retM ()
     | Some f \<Rightarrow> emit (Send_Cb f (take 6 (drop 4 content)) (status AND push_bit 23 1 = 0))))"

text \<open>
  \<^verbatim>\<open>bk_wlan_send_raw_frame_with_cb\<close> puts the pointer and the length into the queue of the core thread and
  comes back at once; the core thread reads the block when it gets to the message (\<open>Core_Thread\<close>; \<open>Aware_Core\<close> joins the
  two). \<open>bk_aware_send\<close> does not look at the answer, which says whether the queue had room, and frees the block.
  \<open>bk_aware_send_post\<close> is the part before the free.
\<close>

definition bk_aware_send_post :: "aware_par \<Rightarrow> u8 list option \<Rightarrow> u8 list option \<Rightarrow> nat \<Rightarrow> (aware_st, int \<times> (nat \<times> nat) option) prog" where
  "bk_aware_send_post par addr bytes len = bindM bk_aware_inited (\<lambda>i.
     if \<not> i then retM (BK_ERR_BK_AWARE_NOT_INIT, None)
     else case bytes of None \<Rightarrow> retM (BK_ERR_BK_AWARE_ARG, None)
     | Some bs \<Rightarrow>
        if len > BK_AWARE_MAX_DATA_LEN then retM (BK_ERR_BK_AWARE_ARG, None)
        else (case addr of None \<Rightarrow> retM (BK_ERR_BK_AWARE_INTERNAL, None)
        | Some a \<Rightarrow> bindM (bk_aware_is_peer_exist a) (\<lambda>ex.
            if ex then bindM (bk_aware_construct_frame par a bs len) (\<lambda>f.
              (case f of None \<Rightarrow> retM (BK_ERR_BK_AWARE_NO_MEM, None)
               | Some (p, n) \<Rightarrow> thenM (emit (Raw_Post p n)) (retM (BK_OK, Some (p, n)))))
            else retM (BK_ERR_BK_AWARE_NOT_FOUND, None))))"

definition free_frame :: "nat \<Rightarrow> (aware_st, unit) prog" where
  "free_frame p = bindM (getM frame_mem) (\<lambda>fs.
     if p \<in> fst ` set fs then modM (\<lambda>s. s\<lparr>frame_mem := filter (\<lambda>f. fst f \<noteq> p) fs\<rparr>) else failM Dangling)"

definition bk_aware_send :: "aware_par \<Rightarrow> u8 list option \<Rightarrow> u8 list option \<Rightarrow> nat \<Rightarrow> (aware_st, int) prog" where
  "bk_aware_send par addr bytes len =
     bindM (bk_aware_send_post par addr bytes len) (\<lambda>(r, f). case f of
       None \<Rightarrow> retM r
     | Some (p, n) \<Rightarrow> thenM (free_frame p) (retM r))"

text \<open>
  The receiver reads the frame byte by byte through a moving pointer; the length it is given is
  not looked at. The callback gets the rest of the frame and the length of the vendor element less five.
\<close>

definition rd :: "u8 list \<Rightarrow> nat \<Rightarrow> ('s, u8) prog" where
  "rd d i = (if i < length d then retM (d ! i) else failM Bad_Index)"

definition rd_bytes :: "u8 list \<Rightarrow> nat \<Rightarrow> nat \<Rightarrow> ('s, u8 list) prog" where
  "rd_bytes d i n = (if i + n \<le> length d then retM (take n (drop i d)) else failM Bad_Index)"

definition stop_unless :: "bool \<Rightarrow> ('s, unit) prog \<Rightarrow> ('s, unit) prog" where
  "stop_unless b m = (if b then m else retM ())"

definition deliver :: "u8 list \<Rightarrow> u8 \<Rightarrow> nat \<Rightarrow> (aware_st, unit) prog" where
  "deliver d user_len cb =
     bindM (rd_bytes d 10 6) (\<lambda>addr2.
     bindM (bk_aware_is_peer_exist addr2) (\<lambda>ex.
     bindM (getM (\<lambda>s. local_addr (aenv s))) (\<lambda>me.
     bindM (rd_bytes d 4 6) (\<lambda>addr1.
     bindM (rd_bytes d 16 6) (\<lambda>addr3.
     whenM (ex \<and> same_addr addr1 me \<or> is_multicast_ether_addr addr3)
       (emit (Recv_Cb cb addr2 (drop 39 d) (int (unat user_len) - 5))))))))"

definition bk_aware_monitor_cb :: "u8 list \<Rightarrow> (aware_st, unit) prog" where
  "bk_aware_monitor_cb d =
     bindM (rd_bytes d 0 2) (\<lambda>fc.
     let framectrl = ucast (fc ! 0) OR push_bit 8 (ucast (fc ! 1)) :: u16 in
     bindM bk_aware_inited (\<lambda>i.
     bindM (getM (\<lambda>s. take 3 (oui (aenv s)))) (\<lambda>oui3.
     stop_unless i
    (stop_unless (framectrl AND MAC_FCTRL_TYPESUBTYPE_MASK = MAC_FCTRL_ACTION)
    (bindM (rd d 24) (\<lambda>category. stop_unless (category = WLAN_ACTION_VENDOR_SPECIFIC)
    (bindM (rd_bytes d 25 3) (\<lambda>o1. stop_unless (o1 = oui3)
    (bindM (rd d 32) (\<lambda>eid. stop_unless (eid = WLAN_EID_VENDOR_SPECIFIC)
    (bindM (rd d 33) (\<lambda>user_len.
     bindM (rd_bytes d 34 3) (\<lambda>o2. stop_unless (o2 = oui3)
    (bindM (rd d 37) (\<lambda>ty. stop_unless (ty = 4)
    (bindM (rd d 38) (\<lambda>version.
     bindM (getM (\<lambda>s. recv_cb (aenv s))) (\<lambda>cb.
     case cb of None \<Rightarrow> retM () | Some f \<Rightarrow> deliver d user_len f))))))))))))))))))"

definition bk_aware_add_peer :: "aware_par \<Rightarrow> aware_peer option \<Rightarrow> (aware_st, int) prog" where
  "bk_aware_add_peer par peer = (case peer of
     None \<Rightarrow> retM BK_ERR_BK_AWARE_ARG
   | Some info \<Rightarrow> bindM (bk_aware_is_peer_exist (peer_addr info)) (\<lambda>ex.
      if ex then retM BK_ERR_BK_AWARE_EXIST
      else bindM (getM (\<lambda>s. malloc par (live s))) (\<lambda>pa. case pa of
        None \<Rightarrow> retM BK_ERR_BK_AWARE_NO_MEM
      | Some a \<Rightarrow>
         thenM (set_peer_ptr a None)
        (bindM (getM (\<lambda>s. malloc par (live s))) (\<lambda>pb. case pb of
          None \<Rightarrow> thenM (free_priv a) (retM BK_ERR_BK_AWARE_NO_MEM)
        | Some b \<Rightarrow>
           thenM (set_peer_ptr a (Some b))
          (thenM (modM (\<lambda>s. s\<lparr>peers := (peers s)(b := Some (info\<lparr>priv := Some a\<rparr>))\<rparr>))
          (thenM bk_aware_lock
          (thenM (in_alinks (list_add_tail (Priv a) Aware_Head))
          (thenM bk_aware_unlock
                 (retM BK_OK))))))))))"

definition bk_aware_del_peer :: "u8 list option \<Rightarrow> (aware_st, int) prog" where
  "bk_aware_del_peer addr = (case addr of
     None \<Rightarrow> retM BK_ERR_BK_AWARE_ARG
   | Some x \<Rightarrow> when_inited
      (thenM bk_aware_lock
      (bindM (list_for_each_entry_safe (\<lambda>s. lnext (alinks s)) Aware_Head
                (match_body x (\<lambda>a b _ _. thenM (del_entry a (Some b)) (retM (True, True)))) False) (\<lambda>deleted.
       thenM bk_aware_unlock
        (retM (if deleted then BK_OK else BK_ERR_BK_AWARE_NOT_FOUND))))))"

definition bk_aware_mod_peer :: "aware_peer option \<Rightarrow> (aware_st, int) prog" where
  "bk_aware_mod_peer peer = (case peer of
     None \<Rightarrow> retM BK_ERR_BK_AWARE_ARG
   | Some m \<Rightarrow> when_inited
      (thenM bk_aware_lock
      (thenM (list_for_each_entry (\<lambda>s. lnext (alinks s)) Aware_Head
                (match_body (peer_addr m) (\<lambda>_ b _ _.
                   thenM (modM (\<lambda>s. s\<lparr>peers := (peers s)(b := Some m)\<rparr>)) (retM ((), True)))) ())
      (thenM bk_aware_unlock (retM BK_OK)))))"

definition bk_aware_get_peer :: "u8 list option \<Rightarrow> bool \<Rightarrow> (aware_st, int \<times> aware_peer option) prog" where
  "bk_aware_get_peer addr out = bindM bk_aware_inited (\<lambda>i.
     if \<not> i then retM (BK_ERR_BK_AWARE_NOT_INIT, None)
     else if addr = None \<or> \<not> out then retM (BK_ERR_BK_AWARE_ARG, None)
     else
       thenM bk_aware_lock
      (bindM (list_for_each_entry (\<lambda>s. lnext (alinks s)) Aware_Head
                (match_body (the addr) (\<lambda>_ _ info _. retM (Some info, True))) None) (\<lambda>r.
       thenM bk_aware_unlock
        (retM (case r of None \<Rightarrow> (BK_ERR_BK_AWARE_NOT_FOUND, None) | Some info \<Rightarrow> (BK_OK, Some info))))))"

definition bk_aware_fetch_peer :: "bool \<Rightarrow> (aware_st, int) prog" where
  "bk_aware_fetch_peer out = when_inited (if \<not> out then retM BK_ERR_BK_AWARE_ARG else retM BK_ERR_BK_AWARE_INTERNAL)"

text \<open>The two counts go to \<open>num\<close>; what is returned is the count, not an error code.\<close>

definition bk_aware_get_peer_num :: "bool \<Rightarrow> (aware_st, int \<times> (int \<times> int) option) prog" where
  "bk_aware_get_peer_num num = bindM bk_aware_inited (\<lambda>i.
     if \<not> i then retM (BK_ERR_BK_AWARE_NOT_INIT, None)
     else if \<not> num then retM (BK_ERR_BK_AWARE_ARG, None)
     else
       thenM bk_aware_lock
      (bindM (in_alinks (list_size Aware_Head)) (\<lambda>count.
       thenM bk_aware_unlock
        (retM (sint count, Some (sint count, 0))))))"

definition bk_aware_set_pmk :: "(aware_st, int) prog" where
  "bk_aware_set_pmk = when_inited (retM BK_OK)"

interpretation aware: list_owner "alinks :: aware_st \<Rightarrow> aware_node links" alinks_update
  by unfold_locales simp

end
