(* ===== verification/Bk_Aware_Props.thy ===== *)
theory Bk_Aware_Props
  imports Bk_Aware
begin

text \<open>
  What \<^verbatim>\<open>bk_aware.c\<close> promises: the peer functions refine operations on a list of peers and own exactly
  the memory of that list (\<open>aware_rep\<close>), a failed allocation leaves nothing behind, shutting
  down frees everything, and the frame that is built for some bytes makes the receiver deliver these
  bytes. The receiver trusts the length byte of the frame. How a frame gets from the sender to the air is in \<open>Aware_Core\<close>.
\<close>

section \<open>The list and its memory\<close>

type_synonym entry = "nat \<times> nat \<times> aware_peer"

text \<open>The memory of the module is exactly the entries of the list and their records.\<close>

definition owns :: "aware_st \<Rightarrow> entry list \<Rightarrow> bool" where
  "owns s es \<longleftrightarrow>
     ring (alinks s) Aware_Head (map (\<lambda>e. Priv (fst e)) es)
   \<and> privs s = map_of (map (\<lambda>(a, b, i). (a, Some b)) es)
   \<and> peers s = map_of (map snd es) \<and> distinct (map (\<lambda>e. fst (snd e)) es)"

definition aware_rep :: "aware_st \<Rightarrow> entry list \<Rightarrow> bool" where
  "aware_rep s es \<longleftrightarrow> inited (aenv s) \<and> sema (aenv s) = Some 1 \<and> owns s es
   \<and> distinct (map (\<lambda>e. take 6 (peer_addr (snd (snd e)))) es)"

definition entry_matches :: "u8 list \<Rightarrow> entry \<Rightarrow> bool" where
  "entry_matches addr e \<longleftrightarrow> same_addr (peer_addr (snd (snd e))) addr"

text \<open>The part of the representation that a running walk sees, with the lock taken.\<close>

definition entries_in :: "aware_st \<Rightarrow> entry list \<Rightarrow> bool" where
  "entries_in s es \<longleftrightarrow> (\<forall>(a, b, i)\<in>set es. privs s a = Some (Some b) \<and> peers s b = Some i)"

abbreviation locked :: "aware_st \<Rightarrow> aware_st" where
  "locked s \<equiv> s\<lparr>aenv := (aenv s)\<lparr>sema := Some 0\<rparr>\<rparr>"

lemma ownsD:
  assumes "owns s es"
  shows "ring (alinks s) Aware_Head (map (\<lambda>e. Priv (fst e)) es)"
    "privs s = map_of (map (\<lambda>(a, b, i). (a, Some b)) es)" "peers s = map_of (map snd es)"
    "distinct (map (\<lambda>e. fst (snd e)) es)" "distinct (map fst es)"
  using assms ring_distinct [of "alinks s" Aware_Head "map (\<lambda>e. Priv (fst e)) es"]
  by (auto simp: owns_def distinct_map inj_on_def)

lemma aware_repD:
  assumes "aware_rep s es"
  shows "inited (aenv s)" "sema (aenv s) = Some 1" "owns s es"
    "distinct (map (\<lambda>e. take 6 (peer_addr (snd (snd e)))) es)"
    "ring (alinks s) Aware_Head (map (\<lambda>e. Priv (fst e)) es)"
  using assms ownsD(1) by (auto simp: aware_rep_def)

lemma owns_entries:
  assumes o: "owns s es"
  shows "entries_in s es"
  unfolding entries_in_def
proof (clarify)
  fix a b i assume e: "(a, b, i) \<in> set es"
  have "distinct (map fst (map (\<lambda>(a, b, i). (a, Some b)) es))" "distinct (map fst (map snd es))"
    using ownsD(4,5) [OF o] by (simp_all add: comp_def case_prod_beta)
  then show "privs s a = Some (Some b) \<and> peers s b = Some i"
    using e ownsD(2,3) [OF o] by (force simp: map_of_eq_Some_iff)
qed

lemma rep_entries: "aware_rep s es \<Longrightarrow> entries_in s es"
  by (rule owns_entries) (rule aware_repD(3))

lemma lock_run: "aware_rep s es \<Longrightarrow> bk_aware_lock s = Inr ((), locked s)"
  by (simp add: aware_rep_def bk_aware_lock_def upd_env_def bindM_run)

lemma unlock_run: "sema (aenv s) = Some 0 \<Longrightarrow> bk_aware_unlock s = Inr ((), s\<lparr>aenv := (aenv s)\<lparr>sema := Some 1\<rparr>\<rparr>)"
  by (simp add: bk_aware_unlock_def upd_env_def bindM_run)

lemma unlock_locked:
  assumes "aware_rep s es"
  shows "bk_aware_unlock (locked s) = Inr ((), s)"
proof -
  have "(aenv s)\<lparr>sema := Some 1\<rparr> = aenv s" using assms by (cases "aenv s") (simp add: aware_rep_def)
  then show ?thesis by (simp add: unlock_run)
qed

lemma inited_run: "aware_rep s es \<Longrightarrow> bk_aware_inited s = Inr (True, s)"
  by (simp add: aware_rep_def bk_aware_inited_def)

text \<open>The common loop: the first entry with the address is handled and the loop is left.\<close>

lemma match_walk:
  assumes "entries_in s es" and stop: "\<And>a b i acc r s s'. f a b i acc s = Inr (r, s') \<Longrightarrow> snd r"
  shows "each_list (match_body addr f) (map (\<lambda>e. Priv (fst e)) es) acc s = (case find (entry_matches addr) es of
     None \<Rightarrow> Inr (acc, s) | Some (a, b, i) \<Rightarrow> bindM (f a b i acc) (\<lambda>r. retM (fst r)) s)"
  using assms(1)
proof (induction es)
  case (Cons e es)
  obtain a b i where e: "e = (a, b, i)" by (cases e)
  have at: "privs s a = Some (Some b)" "peers s b = Some i" using Cons.prems e by (auto simp: entries_in_def)
  show ?case
  proof (cases "same_addr (peer_addr i) addr")
    case True
    then show ?thesis
      using e at stop [of a b i acc s]
      by (cases "f a b i acc s") (auto simp: match_body_def peer_ptr_def peer_at_def entry_matches_def bindM_run)
  next
    case False
    then show ?thesis
      using e at Cons by (simp add: match_body_def peer_ptr_def peer_at_def entry_matches_def entries_in_def bindM_run)
  qed
qed simp

lemma match_keeps:
  assumes "match_body addr f x acc s = Inr ((acc', False), s')"
    and stop: "\<And>a b i acc r s s'. f a b i acc s = Inr (r, s') \<Longrightarrow> snd r"
  shows "s' = s"
  using assms
  by (auto simp: match_body_def peer_ptr_def peer_at_def deref_def bindM_eq_Inr
      split: aware_node.splits option.splits if_splits) fastforce+

lemma match_loops:
  assumes "ring (alinks s) Aware_Head (map (\<lambda>e. Priv (fst e)) es)" and "entries_in s es"
    and stop: "\<And>a b i acc r s s'. f a b i acc s = Inr (r, s') \<Longrightarrow> snd r"
  shows "list_for_each_entry (\<lambda>s. lnext (alinks s)) Aware_Head (match_body addr f) acc s = (case find (entry_matches addr) es of
       None \<Rightarrow> Inr (acc, s) | Some (a, b, i) \<Rightarrow> bindM (f a b i acc) (\<lambda>r. retM (fst r)) s)"
    and "list_for_each_entry_safe (\<lambda>s. lnext (alinks s)) Aware_Head (match_body addr f) acc s = (case find (entry_matches addr) es of
       None \<Rightarrow> Inr (acc, s) | Some (a, b, i) \<Rightarrow> bindM (f a b i acc) (\<lambda>r. retM (fst r)) s)"
proof -
  have walk: "each_list (match_body addr f) (map (\<lambda>e. Priv (fst e)) es) acc s = (case find (entry_matches addr) es of
     None \<Rightarrow> Inr (acc, s) | Some (a, b, i) \<Rightarrow> bindM (f a b i acc) (\<lambda>r. retM (fst r)) s)"
    by (rule match_walk [OF assms(2)]) (rule stop)
  have keep: "alinks s' = alinks s" if "match_body addr f x acc s = Inr ((acc', False), s')" for x acc acc' s s'
    using match_keeps [OF that] stop by blast
  show "list_for_each_entry (\<lambda>s. lnext (alinks s)) Aware_Head (match_body addr f) acc s = (case find (entry_matches addr) es of
       None \<Rightarrow> Inr (acc, s) | Some (a, b, i) \<Rightarrow> bindM (f a b i acc) (\<lambda>r. retM (fst r)) s)"
    unfolding walk [symmetric] by (rule aware.walk_entry [OF assms(1)]) (rule keep)
  show "list_for_each_entry_safe (\<lambda>s. lnext (alinks s)) Aware_Head (match_body addr f) acc s = (case find (entry_matches addr) es of
       None \<Rightarrow> Inr (acc, s) | Some (a, b, i) \<Rightarrow> bindM (f a b i acc) (\<lambda>r. retM (fst r)) s)"
    unfolding list_for_each_entry_safe_def walk [symmetric] by (rule aware.walk_safe [OF assms(1)]) (rule keep)
qed

lemma locked_entries: "entries_in (locked s) es = entries_in s es"
  by (simp add: entries_in_def)

lemma exist_run:
  assumes rep: "aware_rep s es"
  shows "bk_aware_is_peer_exist addr s = Inr (\<exists>e\<in>set es. entry_matches addr e, s)"
proof -
  have "list_for_each_entry (\<lambda>s. lnext (alinks s)) Aware_Head (match_body addr (\<lambda>_ _ _ _. retM (True, True))) False (locked s)
    = Inr (find (entry_matches addr) es \<noteq> None, locked s)"
    using match_loops(1) [of "locked s" es "\<lambda>_ _ _ _. retM (True, True)" addr False] rep_entries [OF rep] aware_repD(5) [OF rep]
    by (auto simp: locked_entries split: option.split)
  then show ?thesis
    using lock_run [OF rep] unlock_locked [OF rep]
    by (auto simp: bk_aware_is_peer_exist_def bindM_run thenM_run find_None_iff)
qed

section \<open>Removing and adding an entry\<close>

lemma map_of_drop:
  assumes "distinct (map fst (xs @ (k, v) # ys))"
  shows "(map_of (xs @ (k, v) # ys))(k := None) = map_of (xs @ ys)"
proof -
  have "map_of xs k = None" "map_of ys k = None" using assms by (simp_all add: map_of_eq_None_iff)
  then show ?thesis by (auto simp: fun_eq_iff map_add_def split: option.splits)
qed

lemma del_entry_run:
  assumes o: "owns s (us @ (a, b, i) # vs)"
  shows "\<exists>s'. del_entry a (Some b) s = Inr ((), s') \<and> owns s' (us @ vs) \<and> aenv s' = aenv s \<and> trace s' = trace s"
proof -
  let ?n = "map (\<lambda>e. Priv (fst e))"
  let ?s1 = "s\<lparr>peers := (peers s)(b := None), privs := (privs s)(a := Some None)\<rparr>"
  have "ring (alinks ?s1) Aware_Head (?n us @ Priv a # ?n vs)" using ownsD(1) [OF o] by simp
  from aware.on_links_del [OF this] obtain l where
    l: "in_alinks (list_del (Priv a)) ?s1 = Inr ((), ?s1\<lparr>alinks := l\<rparr>)" "ring l Aware_Head (?n (us @ vs))" by simp
  have run: "del_entry a (Some b) s = Inr ((), ?s1\<lparr>alinks := l, privs := (privs s)(a := None)\<rparr>)"
    using l(1) by (simp add: del_entry_def free_peer_def set_peer_ptr_def free_priv_def thenM_run)
  have "distinct (map fst (map (\<lambda>(a, b, i). (a, Some b)) (us @ (a, b, i) # vs)))"
    "distinct (map fst (map snd (us @ (a, b, i) # vs)))"
    using ownsD(4,5) [OF o] by (simp_all add: comp_def case_prod_beta)
  then have "(privs s)(a := None) = map_of (map (\<lambda>(a, b, i). (a, Some b)) (us @ vs))"
    "(peers s)(b := None) = map_of (map snd (us @ vs))"
    using map_of_drop [of "map (\<lambda>(a, b, i). (a, Some b)) us" a "Some b" "map (\<lambda>(a, b, i). (a, Some b)) vs"]
      map_of_drop [of "map snd us" b i "map snd vs"] ownsD(2,3) [OF o] by simp_all
  then have "owns (?s1\<lparr>alinks := l, privs := (privs s)(a := None)\<rparr>) (us @ vs)"
    using l(2) ownsD(4) [OF o] by (auto simp: owns_def)
  with run show ?thesis by auto
qed

lemma add_entry_run:
  assumes o: "owns s es" and fresh: "a \<notin> live s" "b \<notin> live s"
  shows "\<exists>s'. in_alinks (list_add_tail (Priv a) Aware_Head)
      (s\<lparr>privs := (privs s)(a := Some (Some b)), peers := (peers s)(b := Some i)\<rparr>) = Inr ((), s')
    \<and> owns s' (es @ [(a, b, i)]) \<and> aenv s' = aenv s \<and> trace s' = trace s"
proof -
  let ?n = "map (\<lambda>e. Priv (fst e))"
  let ?s1 = "s\<lparr>privs := (privs s)(a := Some (Some b)), peers := (peers s)(b := Some i)\<rparr>"
  have out: "a \<notin> dom (privs s)" "b \<notin> dom (peers s)" using fresh by (simp_all add: live_def)
  have a: "a \<notin> fst ` set es" using out(1) ownsD(2) [OF o] by (simp add: dom_map_of_conv_image_fst image_image case_prod_beta)
  have b: "b \<notin> (\<lambda>e. fst (snd e)) ` set es" using out(2) ownsD(3) [OF o] by (simp add: dom_map_of_conv_image_fst image_image)
  have r: "ring (alinks ?s1) Aware_Head (?n es)" using ownsD(1) [OF o] by simp
  have new: "Priv a \<notin> set (Aware_Head # ?n es)" using a by auto
  from aware.on_links_add_tail [OF r new] obtain l where
    l: "in_alinks (list_add_tail (Priv a) Aware_Head) ?s1 = Inr ((), ?s1\<lparr>alinks := l\<rparr>)" "ring l Aware_Head (?n (es @ [(a, b, i)]))" by simp
  have "owns (?s1\<lparr>alinks := l\<rparr>) (es @ [(a, b, i)])"
    using l(2) a b ownsD(2,3,4) [OF o] out
    by (auto simp: owns_def map_of_append map_add_def fun_eq_iff dom_def split: option.splits)
  with l(1) show ?thesis by auto
qed

lemma find_split:
  "find P es = Some e \<Longrightarrow> \<exists>us vs. es = us @ e # vs \<and> P e \<and> (\<forall>u\<in>set us. \<not> P u)"
proof (induction es)
  case (Cons x es)
  show ?case
  proof (cases "P x")
    case False
    with Cons obtain us vs where "es = us @ e # vs" "P e" "\<forall>u\<in>set us. \<not> P u" by auto
    with False show ?thesis by (intro exI [of _ "x # us"] exI [of _ vs]) simp
  qed (use Cons in \<open>auto intro: exI [of _ "[]"]\<close>)
qed simp

text \<open>Addresses are unique, so the first entry that matches is the only one.\<close>

lemma match_split:
  assumes "find (entry_matches addr) es = Some e" and "distinct (map (\<lambda>e. take 6 (peer_addr (snd (snd e)))) es)"
  obtains us vs where "es = us @ e # vs" "entry_matches addr e" "\<forall>u\<in>set (us @ vs). \<not> entry_matches addr u"
proof -
  from find_split [OF assms(1)] obtain us vs where
    es: "es = us @ e # vs" "entry_matches addr e" "\<forall>u\<in>set us. \<not> entry_matches addr u" by blast
  have "take 6 (peer_addr (snd (snd e))) \<notin> (\<lambda>e. take 6 (peer_addr (snd (snd e)))) ` set vs"
    using assms(2) es(1) by simp
  then have "\<forall>u\<in>set vs. \<not> entry_matches addr u" using es(2) by (auto simp: entry_matches_def same_addr_def image_iff)
  with es show ?thesis using that [of us vs] by (metis Un_iff set_append)
qed

section \<open>The functions on the list\<close>

definition strip :: "aware_peer \<Rightarrow> aware_peer" where
  "strip i = i\<lparr>priv := None\<rparr>"

definition peers_of :: "entry list \<Rightarrow> aware_peer list" where
  "peers_of es = map (\<lambda>e. strip (snd (snd e))) es"

text \<open>Of a count, the total that is written through the pointer is what the caller gets.\<close>

datatype aware_call = Add aware_peer | Del "u8 list" | Mod aware_peer | Get "u8 list" | Exist "u8 list" | Num

definition aware_run :: "aware_par \<Rightarrow> aware_call \<Rightarrow> (aware_st, int \<times> aware_peer option) prog" where
  "aware_run par c = (case c of
     Add i \<Rightarrow> bindM (bk_aware_add_peer par (Some i)) (\<lambda>r. retM (r, None))
   | Del a \<Rightarrow> bindM (bk_aware_del_peer (Some a)) (\<lambda>r. retM (r, None))
   | Mod i \<Rightarrow> bindM (bk_aware_mod_peer (Some i)) (\<lambda>r. retM (r, None))
   | Get a \<Rightarrow> bindM (bk_aware_get_peer (Some a) True) (\<lambda>(r, i). retM (r, map_option strip i))
   | Exist a \<Rightarrow> bindM (bk_aware_is_peer_exist a) (\<lambda>b. retM (if b then 1 else 0, None))
   | Num \<Rightarrow> bindM (bk_aware_get_peer_num True) (\<lambda>(r, n). bindM (deref n) (\<lambda>(total, encrypted). retM (total, None))))"

text \<open>The same calls on a list of peers.\<close>

abbreviation has :: "u8 list \<Rightarrow> aware_peer \<Rightarrow> bool" where
  "has a i \<equiv> same_addr (peer_addr i) a"

fun aware_spec :: "aware_call \<Rightarrow> aware_peer list \<Rightarrow> (int \<times> aware_peer option) \<times> aware_peer list" where
  "aware_spec (Add i) ps =
     (if list_ex (has (peer_addr i)) ps then ((BK_ERR_BK_AWARE_EXIST, None), ps) else ((BK_OK, None), ps @ [strip i]))"
| "aware_spec (Del a) ps =
     (if list_ex (has a) ps then ((BK_OK, None), filter (\<lambda>i. \<not> has a i) ps) else ((BK_ERR_BK_AWARE_NOT_FOUND, None), ps))"
| "aware_spec (Mod m) ps = ((BK_OK, None), map (\<lambda>i. if has (peer_addr m) i then strip m else i) ps)"
| "aware_spec (Get a) ps = (case find (has a) ps of
     None \<Rightarrow> ((BK_ERR_BK_AWARE_NOT_FOUND, None), ps) | Some i \<Rightarrow> ((BK_OK, Some i), ps))"
| "aware_spec (Exist a) ps = ((if list_ex (has a) ps then 1 else 0, None), ps)"
| "aware_spec Num ps = ((sint (of_nat (length ps) :: u32), None), ps)"

definition malloc_sound :: "aware_par \<Rightarrow> bool" where
  "malloc_sound par \<longleftrightarrow> (\<forall>L a. malloc par L = Some a \<longrightarrow> a \<notin> L)"

definition malloc_serves :: "aware_par \<Rightarrow> bool" where
  "malloc_serves par \<longleftrightarrow> malloc_sound par \<and> (\<forall>L. finite L \<longrightarrow> malloc par L \<noteq> None)"

lemma has_strip [simp]: "has a (strip i) = has a i"
  by (simp add: strip_def)

lemma has_peers_of: "list_ex (has a) (peers_of es) \<longleftrightarrow> (\<exists>e\<in>set es. entry_matches a e)"
  by (auto simp: peers_of_def list_ex_iff entry_matches_def)

lemma find_peers_of: "find (has a) (peers_of es) = map_option (\<lambda>e. strip (snd (snd e))) (find (entry_matches a) es)"
  by (induction es) (auto simp: peers_of_def entry_matches_def)

lemma filter_none: "\<forall>u\<in>set us. \<not> entry_matches a u \<Longrightarrow> filter (\<lambda>i. \<not> has a i) (peers_of us) = peers_of us"
  by (auto simp: peers_of_def entry_matches_def filter_id_conv)

lemma rep_unlock:
  assumes "owns s es" "aenv s = (aenv s0)\<lparr>sema := Some 0\<rparr>" "trace s = trace s0" "inited (aenv s0)"
    "distinct (map (\<lambda>e. take 6 (peer_addr (snd (snd e)))) es)"
  shows "\<exists>s'. bk_aware_unlock s = Inr ((), s') \<and> aware_rep s' es \<and> trace s' = trace s0"
  using assms by (simp add: unlock_run aware_rep_def owns_def)

lemma add_run:
  assumes rep: "aware_rep s es" and m: "malloc_serves par"
  shows "\<exists>s' es'. bk_aware_add_peer par (Some i) s = Inr (fst (fst (aware_spec (Add i) (peers_of es))), s')
    \<and> aware_rep s' es' \<and> peers_of es' = snd (aware_spec (Add i) (peers_of es)) \<and> trace s' = trace s"
proof (cases "\<exists>e\<in>set es. entry_matches (peer_addr i) e")
  case True
  then show ?thesis
    using rep exist_run [OF rep, of "peer_addr i"] by (auto simp: bk_aware_add_peer_def bindM_run has_peers_of)
next
  case False
  have fin: "finite (live s)" using ownsD(2,3) [OF aware_repD(3) [OF rep]] by (simp add: live_def finite_dom_map_of)
  from m fin obtain a where a: "malloc par (live s) = Some a" "a \<notin> live s"
    by (auto simp: malloc_serves_def malloc_sound_def)
  let ?s1 = "s\<lparr>privs := (privs s)(a := Some None)\<rparr>"
  have live1: "live ?s1 = insert a (live s)" by (auto simp: live_def)
  obtain b where b1: "malloc par (live ?s1) = Some b" using m fin unfolding live1 malloc_serves_def by fastforce
  with m have "b \<notin> live ?s1" by (simp add: malloc_serves_def malloc_sound_def)
  with b1 live1 have b: "malloc par (live ?s1) = Some b" "b \<notin> live s" by simp_all
  let ?i = "i\<lparr>priv := Some a\<rparr>"
  have o: "owns (locked s) es" using aware_repD(3) [OF rep] by (simp add: owns_def)
  have "a \<notin> live (locked s)" "b \<notin> live (locked s)" using a(2) b(2) by (simp_all add: live_def)
  from add_entry_run [OF o this, of ?i] obtain s2 where
    s2: "in_alinks (list_add_tail (Priv a) Aware_Head)
        ((locked s)\<lparr>privs := (privs s)(a := Some (Some b)), peers := (peers s)(b := Some ?i)\<rparr>) = Inr ((), s2)"
      "owns s2 (es @ [(a, b, ?i)])" "aenv s2 = (aenv s)\<lparr>sema := Some 0\<rparr>" "trace s2 = trace s" by auto
  have "distinct (map (\<lambda>e. take 6 (peer_addr (snd (snd e)))) (es @ [(a, b, ?i)]))"
    using aware_repD(4) [OF rep] False by (auto simp: entry_matches_def same_addr_def)
  from rep_unlock [OF s2(2,3,4) aware_repD(1) [OF rep] this] obtain s3 where
    s3: "bk_aware_unlock s2 = Inr ((), s3)" "aware_rep s3 (es @ [(a, b, ?i)])" "trace s3 = trace s" by blast
  have lock: "bk_aware_lock (s\<lparr>privs := (privs s)(a := Some (Some b)), peers := (peers s)(b := Some ?i)\<rparr>)
    = Inr ((), (locked s)\<lparr>privs := (privs s)(a := Some (Some b)), peers := (peers s)(b := Some ?i)\<rparr>)"
    using aware_repD(2) [OF rep] by (simp add: bk_aware_lock_def upd_env_def bindM_run)
  have "bk_aware_add_peer par (Some i) s = Inr (BK_OK, s3)"
    using exist_run [OF rep, of "peer_addr i"] False a(1) b(1) lock s2(1) s3(1)
    by (simp add: bk_aware_add_peer_def set_peer_ptr_def bindM_run thenM_run)
  moreover have "peers_of (es @ [(a, b, ?i)]) = peers_of es @ [strip i]" by (simp add: peers_of_def strip_def)
  ultimately show ?thesis using False s3 by (auto simp: has_peers_of)
qed

lemma del_run:
  assumes rep: "aware_rep s es"
  shows "\<exists>s' es'. bk_aware_del_peer (Some x) s = Inr (fst (fst (aware_spec (Del x) (peers_of es))), s')
    \<and> aware_rep s' es' \<and> peers_of es' = snd (aware_spec (Del x) (peers_of es)) \<and> trace s' = trace s"
proof -
  have loop: "list_for_each_entry_safe (\<lambda>s. lnext (alinks s)) Aware_Head
      (match_body x (\<lambda>a b _ _. thenM (del_entry a (Some b)) (retM (True, True)))) False (locked s)
    = (case find (entry_matches x) es of None \<Rightarrow> Inr (False, locked s)
       | Some (a, b, i) \<Rightarrow> bindM (thenM (del_entry a (Some b)) (retM (True, True))) (\<lambda>r. retM (fst r)) (locked s))"
    by (rule match_loops(2)) (use aware_repD(5) [OF rep] rep_entries [OF rep] in \<open>auto simp: entries_in_def thenM_eq_Inr\<close>)
  note lock = lock_run [OF rep] inited_run [OF rep]
  show ?thesis
  proof (cases "find (entry_matches x) es")
    case None
    then have "\<not> (\<exists>e\<in>set es. entry_matches x e)" by (auto simp: find_None_iff)
    then show ?thesis
      using None loop lock unlock_locked [OF rep] rep
      by (auto simp: bk_aware_del_peer_def when_inited_def bindM_run thenM_run has_peers_of)
  next
    case (Some e)
    obtain a b i where e: "e = (a, b, i)" by (cases e)
    from match_split [OF Some aware_repD(4) [OF rep]] obtain us vs where
      es: "es = us @ e # vs" "entry_matches x e" "\<forall>u\<in>set (us @ vs). \<not> entry_matches x u" .
    have "owns (locked s) (us @ (a, b, i) # vs)" using aware_repD(3) [OF rep] es(1) e by (simp add: owns_def)
    from del_entry_run [OF this] obtain s1 where
      s1: "del_entry a (Some b) (locked s) = Inr ((), s1)" "owns s1 (us @ vs)"
        "aenv s1 = (aenv s)\<lparr>sema := Some 0\<rparr>" "trace s1 = trace s" by auto
    have "distinct (map (\<lambda>e. take 6 (peer_addr (snd (snd e)))) (us @ vs))" using aware_repD(4) [OF rep] es(1) by auto
    from rep_unlock [OF s1(2,3,4) aware_repD(1) [OF rep] this] obtain s2 where
      s2: "bk_aware_unlock s1 = Inr ((), s2)" "aware_rep s2 (us @ vs)" "trace s2 = trace s" by blast
    have "bk_aware_del_peer (Some x) s = Inr (BK_OK, s2)"
      using Some e loop lock s1(1) s2(1) by (simp add: bk_aware_del_peer_def when_inited_def bindM_run thenM_run)
    moreover have "list_ex (has x) (peers_of es)" using es by (auto simp: has_peers_of)
    moreover have "filter (\<lambda>i. \<not> has x i) (peers_of es) = peers_of (us @ vs)"
      using es e filter_none [of us x] filter_none [of vs x] by (auto simp: peers_of_def entry_matches_def)
    ultimately show ?thesis using s2 by auto
  qed
qed

lemma mod_run:
  assumes rep: "aware_rep s es"
  shows "\<exists>s' es'. bk_aware_mod_peer (Some m) s = Inr (fst (fst (aware_spec (Mod m) (peers_of es))), s')
    \<and> aware_rep s' es' \<and> peers_of es' = snd (aware_spec (Mod m) (peers_of es)) \<and> trace s' = trace s"
proof -
  let ?f = "\<lambda>_ b _ _. thenM (modM (\<lambda>s. s\<lparr>peers := (peers s)(b := Some m)\<rparr>)) (retM ((), True))"
  have loop: "list_for_each_entry (\<lambda>s. lnext (alinks s)) Aware_Head (match_body (peer_addr m) ?f) () (locked s)
    = (case find (entry_matches (peer_addr m)) es of None \<Rightarrow> Inr ((), locked s)
       | Some (a, b, i) \<Rightarrow> Inr ((), (locked s)\<lparr>peers := (peers s)(b := Some m)\<rparr>))"
    using match_loops(1) [of "locked s" es ?f "peer_addr m" "()"] aware_repD(5) [OF rep] rep_entries [OF rep]
    by (auto simp: entries_in_def thenM_eq_Inr bindM_run thenM_run split: option.splits)
  note lock = lock_run [OF rep] inited_run [OF rep]
  show ?thesis
  proof (cases "find (entry_matches (peer_addr m)) es")
    case None
    then have "\<not> has (peer_addr m) (snd (snd e))" if "e \<in> set es" for e
      using that by (cases e) (auto simp: find_None_iff entry_matches_def)
    then have "map (\<lambda>i. if has (peer_addr m) i then strip m else i) (peers_of es) = peers_of es"
      by (auto simp: peers_of_def)
    then show ?thesis
      using None loop lock unlock_locked [OF rep] rep
      by (auto simp: bk_aware_mod_peer_def when_inited_def bindM_run thenM_run)
  next
    case (Some e)
    obtain a b i where e: "e = (a, b, i)" by (cases e)
    from match_split [OF Some aware_repD(4) [OF rep]] obtain us vs where
      es: "es = us @ e # vs" "entry_matches (peer_addr m) e" "\<forall>u\<in>set (us @ vs). \<not> entry_matches (peer_addr m) u" .
    let ?s1 = "(locked s)\<lparr>peers := (peers s)(b := Some m)\<rparr>" and ?es = "us @ (a, b, m) # vs"
    have "map_of (map snd us) b = None"
      using ownsD(4) [OF aware_repD(3) [OF rep]] es(1) e by (simp add: map_of_eq_None_iff image_image)
    then have "(map_of (map snd es))(b := Some m) = map_of (map snd ?es)"
      by (auto simp: es(1) e fun_eq_iff map_add_def split: option.splits)
    then have "owns ?s1 ?es"
      using aware_repD(3) [OF rep] es(1) e by (simp add: owns_def)
    moreover have "distinct (map (\<lambda>e. take 6 (peer_addr (snd (snd e)))) ?es)"
      using aware_repD(4) [OF rep] es(1,2) e by (simp add: entry_matches_def same_addr_def)
    ultimately obtain s2 where s2: "bk_aware_unlock ?s1 = Inr ((), s2)" "aware_rep s2 ?es" "trace s2 = trace s"
      using rep_unlock [of ?s1 ?es s] aware_repD(1) [OF rep] by auto
    have "map (\<lambda>i. if has (peer_addr m) i then strip m else i) (peers_of es) = peers_of ?es"
      using es e by (auto simp: peers_of_def entry_matches_def)
    then show ?thesis
      using Some e loop lock s2 by (auto simp: bk_aware_mod_peer_def when_inited_def bindM_run thenM_run)
  qed
qed

lemma get_run:
  assumes rep: "aware_rep s es"
  shows "bk_aware_get_peer (Some x) True s = Inr (case find (entry_matches x) es of
    None \<Rightarrow> (BK_ERR_BK_AWARE_NOT_FOUND, None) | Some e \<Rightarrow> (BK_OK, Some (snd (snd e))), s)"
proof -
  have "list_for_each_entry (\<lambda>s. lnext (alinks s)) Aware_Head
      (match_body x (\<lambda>_ _ info _. retM (Some info, True))) None (locked s)
    = Inr (map_option (\<lambda>e. snd (snd e)) (find (entry_matches x) es), locked s)"
    using match_loops(1) [of "locked s" es "\<lambda>_ _ info _. retM (Some info, True)" x None] aware_repD(5) [OF rep] rep_entries [OF rep]
    by (auto simp: entries_in_def split: option.splits)
  then show ?thesis
    using lock_run [OF rep] inited_run [OF rep] unlock_locked [OF rep]
    by (auto simp: bk_aware_get_peer_def bindM_run thenM_run split: option.split)
qed

lemma num_run:
  assumes rep: "aware_rep s es"
  shows "bk_aware_get_peer_num True s = Inr ((sint (of_nat (length es) :: u32), Some (sint (of_nat (length es) :: u32), 0)), s)"
proof -
  have "in_alinks (list_size Aware_Head) (locked s) = Inr (of_nat (length es), locked s)"
    using list_size_ring [of "alinks (locked s)" Aware_Head] aware_repD(5) [OF rep] by (fastforce simp: on_links_def)
  then show ?thesis
    using lock_run [OF rep] inited_run [OF rep] unlock_locked [OF rep]
    by (simp add: bk_aware_get_peer_num_def bindM_run thenM_run)
qed

lemma aware_call_refines:
  assumes rep: "aware_rep s es" and m: "malloc_serves par"
  shows "\<exists>s' es'. aware_run par c s = Inr (fst (aware_spec c (peers_of es)), s') \<and> aware_rep s' es'
    \<and> peers_of es' = snd (aware_spec c (peers_of es)) \<and> trace s' = trace s"
proof (cases c)
  case (Add i)
  from add_run [OF rep m, of i] obtain s' es' where
    s': "bk_aware_add_peer par (Some i) s = Inr (fst (fst (aware_spec (Add i) (peers_of es))), s')" "aware_rep s' es'"
      "peers_of es' = snd (aware_spec (Add i) (peers_of es))" "trace s' = trace s" by blast
  have "fst (aware_spec (Add i) ps) = (fst (fst (aware_spec (Add i) ps)), None)" for ps by simp
  with s' show ?thesis unfolding Add aware_run_def by (intro exI [of _ s'] exI [of _ es']) (simp add: bindM_run del: aware_spec.simps)
next
  case (Del x)
  from del_run [OF rep, of x] obtain s' es' where
    s': "bk_aware_del_peer (Some x) s = Inr (fst (fst (aware_spec (Del x) (peers_of es))), s')" "aware_rep s' es'"
      "peers_of es' = snd (aware_spec (Del x) (peers_of es))" "trace s' = trace s" by blast
  have "fst (aware_spec (Del x) ps) = (fst (fst (aware_spec (Del x) ps)), None)" for ps by simp
  with s' show ?thesis unfolding Del aware_run_def by (intro exI [of _ s'] exI [of _ es']) (simp add: bindM_run del: aware_spec.simps)
next
  case (Mod i)
  with mod_run [OF rep, of i] show ?thesis by (auto simp: aware_run_def bindM_run)
next
  case (Get x)
  with get_run [OF rep, of x] rep show ?thesis
    by (auto simp: aware_run_def bindM_run find_peers_of split: option.splits)
next
  case (Exist x)
  with exist_run [OF rep, of x] rep show ?thesis by (auto simp: aware_run_def bindM_run has_peers_of)
next
  case Num
  with num_run [OF rep] rep show ?thesis by (auto simp: aware_run_def bindM_run peers_of_def)
qed

fun aware_specs :: "aware_call list \<Rightarrow> aware_peer list \<Rightarrow> (int \<times> aware_peer option) list \<times> aware_peer list" where
  "aware_specs [] ps = ([], ps)"
| "aware_specs (c # cs) ps = (let (r, ps') = aware_spec c ps; (rs, ps'') = aware_specs cs ps' in (r # rs, ps''))"

lemma aware_calls_refine:
  assumes "aware_rep s es" and m: "malloc_serves par"
  shows "\<exists>s' es'. mapM (aware_run par) cs s = Inr (fst (aware_specs cs (peers_of es)), s') \<and> aware_rep s' es'
    \<and> peers_of es' = snd (aware_specs cs (peers_of es)) \<and> trace s' = trace s"
  using assms(1)
proof (induction cs arbitrary: s es)
  case (Cons c cs)
  from aware_call_refines [OF Cons.prems m, of c] obtain s1 es1 where
    1: "aware_run par c s = Inr (fst (aware_spec c (peers_of es)), s1)" "aware_rep s1 es1"
      "peers_of es1 = snd (aware_spec c (peers_of es))" "trace s1 = trace s" by blast
  from Cons.IH [OF 1(2)] obtain s2 es2 where
    2: "mapM (aware_run par) cs s1 = Inr (fst (aware_specs cs (peers_of es1)), s2)" "aware_rep s2 es2"
      "peers_of es2 = snd (aware_specs cs (peers_of es1))" "trace s2 = trace s1" by blast
  from 1 2 show ?case by (auto simp: bindM_run case_prod_beta Let_def)
qed auto

section \<open>Shutting down\<close>

definition deinit_body :: "aware_node \<Rightarrow> unit \<Rightarrow> (aware_st, unit \<times> bool) prog" where
  "deinit_body pos acc = bindM (peer_ptr pos) (\<lambda>(a, p). thenM (del_entry a p) (retM ((), False)))"

lemma deinit_step:
  assumes o: "owns s (e # es)"
  shows "\<exists>s'. deinit_body (Priv (fst e)) acc s = Inr (((), False), s') \<and> owns s' es \<and> aenv s' = aenv s \<and> trace s' = trace s"
proof -
  obtain a b i where e: "e = (a, b, i)" by (cases e)
  have "privs s a = Some (Some b)" using owns_entries [OF o] e by (simp add: entries_in_def)
  with del_entry_run [of s "[]" a b i es] o e show ?thesis
    by (auto simp: deinit_body_def peer_ptr_def bindM_run thenM_run)
qed

lemma deinit_walk:
  "owns s es \<Longrightarrow> \<exists>s'. each_list deinit_body (map (\<lambda>e. Priv (fst e)) es) () s = Inr ((), s')
    \<and> owns s' [] \<and> aenv s' = aenv s \<and> trace s' = trace s"
proof (induction es arbitrary: s)
  case (Cons e es)
  from deinit_step [OF Cons.prems, of "()"] obtain s1 where
    s1: "deinit_body (Priv (fst e)) () s = Inr (((), False), s1)" "owns s1 es" "aenv s1 = aenv s" "trace s1 = trace s" by blast
  from Cons.IH [OF s1(2)] s1 show ?case by (auto simp: bindM_run)
qed simp

lemma deinit_loop:
  assumes o: "owns s es"
  shows "list_for_each_safe (\<lambda>s. lnext (alinks s)) Aware_Head deinit_body () s
    = each_list deinit_body (map (\<lambda>e. Priv (fst e)) es) () s"
proof -
  let ?K = "\<lambda>s ns. \<exists>es. ns = map (\<lambda>e. Priv (fst e)) es \<and> owns s es"
  let ?ns = "map (\<lambda>e. Priv (fst e)) es"
  have "safe_loop (\<lambda>s. lnext (alinks s)) Aware_Head deinit_body (hd (?ns @ [Aware_Head]))
      (lnext (alinks s) (hd (?ns @ [Aware_Head]))) () s = Some (each_list deinit_body ?ns () s)"
  proof (rule safe_loop_list [where K = ?K])
    fix t x ys assume "?K t (x # ys)"
    then obtain e fs where fs: "x = Priv (fst e)" "ys = map (\<lambda>e. Priv (fst e)) fs" "owns t (e # fs)" by (auto simp: Cons_eq_map_conv)
    from ring_mid(2) [of "alinks t" Aware_Head "[]" x ys] ownsD(1) [OF fs(3)] fs(1,2)
    show "x \<noteq> Aware_Head \<and> lnext (alinks t) x = Some (hd (ys @ [Aware_Head]))" by simp
    fix acc acc' t' assume "deinit_body x acc t = Inr ((acc', False), t')"
    with deinit_step [OF fs(3), of acc] fs show "?K t' ys" by auto
  qed (use o in auto)
  then show ?thesis using ring_head(1) [OF ownsD(1) [OF o]] by (simp add: list_for_each_safe_def)
qed

lemma deinit_run:
  assumes rep: "aware_rep s es"
  shows "\<exists>s'. bk_aware_deinit par s = Inr (BK_OK, s') \<and> privs s' = Map.empty \<and> peers s' = Map.empty \<and> aenv s' = zero_env"
proof -
  have body: "(\<lambda>pos acc. bindM (peer_ptr pos) (\<lambda>(a, p). thenM (del_entry a p) (retM ((), False)))) = deinit_body"
    by (simp add: fun_eq_iff deinit_body_def)
  have "owns (locked s) es" using aware_repD(3) [OF rep] by (simp add: owns_def)
  with deinit_walk [OF this] deinit_loop [OF this] obtain s1 where
    s1: "list_for_each_safe (\<lambda>s. lnext (alinks s)) Aware_Head deinit_body () (locked s) = Inr ((), s1)"
      "owns s1 []" "aenv s1 = (aenv s)\<lparr>sema := Some 0\<rparr>" by auto
  have "bk_aware_unlock (s1\<lparr>aenv := (aenv s1)\<lparr>inited := False\<rparr>\<rparr>)
    = Inr ((), s1\<lparr>aenv := (aenv s1)\<lparr>inited := False, sema := Some 1\<rparr>\<rparr>)"
    using s1(3) by (simp add: unlock_run)
  then show ?thesis
    using lock_run [OF rep] inited_run [OF rep] s1 ownsD(2,3) [OF s1(2)]
    by (auto simp: bk_aware_deinit_def body list_for_each_entry_safe_def upd_env_def clear_env_def emit_def bindM_run thenM_run)
qed

lemma init_run:
  assumes "\<not> inited (aenv s)" and "privs s = Map.empty" "peers s = Map.empty" and "sema_ok par"
  shows "\<exists>s'. bk_aware_init par s = Inr (BK_OK, s') \<and> aware_rep s' [] \<and> recv_cb (aenv s') = None
    \<and> local_addr (aenv s') = mac_address par \<and> oui (aenv s') = CFG_BK_AWARE_OUI"
  using assms
  by (auto simp: bk_aware_init_def bk_aware_inited_def clear_env_def upd_env_def emit_def on_links_def zero_env_def
      bindM_run thenM_run aware_rep_def owns_def ring_def)

section \<open>Frames\<close>

text \<open>A frame the receiver takes for its own kind.\<close>

definition aware_frame :: "u8 list \<Rightarrow> u8 list \<Rightarrow> bool" where
  "aware_frame oui3 d \<longleftrightarrow> 39 \<le> length d \<and> d ! 0 = 0xD0 \<and> d ! 1 = 0 \<and> d ! 24 = WLAN_ACTION_VENDOR_SPECIFIC
     \<and> take 3 (drop 25 d) = oui3 \<and> d ! 32 = WLAN_EID_VENDOR_SPECIFIC \<and> take 3 (drop 34 d) = oui3 \<and> d ! 37 = 4"

lemma action_fctl: "ucast (0xD0 :: u8) OR push_bit 8 (ucast (0 :: u8)) AND MAC_FCTRL_TYPESUBTYPE_MASK = MAC_FCTRL_ACTION"
  by (simp add: MAC_FCTRL_TYPESUBTYPE_MASK_def MAC_FCTRL_ACTION_def)

lemma monitor_run:
  assumes rep: "aware_rep s es" and d: "aware_frame (take 3 (oui (aenv s))) d" and cb: "recv_cb (aenv s) = Some f"
  shows "bk_aware_monitor_cb d s = Inr ((),
    if (\<exists>e\<in>set es. entry_matches (take 6 (drop 10 d)) e) \<and> same_addr (take 6 (drop 4 d)) (local_addr (aenv s))
       \<or> is_multicast_ether_addr (take 6 (drop 16 d))
    then s\<lparr>trace := trace s @ [Recv_Cb f (take 6 (drop 10 d)) (drop 39 d) (int (unat (d ! 33)) - 5)]\<rparr> else s)"
proof -
  have fc: "take 2 d ! 0 = 0xD0" "take 2 d ! 1 = 0" using d by (simp_all add: aware_frame_def)
  have "deliver d (d ! 33) f s = Inr ((),
    if (\<exists>e\<in>set es. entry_matches (take 6 (drop 10 d)) e) \<and> same_addr (take 6 (drop 4 d)) (local_addr (aenv s))
       \<or> is_multicast_ether_addr (take 6 (drop 16 d))
    then s\<lparr>trace := trace s @ [Recv_Cb f (take 6 (drop 10 d)) (drop 39 d) (int (unat (d ! 33)) - 5)]\<rparr> else s)"
    using d exist_run [OF rep, of "take 6 (drop 10 d)"]
    by (simp add: deliver_def rd_bytes_def emit_def aware_frame_def bindM_run)
  then show ?thesis
    using d cb fc inited_run [OF rep]
    by (simp add: bk_aware_monitor_cb_def rd_def rd_bytes_def stop_unless_def aware_frame_def bindM_run Let_def
        MAC_FCTRL_TYPESUBTYPE_MASK_def MAC_FCTRL_ACTION_def)
qed

text \<open>The frame for \<open>bytes\<close> that goes to \<open>addr\<close>.\<close>

definition frame_of :: "bk_aware_env_tag \<Rightarrow> u32 \<Rightarrow> u8 list \<Rightarrow> u8 list \<Rightarrow> u8 list" where
  "frame_of env w addr bytes = [0xD0, 0, 0, 0] @ take 6 addr @ take 6 (local_addr env)
     @ (if is_multicast_ether_addr addr then take 6 addr else take 6 (local_addr env))
     @ [0, 0, WLAN_ACTION_VENDOR_SPECIFIC] @ take 3 (oui env) @ u32_bytes w
     @ [WLAN_EID_VENDOR_SPECIFIC, 5 + of_nat (length bytes)] @ take 3 (oui env) @ [4, 1] @ bytes"

lemma send_post_run:
  assumes rep: "aware_rep s es" and e: "\<exists>e\<in>set es. entry_matches addr e" and len: "length bytes \<le> BK_AWARE_MAX_DATA_LEN"
    and m: "malloc par (live s) = Some p"
  defines "fr \<equiv> frame_of (aenv s) (rand par) addr bytes"
  shows "bk_aware_send_post par (Some addr) (Some bytes) (length bytes) s = Inr ((BK_OK, Some (p, length fr)),
    s\<lparr>frame_mem := (p, fr @ [stale par]) # frame_mem s, trace := trace s @ [Raw_Post p (length fr)]\<rparr>)"
proof -
  have ex: "bk_aware_is_peer_exist addr s = Inr (True, s)" using exist_run [OF rep, of addr] e by simp
  show ?thesis
    using len inited_run [OF rep] ex m
    by (simp add: bk_aware_send_post_def bk_aware_construct_frame_def emit_def u16_bytes_def MAC_FCTRL_ACTION_def
        fr_def frame_of_def bindM_run thenM_run Let_def)
qed

lemma free_frame_run:
  assumes "p \<notin> fst ` set fs"
  shows "free_frame p (s\<lparr>frame_mem := (p, b) # fs\<rparr>) = Inr ((), s\<lparr>frame_mem := fs\<rparr>)"
proof -
  have "filter (\<lambda>f. fst f \<noteq> p) fs = fs" using assms by (force simp: filter_id_conv)
  then show ?thesis by (simp add: free_frame_def)
qed

lemma frame_fields:
  fixes w :: u32 and bytes :: "u8 list"
  assumes "length a1 = 6" "length a2 = 6" "length a3 = 6" "length o3 = 3" and n: "n < 251"
  defines "fr \<equiv> [0xD0, 0, 0, 0] @ a1 @ a2 @ a3 @ [0, 0, WLAN_ACTION_VENDOR_SPECIFIC] @ o3 @ u32_bytes w
     @ [WLAN_EID_VENDOR_SPECIFIC, 5 + of_nat n] @ o3 @ [4, 1] @ bytes"
  shows "aware_frame o3 fr" "take 6 (drop 4 fr) = a1" "take 6 (drop 10 fr) = a2" "take 6 (drop 16 fr) = a3"
    "drop 39 fr = bytes" "int (unat (fr ! 33)) - 5 = int n"
proof -
  have w: "length (u32_bytes w) = 4" by simp
  note len = assms(1-4) w
  show "aware_frame o3 fr" using len by (simp add: aware_frame_def fr_def nth_append)
  show "take 6 (drop 4 fr) = a1" "take 6 (drop 10 fr) = a2" "take 6 (drop 16 fr) = a3" "drop 39 fr = bytes"
    using len by (simp_all add: fr_def)
  have "fr ! 33 = 5 + of_nat n" using len by (simp add: fr_def nth_append)
  moreover have "unat (5 + of_nat n :: u8) = 5 + n"
  proof -
    have "(5 + of_nat n :: u8) = of_nat (5 + n)" by simp
    also have "unat \<dots> = 5 + n" using n by (simp only: unat_of_nat) simp
    finally show ?thesis .
  qed
  ultimately show "int (unat (fr ! 33)) - 5 = int n" by simp
qed

section \<open>Properties\<close>

text \<open>The number of peers that the header allows.\<close>

definition BK_AWARE_MAX_TOTAL_PEER_NUM :: nat where "BK_AWARE_MAX_TOTAL_PEER_NUM = 20"

definition within_limit :: "aware_call list \<Rightarrow> bool" where
  "within_limit calls \<longleftrightarrow> (\<forall>k \<le> length calls. length (snd (aware_specs (take k calls) [])) \<le> BK_AWARE_MAX_TOTAL_PEER_NUM)"

text \<open>
  C11: After \<open>bk_aware_init\<close> from a state with nothing allocated, when the semaphore can be made and with memory at hand, any sequence of adding, deleting, modifying, getting,
  testing and counting peers in which there are never more than the 20 peers that the header allows answers
  exactly as the same calls on a plain list of peers do (of a count, this is about the total that is
  written through the pointer), and afterwards the module's memory consists of exactly that list.
\<close>

theorem aware_refines:
  assumes "\<not> inited (aenv s0)" "privs s0 = Map.empty" "peers s0 = Map.empty" and "sema_ok par" and "malloc_serves par"
    and "within_limit calls"
  shows "\<exists>s1 s2 es. bk_aware_init par s0 = Inr (BK_OK, s1)
    \<and> mapM (aware_run par) calls s1 = Inr (fst (aware_specs calls []), s2)
    \<and> aware_rep s2 es \<and> peers_of es = snd (aware_specs calls []) \<and> length es \<le> BK_AWARE_MAX_TOTAL_PEER_NUM"
proof -
  from init_run [OF assms(1-4)] obtain s1 where s1: "bk_aware_init par s0 = Inr (BK_OK, s1)" "aware_rep s1 []" by blast
  have "peers_of [] = []" by (simp add: peers_of_def)
  with aware_calls_refine [OF s1(2) assms(5), of calls] obtain s2 es where
    s2: "mapM (aware_run par) calls s1 = Inr (fst (aware_specs calls []), s2)" "aware_rep s2 es" "peers_of es = snd (aware_specs calls [])" by auto
  have "length (peers_of es) \<le> BK_AWARE_MAX_TOTAL_PEER_NUM"
    using assms(6) s2(3) by (auto simp: within_limit_def dest: spec [of _ "length calls"])
  then have "length es \<le> BK_AWARE_MAX_TOTAL_PEER_NUM" by (simp add: peers_of_def)
  with s1(1) s2 show ?thesis by blast
qed

text \<open>
  There is no limit in the code: however many peers with different addresses are added, each is taken with
  \<^verbatim>\<open>BK_OK\<close>, also past the number that the header allows, where the comment of the function promises
  \<^verbatim>\<open>BK_ERR_BK_AWARE_FULL\<close>.
\<close>

lemma aware_specs_adds:
  "distinct (map (\<lambda>i. take 6 (peer_addr i)) (ps @ is)) \<Longrightarrow>
    aware_specs (map Add is) (map strip ps) = (replicate (length is) (BK_OK, None), map strip (ps @ is))"
proof (induction "is" arbitrary: ps)
  case (Cons i "is")
  have "take 6 (peer_addr i) \<notin> (\<lambda>i. take 6 (peer_addr i)) ` set ps" using Cons.prems by simp
  then have "\<not> list_ex (has (peer_addr i)) (map strip ps)"
    by (auto simp: list_ex_iff same_addr_def strip_def image_iff)
  moreover have "aware_specs (map Add is) (map strip (ps @ [i])) = (replicate (length is) (BK_OK, None), map strip ((ps @ [i]) @ is))"
    using Cons.prems by (intro Cons.IH) simp
  ultimately show ?case by simp
qed simp

theorem aware_no_limit:
  assumes "\<not> inited (aenv s0)" "privs s0 = Map.empty" "peers s0 = Map.empty" and "sema_ok par" and "malloc_serves par"
    and "distinct (map (\<lambda>i. take 6 (peer_addr i)) is)"
  shows "\<exists>s1 s2 es. bk_aware_init par s0 = Inr (BK_OK, s1)
    \<and> mapM (aware_run par) (map Add is) s1 = Inr (replicate (length is) (BK_OK, None), s2) \<and> aware_rep s2 es \<and> length es = length is"
proof -
  from init_run [OF assms(1-4)] obtain s1 where s1: "bk_aware_init par s0 = Inr (BK_OK, s1)" "aware_rep s1 []" by blast
  have "peers_of [] = map strip []" by (simp add: peers_of_def)
  with aware_calls_refine [OF s1(2) assms(5), of "map Add is"] aware_specs_adds [of "[]" "is"] assms(6) obtain s2 es where
    s2: "mapM (aware_run par) (map Add is) s1 = Inr (replicate (length is) (BK_OK, None), s2)" "aware_rep s2 es"
      "peers_of es = map strip is" by (simp only: append_Nil fst_conv snd_conv simp_thms) auto
  from s2(3) have "length (peers_of es) = length is" by simp
  then have "length es = length is" by (simp add: peers_of_def)
  with s1(1) s2 show ?thesis by blast
qed

text \<open>A node with nothing in memory, and an allocator that takes the first free address.\<close>

definition aware_zero :: aware_st where
  "aware_zero = \<lparr>aenv = zero_env, alinks = \<lparr>lnext = (\<lambda>_. None), lprev = (\<lambda>_. None)\<rparr>, privs = Map.empty, peers = Map.empty, frame_mem = [], trace = []\<rparr>"

definition first_fit :: aware_par where
  "first_fit = \<lparr>malloc = (\<lambda>L. if finite L then Some (Suc (Max (insert 0 L))) else None), sema_ok = True,
     mac_address = [2, 0, 0, 0, 0, 1], vif_cnt = 0, rand = 0x01020304, stale = 0xA5\<rparr>"

definition peer_rec :: "u8 \<Rightarrow> aware_peer" where
  "peer_rec n = \<lparr>peer_addr = [2, 0, 0, 0, 0, n], lmk = [], channel = 6, ifidx = 0, encrypt = False, priv = None\<rparr>"

lemma first_fit_serves: "malloc_serves first_fit"
proof -
  have "Suc (Max (insert 0 L)) \<notin> L" if "finite L" for L :: "nat set"
    using that by (metis Max_ge Suc_n_not_le_n finite_insert insertI2)
  then show ?thesis by (auto simp: malloc_serves_def malloc_sound_def first_fit_def)
qed

theorem aware_refines_witness:
  "\<exists>s1 s2 es. bk_aware_init first_fit aware_zero = Inr (BK_OK, s1)
    \<and> mapM (aware_run first_fit) [Add (peer_rec 7), Add (peer_rec 8), Add (peer_rec 7), Num, Del [2, 0, 0, 0, 0, 7], Get [2, 0, 0, 0, 0, 7]] s1
      = Inr ([(0, None), (0, None), (107, None), (2, None), (0, None), (105, None)], s2)
    \<and> aware_rep s2 es \<and> peers_of es = [peer_rec 8]"
proof -
  let ?calls = "[Add (peer_rec 7), Add (peer_rec 8), Add (peer_rec 7), Num, Del [2, 0, 0, 0, 0, 7], Get [2, 0, 0, 0, 0, 7]]"
  have "aware_specs ?calls [] = ([(0, None), (0, None), (107, None), (2, None), (0, None), (105, None)], [peer_rec 8])"
    by (simp add: peer_rec_def strip_def same_addr_def aware_errs)
  moreover have "within_limit ?calls"
    by (simp add: within_limit_def BK_AWARE_MAX_TOTAL_PEER_NUM_def take_Cons' peer_rec_def strip_def same_addr_def)
  ultimately show ?thesis
    using aware_refines [of aware_zero first_fit ?calls] first_fit_serves
    by (auto simp: aware_zero_def zero_env_def first_fit_def)
qed

text \<open>
  C37: Shutting the service down after any such sequence of calls returns every block: no list entry and
  no peer record is left allocated, and the module's variables are zero again.
\<close>

theorem aware_no_leak:
  assumes "\<not> inited (aenv s0)" "privs s0 = Map.empty" "peers s0 = Map.empty" and "sema_ok par" and "malloc_serves par"
  shows "\<exists>r s'. thenM (bk_aware_init par) (thenM (mapM (aware_run par) calls) (bk_aware_deinit par)) s0 = Inr (r, s')
    \<and> r = BK_OK \<and> privs s' = Map.empty \<and> peers s' = Map.empty \<and> aenv s' = zero_env"
proof -
  from init_run [OF assms(1-4)] obtain s1 where s1: "bk_aware_init par s0 = Inr (BK_OK, s1)" "aware_rep s1 []" by blast
  from aware_calls_refine [OF s1(2) assms(5), of calls] obtain s2 es rs where
    s2: "mapM (aware_run par) calls s1 = Inr (rs, s2)" "aware_rep s2 es" by blast
  from deinit_run [OF s2(2), of par] s1(1) s2(1) show ?thesis by (auto simp: thenM_run)
qed

theorem aware_no_leak_witness:
  "\<exists>r s'. thenM (bk_aware_init first_fit) (thenM (mapM (aware_run first_fit) [Add (peer_rec 7), Add (peer_rec 8)]) (bk_aware_deinit first_fit)) aware_zero
      = Inr (r, s') \<and> r = BK_OK \<and> privs s' = Map.empty \<and> peers s' = Map.empty \<and> aenv s' = zero_env"
  using aware_no_leak [of aware_zero first_fit "[Add (peer_rec 7), Add (peer_rec 8)]"] first_fit_serves
  by (simp add: aware_zero_def zero_env_def first_fit_def)

text \<open>The receiver gets out of a frame what the sender put into it.\<close>

lemma frame_delivered:
  assumes r: "aware_rep r fs" "\<exists>g\<in>set fs. entry_matches (local_addr env) g" "recv_cb (aenv r) = Some f"
    and lens: "length (local_addr env) = 6" "length (local_addr (aenv r)) = 6" "length (oui env) = 3" "oui (aenv r) = oui env"
    and bytes: "length bytes \<le> BK_AWARE_MAX_DATA_LEN"
  shows "bk_aware_monitor_cb (frame_of env w (local_addr (aenv r)) bytes @ fcs) r
    = Inr ((), r\<lparr>trace := trace r @ [Recv_Cb f (local_addr env) (bytes @ fcs) (int (length bytes))]\<rparr>)"
proof -
  let ?to = "local_addr (aenv r)" and ?from = "local_addr env"
  let ?a3 = "if is_multicast_ether_addr ?to then ?to else ?from"
  have n: "length bytes < 251" using bytes by (simp add: BK_AWARE_MAX_DATA_LEN_def)
  have a3: "length ?a3 = 6" using lens by simp
  note ff = frame_fields [OF lens(2,1) a3 lens(3) n, of w "bytes @ fcs"]
  define d where "d = frame_of env w ?to bytes @ fcs"
  have "d = [0xD0, 0, 0, 0] @ ?to @ ?from @ ?a3 @ [0, 0, WLAN_ACTION_VENDOR_SPECIFIC] @ oui env @ u32_bytes w
        @ [WLAN_EID_VENDOR_SPECIFIC, 5 + of_nat (length bytes)] @ oui env @ [4, 1] @ (bytes @ fcs)"
    using lens by (simp add: d_def frame_of_def)
  note ff' = ff [folded this]
  show ?thesis
    using monitor_run [OF r(1) _ r(3), of d] ff' lens r(2) unfolding d_def [symmetric] by (simp add: same_addr_def)
qed

definition node :: "u8 \<Rightarrow> entry list \<Rightarrow> aware_st" where
  "node n es = \<lparr>aenv = \<lparr>sema = Some 1, local_addr = [2, 0, 0, 0, 0, n], oui = CFG_BK_AWARE_OUI, fetch_pos = 0, inited = True,
       recv_cb = Some 77, send_cb = None\<rparr>,
     alinks = \<lparr>lnext = (\<lambda>k. case k of Aware_Head \<Rightarrow> Some (Priv 1) | Priv a \<Rightarrow> Some Aware_Head),
               lprev = (\<lambda>k. case k of Aware_Head \<Rightarrow> Some (Priv 1) | Priv a \<Rightarrow> Some Aware_Head)\<rparr>,
     privs = map_of (map (\<lambda>(a, b, i). (a, Some b)) es), peers = map_of (map snd es), frame_mem = [], trace = []\<rparr>"

lemma node_rep: "aware_rep (node n [(1, 2, peer_rec k)]) [(1, 2, peer_rec k)]"
  by (simp add: aware_rep_def owns_def node_def ring_def)

lemma node_sel:
  "local_addr (aenv (node n es)) = [2, 0, 0, 0, 0, n]" "oui (aenv (node n es)) = CFG_BK_AWARE_OUI"
  "recv_cb (aenv (node n es)) = Some 77" "trace (node n es) = []"
  by (simp_all add: node_def)

text \<open>
  The receiver does not look at the length of the frame it was given: a frame of 39 bytes with no user
  data at all, from a peer, whose length byte claims any \<open>n\<close>, calls the callback with \<open>n - 5\<close>, which
  is negative below five and up to 250 bytes past the end of the frame above.
\<close>

theorem aware_trusts_length:
  assumes "aware_rep s es" and "recv_cb (aenv s) = Some f" and "aware_frame (take 3 (oui (aenv s))) d" and "length d = 39"
    and "e \<in> set es" "entry_matches (take 6 (drop 10 d)) e" and "same_addr (take 6 (drop 4 d)) (local_addr (aenv s))"
  shows "bk_aware_monitor_cb d s = Inr ((),
    s\<lparr>trace := trace s @ [Recv_Cb f (take 6 (drop 10 d)) [] (int (unat (d ! 33)) - 5)]\<rparr>)"
proof -
  have "\<exists>e\<in>set es. entry_matches (take 6 (drop 10 d)) e" using assms(5,6) by blast
  with monitor_run [OF assms(1,3,2)] assms(4,7) show ?thesis by simp
qed

theorem aware_trusts_length_witness:
  "bk_aware_monitor_cb ([0xD0, 0, 0, 0, 2, 0, 0, 0, 0, 8, 2, 0, 0, 0, 0, 7, 2, 0, 0, 0, 0, 7, 0, 0, 127, 0xC8, 0x47, 0x8C, 1, 2, 3, 4,
      221, 0, 0xC8, 0x47, 0x8C, 4, 1]) (node 8 [(1, 2, peer_rec 7)])
   = Inr ((), (node 8 [(1, 2, peer_rec 7)])\<lparr>trace := [Recv_Cb 77 [2, 0, 0, 0, 0, 7] [] (- 5)]\<rparr>)"
proof -
  let ?d = "[0xD0, 0, 0, 0, 2, 0, 0, 0, 0, 8, 2, 0, 0, 0, 0, 7, 2, 0, 0, 0, 0, 7, 0, 0, 127, 0xC8, 0x47, 0x8C, 1, 2, 3, 4,
      221, 0, 0xC8, 0x47, 0x8C, 4, 1] :: u8 list"
  have "aware_frame CFG_BK_AWARE_OUI ?d"
    by (simp add: aware_frame_def CFG_BK_AWARE_OUI_def WLAN_ACTION_VENDOR_SPECIFIC_def WLAN_EID_VENDOR_SPECIFIC_def)
  then have "aware_frame (take 3 (oui (aenv (node 8 [(1, 2, peer_rec 7)])))) ?d"
    by (simp add: node_sel CFG_BK_AWARE_OUI_def)
  from aware_trusts_length [OF node_rep _ this, of 77 "(1, 2, peer_rec 7)"] show ?thesis
    by (simp add: node_sel entry_matches_def same_addr_def peer_rec_def)
qed

text \<open>Adding a peer before the service is initialised does not answer with an error code: the lock is a NULL handle.\<close>

theorem aware_add_before_init:
  assumes "aenv s = zero_env"
  shows "bk_aware_add_peer par (Some i) s = Inl Null_Deref"
  using assms by (simp add: bk_aware_add_peer_def bk_aware_is_peer_exist_def bk_aware_lock_def zero_env_def bindM_run thenM_run)

text \<open>When an allocation fails, adding a peer answers so and leaves the state exactly as it was.\<close>

theorem aware_no_mem:
  assumes rep: "aware_rep s es" and new: "\<not> (\<exists>e\<in>set es. entry_matches (peer_addr i) e)" and m: "malloc_sound par"
    and none: "malloc par (live s) = None \<or> (\<forall>a. malloc par (live s) = Some a \<longrightarrow> malloc par (insert a (live s)) = None)"
  shows "bk_aware_add_peer par (Some i) s = Inr (BK_ERR_BK_AWARE_NO_MEM, s)"
proof (cases "malloc par (live s)")
  case (Some a)
  have "a \<notin> live s" using m Some by (simp add: malloc_sound_def)
  then have "(privs s)(a := None) = privs s" by (auto simp: live_def)
  moreover have "live (s\<lparr>privs := (privs s)(a := Some None)\<rparr>) = insert a (live s)" by (auto simp: live_def)
  ultimately show ?thesis
    using exist_run [OF rep, of "peer_addr i"] new Some none
    by (simp add: bk_aware_add_peer_def set_peer_ptr_def free_priv_def bindM_run thenM_run)
qed (use exist_run [OF rep, of "peer_addr i"] new in \<open>simp add: bk_aware_add_peer_def bindM_run\<close>)

end
