(* ===== verification/Rw_Msdu.thy ===== *)
theory Rw_Msdu
  imports Doubly_List
begin

text \<open>
  The data path between the host and the MAC library: \<^verbatim>\<open>components/rwnx_intf/rw_msdu.c\<close>, and of
  \<^verbatim>\<open>app/app.c\<close> the queue of the core thread into which it posts. Frames to send are copied into
  allocated nodes and handed over in transmit descriptors; frames for a sleeping station of an access
  point wait in a list of that station (\<^verbatim>\<open>CFG_USE_AP_PS\<close>) until it wakes up, is removed, or ten
  seconds have passed.

  The MAC library is not part of these sources. What it owns (interface and station tables,
  descriptors) is state here, since the file reads and writes it; what it does when it is called
  is an entry of a log, and what it answers, which may depend on that log, is in the record \<open>msdu_env\<close>. Nodes live
  in a map from addresses; use or release of a node that is not allocated is a fault.
\<close>

section \<open>Data\<close>

text \<open>\<^verbatim>\<open>MSDU_NODE_T\<close>. The block continues with the buffer that \<^verbatim>\<open>msdu_ptr\<close> points to.\<close>

record MSDU_NODE_T =
  msdu_ptr :: "u8 list"
  len :: u32
  vif_idx :: u8
  sta_idx :: u8
  args :: "nat option"
  sync :: int

datatype tx_cb = Data_Tx_Cb | Mgmt_Cb nat

datatype tx_param = Desc_Param nat | User_Param "nat option"

text \<open>
  \<^verbatim>\<open>struct txdesc\<close>, the parts that the host writes or reads. An address in a node's buffer is
  the node and an offset.
\<close>

record txdesc =
  desc_status :: u32
  h_flags :: u16
  orig_addr :: "nat \<times> nat"
  packet_addr :: "nat \<times> nat"
  packet_len :: u16
  status_desc_addr :: "nat \<times> nat"
  eth_dest_addr :: "u8 list"
  eth_src_addr :: "u8 list"
  ethertype :: u16
  h_tid :: u8
  h_vif_idx :: u8
  h_staid :: u8
  callback :: "tx_cb option"
  h_param :: tx_param
  msdu_node :: "nat option"
  payl_len :: u16
  head_len :: u8
  tail_len :: u8
  hdr_len_802_2 :: u8
  buf_control_24G :: bool
  agg_desc :: "nat option"
  cfm_status :: u32
  statinfo :: u32

text \<open>
  Of the interface and station tables, what is used. \<open>ap_id\<close> is the byte at the place of
  \<^verbatim>\<open>u.sta.ap_id\<close>, whatever member of the union is in use.
\<close>

record vif_info_tag =
  vif_mac_addr :: "u8 list"
  vif_type :: u8
  vif_index :: u8
  vif_active :: bool
  ap_id :: u8
  acm :: u8
  default_key :: "u8 option"
  vif_priv :: "nat option"
  vif_sta_list :: "nat list"

record sta_info_tag =
  sta_mac_addr :: "u8 list"
  aid :: u16
  inst_nbr :: u8
  ps_state :: u8
  ctrl_port_state :: u8
  capa_flags :: u32
  cur_key :: "u8 option option"

record netif =
  hostname :: string
  hwaddr :: "u8 list"
  if_state :: "nat option"

record beken_timer =
  t_handle :: bool
  t_running :: bool

datatype msdu_place = Rx_List | Txing nat | Msdu nat

text \<open>
  Messages of the core thread; \<^verbatim>\<open>arg\<close>, \<^verbatim>\<open>len\<close>, \<^verbatim>\<open>cb\<close> and \<^verbatim>\<open>param\<close> are read by their type. A raw frame
  with a callback is only pointed to: the block still belongs to the sender, and what it holds is
  read when the message is handled. The block of a raw frame without one goes over to the thread, which
  frees it; its message carries the bytes.
\<close>

datatype bmsg =
    BMSG_NULL_TYPE
  | BMSG_RX_TYPE u32
  | BMSG_TX_TYPE nat u32
  | BMSG_IOCTL_TYPE nat
  | BMSG_SKT_TX_TYPE nat
  | BMSG_MEDIA_TYPE nat
  | BMSG_TXING_TYPE u8
  | BMSG_STA_PS_TYPE u8
  | BMSG_TX_RAW_TYPE "u8 list" u16
  | BMSG_TX_RAW_CB_TYPE nat u32 "nat option" "nat option"

record BUS_MSG_T =
  msg_type :: bmsg
  msg_sema :: "nat option"

datatype wifi_event =
    Txu_Push nat txdesc "u8 list" u32
  | Txl_Push nat txdesc "u8 list" u32
  | Tim_Update u8 u16 bool
  | Mgmt_Call nat tx_param
  | Tx_Result nat bool
  | Data_Prevent
  | Pwr_Mgt_Off
  | Ps_Wakeup
  | Dtim_Wakeup
  | If_Input u8 nat
  | Rx_Evt u32
  | Hapd_Rx nat
  | Ke_Msg nat
  | Media_Msg nat
  | Ps_Msg u8
  | Sema_Set nat
  | Ke_Sched
  | Sleep_Check
  | Raw_Freed "u8 list"

text \<open>\<^verbatim>\<open>struct pbuf\<close> of lwIP; the field \<^verbatim>\<open>len\<close> is the length of \<open>payload\<close>.\<close>

record pbuf =
  payload :: "u8 list"
  tot_len :: u16
  pnext :: "nat option"
  pref :: u16

record wifi_st =
  nodes :: "nat \<Rightarrow> MSDU_NODE_T option"
  mlinks :: "msdu_place links"
  ap_ps_active :: bool
  ps_timer :: "nat \<Rightarrow> beken_timer"
  g_tid :: u8
  txd :: "nat \<Rightarrow> txdesc"
  pck_cnt :: int
  vif_info_tab :: "vif_info_tag list"
  sta_info_tab :: "sta_info_tag list"
  used_list :: "nat list"
  netifs :: "nat \<Rightarrow> netif"
  io_queue :: "BUS_MSG_T list option"
  bmsg_rx_count :: int
  pbufs :: "nat \<Rightarrow> pbuf option"
  raw_mem :: "nat \<Rightarrow> u8 list option"
  log :: "wifi_event list"

text \<open>
  What is answered from outside: \<open>os_malloc\<close> gets the addresses in use and the size wanted and answers with an address
  and what the block holds; \<open>tx_txdesc_prepare\<close> picks a descriptor for a queue; \<open>mac_tid2ac\<close> is the
  library's table; \<open>timer_pass\<close> says whether a timer command gets through; \<open>pbuf_alloc\<close> finds room for a packet buffer and answers with its address and what it holds. Three switches of
  the configuration are here too.
\<close>

record msdu_env =
  cfg_use_ap_ps :: bool
  cfg_bk_aware :: bool
  cfg_wfa :: bool
  os_malloc :: "wifi_event list \<Rightarrow> nat set \<Rightarrow> u32 \<Rightarrow> (nat \<times> MSDU_NODE_T) option"
  tx_txdesc_prepare :: "wifi_event list \<Rightarrow> u32 \<Rightarrow> (nat \<Rightarrow> txdesc) \<Rightarrow> nat option"
  mac_tid2ac :: "u8 list"
  timer_pass :: "wifi_event list \<Rightarrow> nat \<Rightarrow> bool"
  pbuf_alloc :: "wifi_event list \<Rightarrow> nat set \<Rightarrow> u16 \<Rightarrow> (nat \<times> u8 list) option"

definition NX_VIRT_DEV_MAX :: nat where "NX_VIRT_DEV_MAX = 2"
definition NX_REMOTE_STA_MAX :: nat where "NX_REMOTE_STA_MAX = 2"
definition STA_MAX :: nat where "STA_MAX = 4"
definition MAX_PS_STA_NUM :: nat where "MAX_PS_STA_NUM = 2"
definition CFG_MSDU_RESV_HEAD_LEN :: nat where "CFG_MSDU_RESV_HEAD_LEN = 96"
definition CFG_MSDU_RESV_TAIL_LEN :: nat where "CFG_MSDU_RESV_TAIL_LEN = 16"
definition sizeof_MSDU_NODE_T :: nat where "sizeof_MSDU_NODE_T = 28"
definition CORE_QITEM_COUNT :: nat where "CORE_QITEM_COUNT = 64"
definition MSDU_RX_MAX_CNT :: u32 where "MSDU_RX_MAX_CNT = 32"
definition TXDESC_STA_USED :: u32 where "TXDESC_STA_USED = 1"
definition TXU_CNTRL_MORE_DATA :: u8 where "TXU_CNTRL_MORE_DATA = 4"
definition TXU_CNTRL_MGMT :: u8 where "TXU_CNTRL_MGMT = 8"
definition AC_VI :: u32 where "AC_VI = 2"
definition VIF_STA :: u8 where "VIF_STA = 0"
definition VIF_AP :: u8 where "VIF_AP = 2"
definition PORT_OPEN :: u8 where "PORT_OPEN = 3"
definition PS_MODE_OFF :: u8 where "PS_MODE_OFF = 0"
definition PS_MODE_ON :: u8 where "PS_MODE_ON = 1"
definition RW_FAILURE :: u32 where "RW_FAILURE = -1"
definition RW_SUCCESS :: u32 where "RW_SUCCESS = 0"
definition MM_SEC_MAX_KEY_NBR :: u8 where "MM_SEC_MAX_KEY_NBR = 64"
definition kNoErr :: int where "kNoErr = 0"
definition kGeneralErr :: int where "kGeneralErr = -1"

lemmas msdu_consts [simp] = NX_VIRT_DEV_MAX_def NX_REMOTE_STA_MAX_def STA_MAX_def MAX_PS_STA_NUM_def
  CFG_MSDU_RESV_HEAD_LEN_def CFG_MSDU_RESV_TAIL_LEN_def sizeof_MSDU_NODE_T_def

section \<open>Memory, tables and the kernel\<close>

definition logM :: "wifi_event \<Rightarrow> (wifi_st, unit) prog" where
  "logM e = modM (\<lambda>s. s\<lparr>log := log s @ [e]\<rparr>)"

abbreviation in_mlinks :: "(msdu_place links, 'a) prog \<Rightarrow> (wifi_st, 'a) prog" where
  "in_mlinks \<equiv> on_links mlinks mlinks_update"

definition node_at :: "nat \<Rightarrow> (wifi_st, MSDU_NODE_T) prog" where
  "node_at a = bindM (getM (\<lambda>s. nodes s a)) (\<lambda>n. case n of None \<Rightarrow> failM Dangling | Some n \<Rightarrow> retM n)"

definition upd_node :: "nat \<Rightarrow> (MSDU_NODE_T \<Rightarrow> MSDU_NODE_T) \<Rightarrow> (wifi_st, unit) prog" where
  "upd_node a f = bindM (node_at a) (\<lambda>n. modM (\<lambda>s. s\<lparr>nodes := (nodes s)(a := Some (f n))\<rparr>))"

definition os_free :: "nat \<Rightarrow> (wifi_st, unit) prog" where
  "os_free a = thenM (node_at a) (modM (\<lambda>s. s\<lparr>nodes := (nodes s)(a := None)\<rparr>))"

definition upd_desc :: "nat \<Rightarrow> (txdesc \<Rightarrow> txdesc) \<Rightarrow> (wifi_st, unit) prog" where
  "upd_desc d f = modM (\<lambda>s. s\<lparr>txd := (txd s)(d := f (txd s d))\<rparr>)"

text \<open>Reading \<open>n\<close> bytes at an offset of a block.\<close>

definition rd_at :: "u8 list \<Rightarrow> nat \<Rightarrow> nat \<Rightarrow> ('s, u8 list) prog" where
  "rd_at bs i n = (if i + n \<le> length bs then retM (take n (drop i bs)) else failM Bad_Index)"

definition vif_at :: "u8 \<Rightarrow> (wifi_st, vif_info_tag) prog" where
  "vif_at i = bindM (getM vif_info_tab) (\<lambda>t. if unat i < length t then retM (t ! unat i) else failM Bad_Index)"

definition sta_at :: "u8 \<Rightarrow> (wifi_st, sta_info_tag) prog" where
  "sta_at i = bindM (getM sta_info_tab) (\<lambda>t. if unat i < length t then retM (t ! unat i) else failM Bad_Index)"

definition rwm_mgmt_is_ap_inface :: "u8 \<Rightarrow> (wifi_st, bool) prog" where
  "rwm_mgmt_is_ap_inface i = bindM (vif_at i) (\<lambda>v. retM (vif_type v = VIF_AP))"

definition rwm_mgmt_is_sta_inface :: "u8 \<Rightarrow> (wifi_st, bool) prog" where
  "rwm_mgmt_is_sta_inface i = bindM (vif_at i) (\<lambda>v. retM (vif_type v = VIF_STA))"

definition sta_mgmt_is_in_ps :: "u8 \<Rightarrow> (wifi_st, bool) prog" where
  "sta_mgmt_is_in_ps i = bindM (sta_at i) (\<lambda>t. retM (ps_state t \<noteq> 0))"

definition sta_mgmt_get_vif_idx :: "u8 \<Rightarrow> (wifi_st, u8) prog" where
  "sta_mgmt_get_vif_idx i = bindM (sta_at i) (\<lambda>t. retM (inst_nbr t))"

text \<open>Declared to return a \<^verbatim>\<open>uint8_t\<close>.\<close>

definition sta_mgmt_get_aid :: "u8 \<Rightarrow> (wifi_st, u8) prog" where
  "sta_mgmt_get_aid i = bindM (sta_at i) (\<lambda>t. retM (ucast (aid t)))"

definition txl_cntrl_inc_pck_cnt :: "(wifi_st, unit) prog" where
  "txl_cntrl_inc_pck_cnt = modM (\<lambda>s. s\<lparr>pck_cnt := pck_cnt s + 1\<rparr>)"

definition txl_cntrl_dec_pck_cnt :: "(wifi_st, unit) prog" where
  "txl_cntrl_dec_pck_cnt = modM (\<lambda>s. s\<lparr>pck_cnt := pck_cnt s - 1\<rparr>)"

text \<open>The periodic timers of \<^verbatim>\<open>rtos_pub.c\<close>.\<close>

definition timer_cmd :: "msdu_env \<Rightarrow> nat \<Rightarrow> bool \<Rightarrow> (wifi_st, int) prog" where
  "timer_cmd env i run = bindM (getM (\<lambda>s. (t_handle (ps_timer s i), timer_pass env (log s) i))) (\<lambda>(h, pass).
     if \<not> h then failM Null_Deref
     else if pass
     then thenM (modM (\<lambda>s. s\<lparr>ps_timer := (ps_timer s)(i := (ps_timer s i)\<lparr>t_running := run\<rparr>)\<rparr>)) (retM kNoErr)
     else retM kGeneralErr)"

definition rtos_start_timer :: "msdu_env \<Rightarrow> nat \<Rightarrow> (wifi_st, int) prog" where
  "rtos_start_timer env i = timer_cmd env i True"

definition rtos_stop_timer :: "msdu_env \<Rightarrow> nat \<Rightarrow> (wifi_st, int) prog" where
  "rtos_stop_timer env i = timer_cmd env i False"

definition rtos_is_timer_running :: "nat \<Rightarrow> (wifi_st, bool) prog" where
  "rtos_is_timer_running i = bindM (getM (\<lambda>s. ps_timer s i)) (\<lambda>t. if t_handle t then retM (t_running t) else failM Null_Deref)"

definition rtos_init_timer :: "msdu_env \<Rightarrow> nat \<Rightarrow> (wifi_st, int) prog" where
  "rtos_init_timer env i =
     bindM (getM (\<lambda>s. timer_pass env (log s) i)) (\<lambda>pass.
     thenM (modM (\<lambda>s. s\<lparr>ps_timer := (ps_timer s)(i := \<lparr>t_handle = pass, t_running = False\<rparr>)\<rparr>))
           (retM (if pass then kNoErr else kGeneralErr)))"

text \<open>
  A message is refused when the queue is full; a sender that may wait is one that tries later.
\<close>

definition rtos_push_to_queue :: "BUS_MSG_T \<Rightarrow> (wifi_st, int) prog" where
  "rtos_push_to_queue m = bindM (getM io_queue) (\<lambda>q. case q of
     None \<Rightarrow> failM Null_Deref
   | Some ms \<Rightarrow>
       if length ms < CORE_QITEM_COUNT
       then thenM (modM (\<lambda>s. s\<lparr>io_queue := Some (ms @ [m])\<rparr>)) (retM kNoErr)
       else retM kGeneralErr)"

definition bmsg_txing_sender :: "u8 \<Rightarrow> (wifi_st, unit) prog" where
  "bmsg_txing_sender i =
     bindM (rtos_push_to_queue \<lparr>msg_type = BMSG_TXING_TYPE i, msg_sema = None\<rparr>) (\<lambda>_. retM ())"

section \<open>The receive list\<close>

definition rwm_push_rx_list :: "nat \<Rightarrow> (wifi_st, unit) prog" where
  "rwm_push_rx_list a = in_mlinks (list_add_tail (Msdu a) Rx_List)"

definition pop_body :: "msdu_place \<Rightarrow> nat option \<Rightarrow> (wifi_st, nat option \<times> bool) prog" where
  "pop_body pos acc =
     thenM (in_mlinks (list_del pos))
           (case pos of Msdu a \<Rightarrow> retM (Some a, True) | _ \<Rightarrow> failM Dangling)"

definition pop_list :: "msdu_place \<Rightarrow> (wifi_st, nat option) prog" where
  "pop_list head = list_for_each_safe (\<lambda>s. lnext (mlinks s)) head pop_body None"

definition rwm_pop_rx_list :: "(wifi_st, nat option) prog" where
  "rwm_pop_rx_list = pop_list Rx_List"

text \<open>\<^verbatim>\<open>while(1)\<close>: pop and free until the list is empty.\<close>

partial_function (option) flush_loop :: "(wifi_st, nat option) prog \<Rightarrow> wifi_st \<Rightarrow> (fault + unit \<times> wifi_st) option" where
  "flush_loop pop s = (case pop s of
     Inl e \<Rightarrow> Some (Inl e)
   | Inr (r, s1) \<Rightarrow> (case r of
       None \<Rightarrow> Some (Inr ((), s1))
     | Some a \<Rightarrow> (case os_free a s1 of Inl e \<Rightarrow> Some (Inl e) | Inr (_, s2) \<Rightarrow> flush_loop pop s2)))"

definition flush_list :: "(wifi_st, nat option) prog \<Rightarrow> (wifi_st, unit) prog" where
  "flush_list pop = (\<lambda>s. case flush_loop pop s of None \<Rightarrow> Inl Busy_Hang | Some r \<Rightarrow> r)"

definition rwm_flush_rx_list :: "(wifi_st, unit) prog" where
  "rwm_flush_rx_list = flush_list rwm_pop_rx_list"

definition rwm_get_rx_valid :: "(wifi_st, u32) prog" where
  "rwm_get_rx_valid =
     bindM (list_for_each_safe (\<lambda>s. lnext (mlinks s)) Rx_List (\<lambda>_ count. retM (count + 1, False)) 0) (\<lambda>count.
     retM (if count \<ge> MSDU_RX_MAX_CNT then 0 else 1))"

definition rwm_get_rx_valid_node_len :: "(wifi_st, u32) prog" where
  "rwm_get_rx_valid_node_len =
     list_for_each_safe (\<lambda>s. lnext (mlinks s)) Rx_List
       (\<lambda>pos _. case pos of Msdu a \<Rightarrow> bindM (node_at a) (\<lambda>n. retM (len n, True)) | _ \<Rightarrow> failM Dangling) 0"

definition rwm_uploaded_data_handle :: "u32 \<Rightarrow> (wifi_st, u32 \<times> u8 list) prog" where
  "rwm_uploaded_data_handle n =
     bindM rwm_pop_rx_list (\<lambda>r. case r of
       None \<Rightarrow> retM (RW_FAILURE, [])
     | Some a \<Rightarrow>
        bindM (node_at a) (\<lambda>nd.
        let count = min n (len nd) in
        bindM (rd_at (msdu_ptr nd) 0 (unat count)) (\<lambda>bytes.
        thenM (os_free a) (retM (count, bytes)))))"

section \<open>Nodes and confirmations\<close>

definition rwm_tx_msdu_renew :: "u8 list \<Rightarrow> u32 \<Rightarrow> nat \<Rightarrow> (wifi_st, unit) prog" where
  "rwm_tx_msdu_renew buf n a =
     bindM (rd_at buf 0 (unat n)) (\<lambda>bytes.
     bindM (node_at a) (\<lambda>nd.
     let h = CFG_MSDU_RESV_HEAD_LEN in
     if h + unat n \<le> length (msdu_ptr nd)
     then upd_node a (\<lambda>nd. nd\<lparr>msdu_ptr := take h (msdu_ptr nd) @ bytes @ drop (h + unat n) (msdu_ptr nd)\<rparr>)
     else failM Bad_Index))"

definition rwm_get_msdu_content_ptr :: "nat \<Rightarrow> nat \<times> nat" where
  "rwm_get_msdu_content_ptr a = (a, CFG_MSDU_RESV_HEAD_LEN)"

definition rwm_tx_node_alloc :: "msdu_env \<Rightarrow> u32 \<Rightarrow> (wifi_st, nat option) prog" where
  "rwm_tx_node_alloc env n =
     bindM (getM (\<lambda>s. os_malloc env (log s) (dom (nodes s))
       (of_nat sizeof_MSDU_NODE_T + of_nat CFG_MSDU_RESV_HEAD_LEN + n + of_nat CFG_MSDU_RESV_TAIL_LEN))) (\<lambda>r.
     case r of None \<Rightarrow> retM None
     | Some (a, nd) \<Rightarrow>
        thenM (modM (\<lambda>s. s\<lparr>nodes := (nodes s)(a := Some (nd\<lparr>len := n\<rparr>))\<rparr>)) (retM (Some a)))"

definition rwm_node_free :: "nat option \<Rightarrow> (wifi_st, unit) prog" where
  "rwm_node_free p = (case p of None \<Rightarrow> failM Assert_Fail | Some a \<Rightarrow> os_free a)"

text \<open>The node is dereferenced before it is compared with NULL.\<close>

definition ieee80211_data_tx_cb :: "tx_param \<Rightarrow> (wifi_st, unit) prog" where
  "ieee80211_data_tx_cb p = (case p of
     User_Param _ \<Rightarrow> failM Dangling
   | Desc_Param d \<Rightarrow>
      bindM (getM (\<lambda>s. txd s d)) (\<lambda>t.
      bindM (deref (msdu_node t)) (\<lambda>a.
      bindM (node_at a) (\<lambda>nd.
      bindM (deref (args nd)) (\<lambda>cb.
      logM (Tx_Result cb (statinfo t AND push_bit 23 1 \<noteq> 0)))))))"

definition rwm_tx_confirm :: "nat option \<Rightarrow> (wifi_st, unit) prog" where
  "rwm_tx_confirm p = (case p of
     None \<Rightarrow> retM ()
   | Some d \<Rightarrow>
      bindM (getM (\<lambda>s. txd s d)) (\<lambda>t.
      case msdu_node t of None \<Rightarrow> retM ()
      | Some a \<Rightarrow>
         thenM (case callback t of
                  None \<Rightarrow> retM ()
                | Some Data_Tx_Cb \<Rightarrow> ieee80211_data_tx_cb (h_param t)
                | Some (Mgmt_Cb f) \<Rightarrow> logM (Mgmt_Call f (h_param t)))
        (thenM (os_free a)
               (upd_desc d (msdu_node_update (\<lambda>_. None))))))"

text \<open>A frame of the caller is sent as it is; \<open>raw_desc\<close> is what the two senders of such frames write into a descriptor.\<close>

definition raw_desc :: "nat \<Rightarrow> u16 \<Rightarrow> txdesc \<Rightarrow> txdesc" where
  "raw_desc a n t = t\<lparr>desc_status := TXDESC_STA_USED, h_flags := ucast TXU_CNTRL_MGMT, orig_addr := (a, 0),
     packet_addr := rwm_get_msdu_content_ptr a, packet_len := n, status_desc_addr := rwm_get_msdu_content_ptr a,
     h_tid := 0xff, msdu_node := Some a, payl_len := n, head_len := 0, tail_len := 0, hdr_len_802_2 := 0,
     buf_control_24G := True, agg_desc := None, cfm_status := 0\<rparr>"

definition push_event :: "(nat \<Rightarrow> txdesc \<Rightarrow> u8 list \<Rightarrow> u32 \<Rightarrow> wifi_event) \<Rightarrow> nat \<Rightarrow> nat \<Rightarrow> u32 \<Rightarrow> (wifi_st, unit) prog" where
  "push_event ev d a queue =
     bindM (node_at a) (\<lambda>nd.
     bindM (getM (\<lambda>s. txd s d)) (\<lambda>t.
     logM (ev d t (take (unat (len nd)) (drop CFG_MSDU_RESV_HEAD_LEN (msdu_ptr nd))) queue)))"

text \<open>\<open>buffer\<close> is what the caller's pointer leads to: \<open>None\<close> when the block is not allocated any more. It is read once there is a node.\<close>

definition rwm_raw_frame_with_cb :: "msdu_env \<Rightarrow> u8 list option \<Rightarrow> u32 \<Rightarrow> nat option \<Rightarrow> nat option \<Rightarrow> (wifi_st, int) prog" where
  "rwm_raw_frame_with_cb env buffer n cb param =
     bindM (rwm_tx_node_alloc env n) (\<lambda>r. case r of None \<Rightarrow> retM 0
     | Some a \<Rightarrow>
        thenM (case buffer of None \<Rightarrow> failM Dangling | Some bytes \<Rightarrow> rwm_tx_msdu_renew bytes n a)
       (bindM (getM (\<lambda>s. (tx_txdesc_prepare env (log s) AC_VI (txd s), txd s))) (\<lambda>(p, ds).
        case p of None \<Rightarrow> thenM (rwm_node_free (Some a)) (retM 0)
        | Some d \<Rightarrow>
           if desc_status (ds d) = TXDESC_STA_USED then thenM (rwm_node_free (Some a)) (retM 0)
           else
             thenM (upd_desc d (\<lambda>t. (raw_desc a (ucast n) t)\<lparr>callback := map_option Mgmt_Cb cb,
                h_param := (if cfg_bk_aware env then Desc_Param d else User_Param param)\<rparr>))
            (thenM (logM Data_Prevent)
            (thenM (logM Pwr_Mgt_Off)
            (thenM (logM Ps_Wakeup)
            (thenM (push_event Txl_Push d a AC_VI)
                   (retM (sint n)))))))))"

definition rwm_get_tid :: "(wifi_st, u8) prog" where
  "rwm_get_tid = getM g_tid"

definition rwm_set_tid :: "u8 \<Rightarrow> (wifi_st, unit) prog" where
  "rwm_set_tid tid = modM (\<lambda>s. s\<lparr>g_tid := (if tid = 0xFF then tid else tid AND 0x07)\<rparr>)"

section \<open>Sending a node\<close>

text \<open>Lookup functions over the tables of the MAC library.\<close>

definition rwm_mgmt_vif_idx2ptr :: "u8 \<Rightarrow> ('s, u8 option) prog" where
  "rwm_mgmt_vif_idx2ptr i = retM (if unat i < NX_VIRT_DEV_MAX then Some i else None)"

definition MAC_ADDR_CMP :: "u8 list \<Rightarrow> u8 list \<Rightarrow> bool" where
  "MAC_ADDR_CMP a b \<longleftrightarrow> take 6 a = take 6 b"

text \<open>The first index of a table whose entry matches, as the loops of the file find it.\<close>

fun find_idx :: "('a \<Rightarrow> bool) \<Rightarrow> 'a list \<Rightarrow> nat \<Rightarrow> nat option" where
  "find_idx P [] i = None"
| "find_idx P (x # xs) i = (if P x then Some i else find_idx P xs (Suc i))"

definition rwm_mgmt_vif_type2ptr :: "u8 \<Rightarrow> (wifi_st, nat option) prog" where
  "rwm_mgmt_vif_type2ptr t = getM (\<lambda>s. find_idx (\<lambda>v. vif_type v = t) (take NX_VIRT_DEV_MAX (vif_info_tab s)) 0)"

definition rwm_mgmt_sta_idx2ptr :: "u8 \<Rightarrow> ('s, u8 option) prog" where
  "rwm_mgmt_sta_idx2ptr i = retM (if unat i < NX_REMOTE_STA_MAX then Some i else None)"

text \<open>Without a match the loop leaves the pointer at the last entry it looked at.\<close>

definition rwm_mgmt_sta_mac2ptr :: "u8 list \<Rightarrow> (wifi_st, nat) prog" where
  "rwm_mgmt_sta_mac2ptr mac = getM (\<lambda>s.
     case find_idx (\<lambda>t. MAC_ADDR_CMP (sta_mac_addr t) mac) (take NX_REMOTE_STA_MAX (sta_info_tab s)) 0 of
       None \<Rightarrow> NX_REMOTE_STA_MAX - 1 | Some i \<Rightarrow> i)"

definition rwm_mgmt_sta_mac2idx :: "u8 list \<Rightarrow> (wifi_st, u8) prog" where
  "rwm_mgmt_sta_mac2idx mac = getM (\<lambda>s.
     case find_idx (\<lambda>t. MAC_ADDR_CMP (sta_mac_addr t) mac) (take NX_REMOTE_STA_MAX (sta_info_tab s)) 0 of
       None \<Rightarrow> 0xff | Some i \<Rightarrow> of_nat i)"

definition rwm_mgmt_sta_mac2port :: "u8 list \<Rightarrow> (wifi_st, u8) prog" where
  "rwm_mgmt_sta_mac2port mac =
     bindM (rwm_mgmt_sta_mac2ptr mac) (\<lambda>i.
     bindM (sta_at (of_nat i)) (\<lambda>t. retM (if ctrl_port_state t = PORT_OPEN then 1 else 0)))"

definition rwm_mgmt_vif_mac2idx :: "u8 list \<Rightarrow> (wifi_st, u8) prog" where
  "rwm_mgmt_vif_mac2idx mac = getM (\<lambda>s.
     case find_idx (\<lambda>v. MAC_ADDR_CMP (vif_mac_addr v) mac) (take NX_VIRT_DEV_MAX (vif_info_tab s)) 0 of
       None \<Rightarrow> 0xff | Some i \<Rightarrow> of_nat i)"

text \<open>\<^verbatim>\<open>os_strncmp\<close> over the length of the host name: the name given has it as a prefix.\<close>

definition rwm_mgmt_vif_name2idx :: "string \<Rightarrow> (wifi_st, u8) prog" where
  "rwm_mgmt_vif_name2idx name = getM (\<lambda>s.
     case find_idx (\<lambda>v. case vif_priv v of None \<Rightarrow> False
           | Some p \<Rightarrow> take (length (hostname (netifs s p))) name = hostname (netifs s p))
         (take NX_VIRT_DEV_MAX (vif_info_tab s)) 0 of
       None \<Rightarrow> 0xff | Some i \<Rightarrow> of_nat i)"

definition rwm_mgmt_get_hwkeyidx :: "u8 \<Rightarrow> u8 \<Rightarrow> (wifi_st, u8) prog" where
  "rwm_mgmt_get_hwkeyidx vif staid =
     bindM (if staid = 0xff
            then bindM (rwm_mgmt_vif_idx2ptr vif) (\<lambda>p. case p of None \<Rightarrow> retM None
                 | Some i \<Rightarrow> bindM (vif_at i) (\<lambda>v. retM (default_key v)))
            else bindM (rwm_mgmt_sta_idx2ptr staid) (\<lambda>p. case p of None \<Rightarrow> retM None
                 | Some i \<Rightarrow> bindM (sta_at i) (\<lambda>t. deref (cur_key t)))) (\<lambda>key.
     retM (case key of None \<Rightarrow> MM_SEC_MAX_KEY_NBR + 1 | Some k \<Rightarrow> k))"

definition rwm_mgmt_set_vif_netif :: "nat option \<Rightarrow> (wifi_st, unit) prog" where
  "rwm_mgmt_set_vif_netif net_if = (case net_if of None \<Rightarrow> retM ()
   | Some p \<Rightarrow>
      bindM (getM (\<lambda>s. hwaddr (netifs s p))) (\<lambda>mac.
      bindM (rwm_mgmt_vif_mac2idx mac) (\<lambda>i.
      bindM (rwm_mgmt_vif_idx2ptr i) (\<lambda>v. case v of None \<Rightarrow> retM ()
      | Some j \<Rightarrow>
         thenM (modM (\<lambda>s. s\<lparr>vif_info_tab := (vif_info_tab s)[unat j := (vif_info_tab s ! unat j)\<lparr>vif_priv := Some p\<rparr>]\<rparr>))
               (modM (\<lambda>s. s\<lparr>netifs := (netifs s)(p := (netifs s p)\<lparr>if_state := Some (unat j)\<rparr>)\<rparr>))))))"

definition rwm_mgmt_get_vif2netif :: "u8 \<Rightarrow> (wifi_st, nat option) prog" where
  "rwm_mgmt_get_vif2netif i =
     bindM (rwm_mgmt_vif_idx2ptr i) (\<lambda>v. case v of None \<Rightarrow> retM None
     | Some j \<Rightarrow> bindM (vif_at j) (\<lambda>v. retM (vif_priv v)))"

definition rwm_mgmt_get_netif2vif :: "nat option \<Rightarrow> (wifi_st, u8) prog" where
  "rwm_mgmt_get_netif2vif net_if = (case net_if of None \<Rightarrow> retM 0xff
   | Some p \<Rightarrow> bindM (getM (\<lambda>s. if_state (netifs s p))) (\<lambda>st. case st of None \<Rightarrow> retM 0xff
      | Some j \<Rightarrow> bindM (vif_at (of_nat j)) (\<lambda>v. retM (vif_index v))))"

definition rwm_mgmt_tx_get_staidx :: "u8 \<Rightarrow> u8 list \<Rightarrow> (wifi_st, u8) prog" where
  "rwm_mgmt_tx_get_staidx vif dstmac =
     bindM (rwm_mgmt_vif_idx2ptr vif) (\<lambda>p.
     bindM (case p of None \<Rightarrow> retM 0xff
            | Some i \<Rightarrow> bindM (vif_at i) (\<lambda>v.
                if vif_type v = VIF_STA then retM (ap_id v)
                else if vif_type v = VIF_AP then bindM (rd_at dstmac 0 6) rwm_mgmt_sta_mac2idx
                else retM 0xff)) (\<lambda>staid.
     retM (if staid = 0xff then of_nat NX_REMOTE_STA_MAX + vif else staid)))"

definition rwn_mgmt_is_only_sta_role_add :: "(wifi_st, u8) prog" where
  "rwn_mgmt_is_only_sta_role_add = bindM (getM used_list) (\<lambda>us. case us of [] \<Rightarrow> retM 0
   | i # _ \<Rightarrow> bindM (vif_at (of_nat i)) (\<lambda>v. retM (if vif_type v = VIF_STA then 1 else 0)))"

fun ap_stas_empty :: "nat list \<Rightarrow> (wifi_st, u8) prog" where
  "ap_stas_empty [] = retM 0"
| "ap_stas_empty (i # us) = bindM (vif_at (of_nat i)) (\<lambda>v.
     if vif_type v = VIF_AP \<and> vif_sta_list v = [] then retM 1 else ap_stas_empty us)"

definition rwn_mgmt_if_ap_stas_empty :: "(wifi_st, u8) prog" where
  "rwn_mgmt_if_ap_stas_empty = bindM (getM used_list) ap_stas_empty"

text \<open>The user priority of a frame. Without certification (no configuration has it) it is four.\<close>

definition ipv4_ieee8023_dscp :: "u8 list \<Rightarrow> ('s, u8) prog" where
  "ipv4_ieee8023_dscp buf = bindM (rd_at buf 1 1) (\<lambda>b. retM (drop_bit 5 (hd b AND 0xfc)))"

text \<open>The last byte of the flow label.\<close>

definition ipv6_ieee8023_dscp :: "u8 list \<Rightarrow> ('s, u8) prog" where
  "ipv6_ieee8023_dscp buf = bindM (rd_at buf 3 1) (\<lambda>b. retM (drop_bit 5 (hd b AND 0xfc)))"

definition classify8021d :: "msdu_env \<Rightarrow> u8 list \<Rightarrow> ('s, u8) prog" where
  "classify8021d env buf =
     (if cfg_wfa env then bindM (rd_at buf 12 2) (\<lambda>t.
        if t = [0x08, 0x00] then ipv4_ieee8023_dscp (drop 14 buf)
        else if t = [0x86, 0xDD] then ipv6_ieee8023_dscp (drop 14 buf)
        else if t = [0x88, 0x8E] then retM 7
        else retM 0)
      else retM 4)"

definition qos_need_enabled :: "sta_info_tag option \<Rightarrow> bool" where
  "qos_need_enabled sta = (case sta of None \<Rightarrow> False | Some t \<Rightarrow> capa_flags t AND 1 \<noteq> 0)"

definition sta_11n_nss :: "u8 list \<Rightarrow> nat" where
  "sta_11n_nss mcs_set = length (filter (\<lambda>b. b \<noteq> 0) (take 4 mcs_set))"

text \<open>The access category, lowered past those that need admission.\<close>

fun admitted :: "u8 \<Rightarrow> nat \<Rightarrow> nat option" where
  "admitted m i = (if m AND push_bit i 1 = 0 then Some i else case i of 0 \<Rightarrow> None | Suc j \<Rightarrow> admitted m j)"

declare admitted.simps [simp del]

definition pick_queue :: "msdu_env \<Rightarrow> u8 \<Rightarrow> u8 list \<Rightarrow> (wifi_st, (u8 \<times> u32) option) prog" where
  "pick_queue env vif content =
     bindM (rwm_mgmt_vif_idx2ptr vif) (\<lambda>p. case p of None \<Rightarrow> retM None
     | Some i \<Rightarrow> bindM (vif_at i) (\<lambda>v.
        if vif_active v then bindM (sta_at (ap_id v)) (\<lambda>sta.
          if qos_need_enabled (Some sta) then bindM (classify8021d env content) (\<lambda>tid.
            bindM (rd_at (mac_tid2ac env) (unat tid) 1) (\<lambda>ac.
            retM (case admitted (acm v) (unat (hd ac)) of None \<Rightarrow> None | Some q \<Rightarrow> Some (tid, of_nat q))))
          else retM (Some (0xFF, AC_VI)))
        else retM (Some (0xFF, AC_VI))))"

definition rwm_txdesc_copy :: "nat \<Rightarrow> u8 list \<Rightarrow> (wifi_st, unit) prog" where
  "rwm_txdesc_copy d eth = upd_desc d (\<lambda>t. t\<lparr>eth_dest_addr := take 6 eth, eth_src_addr := take 6 (drop 6 eth)\<rparr>)"

definition data_desc :: "nat \<Rightarrow> nat \<Rightarrow> MSDU_NODE_T \<Rightarrow> u8 list \<Rightarrow> u8 \<Rightarrow> u8 \<Rightarrow> txdesc \<Rightarrow> txdesc" where
  "data_desc d a nd eth flag tid t = (let c = CFG_MSDU_RESV_HEAD_LEN + 14 in
     t\<lparr>h_flags := ucast flag, orig_addr := (a, 0), packet_addr := (a, c), packet_len := ucast (len nd - 14),
       status_desc_addr := (a, c), ethertype := ucast (eth ! 12) OR push_bit 8 (ucast (eth ! 13)), h_tid := tid,
       h_vif_idx := vif_idx nd, h_staid := sta_idx nd, msdu_node := Some a,
       callback := (if sync nd \<noteq> 0 then Some Data_Tx_Cb else None),
       h_param := (if sync nd \<noteq> 0 then Desc_Param d else h_param t),
       agg_desc := None, cfm_status := 0\<rparr>)"

definition tx_exit :: "nat option \<Rightarrow> (wifi_st, u32) prog" where
  "tx_exit p =
     thenM (case p of None \<Rightarrow> retM () | Some _ \<Rightarrow> rwm_node_free p)
    (thenM txl_cntrl_dec_pck_cnt (retM 0))"

definition rwm_transfer_node :: "msdu_env \<Rightarrow> nat option \<Rightarrow> u8 \<Rightarrow> (wifi_st, u32) prog" where
  "rwm_transfer_node env p flag = (case p of None \<Rightarrow> tx_exit p
   | Some a \<Rightarrow>
      bindM (node_at a) (\<lambda>nd.
      bindM (rd_at (msdu_ptr nd) CFG_MSDU_RESV_HEAD_LEN 14) (\<lambda>eth.
      bindM (pick_queue env (vif_idx nd) (drop CFG_MSDU_RESV_HEAD_LEN (msdu_ptr nd))) (\<lambda>q. case q of None \<Rightarrow> tx_exit p
      | Some (tid, queue) \<Rightarrow>
         bindM (getM (\<lambda>s. tx_txdesc_prepare env (log s) queue (txd s))) (\<lambda>dp.
         bindM (deref dp) (\<lambda>d.
         bindM (getM (\<lambda>s. txd s d)) (\<lambda>t.
         if desc_status t = TXDESC_STA_USED then tx_exit p
         else
           thenM (upd_desc d (desc_status_update (\<lambda>_. TXDESC_STA_USED)))
          (thenM (rwm_txdesc_copy d eth)
          (thenM (upd_desc d (data_desc d a nd eth flag tid))
          (thenM (push_event Txu_Push d a queue)
                 (retM 0)))))))))))"

section \<open>Frames for sleeping stations\<close>

definition rwm_push_txing_list :: "nat \<Rightarrow> u8 \<Rightarrow> (wifi_st, unit) prog" where
  "rwm_push_txing_list a sta =
     (if unat sta \<ge> MAX_PS_STA_NUM then retM () else in_mlinks (list_add_tail (Msdu a) (Txing (unat sta))))"

definition rwm_pop_txing_list :: "u8 \<Rightarrow> (wifi_st, nat option) prog" where
  "rwm_pop_txing_list sta = (if unat sta \<ge> MAX_PS_STA_NUM then retM None else pop_list (Txing (unat sta)))"

text \<open>
  The other walks over these lists run with interrupts masked, this one does not: between two of its steps another
  context may take nodes off the list or free them. Here it is one step, so such an interleaving is not in the model.
\<close>

definition rwm_txling_list_node_count :: "u8 \<Rightarrow> (wifi_st, u32) prog" where
  "rwm_txling_list_node_count sta =
     (if unat sta \<ge> MAX_PS_STA_NUM then retM 0 else in_mlinks (list_size (Txing (unat sta))))"

definition start_if_stopped :: "msdu_env \<Rightarrow> nat \<Rightarrow> (wifi_st, unit) prog" where
  "start_if_stopped env i = bindM (rtos_is_timer_running i) (\<lambda>r.
     whenM (\<not> r) (bindM (rtos_start_timer env i) (\<lambda>ret. assertM (ret = 0))))"

definition stop_if_running :: "msdu_env \<Rightarrow> nat \<Rightarrow> (wifi_st, unit) prog" where
  "stop_if_running env i = bindM (rtos_is_timer_running i) (\<lambda>r.
     whenM r (bindM (rtos_stop_timer env i) (\<lambda>ret. assertM (ret = 0))))"

definition rwm_flush_txing_list :: "msdu_env \<Rightarrow> u8 \<Rightarrow> (wifi_st, unit) prog" where
  "rwm_flush_txing_list env sta =
     (if unat sta \<ge> MAX_PS_STA_NUM then retM ()
      else
        bindM (rwm_txling_list_node_count sta) (\<lambda>n.
        thenM (whenM (n \<noteq> 0) (flush_list (rwm_pop_txing_list sta)))
              (stop_if_running env (unat sta))))"

definition normal_transfer :: "msdu_env \<Rightarrow> nat \<Rightarrow> (wifi_st, unit) prog" where
  "normal_transfer env a = thenM txl_cntrl_inc_pck_cnt (thenM (rwm_transfer_node env (Some a) 0) (retM ()))"

definition rwm_ps_tranfer_node :: "msdu_env \<Rightarrow> nat option \<Rightarrow> (wifi_st, unit) prog" where
  "rwm_ps_tranfer_node env p = (case p of None \<Rightarrow> retM ()
   | Some a \<Rightarrow>
      bindM (node_at a) (\<lambda>nd.
      bindM (rwm_mgmt_is_ap_inface (vif_idx nd)) (\<lambda>ap.
      if \<not> ap then normal_transfer env a
      else bindM (getM ap_ps_active) (\<lambda>act.
      if \<not> act then normal_transfer env a
      else
        bindM (sta_mgmt_is_in_ps (sta_idx nd)) (\<lambda>ps.
        bindM (rwm_txling_list_node_count (sta_idx nd)) (\<lambda>n.
        if (ps \<or> n \<noteq> 0) \<and> unat (sta_idx nd) < MAX_PS_STA_NUM
        then
          thenM (whenM (n = 0)
            (bindM (sta_mgmt_get_vif_idx (sta_idx nd)) (\<lambda>v.
             bindM (sta_mgmt_get_aid (sta_idx nd)) (\<lambda>aid.
             thenM (logM (Tim_Update v (ucast aid) True))
                   (start_if_stopped env (unat (sta_idx nd)))))))
                (rwm_push_txing_list a (sta_idx nd))
        else normal_transfer env a))))))"

definition rwm_msdu_send_txing_node :: "msdu_env \<Rightarrow> u8 \<Rightarrow> (wifi_st, unit) prog" where
  "rwm_msdu_send_txing_node env sta =
     bindM (rwm_pop_txing_list sta) (\<lambda>r. case r of None \<Rightarrow> retM ()
     | Some a \<Rightarrow>
        bindM (rwm_txling_list_node_count sta) (\<lambda>node_left.
        thenM txl_cntrl_inc_pck_cnt
       (thenM (rwm_transfer_node env (Some a) TXU_CNTRL_MORE_DATA)
       (if node_left = 0
        then bindM (sta_mgmt_get_vif_idx sta) (\<lambda>v.
             bindM (sta_mgmt_get_aid sta) (\<lambda>aid. logM (Tim_Update v (ucast aid) False)))
        else bindM (sta_mgmt_is_in_ps sta) (\<lambda>ps. whenM (\<not> ps) (bmsg_txing_sender sta))))))"

definition rwm_msdu_ps_change_ind_handler :: "msdu_env \<Rightarrow> (u8 \<times> u8) option \<Rightarrow> (wifi_st, unit) prog" where
  "rwm_msdu_ps_change_ind_handler env msg = (case msg of None \<Rightarrow> retM ()
   | Some (sta, ps) \<Rightarrow>
      bindM (rwm_txling_list_node_count sta) (\<lambda>node_left.
      if ps = PS_MODE_OFF \<and> node_left \<noteq> 0
      then thenM (bmsg_txing_sender sta)
                 (stop_if_running env (unat sta))
      else whenM (ps = PS_MODE_ON \<and> node_left \<noteq> 0) (start_if_stopped env (unat sta))))"

definition rwm_msdu_ap_ps_timeout :: "msdu_env \<Rightarrow> u32 \<Rightarrow> (wifi_st, unit) prog" where
  "rwm_msdu_ap_ps_timeout env data = rwm_flush_txing_list env (ucast data)"

definition rwm_msdu_init :: "msdu_env \<Rightarrow> (wifi_st, unit) prog" where
  "rwm_msdu_init env =
     thenM (whenM (cfg_use_ap_ps env)
       (thenM (modM (ap_ps_active_update (\<lambda>_. True)))
        (forM [0..<MAX_PS_STA_NUM] (\<lambda>i.
          thenM (in_mlinks (INIT_LIST_HEAD (Txing i)))
         (bindM (rtos_init_timer env i) (\<lambda>ret. assertM (ret = 0)))))))
     (modM (g_tid_update (\<lambda>_. 0xFF)))"

definition rwm_transfer :: "msdu_env \<Rightarrow> u8 \<Rightarrow> u8 list \<Rightarrow> u32 \<Rightarrow> int \<Rightarrow> nat option \<Rightarrow> (wifi_st, u32) prog" where
  "rwm_transfer env vif buf n syn ar =
     bindM (rwm_tx_node_alloc env n) (\<lambda>r. case r of
       None \<Rightarrow> thenM txl_cntrl_dec_pck_cnt (retM RW_FAILURE)
     | Some a \<Rightarrow>
        thenM (rwm_tx_msdu_renew buf n a)
       (thenM (upd_node a (\<lambda>nd. nd\<lparr>vif_idx := vif, sync := syn, args := ar\<rparr>))
       (bindM (rwm_mgmt_tx_get_staidx vif buf) (\<lambda>sta.
        thenM (upd_node a (\<lambda>nd. nd\<lparr>sta_idx := sta\<rparr>))
       (thenM (if cfg_use_ap_ps env then rwm_ps_tranfer_node env (Some a)
               else bindM (rwm_transfer_node env (Some a) 0) (\<lambda>_. retM ()))
              (retM RW_FAILURE))))))"

definition rwm_upload_data :: "u8 \<Rightarrow> nat \<Rightarrow> (wifi_st, u32) prog" where
  "rwm_upload_data vif p = thenM (logM (If_Input vif p)) (retM RW_SUCCESS)"

end
