(* ===== verification/Msdu_Props.thy ===== *)
theory Msdu_Props
  imports Rw_Msdu
begin

text \<open>
  What \<^verbatim>\<open>rw_msdu.c\<close> promises. \<open>wifi_ok\<close>: every allocated node is in exactly one place, a list or a
  descriptor in use, so that nothing is freed twice or lost. Calls of the host, reports of the MAC
  library, timers and messages in any order keep it and never fault; the frames for a station reach the
  MAC library in the order in which they were given, with the waiting ones behind them;
  and while frames wait, the beacon announces them.
\<close>

section \<open>Lists\<close>

interpretation msdu: list_owner "mlinks :: wifi_st \<Rightarrow> msdu_place links" mlinks_update
  by unfold_locales simp

type_synonym waiting = "msdu_place \<Rightarrow> nat list"

definition heads :: "msdu_place set" where
  "heads = {Rx_List, Txing 0, Txing 1}"

definition in_lists :: "waiting \<Rightarrow> nat set" where
  "in_lists L = (\<Union>h\<in>heads. set (L h))"

definition lists_ok :: "msdu_place links \<Rightarrow> waiting \<Rightarrow> bool" where
  "lists_ok l L \<longleftrightarrow> (\<forall>h\<in>heads. ring l h (map Msdu (L h)))
     \<and> (\<forall>h\<in>heads. \<forall>g\<in>heads. h \<noteq> g \<longrightarrow> set (L h) \<inter> set (L g) = {})"

lemma heads_not_Msdu [simp]: "Msdu a \<notin> heads"
  by (simp add: heads_def)

lemma lists_ring: "lists_ok l L \<Longrightarrow> h \<in> heads \<Longrightarrow> ring l h (map Msdu (L h))"
  by (simp add: lists_ok_def)

lemma lists_distinct: "lists_ok l L \<Longrightarrow> h \<in> heads \<Longrightarrow> distinct (L h)"
  using lists_ring [of l L h] by (auto simp: ring_def distinct_map)

lemma lists_disjoint: "lists_ok l L \<Longrightarrow> h \<in> heads \<Longrightarrow> g \<in> heads \<Longrightarrow> h \<noteq> g \<Longrightarrow> x \<in> set (L h) \<Longrightarrow> x \<notin> set (L g)"
  unfolding lists_ok_def by blast

text \<open>Work on one list leaves the others alone.\<close>

lemma lists_update:
  assumes ok: "lists_ok l L" and h: "h \<in> heads" and r: "ring l' h (map Msdu as)"
    and keep: "\<And>g. g \<in> heads \<Longrightarrow> g \<noteq> h \<Longrightarrow> ring l' g (map Msdu (L g))"
    and sub: "\<And>g. g \<in> heads \<Longrightarrow> g \<noteq> h \<Longrightarrow> set as \<inter> set (L g) = {}"
  shows "lists_ok l' (L(h := as))"
  using assms unfolding lists_ok_def by (auto simp: fun_upd_apply)

lemma lists_add:
  assumes ok: "lists_ok (mlinks s) L" and h: "h \<in> heads" and a: "a \<notin> in_lists L"
  shows "\<exists>l. in_mlinks (list_add_tail (Msdu a) h) s = Inr ((), s\<lparr>mlinks := l\<rparr>) \<and> lists_ok l (L(h := L h @ [a]))"
proof -
  have new: "Msdu a \<notin> set (h # map Msdu (L h))" using a h by (auto simp: in_lists_def)
  from msdu.on_links_add_tail [OF lists_ring [OF ok h] new] obtain l where
    l: "in_mlinks (list_add_tail (Msdu a) h) s = Inr ((), s\<lparr>mlinks := l\<rparr>)" "ring l h (map Msdu (L h @ [a]))"
      "l = link_in (Msdu a) (last (h # map Msdu (L h))) h (mlinks s)" by simp
  have "ring l g (map Msdu (L g))" if g: "g \<in> heads" "g \<noteq> h" for g
  proof -
    have "last (h # map Msdu (L h)) \<in> insert h (Msdu ` set (L h))" using last_in_set [of "h # map Msdu (L h)"] by simp
    moreover have "set (L h) \<inter> set (L g) = {}" using ok h g by (auto simp: lists_ok_def)
    ultimately have "last (h # map Msdu (L h)) \<notin> set (g # map Msdu (L g))" using g h by auto
    then show ?thesis unfolding l(3)
      by (intro ring_other(1) [OF lists_ring [OF ok g(1)]]) (use g h a in \<open>auto simp: in_lists_def\<close>)
  qed
  moreover have "set (L h @ [a]) \<inter> set (L g) = {}" if "g \<in> heads" "g \<noteq> h" for g
    using ok h that a unfolding lists_ok_def in_lists_def by auto
  ultimately show ?thesis using l(1) lists_update [OF ok h l(2)] by blast
qed

lemma lists_pop:
  assumes ok: "lists_ok (mlinks s) L" and h: "h \<in> heads"
  shows "\<exists>l. pop_list h s = Inr (case L h of [] \<Rightarrow> None | a # _ \<Rightarrow> Some a, s\<lparr>mlinks := l\<rparr>) \<and> lists_ok l (L(h := tl (L h)))"
proof -
  have r: "ring (mlinks s) h (map Msdu (L h))" using lists_ring [OF ok h] .
  have walk: "pop_list h s = each_list pop_body (map Msdu (L h)) None s"
    unfolding pop_list_def
    by (rule msdu.walk_safe [OF r]) (auto simp: pop_body_def thenM_eq_Inr split: msdu_place.splits)
  show ?thesis
  proof (cases "L h")
    case Nil
    have "lists_ok (mlinks s) (L(h := []))" using ok Nil by (metis fun_upd_triv)
    then show ?thesis using walk Nil by (auto intro: exI [of _ "mlinks s"])
  next
    case (Cons a as)
    then have "ring (mlinks s) h ([] @ Msdu a # map Msdu as)" using r by simp
    from msdu.on_links_del [OF this] obtain l where
      l: "in_mlinks (list_del (Msdu a)) s = Inr ((), s\<lparr>mlinks := l\<rparr>)" "ring l h (map Msdu as)"
        "l = unlink h (hd (map Msdu as @ [h])) (mlinks s)" by simp
    have "ring l g (map Msdu (L g))" if g: "g \<in> heads" "g \<noteq> h" for g
    proof -
      have "hd (map Msdu as @ [h]) \<in> insert h (Msdu ` set (L h))" using Cons by (cases as) auto
      moreover have "set (L h) \<inter> set (L g) = {}" using ok h g by (auto simp: lists_ok_def)
      ultimately have "hd (map Msdu as @ [h]) \<notin> set (g # map Msdu (L g))" using g h by auto
      then show ?thesis unfolding l(3)
        by (intro ring_other(2) [OF lists_ring [OF ok g(1)]]) (use g h in auto)
    qed
    moreover have "set as \<inter> set (L g) = {}" if "g \<in> heads" "g \<noteq> h" for g
      using lists_disjoint [OF ok h that(1)] that(2) Cons by auto
    ultimately have "lists_ok l (L(h := as))" using lists_update [OF ok h l(2)] by blast
    moreover have "pop_list h s = Inr (Some a, s\<lparr>mlinks := l\<rparr>)" using walk Cons l(1) by (simp add: pop_body_def)
    ultimately show ?thesis using Cons by auto
  qed
qed

section \<open>Who owns a node\<close>

definition in_descs :: "(nat \<Rightarrow> txdesc) \<Rightarrow> nat set" where
  "in_descs T = {a. \<exists>d. msdu_node (T d) = Some a}"

definition node_ok :: "nat \<Rightarrow> MSDU_NODE_T \<Rightarrow> bool" where
  "node_ok a nd \<longleftrightarrow> 0 < a \<and> a < 2 ^ 32 \<and> length (msdu_ptr nd) = 112 + unat (len nd)"

definition addressed :: "nat \<Rightarrow> MSDU_NODE_T \<Rightarrow> bool" where
  "addressed i nd \<longleftrightarrow> unat (sta_idx nd) = i \<and> unat (vif_idx nd) < 2 \<and> (sync nd \<noteq> 0 \<longrightarrow> args nd \<noteq> None)"

text \<open>The nodes in \<open>F\<close> are in the hands of a function that runs.\<close>

definition mem_ok :: "(nat \<Rightarrow> MSDU_NODE_T option) \<Rightarrow> (nat \<Rightarrow> txdesc) \<Rightarrow> waiting \<Rightarrow> nat set \<Rightarrow> bool" where
  "mem_ok N T L F \<longleftrightarrow>
     dom N = in_lists L \<union> in_descs T \<union> F
   \<and> in_lists L \<inter> in_descs T = {} \<and> F \<inter> (in_lists L \<union> in_descs T) = {}
   \<and> (\<forall>d e a. msdu_node (T d) = Some a \<longrightarrow> msdu_node (T e) = Some a \<longrightarrow> d = e)
   \<and> (\<forall>a nd. N a = Some nd \<longrightarrow> node_ok a nd)
   \<and> (\<forall>i < 2. \<forall>a \<in> set (L (Txing i)). \<forall>nd. N a = Some nd \<longrightarrow> addressed i nd)"

definition desc_ok :: "(nat \<Rightarrow> MSDU_NODE_T option) \<Rightarrow> (nat \<Rightarrow> txdesc) \<Rightarrow> bool" where
  "desc_ok N T \<longleftrightarrow> (\<forall>d a. msdu_node (T d) = Some a \<longrightarrow>
     desc_status (T d) = TXDESC_STA_USED
     \<and> (callback (T d) = Some Data_Tx_Cb \<longrightarrow> h_param (T d) = Desc_Param d \<and> (\<forall>nd. N a = Some nd \<longrightarrow> args nd \<noteq> None)))"

text \<open>
  The tables that the MAC library keeps. That \<open>ap_id\<close> is a station index is an assumption about every active
  interface: \<^verbatim>\<open>rwm_transfer_node\<close> uses this byte as an index whatever the type of the interface, and in
  an access point another member of the union lies there (\<open>transfer_bad_index\<close> shows what happens otherwise).
\<close>

definition tab_ok :: "wifi_st \<Rightarrow> bool" where
  "tab_ok s \<longleftrightarrow> length (vif_info_tab s) = 2 \<and> length (sta_info_tab s) = 4
     \<and> (\<forall>v \<in> set (vif_info_tab s). vif_active v \<longrightarrow> unat (ap_id v) < 4)
     \<and> (\<forall>i < 2. t_handle (ps_timer s i)) \<and> ap_ps_active s \<and> io_queue s \<noteq> None"

definition wifi_ok :: "wifi_st \<Rightarrow> waiting \<Rightarrow> nat set \<Rightarrow> bool" where
  "wifi_ok s L F \<longleftrightarrow> lists_ok (mlinks s) L \<and> mem_ok (nodes s) (txd s) L F \<and> desc_ok (nodes s) (txd s) \<and> tab_ok s"

lemma in_lists_upd: "h \<in> heads \<Longrightarrow> in_lists (L(h := as)) = set as \<union> (\<Union>g \<in> heads - {h}. set (L g))"
  by (auto simp: in_lists_def split: if_splits)

lemma in_lists_split: "h \<in> heads \<Longrightarrow> in_lists L = set (L h) \<union> (\<Union>g \<in> heads - {h}. set (L g))"
  by (auto simp: in_lists_def)

lemma memD:
  assumes "mem_ok N T L F"
  shows "dom N = in_lists L \<union> in_descs T \<union> F" "in_lists L \<inter> in_descs T = {}" "F \<inter> (in_lists L \<union> in_descs T) = {}"
    and "msdu_node (T d) = Some a \<Longrightarrow> msdu_node (T e) = Some a \<Longrightarrow> d = e"
    and "N a = Some nd \<Longrightarrow> node_ok a nd"
    and "i < 2 \<Longrightarrow> a \<in> set (L (Txing i)) \<Longrightarrow> N a = Some nd \<Longrightarrow> addressed i nd"
  using assms unfolding mem_ok_def by blast+

lemma mem_node: "mem_ok N T L F \<Longrightarrow> a \<in> F \<Longrightarrow> \<exists>nd. N a = Some nd \<and> node_ok a nd"
  unfolding mem_ok_def by blast

lemma mem_listed: "mem_ok N T L F \<Longrightarrow> a \<in> in_lists L \<Longrightarrow> \<exists>nd. N a = Some nd \<and> node_ok a nd"
  unfolding mem_ok_def by blast

lemma mem_free: "mem_ok N T L F \<Longrightarrow> a \<in> F \<Longrightarrow> mem_ok (N(a := None)) T L (F - {a})"
  unfolding mem_ok_def by (auto simp: dom_def)

lemma mem_pop:
  assumes m: "mem_ok N T L F" and l: "lists_ok k L" and h: "h \<in> heads" and a: "L h = a # as"
  shows "mem_ok N T (L(h := as)) (insert a F)"
proof -
  have d: "a \<notin> set as" "\<And>g. g \<in> heads \<Longrightarrow> g \<noteq> h \<Longrightarrow> a \<notin> set (L g)"
    using lists_distinct [OF l h] lists_disjoint [OF l h] a by auto
  have all: "in_lists L = insert a (in_lists (L(h := as)))" "a \<notin> in_lists (L(h := as))"
    using in_lists_split [OF h, of L] in_lists_upd [OF h, of L as] a d by auto
  have q: "set ((L(h := as)) (Txing i)) \<subseteq> set (L (Txing i))" for i using a by auto
  have "\<forall>i < 2. \<forall>x \<in> set ((L(h := as)) (Txing i)). \<forall>nd. N x = Some nd \<longrightarrow> addressed i nd"
    using m q unfolding mem_ok_def by blast
  with m all show ?thesis unfolding mem_ok_def by auto
qed

lemma mem_push:
  assumes m: "mem_ok N T L F" and h: "h \<in> heads" and a: "a \<in> F"
    and ad: "\<And>i nd. h = Txing i \<Longrightarrow> N a = Some nd \<Longrightarrow> addressed i nd"
  shows "mem_ok N T (L(h := L h @ [a])) (F - {a})"
proof -
  have all: "in_lists (L(h := L h @ [a])) = insert a (in_lists L)"
    using in_lists_split [OF h, of L] in_lists_upd [OF h, of L "L h @ [a]"] by auto
  have "\<forall>i < 2. \<forall>x \<in> set ((L(h := L h @ [a])) (Txing i)). \<forall>nd. N x = Some nd \<longrightarrow> addressed i nd"
    using m ad unfolding mem_ok_def by auto
  with m all a show ?thesis unfolding mem_ok_def by auto
qed

lemma mem_give:
  assumes m: "mem_ok N T L F" and a: "a \<in> F" and d: "msdu_node (T d) = None" and t: "msdu_node t = Some a"
  shows "mem_ok N (T(d := t)) L (F - {a})"
proof -
  have "in_descs (T(d := t)) = insert a (in_descs T)" using d t by (force simp: in_descs_def)
  moreover have "msdu_node (T e) \<noteq> Some a" for e using m a by (auto simp: mem_ok_def in_descs_def)
  ultimately show ?thesis using m a t unfolding mem_ok_def by auto
qed

lemma mem_alloc:
  assumes m: "mem_ok N T L F" and a: "N a = None" and nd: "node_ok a nd"
  shows "mem_ok (N(a := Some nd)) T L (insert a F)"
proof -
  have out: "a \<notin> in_lists L" "a \<notin> in_descs T" using m a unfolding mem_ok_def by blast+
  have "\<forall>i < 2. \<forall>x \<in> set (L (Txing i)). \<forall>n. (N(a := Some nd)) x = Some n \<longrightarrow> addressed i n"
  proof (intro allI impI ballI)
    fix i x n assume "i < (2::nat)" and x: "x \<in> set (L (Txing i))" and n: "(N(a := Some nd)) x = Some n"
    then have "i = 0 \<or> i = 1" by auto
    then have "x \<in> in_lists L" using x by (auto simp: in_lists_def heads_def)
    then have "x \<noteq> a" using out by blast
    with n x m \<open>i < 2\<close> show "addressed i n" by (auto simp: mem_ok_def)
  qed
  with m out nd show ?thesis unfolding mem_ok_def by auto
qed

lemma mem_same_descs: "mem_ok N T L F \<Longrightarrow> msdu_node t = msdu_node (T d) \<Longrightarrow> mem_ok N (T(d := t)) L F"
proof -
  assume m: "mem_ok N T L F" and t: "msdu_node t = msdu_node (T d)"
  have "msdu_node ((T(d := t)) e) = msdu_node (T e)" for e using t by simp
  with m show ?thesis unfolding mem_ok_def in_descs_def by simp
qed

lemma in_descs_take:
  assumes one: "\<forall>e. msdu_node (T e) = Some a \<longrightarrow> e = d" and d: "msdu_node (T d) = Some a" and t: "msdu_node t = None"
  shows "in_descs (T(d := t)) = in_descs T - {a}"
proof (rule set_eqI)
  fix b
  have "msdu_node ((T(d := t)) e) = Some b \<longleftrightarrow> e \<noteq> d \<and> msdu_node (T e) = Some b" for e using t by simp
  then have "b \<in> in_descs (T(d := t)) \<longleftrightarrow> (\<exists>e. e \<noteq> d \<and> msdu_node (T e) = Some b)" by (simp add: in_descs_def)
  also have "\<dots> \<longleftrightarrow> (\<exists>e. msdu_node (T e) = Some b) \<and> b \<noteq> a"
  proof (cases "b = a")
    case True
    with one show ?thesis by blast
  next
    case False
    with d have "msdu_node (T d) \<noteq> Some b" by simp
    with False show ?thesis by metis
  qed
  finally show "b \<in> in_descs (T(d := t)) \<longleftrightarrow> b \<in> in_descs T - {a}" by (simp add: in_descs_def)
qed

lemma mem_take:
  assumes m: "mem_ok N T L F" and d: "msdu_node (T d) = Some a" and t: "msdu_node t = None"
  shows "mem_ok N (T(d := t)) L (insert a F)"
proof -
  have "\<forall>e. msdu_node (T e) = Some a \<longrightarrow> e = d" using m d unfolding mem_ok_def by blast
  note D = in_descs_take [OF this d t]
  have "a \<in> in_descs T" using d unfolding in_descs_def by blast
  then have "dom N = in_lists L \<union> in_descs (T(d := t)) \<union> insert a F" "in_lists L \<inter> in_descs (T(d := t)) = {}"
    "insert a F \<inter> (in_lists L \<union> in_descs (T(d := t))) = {}" using memD(1-3) [OF m] unfolding D by blast+
  moreover have "\<forall>e f b. msdu_node ((T(d := t)) e) = Some b \<longrightarrow> msdu_node ((T(d := t)) f) = Some b \<longrightarrow> e = f"
  proof (intro allI impI)
    fix e f b assume "msdu_node ((T(d := t)) e) = Some b" and "msdu_node ((T(d := t)) f) = Some b"
    then have "msdu_node (T e) = Some b" "msdu_node (T f) = Some b" using t by (auto split: if_splits)
    then show "e = f" by (rule memD(4) [OF m])
  qed
  moreover have "\<forall>x nd. N x = Some nd \<longrightarrow> node_ok x nd"
    "\<forall>i < 2. \<forall>x \<in> set (L (Txing i)). \<forall>nd. N x = Some nd \<longrightarrow> addressed i nd"
    using m unfolding mem_ok_def by blast+
  ultimately show ?thesis unfolding mem_ok_def by (intro conjI)
qed

lemma mem_set:
  assumes m: "mem_ok N T L F" and a: "a \<in> F" and nd: "node_ok a nd"
  shows "mem_ok (N(a := Some nd)) T L F"
  using mem_alloc [OF mem_free [OF m a], of a nd] nd a by (simp add: insert_absorb)

section \<open>One node through the functions\<close>

text \<open>
  What is relied on: a memory manager that hands out new blocks of the size wanted at 32-bit addresses, a
  descriptor for every queue, timer commands that get through, and a table of eight
  traffic classes. Frames for sleeping stations are kept (\<^verbatim>\<open>CFG_USE_AP_PS\<close>).
\<close>

definition env_good :: "msdu_env \<Rightarrow> bool" where
  "env_good env \<longleftrightarrow> cfg_use_ap_ps env \<and> \<not> cfg_wfa env
     \<and> (\<forall>lg L n a nd. os_malloc env lg L n = Some (a, nd) \<longrightarrow>
          a \<notin> L \<and> 0 < a \<and> a < 2 ^ 32 \<and> length (msdu_ptr nd) = unat n - sizeof_MSDU_NODE_T)
     \<and> (\<forall>lg q T. tx_txdesc_prepare env lg q T \<noteq> None)
     \<and> (\<forall>lg i. timer_pass env lg i) \<and> 8 \<le> length (mac_tid2ac env)"

definition content :: "MSDU_NODE_T \<Rightarrow> u8 list" where
  "content nd = take (unat (len nd)) (drop CFG_MSDU_RESV_HEAD_LEN (msdu_ptr nd))"

abbreviation outer :: "wifi_st \<Rightarrow> _" where
  "outer s \<equiv> (mlinks s, vif_info_tab s, sta_info_tab s, ps_timer s, io_queue s, ap_ps_active s)"

lemma tab_outer: "outer s' = outer s \<Longrightarrow> tab_ok s \<Longrightarrow> tab_ok s'"
  by (simp add: tab_ok_def)

lemma node_at_run [simp]: "nodes s a = Some nd \<Longrightarrow> node_at a s = Inr (nd, s)"
  by (simp add: node_at_def)

lemma os_free_run [simp]: "nodes s a = Some nd \<Longrightarrow> os_free a s = Inr ((), s\<lparr>nodes := (nodes s)(a := None)\<rparr>)"
  by (simp add: os_free_def)

lemma upd_node_run [simp]: "nodes s a = Some nd \<Longrightarrow> upd_node a f s = Inr ((), s\<lparr>nodes := (nodes s)(a := Some (f nd))\<rparr>)"
  by (simp add: upd_node_def)

lemma msdu_basic [simp]:
  "logM e s = Inr ((), s\<lparr>log := log s @ [e]\<rparr>)"
  "upd_desc d f s = Inr ((), s\<lparr>txd := (txd s)(d := f (txd s d))\<rparr>)"
  "txl_cntrl_inc_pck_cnt s = Inr ((), s\<lparr>pck_cnt := pck_cnt s + 1\<rparr>)"
  "txl_cntrl_dec_pck_cnt s = Inr ((), s\<lparr>pck_cnt := pck_cnt s - 1\<rparr>)"
  by (simp_all add: logM_def upd_desc_def txl_cntrl_inc_pck_cnt_def txl_cntrl_dec_pck_cnt_def)

lemma rd_at_run [simp]: "i + n \<le> length bs \<Longrightarrow> rd_at bs i n s = Inr (take n (drop i bs), s)"
  by (simp add: rd_at_def)

lemma vif_at_run [simp]: "tab_ok s \<Longrightarrow> unat i < 2 \<Longrightarrow> vif_at i s = Inr (vif_info_tab s ! unat i, s)"
  by (simp add: vif_at_def tab_ok_def)

lemma sta_at_run [simp]: "tab_ok s \<Longrightarrow> unat i < 4 \<Longrightarrow> sta_at i s = Inr (sta_info_tab s ! unat i, s)"
  by (simp add: sta_at_def tab_ok_def)

lemma pick_queue_run:
  assumes "tab_ok s" and "env_good env" and "unat v < 2"
  shows "\<exists>q. pick_queue env v bs s = Inr (q, s)"
proof -
  let ?v = "vif_info_tab s ! unat v"
  have "?v \<in> set (vif_info_tab s)" using assms(1,3) by (simp add: tab_ok_def)
  then have "vif_active ?v \<Longrightarrow> unat (ap_id ?v) < 4" using assms(1) by (simp add: tab_ok_def)
  then show ?thesis
    using assms by (auto simp: pick_queue_def rwm_mgmt_vif_idx2ptr_def classify8021d_def env_good_def bindM_run)
qed

lemma node_free_run: "nodes s a = Some nd \<Longrightarrow> rwm_node_free (Some a) s = Inr ((), s\<lparr>nodes := (nodes s)(a := None)\<rparr>)"
  by (simp add: rwm_node_free_def)

lemma tx_exit_run:
  "nodes s a = Some nd \<Longrightarrow> tx_exit (Some a) s = Inr (0, s\<lparr>nodes := (nodes s)(a := None), pck_cnt := pck_cnt s - 1\<rparr>)"
  by (simp add: tx_exit_def node_free_run)

lemma desc_free: "desc_ok N T \<Longrightarrow> desc_ok (N(a := None)) T"
  by (auto simp: desc_ok_def)

lemma desc_give:
  assumes "desc_ok N T" and "msdu_node t = Some a" and "desc_status t = TXDESC_STA_USED"
    and "callback t = Some Data_Tx_Cb \<Longrightarrow> h_param t = Desc_Param d \<and> (\<forall>nd. N a = Some nd \<longrightarrow> args nd \<noteq> None)"
  shows "desc_ok N (T(d := t))"
  using assms unfolding desc_ok_def by auto

lemma wifi_free:
  assumes "wifi_ok s L F" and "a \<in> F" and "nodes s' = (nodes s)(a := None)" and "txd s' = txd s" and "outer s' = outer s"
  shows "wifi_ok s' L (F - {a})"
  using assms mem_free [of "nodes s" "txd s" L F a] desc_free [of "nodes s" "txd s" a] tab_outer [of s' s]
  by (simp add: wifi_ok_def)

lemma wifi_give:
  assumes ok: "wifi_ok s L F" and a: "a \<in> F" and d: "desc_status (txd s d) \<noteq> TXDESC_STA_USED"
    and t: "msdu_node t = Some a" "desc_status t = TXDESC_STA_USED"
      "callback t = Some Data_Tx_Cb \<Longrightarrow> h_param t = Desc_Param d \<and> (\<forall>nd. nodes s a = Some nd \<longrightarrow> args nd \<noteq> None)"
    and s': "nodes s' = nodes s" "txd s' = (txd s)(d := t)" "outer s' = outer s"
  shows "wifi_ok s' L (F - {a})"
proof -
  have "msdu_node (txd s d) = None" using ok d unfolding wifi_ok_def desc_ok_def by (cases "msdu_node (txd s d)") auto
  then have "mem_ok (nodes s') (txd s') L (F - {a})"
    using mem_give [of "nodes s" "txd s" L F a d t] ok a t s' by (simp add: wifi_ok_def)
  moreover have "desc_ok (nodes s') (txd s')" using desc_give [of "nodes s" "txd s" t a d] ok t s' by (simp add: wifi_ok_def)
  ultimately show ?thesis using ok s' tab_outer [of s' s] by (simp add: wifi_ok_def)
qed

lemma transfer_node_run:
  assumes ok: "wifi_ok s L F" and env: "env_good env" and a: "a \<in> F" "nodes s a = Some nd"
    and v: "unat (vif_idx nd) < 2" and sy: "sync nd \<noteq> 0 \<longrightarrow> args nd \<noteq> None"
  shows "\<exists>s'. rwm_transfer_node env (Some a) flag s = Inr (0, s') \<and> wifi_ok s' L (F - {a}) \<and> outer s' = outer s
    \<and> (\<forall>b. b \<noteq> a \<longrightarrow> nodes s' b = nodes s b)
    \<and> (log s' = log s \<or> (\<exists>d t q. log s' = log s @ [Txu_Push d t (content nd) q] \<and> h_staid t = sta_idx nd))"
proof -
  have tab: "tab_ok s" using ok by (simp add: wifi_ok_def)
  have nk: "length (msdu_ptr nd) = 112 + unat (len nd)"
    using mem_node [of "nodes s" "txd s" L F a] ok a by (auto simp: wifi_ok_def node_ok_def)
  obtain q where q: "pick_queue env (vif_idx nd) (drop 96 (msdu_ptr nd)) s = Inr (q, s)"
    using pick_queue_run [OF tab env v] by blast
  define eth where "eth = take 14 (drop 96 (msdu_ptr nd))"
  have rd: "rd_at (msdu_ptr nd) 96 14 s = Inr (eth, s)" using nk by (simp add: eth_def)
  note dropped = tx_exit_run [OF a(2)] wifi_free [OF ok a(1), of "s\<lparr>nodes := (nodes s)(a := None), pck_cnt := pck_cnt s - 1\<rparr>"]
  show ?thesis
  proof (cases q)
    case None
    with q rd a(2) dropped show ?thesis by (simp add: rwm_transfer_node_def)
  next
    case (Some p)
    obtain tid queue where p: "p = (tid, queue)" by (cases p)
    have "tx_txdesc_prepare env (log s) queue (txd s) \<noteq> None" using env unfolding env_good_def by blast
    then obtain d where d: "tx_txdesc_prepare env (log s) queue (txd s) = Some d" by blast
    show ?thesis
    proof (cases "desc_status (txd s d) = TXDESC_STA_USED")
      case True
      with q Some p d rd a(2) dropped show ?thesis by (simp add: rwm_transfer_node_def)
    next
      case False
      define t where "t = data_desc d a nd eth flag tid
        ((txd s d)\<lparr>desc_status := TXDESC_STA_USED, eth_dest_addr := take 6 eth, eth_src_addr := take 6 (drop 6 eth)\<rparr>)"
      let ?s = "s\<lparr>txd := (txd s)(d := t), log := log s @ [Txu_Push d t (content nd) queue]\<rparr>"
      have t: "msdu_node t = Some a" "desc_status t = TXDESC_STA_USED" "h_staid t = sta_idx nd"
        "callback t = Some Data_Tx_Cb \<Longrightarrow> h_param t = Desc_Param d \<and> (\<forall>nd. nodes s a = Some nd \<longrightarrow> args nd \<noteq> None)"
        using a(2) sy by (auto simp: t_def data_desc_def Let_def split: if_splits)
      have "rwm_transfer_node env (Some a) flag s = Inr (0, ?s)"
        using q Some p d rd a(2) False
        by (simp add: rwm_transfer_node_def rwm_txdesc_copy_def push_event_def content_def t_def)
      moreover have "wifi_ok ?s L (F - {a})" by (rule wifi_give [OF ok a(1) False t(1,2,4)]) simp_all
      ultimately show ?thesis using t(3) by auto
    qed
  qed
qed

text \<open>Taking the first node off a list, counting, emptying.\<close>

lemma wifi_pop:
  assumes ok: "wifi_ok s L F" and h: "h \<in> heads"
  shows "\<exists>l. pop_list h s = Inr (case L h of [] \<Rightarrow> None | a # _ \<Rightarrow> Some a, s\<lparr>mlinks := l\<rparr>)
     \<and> wifi_ok (s\<lparr>mlinks := l\<rparr>) (L(h := tl (L h))) (set (take 1 (L h)) \<union> F)"
proof -
  have lk: "lists_ok (mlinks s) L" and m: "mem_ok (nodes s) (txd s) L F" using ok by (simp_all add: wifi_ok_def)
  from lists_pop [OF lk h] obtain l where
    l: "pop_list h s = Inr (case L h of [] \<Rightarrow> None | a # _ \<Rightarrow> Some a, s\<lparr>mlinks := l\<rparr>)" "lists_ok l (L(h := tl (L h)))" by blast
  have "mem_ok (nodes s) (txd s) (L(h := tl (L h))) (set (take 1 (L h)) \<union> F)"
  proof (cases "L h")
    case Nil
    then have "L(h := tl (L h)) = L" by auto
    with m Nil show ?thesis by simp
  next
    case (Cons a as)
    with mem_pop [OF m lk h Cons] show ?thesis by simp
  qed
  with l ok show ?thesis by (auto simp: wifi_ok_def tab_ok_def)
qed

lemma Txing_head: "unat (i :: u8) < 2 \<Longrightarrow> Txing (unat i) \<in> heads"
  by (auto simp: heads_def)

lemma listed_few:
  assumes ok: "wifi_ok s L F" and h: "h \<in> heads"
  shows "length (L h) < 2 ^ 32"
proof -
  have m: "mem_ok (nodes s) (txd s) L F" and d: "distinct (L h)" using ok lists_distinct h by (auto simp: wifi_ok_def)
  have "set (L h) \<subseteq> {0 <..< 2 ^ 32}"
  proof
    fix a assume "a \<in> set (L h)"
    then have "a \<in> in_lists L" using h by (auto simp: in_lists_def)
    with mem_listed [OF m] show "a \<in> {0 <..< 2 ^ 32}" by (auto simp: node_ok_def)
  qed
  then have "card (set (L h)) \<le> card {0 <..< 2 ^ 32 :: nat}" by (intro card_mono) auto
  then show ?thesis using distinct_card [OF d] by simp
qed

lemma count_run:
  assumes ok: "wifi_ok s L F" and i: "unat i < 2"
  shows "\<exists>n. rwm_txling_list_node_count i s = Inr (n, s) \<and> (n = 0 \<longleftrightarrow> L (Txing (unat i)) = [])"
proof -
  have r: "ring (mlinks s) (Txing (unat i)) (map Msdu (L (Txing (unat i))))"
    using ok lists_ring Txing_head [OF i] by (auto simp: wifi_ok_def)
  have "(of_nat (length (L (Txing (unat i)))) :: u32) = 0 \<longleftrightarrow> L (Txing (unat i)) = []"
    using listed_few [OF ok Txing_head [OF i]]
    by (simp add: unat_eq_zero [symmetric] unat_of_nat)
  with i list_size_ring [OF r] show ?thesis by (auto simp: rwm_txling_list_node_count_def on_links_def)
qed

text \<open>What a function on the lists and nodes leaves alone.\<close>

abbreviation still :: "wifi_st \<Rightarrow> _" where
  "still s \<equiv> (txd s, vif_info_tab s, sta_info_tab s, ps_timer s, io_queue s, ap_ps_active s, log s, pck_cnt s)"

lemma flush_run:
  assumes "wifi_ok s L F" and h: "h \<in> heads"
  shows "\<exists>s'. flush_list (pop_list h) s = Inr ((), s') \<and> wifi_ok s' (L(h := [])) F \<and> still s' = still s
     \<and> (\<forall>b. b \<notin> set (L h) \<longrightarrow> nodes s' b = nodes s b)"
proof -
  have "\<exists>s'. flush_loop (pop_list h) s = Some (Inr ((), s')) \<and> wifi_ok s' (L(h := [])) F \<and> still s' = still s
     \<and> (\<forall>b. b \<notin> set (L h) \<longrightarrow> nodes s' b = nodes s b)"
    using assms(1)
  proof (induction "L h" arbitrary: s L)
    case Nil
    from wifi_pop [OF Nil(2) h] obtain l where
      "pop_list h s = Inr (None, s\<lparr>mlinks := l\<rparr>)" "wifi_ok (s\<lparr>mlinks := l\<rparr>) (L(h := [])) F" by (auto simp: Nil(1) [symmetric])
    then show ?case by (subst flush_loop.simps) auto
  next
    case (Cons a as)
    from wifi_pop [OF Cons(3) h] obtain l where
      l: "pop_list h s = Inr (Some a, s\<lparr>mlinks := l\<rparr>)" "wifi_ok (s\<lparr>mlinks := l\<rparr>) (L(h := as)) (insert a F)"
      by (auto simp: Cons(2) [symmetric])
    let ?s = "s\<lparr>mlinks := l, nodes := (nodes s)(a := None)\<rparr>"
    from l(2) obtain nd where nd: "nodes s a = Some nd" using mem_node by (fastforce simp: wifi_ok_def)
    have "a \<in> in_lists L" using Cons(2) [symmetric] h by (force simp: in_lists_def)
    then have "a \<notin> F" using Cons(3) memD(3) by (fastforce simp: wifi_ok_def)
    then have "wifi_ok ?s (L(h := as)) F" using wifi_free [OF l(2), of a ?s] by simp
    from Cons(1) [OF _ this] obtain s' where
      "flush_loop (pop_list h) ?s = Some (Inr ((), s'))" "wifi_ok s' ((L(h := as))(h := [])) F" "still s' = still ?s"
      "\<forall>b. b \<notin> set as \<longrightarrow> nodes s' b = nodes ?s b" by auto
    moreover have "os_free a (s\<lparr>mlinks := l\<rparr>) = Inr ((), ?s)" using nd by simp
    ultimately show ?case using l(1) Cons(2) [symmetric] by (subst flush_loop.simps) auto
  qed
  then show ?thesis by (auto simp: flush_list_def)
qed

section \<open>Order and announcement\<close>

text \<open>The data frames handed to the MAC library for a station, and those that wait behind them.\<close>

definition sent_to :: "nat \<Rightarrow> wifi_event list \<Rightarrow> u8 list list" where
  "sent_to i lg = concat (map (\<lambda>e. case e of Txu_Push d t f q \<Rightarrow> if unat (h_staid t) = i then [f] else [] | _ \<Rightarrow> []) lg)"

text \<open>Every data frame that was handed to the MAC library, with the station it is for; one call hands over at most the frame given.\<close>

definition pushed :: "wifi_event list \<Rightarrow> (u8 \<times> u8 list) list" where
  "pushed lg = concat (map (\<lambda>e. case e of Txu_Push d t f q \<Rightarrow> [(h_staid t, f)] | _ \<Rightarrow> []) lg)"

definition handed :: "wifi_st \<Rightarrow> wifi_st \<Rightarrow> u8 \<Rightarrow> u8 list \<Rightarrow> bool" where
  "handed s s' sta f \<longleftrightarrow> pushed (log s') = pushed (log s) \<or> pushed (log s') = pushed (log s) @ [(sta, f)]"

lemma pushed_simps [simp]: "pushed [] = []" "pushed (lg @ lg') = pushed lg @ pushed lg'"
  "pushed (e # lg) = (case e of Txu_Push d t f q \<Rightarrow> [(h_staid t, f)] | _ \<Rightarrow> []) @ pushed lg"
  by (simp_all add: pushed_def)

lemma handed_log: "pushed (log s1) = pushed (log s) \<Longrightarrow> pushed (log s2) = pushed (log s') \<Longrightarrow> handed s s' i f \<Longrightarrow> handed s1 s2 i f"
  by (simp add: handed_def)

definition frames :: "wifi_st \<Rightarrow> nat list \<Rightarrow> u8 list list" where
  "frames s as = map (\<lambda>a. content (the (nodes s a))) as"

definition pend :: "nat \<Rightarrow> wifi_st \<Rightarrow> waiting \<Rightarrow> u8 list list" where
  "pend i s L = sent_to i (log s) @ frames s (L (Txing i))"

text \<open>The state of a station's bit in the beacon: what the last request for its key was.\<close>

definition tim :: "wifi_event list \<Rightarrow> u8 \<times> u16 \<Rightarrow> bool" where
  "tim lg k = foldl (\<lambda>b e. case e of Tim_Update v a on \<Rightarrow> if (v, a) = k then on else b | _ \<Rightarrow> b) False lg"

definition tim_key :: "wifi_st \<Rightarrow> nat \<Rightarrow> u8 \<times> u16" where
  "tim_key s i = (inst_nbr (sta_info_tab s ! i), ucast (ucast (aid (sta_info_tab s ! i)) :: u8))"

definition tim_ok :: "wifi_st \<Rightarrow> waiting \<Rightarrow> bool" where
  "tim_ok s L \<longleftrightarrow> (\<forall>i < 2. L (Txing i) \<noteq> [] \<longrightarrow> tim (log s) (tim_key s i))"

text \<open>A station of an access point, not the access point that a station interface is connected to.\<close>

definition client :: "wifi_st \<Rightarrow> nat \<Rightarrow> bool" where
  "client s i \<longleftrightarrow> i < 2 \<and> (\<forall>v \<in> set (vif_info_tab s). vif_type v \<noteq> VIF_AP \<longrightarrow> unat (ap_id v) \<noteq> i)"

definition sta_ids :: "wifi_st \<Rightarrow> (u8 list \<times> u16 \<times> u8) list" where
  "sta_ids s = map (\<lambda>t. (sta_mac_addr t, aid t, inst_nbr t)) (sta_info_tab s)"

definition follows :: "wifi_st \<Rightarrow> waiting \<Rightarrow> wifi_st \<Rightarrow> waiting \<Rightarrow> (nat \<Rightarrow> u8 list list) \<Rightarrow> bool" where
  "follows s L s' L' g \<longleftrightarrow> vif_info_tab s' = vif_info_tab s \<and> sta_ids s' = sta_ids s
     \<and> (\<forall>i. client s i \<longrightarrow> subseq (pend i s' L') (pend i s L @ g i))
     \<and> (tim_key s 0 \<noteq> tim_key s 1 \<longrightarrow> tim_ok s L \<longrightarrow> tim_ok s' L')"

lemma sent_to_simps [simp]: "sent_to i [] = []" "sent_to i (lg @ lg') = sent_to i lg @ sent_to i lg'"
  "sent_to i (e # lg) = (case e of Txu_Push d t f q \<Rightarrow> if unat (h_staid t) = i then [f] else [] | _ \<Rightarrow> []) @ sent_to i lg"
  by (simp_all add: sent_to_def)

lemma tim_snoc [simp]: "tim (lg @ [e]) k = (case e of Tim_Update v a on \<Rightarrow> if (v, a) = k then on else tim lg k | _ \<Rightarrow> tim lg k)"
  by (simp add: tim_def split: wifi_event.split)

lemma follows_trans:
  assumes a: "follows s L s1 L1 g" and b: "follows s1 L1 s2 L2 h" and n: "length (sta_info_tab s) = 4" "length (sta_info_tab s1) = 4"
  shows "follows s L s2 L2 (\<lambda>i. g i @ h i)"
proof -
  have c: "client s1 i = client s i" for i using a by (simp add: follows_def client_def)
  have "map snd (sta_ids s1) = map snd (sta_ids s)" using a by (simp add: follows_def)
  then have "(aid (sta_info_tab s1 ! i), inst_nbr (sta_info_tab s1 ! i)) = (aid (sta_info_tab s ! i), inst_nbr (sta_info_tab s ! i))"
    if "i < 4" for i using that n by (auto simp: sta_ids_def list_eq_iff_nth_eq)
  then have k: "tim_key s1 i = tim_key s i" if "i < 4" for i using that by (auto simp: tim_key_def)
  have "subseq (pend i s2 L2) (pend i s L @ g i @ h i)" if "client s i" for i
  proof -
    have "subseq (pend i s2 L2) (pend i s1 L1 @ h i)" using b that c by (simp add: follows_def)
    moreover have "subseq (pend i s1 L1 @ h i) ((pend i s L @ g i) @ h i)"
      unfolding subseq_append using a that by (simp add: follows_def)
    ultimately show ?thesis using subseq_order.trans by fastforce
  qed
  then show ?thesis using a b k [of 0] k [of 1] by (simp add: follows_def)
qed

text \<open>A step that neither sends nor touches a list.\<close>

lemma follows_quiet:
  assumes "vif_info_tab s' = vif_info_tab s" "sta_ids s' = sta_ids s" "length (sta_info_tab s) = 4" "length (sta_info_tab s') = 4"
    and "\<And>i. i < 2 \<Longrightarrow> frames s' (L (Txing i)) = frames s (L (Txing i))"
    and "\<And>i. sent_to i (log s') = sent_to i (log s)" and "\<And>k. tim (log s') k = tim (log s) k"
  shows "follows s L s' L (\<lambda>_. [])"
proof -
  have "(aid (sta_info_tab s' ! i), inst_nbr (sta_info_tab s' ! i)) = (aid (sta_info_tab s ! i), inst_nbr (sta_info_tab s ! i))"
    if "i < 4" for i using assms(2-4) that by (auto simp: sta_ids_def list_eq_iff_nth_eq)
  then have "tim_key s' i = tim_key s i" if "i < 2" for i using that by (auto simp: tim_key_def)
  with assms show ?thesis by (auto simp: follows_def pend_def client_def tim_ok_def)
qed

lemma frames_same: "(\<And>a. a \<in> set as \<Longrightarrow> nodes s' a = nodes s a) \<Longrightarrow> frames s' as = frames s as"
  by (simp add: frames_def)

lemma listed_Txing: "i < 2 \<Longrightarrow> a \<in> set (L (Txing i)) \<Longrightarrow> a \<in> in_lists L"
  by (auto simp: in_lists_def heads_def less_2_cases_iff)

lemma loose_unlisted: "wifi_ok s L F \<Longrightarrow> a \<in> F \<Longrightarrow> i < 2 \<Longrightarrow> a \<notin> set (L (Txing i))"
  using memD(3) [of "nodes s" "txd s" L F] listed_Txing [of i a L] by (auto simp: wifi_ok_def)

lemma wifi_sta4: "wifi_ok s L F \<Longrightarrow> length (sta_info_tab s) = 4"
  by (simp add: wifi_ok_def tab_ok_def)

text \<open>A node handed over while nothing waits for its station.\<close>

lemma follows_direct:
  assumes ok: "wifi_ok s L F" "a \<in> F" and o: "outer s' = outer s" and n: "\<forall>b. b \<noteq> a \<longrightarrow> nodes s' b = nodes s b"
    and l: "log s' = log s \<or> (\<exists>d t q. log s' = log s @ [Txu_Push d t (content nd) q] \<and> h_staid t = sta_idx nd)"
    and e: "\<And>i. client s i \<Longrightarrow> unat (sta_idx nd) = i \<Longrightarrow> L (Txing i) = []"
  shows "follows s L s' L (\<lambda>i. if unat (sta_idx nd) = i then [content nd] else [])"
proof -
  have fr: "frames s' (L (Txing i)) = frames s (L (Txing i))" if "i < 2" for i
    using n loose_unlisted [OF ok that] by (intro frames_same) metis
  have t: "tim (log s') k = tim (log s) k" for k using l by auto
  have "tim_ok s' L = tim_ok s L" using o t by (simp add: tim_ok_def tim_key_def)
  moreover have "subseq (pend i s' L) (pend i s L @ (if unat (sta_idx nd) = i then [content nd] else []))" if c: "client s i" for i
  proof -
    have f: "frames s' (L (Txing i)) = frames s (L (Txing i))" using fr c by (simp add: client_def)
    show ?thesis
    proof (cases "unat (sta_idx nd) = i")
      case True
      then have "frames s (L (Txing i)) = []" using e [OF c] by (simp add: frames_def)
      with True l f show ?thesis by (auto simp: pend_def)
    next
      case False
      with l f show ?thesis by (auto simp: pend_def)
    qed
  qed
  ultimately show ?thesis using o by (simp add: follows_def sta_ids_def)
qed

section \<open>The functions\<close>

lemma timer_runs:
  assumes "tab_ok s" "env_good env" "i < 2"
  shows "\<exists>pt. start_if_stopped env i s = Inr ((), s\<lparr>ps_timer := pt\<rparr>) \<and> tab_ok (s\<lparr>ps_timer := pt\<rparr>)"
    and "\<exists>pt. stop_if_running env i s = Inr ((), s\<lparr>ps_timer := pt\<rparr>) \<and> tab_ok (s\<lparr>ps_timer := pt\<rparr>)"
proof -
  note defs = start_if_stopped_def stop_if_running_def rtos_is_timer_running_def rtos_start_timer_def rtos_stop_timer_def
    timer_cmd_def kNoErr_def
  have same: "s = s\<lparr>ps_timer := ps_timer s\<rparr>" by simp
  have h: "t_handle (ps_timer s i)" "\<And>lg. timer_pass env lg i" using assms by (auto simp: tab_ok_def env_good_def)
  have up: "tab_ok (s\<lparr>ps_timer := (ps_timer s)(i := (ps_timer s i)\<lparr>t_running := b\<rparr>)\<rparr>)" for b
    using assms(1) h(1) by (auto simp: tab_ok_def)
  show "\<exists>pt. start_if_stopped env i s = Inr ((), s\<lparr>ps_timer := pt\<rparr>) \<and> tab_ok (s\<lparr>ps_timer := pt\<rparr>)"
  proof (cases "t_running (ps_timer s i)")
    case True
    then show ?thesis using h assms(1) same by (intro exI [of _ "ps_timer s"]) (simp add: defs)
  qed (use h up [of True] in \<open>auto simp: defs\<close>)
  show "\<exists>pt. stop_if_running env i s = Inr ((), s\<lparr>ps_timer := pt\<rparr>) \<and> tab_ok (s\<lparr>ps_timer := pt\<rparr>)"
  proof (cases "t_running (ps_timer s i)")
    case False
    then show ?thesis using h assms(1) same by (intro exI [of _ "ps_timer s"]) (simp add: defs)
  qed (use h up [of False] in \<open>auto simp: defs\<close>)
qed

lemma sender_run:
  assumes "tab_ok s"
  shows "\<exists>ms. bmsg_txing_sender i s = Inr ((), s\<lparr>io_queue := Some ms\<rparr>)"
proof -
  from assms obtain ms where ms: "io_queue s = Some ms" by (auto simp: tab_ok_def)
  then have "s = s\<lparr>io_queue := Some ms\<rparr>" by simp
  then have "\<exists>ms. s = s\<lparr>io_queue := Some ms\<rparr>" by (rule exI)
  with ms show ?thesis by (auto simp: bmsg_txing_sender_def rtos_push_to_queue_def bindM_run)
qed

lemma normal_run:
  assumes ok: "wifi_ok s L {a}" and env: "env_good env" and a: "nodes s a = Some nd" "unat (vif_idx nd) < 2"
      "sync nd \<noteq> 0 \<longrightarrow> args nd \<noteq> None"
    and e: "\<And>i. client s i \<Longrightarrow> unat (sta_idx nd) = i \<Longrightarrow> L (Txing i) = []"
  shows "\<exists>s'. normal_transfer env a s = Inr ((), s') \<and> wifi_ok s' L {} \<and> handed s s' (sta_idx nd) (content nd)
    \<and> follows s L s' L (\<lambda>i. if unat (sta_idx nd) = i then [content nd] else [])"
proof -
  let ?s = "s\<lparr>pck_cnt := pck_cnt s + 1\<rparr>"
  have "wifi_ok ?s L {a}" using ok by (simp add: wifi_ok_def tab_ok_def)
  from transfer_node_run [OF this env _ _ a(2,3), of a 0] a(1) obtain s' where
    s': "rwm_transfer_node env (Some a) 0 ?s = Inr (0, s')" "wifi_ok s' L {}" "outer s' = outer s"
      "\<forall>b. b \<noteq> a \<longrightarrow> nodes s' b = nodes s b"
      "log s' = log s \<or> (\<exists>d t q. log s' = log s @ [Txu_Push d t (content nd) q] \<and> h_staid t = sta_idx nd)" by auto
  have "follows s L s' L (\<lambda>i. if unat (sta_idx nd) = i then [content nd] else [])"
    by (rule follows_direct [OF ok _ s'(3,4,5)]) (use e in auto)
  moreover have "handed s s' (sta_idx nd) (content nd)" using s'(5) by (auto simp: handed_def)
  ultimately show ?thesis using s'(1,2) by (auto simp: normal_transfer_def)
qed

text \<open>A node put behind those that wait for its station.\<close>

lemma buffer_run:
  assumes ok: "wifi_ok s L {a}" and nd: "nodes s a = Some nd" "addressed (unat i) nd" and i: "unat i < 2"
    and t: "L (Txing (unat i)) = [] \<Longrightarrow> tim (log s) (tim_key s (unat i))"
  shows "\<exists>s' L'. rwm_push_txing_list a i s = Inr ((), s') \<and> wifi_ok s' L' {} \<and> log s' = log s
    \<and> follows s L s' L' (\<lambda>j. if unat (sta_idx nd) = j then [content nd] else [])"
proof -
  let ?h = "Txing (unat i)"
  have out: "a \<notin> in_lists L" using ok memD(3) by (fastforce simp: wifi_ok_def)
  from lists_add [OF _ Txing_head [OF i] out, of s] ok obtain l where
    l: "in_mlinks (list_add_tail (Msdu a) ?h) s = Inr ((), s\<lparr>mlinks := l\<rparr>)" "lists_ok l (L(?h := L ?h @ [a]))"
    by (auto simp: wifi_ok_def)
  have "mem_ok (nodes s) (txd s) (L(?h := L ?h @ [a])) ({a} - {a})"
    by (rule mem_push) (use ok nd Txing_head [OF i] in \<open>auto simp: wifi_ok_def\<close>)
  then have w: "wifi_ok (s\<lparr>mlinks := l\<rparr>) (L(?h := L ?h @ [a])) {}" using ok l(2) by (simp add: wifi_ok_def tab_ok_def)
  have "unat (sta_idx nd) = unat i" using nd(2) by (simp add: addressed_def)
  then have "follows s L (s\<lparr>mlinks := l\<rparr>) (L(?h := L ?h @ [a])) (\<lambda>j. if unat (sta_idx nd) = j then [content nd] else [])"
    using nd t by (auto simp: follows_def pend_def frames_def sta_ids_def tim_ok_def tim_key_def)
  with w l(1) i show ?thesis by (auto simp: rwm_push_txing_list_def)
qed

lemma follows_start:
  assumes f: "follows s1 L s' L' g" and t: "vif_info_tab s1 = vif_info_tab s" "sta_info_tab s1 = sta_info_tab s" "nodes s1 = nodes s"
    and l: "log s1 = log s \<or> (\<exists>v a. log s1 = log s @ [Tim_Update v a True])"
  shows "follows s L s' L' g"
proof -
  have "pend i s1 L = pend i s L" for i using l t by (auto simp: pend_def frames_def)
  moreover have "tim_ok s L \<Longrightarrow> tim_ok s1 L" using l t by (auto simp: tim_ok_def tim_key_def)
  ultimately show ?thesis using f t by (simp add: follows_def client_def sta_ids_def tim_key_def)
qed

lemma ps_transfer_run:
  assumes ok: "wifi_ok s L {a}" and env: "env_good env" and a: "nodes s a = Some nd" "unat (vif_idx nd) < 2"
      "sync nd \<noteq> 0 \<longrightarrow> args nd \<noteq> None"
    and ap: "vif_type (vif_info_tab s ! unat (vif_idx nd)) = VIF_AP \<Longrightarrow> unat (sta_idx nd) < 4"
    and st: "\<And>i. vif_type (vif_info_tab s ! unat (vif_idx nd)) \<noteq> VIF_AP \<Longrightarrow> client s i \<Longrightarrow> unat (sta_idx nd) \<noteq> i"
  shows "\<exists>s' L'. rwm_ps_tranfer_node env (Some a) s = Inr ((), s') \<and> wifi_ok s' L' {} \<and> handed s s' (sta_idx nd) (content nd)
    \<and> follows s L s' L' (\<lambda>i. if unat (sta_idx nd) = i then [content nd] else [])"
proof -
  let ?i = "sta_idx nd" and ?v = "vif_info_tab s ! unat (vif_idx nd)"
  have tab: "tab_ok s" and act: "ap_ps_active s" using ok by (simp_all add: wifi_ok_def tab_ok_def)
  note normal = normal_run [OF ok env a]
  show ?thesis
  proof (cases "vif_type ?v = VIF_AP")
    case False
    from normal st [OF False] show ?thesis
      using False a tab by (fastforce simp: rwm_ps_tranfer_node_def rwm_mgmt_is_ap_inface_def bindM_run)
  next
    case True
    note i4 = ap [OF True]
    define ps where "ps = (ps_state (sta_info_tab s ! unat ?i) \<noteq> 0)"
    have pr: "sta_mgmt_is_in_ps ?i s = Inr (ps, s)" using tab i4 by (simp add: sta_mgmt_is_in_ps_def ps_def)
    obtain n where n: "rwm_txling_list_node_count ?i s = Inr (n, s)" "unat ?i < 2 \<Longrightarrow> n = 0 \<longleftrightarrow> L (Txing (unat ?i)) = []"
      using count_run [OF ok, of ?i] by (cases "unat ?i < 2") (auto simp: rwm_txling_list_node_count_def)
    note pre = True a tab act pr n(1) rwm_ps_tranfer_node_def rwm_mgmt_is_ap_inface_def bindM_run
    show ?thesis
    proof (cases "(ps \<or> n \<noteq> 0) \<and> unat ?i < 2")
      case False
      then have "client s i \<Longrightarrow> unat ?i = i \<Longrightarrow> L (Txing i) = []" for i using n(2) by (auto simp: client_def)
      from normal [OF this] show ?thesis using False by (auto simp: pre)
    next
      case wait: True
      then have i2: "unat ?i < 2" by simp
      have ad: "addressed (unat ?i) nd" using a by (simp add: addressed_def)
      show ?thesis
      proof (cases "n = 0")
        case True
        let ?s1 = "s\<lparr>log := log s @ [Tim_Update (fst (tim_key s (unat ?i))) (snd (tim_key s (unat ?i))) True]\<rparr>"
        have tab1: "tab_ok ?s1" using tab by (simp add: tab_ok_def)
        from timer_runs(1) [OF tab1 env i2] obtain pt where
          pt: "start_if_stopped env (unat ?i) ?s1 = Inr ((), ?s1\<lparr>ps_timer := pt\<rparr>)" "tab_ok (?s1\<lparr>ps_timer := pt\<rparr>)" by blast
        let ?s2 = "?s1\<lparr>ps_timer := pt\<rparr>"
        have w: "wifi_ok ?s2 L {a}" using ok pt(2) by (simp add: wifi_ok_def)
        have "tim (log ?s2) (tim_key ?s2 (unat ?i))" by (simp add: tim_key_def)
        from buffer_run [OF w _ ad i2 this] a(1) obtain s' L' where
          b: "rwm_push_txing_list a ?i ?s2 = Inr ((), s')" "wifi_ok s' L' {}" "log s' = log ?s2"
            "follows ?s2 L s' L' (\<lambda>j. if unat ?i = j then [content nd] else [])" by auto
        have "follows s L s' L' (\<lambda>j. if unat ?i = j then [content nd] else [])"
          by (rule follows_start [OF b(4)]) auto
        moreover have "handed s s' ?i (content nd)" using b(3) by (simp add: handed_def)
        moreover have "rwm_ps_tranfer_node env (Some a) s = Inr ((), s')"
          using wait \<open>n = 0\<close> pt(1) b(1) i4
          by (simp add: pre sta_mgmt_get_vif_idx_def sta_mgmt_get_aid_def tim_key_def thenM_run)
        ultimately show ?thesis using b(2) by blast
      next
        case False
        then have "L (Txing (unat ?i)) \<noteq> []" using n(2) i2 by simp
        with buffer_run [OF ok a(1) ad i2] False wait show ?thesis by (auto simp: pre handed_def)
      qed
    qed
  qed
qed

lemma flush_txing_run:
  assumes ok: "wifi_ok s L {}" and env: "env_good env"
  shows "\<exists>s' L'. rwm_flush_txing_list env i s = Inr ((), s') \<and> wifi_ok s' L' {} \<and> follows s L s' L' (\<lambda>_. [])"
proof (cases "unat i < 2")
  case False
  have "follows s L s L (\<lambda>_. [])" by (simp add: follows_def)
  with False ok show ?thesis by (auto simp: rwm_flush_txing_list_def)
next
  case i: True
  let ?h = "Txing (unat i)"
  from count_run [OF ok i] obtain n where
    n: "rwm_txling_list_node_count i s = Inr (n, s)" "n = 0 \<longleftrightarrow> L ?h = []" by blast
  have "\<exists>s1. whenM (n \<noteq> 0) (flush_list (rwm_pop_txing_list i)) s = Inr ((), s1) \<and> wifi_ok s1 (L(?h := [])) {} \<and> still s1 = still s
     \<and> (\<forall>b. b \<notin> set (L ?h) \<longrightarrow> nodes s1 b = nodes s b)"
  proof (cases "L ?h = []")
    case True
    then have "L(?h := []) = L" by auto
    with True n(2) ok show ?thesis by simp
  next
    case False
    have "rwm_pop_txing_list i = pop_list ?h" using i by (simp add: rwm_pop_txing_list_def)
    with flush_run [OF ok Txing_head [OF i]] False n(2) show ?thesis by simp
  qed
  then obtain s1 where s1: "whenM (n \<noteq> 0) (flush_list (rwm_pop_txing_list i)) s = Inr ((), s1)" "wifi_ok s1 (L(?h := [])) {}"
    "still s1 = still s" "\<forall>b. b \<notin> set (L ?h) \<longrightarrow> nodes s1 b = nodes s b" by blast
  have tab: "tab_ok s1" using s1(2) by (simp add: wifi_ok_def)
  from timer_runs(2) [OF tab env i] obtain pt where
    pt: "stop_if_running env (unat i) s1 = Inr ((), s1\<lparr>ps_timer := pt\<rparr>)" "tab_ok (s1\<lparr>ps_timer := pt\<rparr>)" by blast
  let ?s = "s1\<lparr>ps_timer := pt\<rparr>"
  have fr: "frames ?s ((L(?h := [])) (Txing j)) = (if j = unat i then [] else frames s (L (Txing j)))" if j: "j < 2" for j
  proof -
    have "nodes s1 b = nodes s b" if b: "b \<in> set (L (Txing j))" "j \<noteq> unat i" for b
    proof -
      have "Txing j \<in> heads" using j by (auto simp: heads_def)
      then have "b \<notin> set (L ?h)"
        using lists_disjoint [of "mlinks s" L "Txing j" ?h b] ok b Txing_head [OF i] by (simp add: wifi_ok_def)
      with s1(4) show ?thesis by blast
    qed
    then show ?thesis by (simp add: frames_def)
  qed
  have "subseq (pend j ?s (L(?h := []))) (pend j s L)" if "client s j" for j
    using fr [of j] that s1(3) by (auto simp: pend_def client_def intro: subseq_rev_drop_many)
  moreover have "tim_ok s L \<Longrightarrow> tim_ok ?s (L(?h := []))" using s1(3) by (auto simp: tim_ok_def tim_key_def)
  ultimately have "follows s L ?s (L(?h := [])) (\<lambda>_. [])" using s1(3) by (simp add: follows_def sta_ids_def)
  moreover have "wifi_ok ?s (L(?h := [])) {}" using s1(2) pt(2) by (simp add: wifi_ok_def)
  moreover have "rwm_flush_txing_list env i s = Inr ((), ?s)"
    using i n(1) s1(1) pt(1) by (simp add: rwm_flush_txing_list_def thenM_run bindM_run)
  ultimately show ?thesis by blast
qed

lemma ps_ind_run:
  assumes ok: "wifi_ok s L {}" and env: "env_good env"
  shows "\<exists>s'. rwm_msdu_ps_change_ind_handler env (Some (i, ps)) s = Inr ((), s') \<and> wifi_ok s' L {} \<and> follows s L s' L (\<lambda>_. [])"
proof -
  have tab: "tab_ok s" using ok by (simp add: wifi_ok_def)
  have keep: "wifi_ok s' L {} \<and> follows s L s' L (\<lambda>_. [])"
    if "tab_ok s'" "still s' = still (s\<lparr>ps_timer := pt, io_queue := q\<rparr>)" "nodes s' = nodes s" "mlinks s' = mlinks s" for s' pt q
    using that ok by (simp add: wifi_ok_def follows_def pend_def frames_def sta_ids_def tim_ok_def tim_key_def)
  obtain n where n: "rwm_txling_list_node_count i s = Inr (n, s)" "n \<noteq> 0 \<Longrightarrow> unat i < 2"
    using count_run [OF ok, of i] by (cases "unat i < 2") (auto simp: rwm_txling_list_node_count_def)
  consider "ps = PS_MODE_OFF" "n \<noteq> 0" | "ps = PS_MODE_ON" "n \<noteq> 0" | "n = 0 \<or> ps \<noteq> PS_MODE_OFF \<and> ps \<noteq> PS_MODE_ON" by blast
  then show ?thesis
  proof cases
    case 1
    from sender_run [OF tab] obtain ms where ms: "bmsg_txing_sender i s = Inr ((), s\<lparr>io_queue := Some ms\<rparr>)" by blast
    have "tab_ok (s\<lparr>io_queue := Some ms\<rparr>)" using tab by (simp add: tab_ok_def)
    from timer_runs(2) [OF this env n(2) [OF 1(2)]] obtain pt where
      "stop_if_running env (unat i) (s\<lparr>io_queue := Some ms\<rparr>) = Inr ((), s\<lparr>io_queue := Some ms, ps_timer := pt\<rparr>)"
      "tab_ok (s\<lparr>io_queue := Some ms, ps_timer := pt\<rparr>)" by auto
    with keep [of "s\<lparr>io_queue := Some ms, ps_timer := pt\<rparr>"] 1 n(1) ms show ?thesis
      by (auto simp: rwm_msdu_ps_change_ind_handler_def)
  next
    case 2
    from timer_runs(1) [OF tab env n(2) [OF 2(2)]] obtain pt where
      "start_if_stopped env (unat i) s = Inr ((), s\<lparr>ps_timer := pt\<rparr>)" "tab_ok (s\<lparr>ps_timer := pt\<rparr>)" by blast
    with keep [of "s\<lparr>ps_timer := pt\<rparr>"] 2 n(1) show ?thesis
      by (auto simp: rwm_msdu_ps_change_ind_handler_def PS_MODE_OFF_def PS_MODE_ON_def)
  next
    case 3
    with keep [of s] tab n(1) show ?thesis by (auto simp: rwm_msdu_ps_change_ind_handler_def)
  qed
qed

text \<open>The first waiting node goes to the MAC library, or is dropped when there is no descriptor.\<close>

lemma pop_transfer_run:
  assumes ok: "wifi_ok s L {}" and env: "env_good env" and i: "unat i < 2" and L: "L (Txing (unat i)) = a # as"
  shows "\<exists>l n s2. rwm_pop_txing_list i s = Inr (Some a, s\<lparr>mlinks := l\<rparr>)
     \<and> rwm_txling_list_node_count i (s\<lparr>mlinks := l\<rparr>) = Inr (n, s\<lparr>mlinks := l\<rparr>) \<and> (n = 0 \<longleftrightarrow> as = [])
     \<and> rwm_transfer_node env (Some a) TXU_CNTRL_MORE_DATA (s\<lparr>mlinks := l, pck_cnt := pck_cnt s + 1\<rparr>) = Inr (0, s2)
     \<and> wifi_ok s2 (L(Txing (unat i) := as)) {} \<and> outer s2 = outer (s\<lparr>mlinks := l\<rparr>)
     \<and> (\<forall>b. b \<noteq> a \<longrightarrow> nodes s2 b = nodes s b)
     \<and> (log s2 = log s \<or> (\<exists>d t q. log s2 = log s @ [Txu_Push d t (content (the (nodes s a))) q] \<and> h_staid t = i))"
proof -
  let ?h = "Txing (unat i)"
  from wifi_pop [OF ok Txing_head [OF i]] obtain l where
    l: "rwm_pop_txing_list i s = Inr (Some a, s\<lparr>mlinks := l\<rparr>)" "wifi_ok (s\<lparr>mlinks := l\<rparr>) (L(?h := as)) {a}"
    using i L by (auto simp: rwm_pop_txing_list_def)
  let ?s1 = "s\<lparr>mlinks := l, pck_cnt := pck_cnt s + 1\<rparr>"
  have w1: "wifi_ok ?s1 (L(?h := as)) {a}" using l(2) by (simp add: wifi_ok_def tab_ok_def)
  from count_run [OF l(2) i] obtain n where
    n: "rwm_txling_list_node_count i (s\<lparr>mlinks := l\<rparr>) = Inr (n, s\<lparr>mlinks := l\<rparr>)" "n = 0 \<longleftrightarrow> as = []" by auto
  obtain nd where nd: "nodes s a = Some nd" using l(2) mem_node by (fastforce simp: wifi_ok_def)
  have ad: "addressed (unat i) nd" using ok memD(6) [of "nodes s" "txd s" L "{}" "unat i" a nd] nd i L by (simp add: wifi_ok_def)
  then have sta: "sta_idx nd = i" by (simp add: addressed_def word_unat_eq_iff)
  from transfer_node_run [OF w1 env, of a nd TXU_CNTRL_MORE_DATA] nd ad obtain s2 where
    "rwm_transfer_node env (Some a) TXU_CNTRL_MORE_DATA ?s1 = Inr (0, s2)" "wifi_ok s2 (L(?h := as)) {}" "outer s2 = outer ?s1"
      "\<forall>b. b \<noteq> a \<longrightarrow> nodes s2 b = nodes s b"
      "log s2 = log s \<or> (\<exists>d t q. log s2 = log s @ [Txu_Push d t (content nd) q] \<and> h_staid t = sta_idx nd)"
    by (auto simp: addressed_def)
  with l(1) n nd sta show ?thesis by (intro exI conjI) auto
qed

lemma follows_pop:
  assumes ok: "wifi_ok s L {}" and i: "unat i < 2" and L: "L (Txing (unat i)) = a # as"
    and o: "vif_info_tab s2 = vif_info_tab s" "sta_info_tab s2 = sta_info_tab s" and n: "\<forall>b. b \<noteq> a \<longrightarrow> nodes s2 b = nodes s b"
    and l: "log s2 = log s \<or> (\<exists>d t q. log s2 = log s @ [Txu_Push d t (content (the (nodes s a))) q] \<and> h_staid t = i)"
  shows "follows s L s2 (L(Txing (unat i) := as)) (\<lambda>_. [])"
proof -
  let ?L = "L(Txing (unat i) := as)"
  have out: "a \<notin> set (?L (Txing j))" if j: "j < 2" for j
  proof -
    have "Txing j \<in> heads" using j by (auto simp: heads_def)
    then show ?thesis
      using lists_disjoint [of "mlinks s" L "Txing (unat i)" "Txing j" a] lists_distinct [of "mlinks s" L "Txing (unat i)"]
        ok Txing_head [OF i] L by (auto simp: wifi_ok_def)
  qed
  have fr: "frames s2 (?L (Txing j)) = frames s (?L (Txing j))" if "j < 2" for j
    using n out [OF that] by (intro frames_same) metis
  have "subseq (pend j s2 ?L) (pend j s L)" if c: "client s j" for j
  proof (cases "j = unat i")
    case True
    then have p: "pend j s L = sent_to j (log s) @ content (the (nodes s a)) # frames s as"
        "pend j s2 ?L = sent_to j (log s2) @ frames s as"
      using L fr [of j] c by (simp_all add: pend_def frames_def client_def)
    have "subseq (frames s as) (content (the (nodes s a)) # frames s as)" by (rule list_emb_Cons) simp
    then have "subseq (sent_to j (log s) @ frames s as) (sent_to j (log s) @ content (the (nodes s a)) # frames s as)"
      by (rule list_emb_append_mono [OF subseq_order.order_refl])
    then show ?thesis unfolding p using l True by auto
  next
    case False
    then show ?thesis using fr [of j] c l by (auto simp: client_def pend_def)
  qed
  moreover have "tim (log s2) k = tim (log s) k" for k using l by auto
  then have "tim_ok s L \<Longrightarrow> tim_ok s2 ?L" using L o by (auto simp: tim_ok_def tim_key_def)
  ultimately show ?thesis using o by (simp add: follows_def sta_ids_def)
qed

text \<open>The announcement is withdrawn when the last one has left.\<close>

lemma follows_tim_off:
  assumes f: "follows s L s2 L' g" and o: "sta_info_tab s2 = sta_info_tab s" and e: "L' (Txing i) = []" and i: "i < 2"
  shows "follows s L (s2\<lparr>log := log s2 @ [Tim_Update (fst (tim_key s i)) (snd (tim_key s i)) False]\<rparr>) L' g"
proof -
  let ?s = "s2\<lparr>log := log s2 @ [Tim_Update (fst (tim_key s i)) (snd (tim_key s i)) False]\<rparr>"
  have key: "tim_key ?s j = tim_key s j" "tim_key s2 j = tim_key s j" for j using o by (simp_all add: tim_key_def)
  have "tim_ok ?s L'" if d: "tim_key s 0 \<noteq> tim_key s 1" and t: "tim_ok s2 L'"
  proof (unfold tim_ok_def, intro allI impI)
    fix j assume j: "j < 2" and w: "L' (Txing j) \<noteq> []"
    from w e have "j \<noteq> i" by auto
    then have "tim_key s j \<noteq> tim_key s i" using d i j by (auto simp: less_2_cases_iff)
    moreover have "tim (log s2) (tim_key s j)" using t j w key(2) by (simp add: tim_ok_def)
    ultimately show "tim (log ?s) (tim_key ?s j)" unfolding key by simp
  qed
  moreover have "pend j ?s L' = pend j s2 L'" for j by (simp add: pend_def frames_def)
  ultimately show ?thesis using f by (simp add: follows_def sta_ids_def)
qed

lemma send_txing_run:
  assumes ok: "wifi_ok s L {}" and env: "env_good env"
  shows "\<exists>s' L'. rwm_msdu_send_txing_node env i s = Inr ((), s') \<and> wifi_ok s' L' {} \<and> follows s L s' L' (\<lambda>_. [])"
proof (cases "unat i < 2")
  case False
  have "follows s L s L (\<lambda>_. [])" by (simp add: follows_def)
  with False ok show ?thesis by (auto simp: rwm_msdu_send_txing_node_def rwm_pop_txing_list_def)
next
  case i: True
  show ?thesis
  proof (cases "L (Txing (unat i))")
    case Nil
    then have "L(Txing (unat i) := []) = L" by auto
    with wifi_pop [OF ok Txing_head [OF i]] Nil i obtain l where
      "rwm_pop_txing_list i s = Inr (None, s\<lparr>mlinks := l\<rparr>)" "wifi_ok (s\<lparr>mlinks := l\<rparr>) L {}"
      by (auto simp: rwm_pop_txing_list_def)
    moreover have "follows s L (s\<lparr>mlinks := l\<rparr>) L (\<lambda>_. [])"
      by (simp add: follows_def pend_def frames_def sta_ids_def tim_ok_def tim_key_def)
    ultimately show ?thesis by (auto simp: rwm_msdu_send_txing_node_def)
  next
    case (Cons a as)
    let ?L = "L(Txing (unat i) := as)"
    from pop_transfer_run [OF ok env i Cons] obtain l n s2 where
      run: "rwm_pop_txing_list i s = Inr (Some a, s\<lparr>mlinks := l\<rparr>)"
        "rwm_txling_list_node_count i (s\<lparr>mlinks := l\<rparr>) = Inr (n, s\<lparr>mlinks := l\<rparr>)"
        "rwm_transfer_node env (Some a) TXU_CNTRL_MORE_DATA (s\<lparr>mlinks := l, pck_cnt := pck_cnt s + 1\<rparr>) = Inr (0, s2)"
      and n: "n = 0 \<longleftrightarrow> as = []" and w: "wifi_ok s2 ?L {}" and o: "outer s2 = outer (s\<lparr>mlinks := l\<rparr>)"
      and f: "follows s L s2 ?L (\<lambda>_. [])"
      using follows_pop [OF ok i Cons] by fastforce
    have tab: "tab_ok s2" and si: "sta_info_tab s2 = sta_info_tab s" using w o by (simp_all add: wifi_ok_def)
    show ?thesis
    proof (cases "as = []")
      case True
      let ?s3 = "s2\<lparr>log := log s2 @ [Tim_Update (fst (tim_key s (unat i))) (snd (tim_key s (unat i))) False]\<rparr>"
      have "rwm_msdu_send_txing_node env i s = Inr ((), ?s3)"
        using run n True tab i si
        by (simp add: rwm_msdu_send_txing_node_def sta_mgmt_get_vif_idx_def sta_mgmt_get_aid_def tim_key_def)
      moreover have "wifi_ok ?s3 ?L {}" using w by (simp add: wifi_ok_def tab_ok_def)
      ultimately show ?thesis using follows_tim_off [OF f si _ i] True by auto
    next
      case False
      from sender_run [OF tab] obtain ms where ms: "bmsg_txing_sender i s2 = Inr ((), s2\<lparr>io_queue := Some ms\<rparr>)" by blast
      define s3 where "s3 = (if ps_state (sta_info_tab s2 ! unat i) \<noteq> 0 then s2 else s2\<lparr>io_queue := Some ms\<rparr>)"
      have "rwm_msdu_send_txing_node env i s = Inr ((), s3)"
        using run n False tab i ms by (simp add: rwm_msdu_send_txing_node_def sta_mgmt_is_in_ps_def s3_def)
      moreover have "wifi_ok s3 ?L {}" using w by (simp add: wifi_ok_def tab_ok_def s3_def)
      moreover have "follows s L s3 ?L (\<lambda>_. [])"
        using f by (simp add: follows_def pend_def frames_def sta_ids_def tim_ok_def tim_key_def s3_def)
      ultimately show ?thesis by blast
    qed
  qed
qed

text \<open>A new node with a copy of the frame.\<close>

lemma wifi_set:
  assumes ok: "wifi_ok s L F" and a: "a \<in> F" "node_ok a nd" and s': "s' = s\<lparr>nodes := (nodes s)(a := Some nd)\<rparr>"
  shows "wifi_ok s' L F"
proof -
  have "msdu_node (txd s d) \<noteq> Some a" for d using ok a memD(3) by (fastforce simp: wifi_ok_def in_descs_def)
  then have "desc_ok ((nodes s)(a := Some nd)) (txd s)" using ok by (auto simp: wifi_ok_def desc_ok_def)
  with mem_set [of "nodes s" "txd s" L F a nd] ok a s' show ?thesis by (simp add: wifi_ok_def tab_ok_def)
qed

lemma alloc_run:
  assumes ok: "wifi_ok s L {}" and env: "env_good env" and n: "length bs + 140 < 2 ^ 32"
  shows "rwm_tx_node_alloc env (of_nat (length bs)) s = Inr (None, s)
     \<or> (\<exists>a s1 nd. rwm_tx_node_alloc env (of_nat (length bs)) s = Inr (Some a, s1)
        \<and> rwm_tx_msdu_renew bs (of_nat (length bs)) a s1 = Inr ((), s\<lparr>nodes := (nodes s)(a := Some nd)\<rparr>)
        \<and> content nd = bs \<and> node_ok a nd \<and> nodes s a = None \<and> wifi_ok (s\<lparr>nodes := (nodes s)(a := Some nd)\<rparr>) L {a})"
proof -
  let ?n = "of_nat (length bs) :: u32"
  let ?z = "of_nat sizeof_MSDU_NODE_T + of_nat CFG_MSDU_RESV_HEAD_LEN + ?n + of_nat CFG_MSDU_RESV_TAIL_LEN :: u32"
  have z: "unat ?n = length bs" "unat ?z = 140 + length bs"
    using n by (simp_all add: unat_of_nat unat_word_ariths)
  show ?thesis
  proof (cases "os_malloc env (log s) (dom (nodes s)) ?z")
    case None
    then show ?thesis by (simp add: rwm_tx_node_alloc_def)
  next
    case (Some p)
    obtain a nd0 where p: "p = (a, nd0)" by (cases p)
    have m: "a \<notin> dom (nodes s)" "0 < a" "a < 2 ^ 32" "length (msdu_ptr nd0) = unat ?z - 28"
      using env Some p unfolding env_good_def by fastforce+
    let ?b = "msdu_ptr nd0"
    define nd where "nd = nd0\<lparr>len := ?n, msdu_ptr := take 96 ?b @ bs @ drop (96 + length bs) ?b\<rparr>"
    have l: "length ?b = 112 + length bs" using m(4) z(2) by simp
    have nd: "node_ok a nd" "content nd = bs" using m l z(1) by (simp_all add: nd_def node_ok_def content_def)
    have na: "nodes s a = None" using m(1) by blast
    have "mem_ok ((nodes s)(a := Some nd)) (txd s) L {a}"
      using mem_alloc [of "nodes s" "txd s" L "{}" a nd] ok nd(1) na by (simp add: wifi_ok_def)
    moreover have "desc_ok ((nodes s)(a := Some nd)) (txd s)"
    proof -
      have "msdu_node (txd s d) \<noteq> Some a" for d using ok memD(1) m(1) by (fastforce simp: wifi_ok_def in_descs_def)
      then show ?thesis using ok by (auto simp: wifi_ok_def desc_ok_def)
    qed
    ultimately have "wifi_ok (s\<lparr>nodes := (nodes s)(a := Some nd)\<rparr>) L {a}" using ok by (simp add: wifi_ok_def tab_ok_def)
    moreover have "rwm_tx_msdu_renew bs ?n a (s\<lparr>nodes := (nodes s)(a := Some (nd0\<lparr>len := ?n\<rparr>))\<rparr>) =
        Inr ((), s\<lparr>nodes := (nodes s)(a := Some nd)\<rparr>)"
      using l z(1) by (simp add: rwm_tx_msdu_renew_def Let_def nd_def)
    ultimately show ?thesis using Some p nd na by (auto simp: rwm_tx_node_alloc_def)
  qed
qed

text \<open>The station of a frame, from the tables.\<close>

definition station_of :: "vif_info_tag list \<Rightarrow> (u8 list \<times> u16 \<times> u8) list \<Rightarrow> u8 \<Rightarrow> u8 list \<Rightarrow> u8" where
  "station_of vt ids v bs = (let x =
     if vif_type (vt ! unat v) = VIF_STA then ap_id (vt ! unat v)
     else if vif_type (vt ! unat v) = VIF_AP
     then (case find_idx (\<lambda>p. take 6 (fst p) = take 6 bs) (take 2 ids) 0 of None \<Rightarrow> 0xff | Some i \<Rightarrow> of_nat i)
     else 0xff in if x = 0xff then 2 + v else x)"

lemma find_idx_map: "find_idx P (map f xs) k = find_idx (\<lambda>x. P (f x)) xs k"
  by (induction xs arbitrary: k) auto

lemma find_idx_bound: "find_idx P xs k = Some j \<Longrightarrow> j < k + length xs"
  by (induction xs arbitrary: k) (fastforce split: if_splits)+

lemma get_staidx_run:
  assumes "tab_ok s" "unat v < 2" "6 \<le> length bs"
  shows "rwm_mgmt_tx_get_staidx v bs s = Inr (station_of (vif_info_tab s) (sta_ids s) v bs, s)"
proof -
  have "VIF_STA \<noteq> VIF_AP" by (simp add: VIF_STA_def VIF_AP_def)
  with assms show ?thesis
    by (simp add: rwm_mgmt_tx_get_staidx_def rwm_mgmt_vif_idx2ptr_def station_of_def rwm_mgmt_sta_mac2idx_def sta_ids_def
        take_map find_idx_map MAC_ADDR_CMP_def bindM_run Let_def split: option.split)
qed

lemma bcmc_idx: "unat (v :: u8) < 2 \<Longrightarrow> unat (2 + v) = 2 + unat v"
  by (simp add: unat_word_ariths)

lemma station_ap:
  assumes "unat v < 2" and "vif_type (vt ! unat v) = VIF_AP"
  shows "unat (station_of vt ids v bs) < 4"
proof (cases "find_idx (\<lambda>p. take 6 (fst p) = take 6 bs) (take 2 ids) 0")
  case None
  then show ?thesis using assms bcmc_idx [of v] by (simp add: station_of_def VIF_STA_def VIF_AP_def)
next
  case (Some j)
  then have "j < 2" using find_idx_bound [OF Some] by simp
  then have "unat (of_nat j :: u8) = j" by (simp add: unat_of_nat)
  with Some assms bcmc_idx [of v] \<open>j < 2\<close> show ?thesis
    by (simp add: station_of_def VIF_STA_def VIF_AP_def Let_def)
qed

lemma station_sta:
  assumes "unat v < 2" and "vif_type (vif_info_tab s ! unat v) \<noteq> VIF_AP" and "client s i" and "tab_ok s"
  shows "unat (station_of (vif_info_tab s) ids v bs) \<noteq> i"
proof -
  have "vif_info_tab s ! unat v \<in> set (vif_info_tab s)" using assms(1,4) by (simp add: tab_ok_def)
  then have "unat (ap_id (vif_info_tab s ! unat v)) \<noteq> i" using assms(2,3) by (simp add: client_def)
  then show ?thesis using assms bcmc_idx [of v] by (auto simp: station_of_def client_def Let_def)
qed

lemma transfer_run:
  assumes ok: "wifi_ok s L {}" and env: "env_good env" and v: "unat v < 2" and n: "6 \<le> length bs" "length bs + 140 < 2 ^ 32"
    and sy: "sy \<noteq> 0 \<longrightarrow> ar \<noteq> None"
  shows "\<exists>s' L'. rwm_transfer env v bs (of_nat (length bs)) sy ar s = Inr (RW_FAILURE, s') \<and> wifi_ok s' L' {}
    \<and> handed s s' (station_of (vif_info_tab s) (sta_ids s) v bs) bs
    \<and> follows s L s' L' (\<lambda>i. if unat (station_of (vif_info_tab s) (sta_ids s) v bs) = i then [bs] else [])"
proof -
  let ?sta = "station_of (vif_info_tab s) (sta_ids s) v bs"
  consider (none) "rwm_tx_node_alloc env (of_nat (length bs)) s = Inr (None, s)"
    | (some) a s1 nd where "rwm_tx_node_alloc env (of_nat (length bs)) s = Inr (Some a, s1)"
        "rwm_tx_msdu_renew bs (of_nat (length bs)) a s1 = Inr ((), s\<lparr>nodes := (nodes s)(a := Some nd)\<rparr>)"
        "content nd = bs" "node_ok a nd" "nodes s a = None" "wifi_ok (s\<lparr>nodes := (nodes s)(a := Some nd)\<rparr>) L {a}"
    using alloc_run [OF ok env n(2)] by blast
  then show ?thesis
  proof cases
    case none
    let ?s = "s\<lparr>pck_cnt := pck_cnt s - 1\<rparr>"
    have "wifi_ok ?s L {}" using ok by (simp add: wifi_ok_def tab_ok_def)
    moreover have "follows s L ?s L (\<lambda>i. if unat ?sta = i then [bs] else [])"
      by (auto simp: follows_def pend_def frames_def sta_ids_def tim_ok_def tim_key_def intro: subseq_rev_drop_many)
    moreover have "handed s ?s ?sta bs" by (simp add: handed_def)
    ultimately show ?thesis using none by (simp add: rwm_transfer_def) blast
  next
    case some
    define nd2 where "nd2 = nd\<lparr>vif_idx := v, sync := sy, args := ar, sta_idx := ?sta\<rparr>"
    let ?s0 = "s\<lparr>nodes := (nodes s)(a := Some nd)\<rparr>" and ?s2 = "s\<lparr>nodes := (nodes s)(a := Some nd2)\<rparr>"
    have n2: "node_ok a nd2" "content nd2 = bs" using some(3,4) by (simp_all add: nd2_def node_ok_def content_def)
    have w: "wifi_ok ?s2 L {a}" by (rule wifi_set [OF some(6) _ n2(1)]) simp_all
    have tab: "tab_ok s" using ok by (simp add: wifi_ok_def)
    have tab1: "tab_ok (s\<lparr>nodes := N\<rparr>)" for N using tab by (simp add: tab_ok_def)
    have "client ?s2 i = client s i" for i by (simp add: client_def)
    moreover have f2: "vif_idx nd2 = v" "sta_idx nd2 = ?sta" "sync nd2 = sy" "args nd2 = ar" by (simp_all add: nd2_def)
    ultimately obtain s' L' where
      r: "rwm_ps_tranfer_node env (Some a) ?s2 = Inr ((), s')" "wifi_ok s' L' {}" "handed ?s2 s' ?sta bs"
        "follows ?s2 L s' L' (\<lambda>i. if unat ?sta = i then [bs] else [])"
      using ps_transfer_run [OF w env, of nd2] station_ap [OF v, of "vif_info_tab s"] station_sta [OF v _ _ tab] v sy n2(2) by auto
    have out: "a \<notin> set (L (Txing i))" if "i < 2" for i using loose_unlisted [OF some(6) _ that, of a] by simp
    have "frames ?s2 (L (Txing i)) = frames s (L (Txing i))" if "i < 2" for i
      using out [OF that] by (intro frames_same) auto
    then have "follows s L s' L' (\<lambda>i. if unat ?sta = i then [bs] else [])"
      using r(4) by (simp add: follows_def pend_def client_def sta_ids_def tim_ok_def tim_key_def)
    moreover have "handed s s' ?sta bs" using r(3) by (simp add: handed_def)
    moreover have "rwm_mgmt_tx_get_staidx v bs (s\<lparr>nodes := N\<rparr>) = Inr (?sta, s\<lparr>nodes := N\<rparr>)" for N
      using get_staidx_run [OF tab1 v n(1)] by (simp add: sta_ids_def)
    then have "rwm_transfer env v bs (of_nat (length bs)) sy ar s = Inr (RW_FAILURE, s')"
      using some(1,2) env r(1) by (simp add: rwm_transfer_def nd2_def env_good_def)
    ultimately show ?thesis using r(2) by blast
  qed
qed

text \<open>The MAC library reports a descriptor as done and then takes it back.\<close>

definition mac_done :: "nat \<Rightarrow> u32 \<Rightarrow> (wifi_st, unit) prog" where
  "mac_done d st =
     thenM (upd_desc d (statinfo_update (\<lambda>_. st)))
    (thenM (rwm_tx_confirm (Some d))
           (upd_desc d (desc_status_update (\<lambda>_. 0))))"

lemma follows_log:
  assumes ok: "wifi_ok s L F" and w: "wifi_ok s' L F'" and t: "vif_info_tab s' = vif_info_tab s" "sta_info_tab s' = sta_info_tab s"
    and n: "\<And>b. b \<in> in_lists L \<Longrightarrow> nodes s' b = nodes s b"
    and l: "\<And>i. sent_to i (log s') = sent_to i (log s)" "\<And>k. tim (log s') k = tim (log s) k"
  shows "follows s L s' L (\<lambda>_. [])"
proof (rule follows_quiet)
  show "frames s' (L (Txing i)) = frames s (L (Txing i))" if "i < 2" for i
    using n listed_Txing [OF that] by (intro frames_same) blast
qed (use assms wifi_sta4 in \<open>auto simp: sta_ids_def\<close>)

lemma desc_put: "desc_ok N T \<Longrightarrow> msdu_node t = None \<Longrightarrow> desc_ok N (T(d := t))"
  by (auto simp: desc_ok_def)

lemma done_run:
  assumes ok: "wifi_ok s L {}"
  shows "\<exists>s'. mac_done d st s = Inr ((), s') \<and> wifi_ok s' L {} \<and> follows s L s' L (\<lambda>_. [])"
proof (cases "msdu_node (txd s d)")
  case None
  let ?s = "s\<lparr>txd := (txd s)(d := (txd s d)\<lparr>statinfo := st, desc_status := 0\<rparr>)\<rparr>"
  have "mem_ok (nodes s) (txd ?s) L {}" using ok None mem_same_descs [of "nodes s" "txd s" L "{}" _ d] by (simp add: wifi_ok_def)
  moreover have "desc_ok (nodes s) (txd ?s)" using ok None desc_put [of "nodes s" "txd s" _ d] by (simp add: wifi_ok_def)
  ultimately have w: "wifi_ok ?s L {}" using ok by (simp add: wifi_ok_def tab_ok_def)
  have "mac_done d st s = Inr ((), ?s)" using None by (simp add: mac_done_def rwm_tx_confirm_def)
  with w follows_log [OF ok w] show ?thesis by auto
next
  case (Some a)
  define t where "t = (txd s d)\<lparr>statinfo := st, msdu_node := None, desc_status := 0\<rparr>"
  have m: "mem_ok (nodes s) (txd s) L {}" and dk: "desc_ok (nodes s) (txd s)" using ok by (simp_all add: wifi_ok_def)
  have "a \<in> in_descs (txd s)" using Some by (auto simp: in_descs_def)
  then obtain nd where nd: "nodes s a = Some nd" and out: "a \<notin> in_lists L" using memD(1,2) [OF m] by blast
  have cb: "callback (txd s d) = Some Data_Tx_Cb \<Longrightarrow> h_param (txd s d) = Desc_Param d \<and> args nd \<noteq> None"
    using dk Some nd by (simp add: desc_ok_def)
  have "\<exists>e. mac_done d st s = Inr ((), s\<lparr>nodes := (nodes s)(a := None), txd := (txd s)(d := t), log := log s @ e\<rparr>)
    \<and> (\<forall>i. sent_to i e = []) \<and> (\<forall>k. tim (log s @ e) k = tim (log s) k)"
  proof (cases "callback (txd s d)")
    case None
    then show ?thesis using Some nd by (intro exI [of _ "[]"]) (simp add: mac_done_def rwm_tx_confirm_def t_def)
  next
    case (Some c)
    show ?thesis
    proof (cases c)
      case Data_Tx_Cb
      with Some cb obtain r where r: "h_param (txd s d) = Desc_Param d" "args nd = Some r" by auto
      show ?thesis
        using Some Data_Tx_Cb r nd \<open>msdu_node (txd s d) = Some a\<close>
        by (intro exI [of _ "[Tx_Result r (st AND push_bit 23 1 \<noteq> 0)]"])
          (simp add: mac_done_def rwm_tx_confirm_def ieee80211_data_tx_cb_def t_def)
    next
      case (Mgmt_Cb f)
      then show ?thesis
        using Some nd \<open>msdu_node (txd s d) = Some a\<close>
        by (intro exI [of _ "[Mgmt_Call f (h_param (txd s d))]"]) (simp add: mac_done_def rwm_tx_confirm_def t_def)
    qed
  qed
  then obtain e where e: "mac_done d st s = Inr ((), s\<lparr>nodes := (nodes s)(a := None), txd := (txd s)(d := t), log := log s @ e\<rparr>)"
    "\<forall>i. sent_to i e = []" "\<forall>k. tim (log s @ e) k = tim (log s) k" by blast
  let ?s = "s\<lparr>nodes := (nodes s)(a := None), txd := (txd s)(d := t), log := log s @ e\<rparr>"
  have "mem_ok ((nodes s)(a := None)) ((txd s)(d := t)) L ({a} - {a})"
    by (rule mem_free [OF mem_take [OF m Some]]) (simp_all add: t_def)
  moreover have "desc_ok ((nodes s)(a := None)) ((txd s)(d := t))"
    by (rule desc_free [OF desc_put [OF dk]]) (simp add: t_def)
  ultimately have w: "wifi_ok ?s L {}" using ok by (simp add: wifi_ok_def tab_ok_def)
  have "follows s L ?s L (\<lambda>_. [])" by (rule follows_log [OF ok w]) (use out e(2,3) in auto)
  with e(1) w show ?thesis by blast
qed

lemma raw_run:
  assumes ok: "wifi_ok s L {}" and env: "env_good env" and n: "length bs + 140 < 2 ^ 32"
  shows "\<exists>r s'. rwm_raw_frame_with_cb env (Some bs) (of_nat (length bs)) cb par s = Inr (r, s') \<and> wifi_ok s' L {}
    \<and> follows s L s' L (\<lambda>_. [])"
proof -
  consider (none) "rwm_tx_node_alloc env (of_nat (length bs)) s = Inr (None, s)"
    | (some) a s1 nd where "rwm_tx_node_alloc env (of_nat (length bs)) s = Inr (Some a, s1)"
        "rwm_tx_msdu_renew bs (of_nat (length bs)) a s1 = Inr ((), s\<lparr>nodes := (nodes s)(a := Some nd)\<rparr>)"
        "content nd = bs" "node_ok a nd" "nodes s a = None" "wifi_ok (s\<lparr>nodes := (nodes s)(a := Some nd)\<rparr>) L {a}"
    using alloc_run [OF ok env n] by blast
  then show ?thesis
  proof cases
    case none
    with ok follows_log [OF ok ok] show ?thesis by (simp add: rwm_raw_frame_with_cb_def)
  next
    case some
    let ?s1 = "s\<lparr>nodes := (nodes s)(a := Some nd)\<rparr>"
    have out: "a \<notin> in_lists L" using some(6) memD(3) by (fastforce simp: wifi_ok_def)
    have "tx_txdesc_prepare env (log s) AC_VI (txd s) \<noteq> None" using env unfolding env_good_def by blast
    then obtain d where d: "tx_txdesc_prepare env (log s) AC_VI (txd s) = Some d" by blast
    show ?thesis
    proof (cases "desc_status (txd s d) = TXDESC_STA_USED")
      case True
      let ?s = "?s1\<lparr>nodes := (nodes s)(a := None)\<rparr>"
      have w: "wifi_ok ?s L {}" using wifi_free [OF some(6), of a ?s] by simp
      have "rwm_raw_frame_with_cb env (Some bs) (of_nat (length bs)) cb par s = Inr (0, ?s)"
        using some(1,2) d True by (simp add: rwm_raw_frame_with_cb_def rwm_node_free_def)
      moreover have "follows s L ?s L (\<lambda>_. [])" by (rule follows_log [OF ok w]) (use some(5) in auto)
      ultimately show ?thesis using w by blast
    next
      case False
      define t where "t = (raw_desc a (ucast (of_nat (length bs) :: u32)) (txd s d))\<lparr>callback := map_option Mgmt_Cb cb,
        h_param := (if cfg_bk_aware env then Desc_Param d else User_Param par)\<rparr>"
      let ?s = "?s1\<lparr>txd := (txd s)(d := t), log := log s @ [Data_Prevent, Pwr_Mgt_Off, Ps_Wakeup, Txl_Push d t bs AC_VI]\<rparr>"
      have t: "msdu_node t = Some a" "desc_status t = TXDESC_STA_USED" "callback t \<noteq> Some Data_Tx_Cb"
        by (auto simp: t_def raw_desc_def)
      have "wifi_ok ?s L ({a} - {a})" by (rule wifi_give [OF some(6) _ _ t(1,2)]) (use False t(3) in auto)
      then have w: "wifi_ok ?s L {}" by simp
      have "rwm_raw_frame_with_cb env (Some bs) (of_nat (length bs)) cb par s = Inr (sint (of_nat (length bs) :: u32), ?s)"
        using some(1,2,3) d False
        by (simp add: rwm_raw_frame_with_cb_def push_event_def t_def content_def)
      moreover have "follows s L ?s L (\<lambda>_. [])"
      proof (rule follows_log [OF ok w])
        have "log ?s = (((log s @ [Data_Prevent]) @ [Pwr_Mgt_Off]) @ [Ps_Wakeup]) @ [Txl_Push d t bs AC_VI]" by simp
        then show "tim (log ?s) k = tim (log s) k" for k by (simp only: tim_snoc wifi_event.case)
      qed (use out in auto)
      ultimately show ?thesis using w by blast
    qed
  qed
qed

section \<open>Any sequence of calls\<close>

text \<open>
  What reaches the file: frames of the host (data, and raw ones with a callback), the core thread's
  message to send a waiting frame, the library's report that a station went to sleep or woke up, the
  timer, the removal of a station, descriptors that are done, and the library's own
  change of a station's power state.
\<close>

datatype msdu_call =
    Transfer u8 "u8 list" int "nat option"
  | Raw "u8 list" "nat option" "nat option"
  | Txing_Msg u8
  | Ps_Ind u8 u8
  | Ps_Timeout u32
  | Sta_Flush u8
  | Desc_Done nat u32
  | Sta_Ps u8 u8

definition msdu_exec :: "msdu_env \<Rightarrow> msdu_call \<Rightarrow> (wifi_st, unit) prog" where
  "msdu_exec env c = (case c of
     Transfer v bs sy ar \<Rightarrow> bindM (rwm_transfer env v bs (of_nat (length bs)) sy ar) (\<lambda>_. retM ())
   | Raw bs cb par \<Rightarrow> bindM (rwm_raw_frame_with_cb env (Some bs) (of_nat (length bs)) cb par) (\<lambda>_. retM ())
   | Txing_Msg i \<Rightarrow> rwm_msdu_send_txing_node env i
   | Ps_Ind i ps \<Rightarrow> rwm_msdu_ps_change_ind_handler env (Some (i, ps))
   | Ps_Timeout x \<Rightarrow> rwm_msdu_ap_ps_timeout env x
   | Sta_Flush i \<Rightarrow> rwm_flush_txing_list env i
   | Desc_Done d st \<Rightarrow> mac_done d st
   | Sta_Ps i ps \<Rightarrow> modM (\<lambda>s. s\<lparr>sta_info_tab := (sta_info_tab s)[unat i := (sta_info_tab s ! unat i)\<lparr>ps_state := ps\<rparr>]\<rparr>))"

abbreviation msdu_run :: "msdu_env \<Rightarrow> msdu_call list \<Rightarrow> (wifi_st, unit) prog" where
  "msdu_run env calls \<equiv> forM calls (msdu_exec env)"

text \<open>
  A data frame has a destination address and is sent on one of the two interfaces; a frame of whose
  fate the caller wants to know comes with the place for the answer.
\<close>

definition call_ok :: "msdu_call \<Rightarrow> bool" where
  "call_ok c = (case c of
     Transfer v bs sy ar \<Rightarrow> unat v < 2 \<and> 6 \<le> length bs \<and> length bs + 140 < 2 ^ 32 \<and> (sy \<noteq> 0 \<longrightarrow> ar \<noteq> None)
   | Raw bs cb par \<Rightarrow> length bs + 140 < 2 ^ 32
   | Sta_Ps i ps \<Rightarrow> unat i < 4
   | _ \<Rightarrow> True)"

definition given_by :: "vif_info_tag list \<Rightarrow> (u8 list \<times> u16 \<times> u8) list \<Rightarrow> msdu_call \<Rightarrow> nat \<Rightarrow> u8 list list" where
  "given_by vt ids c i = (case c of
     Transfer v bs _ _ \<Rightarrow> if unat (station_of vt ids v bs) = i then [bs] else [] | _ \<Rightarrow> [])"

definition given :: "vif_info_tag list \<Rightarrow> (u8 list \<times> u16 \<times> u8) list \<Rightarrow> msdu_call list \<Rightarrow> nat \<Rightarrow> u8 list list" where
  "given vt ids calls i = concat (map (\<lambda>c. given_by vt ids c i) calls)"

lemma given_by_simps [simp]:
  "given_by vt ids (Transfer v bs sy ar) = (\<lambda>i. if unat (station_of vt ids v bs) = i then [bs] else [])"
  "given_by vt ids (Raw bs cb par) = (\<lambda>_. [])" "given_by vt ids (Txing_Msg x) = (\<lambda>_. [])"
  "given_by vt ids (Ps_Ind x ps) = (\<lambda>_. [])" "given_by vt ids (Ps_Timeout w) = (\<lambda>_. [])"
  "given_by vt ids (Sta_Flush x) = (\<lambda>_. [])" "given_by vt ids (Desc_Done d st) = (\<lambda>_. [])"
  "given_by vt ids (Sta_Ps x ps) = (\<lambda>_. [])"
  by (simp_all add: given_by_def fun_eq_iff)

lemma given_Cons: "given vt ids (c # calls) = (\<lambda>i. given_by vt ids c i @ given vt ids calls i)"
  by (simp add: given_def fun_eq_iff)

lemma sta_ps_run:
  assumes ok: "wifi_ok s L {}" and i: "unat i < 4"
  shows "\<exists>s'. msdu_exec env (Sta_Ps i ps) s = Inr ((), s') \<and> wifi_ok s' L {} \<and> follows s L s' L (\<lambda>_. [])"
proof -
  let ?s = "s\<lparr>sta_info_tab := (sta_info_tab s)[unat i := (sta_info_tab s ! unat i)\<lparr>ps_state := ps\<rparr>]\<rparr>"
  have n: "length (sta_info_tab s) = 4" using wifi_sta4 [OF ok] .
  have ids: "sta_ids ?s = sta_ids s"
    using n i by (intro nth_equalityI) (auto simp: sta_ids_def nth_list_update)
  have w: "wifi_ok ?s L {}" using ok by (simp add: wifi_ok_def tab_ok_def)
  have "follows s L ?s L (\<lambda>_. [])" by (rule follows_quiet) (use n ids in \<open>simp_all add: frames_def\<close>)
  with w show ?thesis by (auto simp: msdu_exec_def)
qed

lemma exec_step:
  assumes ok: "wifi_ok s L {}" and env: "env_good env" and c: "call_ok c"
  shows "\<exists>s' L'. msdu_exec env c s = Inr ((), s') \<and> wifi_ok s' L' {}
     \<and> follows s L s' L' (given_by (vif_info_tab s) (sta_ids s) c)"
proof (cases c)
  case (Transfer v bs sy ar)
  with transfer_run [OF ok env, of v bs sy ar] c show ?thesis by (auto simp: msdu_exec_def call_ok_def)
next
  case (Raw bs cb par)
  with raw_run [OF ok env, of bs cb par] c show ?thesis by (fastforce simp: msdu_exec_def call_ok_def)
next
  case (Txing_Msg i)
  with send_txing_run [OF ok env, of i] show ?thesis by (simp add: msdu_exec_def)
next
  case (Ps_Ind i ps)
  with ps_ind_run [OF ok env, of i ps] show ?thesis by (auto simp: msdu_exec_def)
next
  case (Ps_Timeout x)
  with flush_txing_run [OF ok env] show ?thesis by (simp add: msdu_exec_def rwm_msdu_ap_ps_timeout_def)
next
  case (Sta_Flush i)
  with flush_txing_run [OF ok env] show ?thesis by (simp add: msdu_exec_def)
next
  case (Desc_Done d st)
  with done_run [OF ok, of d st] show ?thesis by (auto simp: msdu_exec_def)
next
  case (Sta_Ps i ps)
  with sta_ps_run [OF ok, of i env ps] c show ?thesis by (auto simp: call_ok_def)
qed

lemma exec_run:
  assumes "wifi_ok s L {}" and env: "env_good env" and "\<forall>c \<in> set calls. call_ok c"
  shows "\<exists>s' L'. msdu_run env calls s = Inr ((), s') \<and> wifi_ok s' L' {}
     \<and> follows s L s' L' (given (vif_info_tab s) (sta_ids s) calls)"
  using assms(1,3)
proof (induction calls arbitrary: s L)
  case Nil
  moreover have "follows s L s L (given (vif_info_tab s) (sta_ids s) [])" by (simp add: follows_def given_def)
  ultimately show ?case by auto
next
  case (Cons c calls)
  from exec_step [OF Cons.prems(1) env, of c] Cons.prems(2) obtain s1 L1 where
    1: "msdu_exec env c s = Inr ((), s1)" "wifi_ok s1 L1 {}" "follows s L s1 L1 (given_by (vif_info_tab s) (sta_ids s) c)" by auto
  from Cons.IH [OF 1(2)] Cons.prems(2) obtain s2 L2 where
    2: "msdu_run env calls s1 = Inr ((), s2)" "wifi_ok s2 L2 {}" "follows s1 L1 s2 L2 (given (vif_info_tab s1) (sta_ids s1) calls)" by auto
  have same: "vif_info_tab s1 = vif_info_tab s" "sta_ids s1 = sta_ids s" using 1(3) by (simp_all add: follows_def)
  have "follows s L s2 L2 (\<lambda>i. given_by (vif_info_tab s) (sta_ids s) c i @ given (vif_info_tab s) (sta_ids s) calls i)"
    using follows_trans [OF 1(3) 2(3) wifi_sta4 [OF Cons.prems(1)] wifi_sta4 [OF 1(2)]] same by simp
  then have "follows s L s2 L2 (given (vif_info_tab s) (sta_ids s) (c # calls))" by (simp add: given_Cons)
  with 1(1) 2(1,2) show ?case by auto
qed

text \<open>Start: nothing is allocated, no descriptor is in use, and the list header is the static one.\<close>

definition boot :: "wifi_st \<Rightarrow> bool" where
  "boot s \<longleftrightarrow> nodes s = (\<lambda>_. None) \<and> (\<forall>d. msdu_node (txd s d) = None)
     \<and> lnext (mlinks s) Rx_List = Some Rx_List \<and> lprev (mlinks s) Rx_List = Some Rx_List
     \<and> length (vif_info_tab s) = 2 \<and> length (sta_info_tab s) = 4
     \<and> (\<forall>v \<in> set (vif_info_tab s). vif_active v \<longrightarrow> unat (ap_id v) < 4)
     \<and> io_queue s \<noteq> None \<and> log s = []"

lemma msdu_init_run:
  assumes b: "boot s" and env: "env_good env"
  shows "\<exists>s'. rwm_msdu_init env s = Inr ((), s') \<and> wifi_ok s' (\<lambda>_. []) {} \<and> vif_info_tab s' = vif_info_tab s
     \<and> sta_info_tab s' = sta_info_tab s \<and> log s' = []"
proof -
  have two: "[0..<MAX_PS_STA_NUM] = [0, 1]" by (simp add: upt_rec)
  define l where "l = (mlinks s)
    \<lparr>lnext := (lnext (mlinks s))(Txing 0 := Some (Txing 0), Txing 1 := Some (Txing 1)),
     lprev := (lprev (mlinks s))(Txing 0 := Some (Txing 0), Txing 1 := Some (Txing 1))\<rparr>"
  define pt where "pt = (ps_timer s)(0 := \<lparr>t_handle = True, t_running = False\<rparr>, 1 := \<lparr>t_handle = True, t_running = False\<rparr>)"
  let ?s = "s\<lparr>ap_ps_active := True, mlinks := l, ps_timer := pt, g_tid := 0xFF\<rparr>"
  have "rwm_msdu_init env s = Inr ((), ?s)"
    using env unfolding rwm_msdu_init_def two
    by (simp add: env_good_def rtos_init_timer_def on_links_def kNoErr_def l_def pt_def thenM_run bindM_run)
  moreover have "lists_ok l (\<lambda>_. [])" using b by (auto simp: lists_ok_def heads_def ring_def l_def boot_def)
  moreover have "mem_ok (nodes s) (txd s) (\<lambda>_. []) {}" using b by (simp add: mem_ok_def in_lists_def in_descs_def boot_def)
  moreover have "desc_ok (nodes s) (txd s)" using b by (simp add: desc_ok_def boot_def)
  moreover have "tab_ok ?s" using b by (auto simp: tab_ok_def boot_def pt_def)
  ultimately show ?thesis using b by (auto simp: wifi_ok_def boot_def tab_ok_def)
qed

lemma boot_run:
  assumes b: "boot s" and env: "env_good env" and calls: "\<forall>c \<in> set calls. call_ok c"
  shows "\<exists>s' L. thenM (rwm_msdu_init env) (msdu_run env calls) s = Inr ((), s') \<and> wifi_ok s' L {}
     \<and> (\<forall>i. client s i \<longrightarrow> subseq (sent_to i (log s') @ frames s' (L (Txing i))) (given (vif_info_tab s) (sta_ids s) calls i))
     \<and> (tim_key s 0 \<noteq> tim_key s 1 \<longrightarrow> (\<forall>i < 2. L (Txing i) \<noteq> [] \<longrightarrow> tim (log s') (tim_key s i)))"
proof -
  from msdu_init_run [OF b env] obtain s1 where
    1: "rwm_msdu_init env s = Inr ((), s1)" "wifi_ok s1 (\<lambda>_. []) {}" "vif_info_tab s1 = vif_info_tab s"
      "sta_info_tab s1 = sta_info_tab s" "log s1 = []" by blast
  from exec_run [OF 1(2) env calls] obtain s2 L where
    2: "msdu_run env calls s1 = Inr ((), s2)" "wifi_ok s2 L {}"
      "follows s1 (\<lambda>_. []) s2 L (given (vif_info_tab s1) (sta_ids s1) calls)" by blast
  have c: "client s1 i = client s i" "sta_ids s1 = sta_ids s" "tim_key s1 i = tim_key s i" for i
    using 1(3,4) by (simp_all add: client_def sta_ids_def tim_key_def)
  have p: "pend i s1 (\<lambda>_. []) = []" "tim_ok s1 (\<lambda>_. [])" for i using 1(5) by (simp_all add: pend_def frames_def tim_ok_def)
  have "map snd (sta_ids s2) = map snd (sta_ids s)" using 2(3) c(2) by (simp add: follows_def)
  then have k: "tim_key s2 i = tim_key s i" if "i < 2" for i
    using that wifi_sta4 [OF 2(2)] wifi_sta4 [OF 1(2)] 1(4) by (auto simp: sta_ids_def tim_key_def list_eq_iff_nth_eq)
  have "\<forall>i. client s i \<longrightarrow> subseq (pend i s2 L) (given (vif_info_tab s) (sta_ids s) calls i)"
    using 2(3) c p(1) 1(3) by (simp add: follows_def)
  moreover have "tim_key s 0 \<noteq> tim_key s 1 \<Longrightarrow> tim_ok s2 L" using 2(3) c p(2) by (simp add: follows_def)
  ultimately show ?thesis using 1(1) 2(1,2) k by (auto simp: pend_def tim_ok_def)
qed

section \<open>Properties\<close>

text \<open>A small world for the witnesses: one block of memory, one descriptor, an access point with two stations.\<close>

definition one_block :: "u32 \<Rightarrow> MSDU_NODE_T" where
  "one_block n = \<lparr>msdu_ptr = replicate (unat n - sizeof_MSDU_NODE_T) 0, len = 0, vif_idx = 0, sta_idx = 0, args = None, sync = 0\<rparr>"

definition demo_env :: msdu_env where
  "demo_env = \<lparr>cfg_use_ap_ps = True, cfg_bk_aware = False, cfg_wfa = False,
     os_malloc = (\<lambda>lg L n. if 1 \<in> L then None else Some (1, one_block n)),
     tx_txdesc_prepare = (\<lambda>lg q T. Some 0), mac_tid2ac = [1, 0, 0, 1, 2, 2, 3, 3], timer_pass = (\<lambda>lg i. True),
     pbuf_alloc = (\<lambda>lg P n. if 9 \<in> P then None else Some (9, replicate (unat n) 0))\<rparr>"

definition idle_desc :: txdesc where
  "idle_desc = \<lparr>desc_status = 0, h_flags = 0, orig_addr = (0, 0), packet_addr = (0, 0), packet_len = 0, status_desc_addr = (0, 0),
     eth_dest_addr = [], eth_src_addr = [], ethertype = 0, h_tid = 0, h_vif_idx = 0, h_staid = 0, callback = None,
     h_param = User_Param None, msdu_node = None, payl_len = 0, head_len = 0, tail_len = 0, hdr_len_802_2 = 0,
     buf_control_24G = False, agg_desc = None, cfm_status = 0, statinfo = 0\<rparr>"

definition demo_vif :: "u8 \<Rightarrow> u8 \<Rightarrow> vif_info_tag" where
  "demo_vif t ap = \<lparr>vif_mac_addr = replicate 6 1, vif_type = t, vif_index = 0, vif_active = True, ap_id = ap, acm = 0,
     default_key = None, vif_priv = None, vif_sta_list = []\<rparr>"

definition demo_sta :: "u8 \<Rightarrow> u16 \<Rightarrow> u8 \<Rightarrow> sta_info_tag" where
  "demo_sta m a ps = \<lparr>sta_mac_addr = replicate 6 m, aid = a, inst_nbr = 0, ps_state = ps, ctrl_port_state = 3, capa_flags = 0,
     cur_key = Some None\<rparr>"

definition demo_st :: wifi_st where
  "demo_st = \<lparr>nodes = (\<lambda>_. None), mlinks = \<lparr>lnext = (\<lambda>h. Some h), lprev = (\<lambda>h. Some h)\<rparr>, ap_ps_active = False,
     ps_timer = (\<lambda>_. \<lparr>t_handle = False, t_running = False\<rparr>), g_tid = 0, txd = (\<lambda>_. idle_desc), pck_cnt = 0,
     vif_info_tab = [demo_vif VIF_AP 2, demo_vif VIF_STA 3],
     sta_info_tab = [demo_sta 10 1 1, demo_sta 11 2 0, demo_sta 0 0 0, demo_sta 0 0 0], used_list = [0, 1],
     netifs = (\<lambda>_. \<lparr>hostname = [], hwaddr = [], if_state = None\<rparr>), io_queue = Some [], bmsg_rx_count = 0,
     pbufs = (\<lambda>_. None), raw_mem = (\<lambda>_. None), log = []\<rparr>"

lemma demo_env_good: "env_good demo_env"
  by (auto simp: env_good_def demo_env_def one_block_def split: if_splits)

lemma demo_boot: "boot demo_st"
  by (simp add: boot_def demo_st_def idle_desc_def demo_vif_def)

lemma demo_clients: "client demo_st 0" "client demo_st 1"
  by (simp_all add: client_def demo_st_def demo_vif_def VIF_AP_def VIF_STA_def)



text \<open>
  C8: the frames for a station of the access point stay in order. After any sequence of calls, the
  frames handed to the MAC library for the station, followed by those that still wait for it, are a
  subsequence of the frames that were given for it: none is invented, repeated or overtaken by a later
  one, whether it was sent at once or had to wait. Frames may be missing: a removed station, a timeout,
  or no memory or descriptor drops them.
\<close>

theorem msdu_order:
  assumes "boot s" and "env_good env" and "\<forall>c \<in> set calls. call_ok c" and "client s i"
  shows "\<exists>s' L. thenM (rwm_msdu_init env) (msdu_run env calls) s = Inr ((), s') \<and> wifi_ok s' L {}
    \<and> subseq (sent_to i (log s') @ frames s' (L (Txing i))) (given (vif_info_tab s) (sta_ids s) calls i)"
  using boot_run [OF assms(1-3)] assms(4) by blast

theorem msdu_order_witness:
  "\<exists>s' L. thenM (rwm_msdu_init demo_env) (msdu_run demo_env
      [Transfer 0 (replicate 60 10) 0 None, Sta_Ps 0 0, Txing_Msg 0, Desc_Done 0 0, Transfer 0 (replicate 20 10) 0 None]) demo_st
      = Inr ((), s') \<and> wifi_ok s' L {}
    \<and> subseq (sent_to 0 (log s') @ frames s' (L (Txing 0)))
        (given (vif_info_tab demo_st) (sta_ids demo_st)
          [Transfer 0 (replicate 60 10) 0 None, Sta_Ps 0 0, Txing_Msg 0, Desc_Done 0 0, Transfer 0 (replicate 20 10) 0 None] 0)"
  by (rule msdu_order [OF demo_boot demo_env_good _ demo_clients(1)]) (simp add: call_ok_def)

text \<open>
  C24: waiting frames are announced. As long as the two stations have different keys (interface and low byte
  of the association identifier), after any sequence of calls the beacon's bit is set for every
  station with a waiting frame.
\<close>

theorem msdu_announced:
  assumes "boot s" and "env_good env" and "\<forall>c \<in> set calls. call_ok c" and "tim_key s 0 \<noteq> tim_key s 1"
  shows "\<exists>s' L. thenM (rwm_msdu_init env) (msdu_run env calls) s = Inr ((), s') \<and> wifi_ok s' L {}
    \<and> (\<forall>i < 2. L (Txing i) \<noteq> [] \<longrightarrow> tim (log s') (tim_key s i))"
  using boot_run [OF assms(1-3)] assms(4) by blast

theorem msdu_announced_witness:
  "\<exists>s' L. thenM (rwm_msdu_init demo_env) (msdu_run demo_env [Transfer 0 (replicate 60 10) 0 None]) demo_st = Inr ((), s') \<and> wifi_ok s' L {}
    \<and> (\<forall>i < 2. L (Txing i) \<noteq> [] \<longrightarrow> tim (log s') (tim_key demo_st i))"
  by (rule msdu_announced [OF demo_boot demo_env_good])
    (simp_all add: call_ok_def tim_key_def demo_st_def demo_sta_def)

section \<open>What the assumptions exclude\<close>

text \<open>
  An active interface whose byte at the place of \<^verbatim>\<open>u.sta.ap_id\<close> is not below the number of stations, as may be for an access point, makes the
  transmission of any frame of at least 14 bytes on it index the station table out of its range.
\<close>

theorem transfer_bad_index:
  assumes "nodes s a = Some nd" and "110 \<le> length (msdu_ptr nd)" and "unat (vif_idx nd) < length (vif_info_tab s)" and "unat (vif_idx nd) < 2"
    and "vif_active (vif_info_tab s ! unat (vif_idx nd))" and "length (sta_info_tab s) \<le> unat (ap_id (vif_info_tab s ! unat (vif_idx nd)))"
  shows "rwm_transfer_node env (Some a) flag s = Inl Bad_Index"
  using assms by (simp add: rwm_transfer_node_def pick_queue_def rwm_mgmt_vif_idx2ptr_def vif_at_def sta_at_def)

text \<open>A MAC library that has no descriptor to hand out makes the transmission of a data frame dereference NULL.\<close>

theorem transfer_null_desc:
  assumes "nodes s a = Some nd" and "110 \<le> length (msdu_ptr nd)" and "pick_queue env (vif_idx nd) (drop 96 (msdu_ptr nd)) s = Inr (Some (tid, q), s)"
    and "tx_txdesc_prepare env (log s) q (txd s) = None"
  shows "rwm_transfer_node env (Some a) flag s = Inl Null_Deref"
  using assms by (simp add: rwm_transfer_node_def)

end
