(* ===== verification/Pbuf.thy ===== *)
theory Pbuf
  imports Rw_Msdu
begin

text \<open>
  The packet buffers of lwIP as far as the core thread uses them (\<^verbatim>\<open>lwip-2.0.2/src/core/pbuf.c\<close>: \<^verbatim>\<open>pbuf_ref\<close>, \<^verbatim>\<open>pbuf_free\<close>,
  \<^verbatim>\<open>pbuf_copy\<close>, \<^verbatim>\<open>pbuf_coalesce\<close>): chains of buffers with reference counts. The port switches the assertions of
  lwIP off (\<^verbatim>\<open>LWIP_NOASSERT\<close>), so counts wrap, and an error of \<^verbatim>\<open>pbuf_copy\<close> is ignored by its caller.
  A buffer of any kind is released by dropping it; the use of a released one is a fault.
\<close>

section \<open>Operations\<close>

type_synonym pheap = "nat \<Rightarrow> pbuf option"

definition pbuf_at :: "nat \<Rightarrow> (wifi_st, pbuf) prog" where
  "pbuf_at p = bindM (getM (\<lambda>s. pbufs s p)) (\<lambda>b. case b of None \<Rightarrow> failM Dangling | Some b \<Rightarrow> retM b)"

definition set_pbuf :: "nat \<Rightarrow> pbuf option \<Rightarrow> (wifi_st, unit) prog" where
  "set_pbuf p b = modM (\<lambda>s. s\<lparr>pbufs := (pbufs s)(p := b)\<rparr>)"

definition pbuf_ref :: "nat option \<Rightarrow> (wifi_st, unit) prog" where
  "pbuf_ref p = (case p of None \<Rightarrow> retM ()
   | Some a \<Rightarrow> bindM (pbuf_at a) (\<lambda>b. set_pbuf a (Some (b\<lparr>pref := pref b + 1\<rparr>))))"

text \<open>Buffers are released from the front of the chain as long as nobody else refers to them.\<close>

partial_function (option) free_loop :: "nat option \<Rightarrow> u8 \<Rightarrow> wifi_st \<Rightarrow> (fault + u8 \<times> wifi_st) option" where
  "free_loop p count s = (case p of
     None \<Rightarrow> Some (Inr (count, s))
   | Some a \<Rightarrow> (case pbufs s a of
       None \<Rightarrow> Some (Inl Dangling)
     | Some b \<Rightarrow>
         if pref b - 1 = 0
         then free_loop (pnext b) (count + 1) (s\<lparr>pbufs := (pbufs s)(a := None)\<rparr>)
         else Some (Inr (count, s\<lparr>pbufs := (pbufs s)(a := Some (b\<lparr>pref := pref b - 1\<rparr>))\<rparr>))))"

definition pbuf_free :: "nat option \<Rightarrow> (wifi_st, u8) prog" where
  "pbuf_free p = (case p of None \<Rightarrow> retM 0
   | Some a \<Rightarrow> (\<lambda>s. case free_loop (Some a) 0 s of None \<Rightarrow> Inl Busy_Hang | Some r \<Rightarrow> r))"

text \<open>
  Copying between two chains, with a position in each. The loop gives up when the target ends before the
  source or when a buffer that completes a packet has a successor.
\<close>

definition ERR_OK :: int where "ERR_OK = 0"
definition ERR_VAL :: int where "ERR_VAL = -6"
definition ERR_ARG :: int where "ERR_ARG = -16"

definition dangling :: "pheap \<Rightarrow> nat option \<Rightarrow> bool" where
  "dangling P p = (case p of None \<Rightarrow> False | Some a \<Rightarrow> P a = None)"

definition queued :: "pheap \<Rightarrow> nat option \<Rightarrow> bool" where
  "queued P p = (case p of None \<Rightarrow> False | Some a \<Rightarrow> (case P a of None \<Rightarrow> False
   | Some b \<Rightarrow> length (payload b) = unat (tot_len b) \<and> pnext b \<noteq> None))"

definition copy_part :: "pheap \<Rightarrow> nat \<Rightarrow> pbuf \<Rightarrow> nat \<Rightarrow> pbuf \<Rightarrow> nat \<Rightarrow> nat \<Rightarrow> pheap" where
  "copy_part P to tb offset_to fb offset_from n = P(to \<mapsto> tb\<lparr>payload :=
     take offset_to (payload tb) @ take n (drop offset_from (payload fb)) @ drop (offset_to + n) (payload tb)\<rparr>)"

partial_function (option) copy_loop :: "nat option \<Rightarrow> nat \<Rightarrow> nat option \<Rightarrow> nat \<Rightarrow> pheap \<Rightarrow> (fault + int \<times> pheap) option" where
  "copy_loop p_to offset_to p_from offset_from P =
     (if p_to = None \<or> p_from = None then Some (Inl Null_Deref)
      else if dangling P p_to \<or> dangling P p_from then Some (Inl Dangling)
      else
        let tb = the (P (the p_to)); fb = the (P (the p_from));
            n = (if length (payload tb) - offset_to \<ge> length (payload fb) - offset_from
                 then length (payload fb) - offset_from else length (payload tb) - offset_to);
            P1 = copy_part P (the p_to) tb offset_to fb offset_from n;
            ended = (offset_from + n \<ge> length (payload fb)); full = (offset_to + n = length (payload tb));
            from1 = (if ended then pnext fb else p_from); to1 = (if full then pnext tb else p_to)
        in if full \<and> to1 = None \<and> from1 \<noteq> None then Some (Inr (ERR_ARG, P1))
           else if dangling P1 from1 \<or> dangling P1 to1 then Some (Inl Dangling)
           else if queued P1 from1 \<or> queued P1 to1 then Some (Inr (ERR_VAL, P1))
           else if from1 = None then Some (Inr (ERR_OK, P1))
           else copy_loop to1 (if full then 0 else offset_to + n) from1 (if ended then 0 else offset_from + n) P1)"

definition pbuf_copy :: "nat \<Rightarrow> nat \<Rightarrow> (wifi_st, int) prog" where
  "pbuf_copy q p = bindM (pbuf_at q) (\<lambda>tb. bindM (pbuf_at p) (\<lambda>fb.
     if tot_len tb < tot_len fb then retM ERR_ARG
     else (\<lambda>s. case copy_loop (Some q) 0 (Some p) 0 (pbufs s) of
         None \<Rightarrow> Inl Busy_Hang
       | Some (Inl e) \<Rightarrow> Inl e
       | Some (Inr (err, P)) \<Rightarrow> Inr (err, s\<lparr>pbufs := P\<rparr>))))"

definition pbuf_coalesce :: "msdu_env \<Rightarrow> nat \<Rightarrow> (wifi_st, nat) prog" where
  "pbuf_coalesce env p = bindM (pbuf_at p) (\<lambda>b. case pnext b of None \<Rightarrow> retM p
   | Some _ \<Rightarrow>
      bindM (getM (\<lambda>s. pbuf_alloc env (log s) (dom (pbufs s)) (tot_len b))) (\<lambda>r. case r of None \<Rightarrow> retM p
      | Some (q, bs) \<Rightarrow>
         thenM (set_pbuf q (Some \<lparr>payload = bs, tot_len = tot_len b, pnext = None, pref = 1\<rparr>))
        (thenM (pbuf_copy q p)
        (thenM (pbuf_free (Some p)) (retM q)))))"

section \<open>Chains\<close>

text \<open>A packet: a chain of buffers, none empty, each with the number of bytes from it to the end.\<close>

definition bytes :: "pheap \<Rightarrow> nat list \<Rightarrow> u8 list" where
  "bytes P as = concat (map (\<lambda>a. payload (the (P a))) as)"

fun pchain :: "pheap \<Rightarrow> nat option \<Rightarrow> nat list \<Rightarrow> bool" where
  "pchain P p [] \<longleftrightarrow> p = None"
| "pchain P p (a # as) \<longleftrightarrow> p = Some a \<and> (case P a of None \<Rightarrow> False
   | Some b \<Rightarrow> payload b \<noteq> [] \<and> unat (tot_len b) = length (bytes P (a # as)) \<and> pchain P (pnext b) as)"

lemma bytes_simps [simp]: "bytes P [] = []" "bytes P (a # as) = payload (the (P a)) @ bytes P as"
  by (simp_all add: bytes_def)

lemma bytes_upd [simp]: "a \<notin> set as \<Longrightarrow> bytes (P(a := x)) as = bytes P as"
  by (induction as) auto

lemma pchain_upd: "a \<notin> set as \<Longrightarrow> pchain (P(a := x)) p as = pchain P p as"
  by (induction as arbitrary: p) (auto split: option.splits)

lemma pchain_dom: "pchain P p as \<Longrightarrow> set as \<subseteq> dom P"
  by (induction as arbitrary: p) (auto split: option.splits)

lemma pchain_bytes: "pchain P p as \<Longrightarrow> as \<noteq> [] \<Longrightarrow> bytes P as \<noteq> []"
  by (cases as) (auto split: option.splits)

lemma pchain_front: "pchain P p (a # as) \<Longrightarrow> as \<noteq> [] \<Longrightarrow> \<not> queued P (Some a)"
  using pchain_bytes by (fastforce simp: queued_def split: option.splits)

lemma pchain_next: "pchain P p (a # as) \<Longrightarrow> pnext (the (P a)) = (case as of [] \<Rightarrow> None | a' # _ \<Rightarrow> Some a')"
  by (cases as) (auto split: option.splits)

lemma pchain_unqueued: "pchain P (Some a) as \<Longrightarrow> \<not> queued P (Some a)"
proof (cases as)
  case (Cons a' as')
  assume c: "pchain P (Some a) as"
  then show ?thesis using Cons pchain_front [of P "Some a" a' as'] pchain_next [of P "Some a" a' as']
    by (cases "as' = []") (auto simp: queued_def split: option.splits)
qed simp

text \<open>A chain that fits exactly into one buffer ends up in it, byte for byte.\<close>

lemma copy_chain:
  assumes "pchain P (Some p) as" and "q \<notin> set as" and "P q = Some tb" and "pnext tb = None"
    and "length (payload tb) = n + length (bytes P as)"
  shows "copy_loop (Some q) n (Some p) 0 P = Some (Inr (ERR_OK, P(q \<mapsto> tb\<lparr>payload := take n (payload tb) @ bytes P as\<rparr>)))"
  using assms
proof (induction as arbitrary: p n P tb)
  case Nil
  then show ?case by simp
next
  case (Cons a as)
  from Cons.prems(1,2) obtain b where b: "P a = Some b" "payload b \<noteq> []" "pchain P (pnext b) as" "p = a" "a \<noteq> q"
    by (auto split: option.splits)
  let ?t = "tb\<lparr>payload := take n (payload tb) @ payload b @ drop (n + length (payload b)) (payload tb)\<rparr>"
  have len: "length (payload tb) = n + length (payload b) + length (bytes P as)" using Cons.prems(5) b by simp
  have part: "copy_part P q tb n b 0 (length (payload b)) = P(q \<mapsto> ?t)" by (simp add: copy_part_def)
  show ?case
  proof (cases "as = []")
    case True
    with b len Cons.prems show ?thesis
      by (subst copy_loop.simps) (simp add: dangling_def queued_def part Let_def)
  next
    case False
    then obtain a' where a': "pnext b = Some a'" using b(3) by (cases as) auto
    have q: "q \<notin> set as" using Cons.prems(2) by simp
    have ch: "pchain (P(q \<mapsto> ?t)) (Some a') as" using b(3) a' by (simp add: pchain_upd q)
    have more: "bytes P as \<noteq> []" using pchain_bytes [OF b(3) False] .
    have ok: "\<not> queued (P(q \<mapsto> ?t)) (Some a')" "P a' \<noteq> None" "a' \<noteq> q"
      using pchain_unqueued [OF ch] ch q False by (cases as; auto split: option.splits if_splits)+
    have "copy_loop (Some q) n (Some p) 0 P = copy_loop (Some q) (n + length (payload b)) (Some a') 0 (P(q \<mapsto> ?t))"
      using b(1,4) len a' more ok Cons.prems(3,4)
      by (subst copy_loop.simps) (simp add: dangling_def part Let_def, auto simp: queued_def)
    also have "\<dots> = Some (Inr (ERR_OK, P(q \<mapsto> tb\<lparr>payload := take n (payload tb) @ bytes P (a # as)\<rparr>)))"
      by (subst Cons.IH [OF ch q, where tb = ?t]) (use Cons.prems(4) len b(1) q in simp_all)
    finally show ?thesis .
  qed
qed

lemma pbuf_at_run [simp]: "pbufs s p = Some b \<Longrightarrow> pbuf_at p s = Inr (b, s)"
  by (simp add: pbuf_at_def)

lemma pbuf_ref_run: "pbufs s p = Some b \<Longrightarrow> pbuf_ref (Some p) s = Inr ((), s\<lparr>pbufs := (pbufs s)(p \<mapsto> b\<lparr>pref := pref b + 1\<rparr>)\<rparr>)"
  by (simp add: pbuf_ref_def set_pbuf_def)

lemma pbuf_free_shared:
  "pbufs s p = Some b \<Longrightarrow> pref b \<noteq> 1 \<Longrightarrow> pbuf_free (Some p) s = Inr (0, s\<lparr>pbufs := (pbufs s)(p \<mapsto> b\<lparr>pref := pref b - 1\<rparr>)\<rparr>)"
  by (simp add: pbuf_free_def free_loop.simps)

lemma pbuf_free_last:
  "pbufs s p = Some b \<Longrightarrow> pref b = 1 \<Longrightarrow> pnext b = None \<Longrightarrow> pbuf_free (Some p) s = Inr (1, s\<lparr>pbufs := (pbufs s)(p := None)\<rparr>)"
  by (simp add: pbuf_free_def free_loop.simps)

text \<open>What is relied on: room for a packet buffer is new and as large as asked for.\<close>

definition pool_ok :: "msdu_env \<Rightarrow> bool" where
  "pool_ok env \<longleftrightarrow> (\<forall>lg D n q bs. pbuf_alloc env lg D n = Some (q, bs) \<longrightarrow> q \<notin> D \<and> length bs = unat n)"

text \<open>
  A chain that somebody else refers to as well is copied into one new buffer with the same bytes and loses one reference;
  without room it is handed back as it was.
\<close>

lemma coalesce_run:
  assumes ch: "pchain (pbufs s) (Some p) (p # as)" and as: "as \<noteq> []" and b: "pbufs s p = Some b" and ref: "pref b \<noteq> 1"
    and pool: "pool_ok env"
  shows "pbuf_coalesce env p s = Inr (p, s) \<or>
    (\<exists>q c. q \<notin> dom (pbufs s) \<and> payload c = bytes (pbufs s) (p # as) \<and> pnext c = None \<and> pref c = 1
      \<and> pbuf_coalesce env p s = Inr (q, s\<lparr>pbufs := (pbufs s)(p \<mapsto> b\<lparr>pref := pref b - 1\<rparr>, q \<mapsto> c)\<rparr>))"
proof (cases "pbuf_alloc env (log s) (dom (pbufs s)) (tot_len b)")
  case None
  have "pnext b \<noteq> None" using pchain_next [OF ch] b as by (auto split: list.splits)
  with None b show ?thesis by (auto simp: pbuf_coalesce_def bindM_run)
next
  case (Some r)
  obtain q bs where r: "r = (q, bs)" by (cases r)
  have nx: "pnext b \<noteq> None" using pchain_next [OF ch] b as by (auto split: list.splits)
  from pool Some r have q: "q \<notin> dom (pbufs s)" "length bs = unat (tot_len b)" by (auto simp: pool_ok_def)
  let ?c = "\<lparr>payload = bs, tot_len = tot_len b, pnext = None, pref = 1\<rparr> :: pbuf"
  let ?P = "(pbufs s)(q \<mapsto> ?c)"
  have out: "q \<notin> set (p # as)" "q \<noteq> p" using pchain_dom [OF ch] q(1) by auto
  have tot: "unat (tot_len b) = length (bytes (pbufs s) (p # as))" using ch b by simp
  have "pchain ?P (Some p) (p # as)" using ch out(1) by (metis pchain_upd)
  moreover have eq: "bytes ?P (p # as) = bytes (pbufs s) (p # as)" using bytes_upd [OF out(1)] .
  ultimately have "copy_loop (Some q) 0 (Some p) 0 ?P = Some (Inr (ERR_OK, ?P(q \<mapsto> ?c\<lparr>payload := take 0 (payload ?c) @ bytes ?P (p # as)\<rparr>)))"
    by (intro copy_chain [OF _ out(1)]) (use q(2) tot eq in simp_all)
  then have "copy_loop (Some q) 0 (Some p) 0 ?P = Some (Inr (ERR_OK, ?P(q \<mapsto> ?c\<lparr>payload := bytes (pbufs s) (p # as)\<rparr>)))"
    unfolding eq by simp
  then have "pbuf_copy q p (s\<lparr>pbufs := ?P\<rparr>) = Inr (ERR_OK, s\<lparr>pbufs := (pbufs s)(q \<mapsto> ?c\<lparr>payload := bytes (pbufs s) (p # as)\<rparr>)\<rparr>)"
    using b out(2) by (simp add: pbuf_copy_def bindM_run)
  moreover have "pbuf_free (Some p) (s\<lparr>pbufs := (pbufs s)(q \<mapsto> ?c\<lparr>payload := bytes (pbufs s) (p # as)\<rparr>)\<rparr>)
      = Inr (0, s\<lparr>pbufs := (pbufs s)(p \<mapsto> b\<lparr>pref := pref b - 1\<rparr>, q \<mapsto> ?c\<lparr>payload := bytes (pbufs s) (p # as)\<rparr>)\<rparr>)"
    using b out(2) ref by (subst pbuf_free_shared [where b = b]) (simp_all add: fun_upd_twist)
  ultimately have "pbuf_coalesce env p s = Inr (q, s\<lparr>pbufs := (pbufs s)(p \<mapsto> b\<lparr>pref := pref b - 1\<rparr>, q \<mapsto> ?c\<lparr>payload := bytes (pbufs s) (p # as)\<rparr>)\<rparr>)"
    using b Some r nx by (auto simp: pbuf_coalesce_def set_pbuf_def bindM_run)
  then show ?thesis using q(1) by (intro disjI2 exI [of _ q] exI [of _ "?c\<lparr>payload := bytes (pbufs s) (p # as)\<rparr>"]) simp
qed

end
