(* ===== verification/Core_Thread.thy ===== *)
theory Core_Thread
  imports Msdu_Props Pbuf
begin

text \<open>
  The core thread of \<^verbatim>\<open>app/app.c\<close> (built with \<^verbatim>\<open>CFG_USE_STA_PS\<close> and without the music player): interrupts
  and other threads post messages into one queue of 64 entries, the thread takes them out and
  calls the MAC library and the functions of \<^verbatim>\<open>rw_msdu.c\<close>. Frames of lwIP come as chains of
  packet buffers with reference counts (\<open>Pbuf\<close>).

  Calls that leave these sources are entries of the log. The work of \<^verbatim>\<open>ke_evt_core_scheduler\<close>
  happens in the library; what it reports back are calls of their own (\<open>msdu_call\<close>).
\<close>

section \<open>The queue\<close>

definition post :: "bmsg \<Rightarrow> (wifi_st, int) prog" where
  "post m = rtos_push_to_queue \<lparr>msg_type = m, msg_sema = None\<rparr>"

definition rtos_is_queue_empty :: "(wifi_st, bool) prog" where
  "rtos_is_queue_empty = bindM (getM io_queue) (\<lambda>q. case q of None \<Rightarrow> failM Null_Deref | Some ms \<Rightarrow> retM (ms = []))"

definition rtos_pop_from_queue :: "(wifi_st, BUS_MSG_T option) prog" where
  "rtos_pop_from_queue = bindM (getM io_queue) (\<lambda>q. case q of
     None \<Rightarrow> failM Null_Deref
   | Some [] \<Rightarrow> retM None
   | Some (m # ms) \<Rightarrow> thenM (modM (\<lambda>s. s\<lparr>io_queue := Some ms\<rparr>)) (retM (Some m)))"

definition bmsg_is_empty :: "(wifi_st, int) prog" where
  "bmsg_is_empty = bindM rtos_is_queue_empty (\<lambda>e. retM (if \<not> e then 0 else 1))"

definition bmsg_tx_raw_cb_sender :: "nat \<Rightarrow> u32 \<Rightarrow> nat option \<Rightarrow> nat option \<Rightarrow> (wifi_st, int) prog" where
  "bmsg_tx_raw_cb_sender buffer n cb param = post (BMSG_TX_RAW_CB_TYPE buffer n cb param)"

definition bmsg_skt_tx_sender :: "nat \<Rightarrow> (wifi_st, unit) prog" where
  "bmsg_skt_tx_sender arg = bindM (post (BMSG_SKT_TX_TYPE arg)) (\<lambda>_. retM ())"

definition bmsg_null_sender :: "(wifi_st, unit) prog" where
  "bmsg_null_sender = bindM rtos_is_queue_empty (\<lambda>e. if \<not> e then retM () else bindM (post BMSG_NULL_TYPE) (\<lambda>_. retM ()))"

definition bmsg_rx_sender :: "u32 \<Rightarrow> (wifi_st, unit) prog" where
  "bmsg_rx_sender arg = bindM (getM bmsg_rx_count) (\<lambda>n.
     if n \<ge> 2 then retM ()
     else thenM (modM (\<lambda>s. s\<lparr>bmsg_rx_count := bmsg_rx_count s + 1\<rparr>))
         (bindM (post (BMSG_RX_TYPE arg)) (\<lambda>_. retM ())))"

definition bmsg_tx_sender :: "nat \<Rightarrow> u32 \<Rightarrow> (wifi_st, int) prog" where
  "bmsg_tx_sender p vif =
     thenM (pbuf_ref (Some p))
    (bindM (post (BMSG_TX_TYPE p vif)) (\<lambda>ret.
     thenM (if ret \<noteq> kNoErr then bindM (pbuf_free (Some p)) (\<lambda>_. retM ()) else retM ())
           (retM ret)))"

definition bmsg_tx_raw_sender :: "u8 list \<Rightarrow> u16 \<Rightarrow> (wifi_st, int) prog" where
  "bmsg_tx_raw_sender pkt n =
     bindM (post (BMSG_TX_RAW_TYPE pkt n)) (\<lambda>ret.
     thenM (whenM (ret \<noteq> kNoErr) (logM (Raw_Freed pkt))) (retM ret))"

definition bmsg_ioctl_sender :: "nat \<Rightarrow> (wifi_st, int) prog" where
  "bmsg_ioctl_sender arg = post (BMSG_IOCTL_TYPE arg)"

definition bmsg_music_sender :: "nat \<Rightarrow> (wifi_st, unit) prog" where
  "bmsg_music_sender arg = bindM (post (BMSG_MEDIA_TYPE arg)) (\<lambda>_. retM ())"

definition bmsg_ps_sender :: "u8 \<Rightarrow> (wifi_st, unit) prog" where
  "bmsg_ps_sender arg = bindM (getM io_queue) (\<lambda>q.
     if q \<noteq> None then bindM (post (BMSG_STA_PS_TYPE arg)) (\<lambda>_. retM ()) else retM ())"

section \<open>The handlers\<close>

definition bmsg_ps_handler_rf_ps_mode_real_wakeup :: "(wifi_st, int) prog" where
  "bmsg_ps_handler_rf_ps_mode_real_wakeup = thenM (logM Ps_Wakeup) (retM 0)"

definition wake_rf :: "(wifi_st, unit) prog" where
  "wake_rf = thenM (logM Data_Prevent) (thenM bmsg_ps_handler_rf_ps_mode_real_wakeup (logM Dtim_Wakeup))"

definition bmsg_rx_handler :: "u32 \<Rightarrow> (wifi_st, unit) prog" where
  "bmsg_rx_handler arg =
     thenM (modM (\<lambda>s. s\<lparr>bmsg_rx_count := (if bmsg_rx_count s > 0 then bmsg_rx_count s - 1 else bmsg_rx_count s)\<rparr>))
           (logM (Rx_Evt arg))"

definition bmsg_skt_tx_handler :: "nat \<Rightarrow> (wifi_st, unit) prog" where
  "bmsg_skt_tx_handler arg = logM (Hapd_Rx arg)"

text \<open>A chain that cannot be copied into one buffer is dropped.\<close>

definition bmsg_tx_handler :: "msdu_env \<Rightarrow> nat \<Rightarrow> u32 \<Rightarrow> (wifi_st, unit) prog" where
  "bmsg_tx_handler env p n =
     (let vif = ucast n :: u8 in
      bindM (pbuf_at p) (\<lambda>b.
      bindM (case pnext b of None \<Rightarrow> retM (p, True)
             | Some _ \<Rightarrow> bindM (pbuf_coalesce env p) (\<lambda>q. retM (q, q \<noteq> p))) (\<lambda>(q, send).
      thenM (if send
             then thenM wake_rf
                 (bindM (pbuf_at q) (\<lambda>c.
                  bindM (rwm_transfer env vif (payload c) (of_nat (length (payload c))) 0 None) (\<lambda>_. retM ())))
             else retM ())
            (bindM (pbuf_free (Some q)) (\<lambda>_. retM ())))))"

text \<open>The frame is read from the sender's block now.\<close>

definition bmsg_tx_raw_cb_handler :: "msdu_env \<Rightarrow> nat \<Rightarrow> u32 \<Rightarrow> nat option \<Rightarrow> nat option \<Rightarrow> (wifi_st, unit) prog" where
  "bmsg_tx_raw_cb_handler env buffer n cb param =
     bindM (getM (\<lambda>s. raw_mem s buffer)) (\<lambda>block.
     bindM (rwm_raw_frame_with_cb env block n cb param) (\<lambda>_. retM ()))"

text \<open>Unlike \<^verbatim>\<open>rwm_raw_frame_with_cb\<close> it leaves the callback of the descriptor as it was.\<close>

definition bmsg_tx_raw_handler :: "msdu_env \<Rightarrow> u8 list \<Rightarrow> u16 \<Rightarrow> (wifi_st, unit) prog" where
  "bmsg_tx_raw_handler env pkt n =
     thenM
      (bindM (rwm_tx_node_alloc env (ucast n)) (\<lambda>r. case r of None \<Rightarrow> retM ()
       | Some a \<Rightarrow>
          thenM (rwm_tx_msdu_renew pkt (ucast n) a)
         (bindM (getM (\<lambda>s. (tx_txdesc_prepare env (log s) AC_VI (txd s), txd s))) (\<lambda>(p, ds).
          case p of None \<Rightarrow> rwm_node_free (Some a)
          | Some d \<Rightarrow>
             if desc_status (ds d) = TXDESC_STA_USED then rwm_node_free (Some a)
             else
               thenM (upd_desc d (raw_desc a n))
              (thenM wake_rf
                     (push_event Txl_Push d a AC_VI))))))
      (logM (Raw_Freed pkt))"

definition bmsg_ioctl_handler :: "nat \<Rightarrow> (wifi_st, unit) prog" where
  "bmsg_ioctl_handler arg = logM (Ke_Msg arg)"

definition bmsg_music_handler :: "nat \<Rightarrow> (wifi_st, unit) prog" where
  "bmsg_music_handler arg = retM ()"

definition bmsg_txing_handler :: "msdu_env \<Rightarrow> u8 \<Rightarrow> (wifi_st, unit) prog" where
  "bmsg_txing_handler env i = rwm_msdu_send_txing_node env i"

definition bmsg_ps_handler :: "u8 \<Rightarrow> (wifi_st, unit) prog" where
  "bmsg_ps_handler arg = logM (Ps_Msg arg)"

definition PS_BMSG_IOCTL_RF_DISANABLE :: u8 where "PS_BMSG_IOCTL_RF_DISANABLE = 1"

text \<open>
  One message: the switch answers whether the kernel's scheduler is skipped and, for a power-save
  message that is not the urgent one, what is left to do after it.
\<close>

definition core_switch :: "msdu_env \<Rightarrow> bmsg \<Rightarrow> (wifi_st, bool \<times> u8 option) prog" where
  "core_switch env m = (case m of
     BMSG_STA_PS_TYPE arg \<Rightarrow>
       if arg = PS_BMSG_IOCTL_RF_DISANABLE then thenM (bmsg_ps_handler arg) (retM (False, None))
       else retM (False, Some arg)
   | BMSG_RX_TYPE arg \<Rightarrow> thenM (bmsg_rx_handler arg) (retM (False, None))
   | BMSG_TX_TYPE p n \<Rightarrow> thenM (bmsg_tx_handler env p n) (retM (False, None))
   | BMSG_SKT_TX_TYPE arg \<Rightarrow> thenM (bmsg_skt_tx_handler arg) (retM (False, None))
   | BMSG_IOCTL_TYPE arg \<Rightarrow> thenM (bmsg_ioctl_handler arg) (retM (False, None))
   | BMSG_MEDIA_TYPE arg \<Rightarrow> thenM (bmsg_music_handler arg) (retM (True, None))
   | BMSG_TXING_TYPE i \<Rightarrow>
       if cfg_use_ap_ps env then thenM (bmsg_txing_handler env i) (retM (False, None)) else retM (False, None)
   | BMSG_TX_RAW_TYPE pkt n \<Rightarrow> thenM (bmsg_tx_raw_handler env pkt n) (retM (False, None))
   | BMSG_TX_RAW_CB_TYPE b n cb par \<Rightarrow> thenM (bmsg_tx_raw_cb_handler env b n cb par) (retM (False, None))
   | BMSG_NULL_TYPE \<Rightarrow> retM (False, None))"

text \<open>One round of \<^verbatim>\<open>core_thread_main\<close>; with an empty queue the thread waits and the state stands still.\<close>

definition core_round :: "msdu_env \<Rightarrow> (wifi_st, unit) prog" where
  "core_round env = bindM rtos_pop_from_queue (\<lambda>r. case r of None \<Rightarrow> retM ()
   | Some msg \<Rightarrow>
      bindM (core_switch env (msg_type msg)) (\<lambda>(ke_skip, ps).
      thenM (case msg_sema msg of None \<Rightarrow> retM () | Some h \<Rightarrow> logM (Sema_Set h))
     (thenM (whenM (\<not> ke_skip) (logM Ke_Sched))
     (thenM (case ps of None \<Rightarrow> retM () | Some arg \<Rightarrow> bmsg_ps_handler arg)
            (logM Sleep_Check)))))"

text \<open>Start and end of the thread; \<open>queue\<close> and \<open>thread\<close> say whether the kernel can make them.\<close>

definition core_thread_uninit :: "(wifi_st, unit) prog" where
  "core_thread_uninit = modM (\<lambda>s. s\<lparr>io_queue := None\<rparr>)"

definition core_thread_init :: "bool \<Rightarrow> bool \<Rightarrow> (wifi_st, unit) prog" where
  "core_thread_init queue thread =
     thenM (modM (\<lambda>s. s\<lparr>io_queue := (if queue then Some [] else None)\<rparr>))
           (if \<not> queue \<or> \<not> thread then core_thread_uninit else retM ())"

section \<open>A station that woke up gets its frames\<close>

text \<open>
  The MAC library has \<open>m\<close> descriptors and hands out a free one as long as there is one; no access category
  needs admission.
\<close>

definition idle :: "nat \<Rightarrow> (nat \<Rightarrow> txdesc) \<Rightarrow> nat set" where
  "idle m T = {d. d < m \<and> desc_status (T d) \<noteq> TXDESC_STA_USED}"

definition serves :: "msdu_env \<Rightarrow> nat \<Rightarrow> bool" where
  "serves env m \<longleftrightarrow> (\<forall>lg q T. idle m T \<noteq> {} \<longrightarrow> (\<exists>d \<in> idle m T. tx_txdesc_prepare env lg q T = Some d))"

definition open_acs :: "wifi_st \<Rightarrow> bool" where
  "open_acs s \<longleftrightarrow> (\<forall>v \<in> set (vif_info_tab s). acm v = 0)"

lemma admitted_open: "admitted 0 i = Some i"
  by (simp add: admitted.simps)

lemma pick_queue_open:
  assumes "tab_ok s" and "env_good env" and "unat v < 2" and "open_acs s"
  shows "\<exists>tid q. pick_queue env v bs s = Inr (Some (tid, q), s)"
proof -
  let ?v = "vif_info_tab s ! unat v"
  have "?v \<in> set (vif_info_tab s)" using assms(1,3) by (simp add: tab_ok_def)
  then have "vif_active ?v \<Longrightarrow> unat (ap_id ?v) < 4" "acm ?v = 0" using assms(1,4) by (simp_all add: tab_ok_def open_acs_def)
  then show ?thesis
    using assms by (auto simp: pick_queue_def rwm_mgmt_vif_idx2ptr_def classify8021d_def env_good_def bindM_run admitted_open)
qed

lemma transfer_sends:
  assumes ok: "wifi_ok s L F" and env: "env_good env" "serves env m" and a: "a \<in> F" "nodes s a = Some nd"
    and v: "unat (vif_idx nd) < 2" and sy: "sync nd \<noteq> 0 \<longrightarrow> args nd \<noteq> None" and o: "open_acs s" and free: "idle m (txd s) \<noteq> {}"
  shows "\<exists>s' d t q. rwm_transfer_node env (Some a) flag s = Inr (0, s') \<and> wifi_ok s' L (F - {a}) \<and> outer s' = outer s
    \<and> nodes s' = nodes s \<and> log s' = log s @ [Txu_Push d t (content nd) q] \<and> h_staid t = sta_idx nd
    \<and> d \<in> idle m (txd s) \<and> idle m (txd s') = idle m (txd s) - {d}"
proof -
  have tab: "tab_ok s" using ok by (simp add: wifi_ok_def)
  have nk: "length (msdu_ptr nd) = 112 + unat (len nd)"
    using mem_node [of "nodes s" "txd s" L F a] ok a by (auto simp: wifi_ok_def node_ok_def)
  obtain tid q where q: "pick_queue env (vif_idx nd) (drop 96 (msdu_ptr nd)) s = Inr (Some (tid, q), s)"
    using pick_queue_open [OF tab env(1) v o] by blast
  obtain d where d: "tx_txdesc_prepare env (log s) q (txd s) = Some d" "d \<in> idle m (txd s)"
    using env(2) free unfolding serves_def by blast
  define eth where "eth = take 14 (drop 96 (msdu_ptr nd))"
  have rd: "rd_at (msdu_ptr nd) 96 14 s = Inr (eth, s)" using nk by (simp add: eth_def)
  define t where "t = data_desc d a nd eth flag tid
    ((txd s d)\<lparr>desc_status := TXDESC_STA_USED, eth_dest_addr := take 6 eth, eth_src_addr := take 6 (drop 6 eth)\<rparr>)"
  let ?s = "s\<lparr>txd := (txd s)(d := t), log := log s @ [Txu_Push d t (content nd) q]\<rparr>"
  have idle: "desc_status (txd s d) \<noteq> TXDESC_STA_USED" using d(2) by (simp add: idle_def)
  have t: "msdu_node t = Some a" "desc_status t = TXDESC_STA_USED" "h_staid t = sta_idx nd"
    "callback t = Some Data_Tx_Cb \<Longrightarrow> h_param t = Desc_Param d \<and> (\<forall>nd. nodes s a = Some nd \<longrightarrow> args nd \<noteq> None)"
    using a(2) sy by (auto simp: t_def data_desc_def Let_def split: if_splits)
  have "rwm_transfer_node env (Some a) flag s = Inr (0, ?s)"
    using q d(1) rd a(2) idle
    by (simp add: rwm_transfer_node_def rwm_txdesc_copy_def push_event_def content_def t_def)
  moreover have "wifi_ok ?s L (F - {a})" by (rule wifi_give [OF ok a(1) idle t(1,2,4)]) simp_all
  moreover have "idle m (txd ?s) = idle m (txd s) - {d}" using t(2) by (auto simp: idle_def)
  ultimately show ?thesis using t(3) d(2) by (intro exI [of _ ?s] exI [of _ d] exI [of _ t] exI [of _ q]) simp
qed

text \<open>One message of the core thread for an awake station.\<close>

lemma send_one:
  assumes ok: "wifi_ok s L {}" and env: "env_good env" "serves env m" and i: "unat i < 2" and L: "L (Txing (unat i)) = a # as"
    and awake: "ps_state (sta_info_tab s ! unat i) = 0" and o: "open_acs s" and free: "idle m (txd s) \<noteq> {}"
    and q: "io_queue s = Some ms" "length ms < CORE_QITEM_COUNT"
  shows "\<exists>s' d. rwm_msdu_send_txing_node env i s = Inr ((), s') \<and> wifi_ok s' (L(Txing (unat i) := as)) {}
    \<and> vif_info_tab s' = vif_info_tab s \<and> sta_info_tab s' = sta_info_tab s \<and> nodes s' = nodes s
    \<and> sent_to (unat i) (log s') = sent_to (unat i) (log s) @ [content (the (nodes s a))]
    \<and> (as = [] \<longrightarrow> \<not> tim (log s') (tim_key s (unat i)))
    \<and> io_queue s' = Some (if as = [] then ms else ms @ [\<lparr>msg_type = BMSG_TXING_TYPE i, msg_sema = None\<rparr>])
    \<and> d \<in> idle m (txd s) \<and> idle m (txd s') = idle m (txd s) - {d}"
proof -
  let ?h = "Txing (unat i)"
  from wifi_pop [OF ok Txing_head [OF i]] obtain l where
    l: "rwm_pop_txing_list i s = Inr (Some a, s\<lparr>mlinks := l\<rparr>)" "wifi_ok (s\<lparr>mlinks := l\<rparr>) (L(?h := as)) {a}"
    using i L by (auto simp: rwm_pop_txing_list_def)
  let ?s1 = "s\<lparr>mlinks := l, pck_cnt := pck_cnt s + 1\<rparr>"
  have w1: "wifi_ok ?s1 (L(?h := as)) {a}" using l(2) by (simp add: wifi_ok_def tab_ok_def)
  from count_run [OF l(2) i] obtain n where
    n: "rwm_txling_list_node_count i (s\<lparr>mlinks := l\<rparr>) = Inr (n, s\<lparr>mlinks := l\<rparr>)" "n = 0 \<longleftrightarrow> as = []" by auto
  obtain nd where nd: "nodes s a = Some nd" using l(2) mem_node by (fastforce simp: wifi_ok_def)
  have ad: "addressed (unat i) nd" using ok memD(6) [of "nodes s" "txd s" L "{}" "unat i" a nd] nd i L by (simp add: wifi_ok_def)
  from transfer_sends [OF w1 env, of a nd TXU_CNTRL_MORE_DATA] nd ad o free obtain s2 d t q' where
    s2: "rwm_transfer_node env (Some a) TXU_CNTRL_MORE_DATA ?s1 = Inr (0, s2)" "wifi_ok s2 (L(?h := as)) {}" "outer s2 = outer ?s1"
      "nodes s2 = nodes s" "log s2 = log s @ [Txu_Push d t (content nd) q']" "h_staid t = sta_idx nd"
      "d \<in> idle m (txd s)" "idle m (txd s2) = idle m (txd s) - {d}"
    by (auto simp: addressed_def open_acs_def)
  have sent: "sent_to (unat i) (log s2) = sent_to (unat i) (log s) @ [content (the (nodes s a))]"
    using s2(5,6) ad nd by (simp add: addressed_def)
  have tab: "tab_ok s2" using s2(2) by (simp add: wifi_ok_def)
  show ?thesis
  proof (cases "as = []")
    case True
    let ?s3 = "s2\<lparr>log := log s2 @ [Tim_Update (fst (tim_key s (unat i))) (snd (tim_key s (unat i))) False]\<rparr>"
    have "rwm_msdu_send_txing_node env i s = Inr ((), ?s3)"
      using l(1) n True s2(1,3) tab i
      by (simp add: rwm_msdu_send_txing_node_def sta_mgmt_get_vif_idx_def sta_mgmt_get_aid_def tim_key_def)
    moreover have "wifi_ok ?s3 (L(?h := as)) {}" using s2(2) by (simp add: wifi_ok_def tab_ok_def)
    ultimately show ?thesis using sent s2(3,4,7,8) q True by (intro exI [of _ ?s3] exI [of _ d]) simp
  next
    case False
    let ?s3 = "s2\<lparr>io_queue := Some (ms @ [\<lparr>msg_type = BMSG_TXING_TYPE i, msg_sema = None\<rparr>])\<rparr>"
    have "bmsg_txing_sender i s2 = Inr ((), ?s3)"
      using q s2(3) by (simp add: bmsg_txing_sender_def rtos_push_to_queue_def bindM_run)
    then have "rwm_msdu_send_txing_node env i s = Inr ((), ?s3)"
      using l(1) n False s2(1,3) tab i awake by (simp add: rwm_msdu_send_txing_node_def sta_mgmt_is_in_ps_def)
    moreover have "wifi_ok ?s3 (L(?h := as)) {}" using s2(2) by (simp add: wifi_ok_def tab_ok_def)
    ultimately show ?thesis using sent s2(3,4,7,8) False by (intro exI [of _ ?s3] exI [of _ d]) simp
  qed
qed

definition txing_msg :: "u8 \<Rightarrow> BUS_MSG_T" where
  "txing_msg i = \<lparr>msg_type = BMSG_TXING_TYPE i, msg_sema = None\<rparr>"

text \<open>\<open>n\<close> rounds of the thread.\<close>

abbreviation rounds :: "nat \<Rightarrow> msdu_env \<Rightarrow> (wifi_st, unit) prog" where
  "rounds n env \<equiv> forM [0..<n] (\<lambda>_. core_round env)"

lemma forM_const: "length xs = length ys \<Longrightarrow> forM xs (\<lambda>_. m) = forM ys (\<lambda>_. m)"
  by (induction xs ys rule: list_induct2) simp_all

lemma rounds_Suc: "rounds (Suc n) env = thenM (core_round env) (rounds n env)"
  using forM_const [of "[0..<Suc n]" "0 # [0..<n]" "core_round env"] by simp

lemma drain:
  assumes "wifi_ok s L {}" and env: "env_good env" "serves env m" and i: "unat i < 2" and "L (Txing (unat i)) = as" and "as \<noteq> []"
    and "ps_state (sta_info_tab s ! unat i) = 0" and "open_acs s" and "length as \<le> card (idle m (txd s))"
    and "io_queue s = Some [txing_msg i]"
  shows "\<exists>s'. rounds (length as) env s = Inr ((), s') \<and> wifi_ok s' (L(Txing (unat i) := [])) {}
    \<and> sent_to (unat i) (log s') = sent_to (unat i) (log s) @ frames s as \<and> io_queue s' = Some []
    \<and> \<not> tim (log s') (tim_key s (unat i))"
  using assms(1,5-)
proof (induction as arbitrary: s L)
  case (Cons a as)
  let ?s0 = "s\<lparr>io_queue := Some []\<rparr>" and ?h = "Txing (unat i)"
  have w0: "wifi_ok ?s0 L {}" using Cons.prems(1) by (simp add: wifi_ok_def tab_ok_def)
  have free: "idle m (txd ?s0) \<noteq> {}" using Cons.prems(6) by auto
  from send_one [OF w0 env i Cons.prems(2) _ _ free, of "[]"] Cons.prems(4,5) obtain s1 d where
    s1: "rwm_msdu_send_txing_node env i ?s0 = Inr ((), s1)" "wifi_ok s1 (L(?h := as)) {}"
      "vif_info_tab s1 = vif_info_tab s" "sta_info_tab s1 = sta_info_tab s" "nodes s1 = nodes s"
      "sent_to (unat i) (log s1) = sent_to (unat i) (log s) @ [content (the (nodes s a))]"
      "as = [] \<longrightarrow> \<not> tim (log s1) (tim_key s (unat i))"
      "io_queue s1 = Some (if as = [] then [] else [txing_msg i])"
      "d \<in> idle m (txd s)" "idle m (txd s1) = idle m (txd s) - {d}"
    by (auto simp: CORE_QITEM_COUNT_def open_acs_def tim_key_def txing_msg_def)
  let ?s2 = "s1\<lparr>log := (log s1 @ [Ke_Sched]) @ [Sleep_Check]\<rparr>"
  have run: "core_round env s = Inr ((), ?s2)"
    using Cons.prems(7) s1(1) env(1)
    by (simp add: core_round_def rtos_pop_from_queue_def core_switch_def bmsg_txing_handler_def txing_msg_def env_good_def
        bindM_run thenM_run)
  have w2: "wifi_ok ?s2 (L(?h := as)) {}" using s1(2) by (simp add: wifi_ok_def tab_ok_def)
  have l2: "log ?s2 = (log s1 @ [Ke_Sched]) @ [Sleep_Check]" by simp
  have lg: "sent_to (unat i) (log ?s2) = sent_to (unat i) (log s1)" "tim (log ?s2) k = tim (log s1) k" for k
    unfolding l2 by (simp, simp only: tim_snoc wifi_event.case)
  show ?case
  proof (cases "as = []")
    case True
    have "rounds (length (a # as)) env s = Inr ((), ?s2)" using run True by (simp add: rounds_Suc)
    with w2 lg s1 True show ?thesis by (simp add: frames_def fun_upd_def)
  next
    case False
    have "finite (idle m (txd s))" by (simp add: idle_def)
    then have "length as \<le> card (idle m (txd ?s2))" using Cons.prems(6) s1(9,10) by simp
    moreover have "(L(?h := as)) ?h = as" "ps_state (sta_info_tab ?s2 ! unat i) = 0" "open_acs ?s2" "io_queue ?s2 = Some [txing_msg i]"
      using False s1(3,4,8) Cons.prems(4,5) by (simp_all add: open_acs_def)
    moreover have "(L(?h := as))(?h := []) = L(?h := [])" by simp
    ultimately obtain s3 where
      s3: "rounds (length as) env ?s2 = Inr ((), s3)" "wifi_ok s3 (L(?h := [])) {}"
        "sent_to (unat i) (log s3) = sent_to (unat i) (log ?s2) @ frames ?s2 as" "io_queue s3 = Some []"
        "\<not> tim (log s3) (tim_key ?s2 (unat i))" using Cons.IH [OF w2 _ False] by metis
    have "rounds (length (a # as)) env s = Inr ((), s3)" unfolding length_Cons rounds_Suc using run s3(1) by simp
    moreover have "frames ?s2 as = frames s as" "tim_key ?s2 = tim_key s"
      using s1(4,5) by (simp_all add: frames_def tim_key_def fun_eq_iff)
    ultimately have "rounds (length (a # as)) env s = Inr ((), s3)" "\<not> tim (log s3) (tim_key s (unat i))"
      "sent_to (unat i) (log s3) = sent_to (unat i) (log s) @ frames s (a # as)"
      using s3(3,5) lg(1) s1(6) by (simp_all only: frames_def list.map append.assoc append_Cons append_Nil simp_thms)
    with s3(2,4) show ?thesis by blast
  qed
qed simp

text \<open>
  C9: a station that woke up gets everything that waited for it. The report that it is awake posts one message; with
  the queue otherwise empty, as many descriptors free as frames wait and no admission control, the core thread
  hands over all waiting frames, in order and each once, in as many rounds as there are frames,
  withdraws the announcement, and leaves its queue empty.
\<close>

theorem wake_delivers:
  assumes "wifi_ok s L {}" and "env_good env" and "serves env m" and "unat i < 2" and "L (Txing (unat i)) \<noteq> []"
    and "ps_state (sta_info_tab s ! unat i) = 0" and "open_acs s" and "length (L (Txing (unat i))) \<le> card (idle m (txd s))"
    and "io_queue s = Some []"
  shows "\<exists>s'. thenM (rwm_msdu_ps_change_ind_handler env (Some (i, PS_MODE_OFF))) (rounds (length (L (Txing (unat i)))) env) s = Inr ((), s')
    \<and> wifi_ok s' (L(Txing (unat i) := [])) {}
    \<and> sent_to (unat i) (log s') = sent_to (unat i) (log s) @ frames s (L (Txing (unat i)))
    \<and> io_queue s' = Some [] \<and> \<not> tim (log s') (tim_key s (unat i))"
proof -
  let ?s1 = "s\<lparr>io_queue := Some [txing_msg i]\<rparr>"
  have tab: "tab_ok ?s1" using assms(1) by (simp add: wifi_ok_def tab_ok_def)
  from timer_runs(2) [OF tab assms(2,4)] obtain pt where
    pt: "stop_if_running env (unat i) ?s1 = Inr ((), ?s1\<lparr>ps_timer := pt\<rparr>)" "tab_ok (?s1\<lparr>ps_timer := pt\<rparr>)" by blast
  from count_run [OF assms(1,4)] obtain n where
    n: "rwm_txling_list_node_count i s = Inr (n, s)" "n \<noteq> 0" using assms(5) by blast
  have "bmsg_txing_sender i s = Inr ((), ?s1)"
    using assms(9) by (simp add: bmsg_txing_sender_def rtos_push_to_queue_def CORE_QITEM_COUNT_def txing_msg_def bindM_run)
  then have run: "rwm_msdu_ps_change_ind_handler env (Some (i, PS_MODE_OFF)) s = Inr ((), ?s1\<lparr>ps_timer := pt\<rparr>)"
    using n pt(1) by (simp add: rwm_msdu_ps_change_ind_handler_def)
  have "wifi_ok (?s1\<lparr>ps_timer := pt\<rparr>) L {}" using assms(1) pt(2) by (simp add: wifi_ok_def)
  from drain [OF this assms(2,3,4) refl assms(5)] assms(6,7,8) obtain s' where
    "rounds (length (L (Txing (unat i)))) env (?s1\<lparr>ps_timer := pt\<rparr>) = Inr ((), s')" "wifi_ok s' (L(Txing (unat i) := [])) {}"
    "sent_to (unat i) (log s') = sent_to (unat i) (log s) @ frames s (L (Txing (unat i)))" "io_queue s' = Some []"
    "\<not> tim (log s') (tim_key s (unat i))"
    by (auto simp: open_acs_def frames_def tim_key_def)
  with run show ?thesis by auto
qed

text \<open>One frame of twenty bytes waits for station 0.\<close>

definition wait_node :: MSDU_NODE_T where
  "wait_node = \<lparr>msdu_ptr = replicate 132 7, len = 20, vif_idx = 0, sta_idx = 0, args = None, sync = 0\<rparr>"

definition wait_links :: "msdu_place links" where
  "wait_links = \<lparr>lnext = (\<lambda>h. Some h)(Txing 0 := Some (Msdu 1), Msdu 1 := Some (Txing 0)),
     lprev = (\<lambda>h. Some h)(Txing 0 := Some (Msdu 1), Msdu 1 := Some (Txing 0))\<rparr>"

definition wait_st :: wifi_st where
  "wait_st = demo_st\<lparr>nodes := (\<lambda>_. None)(1 := Some wait_node), mlinks := wait_links, ap_ps_active := True,
     ps_timer := (\<lambda>_. \<lparr>t_handle = True, t_running = True\<rparr>),
     sta_info_tab := [demo_sta 10 1 0, demo_sta 11 2 0, demo_sta 0 0 0, demo_sta 0 0 0]\<rparr>"

definition wait_lists :: waiting where
  "wait_lists = (\<lambda>_. [])(Txing 0 := [1])"

lemma wait_ok: "wifi_ok wait_st wait_lists {}"
proof -
  have "lists_ok (mlinks wait_st) wait_lists"
    by (simp add: lists_ok_def heads_def ring_def wait_st_def wait_links_def wait_lists_def)
  moreover have "mem_ok (nodes wait_st) (txd wait_st) wait_lists {}"
    by (auto simp: mem_ok_def in_lists_def in_descs_def heads_def wait_st_def wait_lists_def demo_st_def idle_desc_def
        node_ok_def addressed_def wait_node_def less_2_cases_iff split: if_splits)
  moreover have "desc_ok (nodes wait_st) (txd wait_st)" by (simp add: desc_ok_def wait_st_def demo_st_def idle_desc_def)
  moreover have "tab_ok wait_st" by (simp add: tab_ok_def wait_st_def demo_st_def demo_vif_def)
  ultimately show ?thesis by (simp add: wifi_ok_def)
qed

lemma demo_serves: "serves demo_env 1"
  by (auto simp: serves_def idle_def demo_env_def)

lemma wait_idle: "card (idle 1 (txd wait_st)) = 1"
proof -
  have "idle 1 (txd wait_st) = {0}" by (auto simp: idle_def wait_st_def demo_st_def idle_desc_def TXDESC_STA_USED_def)
  then show ?thesis by simp
qed

theorem wake_delivers_witness:
  "\<exists>s'. thenM (rwm_msdu_ps_change_ind_handler demo_env (Some (0, PS_MODE_OFF))) (rounds 1 demo_env) wait_st = Inr ((), s')
    \<and> wifi_ok s' (wait_lists(Txing 0 := [])) {}
    \<and> sent_to 0 (log s') = [replicate 20 7] \<and> io_queue s' = Some [] \<and> \<not> tim (log s') (tim_key wait_st 0)"
proof -
  have h: "ps_state (sta_info_tab wait_st ! unat (0::u8)) = 0" "open_acs wait_st" "io_queue wait_st = Some []"
    by (simp_all add: wait_st_def demo_st_def demo_sta_def demo_vif_def open_acs_def)
  have l: "wait_lists (Txing (unat (0::u8))) = [1]" by (simp add: wait_lists_def)
  have f: "sent_to 0 (log wait_st) @ frames wait_st [1] = [replicate 20 7]"
    by (simp add: frames_def content_def wait_st_def demo_st_def wait_node_def)
  have c: "length (wait_lists (Txing (unat (0::u8)))) \<le> card (idle 1 (txd wait_st))" using wait_idle l by simp
  have "wait_lists (Txing (unat (0::u8))) \<noteq> []" "unat (0::u8) < 2" using l by simp_all
  from wake_delivers [OF wait_ok demo_env_good demo_serves this(2,1) h(1,2) c h(3)] show ?thesis
    unfolding l using f by simp
qed

section \<open>A message that gets lost\<close>

text \<open>
  Posting fails when the queue is full, and the message that lets a waking station's frames flow is not
  repeated: they stay in their list, and every later frame joins them.
\<close>

lemma wait_more:
  fixes i :: u8
  assumes ok: "wifi_ok s L {a}" and i: "unat i < 2" and w: "L (Txing (unat i)) \<noteq> []" and nd: "nodes s a = Some nd" "addressed (unat i) nd"
    and v: "unat (vif_idx nd) < 2" "vif_type (vif_info_tab s ! unat (vif_idx nd)) = VIF_AP"
  shows "\<exists>l. rwm_ps_tranfer_node env (Some a) s = Inr ((), s\<lparr>mlinks := l\<rparr>)
    \<and> wifi_ok (s\<lparr>mlinks := l\<rparr>) (L(Txing (unat i) := L (Txing (unat i)) @ [a])) {}"
proof -
  let ?h = "Txing (unat i)"
  have tab: "tab_ok s" using ok by (simp add: wifi_ok_def)
  have st: "unat (sta_idx nd) = unat i" using nd(2) by (simp add: addressed_def)
  then have sta: "sta_idx nd = i" by (simp add: word_unat_eq_iff)
  from count_run [OF ok i] w obtain n where n: "rwm_txling_list_node_count i s = Inr (n, s)" "n \<noteq> 0" by blast
  have "sta_mgmt_is_in_ps i s = Inr (ps_state (sta_info_tab s ! unat i) \<noteq> 0, s)" using tab i by (simp add: sta_mgmt_is_in_ps_def)
  then have push: "rwm_ps_tranfer_node env (Some a) s = rwm_push_txing_list a i s"
    using nd v sta n tab i by (simp add: rwm_ps_tranfer_node_def rwm_mgmt_is_ap_inface_def tab_ok_def bindM_run thenM_run)
  have out: "a \<notin> in_lists L" using ok memD(3) by (fastforce simp: wifi_ok_def)
  from lists_add [OF _ Txing_head [OF i] out, of s] ok obtain l where
    l: "in_mlinks (list_add_tail (Msdu a) ?h) s = Inr ((), s\<lparr>mlinks := l\<rparr>)" "lists_ok l (L(?h := L ?h @ [a]))"
    by (auto simp: wifi_ok_def)
  have "mem_ok (nodes s) (txd s) (L(?h := L ?h @ [a])) ({a} - {a})"
    by (rule mem_push) (use ok nd Txing_head [OF i] in \<open>auto simp: wifi_ok_def\<close>)
  then have "wifi_ok (s\<lparr>mlinks := l\<rparr>) (L(?h := L ?h @ [a])) {}" using ok l(2) by (simp add: wifi_ok_def tab_ok_def)
  then show ?thesis using push l(1) i by (auto simp: rwm_push_txing_list_def)
qed

definition given_to :: "wifi_st \<Rightarrow> u8 \<Rightarrow> u8 \<Rightarrow> u8 list \<Rightarrow> bool" where
  "given_to s i v f \<longleftrightarrow> unat v < 2 \<and> vif_type (vif_info_tab s ! unat v) = VIF_AP \<and> 6 \<le> length f \<and> length f + 140 < 2 ^ 32
     \<and> station_of (vif_info_tab s) (sta_ids s) v f = i"

lemma transfer_waits:
  assumes ok: "wifi_ok s L {}" and env: "env_good env" and i: "unat i < 2" and w: "L (Txing (unat i)) \<noteq> []" and g: "given_to s i v f"
  shows "\<exists>s' L' fs. rwm_transfer env v f (of_nat (length f)) 0 None s = Inr (RW_FAILURE, s') \<and> wifi_ok s' L' {} \<and> L' (Txing (unat i)) \<noteq> []
    \<and> frames s' (L' (Txing (unat i))) = frames s (L (Txing (unat i))) @ fs \<and> subseq fs [f]
    \<and> (log s', io_queue s', ps_timer s', vif_info_tab s', sta_info_tab s') = (log s, io_queue s, ps_timer s, vif_info_tab s, sta_info_tab s)"
proof -
  let ?h = "Txing (unat i)"
  have v: "unat v < 2" "vif_type (vif_info_tab s ! unat v) = VIF_AP" "6 \<le> length f" "length f + 140 < 2 ^ 32"
    "station_of (vif_info_tab s) (sta_ids s) v f = i" using g by (simp_all add: given_to_def)
  consider (none) "rwm_tx_node_alloc env (of_nat (length f)) s = Inr (None, s)"
    | (some) a s1 nd where "rwm_tx_node_alloc env (of_nat (length f)) s = Inr (Some a, s1)"
        "rwm_tx_msdu_renew f (of_nat (length f)) a s1 = Inr ((), s\<lparr>nodes := (nodes s)(a := Some nd)\<rparr>)"
        "content nd = f" "node_ok a nd" "wifi_ok (s\<lparr>nodes := (nodes s)(a := Some nd)\<rparr>) L {a}"
    using alloc_run [OF ok env v(4)] by blast
  then show ?thesis
  proof cases
    case none
    let ?s = "s\<lparr>pck_cnt := pck_cnt s - 1\<rparr>"
    have "wifi_ok ?s L {}" using ok by (simp add: wifi_ok_def tab_ok_def)
    then show ?thesis using none w by (intro exI [of _ ?s] exI [of _ L] exI [of _ "[]"]) (simp add: rwm_transfer_def frames_def)
  next
    case some
    define nd2 where "nd2 = nd\<lparr>vif_idx := v, sync := 0, args := None, sta_idx := i\<rparr>"
    let ?s2 = "s\<lparr>nodes := (nodes s)(a := Some nd2)\<rparr>"
    have n2: "node_ok a nd2" "content nd2 = f" using some(3,4) by (simp_all add: nd2_def node_ok_def content_def)
    have w2: "wifi_ok ?s2 L {a}" by (rule wifi_set [OF some(5) _ n2(1)]) simp_all
    have "addressed (unat i) nd2" using v(1) by (simp add: addressed_def nd2_def)
    from wait_more [OF w2 i w _ this] v(1,2) obtain l where
      l: "rwm_ps_tranfer_node env (Some a) ?s2 = Inr ((), ?s2\<lparr>mlinks := l\<rparr>)" "wifi_ok (?s2\<lparr>mlinks := l\<rparr>) (L(?h := L ?h @ [a])) {}"
      by (auto simp: nd2_def)
    have tab: "tab_ok (s\<lparr>nodes := N\<rparr>)" for N using ok by (simp add: wifi_ok_def tab_ok_def)
    have "rwm_mgmt_tx_get_staidx v f (s\<lparr>nodes := N\<rparr>) = Inr (i, s\<lparr>nodes := N\<rparr>)" for N
      using get_staidx_run [OF tab v(1,3)] v(5) by (simp add: sta_ids_def)
    then have "rwm_transfer env v f (of_nat (length f)) 0 None s = Inr (RW_FAILURE, ?s2\<lparr>mlinks := l\<rparr>)"
      using some(1,2) env l(1) by (simp add: rwm_transfer_def nd2_def env_good_def)
    moreover have "a \<notin> set (L ?h)" using loose_unlisted [OF some(5) _ i, of a] by simp
    then have "frames (?s2\<lparr>mlinks := l\<rparr>) (L ?h @ [a]) = frames s (L ?h) @ [f]" using n2(2) by (auto simp: frames_def)
    ultimately show ?thesis using l(2)
      by (intro exI [of _ "?s2\<lparr>mlinks := l\<rparr>"] exI [of _ "L(?h := L ?h @ [a])"] exI [of _ "[f]"]) simp
  qed
qed

definition give :: "msdu_env \<Rightarrow> u8 \<times> u8 list \<Rightarrow> (wifi_st, unit) prog" where
  "give env vf = bindM (rwm_transfer env (fst vf) (snd vf) (of_nat (length (snd vf))) 0 None) (\<lambda>_. retM ())"

lemma transfers_wait:
  assumes "wifi_ok s L {}" and env: "env_good env" and i: "unat i < 2" and "L (Txing (unat i)) \<noteq> []"
    and "\<forall>vf \<in> set vfs. given_to s i (fst vf) (snd vf)"
  shows "\<exists>s' L' fs. forM vfs (give env) s = Inr ((), s') \<and> wifi_ok s' L' {}
    \<and> frames s' (L' (Txing (unat i))) = frames s (L (Txing (unat i))) @ fs \<and> subseq fs (map snd vfs)
    \<and> (log s', io_queue s', ps_timer s') = (log s, io_queue s, ps_timer s)"
  using assms(1,4,5)
proof (induction vfs arbitrary: s L)
  case Nil
  then show ?case by (intro exI [of _ s] exI [of _ L] exI [of _ "[]"]) simp
next
  case (Cons vf vfs)
  obtain v f where vf: "vf = (v, f)" by (cases vf)
  from transfer_waits [OF Cons.prems(1) env i Cons.prems(2), of v f] Cons.prems(3) vf obtain s1 L1 fs1 where
    s1: "rwm_transfer env v f (of_nat (length f)) 0 None s = Inr (RW_FAILURE, s1)" "wifi_ok s1 L1 {}" "L1 (Txing (unat i)) \<noteq> []"
      "frames s1 (L1 (Txing (unat i))) = frames s (L (Txing (unat i))) @ fs1" "subseq fs1 [f]"
      "(log s1, io_queue s1, ps_timer s1) = (log s, io_queue s, ps_timer s)"
      "vif_info_tab s1 = vif_info_tab s" "sta_info_tab s1 = sta_info_tab s" by auto
  have "\<forall>vf \<in> set vfs. given_to s1 i (fst vf) (snd vf)" using Cons.prems(3) s1(7,8) by (simp add: given_to_def sta_ids_def)
  from Cons.IH [OF s1(2,3) this] obtain s2 L2 fs2 where
    s2: "forM vfs (give env) s1 = Inr ((), s2)" "wifi_ok s2 L2 {}"
      "frames s2 (L2 (Txing (unat i))) = frames s1 (L1 (Txing (unat i))) @ fs2" "subseq fs2 (map snd vfs)"
      "(log s2, io_queue s2, ps_timer s2) = (log s1, io_queue s1, ps_timer s1)" by blast
  have "forM (vf # vfs) (give env) s = Inr ((), s2)" using s1(1) s2(1) vf by (simp add: give_def bindM_run thenM_run)
  moreover have "subseq (fs1 @ fs2) (map snd (vf # vfs))"
    using list_emb_append_mono [OF s1(5) s2(4)] vf by simp
  ultimately show ?case using s1(4,6) s2(2,3,5) by (intro exI [of _ s2] exI [of _ L2] exI [of _ "fs1 @ fs2"]) simp
qed

text \<open>
  C27: a wake-up that meets a full queue gets lost. In a state in which the lists, nodes and tables are intact (\<open>wifi_ok\<close>), with
  timer commands that get through (\<open>env_good\<close>), frames wait for
  a station of the access point and the queue is full, with no message among its entries that would release
  them. The handler of the report that the station is awake stops the ten-second timer and
  posts nothing; and however many frames are then given for the station, each is put behind those that
  wait (or dropped, when there is no memory) although the station is awake: nothing is handed to the MAC library, the
  timer stays stopped, and the queue still holds no message that releases the frames.
\<close>

theorem wake_lost:
  assumes ok: "wifi_ok s L {}" and env: "env_good env" and i: "unat i < 2" and w: "L (Txing (unat i)) \<noteq> []"
    and full: "io_queue s = Some ms" "length ms = CORE_QITEM_COUNT" and none: "\<forall>m \<in> set ms. msg_type m \<noteq> BMSG_TXING_TYPE i"
    and vfs: "\<forall>vf \<in> set vfs. given_to s i (fst vf) (snd vf)"
  shows "\<exists>s' L' fs. thenM (rwm_msdu_ps_change_ind_handler env (Some (i, PS_MODE_OFF))) (forM vfs (give env)) s = Inr ((), s')
    \<and> wifi_ok s' L' {} \<and> frames s' (L' (Txing (unat i))) = frames s (L (Txing (unat i))) @ fs \<and> subseq fs (map snd vfs)
    \<and> log s' = log s \<and> \<not> t_running (ps_timer s' (unat i))
    \<and> (\<exists>q. io_queue s' = Some q \<and> (\<forall>m \<in> set q. msg_type m \<noteq> BMSG_TXING_TYPE i))"
proof -
  have tab: "tab_ok s" using ok by (simp add: wifi_ok_def)
  from count_run [OF ok i] w obtain n where n: "rwm_txling_list_node_count i s = Inr (n, s)" "n \<noteq> 0" by blast
  have snd: "bmsg_txing_sender i s = Inr ((), s)"
    using full by (simp add: bmsg_txing_sender_def rtos_push_to_queue_def bindM_run)
  have h: "t_handle (ps_timer s (unat i))" "\<And>lg. timer_pass env lg (unat i)" using tab env i by (auto simp: tab_ok_def env_good_def)
  define pt where "pt = (if t_running (ps_timer s (unat i))
    then (ps_timer s)(unat i := (ps_timer s (unat i))\<lparr>t_running := False\<rparr>) else ps_timer s)"
  let ?s = "s\<lparr>ps_timer := pt\<rparr>"
  have stop: "stop_if_running env (unat i) s = Inr ((), ?s)"
    using h by (simp add: stop_if_running_def rtos_is_timer_running_def rtos_stop_timer_def timer_cmd_def kNoErr_def pt_def)
  have run: "rwm_msdu_ps_change_ind_handler env (Some (i, PS_MODE_OFF)) s = Inr ((), ?s)"
    using n snd stop by (simp add: rwm_msdu_ps_change_ind_handler_def)
  have "tab_ok ?s" using tab h(1) by (auto simp: tab_ok_def pt_def)
  then have w1: "wifi_ok ?s L {}" using ok by (simp add: wifi_ok_def)
  have g: "\<forall>vf \<in> set vfs. given_to ?s i (fst vf) (snd vf)" using vfs by (simp add: given_to_def sta_ids_def)
  from transfers_wait [OF w1 env i w g] obtain s' L' fs where
    s': "forM vfs (give env) ?s = Inr ((), s')" "wifi_ok s' L' {}"
      "frames s' (L' (Txing (unat i))) = frames ?s (L (Txing (unat i))) @ fs" "subseq fs (map snd vfs)"
      "(log s', io_queue s', ps_timer s') = (log ?s, io_queue ?s, ps_timer ?s)" by blast
  have "frames ?s (L (Txing (unat i))) = frames s (L (Txing (unat i)))" by (simp add: frames_def)
  moreover have "\<not> t_running (pt (unat i))" by (simp add: pt_def)
  ultimately show ?thesis
    using run s' full none by (intro exI [of _ s'] exI [of _ L'] exI [of _ fs]) (simp add: thenM_run)
qed

definition full_queue :: "BUS_MSG_T list" where
  "full_queue = replicate CORE_QITEM_COUNT \<lparr>msg_type = BMSG_NULL_TYPE, msg_sema = None\<rparr>"

lemma wait_full_ok: "wifi_ok (wait_st\<lparr>io_queue := Some full_queue\<rparr>) wait_lists {}"
  using wait_ok by (simp add: wifi_ok_def tab_ok_def)

theorem wake_lost_witness:
  "\<exists>s' L' fs. thenM (rwm_msdu_ps_change_ind_handler demo_env (Some (0, PS_MODE_OFF))) (forM [(0, replicate 30 10), (0, replicate 20 10)] (give demo_env))
      (wait_st\<lparr>io_queue := Some full_queue\<rparr>) = Inr ((), s')
    \<and> wifi_ok s' L' {} \<and> frames s' (L' (Txing 0)) = replicate 20 7 # fs \<and> subseq fs [replicate 30 10, replicate 20 10]
    \<and> log s' = [] \<and> \<not> t_running (ps_timer s' 0)"
proof -
  let ?s = "wait_st\<lparr>io_queue := Some full_queue\<rparr>" and ?vfs = "[(0, replicate 30 10), (0, replicate 20 10)] :: (u8 \<times> u8 list) list"
  have q: "io_queue ?s = Some full_queue" "length full_queue = CORE_QITEM_COUNT" "\<forall>m \<in> set full_queue. msg_type m \<noteq> BMSG_TXING_TYPE 0"
    by (simp_all add: full_queue_def)
  have st: "station_of (vif_info_tab ?s) (sta_ids ?s) 0 (replicate n 10) = 0" if "6 \<le> n" for n
    using that by (simp add: station_of_def sta_ids_def wait_st_def demo_st_def demo_sta_def demo_vif_def VIF_AP_def VIF_STA_def take_replicate min_def)
  have g: "\<forall>vf \<in> set ?vfs. given_to ?s 0 (fst vf) (snd vf)"
    using st [of 30] st [of 20] by (simp add: given_to_def wait_st_def demo_st_def demo_vif_def)
  have f: "wait_lists (Txing (unat (0 :: u8))) \<noteq> []" "unat (0 :: u8) < 2"
    "frames ?s (wait_lists (Txing (unat (0 :: u8)))) = [replicate 20 7]" "log ?s = []"
    by (simp_all add: wait_lists_def frames_def content_def wait_st_def demo_st_def wait_node_def)
  from wake_lost [OF wait_full_ok demo_env_good f(2,1) q g] show ?thesis unfolding f(3,4) by simp blast
qed

end
