(* ===== verification/Aware_Core.thy ===== *)
theory Aware_Core
  imports Bk_Aware_Props Core_Thread
begin

text \<open>
  \<^verbatim>\<open>bk_aware_send\<close> and the core thread. The sender builds a frame in a block of its own, posts a pointer to it
  (\<^verbatim>\<open>wlan_ui.c\<close>, \<^verbatim>\<open>app.c\<close>) and frees the block; the core thread copies the frame out of the block when it gets to the
  message. The two share the memory of the frames. How many rounds the thread runs
  between the post and the free is up to the scheduler and a parameter here; the theorems say what becomes of
  the frame when the thread is in time, when it is late, and when its queue is full.
\<close>

section \<open>Two threads and one memory\<close>

definition on_aware :: "(aware_st, 'a) prog \<Rightarrow> (aware_st \<times> wifi_st, 'a) prog" where
  "on_aware m = (\<lambda>(s, w). case m s of Inl e \<Rightarrow> Inl e | Inr (r, s') \<Rightarrow> Inr (r, (s', w)))"

definition on_core :: "(wifi_st, 'a) prog \<Rightarrow> (aware_st \<times> wifi_st, 'a) prog" where
  "on_core m = (\<lambda>(s, w). case m w of Inl e \<Rightarrow> Inl e | Inr (r, w') \<Rightarrow> Inr (r, (s, w')))"

text \<open>What the core thread finds behind a pointer to a frame is what the sender's memory holds.\<close>

definition share :: "(aware_st \<times> wifi_st, unit) prog" where
  "share = modM (\<lambda>(s, w). (s, w\<lparr>raw_mem := map_of (frame_mem s)\<rparr>))"

definition bk_wlan_send_raw_frame_with_cb :: "nat \<Rightarrow> u32 \<Rightarrow> nat option \<Rightarrow> nat option \<Rightarrow> (wifi_st, int) prog" where
  "bk_wlan_send_raw_frame_with_cb buffer n cb param = bmsg_tx_raw_cb_sender buffer n cb param"

text \<open>\<^verbatim>\<open>bk_aware_send\<close> with \<open>k\<close> rounds of the core thread before the block is freed; \<open>cb\<close> is the address of \<^verbatim>\<open>bk_aware_send_callback\<close>.\<close>

definition send_on_core :: "aware_par \<Rightarrow> msdu_env \<Rightarrow> nat \<Rightarrow> nat \<Rightarrow> u8 list option \<Rightarrow> u8 list option \<Rightarrow> nat
    \<Rightarrow> (aware_st \<times> wifi_st, int) prog" where
  "send_on_core par env cb k addr dat dlen =
     bindM (on_aware (bk_aware_send_post par addr dat dlen)) (\<lambda>(r, f). case f of
       None \<Rightarrow> retM r
     | Some (p, n) \<Rightarrow>
        thenM share
       (bindM (on_core (bk_wlan_send_raw_frame_with_cb p (of_nat n) (Some cb) None)) (\<lambda>_.
        thenM (on_core (rounds k env))
       (thenM (on_aware (free_frame p))
       (thenM share
              (retM r))))))"

lemma on_aware_run [simp]: "on_aware m (s, w) = (case m s of Inl e \<Rightarrow> Inl e | Inr (r, s') \<Rightarrow> Inr (r, (s', w)))"
  by (simp add: on_aware_def)

lemma on_core_run [simp]: "on_core m (s, w) = (case m w of Inl e \<Rightarrow> Inl e | Inr (r, w') \<Rightarrow> Inr (r, (s, w')))"
  by (simp add: on_core_def)

lemma share_run [simp]: "share (s, w) = Inr ((), (s, w\<lparr>raw_mem := map_of (frame_mem s)\<rparr>))"
  by (simp add: share_def)

text \<open>For the sender alone it is \<^verbatim>\<open>bk_aware_send\<close>, whatever the thread does meanwhile.\<close>

lemma send_on_core_sender:
  assumes "send_on_core par env cb k addr dat dlen (s, w) = Inr (r, (s', w'))"
  shows "bk_aware_send par addr dat dlen s = Inr (r, s')"
  using assms
  by (auto simp: send_on_core_def bk_aware_send_def bindM_run thenM_run case_prod_beta split: sum.splits option.splits)

section \<open>The message and its frame\<close>

lemma renew_prefix: "length bs = unat n \<Longrightarrow> rwm_tx_msdu_renew (bs @ xs) n a = rwm_tx_msdu_renew bs n a"
  by (simp add: rwm_tx_msdu_renew_def rd_at_def)

text \<open>With a node and a free descriptor at hand, the frame in a block goes to the MAC library as it is.\<close>

lemma raw_sends:
  assumes ok: "wifi_ok w L {}" and env: "env_good env" "serves env m" and free: "idle m (txd w) \<noteq> {}"
    and n: "length bs + 140 < 2 ^ 32" and mem: "rwm_tx_node_alloc env (of_nat (length bs)) w \<noteq> Inr (None, w)"
  shows "\<exists>w' d t. rwm_raw_frame_with_cb env (Some (bs @ xs)) (of_nat (length bs)) cb par w = Inr (sint (of_nat (length bs) :: u32), w')
    \<and> wifi_ok w' L {} \<and> io_queue w' = io_queue w \<and> raw_mem w' = raw_mem w
    \<and> log w' = log w @ [Data_Prevent, Pwr_Mgt_Off, Ps_Wakeup, Txl_Push d t bs AC_VI] \<and> callback t = map_option Mgmt_Cb cb"
proof -
  from alloc_run [OF ok env(1) n] mem obtain a w1 nd where
    some: "rwm_tx_node_alloc env (of_nat (length bs)) w = Inr (Some a, w1)"
      "rwm_tx_msdu_renew bs (of_nat (length bs)) a w1 = Inr ((), w\<lparr>nodes := (nodes w)(a := Some nd)\<rparr>)"
      "content nd = bs" "wifi_ok (w\<lparr>nodes := (nodes w)(a := Some nd)\<rparr>) L {a}" by blast
  have "unat (of_nat (length bs) :: u32) = length bs" using n by (simp add: unat_of_nat)
  then have renew: "rwm_tx_msdu_renew (bs @ xs) (of_nat (length bs)) a = rwm_tx_msdu_renew bs (of_nat (length bs)) a"
    by (simp add: renew_prefix)
  obtain d where "tx_txdesc_prepare env (log w) AC_VI (txd w) = Some d" "d \<in> idle m (txd w)"
    using env(2) free unfolding serves_def by blast
  then have d: "tx_txdesc_prepare env (log w) AC_VI (txd w) = Some d" "desc_status (txd w d) \<noteq> TXDESC_STA_USED"
    by (simp_all add: idle_def)
  define t where "t = (raw_desc a (ucast (of_nat (length bs) :: u32)) (txd w d))\<lparr>callback := map_option Mgmt_Cb cb,
    h_param := (if cfg_bk_aware env then Desc_Param d else User_Param par)\<rparr>"
  let ?w = "w\<lparr>nodes := (nodes w)(a := Some nd), txd := (txd w)(d := t),
    log := log w @ [Data_Prevent, Pwr_Mgt_Off, Ps_Wakeup, Txl_Push d t bs AC_VI]\<rparr>"
  have t: "msdu_node t = Some a" "desc_status t = TXDESC_STA_USED" "callback t \<noteq> Some Data_Tx_Cb"
    by (auto simp: t_def raw_desc_def)
  have "wifi_ok ?w L ({a} - {a})" by (rule wifi_give [OF some(4) _ _ t(1,2)]) (use d(2) t(3) in auto)
  moreover have "rwm_raw_frame_with_cb env (Some (bs @ xs)) (of_nat (length bs)) cb par w = Inr (sint (of_nat (length bs) :: u32), ?w)"
    using some(1,2,3) d renew by (simp add: rwm_raw_frame_with_cb_def push_event_def t_def content_def)
  ultimately show ?thesis by (intro exI [of _ ?w] exI [of _ d] exI [of _ t]) (simp add: t_def)
qed

definition raw_cb_msg :: "nat \<Rightarrow> nat \<Rightarrow> nat \<Rightarrow> BUS_MSG_T" where
  "raw_cb_msg p n cb = \<lparr>msg_type = BMSG_TX_RAW_CB_TYPE p (of_nat n) (Some cb) None, msg_sema = None\<rparr>"

lemma raw_cb_round:
  assumes "io_queue w = Some (raw_cb_msg p n cb # ms)"
    and "rwm_raw_frame_with_cb env (raw_mem w p) (of_nat n) (Some cb) None (w\<lparr>io_queue := Some ms\<rparr>) = Inr (r, w')"
  shows "core_round env w = Inr ((), w'\<lparr>log := (log w' @ [Ke_Sched]) @ [Sleep_Check]\<rparr>)"
  using assms by (simp add: core_round_def rtos_pop_from_queue_def core_switch_def bmsg_tx_raw_cb_handler_def raw_cb_msg_def
    bindM_run thenM_run)

lemma raw_cb_dangling:
  assumes "io_queue w = Some (raw_cb_msg p n cb # ms)" and "raw_mem w p = None"
    and "rwm_tx_node_alloc env (of_nat n) (w\<lparr>io_queue := Some ms\<rparr>) = Inr (Some a, w1)"
  shows "core_round env w = Inl Dangling"
  using assms by (simp add: core_round_def rtos_pop_from_queue_def core_switch_def bmsg_tx_raw_cb_handler_def raw_cb_msg_def
    rwm_raw_frame_with_cb_def bindM_run thenM_run)

text \<open>
  The sender's side of a send: the peer is in its list, the data fit into a frame, and there is a block for
  the frame; the frame that it builds is \<open>frame_of\<close>.
\<close>

definition can_send :: "aware_par \<Rightarrow> aware_st \<Rightarrow> entry list \<Rightarrow> u8 list \<Rightarrow> u8 list \<Rightarrow> nat \<Rightarrow> bool" where
  "can_send par s es addr dat p \<longleftrightarrow> aware_rep s es \<and> (\<exists>e\<in>set es. entry_matches addr e) \<and> length dat \<le> BK_AWARE_MAX_DATA_LEN
     \<and> malloc par (live s) = Some p \<and> p \<notin> live s"

lemma can_send_post:
  assumes "can_send par s es addr dat p"
  defines "fr \<equiv> frame_of (aenv s) (rand par) addr dat"
  shows "bk_aware_send_post par (Some addr) (Some dat) (length dat) s = Inr ((BK_OK, Some (p, length fr)),
    s\<lparr>frame_mem := (p, fr @ [stale par]) # frame_mem s, trace := trace s @ [Raw_Post p (length fr)]\<rparr>)"
  using assms send_post_run [of s es addr dat par p] by (simp add: can_send_def)

lemma can_send_free:
  assumes "can_send par s es addr dat p"
  shows "free_frame p (s\<lparr>frame_mem := (p, b) # frame_mem s, trace := tr\<rparr>) = Inr ((), s\<lparr>trace := tr\<rparr>)"
    and "map_of (frame_mem s) p = None"
proof -
  have p: "p \<notin> fst ` set (frame_mem s)" using assms by (simp add: can_send_def live_def)
  have "(s\<lparr>trace := tr\<rparr>)\<lparr>frame_mem := (p, b) # frame_mem s\<rparr> = s\<lparr>frame_mem := (p, b) # frame_mem s, trace := tr\<rparr>"
    "(s\<lparr>trace := tr\<rparr>)\<lparr>frame_mem := frame_mem s\<rparr> = s\<lparr>trace := tr\<rparr>" by (cases s; simp)+
  from free_frame_run [OF p, of b "s\<lparr>trace := tr\<rparr>", unfolded this]
  show "free_frame p (s\<lparr>frame_mem := (p, b) # frame_mem s, trace := tr\<rparr>) = Inr ((), s\<lparr>trace := tr\<rparr>)" .
  show "map_of (frame_mem s) p = None" using p by (simp add: map_of_eq_None_iff)
qed

lemma frame_length: "length (frame_of e w addr dat) \<le> 39 + length dat"
  by (simp add: frame_of_def min_def)

text \<open>What both threads hold once the sender is done, and the thread has had its rounds.\<close>

lemma send_on_core_run:
  fixes w :: wifi_st
  assumes c: "can_send par s es addr dat p"
  defines "fr \<equiv> frame_of (aenv s) (rand par) addr dat"
  defines "w1 \<equiv> w\<lparr>raw_mem := (map_of (frame_mem s))(p \<mapsto> fr @ [stale par])\<rparr>"
  assumes post: "bk_wlan_send_raw_frame_with_cb p (of_nat (length fr)) (Some cb) None w1 = Inr (a, w2)"
    and run: "rounds k env w2 = Inr ((), w3)"
  shows "send_on_core par env cb k (Some addr) (Some dat) (length dat) (s, w)
    = Inr (BK_OK, (s\<lparr>trace := trace s @ [Raw_Post p (length fr)]\<rparr>, w3\<lparr>raw_mem := map_of (frame_mem s)\<rparr>))"
  using can_send_post [OF c] can_send_free(1) [OF c] post run unfolding fr_def [symmetric]
  by (simp add: send_on_core_def w1_def bindM_run thenM_run)

section \<open>Properties\<close>

text \<open>
  C12: a frame of the peer service arrives when the core thread is in time. The sender has the receiver as its
  peer, at most 250 bytes to send and a block for the frame; the core thread's queue is empty, and it
  has a node and a free descriptor for the frame; the thread handles the message before the
  sender goes on to free its block. Then the send answers \<^verbatim>\<open>BK_OK\<close>, its block is freed again, the MAC library has got the frame
  with the send callback, and this frame, whatever check sequence follows it, makes
  the receiving node, if it is initialised with the same organisation identifier, has the sender as its peer and has a callback,
  call it once, with the sender's address, the same bytes and their number.
\<close>

theorem aware_delivers:
  assumes c: "can_send par s es (local_addr (aenv r)) dat p"
    and w: "wifi_ok w L {}" "env_good env" "serves env m" "idle m (txd w) \<noteq> {}" "io_queue w = Some []"
      "\<forall>lg sz. os_malloc env lg (dom (nodes w)) sz \<noteq> None"
    and r: "aware_rep r fs" "\<exists>g\<in>set fs. entry_matches (local_addr (aenv s)) g" "recv_cb (aenv r) = Some f"
    and lens: "length (local_addr (aenv s)) = 6" "length (local_addr (aenv r)) = 6" "length (oui (aenv s)) = 3" "oui (aenv r) = oui (aenv s)"
  shows "\<exists>s' w' d t fr. send_on_core par env cb 1 (Some (local_addr (aenv r))) (Some dat) (length dat) (s, w) = Inr (BK_OK, (s', w'))
    \<and> aware_rep s' es \<and> frame_mem s' = frame_mem s \<and> wifi_ok w' L {} \<and> io_queue w' = Some []
    \<and> log w' = log w @ [Data_Prevent, Pwr_Mgt_Off, Ps_Wakeup, Txl_Push d t fr AC_VI, Ke_Sched, Sleep_Check]
    \<and> callback t = Some (Mgmt_Cb cb)
    \<and> (\<forall>fcs. bk_aware_monitor_cb (fr @ fcs) r
        = Inr ((), r\<lparr>trace := trace r @ [Recv_Cb f (local_addr (aenv s)) (dat @ fcs) (int (length dat))]\<rparr>))"
proof -
  let ?to = "local_addr (aenv r)"
  define fr where "fr = frame_of (aenv s) (rand par) ?to dat"
  define w1 where "w1 = w\<lparr>raw_mem := (map_of (frame_mem s))(p \<mapsto> fr @ [stale par])\<rparr>"
  let ?w2 = "w1\<lparr>io_queue := Some [raw_cb_msg p (length fr) cb]\<rparr>" and ?w0 = "w1\<lparr>io_queue := Some []\<rparr>"
  have dat: "length dat \<le> BK_AWARE_MAX_DATA_LEN" and rep: "aware_rep s es" using c by (simp_all add: can_send_def)
  have n: "length fr + 140 < 2 ^ 32" using dat frame_length [of "aenv s" "rand par" ?to dat] by (simp add: fr_def BK_AWARE_MAX_DATA_LEN_def)
  have post: "bk_wlan_send_raw_frame_with_cb p (of_nat (length fr)) (Some cb) None w1 = Inr (kNoErr, ?w2)"
    using w(5) by (simp add: bk_wlan_send_raw_frame_with_cb_def bmsg_tx_raw_cb_sender_def post_def rtos_push_to_queue_def
      CORE_QITEM_COUNT_def raw_cb_msg_def w1_def)
  have w0: "wifi_ok ?w0 L {}" "idle m (txd ?w0) \<noteq> {}" using w(1,4) by (simp_all add: w1_def wifi_ok_def tab_ok_def)
  have mem: "rwm_tx_node_alloc env (of_nat (length fr)) ?w0 \<noteq> Inr (None, ?w0)"
    using w(6) by (auto simp: rwm_tx_node_alloc_def w1_def split: option.splits)
  from raw_sends [OF w0(1) w(2,3) w0(2) n mem, of "[stale par]" "Some cb" None] obtain w' d t where
    w': "rwm_raw_frame_with_cb env (Some (fr @ [stale par])) (of_nat (length fr)) (Some cb) None ?w0 = Inr (sint (of_nat (length fr) :: u32), w')"
      "wifi_ok w' L {}" "io_queue w' = Some []" "callback t = Some (Mgmt_Cb cb)"
      "log w' = log w @ [Data_Prevent, Pwr_Mgt_Off, Ps_Wakeup, Txl_Push d t fr AC_VI]" by (auto simp: w1_def)
  have "core_round env ?w2 = Inr ((), w'\<lparr>log := (log w' @ [Ke_Sched]) @ [Sleep_Check]\<rparr>)"
    by (rule raw_cb_round [where ms = "[]" and p = p and n = "length fr" and cb = cb and r = "sint (of_nat (length fr) :: u32)"]) (use w'(1) in \<open>simp_all add: w1_def\<close>)
  then have "rounds 1 env ?w2 = Inr ((), w'\<lparr>log := (log w' @ [Ke_Sched]) @ [Sleep_Check]\<rparr>)" by simp
  from send_on_core_run [OF c post [unfolded fr_def w1_def] this [unfolded fr_def w1_def], folded fr_def w1_def] have
    run: "send_on_core par env cb 1 (Some ?to) (Some dat) (length dat) (s, w) = Inr (BK_OK, (s\<lparr>trace := trace s @ [Raw_Post p (length fr)]\<rparr>,
      w'\<lparr>log := (log w' @ [Ke_Sched]) @ [Sleep_Check], raw_mem := map_of (frame_mem s)\<rparr>))" by simp
  have "aware_rep (s\<lparr>trace := trace s @ [Raw_Post p (length fr)]\<rparr>) es" using rep by (simp add: aware_rep_def owns_def)
  moreover have "wifi_ok (w'\<lparr>log := (log w' @ [Ke_Sched]) @ [Sleep_Check], raw_mem := map_of (frame_mem s)\<rparr>) L {}"
    using w'(2) by (simp add: wifi_ok_def tab_ok_def)
  moreover note frame_delivered [OF r lens dat, of "rand par", folded fr_def]
  ultimately show ?thesis using run w'(3,4,5)
    by (intro exI [of _ "s\<lparr>trace := trace s @ [Raw_Post p (length fr)]\<rparr>"]
      exI [of _ "w'\<lparr>log := (log w' @ [Ke_Sched]) @ [Sleep_Check], raw_mem := map_of (frame_mem s)\<rparr>"] exI [of _ d] exI [of _ t] exI [of _ fr]) simp
qed

text \<open>
  What happens otherwise: when the sender frees its block before the core thread has got to the message, the
  send has answered \<^verbatim>\<open>BK_OK\<close> and the thread, if it has a node for the frame, reads from a block that is
  not allocated any more. When the queue is full, the send answers \<^verbatim>\<open>BK_OK\<close> as well, and
  nothing is posted or sent.
\<close>

theorem aware_send_race:
  assumes c: "can_send par s es addr dat p" and mem: "\<forall>lg sz. os_malloc env lg (dom (nodes w)) sz \<noteq> None"
  shows "(io_queue w = Some [] \<longrightarrow> (\<exists>s' w'. send_on_core par env cb 0 (Some addr) (Some dat) (length dat) (s, w) = Inr (BK_OK, (s', w'))
      \<and> core_round env w' = Inl Dangling))
    \<and> (\<forall>ms. io_queue w = Some ms \<longrightarrow> length ms = CORE_QITEM_COUNT \<longrightarrow>
        (\<exists>s' w'. send_on_core par env cb 0 (Some addr) (Some dat) (length dat) (s, w) = Inr (BK_OK, (s', w'))
          \<and> io_queue w' = Some ms \<and> log w' = log w \<and> frame_mem s' = frame_mem s))"
proof -
  define fr where "fr = frame_of (aenv s) (rand par) addr dat"
  define w1 where "w1 = w\<lparr>raw_mem := (map_of (frame_mem s))(p \<mapsto> fr @ [stale par])\<rparr>"
  note send = send_on_core_run [OF c, folded fr_def, where w = w and cb = cb and k = 0, folded w1_def]
  have "\<exists>s' w'. send_on_core par env cb 0 (Some addr) (Some dat) (length dat) (s, w) = Inr (BK_OK, (s', w')) \<and> core_round env w' = Inl Dangling"
    if q: "io_queue w = Some []"
  proof -
    let ?w2 = "w1\<lparr>io_queue := Some [raw_cb_msg p (length fr) cb]\<rparr>" and ?w3 = "w\<lparr>io_queue := Some [raw_cb_msg p (length fr) cb], raw_mem := map_of (frame_mem s)\<rparr>"
    have "bk_wlan_send_raw_frame_with_cb p (of_nat (length fr)) (Some cb) None w1 = Inr (kNoErr, ?w2)"
      using q by (simp add: bk_wlan_send_raw_frame_with_cb_def bmsg_tx_raw_cb_sender_def post_def rtos_push_to_queue_def
        CORE_QITEM_COUNT_def raw_cb_msg_def w1_def)
    from send [OF this] have "send_on_core par env cb 0 (Some addr) (Some dat) (length dat) (s, w)
      = Inr (BK_OK, (s\<lparr>trace := trace s @ [Raw_Post p (length fr)]\<rparr>, ?w3))" by (simp add: w1_def)
    moreover obtain a w4 where "rwm_tx_node_alloc env (of_nat (length fr)) (?w3\<lparr>io_queue := Some []\<rparr>) = Inr (Some a, w4)"
      using mem by (fastforce simp: rwm_tx_node_alloc_def split: option.splits)
    then have "core_round env ?w3 = Inl Dangling"
      by (rule raw_cb_dangling [rotated 2, where p = p and n = "length fr" and cb = cb and ms = "[]"]) (simp_all add: can_send_free(2) [OF c])
    ultimately show ?thesis by blast
  qed
  moreover have "\<exists>s' w'. send_on_core par env cb 0 (Some addr) (Some dat) (length dat) (s, w) = Inr (BK_OK, (s', w'))
          \<and> io_queue w' = Some ms \<and> log w' = log w \<and> frame_mem s' = frame_mem s"
    if q: "io_queue w = Some ms" "length ms = CORE_QITEM_COUNT" for ms
  proof -
    have "bk_wlan_send_raw_frame_with_cb p (of_nat (length fr)) (Some cb) None w1 = Inr (kGeneralErr, w1)"
      using q by (simp add: bk_wlan_send_raw_frame_with_cb_def bmsg_tx_raw_cb_sender_def post_def rtos_push_to_queue_def w1_def)
    from send [OF this] q show ?thesis by (simp add: w1_def)
  qed
  ultimately show ?thesis by blast
qed

text \<open>Node 7 sends three bytes to node 8; the core thread has one block and one descriptor.\<close>

lemma node_can_send: "\<exists>p. can_send first_fit (node 7 [(1, 2, peer_rec 8)]) [(1, 2, peer_rec 8)] [2, 0, 0, 0, 0, 8] [10, 20, 30] p"
proof -
  let ?s = "node 7 [(1, 2, peer_rec 8)]"
  have "finite (live ?s)" by (simp add: live_def node_def)
  with first_fit_serves obtain p where "malloc first_fit (live ?s) = Some p" "p \<notin> live ?s"
    by (fastforce simp: malloc_serves_def malloc_sound_def)
  then show ?thesis
    using node_rep by (auto simp: can_send_def entry_matches_def same_addr_def peer_rec_def BK_AWARE_MAX_DATA_LEN_def)
qed

definition awake_st :: wifi_st where
  "awake_st = demo_st\<lparr>ap_ps_active := True, ps_timer := (\<lambda>_. \<lparr>t_handle = True, t_running = False\<rparr>)\<rparr>"

lemma awake_ok: "wifi_ok awake_st (\<lambda>_. []) {}"
  by (simp add: wifi_ok_def lists_ok_def heads_def ring_def mem_ok_def in_lists_def in_descs_def desc_ok_def tab_ok_def
    awake_st_def demo_st_def idle_desc_def demo_vif_def)

lemma awake_sel:
  "io_queue awake_st = Some []" "log awake_st = []" "\<forall>lg sz. os_malloc demo_env lg (dom (nodes awake_st)) sz \<noteq> None"
  "idle 1 (txd awake_st) \<noteq> {}"
  by (simp_all add: awake_st_def demo_st_def demo_env_def idle_def idle_desc_def TXDESC_STA_USED_def)

theorem aware_delivers_witness:
  "\<exists>s' w' d t fr. send_on_core first_fit demo_env 99 1 (Some [2, 0, 0, 0, 0, 8]) (Some [10, 20, 30]) 3 (node 7 [(1, 2, peer_rec 8)], awake_st)
      = Inr (BK_OK, (s', w'))
    \<and> frame_mem s' = [] \<and> io_queue w' = Some []
    \<and> log w' = [Data_Prevent, Pwr_Mgt_Off, Ps_Wakeup, Txl_Push d t fr AC_VI, Ke_Sched, Sleep_Check]
    \<and> bk_aware_monitor_cb fr (node 8 [(1, 2, peer_rec 7)])
        = Inr ((), (node 8 [(1, 2, peer_rec 7)])\<lparr>trace := [Recv_Cb 77 [2, 0, 0, 0, 0, 7] [10, 20, 30] 3]\<rparr>)"
proof -
  let ?s = "node 7 [(1, 2, peer_rec 8)]" and ?r = "node 8 [(1, 2, peer_rec 7)]"
  from node_can_send obtain p where "can_send first_fit ?s [(1, 2, peer_rec 8)] [2, 0, 0, 0, 0, 8] [10, 20, 30] p" by blast
  then have c: "can_send first_fit ?s [(1, 2, peer_rec 8)] (local_addr (aenv ?r)) [10, 20, 30] p" by (simp add: node_sel)
  have r: "\<exists>g\<in>set [(1, 2, peer_rec 7)]. entry_matches (local_addr (aenv ?s)) g" "recv_cb (aenv ?r) = Some 77"
    "length (local_addr (aenv ?s)) = 6" "length (local_addr (aenv ?r)) = 6" "length (oui (aenv ?s)) = 3" "oui (aenv ?r) = oui (aenv ?s)"
    by (simp_all add: node_sel entry_matches_def same_addr_def peer_rec_def CFG_BK_AWARE_OUI_def)
  from aware_delivers [OF c awake_ok demo_env_good demo_serves awake_sel(4,1,3) node_rep r, of 99] obtain s' w' d t fr where
    o: "send_on_core first_fit demo_env 99 1 (Some (local_addr (aenv ?r))) (Some [10, 20, 30]) (length [10 :: u8, 20, 30]) (?s, awake_st) = Inr (BK_OK, (s', w'))"
      "frame_mem s' = frame_mem ?s" "io_queue w' = Some []"
      "log w' = log awake_st @ [Data_Prevent, Pwr_Mgt_Off, Ps_Wakeup, Txl_Push d t fr AC_VI, Ke_Sched, Sleep_Check]"
      "\<forall>fcs. bk_aware_monitor_cb (fr @ fcs) ?r
        = Inr ((), ?r\<lparr>trace := trace ?r @ [Recv_Cb 77 (local_addr (aenv ?s)) ([10, 20, 30] @ fcs) (int (length [10 :: u8, 20, 30]))]\<rparr>)" by blast
  from spec [OF o(5), of "[]"] have "bk_aware_monitor_cb (fr @ []) ?r = Inr ((), ?r\<lparr>trace := [Recv_Cb 77 [2, 0, 0, 0, 0, 7] [10, 20, 30] 3]\<rparr>)"
    by (simp add: node_sel)
  moreover have "frame_mem ?s = []" by (simp add: node_def)
  ultimately show ?thesis
    using o(1-4) by (intro exI [of _ s'] exI [of _ w'] exI [of _ d] exI [of _ t] exI [of _ fr]) (simp add: node_sel awake_sel eval_nat_numeral)
qed

theorem aware_send_race_witness:
  "(\<exists>s' w'. send_on_core first_fit demo_env 99 0 (Some [2, 0, 0, 0, 0, 8]) (Some [10, 20, 30]) 3 (node 7 [(1, 2, peer_rec 8)], awake_st)
      = Inr (BK_OK, (s', w')) \<and> core_round demo_env w' = Inl Dangling)
   \<and> (\<exists>s' w'. send_on_core first_fit demo_env 99 0 (Some [2, 0, 0, 0, 0, 8]) (Some [10, 20, 30]) 3
      (node 7 [(1, 2, peer_rec 8)], awake_st\<lparr>io_queue := Some full_queue\<rparr>) = Inr (BK_OK, (s', w'))
      \<and> io_queue w' = Some full_queue \<and> log w' = [] \<and> frame_mem s' = [])"
proof -
  let ?s = "node 7 [(1, 2, peer_rec 8)]" and ?w = "awake_st\<lparr>io_queue := Some full_queue\<rparr>"
  from node_can_send obtain p where c: "can_send first_fit ?s [(1, 2, peer_rec 8)] [2, 0, 0, 0, 0, 8] [10, 20, 30] p" by blast
  have "\<forall>lg sz. os_malloc demo_env lg (dom (nodes ?w)) sz \<noteq> None" "length full_queue = CORE_QITEM_COUNT" "frame_mem ?s = []"
    using awake_sel(3) by (simp_all add: full_queue_def node_def)
  then show ?thesis
    using aware_send_race [OF c awake_sel(3), of 99] aware_send_race [OF c, of demo_env ?w 99] awake_sel
    by (simp add: eval_nat_numeral)
qed

end
