(* ===== verification/Kfifo.thy ===== *)
theory Kfifo
  imports Prelude
begin

text \<open>
  The byte queue of \<^verbatim>\<open>include/fifo.h\<close>, which the UART drivers put between interrupt and task. The
  indices \<open>in\<close> and \<open>out\<close> run freely and wrap at \<open>2\<^sup>3\<^sup>2\<close>; the position in the buffer is
  the index modulo the size, a power of two. Every function is modelled; a copy that would leave
  the buffer, or read past the caller's bytes, is the fault \<open>Bad_Index\<close>.

  The locales \<open>byte_stream\<close> and \<open>byte_queue\<close> are what a client relies on: puts append what fits, gets take
  from the front. Its interpretation is the proof that the ring buffer does this across both
  wrap-arounds.
\<close>

record kfifo =
  in_idx :: u32
  out_idx :: u32
  mask :: u32
  fsize :: u32
  buffer :: "u8 list option"

text \<open>\<open>os_memcpy(buffer + p, xs, length xs)\<close> and \<open>os_memcpy(_, buffer + p, n)\<close>\<close>

definition copy_in :: "nat \<Rightarrow> u8 list \<Rightarrow> (kfifo, unit) prog" where
  "copy_in p xs = bindM (getM buffer) (\<lambda>b. case b of
     None \<Rightarrow> failM Null_Deref
   | Some buf \<Rightarrow> if p + length xs \<le> length buf
       then modM (\<lambda>f. f\<lparr>buffer := Some (take p buf @ xs @ drop (p + length xs) buf)\<rparr>)
       else failM Bad_Index)"

definition copy_from :: "nat \<Rightarrow> nat \<Rightarrow> (kfifo, u8 list) prog" where
  "copy_from p n = bindM (getM buffer) (\<lambda>b. case b of
     None \<Rightarrow> failM Null_Deref
   | Some buf \<Rightarrow> if p + n \<le> length buf then retM (take n (drop p buf)) else failM Bad_Index)"

text \<open>\<open>NULL\<close> when the allocation of the structure fails; \<open>BUG_ON\<close> asserts that the size is a power of two.\<close>

definition kfifo_init :: "bool \<Rightarrow> u8 list \<Rightarrow> u32 \<Rightarrow> ('s, kfifo option) prog" where
  "kfifo_init malloc_ok buf sz =
     thenM (assertM (sz AND (sz - 1) = 0))
      (retM (if malloc_ok then Some \<lparr>in_idx = 0, out_idx = 0, mask = sz - 1, fsize = sz, buffer = Some buf\<rparr> else None))"

text \<open>The first allocation yields some bytes or nothing, the second is the one of \<open>kfifo_init\<close>.\<close>

definition kfifo_alloc :: "u8 list option \<Rightarrow> bool \<Rightarrow> u32 \<Rightarrow> ('s, kfifo option) prog" where
  "kfifo_alloc mem malloc_ok sz = (case mem of None \<Rightarrow> retM None | Some buf \<Rightarrow> kfifo_init malloc_ok buf sz)"

definition kfifo_free :: "(kfifo, unit) prog" where
  "kfifo_free = bindM (getM buffer) (\<lambda>_. modM (\<lambda>f. f\<lparr>buffer := None\<rparr>))"

definition kfifo_put :: "u8 list \<Rightarrow> u32 \<Rightarrow> (kfifo, u32) prog" where
  "kfifo_put bytes len0 = bindM (getM (\<lambda>f. (in_idx f, out_idx f, fsize f))) (\<lambda>(i, out, sz).
    (let len = min len0 (sz - i + out);
         l = min len (sz - (i AND (sz - 1))) in
     if length bytes < unat len then failM Bad_Index
     else
       thenM (copy_in (unat (i AND (sz - 1))) (take (unat l) bytes))
      (thenM (copy_in 0 (take (unat (len - l)) (drop (unat l) bytes)))
      (thenM (modM (\<lambda>f. f\<lparr>in_idx := in_idx f + len\<rparr>))
             (retM len)))))"

definition kfifo_get :: "u32 \<Rightarrow> (kfifo, u32 \<times> u8 list) prog" where
  "kfifo_get len0 = bindM (getM (\<lambda>f. (in_idx f, out_idx f, fsize f))) (\<lambda>(i, out, sz).
    (let len = min len0 (i - out);
         l = min len (sz - (out AND (sz - 1))) in
     bindM (copy_from (unat (out AND (sz - 1))) (unat l)) (\<lambda>xs.
     bindM (copy_from 0 (unat (len - l))) (\<lambda>ys.
     thenM (modM (\<lambda>f. f\<lparr>out_idx := out_idx f + len\<rparr>))
           (retM (len, xs @ ys))))))"

definition kfifo_data_size :: "kfifo \<Rightarrow> u32" where
  "kfifo_data_size f = in_idx f - out_idx f"

definition kfifo_unused :: "kfifo \<Rightarrow> u32" where
  "kfifo_unused f = (mask f + 1) - (in_idx f - out_idx f)"

definition kfifo_copy_out :: "u32 \<Rightarrow> u32 \<Rightarrow> (kfifo, u8 list) prog" where
  "kfifo_copy_out len off0 = bindM (getM mask) (\<lambda>m.
    (let size = m + 1; off = off0 AND m; l = min len (size - off) in
     bindM (copy_from (unat off) (unat l)) (\<lambda>xs.
     bindM (copy_from 0 (unat (len - l))) (\<lambda>ys. retM (xs @ ys)))))"

definition kfifo_out_peek :: "u32 \<Rightarrow> (kfifo, u32 \<times> u8 list) prog" where
  "kfifo_out_peek len0 = bindM (getM (\<lambda>f. (in_idx f, out_idx f))) (\<lambda>(i, out).
    (let l = i - out; len = (if len0 > l then l else len0) in
     bindM (kfifo_copy_out len out) (\<lambda>xs. retM (len, xs))))"

section \<open>The queue it holds\<close>

definition kfifo_wf :: "kfifo \<Rightarrow> bool" where
  "kfifo_wf f \<longleftrightarrow> (\<exists>k buf. k < 32 \<and> fsize f = 2 ^ k \<and> mask f = fsize f - 1 \<and> buffer f = Some buf
     \<and> length buf = 2 ^ k \<and> unat (in_idx f - out_idx f) \<le> 2 ^ k)"

definition slot :: "kfifo \<Rightarrow> nat \<Rightarrow> u8" where
  "slot f n = the (buffer f) ! (n mod unat (fsize f))"

definition kfifo_bytes :: "kfifo \<Rightarrow> u8 list" where
  "kfifo_bytes f = map (\<lambda>i. slot f (unat (out_idx f) + i)) [0..<unat (in_idx f - out_idx f)]"

section \<open>Indices\<close>

lemma unat_pow2: "k < 32 \<Longrightarrow> unat (2 ^ k :: u32) = 2 ^ k"
proof -
  assume k: "k < 32"
  then have "(2 :: nat) ^ k < 2 ^ 32" by (intro power_strict_increasing) simp_all
  then have "unat (of_nat (2 ^ k) :: u32) = 2 ^ k" by (simp only: unat_of_nat) simp
  then show ?thesis by simp
qed

lemma unat_and_mask: "k < 32 \<Longrightarrow> unat (w AND (2 ^ k - 1) :: u32) = unat w mod 2 ^ k"
proof -
  have "w AND (2 ^ k - 1) = take_bit k w" by (simp only: take_bit_eq_mask mask_eq_exp_minus_1)
  also have "unat \<dots> = take_bit k (unat w)" by (simp only: unsigned_take_bit_eq)
  finally show ?thesis by (simp only: take_bit_eq_mod)
qed

lemma pow2_dvd: "k < 32 \<Longrightarrow> (2 :: nat) ^ k dvd 2 ^ 32"
  by (rule le_imp_power_dvd) simp

lemma unat_add_mod: "k < 32 \<Longrightarrow> unat (a + b :: u32) mod 2 ^ k = (unat a + unat b) mod 2 ^ k"
  using pow2_dvd [of k] by (simp add: unat_word_ariths mod_mod_cancel)

lemma unat_min: "unat (min a b :: u32) = min (unat a) (unat b)"
  by (simp add: min_def word_le_nat_alt)

lemma unat_room:
  assumes "k < 32" and "unat (i - out :: u32) \<le> 2 ^ k"
  shows "unat (2 ^ k - i + out :: u32) = 2 ^ k - unat (i - out)"
proof -
  have "2 ^ k - i + out = 2 ^ k - (i - out)" by simp
  also have "unat \<dots> = 2 ^ k - unat (i - out)" using assms by (subst unat_sub) (simp_all add: word_le_nat_alt unat_pow2)
  finally show ?thesis .
qed

lemma unat_to_end:
  assumes "k < 32"
  shows "unat (2 ^ k - (w AND (2 ^ k - 1)) :: u32) = 2 ^ k - unat w mod 2 ^ k"
  using assms by (subst unat_sub) (simp_all add: word_le_nat_alt unat_pow2 unat_and_mask less_imp_le)

section \<open>A copy in two pieces\<close>

lemma ring_store:
  fixes buf xs :: "u8 list"
  assumes "p < S" "length buf = S" "length xs \<le> S"
  defines "b1 \<equiv> take p buf @ take (S - p) xs @ drop (p + length (take (S - p) xs)) buf"
  defines "b2 \<equiv> drop (S - p) xs @ drop (length (drop (S - p) xs)) b1"
  shows "length b2 = S"
    and "j < S \<Longrightarrow> b2 ! ((p + j) mod S) = (if j < length xs then xs ! j else buf ! ((p + j) mod S))"
proof -
  have b1: "length b1 = S" using assms(1-3) by (simp add: b1_def)
  then show "length b2 = S" using assms(1-3) by (simp add: b2_def)
  assume j: "j < S"
  show "b2 ! ((p + j) mod S) = (if j < length xs then xs ! j else buf ! ((p + j) mod S))"
  proof (cases "p + j < S")
    case True
    then show ?thesis using assms(1-3) b1 j by (auto simp: b2_def b1_def nth_append)
  next
    case False
    then have m: "(p + j) mod S = p + j - S" using j assms(1) by (simp add: mod_if)
    show ?thesis unfolding m using False assms(1-3) b1 j by (auto simp: b2_def b1_def nth_append)
  qed
qed

lemma ring_load:
  assumes "p < S" "length buf = S" "n \<le> S"
  shows "take (min n (S - p)) (drop p buf) @ take (n - min n (S - p)) buf = map (\<lambda>j. buf ! ((p + j) mod S)) [0..<n]"
  using assms by (intro nth_equalityI) (auto simp: nth_append mod_if add.commute)

section \<open>The operations on the queue\<close>

lemma kfifo_wfE:
  assumes "kfifo_wf f"
  obtains k buf where "k < 32" "fsize f = 2 ^ k" "mask f = 2 ^ k - 1" "buffer f = Some buf"
    "length buf = 2 ^ k" "unat (in_idx f - out_idx f) \<le> 2 ^ k" "unat (fsize f) = 2 ^ k"
  using assms unat_pow2 by (auto simp: kfifo_wf_def)

lemma length_kfifo_bytes [simp]: "length (kfifo_bytes f) = unat (in_idx f - out_idx f)"
  by (simp add: kfifo_bytes_def)

lemma slot_cong: "a mod unat (fsize f) = b mod unat (fsize f) \<Longrightarrow> slot f a = slot f b"
  by (simp add: slot_def)

lemma kfifo_put_run:
  assumes f: "k < 32" "fsize f = 2 ^ k" "buffer f = Some buf" "length buf = 2 ^ k" "unat (in_idx f - out_idx f) \<le> 2 ^ k"
    and len: "unat len \<le> length bytes"
  defines "n \<equiv> min (unat len) (2 ^ k - unat (in_idx f - out_idx f))"
    and "p \<equiv> unat (in_idx f) mod 2 ^ k"
  shows "\<exists>r b. kfifo_put bytes len f = Inr (r, f\<lparr>buffer := Some b, in_idx := in_idx f + r\<rparr>) \<and> unat r = n
     \<and> length b = 2 ^ k
     \<and> (\<forall>j < 2 ^ k. b ! ((p + j) mod 2 ^ k) = (if j < n then bytes ! j else buf ! ((p + j) mod 2 ^ k)))"
proof -
  define S :: nat where "S = 2 ^ k"
  define r where "r = min len (fsize f - in_idx f + out_idx f)"
  define l where "l = min r (fsize f - (in_idx f AND (fsize f - 1)))"
  define xs where "xs = take n bytes"
  define b1 where "b1 = take p buf @ take (S - p) xs @ drop (p + length (take (S - p) xs)) buf"
  define b where "b = drop (S - p) xs @ drop (length (drop (S - p) xs)) b1"
  have p: "p < S" "unat (in_idx f AND (fsize f - 1)) = p" using f by (simp_all add: p_def S_def unat_and_mask)
  have r: "unat r = n" using f unat_room [OF f(1,5)] by (simp add: r_def unat_min n_def)
  have l: "unat l = min n (S - p)" using f r unat_to_end [OF f(1), of "in_idx f"] by (simp add: l_def unat_min p_def S_def)
  have "l \<le> r" by (simp add: l_def)
  then have rl: "unat (r - l) = n - min n (S - p)" using r l by (simp add: unat_sub)
  have xs: "length xs = n" "n \<le> S" using len by (simp_all add: xs_def n_def S_def)
  have first: "take (unat l) bytes = take (S - p) xs" using l by (simp add: xs_def min.commute)
  have second: "take (unat (r - l)) (drop (unat l) bytes) = drop (S - p) xs"
    using l rl by (cases "n \<le> S - p") (simp_all add: xs_def take_drop)
  have b1: "length b1 = S" using p(1) f(4) xs by (simp add: b1_def S_def)
  have "copy_in p (take (S - p) xs) f = Inr ((), f\<lparr>buffer := Some b1\<rparr>)"
    using f p(1) xs by (auto simp: copy_in_def bindM_run S_def b1_def)
  moreover have "copy_in 0 (drop (S - p) xs) (f\<lparr>buffer := Some b1\<rparr>) = Inr ((), f\<lparr>buffer := Some b\<rparr>)"
    using b1 xs by (auto simp: copy_in_def bindM_run b_def)
  moreover have "\<not> length bytes < unat r" using len r by (simp add: n_def)
  ultimately have "kfifo_put bytes len f = Inr (r, f\<lparr>buffer := Some b, in_idx := in_idx f + r\<rparr>)"
    by (simp add: kfifo_put_def bindM_run thenM_run Let_def r_def [symmetric] l_def [symmetric] p(2) first second)
  moreover have "length b = 2 ^ k" and "\<forall>j < 2 ^ k. b ! ((p + j) mod 2 ^ k) = (if j < n then bytes ! j else buf ! ((p + j) mod 2 ^ k))"
    using ring_store [of p S buf xs] p(1) f(4) xs unfolding b_def b1_def S_def by (auto simp: xs_def)
  ultimately show ?thesis using r by blast
qed

lemma kfifo_put_queue:
  assumes wf: "kfifo_wf f" and len: "unat len \<le> length bytes"
  defines "n \<equiv> min (unat len) (unat (fsize f) - length (kfifo_bytes f))"
  shows "\<exists>f' r. kfifo_put bytes len f = Inr (r, f') \<and> unat r = n \<and> kfifo_wf f'
     \<and> fsize f' = fsize f \<and> kfifo_bytes f' = kfifo_bytes f @ take n bytes"
proof -
  from wf obtain k buf where k: "k < 32" and f: "fsize f = 2 ^ k" "mask f = 2 ^ k - 1" "buffer f = Some buf"
    "length buf = 2 ^ k" "unat (in_idx f - out_idx f) \<le> 2 ^ k" "unat (fsize f) = 2 ^ k" by (rule kfifo_wfE)
  define c where "c = unat (in_idx f - out_idx f)"
  let ?p = "unat (in_idx f) mod 2 ^ k"
  have n: "n = min (unat len) (2 ^ k - unat (in_idx f - out_idx f))" using f(6) by (simp add: n_def)
  from kfifo_put_run [OF k f(1,3,4,5) len, folded n] obtain r b where
    run: "kfifo_put bytes len f = Inr (r, f\<lparr>buffer := Some b, in_idx := in_idx f + r\<rparr>)" and r: "unat r = n"
    and b: "length b = 2 ^ k" "\<And>j. j < 2 ^ k \<Longrightarrow> b ! ((?p + j) mod 2 ^ k) = (if j < n then bytes ! j else buf ! ((?p + j) mod 2 ^ k))"
    by blast
  let ?f = "f\<lparr>buffer := Some b, in_idx := in_idx f + r\<rparr>"
  have nc: "c + n \<le> 2 ^ k" "n \<le> length bytes" "n \<le> unat len" using n len f(5) by (auto simp: c_def)
  have k31: "(2 :: nat) ^ k < 2 ^ 32" using k by (intro power_strict_increasing) simp_all
  have size: "unat (in_idx f + r - out_idx f) = c + n"
  proof -
    have "in_idx f + r - out_idx f = (in_idx f - out_idx f) + r" by simp
    also have "unat \<dots> = c + n" using nc(1) k31 r by (subst unat_add_lem [THEN iffD1]) (simp_all add: c_def)
    finally show ?thesis .
  qed
  have pos: "?p = (unat (out_idx f) + c) mod 2 ^ k"
    using unat_add_mod [OF k, of "out_idx f" "in_idx f - out_idx f"] by (simp add: c_def)
  have "kfifo_bytes ?f = kfifo_bytes f @ take n bytes"
  proof (rule nth_equalityI)
    fix i assume "i < length (kfifo_bytes ?f)"
    then have i: "i < c + n" using size by simp
    show "kfifo_bytes ?f ! i = (kfifo_bytes f @ take n bytes) ! i"
    proof (cases "i < c")
      case True
      have "(?p + (2 ^ k - c + i)) mod 2 ^ k = (unat (out_idx f) + c + (2 ^ k - c + i)) mod 2 ^ k"
        unfolding pos by (simp add: mod_simps)
      also have "unat (out_idx f) + c + (2 ^ k - c + i) = unat (out_idx f) + i + 2 ^ k" using nc(1) by simp
      finally have "(?p + (2 ^ k - c + i)) mod 2 ^ k = (unat (out_idx f) + i) mod 2 ^ k" by simp
      moreover have "2 ^ k - c + i < 2 ^ k" "\<not> 2 ^ k - c + i < n" using True nc(1) by auto
      ultimately have "b ! ((unat (out_idx f) + i) mod 2 ^ k) = buf ! ((unat (out_idx f) + i) mod 2 ^ k)"
        using b(2) [of "2 ^ k - c + i"] by simp
      then show ?thesis using True size f by (simp add: kfifo_bytes_def slot_def nth_append c_def [symmetric])
    next
      case False
      then obtain d where d: "i = c + d" using le_Suc_ex not_less by blast
      have "(?p + (i - c)) mod 2 ^ k = (unat (out_idx f) + i) mod 2 ^ k"
        unfolding pos d by (simp add: mod_simps add.assoc)
      moreover have "i - c < n" "i - c < 2 ^ k" using False i nc(1) by auto
      ultimately have "b ! ((unat (out_idx f) + i) mod 2 ^ k) = bytes ! (i - c)"
        using b(2) [of "i - c"] by simp
      then show ?thesis using False i size f nc by (simp add: kfifo_bytes_def slot_def nth_append c_def [symmetric])
    qed
  qed (use size nc in \<open>simp add: c_def\<close>)
  moreover have "kfifo_wf ?f" using k f b(1) size nc(1) by (auto simp: kfifo_wf_def)
  ultimately show ?thesis using run r by auto
qed

lemma copy_out_run:
  fixes len w :: u32
  assumes f: "k < 32" "buffer f = Some buf" "length buf = 2 ^ k" and n: "unat len \<le> 2 ^ k"
    and l: "l = min len (2 ^ k - (w AND (2 ^ k - 1)))"
  shows "bindM (copy_from (unat (w AND (2 ^ k - 1))) (unat l)) (\<lambda>xs. bindM (copy_from 0 (unat (len - l))) (\<lambda>ys. m (xs @ ys))) f
    = m (map (\<lambda>j. buf ! ((unat w + j) mod 2 ^ k)) [0..<unat len]) f"
proof -
  let ?p = "unat w mod 2 ^ k"
  have p: "?p < 2 ^ k" "unat (w AND (2 ^ k - 1)) = ?p" using f(1) by (simp_all add: unat_and_mask)
  have ul: "unat l = min (unat len) (2 ^ k - ?p)" using unat_to_end [OF f(1), of w] by (simp add: l unat_min)
  have "l \<le> len" by (simp add: l)
  then have rest: "unat (len - l) = unat len - unat l" by (simp add: unat_sub)
  have "take (unat l) (drop ?p buf) @ take (unat len - unat l) buf = map (\<lambda>j. buf ! ((unat w + j) mod 2 ^ k)) [0..<unat len]"
    using ring_load [OF p(1) f(3) n] by (simp add: ul mod_simps)
  moreover have "?p + unat l \<le> 2 ^ k" using p(1) unfolding ul by linarith
  moreover have "unat len - unat l \<le> 2 ^ k" using n by simp
  ultimately show ?thesis using f(2,3) p(2) rest by (simp add: copy_from_def bindM_run)
qed

lemma kfifo_get_queue:
  fixes len :: u32
  assumes wf: "kfifo_wf f"
  defines "n \<equiv> min (unat len) (length (kfifo_bytes f))"
  shows "\<exists>f' r. kfifo_get len f = Inr ((r, take n (kfifo_bytes f)), f') \<and> unat r = n \<and> kfifo_wf f'
     \<and> fsize f' = fsize f \<and> kfifo_bytes f' = drop n (kfifo_bytes f)"
proof -
  from wf obtain k buf where k: "k < 32" and f: "fsize f = 2 ^ k" "mask f = 2 ^ k - 1" "buffer f = Some buf"
    "length buf = 2 ^ k" "unat (in_idx f - out_idx f) \<le> 2 ^ k" "unat (fsize f) = 2 ^ k" by (rule kfifo_wfE)
  define r where "r = min len (in_idx f - out_idx f)"
  let ?f = "f\<lparr>out_idx := out_idx f + r\<rparr>"
  have r: "unat r = n" by (simp add: r_def unat_min n_def)
  then have rs: "unat r \<le> 2 ^ k" using f(5) by (simp add: n_def)
  have "map (\<lambda>j. buf ! ((unat (out_idx f) + j) mod 2 ^ k)) [0..<n] = take n (kfifo_bytes f)"
    using f r by (simp add: kfifo_bytes_def slot_def take_map n_def)
  with copy_out_run [OF k f(3,4) rs refl, of "out_idx f" "\<lambda>xs. thenM (modM (\<lambda>f. f\<lparr>out_idx := out_idx f + r\<rparr>)) (retM (r, xs))"]
  have run: "kfifo_get len f = Inr ((r, take n (kfifo_bytes f)), ?f)"
    by (simp add: kfifo_get_def bindM_run [of "getM _"] Let_def f(1) r r_def [symmetric])
  have size: "unat (in_idx f - (out_idx f + r)) = unat (in_idx f - out_idx f) - n"
  proof -
    have "in_idx f - (out_idx f + r) = (in_idx f - out_idx f) - r" by simp
    also have "unat \<dots> = unat (in_idx f - out_idx f) - n" using r by (subst unat_sub) (simp_all add: r_def)
    finally show ?thesis .
  qed
  have "slot ?f (unat (out_idx f + r) + i) = slot f (unat (out_idx f) + (n + i))" for i
    using unat_add_mod [OF k, of "out_idx f" r] f(6) r
    by (simp add: slot_def) (metis add.assoc mod_add_left_eq)
  then have "kfifo_bytes ?f = drop n (kfifo_bytes f)"
    using size by (intro nth_equalityI) (auto simp: kfifo_bytes_def)
  moreover have "kfifo_wf ?f" using k f size by (auto simp: kfifo_wf_def)
  ultimately show ?thesis using run r by auto
qed

lemma kfifo_peek_queue:
  fixes len :: u32
  assumes wf: "kfifo_wf f"
  defines "n \<equiv> min (unat len) (length (kfifo_bytes f))"
  shows "\<exists>r. kfifo_out_peek len f = Inr ((r, take n (kfifo_bytes f)), f) \<and> unat r = n"
proof -
  from wf obtain k buf where k: "k < 32" and f: "fsize f = 2 ^ k" "mask f = 2 ^ k - 1" "buffer f = Some buf"
    "length buf = 2 ^ k" "unat (in_idx f - out_idx f) \<le> 2 ^ k" "unat (fsize f) = 2 ^ k" by (rule kfifo_wfE)
  define r where "r = (if len > in_idx f - out_idx f then in_idx f - out_idx f else len)"
  have r: "unat r = n" by (auto simp: r_def n_def word_less_nat_alt min_def)
  then have rs: "unat r \<le> 2 ^ k" using f(5) by (simp add: n_def)
  have "map (\<lambda>j. buf ! ((unat (out_idx f) + j) mod 2 ^ k)) [0..<n] = take n (kfifo_bytes f)"
    using f r by (simp add: kfifo_bytes_def slot_def take_map n_def)
  with copy_out_run [OF k f(3,4) rs refl, of "out_idx f" retM]
  have "kfifo_copy_out r (out_idx f) f = Inr (take n (kfifo_bytes f), f)"
    by (simp add: kfifo_copy_out_def bindM_run [of "getM _"] Let_def f(2) r)
  then show ?thesis using r
    by (simp add: kfifo_out_peek_def bindM_run Let_def r_def [symmetric])
qed

lemma kfifo_sizes:
  assumes "kfifo_wf f"
  shows "unat (kfifo_data_size f) = length (kfifo_bytes f)" "unat (kfifo_unused f) = unat (fsize f) - length (kfifo_bytes f)"
proof -
  from assms obtain k buf where k: "k < 32" and f: "fsize f = 2 ^ k" "mask f = 2 ^ k - 1"
    "unat (in_idx f - out_idx f) \<le> 2 ^ k" "unat (fsize f) = 2 ^ k" by (auto elim: kfifo_wfE)
  show "unat (kfifo_data_size f) = length (kfifo_bytes f)" by (simp add: kfifo_data_size_def)
  show "unat (kfifo_unused f) = unat (fsize f) - length (kfifo_bytes f)"
    using f k by (simp add: kfifo_unused_def unat_sub word_le_nat_alt unat_pow2)
qed

section \<open>What a client relies on\<close>

text \<open>
  A client's calls in sequence: a put of bytes, or a get of up to some number. The result is what
  was accepted and what came out.
\<close>

definition queue_call ::
    "(u8 list \<Rightarrow> u32 \<Rightarrow> ('q, u32) prog) \<Rightarrow> (u32 \<Rightarrow> ('q, u32 \<times> u8 list) prog) \<Rightarrow> u8 list + u32 \<Rightarrow> ('q, u8 list \<times> u8 list) prog" where
  "queue_call put get op = (case op of
     Inl bs \<Rightarrow> bindM (put bs (of_nat (length bs))) (\<lambda>r. retM (take (unat r) bs, []))
   | Inr len \<Rightarrow> bindM (get len) (\<lambda>(r, out). retM ([], out)))"

fun queue_calls ::
    "(u8 list \<Rightarrow> u32 \<Rightarrow> ('q, u32) prog) \<Rightarrow> (u32 \<Rightarrow> ('q, u32 \<times> u8 list) prog) \<Rightarrow> (u8 list + u32) list \<Rightarrow> ('q, u8 list \<times> u8 list) prog" where
  "queue_calls put get [] = retM ([], [])"
| "queue_calls put get (op # ops) =
     bindM (queue_call put get op) (\<lambda>(a, b). bindM (queue_calls put get ops) (\<lambda>(as, bs). retM (a @ as, b @ bs)))"

text \<open>A stream of bytes: \<open>put\<close> appends a first part of what it is given (fewer than \<open>limit\<close> bytes) and says
  how much, \<open>get\<close> takes from the front.\<close>

locale byte_stream =
  fixes put :: "u8 list \<Rightarrow> u32 \<Rightarrow> ('q, u32) prog" and get :: "u32 \<Rightarrow> ('q, u32 \<times> u8 list) prog"
    and bytes_of :: "'q \<Rightarrow> u8 list" and limit :: nat and ok :: "'q \<Rightarrow> bool"
  assumes limit: "limit \<le> 2 ^ 32"
    and put_stream: "ok q \<Longrightarrow> unat len \<le> length bs \<Longrightarrow> unat len < limit \<Longrightarrow> \<exists>q' r. put bs len q = Inr (r, q')
      \<and> ok q' \<and> bytes_of q' = bytes_of q @ take (unat r) bs"
    and get_stream: "ok q \<Longrightarrow> \<exists>q' r. get len q = Inr ((r, take (unat r) (bytes_of q)), q')
      \<and> ok q' \<and> bytes_of q' = drop (unat r) (bytes_of q)"
begin

lemma call_fifo:
  assumes "ok q" and "\<And>bs. op = Inl bs \<Longrightarrow> length bs < limit"
  shows "\<exists>a b q'. queue_call put get op q = Inr ((a, b), q') \<and> ok q' \<and> bytes_of q @ a = b @ bytes_of q'"
proof (cases op)
  case (Inl bs)
  then have "unat (of_nat (length bs) :: u32) = length bs" using assms(2) limit by (simp add: unat_of_nat)
  with put_stream [OF assms(1), of "of_nat (length bs)" bs] Inl assms(2) show ?thesis by (auto simp: queue_call_def)
next
  case (Inr len)
  with get_stream [OF assms(1), of len] show ?thesis by (auto simp: queue_call_def)
qed

lemma calls_fifo:
  assumes "ok q" and "\<And>bs. Inl bs \<in> set ops \<Longrightarrow> length bs < limit"
  shows "\<exists>a b q'. queue_calls put get ops q = Inr ((a, b), q') \<and> ok q' \<and> bytes_of q @ a = b @ bytes_of q'"
  using assms
proof (induction ops arbitrary: q)
  case (Cons op ops)
  from call_fifo [OF Cons.prems(1), of op] Cons.prems(2) obtain a b q1 where
    1: "queue_call put get op q = Inr ((a, b), q1)" "ok q1" "bytes_of q @ a = b @ bytes_of q1" by auto
  from Cons.IH [OF 1(2)] Cons.prems(2) obtain as bs q2 where
    2: "queue_calls put get ops q1 = Inr ((as, bs), q2)" "ok q2" "bytes_of q1 @ as = bs @ bytes_of q2" by auto
  have "bytes_of q @ a @ as = (b @ bs) @ bytes_of q2" using 1(3) 2(3) by (metis append.assoc)
  then show ?case using 1 2 by simp
qed simp

end

text \<open>A bounded queue of bytes, which takes and yields as much as it can.\<close>

locale byte_queue =
  fixes put :: "u8 list \<Rightarrow> u32 \<Rightarrow> ('q, u32) prog" and get :: "u32 \<Rightarrow> ('q, u32 \<times> u8 list) prog"
    and bytes_of :: "'q \<Rightarrow> u8 list" and room :: "'q \<Rightarrow> nat" and ok :: "'q \<Rightarrow> bool"
  assumes put_law: "ok q \<Longrightarrow> unat len \<le> length bs \<Longrightarrow> \<exists>q' r. put bs len q = Inr (r, q') \<and> unat r = min (unat len) (room q)
      \<and> ok q' \<and> bytes_of q' = bytes_of q @ take (unat r) bs"
    and get_law: "ok q \<Longrightarrow> \<exists>q' r. get len q = Inr ((r, take (unat r) (bytes_of q)), q') \<and> unat r = min (unat len) (length (bytes_of q))
      \<and> ok q' \<and> bytes_of q' = drop (unat r) (bytes_of q)"

sublocale byte_queue \<subseteq> byte_stream put get bytes_of "2 ^ 32" ok
  by unfold_locales (use put_law get_law in \<open>fast+\<close>)

interpretation kf: byte_queue kfifo_put kfifo_get kfifo_bytes "\<lambda>f. unat (fsize f) - length (kfifo_bytes f)" kfifo_wf
  using kfifo_put_queue kfifo_get_queue by unfold_locales metis+

lemma kfifo_init_run:
  assumes "k < 32" and "length buf = 2 ^ k"
  shows "kfifo_init True buf (2 ^ k) s = Inr (Some \<lparr>in_idx = 0, out_idx = 0, mask = 2 ^ k - 1, fsize = 2 ^ k, buffer = Some buf\<rparr>, s)"
    and "kfifo_wf \<lparr>in_idx = 0, out_idx = 0, mask = 2 ^ k - 1, fsize = 2 ^ k, buffer = Some buf\<rparr>"
    and "kfifo_bytes \<lparr>in_idx = 0, out_idx = 0, mask = 2 ^ k - 1, fsize = 2 ^ k, buffer = Some buf\<rparr> = []"
proof -
  have "unat ((2 ^ k :: u32) AND (2 ^ k - 1)) = 0" using assms(1) by (simp add: unat_and_mask unat_pow2)
  then have "(2 ^ k :: u32) AND (2 ^ k - 1) = 0" by (simp add: unat_eq_zero)
  then show "kfifo_init True buf (2 ^ k) s = Inr (Some \<lparr>in_idx = 0, out_idx = 0, mask = 2 ^ k - 1, fsize = 2 ^ k, buffer = Some buf\<rparr>, s)"
    by (simp add: kfifo_init_def)
qed (use assms in \<open>auto simp: kfifo_wf_def kfifo_bytes_def\<close>)

text \<open>
  C28: A queue made by \<open>kfifo_init\<close> over a buffer of a power of two (up to \<open>2\<^sup>3\<^sup>1\<close>) bytes is first in, first
  out for ever: after any sequence of puts and gets, none of which faults, the bytes
  accepted are exactly the bytes handed out followed by the bytes still held, in order, however
  often the indices have wrapped.
\<close>

theorem kfifo_fifo:
  assumes "k < 32" and "length buf = 2 ^ k" and "\<forall>bs. Inl bs \<in> set ops \<longrightarrow> length bs < 2 ^ 32"
  shows "\<exists>f accepted out f'. kfifo_init True buf (2 ^ k) () = Inr (Some f, ())
     \<and> queue_calls kfifo_put kfifo_get ops f = Inr ((accepted, out), f') \<and> accepted = out @ kfifo_bytes f'"
  using kfifo_init_run [OF assms(1,2)] kf.calls_fifo [of _ ops] assms(3) by fastforce

theorem kfifo_fifo_witness:
  "\<exists>f accepted out f'. kfifo_init True [0, 0, 0, 0] (2 ^ 2) () = Inr (Some f, ())
     \<and> queue_calls kfifo_put kfifo_get [Inl [1, 2, 3], Inr 2, Inl [4, 5, 6], Inr 4] f = Inr ((accepted, out), f')
     \<and> accepted = out @ kfifo_bytes f'"
  using kfifo_fifo [of 2 "[0, 0, 0, 0]" "[Inl [1, 2, 3], Inr 2, Inl [4, 5, 6], Inr 4]"] by auto

text \<open>
  C38: On a well-formed queue with indices anywhere in their 32-bit range, \<open>kfifo_put\<close> accepts as much
  as there is room for and appends it; \<open>kfifo_get\<close> and \<open>kfifo_out_peek\<close> yield the front, the latter
  without a change; \<open>kfifo_data_size\<close> and \<open>kfifo_unused\<close> add up to the size.
\<close>

theorem kfifo_wraps:
  assumes wf: "kfifo_wf f" and len: "unat len \<le> length bytes"
  shows "(\<exists>f' r. kfifo_put bytes len f = Inr (r, f')
       \<and> unat r = min (unat len) (unat (kfifo_unused f)) \<and> kfifo_wf f' \<and> kfifo_bytes f' = kfifo_bytes f @ take (unat r) bytes)
     \<and> (\<exists>f' r. kfifo_get len f = Inr ((r, take (unat r) (kfifo_bytes f)), f')
       \<and> unat r = min (unat len) (unat (kfifo_data_size f)) \<and> kfifo_wf f' \<and> kfifo_bytes f' = drop (unat r) (kfifo_bytes f))
     \<and> (\<exists>r. kfifo_out_peek len f = Inr ((r, take (unat r) (kfifo_bytes f)), f) \<and> unat r = min (unat len) (unat (kfifo_data_size f)))
     \<and> unat (kfifo_data_size f) + unat (kfifo_unused f) = unat (fsize f)"
proof (intro conjI)
  note sizes = kfifo_sizes [OF wf]
  show "\<exists>f' r. kfifo_put bytes len f = Inr (r, f') \<and> unat r = min (unat len) (unat (kfifo_unused f)) \<and> kfifo_wf f'
       \<and> kfifo_bytes f' = kfifo_bytes f @ take (unat r) bytes"
    using kf.put_law [OF wf len] sizes by simp
  show "\<exists>f' r. kfifo_get len f = Inr ((r, take (unat r) (kfifo_bytes f)), f')
       \<and> unat r = min (unat len) (unat (kfifo_data_size f)) \<and> kfifo_wf f' \<and> kfifo_bytes f' = drop (unat r) (kfifo_bytes f)"
    using kf.get_law [OF wf, of len] sizes by simp
  show "\<exists>r. kfifo_out_peek len f = Inr ((r, take (unat r) (kfifo_bytes f)), f) \<and> unat r = min (unat len) (unat (kfifo_data_size f))"
    using kfifo_peek_queue [OF wf, of len] sizes by metis
  show "unat (kfifo_data_size f) + unat (kfifo_unused f) = unat (fsize f)"
    using wf sizes by (auto elim!: kfifo_wfE)
qed

text \<open>A queue of four bytes whose input index is about to wrap, with one byte in it.\<close>

definition wrap_fifo :: kfifo where
  "wrap_fifo = \<lparr>in_idx = 0xFFFFFFFF, out_idx = 0xFFFFFFFE, mask = 3, fsize = 4, buffer = Some [9, 9, 7, 9]\<rparr>"

lemma wrap_fifo_wf: "kfifo_wf wrap_fifo" and wrap_fifo_bytes: "kfifo_bytes wrap_fifo = [7]"
  by (auto simp: kfifo_wf_def wrap_fifo_def kfifo_bytes_def slot_def intro!: exI [of _ 2])

theorem kfifo_wraps_witness:
  "\<exists>f' r. kfifo_put [1, 2, 3, 4] 4 wrap_fifo = Inr (r, f') \<and> unat r = 3 \<and> kfifo_wf f' \<and> kfifo_bytes f' = [7, 1, 2, 3]"
proof -
  have "kfifo_unused wrap_fifo = 3" by (simp add: kfifo_unused_def wrap_fifo_def)
  then show ?thesis
    using kfifo_wraps [OF wrap_fifo_wf, of 4 "[1, 2, 3, 4]"] wrap_fifo_bytes by auto
qed

end
