(* ===== verification/Core_Frame.thy ===== *)
theory Core_Frame
  imports Core_Thread
begin

text \<open>
  What the data path leaves alone. The locale \<open>msdu_observer\<close> is a view of the state that none of the writes of
  \<open>Rw_Msdu\<close> changes; then no function of \<open>Rw_Msdu\<close> changes it. It is interpreted on the packet buffers here and on the receive
  messages in \<open>Core_Rx\<close>.
\<close>

section \<open>Loops and cases\<close>

lemma frame_on_links: "(\<And>l s. f (upd (\<lambda>_. l) s) = f s) \<Longrightarrow> frame f (on_links get upd m)"
  unfolding frame_def on_links_def by (auto split: sum.splits)

text \<open>A loop leaves alone what its body leaves alone.\<close>

lemma frame_safe_loop:
  assumes "safe_loop nx head body pos n acc s = Some r"
  shows "(\<forall>p a. frame f (body p a)) \<longrightarrow> (\<forall>x s'. r = Inr (x, s') \<longrightarrow> f s' = f s)"
proof (rule safe_loop.raw_induct [where P = "\<lambda>nx head body pos n acc s r.
    (\<forall>p a. frame f (body p a)) \<longrightarrow> (\<forall>x s'. r = Inr (x, s') \<longrightarrow> f s' = f s)", OF _ assms], intro impI allI)
  fix loop nx head body pos n acc s r x s'
  assume IH: "\<And>nx head body pos n acc s r. loop nx head body pos n acc s = Some r \<Longrightarrow>
      (\<forall>p a. frame f (body p a)) \<longrightarrow> (\<forall>x s'. r = Inr (x, s') \<longrightarrow> f s' = f s)"
    and eq: "(if pos = head then Some (Inr (acc, s))
        else case body pos acc s of Inl e \<Rightarrow> Some (Inl e)
          | Inr (r, s') \<Rightarrow> if snd r then Some (Inr (fst r, s'))
              else case n of None \<Rightarrow> Some (Inl Null_Deref) | Some q \<Rightarrow> loop nx head body q (nx s' q) (fst r) s') = Some r"
    and b: "\<forall>p a. frame f (body p a)" and r: "r = Inr (x, s')"
  show "f s' = f s"
  proof (cases "pos = head")
    case False
    show ?thesis
    proof (cases "body pos acc s")
      case (Inr p)
      obtain w s1 where p: "p = (w, s1)" by (cases p)
      have s1: "f s1 = f s" using frameD [of f "body pos acc" s w s1] b Inr p by simp
      show ?thesis
      proof (cases "snd w")
        case True
        then show ?thesis using eq False Inr p r s1 by simp
      next
        case nx: False
        then obtain q where "loop nx head body q (nx s1 q) (fst w) s1 = Some r"
          using eq False Inr p r by (auto split: option.splits)
        from IH [OF this] b r have "f s' = f s1" by blast
        with s1 show ?thesis by simp
      qed
    qed (use eq False r in simp)
  qed (use eq r in simp)
qed

lemma frame_each_safe [frame_intros]: "(\<And>p a. frame f (body p a)) \<Longrightarrow> frame f (list_for_each_safe nx head body acc)"
  unfolding frame_def list_for_each_safe_def
  using frame_safe_loop [of nx head body _ _ acc _ _ f] by (fastforce simp: frame_def split: option.splits)

lemma frame_flush_loop:
  assumes "flush_loop pop s = Some r"
  shows "frame f pop \<longrightarrow> (\<forall>a. frame f (os_free a)) \<longrightarrow> (\<forall>x s'. r = Inr (x, s') \<longrightarrow> f s' = f s)"
proof (rule flush_loop.raw_induct [where P = "\<lambda>pop s r.
    frame f pop \<longrightarrow> (\<forall>a. frame f (os_free a)) \<longrightarrow> (\<forall>x s'. r = Inr (x, s') \<longrightarrow> f s' = f s)", OF _ assms], intro impI allI)
  fix loop pop s r x s'
  assume IH: "\<And>pop s r. loop pop s = Some r \<Longrightarrow>
      frame f pop \<longrightarrow> (\<forall>a. frame f (os_free a)) \<longrightarrow> (\<forall>x s'. r = Inr (x, s') \<longrightarrow> f s' = f s)"
    and eq: "(case pop s of Inl e \<Rightarrow> Some (Inl e)
        | Inr (r, s1) \<Rightarrow> (case r of None \<Rightarrow> Some (Inr ((), s1))
            | Some a \<Rightarrow> (case os_free a s1 of Inl e \<Rightarrow> Some (Inl e) | Inr (_, s2) \<Rightarrow> loop pop s2))) = Some r"
    and b: "frame f pop" "\<forall>a. frame f (os_free a)" and r: "r = Inr (x, s')"
  from eq r obtain w s1 where w: "pop s = Inr (w, s1)" by (auto split: sum.splits)
  then have s1: "f s1 = f s" using frameD [OF b(1)] by blast
  show "f s' = f s"
  proof (cases w)
    case None
    then show ?thesis using eq w r s1 by simp
  next
    case (Some a)
    with eq w r obtain u s2 where u: "os_free a s1 = Inr (u, s2)" "loop pop s2 = Some r" by (auto split: sum.splits)
    have "f s2 = f s1" using frameD [of f "os_free a" s1 u s2] b(2) u(1) by blast
    moreover from IH [OF u(2)] b r have "f s' = f s2" by blast
    ultimately show ?thesis using s1 by simp
  qed
qed

lemma frame_flush_list [frame_intros]: "frame f pop \<Longrightarrow> (\<And>a. frame f (os_free a)) \<Longrightarrow> frame f (flush_list pop)"
  unfolding flush_list_def frame_def [of f "\<lambda>s. case flush_loop pop s of None \<Rightarrow> Inl Busy_Hang | Some r \<Rightarrow> r"]
  using frame_flush_loop [of pop _ _ f] by (fastforce split: option.splits)

lemma frame_case_place [frame_intros]:
  "(\<And>a. frame f (m a)) \<Longrightarrow> frame f n \<Longrightarrow> (\<And>i. frame f (k i)) \<Longrightarrow> frame f (case p of Msdu a \<Rightarrow> m a | Rx_List \<Rightarrow> n | Txing i \<Rightarrow> k i)"
  by (cases p) auto

lemma frame_case_param [frame_intros]:
  "(\<And>a. frame f (m a)) \<Longrightarrow> (\<And>i. frame f (k i)) \<Longrightarrow> frame f (case p of User_Param a \<Rightarrow> m a | Desc_Param i \<Rightarrow> k i)"
  by (cases p) auto

lemma frame_case_cb [frame_intros]:
  "frame f m \<Longrightarrow> (\<And>i. frame f (k i)) \<Longrightarrow> frame f (case p of Data_Tx_Cb \<Rightarrow> m | Mgmt_Cb i \<Rightarrow> k i)"
  by (cases p) auto

lemmas msdu_frame_defs = node_at_def upd_node_def os_free_def upd_desc_def rd_at_def deref_def vif_at_def sta_at_def
  rwm_mgmt_is_ap_inface_def sta_mgmt_is_in_ps_def sta_mgmt_get_vif_idx_def sta_mgmt_get_aid_def
  txl_cntrl_inc_pck_cnt_def txl_cntrl_dec_pck_cnt_def timer_cmd_def rtos_start_timer_def rtos_stop_timer_def rtos_is_timer_running_def

section \<open>Observers\<close>

definition is_rx_evt :: "wifi_event \<Rightarrow> bool" where
  "is_rx_evt e = (case e of Rx_Evt _ \<Rightarrow> True | _ \<Rightarrow> False)"

locale msdu_observer =
  fixes f :: "wifi_st \<Rightarrow> 'c"
  assumes keeps [simp]: "f (s\<lparr>nodes := N\<rparr>) = f s" "f (s\<lparr>mlinks := l\<rparr>) = f s" "f (s\<lparr>txd := T\<rparr>) = f s"
      "f (s\<lparr>pck_cnt := c\<rparr>) = f s" "f (s\<lparr>ps_timer := pt\<rparr>) = f s" "f (s\<lparr>sta_info_tab := st\<rparr>) = f s"
    and keeps_log: "\<not> is_rx_evt e \<Longrightarrow> f (s\<lparr>log := log s @ [e]\<rparr>) = f s"
    and frame_txing [frame_intros]: "frame f (bmsg_txing_sender i)"
begin

lemma frame_log: "\<not> is_rx_evt e \<Longrightarrow> frame f (logM e)"
  unfolding logM_def by (rule frame_modM) (rule keeps_log)

lemma frame_links [frame_intros]: "frame f (in_mlinks m)"
  by (rule frame_on_links) simp

lemma frame_logs [frame_intros]:
  "frame f (logM (Txu_Push d t bs q))" "frame f (logM (Txl_Push d t bs q))" "frame f (logM (Tim_Update v a b))"
  "frame f (logM (Mgmt_Call h p))" "frame f (logM (Tx_Result c b))" "frame f (logM Data_Prevent)"
  "frame f (logM Pwr_Mgt_Off)" "frame f (logM Ps_Wakeup)" "frame f (logM Dtim_Wakeup)"
  "frame f (logM (Hapd_Rx c))" "frame f (logM (Ke_Msg c))" "frame f (logM (Ps_Msg x))" "frame f (logM (Sema_Set c))"
  "frame f (logM Ke_Sched)" "frame f (logM Sleep_Check)" "frame f (logM (Raw_Freed bs))"
  by (rule frame_log, simp add: is_rx_evt_def)+

lemma frame_mem [frame_intros]:
  "frame f (node_at a)" "frame f (upd_node a h)" "frame f (os_free a)" "frame f (upd_desc d g)"
  "frame f (rd_at bs i n)" "frame f (deref p)" "frame f (vif_at v)" "frame f (sta_at v)"
  "frame f (rwm_mgmt_is_ap_inface v)" "frame f (sta_mgmt_is_in_ps v)" "frame f (sta_mgmt_get_vif_idx v)"
  "frame f (sta_mgmt_get_aid v)" "frame f txl_cntrl_inc_pck_cnt" "frame f txl_cntrl_dec_pck_cnt"
  "frame f (rtos_start_timer env i)" "frame f (rtos_stop_timer env i)" "frame f (rtos_is_timer_running i)"
  unfolding msdu_frame_defs by (intro frame_intros; simp)+

lemma frame_nodes [frame_intros]:
  "frame f (rwm_tx_node_alloc env n)" "frame f (rwm_node_free p)" "frame f (rwm_tx_msdu_renew buf n a)"
  "frame f (ieee80211_data_tx_cb q)"
  unfolding rwm_tx_node_alloc_def rwm_node_free_def rwm_tx_msdu_renew_def ieee80211_data_tx_cb_def
  by (intro frame_intros; simp)+

lemma frame_confirm [frame_intros]: "frame f (rwm_tx_confirm p)"
  unfolding rwm_tx_confirm_def by (intro frame_intros)

lemma frame_events [frame_intros]: "frame f (push_event Txl_Push d a q)" "frame f (push_event Txu_Push d a q)"
  unfolding push_event_def by (intro frame_intros)+

lemma frame_raw [frame_intros]: "frame f (rwm_raw_frame_with_cb env b n cb par)"
  unfolding rwm_raw_frame_with_cb_def by (intro frame_intros)

lemma frame_queue [frame_intros]: "frame f (pick_queue env v bs)"
  unfolding pick_queue_def rwm_mgmt_vif_idx2ptr_def classify8021d_def ipv4_ieee8023_dscp_def ipv6_ieee8023_dscp_def
  by (intro frame_intros)

lemma frame_node [frame_intros]: "frame f (rwm_transfer_node env p flag)"
  unfolding rwm_transfer_node_def tx_exit_def rwm_txdesc_copy_def by (intro frame_intros)

lemma frame_lists [frame_intros]:
  "frame f (rwm_push_txing_list a i)" "frame f (rwm_pop_txing_list i)" "frame f (rwm_txling_list_node_count i)"
  unfolding rwm_push_txing_list_def rwm_pop_txing_list_def rwm_txling_list_node_count_def pop_list_def pop_body_def
  by (intro frame_intros)+

lemma frame_timers [frame_intros]: "frame f (start_if_stopped env k)" "frame f (stop_if_running env k)"
  unfolding start_if_stopped_def stop_if_running_def by (intro frame_intros)+

lemma frame_flush [frame_intros]: "frame f (rwm_flush_txing_list env i)"
  unfolding rwm_flush_txing_list_def by (intro frame_intros)

lemma frame_ps [frame_intros]: "frame f (rwm_ps_tranfer_node env p)"
  unfolding rwm_ps_tranfer_node_def normal_transfer_def by (intro frame_intros)

lemma frame_send [frame_intros]: "frame f (rwm_msdu_send_txing_node env i)"
  unfolding rwm_msdu_send_txing_node_def by (intro frame_intros)

lemma frame_ind [frame_intros]: "frame f (rwm_msdu_ps_change_ind_handler env msg)"
  unfolding rwm_msdu_ps_change_ind_handler_def by (intro frame_intros)

lemma frame_staidx [frame_intros]: "frame f (rwm_mgmt_tx_get_staidx v mac)"
  unfolding rwm_mgmt_tx_get_staidx_def rwm_mgmt_vif_idx2ptr_def rwm_mgmt_sta_mac2idx_def by (intro frame_intros)

lemma frame_transfer [frame_intros]: "frame f (rwm_transfer env v bs n sy ar)"
  unfolding rwm_transfer_def by (intro frame_intros)

lemma frame_exec [frame_intros]: "frame f (msdu_exec env c)"
proof (cases c)
  case (Desc_Done d st)
  then show ?thesis unfolding msdu_exec_def mac_done_def by (simp add: frame_intros)
next
  case (Sta_Ps i ps)
  then show ?thesis unfolding msdu_exec_def by (simp add: frame_modM)
qed (simp_all add: msdu_exec_def rwm_msdu_ap_ps_timeout_def frame_intros)

end

interpretation pbufs: msdu_observer pbufs
proof unfold_locales
  show "frame pbufs (bmsg_txing_sender i)" for i
    unfolding bmsg_txing_sender_def rtos_push_to_queue_def by (intro frame_intros; simp)
qed simp_all

end
