(* ===== verification/Core_Rx.thy ===== *)
theory Core_Rx
  imports Core_Frame
begin

text \<open>
  The receive messages of the core thread. The receive interrupt posts at most two of them at a time and keeps count in
  \<^verbatim>\<open>bmsg_rx_count\<close>; every other function leaves the count, these messages and the receive events alone
  (\<open>Core_Frame\<close>), so the calls refine a small step relation
  (\<open>rx_step\<close>), from which a bound and a flaw follow.
\<close>

section \<open>The receive messages\<close>

text \<open>
  The receive messages: how many the counter says are in the queue, those that are, and the events
  that the MAC library was told of. No function but the sender and the handler of these messages touches them.
\<close>

definition is_rx :: "BUS_MSG_T \<Rightarrow> bool" where
  "is_rx m = (case msg_type m of BMSG_RX_TYPE _ \<Rightarrow> True | _ \<Rightarrow> False)"

definition rx_view :: "wifi_st \<Rightarrow> int \<times> BUS_MSG_T list option \<times> wifi_event list" where
  "rx_view s = (bmsg_rx_count s, map_option (filter is_rx) (io_queue s), filter is_rx_evt (log s))"

lemma frame_rx_mod [frame_intros]:
  "(\<And>s. bmsg_rx_count (g s) = bmsg_rx_count s) \<Longrightarrow> (\<And>s. io_queue (g s) = io_queue s) \<Longrightarrow> (\<And>s. log (g s) = log s) \<Longrightarrow> frame rx_view (modM g)"
  by (rule frame_modM) (simp add: rx_view_def)

lemma frame_rx_push: "\<not> is_rx m \<Longrightarrow> frame rx_view (rtos_push_to_queue m)"
  unfolding frame_def rtos_push_to_queue_def bindM_eq_Inr by (auto simp: rx_view_def split: option.splits if_splits)

lemma frame_rx_txing [frame_intros]: "frame rx_view (bmsg_txing_sender i)"
  unfolding bmsg_txing_sender_def by (intro frame_intros frame_rx_push) (simp add: is_rx_def)

interpretation rx: msdu_observer rx_view
  by unfold_locales (simp_all add: rx_view_def frame_rx_txing)

lemma frame_free_loop:
  assumes "free_loop p c s = Some r" and "\<And>s P. f (s\<lparr>pbufs := P\<rparr>) = f s"
  shows "\<forall>x s'. r = Inr (x, s') \<longrightarrow> f s' = f s"
  by (rule free_loop.raw_induct [where P = "\<lambda>p c s r. \<forall>x s'. r = Inr (x, s') \<longrightarrow> f s' = f s", OF _ assms(1)])
    (force simp: assms(2) split: option.splits if_splits)

lemma frame_rx_pfree [frame_intros]: "frame rx_view (pbuf_free p)"
proof -
  have "frame rx_view (\<lambda>s. case free_loop (Some a) 0 s of None \<Rightarrow> Inl Busy_Hang | Some r \<Rightarrow> r)" for a
    unfolding frame_def using frame_free_loop [of "Some a" 0 _ _ rx_view] by (force simp: rx_view_def split: option.splits)
  then show ?thesis unfolding pbuf_free_def by (intro frame_intros)
qed

lemma frame_rx_pbufs [frame_intros]: "frame rx_view (pbuf_at p)" "frame rx_view (set_pbuf p b)"
  unfolding pbuf_at_def set_pbuf_def by (intro frame_intros; simp)+

lemma frame_rx_pref [frame_intros]: "frame rx_view (pbuf_ref p)"
  unfolding pbuf_ref_def by (intro frame_intros)

lemma frame_rx_pcopy [frame_intros]: "frame rx_view (pbuf_copy q p)"
proof -
  have "frame rx_view (\<lambda>s. case copy_loop (Some q) 0 (Some p) 0 (pbufs s) of
      None \<Rightarrow> Inl Busy_Hang | Some (Inl e) \<Rightarrow> Inl e | Some (Inr (err, P)) \<Rightarrow> Inr (err, s\<lparr>pbufs := P\<rparr>))"
    unfolding frame_def by (auto simp: rx_view_def split: option.splits sum.splits)
  then show ?thesis unfolding pbuf_copy_def by (intro frame_intros)
qed

lemma frame_rx_coalesce [frame_intros]: "frame rx_view (pbuf_coalesce env p)"
  unfolding pbuf_coalesce_def by (intro frame_intros)

lemma frame_rx_post: "(\<And>x. m \<noteq> BMSG_RX_TYPE x) \<Longrightarrow> frame rx_view (post m)"
  unfolding post_def by (rule frame_rx_push) (simp add: is_rx_def split: bmsg.splits)

lemma frame_rx_wake [frame_intros]: "frame rx_view wake_rf"
  unfolding wake_rf_def bmsg_ps_handler_rf_ps_mode_real_wakeup_def by (intro frame_intros)

lemma frame_rx_tx [frame_intros]: "frame rx_view (bmsg_tx_handler env p n)" "frame rx_view (bmsg_tx_raw_handler env pkt k)"
  unfolding bmsg_tx_handler_def bmsg_tx_raw_handler_def by (intro frame_intros)+

lemma frame_rx_switch: "(\<And>x. m \<noteq> BMSG_RX_TYPE x) \<Longrightarrow> frame rx_view (core_switch env m)"
  by (cases m) (auto simp: core_switch_def bmsg_ps_handler_def bmsg_skt_tx_handler_def bmsg_ioctl_handler_def
    bmsg_music_handler_def bmsg_txing_handler_def bmsg_tx_raw_cb_handler_def intro!: frame_intros)

text \<open>
  What happens around the core thread: its rounds, the senders that other threads and the receive interrupt
  call, and the calls of the MAC library.
\<close>

datatype core_call =
    Round
  | Rx_Send u32
  | Tx_Send nat u32
  | Raw_Send "u8 list" u16
  | Raw_Cb_Send nat u32 "nat option" "nat option"
  | Skt_Send nat
  | Ioctl_Send nat
  | Music_Send nat
  | Ps_Send u8
  | Null_Send
  | Mac msdu_call

definition core_exec :: "msdu_env \<Rightarrow> core_call \<Rightarrow> (wifi_st, unit) prog" where
  "core_exec env c = (case c of
     Round \<Rightarrow> core_round env
   | Rx_Send arg \<Rightarrow> bmsg_rx_sender arg
   | Tx_Send p n \<Rightarrow> bindM (bmsg_tx_sender p n) (\<lambda>_. retM ())
   | Raw_Send pkt n \<Rightarrow> bindM (bmsg_tx_raw_sender pkt n) (\<lambda>_. retM ())
   | Raw_Cb_Send b n cb par \<Rightarrow> bindM (bmsg_tx_raw_cb_sender b n cb par) (\<lambda>_. retM ())
   | Skt_Send arg \<Rightarrow> bmsg_skt_tx_sender arg
   | Ioctl_Send arg \<Rightarrow> bindM (bmsg_ioctl_sender arg) (\<lambda>_. retM ())
   | Music_Send arg \<Rightarrow> bmsg_music_sender arg
   | Ps_Send arg \<Rightarrow> bmsg_ps_sender arg
   | Null_Send \<Rightarrow> bmsg_null_sender
   | Mac d \<Rightarrow> msdu_exec env d)"

lemma frame_rx_other: "c \<noteq> Round \<Longrightarrow> (\<And>x. c \<noteq> Rx_Send x) \<Longrightarrow> frame rx_view (core_exec env c)"
  by (cases c) (auto simp: core_exec_def bmsg_tx_sender_def bmsg_tx_raw_sender_def bmsg_tx_raw_cb_sender_def bmsg_skt_tx_sender_def
    bmsg_ioctl_sender_def bmsg_music_sender_def bmsg_ps_sender_def bmsg_null_sender_def rtos_is_queue_empty_def
    intro!: frame_intros frame_rx_post)

text \<open>
  What the receive messages do, as a machine of its own: a count, the messages in the queue and the events. A message is
  posted while the count is below two; when the queue is full it is lost, and the count stays.
\<close>

type_synonym rx_machine = "int \<times> BUS_MSG_T list option \<times> wifi_event list"

inductive rx_step :: "rx_machine \<Rightarrow> rx_machine \<Rightarrow> bool" where
  Stay: "rx_step v v"
| Posted: "c < 2 \<Longrightarrow> is_rx m \<Longrightarrow> rx_step (c, Some q, ev) (c + 1, Some (q @ [m]), ev)"
| Lost: "c < 2 \<Longrightarrow> rx_step (c, Some q, ev) (c + 1, Some q, ev)"
| Taken: "is_rx_evt e \<Longrightarrow> rx_step (c, Some (m # q), ev) (if c > 0 then c - 1 else c, Some q, ev @ [e])"

inductive_cases rx_stepE: "rx_step v w"

lemma rx_step_frame: "frame rx_view m \<Longrightarrow> m s = Inr (x, s') \<Longrightarrow> rx_step (rx_view s) (rx_view s')"
  by (metis frameD rx_step.Stay)

lemma rx_sender_step: "bmsg_rx_sender arg s = Inr (x, s') \<Longrightarrow> rx_step (rx_view s) (rx_view s')"
  by (auto simp: bmsg_rx_sender_def post_def rtos_push_to_queue_def bindM_eq_Inr rx_view_def is_rx_def
    split: option.splits if_splits intro!: rx_step.Posted rx_step.Lost intro: rx_step.Stay)

lemma rx_after_frame: "frame rx_view m \<Longrightarrow> rx_step v (rx_view s) \<Longrightarrow> m s = Inr (x, s') \<Longrightarrow> rx_step v (rx_view s')"
  by (metis frameD)

lemma round_step:
  assumes run: "core_round env s = Inr (x, s')"
  shows "rx_step (rx_view s) (rx_view s')"
proof -
  define rest where "rest = (\<lambda>sm (ke_skip, ps). thenM (case sm of None \<Rightarrow> retM () | Some h \<Rightarrow> logM (Sema_Set h))
     (thenM (whenM (\<not> ke_skip) (logM Ke_Sched))
     (thenM (case ps of None \<Rightarrow> retM () | Some arg \<Rightarrow> bmsg_ps_handler arg) (logM Sleep_Check))))"
  have fr: "frame rx_view (rest sm k)" for sm k
    unfolding rest_def bmsg_ps_handler_def by (intro frame_intros)
  have eq: "core_round env = bindM rtos_pop_from_queue (\<lambda>r. case r of None \<Rightarrow> retM ()
      | Some msg \<Rightarrow> bindM (core_switch env (msg_type msg)) (rest (msg_sema msg)))"
    unfolding core_round_def rest_def by (rule refl)
  show ?thesis
  proof (cases "io_queue s")
    case None
    then show ?thesis using run by (simp add: core_round_def rtos_pop_from_queue_def)
  next
    case (Some q)
    show ?thesis
    proof (cases q)
      case Nil
      then show ?thesis using run Some by (auto simp: core_round_def rtos_pop_from_queue_def intro: rx_step.Stay)
    next
      case (Cons m ms)
      let ?s1 = "s\<lparr>io_queue := Some ms\<rparr>"
      from run Some Cons obtain k s2 where k: "core_switch env (msg_type m) ?s1 = Inr (k, s2)" "rest (msg_sema m) k s2 = Inr (x, s')"
        by (auto simp: eq rtos_pop_from_queue_def bindM_eq_Inr)
      have "rx_step (rx_view s) (rx_view s2)"
      proof (cases "\<exists>arg. msg_type m = BMSG_RX_TYPE arg")
        case True
        then obtain arg where "msg_type m = BMSG_RX_TYPE arg" by blast
        then have s2: "s2 = ?s1\<lparr>bmsg_rx_count := (if bmsg_rx_count s > 0 then bmsg_rx_count s - 1 else bmsg_rx_count s),
            log := log s @ [Rx_Evt arg]\<rparr>" and "is_rx m"
          using k(1) by (auto simp: core_switch_def bmsg_rx_handler_def logM_def is_rx_def)
        then show ?thesis
          using rx_step.Taken [of "Rx_Evt arg" "bmsg_rx_count s" m "filter is_rx ms" "filter is_rx_evt (log s)"] Some Cons
          by (simp add: rx_view_def is_rx_evt_def)
      next
        case False
        then have "rx_view s2 = rx_view ?s1" "\<not> is_rx m"
          using frameD [OF frame_rx_switch k(1)] by (auto simp: is_rx_def split: bmsg.splits)
        then have "rx_view s2 = rx_view s" using Some Cons by (simp add: rx_view_def [of s] rx_view_def [of "?s1"])
        then show ?thesis by (simp add: rx_step.Stay)
      qed
      then show ?thesis using rx_after_frame [OF fr _ k(2)] by blast
    qed
  qed
qed

lemma core_step: "core_exec env c s = Inr (x, s') \<Longrightarrow> rx_step (rx_view s) (rx_view s')"
proof (cases "c = Round \<or> (\<exists>x. c = Rx_Send x)")
  case True
  then show "core_exec env c s = Inr (x, s') \<Longrightarrow> rx_step (rx_view s) (rx_view s')"
    using round_step rx_sender_step by (auto simp: core_exec_def)
qed (blast intro: rx_step_frame frame_rx_other)

lemma core_steps: "forM calls (core_exec env) s = Inr (x, s') \<Longrightarrow> rx_step\<^sup>*\<^sup>* (rx_view s) (rx_view s')"
proof (induction calls arbitrary: s)
  case (Cons c cs)
  then obtain u s1 where "core_exec env c s = Inr (u, s1)" "forM cs (core_exec env) s1 = Inr (x, s')"
    by (auto simp: thenM_def bindM_eq_Inr)
  then show ?case using Cons.IH core_step converse_rtranclp_into_rtranclp by metis
qed simp

text \<open>The queue holds at most as many receive messages as the count says, and the count is at most two.\<close>

definition rx_bound :: "rx_machine \<Rightarrow> bool" where
  "rx_bound v \<longleftrightarrow> fst (snd v) \<noteq> None \<and> int (length (the (fst (snd v)))) \<le> fst v \<and> fst v \<le> 2"

lemma rx_bound_steps: "rx_step\<^sup>*\<^sup>* v w \<Longrightarrow> rx_bound v \<Longrightarrow> rx_bound w"
  by (induction rule: rtranclp_induct) (auto simp: rx_bound_def elim!: rx_stepE)

lemma rx_stuck_steps: "rx_step\<^sup>*\<^sup>* v w \<Longrightarrow> fst v \<ge> 2 \<Longrightarrow> fst (snd v) = Some [] \<Longrightarrow> w = v"
  by (induction rule: rtranclp_induct) (auto elim!: rx_stepE)

text \<open>
  C26: however many frames the receiver reports, whatever the other threads send and in whatever order, at most two receive
  messages are in the queue, as the count says: the other entries are left to the rest of the system.
\<close>

theorem rx_bounded:
  assumes "bmsg_rx_count s = 0" and "thenM (core_thread_init True True) (forM calls (core_exec env)) s = Inr ((), s')"
  shows "\<exists>q. io_queue s' = Some q \<and> int (length (filter is_rx q)) \<le> bmsg_rx_count s' \<and> bmsg_rx_count s' \<le> 2"
proof -
  let ?s = "s\<lparr>io_queue := Some []\<rparr>"
  have "forM calls (core_exec env) ?s = Inr ((), s')" using assms(2) by (simp add: core_thread_init_def)
  from rx_bound_steps [OF core_steps [OF this]] have "rx_bound (rx_view s')" using assms(1) by (simp add: rx_bound_def rx_view_def)
  then show ?thesis by (auto simp: rx_bound_def rx_view_def)
qed

lemma rx_demo_run:
  "\<exists>s'. thenM (core_thread_init True True) (forM [Rx_Send 1, Rx_Send 2, Rx_Send 3, Round] (core_exec demo_env)) demo_st = Inr ((), s')
    \<and> bmsg_rx_count s' = 1"
  by (simp add: core_thread_init_def core_exec_def bmsg_rx_sender_def post_def rtos_push_to_queue_def CORE_QITEM_COUNT_def
    core_round_def rtos_pop_from_queue_def core_switch_def bmsg_rx_handler_def logM_def demo_st_def)

theorem rx_bounded_witness:
  "\<exists>s' q. thenM (core_thread_init True True) (forM [Rx_Send 1, Rx_Send 2, Rx_Send 3, Round] (core_exec demo_env)) demo_st = Inr ((), s')
    \<and> io_queue s' = Some q \<and> int (length (filter is_rx q)) \<le> 1"
proof -
  have z: "bmsg_rx_count demo_st = 0" by (simp add: demo_st_def)
  from rx_demo_run obtain s' where
    s': "thenM (core_thread_init True True) (forM [Rx_Send 1, Rx_Send 2, Rx_Send 3, Round] (core_exec demo_env)) demo_st = Inr ((), s')"
      "bmsg_rx_count s' = 1" by blast
  from rx_bounded [OF z s'(1)] s' show ?thesis by auto
qed

text \<open>
  C25: two reports of received frames that meet a full queue silence the receiver for good. The sender counts its message
  before it posts it and does not take the count back when the queue is full; after two such failures
  the count is two with no message behind it, every later report is discarded as if two were
  waiting, and whatever happens afterwards the core thread never calls the receive function of the MAC library again.
\<close>

theorem rx_lost:
  assumes "io_queue s = Some ms" and "length ms = CORE_QITEM_COUNT" and "filter is_rx ms = []" and "bmsg_rx_count s = 0"
  shows "\<exists>s1. thenM (bmsg_rx_sender a) (bmsg_rx_sender b) s = Inr ((), s1)
    \<and> (\<forall>calls s'. forM calls (core_exec env) s1 = Inr ((), s') \<longrightarrow>
        filter is_rx_evt (log s') = filter is_rx_evt (log s) \<and> (\<forall>c. bmsg_rx_sender c s' = Inr ((), s')))"
proof -
  let ?s1 = "s\<lparr>bmsg_rx_count := 2\<rparr>"
  have run: "thenM (bmsg_rx_sender a) (bmsg_rx_sender b) s = Inr ((), ?s1)"
    using assms by (simp add: bmsg_rx_sender_def post_def rtos_push_to_queue_def)
  have "filter is_rx_evt (log s') = filter is_rx_evt (log s) \<and> (\<forall>c. bmsg_rx_sender c s' = Inr ((), s'))"
    if r: "forM calls (core_exec env) ?s1 = Inr ((), s')" for calls s'
  proof -
    from rx_stuck_steps [OF core_steps [OF r]] have "rx_view s' = rx_view ?s1" using assms by (simp add: rx_view_def)
    then show ?thesis by (simp add: rx_view_def bmsg_rx_sender_def)
  qed
  with run show ?thesis by blast
qed

theorem rx_lost_witness:
  "\<exists>s1. thenM (bmsg_rx_sender 1) (bmsg_rx_sender 2) (demo_st\<lparr>io_queue := Some full_queue\<rparr>) = Inr ((), s1)
    \<and> (\<forall>calls s'. forM calls (core_exec demo_env) s1 = Inr ((), s') \<longrightarrow>
        filter is_rx_evt (log s') = [] \<and> (\<forall>c. bmsg_rx_sender c s' = Inr ((), s')))"
proof -
  have "length full_queue = CORE_QITEM_COUNT" "filter is_rx full_queue = []"
    by (simp_all add: full_queue_def is_rx_def)
  from rx_lost [of "demo_st\<lparr>io_queue := Some full_queue\<rparr>", OF _ this, of 1 2 demo_env] show ?thesis
    by (simp add: demo_st_def)
qed

end
