(* ===== verification/Core_Tx.thy ===== *)
theory Core_Tx
  imports Core_Frame
begin

text \<open>
  A frame of lwIP on its way through the core thread: \<^verbatim>\<open>bmsg_tx_sender\<close> takes a reference and posts the chain, a
  round of the thread copies it into one buffer where needed, hands the bytes to \<^verbatim>\<open>rwm_transfer\<close> and
  gives the reference back. Composes \<open>Pbuf\<close>, \<open>Core_Thread\<close> and \<open>Msdu_Props\<close>.
\<close>

lemma quiet_step:
  assumes ok: "wifi_ok s L {}" and same: "nodes s' = nodes s" "txd s' = txd s" "outer (s'\<lparr>io_queue := None\<rparr>) = outer (s\<lparr>io_queue := None\<rparr>)"
    and q: "io_queue s' \<noteq> None" and l: "\<And>i. sent_to i (log s') = sent_to i (log s)" "\<And>k. tim (log s') k = tim (log s) k"
  shows "wifi_ok s' L {}" "follows s L s' L (\<lambda>_. [])"
proof -
  show w: "wifi_ok s' L {}" using ok same q by (simp add: wifi_ok_def tab_ok_def)
  show "follows s L s' L (\<lambda>_. [])" by (rule follows_log [OF ok w]) (use same l in simp_all)
qed

lemma tim_quiet: "(\<And>v a on. Tim_Update v a on \<notin> set es) \<Longrightarrow> tim (lg @ es) k = tim lg k"
proof (induction es rule: rev_induct)
  case (snoc e es)
  then have "tim ((lg @ es) @ [e]) k = tim (lg @ es) k" unfolding tim_snoc by (cases e) auto
  with snoc show ?case by auto
qed simp

lemma wake_rf_run: "wake_rf s = Inr ((), s\<lparr>log := log s @ [Data_Prevent, Ps_Wakeup, Dtim_Wakeup]\<rparr>)"
  by (simp add: wake_rf_def bmsg_ps_handler_rf_ps_mode_real_wakeup_def logM_def)

text \<open>The part of the handler that sends the bytes of a buffer.\<close>

lemma wake_transfer_run:
  assumes ok: "wifi_ok s L {}" and env: "env_good env" and v: "unat v < 2" and n: "6 \<le> length bs" "length bs < 2 ^ 16"
  shows "\<exists>r s' L'. thenM wake_rf (rwm_transfer env v bs (of_nat (length bs)) 0 None) s = Inr (r, s') \<and> wifi_ok s' L' {} \<and> pbufs s' = pbufs s
    \<and> handed s s' (station_of (vif_info_tab s) (sta_ids s) v bs) bs
    \<and> follows s L s' L' (\<lambda>i. if unat (station_of (vif_info_tab s) (sta_ids s) v bs) = i then [bs] else [])"
proof -
  let ?s1 = "s\<lparr>log := log s @ [Data_Prevent, Ps_Wakeup, Dtim_Wakeup]\<rparr>"
  have io: "io_queue s \<noteq> None" using ok by (simp add: wifi_ok_def tab_ok_def)
  have s1: "wifi_ok ?s1 L {}" "follows s L ?s1 L (\<lambda>_. [])"
    using io by (auto intro!: quiet_step [OF ok] simp: tim_quiet)
  have ids: "sta_ids ?s1 = sta_ids s" by (simp add: sta_ids_def)
  from transfer_run [OF s1(1) env v n(1), of 0 None] n(2) obtain s' L' where
    s': "rwm_transfer env v bs (of_nat (length bs)) 0 None ?s1 = Inr (RW_FAILURE, s')" "wifi_ok s' L' {}" "handed ?s1 s' (station_of (vif_info_tab s) (sta_ids s) v bs) bs"
      "follows ?s1 L s' L' (\<lambda>i. if unat (station_of (vif_info_tab s) (sta_ids s) v bs) = i then [bs] else [])"
    using ids by auto
  have "pbufs s' = pbufs s" using frameD [OF pbufs.frame_transfer s'(1)] by simp
  moreover have "follows s L s' L' (\<lambda>i. if unat (station_of (vif_info_tab s) (sta_ids s) v bs) = i then [bs] else [])"
    using follows_trans [OF s1(2) s'(4) wifi_sta4 [OF ok] wifi_sta4 [OF s1(1)]] by simp
  moreover have "handed s s' (station_of (vif_info_tab s) (sta_ids s) v bs) bs" using s'(3) by (simp add: handed_def)
  ultimately show ?thesis using s'(1,2) by (auto simp: wake_rf_run)
qed

lemma send_part_run:
  assumes ok: "wifi_ok s L {}" and env: "env_good env" and v: "unat v < 2" and c: "pbufs s q = Some c" "payload c = bs"
    and n: "6 \<le> length bs" "length bs < 2 ^ 16"
    and free: "\<And>t. pbufs t = pbufs s \<Longrightarrow> \<exists>x. pbuf_free (Some q) t = Inr (x, t\<lparr>pbufs := P\<rparr>)"
  shows "\<exists>s' L'. thenM (thenM wake_rf (bindM (pbuf_at q) (\<lambda>c. bindM (rwm_transfer env v (payload c) (of_nat (length (payload c))) 0 None) (\<lambda>_. retM ()))))
      (bindM (pbuf_free (Some q)) (\<lambda>_. retM ())) s = Inr ((), s') \<and> wifi_ok s' L' {} \<and> pbufs s' = P
    \<and> handed s s' (station_of (vif_info_tab s) (sta_ids s) v bs) bs
    \<and> follows s L s' L' (\<lambda>i. if unat (station_of (vif_info_tab s) (sta_ids s) v bs) = i then [bs] else [])"
proof -
  let ?g = "\<lambda>i. if unat (station_of (vif_info_tab s) (sta_ids s) v bs) = i then [bs] else []"
  from wake_transfer_run [OF ok env v n] obtain r s1 L1 where
    s1: "thenM wake_rf (rwm_transfer env v bs (of_nat (length bs)) 0 None) s = Inr (r, s1)" "wifi_ok s1 L1 {}" "pbufs s1 = pbufs s" "follows s L s1 L1 ?g"
      "handed s s1 (station_of (vif_info_tab s) (sta_ids s) v bs) bs"
    by blast
  from free [OF s1(3)] obtain x where x: "pbuf_free (Some q) s1 = Inr (x, s1\<lparr>pbufs := P\<rparr>)" by blast
  have s2: "wifi_ok (s1\<lparr>pbufs := P\<rparr>) L1 {}" "follows s1 L1 (s1\<lparr>pbufs := P\<rparr>) L1 (\<lambda>_. [])"
    by (rule quiet_step [OF s1(2)]; use s1(2) in \<open>simp add: wifi_ok_def tab_ok_def\<close>)+
  have "follows s L (s1\<lparr>pbufs := P\<rparr>) L1 ?g" using follows_trans [OF s1(4) s2(2) wifi_sta4 [OF ok] wifi_sta4 [OF s1(2)]] by simp
  moreover have "pbuf_at q (s\<lparr>log := log s @ [Data_Prevent, Ps_Wakeup, Dtim_Wakeup]\<rparr>) = Inr (c, s\<lparr>log := log s @ [Data_Prevent, Ps_Wakeup, Dtim_Wakeup]\<rparr>)"
    using c(1) by simp
  moreover have "handed s (s1\<lparr>pbufs := P\<rparr>) (station_of (vif_info_tab s) (sta_ids s) v bs) bs" using s1(5) by (simp add: handed_def)
  ultimately show ?thesis using s1(1) x s2(1) c(2) by (auto simp: wake_rf_run)
qed

text \<open>
  The handler gives the reference of its message back on every way: \<open>b\<close> is the first buffer before the sender took the reference.
\<close>

lemma tx_handler_run:
  assumes ok: "wifi_ok s L {}" and env: "env_good env" "pool_ok env" and v: "unat (ucast n :: u8) < 2"
    and ch: "pchain (pbufs s) (Some p) as" and b: "pbufs s p = Some (b\<lparr>pref := pref b + 1\<rparr>)" "pref b \<noteq> 0" and len: "6 \<le> length (bytes (pbufs s) as)"
  shows "\<exists>s' L'. bmsg_tx_handler env p n s = Inr ((), s') \<and> wifi_ok s' L' {} \<and> pbufs s' = (pbufs s)(p \<mapsto> b)
    \<and> handed s s' (station_of (vif_info_tab s) (sta_ids s) (ucast n) (bytes (pbufs s) as)) (bytes (pbufs s) as)
    \<and> follows s L s' L' (\<lambda>i. if unat (station_of (vif_info_tab s) (sta_ids s) (ucast n) (bytes (pbufs s) as)) = i then [bytes (pbufs s) as] else [])"
proof -
  let ?bs = "bytes (pbufs s) as" and ?b = "b\<lparr>pref := pref b + 1\<rparr>" and ?P = "(pbufs s)(p \<mapsto> b)"
  let ?g = "\<lambda>i. if unat (station_of (vif_info_tab s) (sta_ids s) (ucast n) ?bs) = i then [?bs] else []"
  obtain as' where as: "as = p # as'" using ch b(1) by (cases as) (auto split: option.splits)
  have "unat (tot_len b) < 2 ^ 16" using unsigned_less [of "tot_len b"] by simp
  then have short: "length ?bs < 2 ^ 16" using ch b(1) as by simp
  have nx: "pnext b = (case as' of [] \<Rightarrow> None | a # _ \<Rightarrow> Some a)" using pchain_next [of "pbufs s" "Some p" p as'] ch as b(1) by simp
  have give: "pbuf_free (Some p) t = Inr (0, t\<lparr>pbufs := (pbufs t)(p \<mapsto> b)\<rparr>)" if "pbufs t p = Some ?b" for t
    using pbuf_free_shared [OF that] b(2) by simp
  have io: "io_queue s \<noteq> None" using ok by (simp add: wifi_ok_def tab_ok_def)
  show ?thesis
  proof (cases "as' = []")
    case True
    have "\<exists>x. pbuf_free (Some p) t = Inr (x, t\<lparr>pbufs := ?P\<rparr>)" if "pbufs t = pbufs s" for t
      using give [of t] that b(1) by simp
    from send_part_run [OF ok env(1) v b(1) _ len short this] as True b(1) nx show ?thesis
      by (simp add: bmsg_tx_handler_def Let_def bindM_run)
  next
    case False
    have ch2: "pchain (pbufs s) (Some p) (p # as')" using ch as by simp
    have more: "pnext b \<noteq> None" using nx False by (cases as') auto
    consider (fail) "pbuf_coalesce env p s = Inr (p, s)"
      | (copy) q c where "q \<notin> dom (pbufs s)" "payload c = ?bs" "pnext c = None" "pref c = 1"
          "pbuf_coalesce env p s = Inr (q, s\<lparr>pbufs := ?P(q \<mapsto> c)\<rparr>)"
      using coalesce_run [OF ch2 False b(1) _ env(2)] b(2) as by (auto simp del: bytes_simps)
    then show ?thesis
    proof cases
      case fail
      have "bmsg_tx_handler env p n s = Inr ((), s\<lparr>pbufs := ?P\<rparr>)"
        using fail more b(1) give [OF b(1)] by (auto simp: bmsg_tx_handler_def Let_def bindM_run)
      moreover have "wifi_ok (s\<lparr>pbufs := ?P\<rparr>) L {}" "follows s L (s\<lparr>pbufs := ?P\<rparr>) L (\<lambda>_. [])"
        by (rule quiet_step [OF ok]; use io in simp)+
      moreover from this(2) have "follows s L (s\<lparr>pbufs := ?P\<rparr>) L ?g"
        by (auto simp: follows_def intro: subseq_rev_drop_many)
      moreover have "handed s (s\<lparr>pbufs := ?P\<rparr>) (station_of (vif_info_tab s) (sta_ids s) (ucast n) ?bs) ?bs" by (simp add: handed_def)
      ultimately show ?thesis by auto
    next
      case copy
      let ?s1 = "s\<lparr>pbufs := ?P(q \<mapsto> c)\<rparr>"
      have s1: "wifi_ok ?s1 L {}" "follows s L ?s1 L (\<lambda>_. [])" by (rule quiet_step [OF ok]; use io in simp)+
      have "q \<noteq> p" using copy(1) b(1) by auto
      then have restored: "?P(q := None) = ?P" using copy(1) by (auto simp: fun_eq_iff)
      have "\<exists>x. pbuf_free (Some q) t = Inr (x, t\<lparr>pbufs := ?P\<rparr>)" if "pbufs t = pbufs ?s1" for t
        using pbuf_free_last [of t q c] that copy(3,4) restored by simp
      from send_part_run [OF s1(1) env(1) v _ copy(2) len short this] obtain s' L' where
        s': "thenM (thenM wake_rf (bindM (pbuf_at q) (\<lambda>c. bindM (rwm_transfer env (ucast n) (payload c) (of_nat (length (payload c))) 0 None) (\<lambda>_. retM ()))))
          (bindM (pbuf_free (Some q)) (\<lambda>_. retM ())) ?s1 = Inr ((), s')" "wifi_ok s' L' {}" "pbufs s' = ?P" "follows ?s1 L s' L' ?g"
          "handed s s' (station_of (vif_info_tab s) (sta_ids s) (ucast n) ?bs) ?bs"
        by (auto simp: sta_ids_def handed_def)
      have "bmsg_tx_handler env p n s = Inr ((), s')"
        using s'(1) copy(5) more b(1) \<open>q \<noteq> p\<close> by (auto simp: bmsg_tx_handler_def Let_def bindM_run)
      moreover have "follows s L s' L' ?g" using follows_trans [OF s1(2) s'(4) wifi_sta4 [OF ok] wifi_sta4 [OF s1(1)]] by simp
      ultimately show ?thesis using s'(2,3,5) by blast
    qed
  qed
qed

lemma tx_sender_full:
  assumes "pbufs s p = Some b" and "pref b \<noteq> 0" and "io_queue s = Some ms" and "length ms = CORE_QITEM_COUNT"
  shows "bmsg_tx_sender p n s = Inr (kGeneralErr, s)"
proof -
  let ?s = "s\<lparr>pbufs := (pbufs s)(p \<mapsto> b\<lparr>pref := pref b + 1\<rparr>)\<rparr>"
  have "pbuf_free (Some p) ?s = Inr (0, s)" using assms(1,2) by (subst pbuf_free_shared) (auto simp: fun_upd_idem)
  then show ?thesis using assms
    by (simp add: bmsg_tx_sender_def pbuf_ref_run post_def rtos_push_to_queue_def kGeneralErr_def kNoErr_def)
qed

text \<open>One more reference changes neither the chain nor its bytes.\<close>

lemma chain_ref:
  assumes "P p = Some b"
  shows "bytes (P(p \<mapsto> b\<lparr>pref := r\<rparr>)) as = bytes P as" "pchain (P(p \<mapsto> b\<lparr>pref := r\<rparr>)) q as = pchain P q as"
proof -
  show same: "bytes (P(p \<mapsto> b\<lparr>pref := r\<rparr>)) xs = bytes P xs" for xs using assms by (induction xs) auto
  show "pchain (P(p \<mapsto> b\<lparr>pref := r\<rparr>)) q as = pchain P q as"
    using assms by (induction as arbitrary: q) (auto simp: same simp del: bytes_simps split: option.splits)
qed

lemma tx_round:
  assumes ok: "wifi_ok s L {}" and env: "env_good env" "pool_ok env" and v: "unat (ucast n :: u8) < 2"
    and ch: "pchain (pbufs s) (Some p) as" and b: "pbufs s p = Some b" "pref b \<noteq> 0" and len: "6 \<le> length (bytes (pbufs s) as)"
    and io: "io_queue s = Some []"
  shows "\<exists>s' L'. thenM (bmsg_tx_sender p n) (core_round env) s = Inr ((), s') \<and> wifi_ok s' L' {} \<and> pbufs s' = pbufs s
    \<and> handed s s' (station_of (vif_info_tab s) (sta_ids s) (ucast n) (bytes (pbufs s) as)) (bytes (pbufs s) as)
    \<and> follows s L s' L' (\<lambda>i. if unat (station_of (vif_info_tab s) (sta_ids s) (ucast n) (bytes (pbufs s) as)) = i then [bytes (pbufs s) as] else [])"
proof -
  let ?P = "(pbufs s)(p \<mapsto> b\<lparr>pref := pref b + 1\<rparr>)"
  let ?g = "\<lambda>i. if unat (station_of (vif_info_tab s) (sta_ids s) (ucast n) (bytes (pbufs s) as)) = i then [bytes (pbufs s) as] else []"
  let ?s1 = "s\<lparr>pbufs := ?P, io_queue := Some []\<rparr>" and ?st = "station_of (vif_info_tab s) (sta_ids s) (ucast n) (bytes (pbufs s) as)"
  have s1: "wifi_ok ?s1 L {}" "follows s L ?s1 L (\<lambda>_. [])" by (rule quiet_step [OF ok]; simp)+
  have ch1: "pchain (pbufs ?s1) (Some p) as" "bytes (pbufs ?s1) as = bytes (pbufs s) as"
    using ch chain_ref [of "pbufs s" p b, OF b(1)] by (simp_all del: pchain.simps)
  have undo: "(pbufs ?s1)(p \<mapsto> b) = pbufs s" "sta_ids ?s1 = sta_ids s" using b(1) by (auto simp: sta_ids_def fun_upd_idem)
  have "\<exists>s' L'. bmsg_tx_handler env p n ?s1 = Inr ((), s') \<and> wifi_ok s' L' {} \<and> pbufs s' = pbufs s
    \<and> handed ?s1 s' ?st (bytes (pbufs s) as) \<and> follows ?s1 L s' L' ?g"
    using tx_handler_run [OF s1(1) env v ch1(1) _ b(2), unfolded ch1(2) undo] len by simp
  then obtain s2 L2 where
    s2: "bmsg_tx_handler env p n ?s1 = Inr ((), s2)" "wifi_ok s2 L2 {}" "pbufs s2 = pbufs s" "follows ?s1 L s2 L2 ?g"
      "handed ?s1 s2 ?st (bytes (pbufs s) as)" by blast
  let ?s3 = "s2\<lparr>log := log s2 @ [Ke_Sched, Sleep_Check]\<rparr>"
  have "io_queue s2 \<noteq> None" using s2(2) by (simp add: wifi_ok_def tab_ok_def)
  then have s3: "wifi_ok ?s3 L2 {}" "follows s2 L2 ?s3 L2 (\<lambda>_. [])" by (rule_tac [!] quiet_step [OF s2(2)]; simp add: tim_quiet)+
  have "thenM (bmsg_tx_sender p n) (core_round env) s = Inr ((), ?s3)"
    using b(1) io s2(1) by (simp add: bmsg_tx_sender_def pbuf_ref_run post_def rtos_push_to_queue_def CORE_QITEM_COUNT_def
      core_round_def rtos_pop_from_queue_def core_switch_def logM_def)
  moreover have "follows s L s2 L2 ?g" using follows_trans [OF s1(2) s2(4) wifi_sta4 [OF ok] wifi_sta4 [OF s1(1)]] by simp
  then have "follows s L ?s3 L2 ?g" using follows_trans [OF _ s3(2) wifi_sta4 [OF ok] wifi_sta4 [OF s2(2)]] by force
  moreover have "handed s ?s3 ?st (bytes (pbufs s) as)" using s2(5) by (simp add: handed_def)
  ultimately show ?thesis using s3(1) s2(3) by auto
qed

text \<open>
  C10: a packet of lwIP passes the core thread complete and costs nothing. Take a well-formed chain of packet buffers with
  at least six bytes in all and a reference on the first, sent on one of the two interfaces, in a
  state in which the lists, nodes and tables are intact (\<open>wifi_ok\<close>), with a MAC library that always has
  a descriptor to look at, timer commands that get through, and allocators that hand out unused blocks of the size asked for (\<open>env_good\<close>, \<open>pool_ok\<close>); blocks, buffers and free descriptors may run out. With the message queue empty, posting the chain and one
  round of the thread leave every packet buffer as it was (the copy made of a chain is released
  again, also when there is no room for it), and the data frames handed to the MAC library are those from before and
  at most one more, for any destination: exactly the bytes of the chain, for the station that the tables give for
  interface and destination address. For a station of the access point, nothing that waits is overtaken. With the queue full
  the sender reports the error and nothing has changed.
\<close>

theorem tx_path:
  assumes "wifi_ok s L {}" and "env_good env" and "pool_ok env" and "unat (ucast n :: u8) < 2"
    and "pchain (pbufs s) (Some p) as" and "\<exists>b. pbufs s p = Some b \<and> pref b \<noteq> 0" and "6 \<le> length (bytes (pbufs s) as)"
  shows "(io_queue s = Some [] \<longrightarrow> (\<exists>s' L'. thenM (bmsg_tx_sender p n) (core_round env) s = Inr ((), s') \<and> wifi_ok s' L' {} \<and> pbufs s' = pbufs s
      \<and> handed s s' (station_of (vif_info_tab s) (sta_ids s) (ucast n) (bytes (pbufs s) as)) (bytes (pbufs s) as)
      \<and> follows s L s' L' (\<lambda>i. if unat (station_of (vif_info_tab s) (sta_ids s) (ucast n) (bytes (pbufs s) as)) = i then [bytes (pbufs s) as] else [])))
    \<and> (\<forall>ms. io_queue s = Some ms \<longrightarrow> length ms = CORE_QITEM_COUNT \<longrightarrow> bmsg_tx_sender p n s = Inr (kGeneralErr, s))"
  using assms(6) tx_round [OF assms(1-5) _ _ assms(7)] tx_sender_full by blast

text \<open>Two buffers of five bytes each.\<close>

definition two_st :: wifi_st where
  "two_st = wait_st\<lparr>pbufs := [1 \<mapsto> \<lparr>payload = replicate 5 10, tot_len = 10, pnext = Some 2, pref = 1\<rparr>,
     2 \<mapsto> \<lparr>payload = replicate 5 10, tot_len = 5, pnext = None, pref = 1\<rparr>]\<rparr>"

lemma two_ok: "wifi_ok two_st wait_lists {}"
  unfolding two_st_def using wait_ok by (simp add: wifi_ok_def tab_ok_def)

lemma demo_pool: "pool_ok demo_env"
  by (auto simp: pool_ok_def demo_env_def split: if_splits)

theorem tx_path_witness:
  "\<exists>s' L'. thenM (bmsg_tx_sender 1 0) (core_round demo_env) two_st = Inr ((), s') \<and> wifi_ok s' L' {} \<and> pbufs s' = pbufs two_st
    \<and> handed two_st s' (station_of (vif_info_tab two_st) (sta_ids two_st) 0 (replicate 10 10)) (replicate 10 10)
    \<and> follows two_st wait_lists s' L' (\<lambda>i. if unat (station_of (vif_info_tab two_st) (sta_ids two_st) 0 (replicate 10 10)) = i then [replicate 10 10] else [])"
proof -
  have as: "bytes (pbufs two_st) [1, 2] = replicate 10 10" "pchain (pbufs two_st) (Some 1) [1, 2]"
    by (simp add: two_st_def numeral_eq_Suc, simp add: two_st_def)
  have st: "io_queue two_st = Some []" "\<exists>b. pbufs two_st 1 = Some b \<and> pref b \<noteq> 0"
    by (simp_all add: two_st_def wait_st_def demo_st_def)
  have "unat (ucast (0 :: u32) :: u8) < 2" "6 \<le> length (bytes (pbufs two_st) [1, 2])" unfolding as(1) by simp_all
  from tx_path [OF two_ok demo_env_good demo_pool this(1) as(2) st(2) this(2), unfolded as(1)] st(1) show ?thesis
    by (simp only: ucast_0 simp_thms)
qed

end
