(* ===== verification/Fake_Clock.thy ===== *)
theory Fake_Clock
  imports Prelude
begin

text \<open>
  Time keeping: \<^verbatim>\<open>components/misc/fake_clock.c\<close> (the system clock, driven by a timer interrupt every two
  milliseconds, its watchdogs and its calibration) and \<^verbatim>\<open>components/power_save/mcu_ps.c\<close> (sleeping with
  the timer stopped, and three ways to make up for the lost ticks: the hardware counter of
  the MAC, the time stamp of beacons and a slow timer). Built for BK7231U with FreeRTOS:
  \<^verbatim>\<open>CFG_USE_TICK_CAL\<close>, \<^verbatim>\<open>CFG_USE_MCU_PS\<close>, both watchdogs, wake-up by timer 3.

  The record \<open>clock_st\<close> holds the static variables of both files. Hardware, kernel and other
  components are asked through \<open>clock_env\<close>; what is asked of them is an entry of the log. The functions
  mask interrupts around their updates, so each is one step; \<^verbatim>\<open>mcu_ps_machw_cal\<close> reads the MAC's counter twice at one moment.
\<close>

type_synonym u64 = "64 word"

record MCU_PS_INFO =
  mcu_ps_on :: u8
  busy_count :: u32
  mcu_prevent :: u32

record CAL_TICK_T =
  cal_fclk_tick :: u32
  tmp1 :: u32

record MCU_PS_TSF =
  first_tick :: u32
  first_tsf :: u64

record MCU_PS_MACHW_TM =
  fclk_tick :: u32
  machw_tm :: u32

datatype clock_event =
    Wdg_Reload
  | Task_Wdg_Warning
  | Increment_Tick
  | Switch_Context
  | Step_Tick u32
  | Timer_Init u32 u32
  | Timer_Enable u32
  | Timer_Disable u32
  | Pwm_Init u32 u32
  | Pwm_Off
  | Pwm_On
  | Timer3_Enable u32
  | Timer3_Disable
  | Measure_Prepare
  | Mcu_Sleep u32
  | Mcu_Wakeup
  | Sctrl_Mcu_Init
  | Sctrl_Mcu_Exit

record clock_st =
  current_clock :: u64
  current_seconds :: u32
  second_countdown :: u32
  fclk_id :: u32
  cal_tick_save :: CAL_TICK_T
  use_cal_net :: u32
  s_last_int_wdg_feed :: u64
  s_last_task_wdg_feed_tick :: u64
  s_last_task_wdg_log_tick :: u64
  mcu_ps_info :: MCU_PS_INFO
  mcu_ps_tsf_save :: MCU_PS_TSF
  mcu_ps_machw_save :: MCU_PS_MACHW_TM
  increase_tick :: u32
  need_pass :: u32
  bssid :: "u8 list"
  last_tsf :: u64
  clog :: "clock_event list"

text \<open>
  \<open>switch_due\<close>: the kernel's tick asks for a task switch, or one was delayed; \<open>timer_ok\<close>: the timer
  device answers \<^verbatim>\<open>BK_TIMER_SUCCESS\<close>; \<open>rf_sleeps\<close>: the radio is asleep (any of the three tests);
  \<open>slept_ms\<close>: what \<^verbatim>\<open>ps_timer3_disable\<close> returns.
\<close>

record clock_env =
  switch_due :: "clock_event list \<Rightarrow> bool"
  hal_machw_time :: "clock_event list \<Rightarrow> u32"
  rf_dtim_enabled :: "clock_event list \<Rightarrow> bool"
  unconditional_sleep :: "clock_event list \<Rightarrow> bool"
  timer_ok :: "clock_event list \<Rightarrow> bool"
  mcu_can_sleep :: "clock_event list \<Rightarrow> bool"
  wkup_type :: "clock_event list \<Rightarrow> u32"
  rf_sleeps :: "clock_event list \<Rightarrow> bool"
  slept_ms :: "clock_event list \<Rightarrow> u32"

definition FCLK_DURATION_MS :: nat where "FCLK_DURATION_MS = 2"
definition FCLK_SECOND :: nat where "FCLK_SECOND = 500"
definition ONE_CAL_TIME :: u32 where "ONE_CAL_TIME = 15000"
definition CAL_TIMER_ID :: u32 where "CAL_TIMER_ID = 2"
definition BK_TIMER_ID3 :: u32 where "BK_TIMER_ID3 = 3"
definition BK_PWM_TIMER_ID0 :: u32 where "BK_PWM_TIMER_ID0 = 6"
definition PWM_CLK_32K :: u32 where "PWM_CLK_32K = 0"
definition PWM_CLK_26M :: u32 where "PWM_CLK_26M = 1"
definition INT_WDG_FEED_PERIOD_TICK :: u64 where "INT_WDG_FEED_PERIOD_TICK = 312"
definition TASK_WDG_PERIOD_TICK :: u64 where "TASK_WDG_PERIOD_TICK = 30000"

lemmas clock_consts [simp] = FCLK_DURATION_MS_def FCLK_SECOND_def

definition BK_TICKS_TO_MS :: "u64 \<Rightarrow> u64" where
  "BK_TICKS_TO_MS x = x * of_nat FCLK_DURATION_MS"

definition BK_MS_TO_TICKS :: "u32 \<Rightarrow> u32" where
  "BK_MS_TO_TICKS x = x div of_nat FCLK_DURATION_MS"

definition ev :: "clock_event \<Rightarrow> clock_st \<Rightarrow> clock_st" where
  "ev e s = s\<lparr>clog := clog s @ [e]\<rparr>"

section \<open>Reading the clock\<close>

definition fclk_freertos_get_tick32 :: "clock_st \<Rightarrow> u32" where
  "fclk_freertos_get_tick32 s = ucast (current_clock s)"

definition fclk_freertos_get_tick64 :: "clock_st \<Rightarrow> u64" where
  "fclk_freertos_get_tick64 s = current_clock s"

text \<open>The result is 64 bits wide, the value read is not.\<close>

definition fclk_get_tick :: "clock_st \<Rightarrow> u64" where
  "fclk_get_tick s = ucast (fclk_freertos_get_tick32 s)"

definition fclk_get_second :: "clock_st \<Rightarrow> u32" where
  "fclk_get_second s = fclk_freertos_get_tick32 s div of_nat FCLK_SECOND"

definition fclk_from_sec_to_tick :: "u32 \<Rightarrow> u32" where
  "fclk_from_sec_to_tick sec = sec * of_nat FCLK_SECOND"

text \<open>\<^verbatim>\<open>fclk = BK_TICKS_TO_MS(fclk_get_tick())\<close> into a 32-bit variable\<close>

definition fclk_ms :: "clock_st \<Rightarrow> u32" where
  "fclk_ms s = ucast (BK_TICKS_TO_MS (fclk_get_tick s))"

definition fclk_reset_count :: "clock_st \<Rightarrow> clock_st" where
  "fclk_reset_count s = s\<lparr>current_clock := 0, current_seconds := 0\<rparr>"

definition fclk_get_tick_id :: "clock_st \<Rightarrow> u32" where
  "fclk_get_tick_id s = fclk_id s"

section \<open>Calibration\<close>

definition mcu_ps_is_on :: "clock_st \<Rightarrow> bool" where
  "mcu_ps_is_on s \<longleftrightarrow> mcu_ps_on (mcu_ps_info s) = 1"

definition mcu_ps_increase_clr :: "clock_st \<Rightarrow> clock_st" where
  "mcu_ps_increase_clr s = s\<lparr>increase_tick := 0\<rparr>"

text \<open>\<open>increase_tick\<close> and \<open>lost\<close> are signed.\<close>

definition mcu_ps_cal_increase_tick :: "u32 \<Rightarrow> clock_st \<Rightarrow> u32 \<times> clock_st" where
  "mcu_ps_cal_increase_tick lost s =
     (if sint lost \<le> 0 \<or> increase_tick s = 0 then (lost, s)
      else let l = lost + increase_tick s in
        if sint l < 0 then (0, s\<lparr>increase_tick := l\<rparr>) else (l, s\<lparr>increase_tick := 0\<rparr>))"

definition mcu_ps_need_pstick :: "clock_st \<Rightarrow> u32 \<times> clock_st" where
  "mcu_ps_need_pstick s =
     (let n = need_pass s; s1 = s\<lparr>need_pass := n + 1\<rparr> in
      if n mod 5 = 0 then mcu_ps_cal_increase_tick (of_nat FCLK_DURATION_MS) s1
      else (of_nat FCLK_DURATION_MS, s1))"

definition mcu_ps_machw_reset :: "clock_st \<Rightarrow> clock_st" where
  "mcu_ps_machw_reset s = s\<lparr>mcu_ps_machw_save := \<lparr>fclk_tick = 0, machw_tm = 0\<rparr>\<rparr>"

definition mcu_ps_machw_init :: "clock_env \<Rightarrow> clock_st \<Rightarrow> clock_st" where
  "mcu_ps_machw_init env s = s\<lparr>mcu_ps_machw_save := \<lparr>fclk_tick = fclk_ms s, machw_tm = hal_machw_time env (clog s)\<rparr>\<rparr>"

section \<open>The tick\<close>

definition int_watchdog_feed :: "clock_st \<Rightarrow> clock_st" where
  "int_watchdog_feed s = (let now = fclk_freertos_get_tick64 s in
     if now - s_last_int_wdg_feed s \<ge> INT_WDG_FEED_PERIOD_TICK
     then (ev Wdg_Reload s)\<lparr>s_last_int_wdg_feed := now\<rparr> else s)"

definition task_watchdog_feed :: "clock_st \<Rightarrow> clock_st" where
  "task_watchdog_feed s = s\<lparr>s_last_task_wdg_feed_tick := fclk_freertos_get_tick64 s\<rparr>"

definition task_watchdog_timeout_check :: "clock_st \<Rightarrow> clock_st" where
  "task_watchdog_timeout_check s =
     (if s_last_task_wdg_feed_tick s \<noteq> 0 then
        let now = fclk_freertos_get_tick64 s in
        if now - s_last_task_wdg_feed_tick s > TASK_WDG_PERIOD_TICK then
          if now - s_last_task_wdg_log_tick s > TASK_WDG_PERIOD_TICK
          then (ev Task_Wdg_Warning s)\<lparr>s_last_task_wdg_log_tick := now\<rparr> else s
        else s
      else s)"

text \<open>The counting part of the interrupt.\<close>

definition count_tick :: "clock_st \<Rightarrow> clock_st" where
  "count_tick s =
     (let s1 = s\<lparr>current_clock := current_clock s + 1, second_countdown := second_countdown s - 1\<rparr> in
      if second_countdown s1 = 0
      then s1\<lparr>current_seconds := current_seconds s1 + 1, second_countdown := of_nat FCLK_SECOND\<rparr> else s1)"

definition fclk_hdl :: "clock_env \<Rightarrow> clock_st \<Rightarrow> clock_st" where
  "fclk_hdl env s =
     (case mcu_ps_need_pstick s of (r, s0) \<Rightarrow>
        if r = 0 then s0
        else
          let s1 = count_tick s0; s2 = int_watchdog_feed s1; s3 = task_watchdog_timeout_check s2; s4 = ev Increment_Tick s3
          in if switch_due env (clog s4) then ev Switch_Context s4 else s4)"

text \<open>Whole seconds first.\<close>

function sec_loop :: "u32 \<Rightarrow> u32 \<Rightarrow> u32 \<times> u32" where
  "sec_loop seconds tick = (if tick \<ge> 500 then sec_loop (seconds + 1) (tick - 500) else (seconds, tick))"
  by auto
termination
  by (relation "measure (\<lambda>(_, t). unat t)") (simp_all add: unat_sub word_le_nat_alt)

declare sec_loop.simps [simp del]

definition fclk_freertos_update_tick :: "u32 \<Rightarrow> clock_st \<Rightarrow> clock_st" where
  "fclk_freertos_update_tick tick s =
     (let s1 = s\<lparr>current_clock := current_clock s + ucast tick\<rparr>; (secs, t) = sec_loop (current_seconds s1) tick;
          s2 = s1\<lparr>current_seconds := secs\<rparr>
      in if second_countdown s2 \<le> t
         then s2\<lparr>current_seconds := current_seconds s2 + 1, second_countdown := of_nat FCLK_SECOND - (t - second_countdown s2)\<rparr>
         else s2\<lparr>second_countdown := second_countdown s2 - t\<rparr>)"

definition fclk_update_tick :: "u32 \<Rightarrow> clock_st \<Rightarrow> clock_st" where
  "fclk_update_tick tick s =
     (if tick = 0 then s else ev (Step_Tick tick) (fclk_freertos_update_tick tick (mcu_ps_increase_clr s)))"

section \<open>Making up for lost time\<close>

text \<open>The hardware counter of the MAC, in microseconds; \<^verbatim>\<open>0xdead5555\<close> means it is off.\<close>

definition mcu_ps_machw_cal :: "clock_env \<Rightarrow> clock_st \<Rightarrow> clock_st" where
  "mcu_ps_machw_cal env s =
     (if \<not> (unconditional_sleep env (clog s) \<or> mcu_ps_is_on s \<and> rf_dtim_enabled env (clog s)) then s
      else if machw_tm (mcu_ps_machw_save s) = 0 \<or> machw_tm (mcu_ps_machw_save s) = 0xdead5555
        \<or> hal_machw_time env (clog s) = 0xdead5555 then mcu_ps_machw_init env s
      else
        let tmp1 = (hal_machw_time env (clog s) - machw_tm (mcu_ps_machw_save s)) div 1000;
            tmp2 = fclk_ms s - fclk_tick (mcu_ps_machw_save s); lost = tmp1 - tmp2
        in if lost < 0x7FFFFFFF \<and> lost > 0 then
             if lost > 50000 then mcu_ps_machw_init env s
             else case mcu_ps_cal_increase_tick lost s of (lost, s1) \<Rightarrow>
               mcu_ps_machw_init env (fclk_update_tick (BK_MS_TO_TICKS lost) s1)
           else s)"

text \<open>The time stamp of the beacons of one access point.\<close>

definition tsf_reset :: "u64 \<Rightarrow> clock_st \<Rightarrow> clock_st" where
  "tsf_reset tsf s = s\<lparr>mcu_ps_tsf_save := \<lparr>first_tick = fclk_ms s, first_tsf = tsf\<rparr>\<rparr>"

definition mcu_ps_tsf_cal :: "clock_env \<Rightarrow> u64 \<Rightarrow> clock_st \<Rightarrow> clock_st" where
  "mcu_ps_tsf_cal env tsf s =
     (if tsf = 0 \<or> first_tsf (mcu_ps_tsf_save s) = 0 then tsf_reset tsf s
      else if tsf < first_tsf (mcu_ps_tsf_save s) then tsf_reset tsf s
      else
        let tmp1 = (tsf - first_tsf (mcu_ps_tsf_save s)) div 1000; tmp2 = fclk_ms s - first_tick (mcu_ps_tsf_save s);
            loss = ucast (tmp1 - ucast tmp2) :: u32
        in if sint loss > 0 then
             if sint loss > 50000 then tsf_reset tsf s
             else (mcu_ps_machw_init env (fclk_update_tick (BK_MS_TO_TICKS loss) s))\<lparr>increase_tick := 0\<rparr>
           else if sint loss < 0 then
             if sint loss < -50000 then tsf_reset tsf s else s\<lparr>increase_tick := loss\<rparr>
           else s)"

definition mcu_ps_bcn_callback :: "clock_env \<Rightarrow> u64 \<Rightarrow> u8 list \<Rightarrow> clock_st \<Rightarrow> clock_st" where
  "mcu_ps_bcn_callback env tsf addr3 s =
     (if use_cal_net s = 0 then s\<lparr>last_tsf := tsf\<rparr>
      else
        let s1 = (if addr3 \<noteq> bssid s \<or> last_tsf s \<ge> tsf
                  then (mcu_ps_tsf_cal env 0 s)\<lparr>bssid := addr3\<rparr> else mcu_ps_tsf_cal env tsf s)
        in s1\<lparr>last_tsf := tsf\<rparr>)"

text \<open>The slow timer, every 15 seconds.\<close>

definition timer_cal_init :: "clock_st \<Rightarrow> clock_st" where
  "timer_cal_init s = s\<lparr>cal_tick_save := \<lparr>cal_fclk_tick = fclk_ms s, tmp1 = 0\<rparr>\<rparr>"

definition timer_cal_tick :: "clock_env \<Rightarrow> clock_st \<Rightarrow> clock_st" where
  "timer_cal_tick env s =
     (let fclk = fclk_ms s; s1 = s\<lparr>cal_tick_save := (cal_tick_save s)\<lparr>tmp1 := tmp1 (cal_tick_save s) + ONE_CAL_TIME\<rparr>\<rparr>;
          lost = tmp1 (cal_tick_save s1) - fclk;
          s2 = (if sint lost \<ge> 4
                then (fclk_update_tick (BK_MS_TO_TICKS (lost - of_nat FCLK_DURATION_MS)) s1)\<lparr>increase_tick := 0\<rparr>
                else if sint lost \<le> -4 then s1\<lparr>increase_tick := lost + of_nat FCLK_DURATION_MS\<rparr>
                else s1)
      in mcu_ps_machw_init env s2)"

definition cal_timer_hdl :: "clock_env \<Rightarrow> clock_st \<Rightarrow> clock_st" where
  "cal_timer_hdl env s = timer_cal_tick env s"

definition timer_cmd :: "clock_env \<Rightarrow> clock_event \<Rightarrow> (clock_st, unit) prog" where
  "timer_cmd env e = thenM (modM (ev e)) (bindM (getM (\<lambda>s. timer_ok env (clog s))) assertM)"

definition cal_timer_set :: "clock_env \<Rightarrow> (clock_st, unit) prog" where
  "cal_timer_set env = thenM (modM timer_cal_init)
     (thenM (timer_cmd env (Timer_Init CAL_TIMER_ID ONE_CAL_TIME)) (timer_cmd env (Timer_Enable CAL_TIMER_ID)))"

definition cal_timer_deset :: "clock_env \<Rightarrow> (clock_st, unit) prog" where
  "cal_timer_deset env = thenM (timer_cmd env (Timer_Disable CAL_TIMER_ID)) (modM timer_cal_init)"

definition bk_cal_init :: "clock_env \<Rightarrow> u32 \<Rightarrow> (clock_st, u32) prog" where
  "bk_cal_init env setting =
     thenM (if setting = 1
            then thenM (cal_timer_deset env) (modM (\<lambda>s. mcu_ps_machw_init env (s\<lparr>use_cal_net := 1\<rparr>)))
            else thenM (modM (mcu_ps_machw_cal env)) (thenM (cal_timer_set env) (modM (\<lambda>s. mcu_ps_machw_reset (s\<lparr>use_cal_net := 0\<rparr>)))))
           (retM 0)"

section \<open>Starting the clock\<close>

definition fclk_cal_endvalue :: "u32 \<Rightarrow> u32" where
  "fclk_cal_endvalue mode =
     (if mode = PWM_CLK_32K then of_nat (FCLK_DURATION_MS * 32) else if mode = PWM_CLK_26M then of_nat (FCLK_DURATION_MS * 26000) else 1)"

definition fclk_timer_hw_init :: "clock_env \<Rightarrow> u32 \<Rightarrow> (clock_st, unit) prog" where
  "fclk_timer_hw_init env timer_id =
     thenM (modM (\<lambda>s. s\<lparr>fclk_id := timer_id\<rparr>))
           (if timer_id \<ge> BK_PWM_TIMER_ID0 then modM (ev (Pwm_Init timer_id (fclk_cal_endvalue PWM_CLK_26M)))
            else thenM (timer_cmd env (Timer_Init timer_id (of_nat FCLK_DURATION_MS))) (modM (ev (Timer_Enable timer_id))))"

definition fclk_init :: "clock_env \<Rightarrow> (clock_st, unit) prog" where
  "fclk_init env = thenM (fclk_timer_hw_init env BK_TIMER_ID3) (bindM (bk_cal_init env 0) (\<lambda>_. retM ()))"

section \<open>Sleeping\<close>

abbreviation on_info :: "(MCU_PS_INFO \<Rightarrow> MCU_PS_INFO) \<Rightarrow> clock_st \<Rightarrow> clock_st" where
  "on_info f s \<equiv> s\<lparr>mcu_ps_info := f (mcu_ps_info s)\<rparr>"

definition peri_busy_count_add :: "clock_st \<Rightarrow> clock_st" where
  "peri_busy_count_add = on_info (\<lambda>i. i\<lparr>busy_count := busy_count i + 1\<rparr>)"

definition peri_busy_count_dec :: "clock_st \<Rightarrow> clock_st" where
  "peri_busy_count_dec = on_info (\<lambda>i. i\<lparr>busy_count := busy_count i - 1\<rparr>)"

definition peri_busy_count_get :: "clock_st \<Rightarrow> u32" where
  "peri_busy_count_get s = busy_count (mcu_ps_info s)"

definition mcu_prevent_set :: "u32 \<Rightarrow> clock_st \<Rightarrow> clock_st" where
  "mcu_prevent_set p = on_info (\<lambda>i. i\<lparr>mcu_prevent := mcu_prevent i OR p\<rparr>)"

definition mcu_prevent_clear :: "u32 \<Rightarrow> clock_st \<Rightarrow> clock_st" where
  "mcu_prevent_clear p = on_info (\<lambda>i. i\<lparr>mcu_prevent := mcu_prevent i AND NOT p\<rparr>)"

definition mcu_prevent_get :: "clock_st \<Rightarrow> u32" where
  "mcu_prevent_get s = mcu_prevent (mcu_ps_info s)"

definition mcu_ps_enable :: "clock_st \<Rightarrow> clock_st" where
  "mcu_ps_enable = on_info (mcu_ps_on_update (\<lambda>_. 1))"

definition mcu_ps_disable :: "clock_st \<Rightarrow> clock_st" where
  "mcu_ps_disable = on_info (mcu_ps_on_update (\<lambda>_. 0))"

definition when_ev :: "bool \<Rightarrow> clock_event \<Rightarrow> clock_st \<Rightarrow> clock_st" where
  "when_ev b e s = (if b then ev e s else s)"

text \<open>
  The sleep itself: the time is at least 64 cycles of the 32 kHz clock. The time that the
  hardware says was slept is turned into ticks when the radio slept too; otherwise the MAC's counter is read.
\<close>

definition sleep_time :: "u32 \<Rightarrow> u32 option" where
  "sleep_time sleep_tick =
     (let ms = sleep_tick * of_nat FCLK_DURATION_MS in
      if ms \<le> 2 then None
      else let t = (ms - of_nat FCLK_DURATION_MS) * 32 in
        if sint t \<le> 64 then None else Some (if t < 64 then 64 else t))"

definition sleep_now :: "clock_env \<Rightarrow> u32 \<Rightarrow> clock_st \<Rightarrow> u32 \<times> clock_st" where
  "sleep_now env t s =
     (let pwm = (fclk_get_tick_id s \<ge> BK_PWM_TIMER_ID0);
          s1 = (if mcu_can_sleep env (clog s) then ev (Timer3_Enable t) (when_ev pwm Pwm_Off s) else s);
          s2 = ev Mcu_Wakeup (ev Measure_Prepare (ev (Mcu_Sleep 0xffffc) s1))
      in if wkup_type env (clog s2) = 1 then
           if \<not> rf_sleeps env (clog s2) then (0, mcu_ps_machw_cal env (ev Timer3_Disable s2))
           else let s3 = ev Timer3_Disable s2; miss = (slept_ms env (clog s3) + 768 div 1000) div of_nat FCLK_DURATION_MS
                in (miss, when_ev pwm Pwm_On s3)
         else (0, s2))"

definition mcu_power_save :: "clock_env \<Rightarrow> u32 \<Rightarrow> clock_st \<Rightarrow> u32 \<times> clock_st" where
  "mcu_power_save env sleep_tick s =
     (let (miss, s1) =
        (if mcu_ps_on (mcu_ps_info s) = 1 \<and> peri_busy_count_get s = 0 \<and> mcu_prevent_get s = 0
         then case sleep_time sleep_tick of None \<Rightarrow> (0, s) | Some t \<Rightarrow> sleep_now env t s
         else (0, s))
      in mcu_ps_cal_increase_tick miss s1)"

definition bk_wlan_mcu_suppress_and_sleep :: "clock_env \<Rightarrow> u32 \<Rightarrow> clock_st \<Rightarrow> clock_st" where
  "bk_wlan_mcu_suppress_and_sleep env sleep_ticks s =
     (case mcu_power_save env sleep_ticks s of (missed, s1) \<Rightarrow> fclk_update_tick missed s1)"

definition mcu_ps_init :: "clock_env \<Rightarrow> clock_st \<Rightarrow> clock_st" where
  "mcu_ps_init env s =
     (let s1 = when_ev (fclk_get_tick_id s \<ge> BK_PWM_TIMER_ID0) (Timer_Init 3 1600) s;
          s2 = (if mcu_ps_on (mcu_ps_info s1) = 0
                then on_info (\<lambda>i. i\<lparr>mcu_ps_on := 1, busy_count := 0\<rparr>) (ev Sctrl_Mcu_Init s1) else s1)
      in mcu_ps_machw_init env s2)"

definition mcu_ps_exit :: "clock_st \<Rightarrow> clock_st" where
  "mcu_ps_exit s =
     (let s1 = (if mcu_ps_on (mcu_ps_info s) = 1
                then on_info (\<lambda>i. i\<lparr>mcu_ps_on := 0, busy_count := 0\<rparr>) (ev Sctrl_Mcu_Exit s) else s)
      in mcu_ps_machw_reset s1)"

end
