(* ===== verification/Clock_Props.thy ===== *)
theory Clock_Props
  imports Fake_Clock
begin

text \<open>
  What the clock counts. Every change of the clock, the seconds and the countdown to the next second is a number of
  ticks (\<open>counted\<close>), also the jump after a sleep or a calibration, whatever is called in whatever
  order. A clock that is ahead pays its debt by leaving out ticks; one that is behind is set forward.
\<close>

section \<open>Jumps are ticks\<close>

lemma sec_loop_run: "sec_loop secs t = (secs + of_nat (unat t div 500), of_nat (unat t mod 500))"
proof (induction secs t rule: sec_loop.induct)
  case (1 secs t)
  show ?case
  proof (cases "500 \<le> t")
    case True
    then have u: "unat (t - 500) = unat t - 500" "500 \<le> unat t" by (simp_all add: unat_sub word_le_nat_alt)
    then have "unat t div 500 = Suc (unat (t - 500) div 500)" "unat (t - 500) mod 500 = unat t mod 500"
      by (simp_all add: le_div_geq le_mod_geq)
    then show ?thesis using 1 True by (subst sec_loop.simps) simp
  next
    case False
    then have "unat t < 500" by (simp add: word_le_nat_alt)
    then show ?thesis using False by (subst sec_loop.simps) simp
  qed
qed

text \<open>The clock after \<open>n\<close> ticks, from \<open>c\<close> ticks into the current second.\<close>

definition after :: "nat \<Rightarrow> nat \<Rightarrow> clock_st \<Rightarrow> clock_st" where
  "after c n s = s\<lparr>current_clock := current_clock s + of_nat n, current_seconds := current_seconds s + of_nat ((c + n) div 500),
     second_countdown := of_nat (500 - (c + n) mod 500)\<rparr>"

lemma small_u32: "n < 2 ^ 32 \<Longrightarrow> unat (of_nat n :: u32) = n"
  by (simp add: unsigned_of_nat take_bit_nat_eq_self)

lemma word_nonzero: "0 < n \<Longrightarrow> n < 2 ^ 32 \<Longrightarrow> (of_nat n :: u32) \<noteq> 0"
  using small_u32 [of n] by force

lemma next_second:
  fixes m :: nat
  shows "m mod 500 = 499 \<Longrightarrow> Suc m div 500 = Suc (m div 500)" "m mod 500 = 499 \<Longrightarrow> Suc m mod 500 = 0"
    "m mod 500 \<noteq> 499 \<Longrightarrow> Suc m div 500 = m div 500" "m mod 500 \<noteq> 499 \<Longrightarrow> Suc m mod 500 = Suc (m mod 500)"
  by (simp_all add: div_Suc mod_Suc)

lemma count_after: "count_tick (after c n s) = after c (Suc n) s"
proof (cases "(c + n) mod 500 = 499")
  case True
  then show ?thesis using next_second(1,2) [OF True] by (simp add: count_tick_def after_def Let_def ac_simps)
next
  case False
  let ?k = "500 - (c + n) mod 500"
  have "(c + n) mod 500 < 499" using False mod_less_divisor [of 500 "c + n"] by linarith
  then have k: "1 < ?k" "?k - 1 = 500 - Suc (c + n) mod 500" using next_second(4) [OF False] by simp_all
  have w: "(of_nat ?k :: u32) - 1 = of_nat (500 - Suc (c + n) mod 500)" using k by (metis of_nat_1 of_nat_diff less_imp_le)
  moreover have "(of_nat (500 - Suc (c + n) mod 500) :: u32) \<noteq> 0" using k by (intro word_nonzero) auto
  ultimately show ?thesis using next_second(3) [OF False]
    by (simp add: count_tick_def after_def Let_def ac_simps del: of_nat_diff)
qed

lemma count_ticks: "(count_tick ^^ n) (after c 0 s) = after c n s"
  by (induction n) (simp_all add: count_after)

lemma after_0: "1 \<le> unat (second_countdown s) \<Longrightarrow> unat (second_countdown s) \<le> 500 \<Longrightarrow> after (500 - unat (second_countdown s)) 0 s = s"
  by (simp add: after_def del: of_nat_diff)

lemma divmod_unique: "m = 500 * q + r \<Longrightarrow> r < 500 \<Longrightarrow> m div 500 = q \<and> m mod 500 = r" for m q r :: nat
  by simp

lemma split_second:
  fixes c n :: nat
  assumes "c < 500"
  shows "500 - c \<le> n mod 500 \<Longrightarrow> (c + n) div 500 = Suc (n div 500) \<and> (c + n) mod 500 = n mod 500 - (500 - c)"
    and "\<not> 500 - c \<le> n mod 500 \<Longrightarrow> (c + n) div 500 = n div 500 \<and> (c + n) mod 500 = c + n mod 500"
proof -
  define q r where "q = n div 500" and "r = n mod 500"
  have n: "n = 500 * q + r" "r < 500" by (simp_all add: q_def r_def)
  show "(c + n) div 500 = Suc (n div 500) \<and> (c + n) mod 500 = n mod 500 - (500 - c)" if "500 - c \<le> n mod 500"
    unfolding q_def [symmetric] r_def [symmetric] using that [folded r_def] n assms by (intro divmod_unique) auto
  show "(c + n) div 500 = n div 500 \<and> (c + n) mod 500 = c + n mod 500" if "\<not> 500 - c \<le> n mod 500"
    unfolding q_def [symmetric] r_def [symmetric] using that [folded r_def] n assms by (intro divmod_unique) auto
qed

lemma update_after:
  assumes "1 \<le> unat (second_countdown s)" and "unat (second_countdown s) \<le> 500"
  shows "fclk_freertos_update_tick n s = after (500 - unat (second_countdown s)) (unat n) s"
proof -
  let ?d = "unat (second_countdown s)" and ?N = "unat n"
  let ?c = "500 - ?d" and ?t = "of_nat (unat n mod 500) :: u32"
  have c: "?c < 500" "500 - ?c = ?d" using assms by simp_all
  have t: "unat ?t = ?N mod 500" by (rule small_u32) (simp add: order.strict_trans [OF mod_less_divisor])
  have le: "second_countdown s \<le> ?t \<longleftrightarrow> ?d \<le> ?N mod 500" by (simp add: word_le_nat_alt t)
  show ?thesis
  proof (cases "?d \<le> ?N mod 500")
    case True
    then have sub: "?t - second_countdown s = of_nat (?N mod 500 - ?d)" by (simp add: of_nat_diff)
    have "?N mod 500 - ?d \<le> 500" using mod_less_divisor [of 500 ?N] by linarith
    then have "(500 :: u32) - (?t - second_countdown s) = of_nat (500 - (?N mod 500 - ?d))" unfolding sub by (simp add: of_nat_diff)
    then show ?thesis using split_second(1) [OF c(1), of ?N] True c(2) le
      by (simp add: fclk_freertos_update_tick_def sec_loop_run after_def Let_def del: of_nat_diff)
  next
    case False
    then have sub: "second_countdown s - ?t = of_nat (?d - ?N mod 500)" by (simp add: of_nat_diff)
    have eq: "500 - (?c + ?N mod 500) = ?d - ?N mod 500" using c assms by simp
    from False show ?thesis using split_second(2) [OF c(1), of ?N] c(2) le sub eq
      by (simp add: fclk_freertos_update_tick_def sec_loop_run after_def Let_def del: of_nat_diff)
  qed
qed

text \<open>
  C23: setting the clock forward by \<open>n\<close> ticks is the same as \<open>n\<close> tick interrupts: the clock, the seconds and the
  countdown to the next second agree, for every \<open>n\<close> and with every wrap-around.
\<close>

theorem update_is_ticks:
  assumes "1 \<le> unat (second_countdown s)" and "unat (second_countdown s) \<le> 500"
  shows "fclk_freertos_update_tick n s = (count_tick ^^ unat n) s"
  using count_ticks [of "unat n" "500 - unat (second_countdown s)" s] after_0 [OF assms] update_after [OF assms] by simp

definition clock_start :: clock_st where
  "clock_start = \<lparr>current_clock = 0, current_seconds = 0, second_countdown = 500, fclk_id = 6, cal_tick_save = \<lparr>cal_fclk_tick = 0, tmp1 = 0\<rparr>,
     use_cal_net = 0, s_last_int_wdg_feed = 0, s_last_task_wdg_feed_tick = 0, s_last_task_wdg_log_tick = 0,
     mcu_ps_info = \<lparr>mcu_ps_on = 0, busy_count = 0, mcu_prevent = 0\<rparr>, mcu_ps_tsf_save = \<lparr>first_tick = 0, first_tsf = 0\<rparr>,
     mcu_ps_machw_save = \<lparr>fclk_tick = 0, machw_tm = 0\<rparr>, increase_tick = 0, need_pass = 0, bssid = replicate 6 0, last_tsf = 0, clog = []\<rparr>"

theorem update_is_ticks_witness:
  "fclk_freertos_update_tick 1234 clock_start = (count_tick ^^ 1234) clock_start
    \<and> current_seconds (fclk_freertos_update_tick 1234 clock_start) = 2 \<and> second_countdown (fclk_freertos_update_tick 1234 clock_start) = 266"
proof (intro conjI)
  have "1 \<le> unat (second_countdown clock_start)" "unat (second_countdown clock_start) \<le> 500" by (simp_all add: clock_start_def)
  from update_is_ticks [OF this, of 1234] show "fclk_freertos_update_tick 1234 clock_start = (count_tick ^^ 1234) clock_start" by simp
qed (simp_all add: clock_start_def fclk_freertos_update_tick_def sec_loop.simps)

section \<open>The clock counts ticks\<close>

definition counted :: "clock_st \<Rightarrow> nat \<Rightarrow> bool" where
  "counted s n \<longleftrightarrow> current_clock s = of_nat n \<and> current_seconds s = of_nat (n div 500) \<and> second_countdown s = of_nat (500 - n mod 500)"

lemma countedD: "counted s n \<Longrightarrow> unat (second_countdown s) = 500 - n mod 500"
  unfolding counted_def by (simp add: small_u32 del: of_nat_diff)

lemma counted_after: "counted s n \<Longrightarrow> counted (after (n mod 500) k s) (n + k)"
proof -
  assume c: "counted s n"
  have eq: "500 * (n div 500) + (n mod 500 + k) = n + k" by simp
  have "(n + k) div 500 = n div 500 + (n mod 500 + k) div 500"
    using div_mult_self4 [of 500 "n div 500" "n mod 500 + k"] unfolding eq by simp
  moreover have "(n + k) mod 500 = (n mod 500 + k) mod 500" by (simp add: mod_simps)
  ultimately have "(n + k) div 500 = n div 500 + (n mod 500 + k) div 500" "(n + k) mod 500 = (n mod 500 + k) mod 500" by blast+
  then show ?thesis using c by (simp add: counted_def after_def del: of_nat_diff)
qed

lemma counted_tick: "counted s n \<Longrightarrow> counted (count_tick s) (n + 1)"
proof -
  assume c: "counted s n"
  have "after (n mod 500) 0 s = s" using c by (simp add: counted_def after_def del: of_nat_diff)
  then show ?thesis using count_after [of "n mod 500" 0 s] counted_after [OF c, of 1] by simp
qed

lemma counted_update: "counted s n \<Longrightarrow> counted (fclk_freertos_update_tick t s) (n + unat t)"
proof -
  assume c: "counted s n"
  have d: "unat (second_countdown s) = 500 - n mod 500" using countedD [OF c] .
  have "n mod 500 < 500" by simp
  with d have "1 \<le> unat (second_countdown s)" "unat (second_countdown s) \<le> 500" "500 - unat (second_countdown s) = n mod 500" by linarith+
  then show ?thesis using update_after [of s t] counted_after [OF c] by simp
qed

text \<open>\<open>s'\<close> has counted the ticks of \<open>s\<close> and perhaps more.\<close>

definition onward :: "clock_st \<Rightarrow> clock_st \<Rightarrow> bool" where
  "onward s s' \<longleftrightarrow> (\<forall>n. counted s n \<longrightarrow> (\<exists>k. counted s' (n + k)))"

definition hands :: "clock_st \<Rightarrow> u64 \<times> u32 \<times> u32" where
  "hands s = (current_clock s, current_seconds s, second_countdown s)"

lemma hands_upd [simp]:
  "hands (s\<lparr>increase_tick := a\<rparr>) = hands s" "hands (s\<lparr>cal_tick_save := b\<rparr>) = hands s" "hands (s\<lparr>bssid := c\<rparr>) = hands s"
  "hands (s\<lparr>last_tsf := d\<rparr>) = hands s" "hands (s\<lparr>use_cal_net := e\<rparr>) = hands s" "hands (s\<lparr>mcu_ps_info := f\<rparr>) = hands s"
  "hands (s\<lparr>s_last_task_wdg_feed_tick := g\<rparr>) = hands s" "hands (s\<lparr>fclk_id := h\<rparr>) = hands s"
  by (simp_all add: hands_def)

lemma onward_same: "hands s' = hands s \<Longrightarrow> onward s s'"
  unfolding onward_def counted_def hands_def by (metis Pair_inject add_0_right)

lemma onward_trans: "onward s s1 \<Longrightarrow> onward s1 s2 \<Longrightarrow> onward s s2"
  unfolding onward_def by (metis add.assoc)

lemma onward_hands: "onward s s1 \<Longrightarrow> hands s2 = hands s1 \<Longrightarrow> onward s s2"
  by (rule onward_trans [OF _ onward_same])

lemma onward_update: "onward s (fclk_update_tick t s)"
proof -
  let ?s = "mcu_ps_increase_clr s"
  have a: "onward ?s (fclk_freertos_update_tick t ?s)" unfolding onward_def using counted_update by blast
  have "onward s (fclk_freertos_update_tick t ?s)" by (rule onward_trans [OF onward_same a]) (simp add: mcu_ps_increase_clr_def)
  then have "onward s (ev (Step_Tick t) (fclk_freertos_update_tick t ?s))" by (rule onward_hands) (simp add: ev_def hands_def)
  then show ?thesis by (simp add: fclk_update_tick_def onward_same)
qed

lemma hands_simps [simp]:
  "hands (ev e s) = hands s" "hands (snd (mcu_ps_cal_increase_tick l s)) = hands s" "hands (snd (mcu_ps_need_pstick s)) = hands s"
  "hands (mcu_ps_machw_init env s) = hands s" "hands (int_watchdog_feed s) = hands s" "hands (task_watchdog_timeout_check s) = hands s"
  "hands (tsf_reset t s) = hands s" "hands (when_ev b e s) = hands s" "hands (mcu_ps_machw_reset s) = hands s" "hands (timer_cal_init s) = hands s"
  by (auto simp: hands_def ev_def mcu_ps_cal_increase_tick_def mcu_ps_need_pstick_def mcu_ps_machw_init_def int_watchdog_feed_def
    task_watchdog_timeout_check_def tsf_reset_def when_ev_def mcu_ps_machw_reset_def timer_cal_init_def Let_def)

lemma onward_hdl: "onward s (fclk_hdl env s)"
proof -
  obtain r s0 where r: "mcu_ps_need_pstick s = (r, s0)" by (cases "mcu_ps_need_pstick s")
  then have s0: "onward s s0" using hands_simps(3) [of s] by (intro onward_same) simp
  have "onward s0 (count_tick s0)" unfolding onward_def using counted_tick by blast
  then have c: "onward s (count_tick s0)" by (rule onward_trans [OF s0])
  show ?thesis unfolding fclk_hdl_def r using s0 by (auto simp: Let_def intro!: onward_hands [OF c])
qed

lemma hands_increase: "mcu_ps_cal_increase_tick l s = (x, s') \<Longrightarrow> hands s' = hands s"
  using hands_simps(2) [of l s] by simp

lemma onward_machw: "onward s (mcu_ps_machw_cal env s)"
proof -
  have "onward s (mcu_ps_machw_init env (fclk_update_tick t s'))" if "mcu_ps_cal_increase_tick l s = (x, s')" for t l x s'
    using onward_hands [OF onward_trans [OF onward_same [OF hands_increase [OF that]] onward_update]] by simp
  then show ?thesis unfolding mcu_ps_machw_cal_def by (auto simp: Let_def onward_same split: prod.split)
qed

lemma onward_tsf: "onward s (mcu_ps_tsf_cal env tsf s)"
proof -
  have "onward s ((mcu_ps_machw_init env (fclk_update_tick t s))\<lparr>increase_tick := 0\<rparr>)" for t
    by (rule onward_hands [OF onward_update]) simp
  then show ?thesis unfolding mcu_ps_tsf_cal_def by (auto simp: Let_def onward_same)
qed

lemma onward_beacon: "onward s (mcu_ps_bcn_callback env tsf a s)"
  unfolding mcu_ps_bcn_callback_def by (auto simp: Let_def intro: onward_same onward_hands [OF onward_tsf])

lemma onward_slow: "onward s (timer_cal_tick env s)"
proof -
  have "onward s ((fclk_update_tick t (s\<lparr>cal_tick_save := c\<rparr>))\<lparr>increase_tick := 0\<rparr>)" for t c
    by (rule onward_hands [OF onward_trans [OF onward_same onward_update]]) simp_all
  then show ?thesis unfolding timer_cal_tick_def by (auto simp: Let_def onward_same intro!: onward_hands [of s _ "mcu_ps_machw_init env _"])
qed

lemma onward_sleep: "onward s (bk_wlan_mcu_suppress_and_sleep env n s)"
proof -
  have now: "onward s s'" if "sleep_now env t s = (m, s')" for t m s'
    using that unfolding sleep_now_def
    by (auto simp: Let_def onward_same split: if_splits intro!: onward_trans [OF onward_same onward_machw])
  have save: "onward s s'" if "mcu_power_save env n s = (m, s')" for m s'
  proof -
    define first where "first = (if mcu_ps_on (mcu_ps_info s) = 1 \<and> peri_busy_count_get s = 0 \<and> mcu_prevent_get s = 0
      then case sleep_time n of None \<Rightarrow> (0, s) | Some t \<Rightarrow> sleep_now env t s else (0, s))"
    obtain m1 s1 where f: "first = (m1, s1)" by (cases first)
    have s1: "mcu_ps_cal_increase_tick m1 s1 = (m, s')" using that f unfolding mcu_power_save_def first_def [symmetric] by simp
    have "s1 = s \<or> (\<exists>t. sleep_now env t s = (m1, s1))" using f unfolding first_def by (auto split: if_splits option.splits)
    then have "onward s s1" using now onward_same by blast
    then show ?thesis by (rule onward_hands) (rule hands_increase [OF s1])
  qed
  obtain m s1 where m: "mcu_power_save env n s = (m, s1)" by (cases "mcu_power_save env n s")
  show ?thesis unfolding bk_wlan_mcu_suppress_and_sleep_def m using onward_trans [OF save [OF m] onward_update] by simp
qed

text \<open>Everything that is called while the system runs.\<close>

datatype clock_call =
    Tick
  | Sleep u32
  | Beacon u64 "u8 list"
  | Slow_Timer
  | Cal_Setting u32
  | Feed
  | Busy_Add
  | Busy_Dec
  | Prevent_Set u32
  | Prevent_Clear u32
  | Ps_Init
  | Ps_Exit
  | Ps_Enable
  | Ps_Disable

definition clock_exec :: "clock_env \<Rightarrow> clock_call \<Rightarrow> (clock_st, unit) prog" where
  "clock_exec env c = (case c of
     Tick \<Rightarrow> modM (fclk_hdl env)
   | Sleep n \<Rightarrow> modM (bk_wlan_mcu_suppress_and_sleep env n)
   | Beacon tsf a \<Rightarrow> modM (mcu_ps_bcn_callback env tsf a)
   | Slow_Timer \<Rightarrow> modM (cal_timer_hdl env)
   | Cal_Setting x \<Rightarrow> bindM (bk_cal_init env x) (\<lambda>_. retM ())
   | Feed \<Rightarrow> modM task_watchdog_feed
   | Busy_Add \<Rightarrow> modM peri_busy_count_add
   | Busy_Dec \<Rightarrow> modM peri_busy_count_dec
   | Prevent_Set p \<Rightarrow> modM (mcu_prevent_set p)
   | Prevent_Clear p \<Rightarrow> modM (mcu_prevent_clear p)
   | Ps_Init \<Rightarrow> modM (mcu_ps_init env)
   | Ps_Exit \<Rightarrow> modM mcu_ps_exit
   | Ps_Enable \<Rightarrow> modM mcu_ps_enable
   | Ps_Disable \<Rightarrow> modM mcu_ps_disable)"

lemma timer_cmd_run: "timer_ok env (clog s @ [e]) \<Longrightarrow> timer_cmd env e s = Inr ((), ev e s)"
  by (simp add: timer_cmd_def ev_def)

lemma cal_init_run:
  assumes "\<And>lg. timer_ok env lg"
  shows "\<exists>s'. bk_cal_init env x s = Inr (0, s') \<and> onward s s'"
proof (cases "x = 1")
  case True
  then show ?thesis using assms
    by (auto simp: bk_cal_init_def cal_timer_deset_def timer_cmd_run onward_same)
next
  case False
  then show ?thesis using assms
    by (auto simp: bk_cal_init_def cal_timer_set_def timer_cmd_run intro!: onward_hands [OF onward_machw])
qed

lemma clock_step:
  assumes "\<And>lg. timer_ok env lg"
  shows "\<exists>s'. clock_exec env c s = Inr ((), s') \<and> onward s s'"
proof (cases "\<exists>x. c = Cal_Setting x")
  case True
  then obtain x where "c = Cal_Setting x" by blast
  with cal_init_run [OF assms, of x s] show ?thesis by (auto simp: clock_exec_def bindM_run)
next
  case False
  then show ?thesis
    by (cases c) (auto simp: clock_exec_def cal_timer_hdl_def task_watchdog_feed_def peri_busy_count_add_def peri_busy_count_dec_def
      mcu_prevent_set_def mcu_prevent_clear_def mcu_ps_init_def mcu_ps_exit_def mcu_ps_enable_def mcu_ps_disable_def Let_def
      onward_hdl onward_sleep onward_beacon onward_slow onward_same)
qed

lemma clock_run:
  assumes "\<And>lg. timer_ok env lg"
  shows "\<exists>s'. forM calls (clock_exec env) s = Inr ((), s') \<and> onward s s'"
proof (induction calls arbitrary: s)
  case Nil
  then show ?case by (simp add: onward_same)
next
  case (Cons c cs)
  from clock_step [OF assms] obtain s1 where "clock_exec env c s = Inr ((), s1)" "onward s s1" by blast
  with Cons [of s1] show ?case by (auto intro: onward_trans)
qed

text \<open>
  C19: the clock, the seconds and the countdown never disagree. From start-up, whatever the order of tick interrupts, sleeps,
  beacons, calibrations and changes of the power-save settings, there is a number of ticks such that
  the clock is that number, the seconds are its whole seconds and the countdown is what is missing to
  the next one (at their widths).
\<close>

theorem clock_counts:
  assumes "\<And>lg. timer_ok env lg"
  shows "\<exists>s' n. forM calls (clock_exec env) clock_start = Inr ((), s') \<and> current_clock s' = of_nat n
    \<and> current_seconds s' = of_nat (n div 500) \<and> second_countdown s' = of_nat (500 - n mod 500)"
proof -
  have "counted clock_start 0" by (simp add: counted_def clock_start_def)
  with clock_run [OF assms] show ?thesis unfolding onward_def counted_def by blast
qed

definition demo_clock :: clock_env where
  "demo_clock = \<lparr>switch_due = (\<lambda>_. False), hal_machw_time = (\<lambda>lg. of_nat (1000 * length lg)), rf_dtim_enabled = (\<lambda>_. True),
     unconditional_sleep = (\<lambda>_. False), timer_ok = (\<lambda>_. True), mcu_can_sleep = (\<lambda>_. True), wkup_type = (\<lambda>_. 1), rf_sleeps = (\<lambda>_. True),
     slept_ms = (\<lambda>_. 40)\<rparr>"

theorem clock_counts_witness:
  "\<exists>s' n. forM [Cal_Setting 0, Ps_Init, Tick, Sleep 30, Tick, Beacon 5000 [1, 2, 3, 4, 5, 6]] (clock_exec demo_clock) clock_start = Inr ((), s')
    \<and> current_clock s' = of_nat n \<and> current_seconds s' = of_nat (n div 500) \<and> second_countdown s' = of_nat (500 - n mod 500)"
  by (rule clock_counts) (simp add: demo_clock_def)

section \<open>A clock that is ahead\<close>

lemma sint_small: "- (2 ^ 31) \<le> k \<Longrightarrow> k < 2 ^ 31 \<Longrightarrow> sint (word_of_int k :: u32) = k"
  by (simp add: signed_of_int signed_take_bit_int_eq_self)

lemma debt_word: "sint x = - int d \<Longrightarrow> x = word_of_int (- int d)" for x :: u32
proof -
  have "word_of_int (sint x) = x" by simp
  then show "sint x = - int d \<Longrightarrow> x = word_of_int (- int d)" by simp
qed








section \<open>A clock that is behind\<close>

lemma take_bit_32_64: "take_bit 32 (take_bit 64 k) = take_bit 32 (k :: int)"
  by simp

lemma down_add: "(ucast (a + b :: u64) :: u32) = ucast a + ucast b"
  by transfer (simp add: take_bit_add flip: take_bit_add [of 32 "take_bit 64 _" "take_bit 64 _"])


lemma down_mult: "(ucast (a * b :: u64) :: u32) = ucast a * ucast b"
  by transfer (simp add: take_bit_mult flip: take_bit_mult [of 32 "take_bit 64 _" "take_bit 64 _"])

lemma down_up: "(ucast (ucast (x :: u32) :: u64) :: u32) = x"
  by transfer simp

lemma fclk_ms_eq: "fclk_ms s = 2 * ucast (current_clock s)"
  by (simp add: fclk_ms_def BK_TICKS_TO_MS_def fclk_get_tick_def fclk_freertos_get_tick32_def down_mult down_up mult.commute)

lemma update_clock: "current_clock (fclk_freertos_update_tick t s) = current_clock s + ucast t"
  by (simp add: fclk_freertos_update_tick_def sec_loop_run Let_def)

lemma update_ms: "fclk_ms (fclk_update_tick t s) = fclk_ms s + 2 * t"
  by (simp add: fclk_update_tick_def fclk_ms_eq ev_def update_clock mcu_ps_increase_clr_def down_add down_up distrib_left)



lemma ms_upd [simp]: "fclk_ms (s\<lparr>increase_tick := a\<rparr>) = fclk_ms s" "fclk_ms (s\<lparr>last_tsf := b\<rparr>) = fclk_ms s" "fclk_ms (s\<lparr>cal_tick_save := c\<rparr>) = fclk_ms s"
  by (simp_all add: fclk_ms_eq)







section \<open>Sleeping with a debt\<close>

lemma sleep_time_some:
  assumes "3 \<le> sleep_tick" and "sleep_tick < 2 ^ 20"
  shows "\<exists>t. sleep_time sleep_tick = Some t"
proof -
  define n where "n = unat sleep_tick"
  have n: "3 \<le> n" "n < 2 ^ 20" using assms by (simp_all add: n_def word_le_nat_alt word_less_nat_alt)
  have st: "sleep_tick = of_nat n" by (simp add: n_def)
  have ms: "sleep_tick * 2 = of_nat (2 * n)" by (simp add: st)
  have le: "\<not> sleep_tick * 2 \<le> 2" unfolding ms word_le_nat_alt using n by (subst small_u32) auto
  have "(sleep_tick * 2 - 2) * 32 = word_of_int (64 * int n - 64)" unfolding st by (simp add: algebra_simps)
  moreover have "sint (word_of_int (64 * int n - 64) :: u32) = 64 * int n - 64" by (rule sint_small) (use n in auto)
  ultimately have "\<not> sint ((sleep_tick * 2 - 2) * 32) \<le> 64" using n by simp
  then show ?thesis using le by (simp add: sleep_time_def Let_def)
qed

lemma sleep_now_radio:
  assumes "\<And>lg. wkup_type env lg = 1" and "\<And>lg. rf_sleeps env lg" and "\<And>lg. slept_ms env lg = of_nat (2 * m)" and "m < 2 ^ 30"
  shows "\<exists>s'. sleep_now env t s = (of_nat m, s') \<and> current_clock s' = current_clock s \<and> increase_tick s' = increase_tick s"
proof -
  have "unat (of_nat (2 * m) :: u32) = 2 * m" using assms(4) by (intro small_u32) simp
  then have "(of_nat (2 * m) :: u32) div 2 = of_nat m" by (intro word_unat_eq_iff [THEN iffD2]) (use assms(4) in \<open>simp add: unat_div small_u32 del: of_nat_mult\<close>)
  then show ?thesis using assms(1-3) by (auto simp: sleep_now_def when_ev_def ev_def Let_def simp del: of_nat_mult)
qed

lemma increase_charges:
  assumes "sint (increase_tick s) = - int d" and "d \<le> m" and "m < 2 ^ 30"
  shows "mcu_ps_cal_increase_tick (of_nat m) s = (of_nat (m - d), s\<lparr>increase_tick := 0\<rparr>)"
proof (cases "d = 0")
  case True
  then have "increase_tick s = 0" using debt_word [OF assms(1)] by simp
  then show ?thesis using True by (simp add: mcu_ps_cal_increase_tick_def)
next
  case False
  have sum: "of_nat m + increase_tick s = of_nat (m - d)" using debt_word [OF assms(1)] assms(2) by (simp add: of_nat_diff)
  have "sint (of_nat m :: u32) = int m" "sint (of_nat (m - d) :: u32) = int (m - d)"
    using sint_small [of "int m"] sint_small [of "int (m - d)"] assms(3) by simp_all
  then show ?thesis using False assms(1,2) sum by (auto simp: mcu_ps_cal_increase_tick_def Let_def)
qed

text \<open>
  C22: after a sleep with the radio asleep the debt is charged twice over. Power save is on, nothing is busy or forbids to sleep, a
  sleep of at least three and fewer than \<open>2 ^ 20\<close> ticks is asked for, the radio sleeps, and the wake-up timer ends the sleep.
  The debt is kept in milliseconds, but the time slept is counted in ticks
  when the debt is taken off it: a sleep of \<open>2 * m\<close> milliseconds (the wake-up timer's count, below \<open>2 ^ 31\<close>) by a clock that is
  \<open>d \<le> m\<close> milliseconds ahead sets the clock forward by \<open>2 * (m - d)\<close> milliseconds and not by \<open>2 * m - d\<close>; the
  debt is forgotten, so a clock that was ahead is \<open>d\<close> milliseconds behind.
\<close>

theorem sleep_overcharges:
  assumes "mcu_ps_on (mcu_ps_info s) = 1" and "busy_count (mcu_ps_info s) = 0" and "mcu_prevent (mcu_ps_info s) = 0"
    and "3 \<le> sleep_tick" and "sleep_tick < 2 ^ 20"
    and "\<And>lg. wkup_type env lg = 1" and "\<And>lg. rf_sleeps env lg" and "\<And>lg. slept_ms env lg = of_nat (2 * m)" and "m < 2 ^ 30"
    and "sint (increase_tick s) = - int d" and "d \<le> m"
  shows "fclk_ms (bk_wlan_mcu_suppress_and_sleep env sleep_tick s) = fclk_ms s + of_nat (2 * (m - d))
    \<and> increase_tick (bk_wlan_mcu_suppress_and_sleep env sleep_tick s) = 0"
proof -
  obtain t where t: "sleep_time sleep_tick = Some t" using sleep_time_some [OF assms(4,5)] by blast
  from sleep_now_radio [OF assms(6-9), of t s] obtain s1 where
    s1: "sleep_now env t s = (of_nat m, s1)" "current_clock s1 = current_clock s" "increase_tick s1 = increase_tick s" by blast
  have "mcu_ps_cal_increase_tick (of_nat m) s1 = (of_nat (m - d), s1\<lparr>increase_tick := 0\<rparr>)"
    using assms(9-11) s1(3) by (intro increase_charges) simp_all
  then have "bk_wlan_mcu_suppress_and_sleep env sleep_tick s = fclk_update_tick (of_nat (m - d)) (s1\<lparr>increase_tick := 0\<rparr>)"
    using t s1(1) assms(1-3) by (simp add: bk_wlan_mcu_suppress_and_sleep_def mcu_power_save_def peri_busy_count_get_def mcu_prevent_get_def)
  moreover have "increase_tick (fclk_update_tick x (u\<lparr>increase_tick := 0\<rparr>)) = 0" for x u
    by (simp add: fclk_update_tick_def fclk_freertos_update_tick_def mcu_ps_increase_clr_def ev_def Let_def split: prod.split)
  moreover have "fclk_ms s1 = fclk_ms s" using s1(2) by (simp add: fclk_ms_eq)
  ultimately show ?thesis by (simp add: update_ms)
qed

definition ahead_clock :: clock_st where
  "ahead_clock = clock_start\<lparr>increase_tick := -7, mcu_ps_info := \<lparr>mcu_ps_on = 1, busy_count = 0, mcu_prevent = 0\<rparr>\<rparr>"

theorem sleep_overcharges_witness:
  "fclk_ms ahead_clock = 0 \<and> fclk_ms (bk_wlan_mcu_suppress_and_sleep demo_clock 30 ahead_clock) = 26
    \<and> increase_tick (bk_wlan_mcu_suppress_and_sleep demo_clock 30 ahead_clock) = 0"
  using sleep_overcharges [of ahead_clock 30 demo_clock 20 7] by (simp add: ahead_clock_def clock_start_def demo_clock_def fclk_ms_eq)

text \<open>
  The slow timer measures from zero, not from the time at which it was started (\<^verbatim>\<open>cal_fclk_tick\<close> is kept and not read): started
  again later than at start-up, it takes all the time since then for a debt after fifteen seconds of exact time.
\<close>

lemma cal_restart_debt:
  assumes "4 \<le> sint (fclk_ms s)" and "cal_tick_save s' = cal_tick_save (timer_cal_init s)" and "fclk_ms s' = fclk_ms s + ONE_CAL_TIME"
  shows "increase_tick (timer_cal_tick env s') = 2 - fclk_ms s"
proof -
  define k where "k = sint (fclk_ms s)"
  have w: "fclk_ms s = word_of_int k" by (simp add: k_def)
  have k: "4 \<le> k" "k < 2 ^ 31" using assms(1) sint_lt [of "fclk_ms s"] by (simp_all add: k_def)
  have lost: "ONE_CAL_TIME - fclk_ms s' = word_of_int (- k)" unfolding assms(3) w by simp
  have "sint (word_of_int (- k) :: u32) = - k" by (rule sint_small) (use k in auto)
  then show ?thesis using k lost assms(2) w
    by (simp add: timer_cal_tick_def timer_cal_init_def mcu_ps_machw_init_def Let_def)
qed

end
