(* ===== verification/Ring_Buffer.thy ===== *)
theory Ring_Buffer
  imports Prelude
begin

text \<open>
  The byte rings of the audio drivers: \<^verbatim>\<open>driver/audio/ring_buffer.c\<close> between a task and the audio interrupt, and its
  two variants with a DMA channel on one side (\<^verbatim>\<open>ring_buffer_dma_read.c\<close>, where the channel plays what is
  written, \<^verbatim>\<open>ring_buffer_dma_write.c\<close>, where it records what is read). Read and write point are positions; the writer
  keeps four bytes free, so that equal points always mean an empty ring. The DMA variants need the pause registers of BK7221U.

  The points are shared with an interrupt, and only single assignments are masked. A function
  therefore has a parameter \<open>intr\<close>: what the interrupt does between its accesses to the shared
  fields, at point \<open>0\<close>, \<open>1\<close> and so on (an interrupt in the middle of a copy does what it does before or after
  it, unless it reads the bytes being copied). The record is extensible, so that the
  interrupt can keep a state of its own. \<open>address\<close> is the memory the pointer designates.
\<close>

record RB_ST =
  address :: "u8 list"
  capacity :: u32
  wp :: u32
  rp :: u32

definition RWP_SAFE_INTERVAL :: u32 where "RWP_SAFE_INTERVAL = 4"

lemmas rb_consts [simp] = RWP_SAFE_INTERVAL_def

type_synonym 's intr = "nat \<Rightarrow> ('s, unit) prog"

definition quiet :: "'s intr" where
  "quiet = (\<lambda>_. retM ())"

definition rb_init :: "u8 list \<Rightarrow> u32 \<Rightarrow> ('a RB_ST_scheme, unit) prog" where
  "rb_init addr cap = modM (\<lambda>s. s\<lparr>address := addr, capacity := cap, wp := 0, rp := 0\<rparr>)"

definition rb_clear :: "('a RB_ST_scheme, unit) prog" where
  "rb_clear = modM (\<lambda>s. s\<lparr>wp := 0, rp := 0\<rparr>)"

text \<open>\<^verbatim>\<open>RB_MEMCPY\<close> into and out of the ring\<close>

definition rb_store :: "u32 \<Rightarrow> u8 list \<Rightarrow> ('a RB_ST_scheme, unit) prog" where
  "rb_store p xs = bindM (getM address) (\<lambda>m.
     if unat p + length xs \<le> length m
     then modM (\<lambda>s. s\<lparr>address := take (unat p) m @ xs @ drop (unat p + length xs) m\<rparr>) else failM Bad_Index)"

definition rb_load :: "u32 \<Rightarrow> u32 \<Rightarrow> ('a RB_ST_scheme, u8 list) prog" where
  "rb_load p n = bindM (getM address) (\<lambda>m.
     if unat p + unat n \<le> length m then retM (take (unat n) (drop (unat p) m)) else failM Bad_Index)"

section \<open>Reading\<close>

text \<open>The body of a read, with the write point read before.\<close>

definition rb_take :: "'a RB_ST_scheme intr \<Rightarrow> u32 \<Rightarrow> u32 \<Rightarrow> ('a RB_ST_scheme, u32 \<times> u8 list) prog" where
  "rb_take intr wp0 required_bytes = bindM (getM (\<lambda>s. (rp s, capacity s))) (\<lambda>(r, cap).
     if wp0 \<ge> r then
       (let remain_bytes = wp0 - r; read_bytes = (if required_bytes > remain_bytes then remain_bytes else required_bytes) in
        bindM (rb_load r read_bytes) (\<lambda>xs.
        thenM (intr 1)
       (thenM (modM (\<lambda>s. s\<lparr>rp := rp s + read_bytes\<rparr>))
       (thenM (intr 2) (retM (read_bytes, xs))))))
     else
       (let remain_bytes = cap - r in
        if required_bytes > remain_bytes then
          bindM (rb_load r remain_bytes) (\<lambda>xs.
          thenM (intr 1)
         (if required_bytes - remain_bytes > wp0 then
            bindM (rb_load 0 wp0) (\<lambda>ys.
            thenM (intr 2) (thenM (modM (\<lambda>s. s\<lparr>rp := wp0\<rparr>)) (thenM (intr 3) (retM (remain_bytes + wp0, xs @ ys)))))
          else
            bindM (rb_load 0 (required_bytes - remain_bytes)) (\<lambda>ys.
            thenM (intr 2) (thenM (modM (\<lambda>s. s\<lparr>rp := required_bytes - remain_bytes\<rparr>))
           (thenM (intr 3) (retM (required_bytes, xs @ ys)))))))
        else
          bindM (rb_load r required_bytes) (\<lambda>xs.
          thenM (intr 1) (thenM (modM (\<lambda>s. s\<lparr>rp := rp s + required_bytes\<rparr>)) (thenM (intr 2) (retM (required_bytes, xs)))))))"

definition rb_read :: "'a RB_ST_scheme intr \<Rightarrow> u32 \<Rightarrow> u32 \<Rightarrow> ('a RB_ST_scheme, u32 \<times> u8 list) prog" where
  "rb_read intr sz count = bindM (getM wp) (\<lambda>wp0.
     if sz * count = 0 then retM (0, []) else thenM (intr 0) (rb_take intr wp0 (sz * count)))"

section \<open>Writing\<close>

definition rb_end :: "'a RB_ST_scheme intr \<Rightarrow> u32 \<Rightarrow> ('a RB_ST_scheme, u32) prog" where
  "rb_end intr write_bytes =
     bindM (getM (\<lambda>s. wp s \<ge> capacity s \<and> rp s \<noteq> 0)) (\<lambda>b.
     thenM (whenM b (thenM (intr 4) (modM (\<lambda>s. s\<lparr>wp := 0\<rparr>)))) (retM write_bytes))"

text \<open>The body of a write, with the read point read before. \<open>buffer\<close> holds the caller's bytes.\<close>

definition rb_put :: "'a RB_ST_scheme intr \<Rightarrow> u32 \<Rightarrow> u8 list \<Rightarrow> u32 \<Rightarrow> ('a RB_ST_scheme, u32) prog" where
  "rb_put intr rp0 buffer write_bytes = bindM (getM (\<lambda>s. (wp s, capacity s))) (\<lambda>(w, cap).
     (let straight =
        thenM (rb_store w (take (unat write_bytes) buffer))
       (thenM (intr 1) (thenM (modM (\<lambda>s. s\<lparr>wp := wp s + write_bytes\<rparr>)) (thenM (intr 2) (rb_end intr write_bytes))))
      in if w \<ge> rp0 then
        if cap - w + rp0 \<ge> write_bytes + RWP_SAFE_INTERVAL then
          if length buffer < unat write_bytes then failM Bad_Index
          else if cap - w \<ge> write_bytes then straight
          else
            thenM (rb_store w (take (unat (cap - w)) buffer))
           (thenM (intr 1)
           (thenM (modM (\<lambda>s. s\<lparr>wp := write_bytes - (cap - w)\<rparr>))
           (thenM (intr 2)
           (thenM (bindM (getM wp) (\<lambda>w'. rb_store 0 (take (unat w') (drop (unat (cap - w)) buffer))))
           (thenM (intr 3) (rb_end intr write_bytes))))))
        else retM 0
      else
        if rp0 - w \<ge> write_bytes + RWP_SAFE_INTERVAL then
          if length buffer < unat write_bytes then failM Bad_Index else straight
        else retM 0))"

definition rb_write :: "'a RB_ST_scheme intr \<Rightarrow> u8 list \<Rightarrow> u32 \<Rightarrow> u32 \<Rightarrow> ('a RB_ST_scheme, u32) prog" where
  "rb_write intr buffer sz count =
     (if sz * count = 0 then retM 0
      else bindM (getM rp) (\<lambda>rp0. thenM (intr 0) (rb_put intr rp0 buffer (sz * count))))"

definition rb_get_fill_size :: "'a RB_ST_scheme \<Rightarrow> u32" where
  "rb_get_fill_size s = (if wp s \<ge> rp s then wp s - rp s else capacity s - rp s + wp s)"

definition rb_get_free_size :: "'a RB_ST_scheme \<Rightarrow> u32" where
  "rb_get_free_size s =
     (let free_size = (if wp s \<ge> rp s then capacity s - wp s + rp s else rp s - wp s)
      in if free_size > RWP_SAFE_INTERVAL then free_size - RWP_SAFE_INTERVAL else 0)"

section \<open>With a DMA channel\<close>

text \<open>
  The pointer itself (\<open>base\<close>), the registers of the channel that \<^verbatim>\<open>gdma_ctrl\<close> reads and writes, and
  how often the channel was enabled and disabled.
\<close>

record RB_DMA_ST = RB_ST +
  base :: u32
  dma_ch :: u32
  src_read_addr :: "u32 \<Rightarrow> u32"
  src_pause_addr :: "u32 \<Rightarrow> u32"
  dst_write_addr :: "u32 \<Rightarrow> u32"
  dst_pause_addr :: "u32 \<Rightarrow> u32"
  dma_enables :: "(u32 \<times> u32) list"

definition set_src_pause :: "u32 \<Rightarrow> 'a RB_DMA_ST_scheme \<Rightarrow> 'a RB_DMA_ST_scheme" where
  "set_src_pause a s = s\<lparr>src_pause_addr := (src_pause_addr s)(dma_ch s := a)\<rparr>"

definition set_dst_pause :: "u32 \<Rightarrow> 'a RB_DMA_ST_scheme \<Rightarrow> 'a RB_DMA_ST_scheme" where
  "set_dst_pause a s = s\<lparr>dst_pause_addr := (dst_pause_addr s)(dma_ch s := a)\<rparr>"

definition dma_enable :: "u32 \<Rightarrow> 'a RB_DMA_ST_scheme \<Rightarrow> 'a RB_DMA_ST_scheme" where
  "dma_enable e s = s\<lparr>dma_enables := dma_enables s @ [(dma_ch s, e)]\<rparr>"

definition rb_init_dma_read :: "u32 \<Rightarrow> u8 list \<Rightarrow> u32 \<Rightarrow> u32 \<Rightarrow> ('a RB_DMA_ST_scheme, unit) prog" where
  "rb_init_dma_read ptr addr cap ch =
     thenM (modM (\<lambda>s. s\<lparr>address := addr, base := ptr, capacity := cap, wp := 0, rp := 0, dma_ch := ch\<rparr>))
    (thenM (modM (\<lambda>s. set_src_pause (base s) s))
    (thenM (modM (dma_enable 1)) (modM (dma_enable 0))))"

definition rb_clear_dma_read :: "('a RB_DMA_ST_scheme, unit) prog" where
  "rb_clear_dma_read = modM (\<lambda>s. s\<lparr>wp := 0, rp := 0\<rparr>)"

text \<open>The read point is where the channel reads.\<close>

definition fetch_rp :: "('a RB_DMA_ST_scheme, u32) prog" where
  "fetch_rp = thenM (modM (\<lambda>s. s\<lparr>rp := src_read_addr s (dma_ch s) - base s\<rparr>)) (getM rp)"

definition rb_write_dma_read :: "u8 list \<Rightarrow> u32 \<Rightarrow> u32 \<Rightarrow> ('a RB_DMA_ST_scheme, u32) prog" where
  "rb_write_dma_read buffer sz count =
     (if sz * count = 0 then retM 0
      else bindM fetch_rp (\<lambda>rp0. bindM (rb_put quiet rp0 buffer (sz * count)) (\<lambda>r.
        if r = 0 then retM 0 else thenM (modM (\<lambda>s. set_src_pause (base s + wp s) s)) (retM r))))"

definition rb_get_fill_size_dma_read :: "('a RB_DMA_ST_scheme, u32) prog" where
  "rb_get_fill_size_dma_read = thenM fetch_rp (getM rb_get_fill_size)"

definition rb_get_free_size_dma_read :: "('a RB_DMA_ST_scheme, u32) prog" where
  "rb_get_free_size_dma_read = thenM fetch_rp (getM rb_get_free_size)"

definition rb_init_dma_write :: "u32 \<Rightarrow> u8 list \<Rightarrow> u32 \<Rightarrow> u32 \<Rightarrow> ('a RB_DMA_ST_scheme, unit) prog" where
  "rb_init_dma_write ptr addr cap ch =
     thenM (modM (\<lambda>s. s\<lparr>address := addr, base := ptr, capacity := cap, wp := 0, rp := 0, dma_ch := ch\<rparr>))
           (modM (\<lambda>s. set_dst_pause (base s + capacity s - RWP_SAFE_INTERVAL) s))"

definition rb_clear_dma_write :: "('a RB_DMA_ST_scheme, unit) prog" where
  "rb_clear_dma_write =
     thenM (modM (\<lambda>s. s\<lparr>wp := 0, rp := 0\<rparr>)) (modM (\<lambda>s. set_dst_pause (base s + capacity s - RWP_SAFE_INTERVAL) s))"

definition fetch_wp :: "('a RB_DMA_ST_scheme, u32) prog" where
  "fetch_wp = thenM (modM (\<lambda>s. s\<lparr>wp := dst_write_addr s (dma_ch s) - base s\<rparr>)) (getM wp)"

definition rb_read_dma_write :: "u32 \<Rightarrow> u32 \<Rightarrow> ('a RB_DMA_ST_scheme, u32 \<times> u8 list) prog" where
  "rb_read_dma_write sz count =
     (if sz * count = 0 then retM (0, [])
      else bindM fetch_wp (\<lambda>wp0. bindM (rb_take quiet wp0 (sz * count)) (\<lambda>x.
        thenM (modM (\<lambda>s. set_dst_pause
                 (if rp s \<ge> RWP_SAFE_INTERVAL then base s + rp s - RWP_SAFE_INTERVAL
                  else base s + capacity s + rp s - RWP_SAFE_INTERVAL) s))
              (retM x))))"

definition rb_get_fill_size_dma_write :: "('a RB_DMA_ST_scheme, u32) prog" where
  "rb_get_fill_size_dma_write = thenM fetch_wp (getM rb_get_fill_size)"

definition rb_get_free_size_dma_write :: "('a RB_DMA_ST_scheme, u32) prog" where
  "rb_get_free_size_dma_write = thenM fetch_wp (getM rb_get_free_size)"

end
