(* ===== verification/Ring_Cells.thy ===== *)
theory Ring_Cells
  imports Ring_Buffer
begin

text \<open>
  What reads and writes of the rings do. \<open>cells\<close> are the positions between the read and the write point, \<open>held\<close> the
  bytes there. \<open>take_run\<close> and \<open>read_run\<close>: a read, with interrupts that only add bytes (\<open>feeder\<close>), takes from the front. \<open>put_run\<close>: a
  write, with interrupts that only take bytes (\<open>drainer\<close>), adds at the end.
\<close>

section \<open>Cells\<close>

definition cells :: "nat \<Rightarrow> nat \<Rightarrow> nat \<Rightarrow> nat list" where
  "cells c w r = (if r \<le> w then [r..<w] else [r..<c] @ [0..<w])"

text \<open>Where the read point can be after reads.\<close>

definition later :: "nat \<Rightarrow> nat \<Rightarrow> nat \<Rightarrow> nat \<Rightarrow> bool" where
  "later c w r r' \<longleftrightarrow> (if r \<le> w then r \<le> r' \<and> r' \<le> w else (r \<le> r' \<and> r' \<le> c \<or> r' \<le> w))"

lemma later_refl: "r \<le> c \<Longrightarrow> later c w r r"
  by (simp add: later_def)

lemma later_trans: "later c w r r1 \<Longrightarrow> later c w r1 r2 \<Longrightarrow> w \<le> c \<Longrightarrow> later c w r r2"
  by (auto simp: later_def split: if_splits)

lemma later_le: "later c w r r' \<Longrightarrow> w \<le> c \<Longrightarrow> r' \<le> c"
  by (auto simp: later_def split: if_splits)

lemma later_cells: "later c w r r' \<Longrightarrow> set (cells c w r') \<subseteq> set (cells c w r)"
  by (auto simp: later_def cells_def split: if_splits)

text \<open>A read of \<open>n\<close> bytes moves the read point to \<open>ahead c r n\<close>.\<close>

definition ahead :: "nat \<Rightarrow> nat \<Rightarrow> nat \<Rightarrow> nat" where
  "ahead c r n = (if r + n \<le> c then r + n else r + n - c)"

lemma length_cells: "length (cells c w r) = (if r \<le> w then w - r else c - r + w)"
  by (simp add: cells_def)

lemma ahead_cells: "n \<le> length (cells c w r) \<Longrightarrow> r \<le> c \<Longrightarrow> w \<le> c \<Longrightarrow> cells c w (ahead c r n) = drop n (cells c w r)"
  by (auto simp: cells_def ahead_def add.commute)

lemma ahead_later: "n \<le> length (cells c w r) \<Longrightarrow> r \<le> c \<Longrightarrow> w \<le> c \<Longrightarrow> later c w r (ahead c r n)"
  by (auto simp: cells_def ahead_def later_def)

lemma ahead_le: "n \<le> length (cells c w r) \<Longrightarrow> r \<le> c \<Longrightarrow> w \<le> c \<Longrightarrow> ahead c r n \<le> c"
  by (auto simp: length_cells ahead_def split: if_splits)

text \<open>Moving the write point, with or without passing the end.\<close>

lemma cells_grow:
  assumes "later c w r r'" and "w + n \<le> c" and "r \<le> w \<or> w + n < r"
  shows "cells c (w + n) r' = cells c w r' @ [w..<w + n]"
  using assms upt_add_eq_append [of r' w n] upt_add_eq_append [of 0 w n] by (auto simp: cells_def later_def split: if_splits)

lemma cells_wrap:
  assumes "later c w r r'" and "r \<le> w" and "w \<le> c" and "m < r"
  shows "cells c m r' = cells c w r' @ [w..<c] @ [0..<m]"
  using assms upt_add_eq_append [of r' w "c - w"] by (auto simp: cells_def later_def)

lemma cells_reset: "0 < r \<Longrightarrow> r \<le> c \<Longrightarrow> cells c 0 r = cells c c r"
  by (auto simp: cells_def)

lemma cells_free:
  assumes "later c w r r'" and "w \<le> c"
  shows "r \<le> w \<Longrightarrow> i \<in> set (cells c w r') \<Longrightarrow> r \<le> i \<and> i < w"
    and "w < r \<Longrightarrow> i \<in> set (cells c w r') \<Longrightarrow> i < w \<or> r \<le> i"
  using assms by (auto simp: cells_def later_def split: if_splits)

section \<open>The state\<close>

definition rb_ok :: "'a RB_ST_scheme \<Rightarrow> bool" where
  "rb_ok s \<longleftrightarrow> unat (rp s) \<le> unat (capacity s) \<and> unat (wp s) \<le> unat (capacity s) \<and> unat (capacity s) = length (address s)"

definition posns :: "'a RB_ST_scheme \<Rightarrow> nat list" where
  "posns s = cells (unat (capacity s)) (unat (wp s)) (unat (rp s))"

definition held :: "'a RB_ST_scheme \<Rightarrow> u8 list" where
  "held s = map ((!) (address s)) (posns s)"

text \<open>
  \<open>step mv k s s'\<close>: \<open>k\<close> bytes were taken off the front, the others are still there, unchanged, and new ones follow, those that
  \<open>mv\<close> has grown by.
\<close>

definition step :: "('a \<Rightarrow> u8 list) \<Rightarrow> nat \<Rightarrow> 'a RB_ST_scheme \<Rightarrow> 'a RB_ST_scheme \<Rightarrow> bool" where
  "step mv k s s' \<longleftrightarrow> capacity s' = capacity s \<and> rb_ok s'
     \<and> (\<exists>e. posns s' = drop k (posns s) @ e \<and> mv (RB_ST.more s') = mv (RB_ST.more s) @ map ((!) (address s')) e)
     \<and> (\<forall>i \<in> set (drop k (posns s)). address s' ! i = address s ! i)"

lemma step_refl: "rb_ok s \<Longrightarrow> step mv 0 s s"
  by (auto simp: step_def)

lemma step_trans:
  assumes "step mv j s s1" and "step mv k s1 s2" and "j + k \<le> length (posns s)"
  shows "step mv (j + k) s s2"
proof -
  from assms(1) obtain e1 where 1: "capacity s1 = capacity s" "posns s1 = drop j (posns s) @ e1"
    "mv (RB_ST.more s1) = mv (RB_ST.more s) @ map ((!) (address s1)) e1" "\<forall>i \<in> set (drop j (posns s)). address s1 ! i = address s ! i"
    by (auto simp: step_def)
  from assms(2) obtain e2 where 2: "capacity s2 = capacity s1" "rb_ok s2" "posns s2 = drop k (posns s1) @ e2"
    "mv (RB_ST.more s2) = mv (RB_ST.more s1) @ map ((!) (address s2)) e2" "\<forall>i \<in> set (drop k (posns s1)). address s2 ! i = address s1 ! i"
    by (auto simp: step_def)
  have d: "drop k (posns s1) = drop (j + k) (posns s) @ e1" using 1(2) assms(3) by (simp add: add.commute)
  have e: "map ((!) (address s1)) e1 = map ((!) (address s2)) e1" using 2(5) d by simp
  have "set (drop (j + k) (posns s)) \<subseteq> set (drop j (posns s))" by (rule set_drop_subset_set_drop) simp
  then have "\<forall>i \<in> set (drop (j + k) (posns s)). address s2 ! i = address s ! i" using 1(4) 2(5) d by auto
  moreover have "posns s2 = drop (j + k) (posns s) @ (e1 @ e2)" using 2(3) unfolding d by simp
  moreover have "mv (RB_ST.more s2) = mv (RB_ST.more s) @ map ((!) (address s2)) (e1 @ e2)" using 1(3) 2(4) e by simp
  ultimately show ?thesis using 1(1) 2(1,2) unfolding step_def by auto
qed

lemma step_length: "step mv k s s' \<Longrightarrow> length (posns s) - k \<le> length (posns s')"
  by (auto simp: step_def)

lemma step_ok: "step mv k s s' \<Longrightarrow> rb_ok s'"
  by (simp add: step_def)

text \<open>
  Taking bytes off by moving the read point. A read of everything up to the end may put it at the end or at zero, which is
  the same unless the write point is at the end.
\<close>

definition moved_to :: "'a RB_ST_scheme \<Rightarrow> nat \<Rightarrow> u32 \<Rightarrow> bool" where
  "moved_to s n x \<longleftrightarrow> unat x = ahead (unat (capacity s)) (unat (rp s)) n
     \<or> x = 0 \<and> ahead (unat (capacity s)) (unat (rp s)) n = unat (capacity s) \<and> wp s \<noteq> capacity s"

lemma cells_top: "w < c \<Longrightarrow> cells c w 0 = cells c w c"
  by (simp add: cells_def)

lemma step_read:
  assumes "rb_ok s" and "n \<le> length (posns s)" and "moved_to s n x"
  shows "step mv n s (s\<lparr>rp := x\<rparr>)"
proof -
  let ?c = "unat (capacity s)" and ?w = "unat (wp s)" and ?r = "unat (rp s)"
  have le: "?w \<le> ?c" "?r \<le> ?c" "n \<le> length (cells ?c ?w ?r)" using assms(1,2) by (simp_all add: rb_ok_def posns_def)
  then have "cells ?c ?w (unat x) = cells ?c ?w (ahead ?c ?r n)"
    using assms(3) cells_top [of ?w ?c] by (auto simp: moved_to_def word_unat_eq_iff le_less)
  then have "posns (s\<lparr>rp := x\<rparr>) = drop n (posns s)" using ahead_cells [of n ?c ?w ?r] le by (simp add: posns_def)
  moreover have "unat x \<le> ?c" using assms(3) ahead_le [OF le(3,2,1)] by (auto simp: moved_to_def)
  ultimately show ?thesis using assms(1) by (simp add: step_def rb_ok_def)
qed

text \<open>What \<open>intr\<close> does feeds the ring; it never leaves the write point at the end.\<close>

definition feeds :: "('a \<Rightarrow> u8 list) \<Rightarrow> 'a RB_ST_scheme \<Rightarrow> 'a RB_ST_scheme \<Rightarrow> bool" where
  "feeds mv s s' \<longleftrightarrow> rp s' = rp s \<and> step mv 0 s s' \<and> (wp s' = capacity s' \<longrightarrow> wp s = capacity s)"

definition feeder :: "('a \<Rightarrow> u8 list) \<Rightarrow> 'a RB_ST_scheme intr \<Rightarrow> bool" where
  "feeder mv intr \<longleftrightarrow> (\<forall>i s. rb_ok s \<longrightarrow> (\<exists>s'. intr i s = Inr ((), s') \<and> feeds mv s s'))"

lemma feeds_refl: "rb_ok s \<Longrightarrow> feeds mv s s"
  by (simp add: feeds_def step_refl)

lemma feeds_trans: "feeds mv s s1 \<Longrightarrow> feeds mv s1 s2 \<Longrightarrow> feeds mv s s2"
  using step_trans [of mv 0 s s1 0 s2] by (auto simp: feeds_def)

lemma feeder_quiet: "feeder mv quiet"
  by (simp add: feeder_def quiet_def feeds_refl)

lemma feederE:
  assumes "feeder mv intr" and "rb_ok s"
  obtains s' where "intr i s = Inr ((), s')" "rp s' = rp s" "step mv 0 s s'" "wp s' = capacity s' \<longrightarrow> wp s = capacity s"
  using assms unfolding feeder_def feeds_def by blast

lemma load_run: "unat p + unat n \<le> length (address s) \<Longrightarrow> rb_load p n s = Inr (map ((!) (address s)) [unat p..<unat p + unat n], s)"
  by (auto simp: rb_load_def bindM_run intro!: nth_equalityI)

section \<open>A read that is interrupted by writes\<close>

lemma move_rp:
  assumes "feeder mv intr" and "rb_ok s" and "n \<le> length (posns s)" and "moved_to s n x"
    and "\<And>t. rp t = rp s \<Longrightarrow> f t = t\<lparr>rp := x\<rparr>"
  shows "\<exists>s'. thenM (intr i) (thenM (modM f) (thenM (intr j) (retM v))) s = Inr (v, s') \<and> step mv n s s'"
proof -
  from feederE [OF assms(1,2)] obtain s1 where 1: "intr i s = Inr ((), s1)" "rp s1 = rp s" "step mv 0 s s1"
    and top: "wp s1 = capacity s1 \<longrightarrow> wp s = capacity s" .
  have "capacity s1 = capacity s" "n \<le> length (posns s1)" using 1(3) assms(3) step_length [OF 1(3)] by (auto simp: step_def)
  moreover from this have "moved_to s1 n x" using assms(4) 1(2) top by (auto simp: moved_to_def)
  ultimately have 2: "step mv n s1 (s1\<lparr>rp := x\<rparr>)" using step_ok [OF 1(3)] by (intro step_read)
  from feederE [OF assms(1) step_ok [OF 2]] obtain s2 where 3: "intr j (s1\<lparr>rp := x\<rparr>) = Inr ((), s2)" "step mv 0 (s1\<lparr>rp := x\<rparr>) s2" by metis
  have "step mv n s (s1\<lparr>rp := x\<rparr>)" using step_trans [OF 1(3) 2] assms(3) by simp
  then have "step mv n s s2" using step_trans [OF _ 3(2)] assms(3) by simp
  then show ?thesis using 1(1,2) 3(1) assms(5) by simp
qed

lemma unat_sub_le: "b \<le> a \<Longrightarrow> unat (a - b) = unat a - unat b" for a b :: u32
  by (rule unat_sub)

lemma unat_add_small: "unat a + unat b \<le> unat c \<Longrightarrow> unat (a + b) = unat a + unat b" for a b c :: u32
  using unsigned_less [of c, where 'a = nat] by (simp add: unat_word_ariths)

text \<open>Bytes that are loaded after an interrupt.\<close>

lemma step_load: "step mv 0 s t \<Longrightarrow> set ps \<subseteq> set (posns s) \<Longrightarrow> map ((!) (address t)) ps = map ((!) (address s)) ps"
  by (auto simp: step_def)

lemma take_straight:
  assumes "feeder mv intr" and "rb_ok s" and "n = unat x" and "n \<le> length (posns s)" and "unat (rp s) + n \<le> unat (capacity s)"
  shows "\<exists>s'. bindM (rb_load (rp s) x) (\<lambda>xs. thenM (intr 1) (thenM (modM (\<lambda>s. s\<lparr>rp := rp s + x\<rparr>)) (thenM (intr 2) (retM (x, xs))))) s
      = Inr ((x, map ((!) (address s)) [unat (rp s)..<unat (rp s) + n]), s') \<and> step mv n s s'"
proof -
  have "rb_load (rp s) x s = Inr (map ((!) (address s)) [unat (rp s)..<unat (rp s) + n], s)"
    using assms by (simp add: load_run rb_ok_def)
  moreover have "moved_to s n (rp s + x)"
    using unat_add_small [of "rp s" x "capacity s"] assms(3,5) by (simp add: ahead_def moved_to_def)
  ultimately show ?thesis using move_rp [OF assms(1,2,4), of "rp s + x" "\<lambda>s. s\<lparr>rp := rp s + x\<rparr>"] by simp
qed

lemma take_around:
  assumes "feeder mv intr" and "rb_ok s" and "unat (rp s) + k = unat (capacity s)" and "k = unat a" and "n = k + unat m" and "m = 0 \<longrightarrow> wp s \<noteq> capacity s"
    and "n \<le> length (posns s)" and "take n (posns s) = [unat (rp s)..<unat (capacity s)] @ [0..<unat m]" and "unat m \<le> unat (capacity s)"
  shows "\<exists>s'. bindM (rb_load (rp s) a) (\<lambda>xs. thenM (intr 1) (bindM (rb_load 0 m) (\<lambda>ys.
        thenM (intr 2) (thenM (modM (\<lambda>s. s\<lparr>rp := m\<rparr>)) (thenM (intr 3) (retM (v, xs @ ys))))))) s
      = Inr ((v, map ((!) (address s)) (take n (posns s))), s') \<and> step mv n s s'"
proof -
  have l1: "rb_load (rp s) a s = Inr (map ((!) (address s)) [unat (rp s)..<unat (capacity s)], s)"
    using assms(2-4) by (simp add: load_run rb_ok_def)
  from feederE [OF assms(1,2)] obtain t where t: "intr 1 s = Inr ((), t)" "rp t = rp s" "step mv 0 s t"
    and top: "wp t = capacity t \<longrightarrow> wp s = capacity s" .
  have c: "capacity t = capacity s" "n \<le> length (posns t)" using t(3) assms(7) step_length [OF t(3)] by (auto simp: step_def)
  have sub: "set ([unat (rp s)..<unat (capacity s)] @ [0..<unat m]) \<subseteq> set (posns s)" unfolding assms(8) [symmetric] by (rule set_take_subset)
  note m = assms(9)
  have "rb_load 0 m t = Inr (map ((!) (address t)) [0..<unat m], t)" using m step_ok [OF t(3)] c(1) by (simp add: load_run rb_ok_def)
  then have l2: "rb_load 0 m t = Inr (map ((!) (address s)) [0..<unat m], t)" using step_load [OF t(3), of "[0..<unat m]"] sub by auto
  have "moved_to t n m"
  proof (cases "m = 0")
    case True
    then show ?thesis using assms(3,5,6) c t(2) top by (simp add: ahead_def moved_to_def)
  next
    case False
    then have m0: "0 < unat m" by (simp add: unat_gt_0)
    have "unat (rp s) + n - unat (capacity s) = unat m" using assms(3,5) by linarith
    then show ?thesis using m0 assms(3,5) c t(2) by (simp add: ahead_def moved_to_def)
  qed
  from move_rp [OF assms(1) step_ok [OF t(3)] c(2) this, of "\<lambda>s. s\<lparr>rp := m\<rparr>" 2 3 "(v, map ((!) (address s)) (take n (posns s)))"] obtain s' where
    s': "thenM (intr 2) (thenM (modM (\<lambda>s. s\<lparr>rp := m\<rparr>)) (thenM (intr 3) (retM (v, map ((!) (address s)) (take n (posns s)))))) t
      = Inr ((v, map ((!) (address s)) (take n (posns s))), s')" "step mv n t s'" by auto
  have "step mv n s s'" using step_trans [OF t(3) s'(2)] assms(7) by simp
  then show ?thesis using l1 l2 t(1) s'(1) unfolding assms(8) by simp
qed

lemma take_run:
  fixes req :: u32
  assumes "feeder mv intr" and "rb_ok s" and "wp0 \<le> capacity s" and "prefix (cells (unat (capacity s)) (unat wp0) (unat (rp s))) (posns s)"
    and "wp0 = 0 \<and> 0 < unat (rp s) \<longrightarrow> wp s \<noteq> capacity s"
  defines "n \<equiv> min (unat req) (length (cells (unat (capacity s)) (unat wp0) (unat (rp s))))"
  shows "\<exists>N s'. rb_take intr wp0 req s = Inr ((N, map ((!) (address s)) (take n (posns s))), s') \<and> unat N = n \<and> step mv n s s'"
proof -
  let ?C = "unat (capacity s)" and ?W = "unat wp0" and ?R = "unat (rp s)"
  have le: "?W \<le> ?C" "?R \<le> ?C" using assms(2,3) by (simp_all add: rb_ok_def word_le_nat_alt)
  have n: "n \<le> length (posns s)" using prefix_length_le [OF assms(4)] by (simp add: n_def)
  have front: "take n (posns s) = take n (cells ?C ?W ?R)" using assms(4) by (auto simp: prefix_def n_def)
  show ?thesis
  proof (cases "rp s \<le> wp0")
    case True
    define x where "x = (if req > wp0 - rp s then wp0 - rp s else req)"
    have x: "unat x = n" using True by (auto simp: x_def n_def length_cells word_less_nat_alt word_le_nat_alt unat_sub_le)
    have "n \<le> ?W - ?R" using True by (simp add: n_def length_cells word_le_nat_alt)
    then have fit: "?R + n \<le> ?W" using True by (simp add: word_le_nat_alt)
    then have "take n (posns s) = [?R..<?R + n]" unfolding front using True by (simp add: cells_def word_le_nat_alt)
    then show ?thesis using take_straight [OF assms(1,2) x [symmetric] n] fit le True x
      by (auto simp: rb_take_def bindM_run [of "getM _"] Let_def x_def [symmetric])
  next
    case wrapped: False
    then have R: "?W < ?R" by (simp add: word_le_nat_alt)
    then have cs: "cells ?C ?W ?R = [?R..<?C] @ [0..<?W]" by (simp add: cells_def)
    define k where "k = unat (capacity s - rp s)"
    have k: "?R + k = ?C" using le(2) by (simp add: k_def unat_sub_le word_le_nat_alt)
    have nn: "n = min (unat req) (k + ?W)" using k by (simp add: n_def cs)
    show ?thesis
    proof (cases "req > capacity s - rp s")
      case far: True
      define m where "m = (if req - (capacity s - rp s) > wp0 then wp0 else req - (capacity s - rp s))"
      define v where "v = (if req - (capacity s - rp s) > wp0 then capacity s - rp s + wp0 else req)"
      have far': "k < unat req" using far by (simp add: k_def word_less_nat_alt)
      have um: "unat (req - (capacity s - rp s)) = unat req - k" using far by (simp add: k_def unat_sub_le)
      have m: "n = k + unat m" "unat m \<le> ?W" using far' um by (auto simp: m_def nn word_less_nat_alt)
      have m0: "m = 0 \<longrightarrow> wp s \<noteq> capacity s"
      proof
        assume "m = 0"
        then have "wp0 = 0" using um far' by (auto simp: m_def word_less_nat_alt unat_eq_zero [symmetric] split: if_splits)
        then show "wp s \<noteq> capacity s" using assms(5) R by simp
      qed
      have v: "unat v = n" using m um far' k R unat_add_small [of "capacity s - rp s" wp0 "capacity s"]
        by (auto simp: v_def nn word_less_nat_alt k_def [symmetric] m_def split: if_splits)
      have "?C - ?R = k" using k by linarith
      then have "take n (posns s) = [?R..<?C] @ [0..<unat m]" unfolding front cs using m by simp
      note run = take_around [OF assms(1,2) k k_def m(1) m0 n this order_trans [OF m(2) le(1)], of v]
      show ?thesis
      proof (cases "req - (capacity s - rp s) > wp0")
        case True
        then have "m = wp0" "v = capacity s - rp s + wp0" by (simp_all add: m_def v_def)
        then show ?thesis using run v wrapped far True by (auto simp: rb_take_def bindM_run [of "getM _"] Let_def)
      next
        case False
        then have "m = req - (capacity s - rp s)" "v = req" by (simp_all add: m_def v_def)
        then show ?thesis using run v wrapped far False by (auto simp: rb_take_def bindM_run [of "getM _"] Let_def)
      qed
    next
      case near: False
      then have req: "unat req \<le> k" by (simp add: k_def word_less_nat_alt)
      then have "n = unat req" by (simp add: nn)
      moreover from this have "take n (posns s) = [?R..<?R + n]" unfolding front cs using req k by simp
      ultimately show ?thesis using take_straight [OF assms(1,2) _ n, of req] req k wrapped near
        by (auto simp: rb_take_def bindM_run [of "getM _"] Let_def)
    qed
  qed
qed

lemma step_held:
  assumes "step mv k s s'"
  shows "\<exists>new. mv (RB_ST.more s') = mv (RB_ST.more s) @ new \<and> held s' = drop k (held s) @ new"
proof -
  from assms obtain e where "posns s' = drop k (posns s) @ e" "mv (RB_ST.more s') = mv (RB_ST.more s) @ map ((!) (address s')) e"
    "\<forall>i \<in> set (drop k (posns s)). address s' ! i = address s ! i" by (auto simp: step_def)
  then show ?thesis by (auto simp: held_def drop_map)
qed

lemma held_length: "length (held s) = length (posns s)"
  by (simp add: held_def)

lemma read_run:
  fixes sz count :: u32
  assumes "feeder mv intr" and "rb_ok s"
  defines "n \<equiv> min (unat (sz * count)) (length (held s))"
  shows "\<exists>N s'. rb_read intr sz count s = Inr ((N, take n (held s)), s') \<and> unat N = n \<and> step mv n s s'"
proof (cases "sz * count = 0")
  case True
  then show ?thesis using step_refl [OF assms(2)] by (auto simp: rb_read_def n_def)
next
  case False
  from feederE [OF assms(1,2)] obtain t where t: "intr 0 s = Inr ((), t)" "rp t = rp s" "step mv 0 s t"
    and top: "wp t = capacity t \<longrightarrow> wp s = capacity s" .
  have cap: "capacity t = capacity s" using t(3) by (simp add: step_def)
  have pre: "prefix (cells (unat (capacity t)) (unat (wp s)) (unat (rp t))) (posns t)"
    using t(3) cap t(2) by (auto simp: step_def posns_def prefix_def)
  have le: "wp s \<le> capacity t" using assms(2) cap by (simp add: rb_ok_def word_le_nat_alt)
  have z: "wp s = 0 \<and> 0 < unat (rp t) \<longrightarrow> wp t \<noteq> capacity t" using top t(2) cap assms(2) by (auto simp: rb_ok_def)
  have n: "n = min (unat (sz * count)) (length (cells (unat (capacity t)) (unat (wp s)) (unat (rp t))))"
    using cap t(2) by (simp add: n_def held_length posns_def)
  from take_run [OF assms(1) step_ok [OF t(3)] le pre z, of "sz * count"] obtain N s' where
    run: "rb_take intr (wp s) (sz * count) t = Inr ((N, map ((!) (address t)) (take n (posns t))), s')" "unat N = n" "step mv n t s'"
    unfolding n by blast
  have "take n (posns t) = take n (posns s)" using t(3) by (auto simp: step_def n_def held_length)
  then have "map ((!) (address t)) (take n (posns t)) = take n (held s)"
    using step_load [OF t(3), of "take n (posns s)"] set_take_subset [of n "posns s"] by (simp add: held_def take_map)
  moreover have "step mv n s s'" using step_trans [OF t(3) run(3)] by (simp add: n_def held_length)
  ultimately show ?thesis using run(1,2) False t(1) by (simp add: rb_read_def)
qed

section \<open>A write that is interrupted by reads\<close>

text \<open>
  \<open>drains mv s s'\<close>: some bytes were taken off the front, those that \<open>mv\<close> has grown by. \<open>flow mv E new s s'\<close>: the
  cells \<open>E\<close> with the bytes \<open>new\<close> were added at the end and some bytes taken off the front.
\<close>

definition flow :: "('a \<Rightarrow> u8 list) \<Rightarrow> nat list \<Rightarrow> u8 list \<Rightarrow> 'a RB_ST_scheme \<Rightarrow> 'a RB_ST_scheme \<Rightarrow> bool" where
  "flow mv E new s s' \<longleftrightarrow> capacity s' = capacity s \<and> rb_ok s' \<and> length E = length new
     \<and> (\<exists>k \<le> length (posns s @ E). posns s' = drop k (posns s @ E) \<and> held s' = drop k (held s @ new)
       \<and> mv (RB_ST.more s') = mv (RB_ST.more s) @ take k (held s @ new))"

definition drains :: "('a \<Rightarrow> u8 list) \<Rightarrow> 'a RB_ST_scheme \<Rightarrow> 'a RB_ST_scheme \<Rightarrow> bool" where
  "drains mv s s' \<longleftrightarrow> flow mv [] [] s s' \<and> wp s' = wp s \<and> address s' = address s
     \<and> later (unat (capacity s)) (unat (wp s)) (unat (rp s)) (unat (rp s'))"

definition drainer :: "('a \<Rightarrow> u8 list) \<Rightarrow> 'a RB_ST_scheme intr \<Rightarrow> bool" where
  "drainer mv intr \<longleftrightarrow> (\<forall>i s. rb_ok s \<longrightarrow> (\<exists>s'. intr i s = Inr ((), s') \<and> drains mv s s'))"

lemma flow_refl: "rb_ok s \<Longrightarrow> flow mv [] [] s s"
  by (auto simp: flow_def held_def intro!: exI [of _ 0])

lemma drains_refl: "rb_ok s \<Longrightarrow> drains mv s s"
  by (simp add: drains_def flow_refl later_refl rb_ok_def)

lemma drainer_quiet: "drainer mv quiet"
  by (simp add: drainer_def quiet_def drains_refl)

lemma flow_trans:
  assumes "flow mv E new s t" and "flow mv E' new' t t'"
  shows "flow mv (E @ E') (new @ new') s t'"
proof -
  from assms(1) obtain k where k: "k \<le> length (posns s @ E)" "posns t = drop k (posns s @ E)" "held t = drop k (held s @ new)"
    "mv (RB_ST.more t) = mv (RB_ST.more s) @ take k (held s @ new)" "capacity t = capacity s" "length E = length new" by (auto simp: flow_def)
  from assms(2) obtain j where j: "j \<le> length (posns t @ E')" "posns t' = drop j (posns t @ E')" "held t' = drop j (held t @ new')"
    "mv (RB_ST.more t') = mv (RB_ST.more t) @ take j (held t @ new')" "rb_ok t'" "capacity t' = capacity t" "length E' = length new'"
    by (auto simp: flow_def)
  have p: "posns t @ E' = drop k (posns s @ E @ E')" using k(1,2) by simp
  have h: "held t @ new' = drop k (held s @ new @ new')" using k(1,3,6) by (simp add: held_length)
  have b: "take k (held s @ new) = take k (held s @ new @ new')" using k(1,6) by (simp add: held_length)
  have "k + j \<le> length (posns s @ E @ E')" using j(1) k(1) unfolding p by simp
  moreover have "posns t' = drop (k + j) (posns s @ E @ E')" "held t' = drop (k + j) (held s @ new @ new')"
    using j(2,3) unfolding p h by (simp_all only: drop_drop add.commute)
  moreover have "mv (RB_ST.more t') = mv (RB_ST.more s) @ take (k + j) (held s @ new @ new')"
    using j(4) k(4) unfolding h b by (simp only: take_add append_assoc)
  ultimately show ?thesis using j(5-7) k(5,6) unfolding flow_def by auto
qed

lemma flow_drains: "flow mv E new s t \<Longrightarrow> drains mv t t' \<Longrightarrow> flow mv E new s t'"
  using flow_trans [of mv E new s t "[]" "[]" t'] by (simp add: drains_def)

lemma flow_publish:
  assumes "rb_ok t'" and "capacity t' = capacity t" and "RB_ST.more t' = RB_ST.more t" and "posns t' = posns t @ E"
    and "map ((!) (address t')) (posns t) = held t" and "map ((!) (address t')) E = new"
  shows "flow mv E new t t'"
  using assms by (auto simp: flow_def held_def intro!: exI [of _ 0])

lemma flow_posns: "flow mv [] [] s t \<Longrightarrow> set (posns t) \<subseteq> set (posns s)"
  by (auto simp: flow_def dest: in_set_dropD)

lemma drainerE:
  assumes "drainer mv intr" and "rb_ok s"
  obtains s' where "intr i s = Inr ((), s')" "drains mv s s'"
  using assms unfolding drainer_def by blast

lemma flow_ok: "flow mv E new s t \<Longrightarrow> rb_ok t"
  by (simp add: flow_def)

definition patch :: "nat \<Rightarrow> u8 list \<Rightarrow> u8 list \<Rightarrow> u8 list" where
  "patch p xs m = take p m @ xs @ drop (p + length xs) m"

lemma store_run: "unat p + length xs \<le> length (address s) \<Longrightarrow> rb_store p xs s = Inr ((), s\<lparr>address := patch (unat p) xs (address s)\<rparr>)"
  by (simp add: rb_store_def bindM_run patch_def)

lemma patch_facts:
  assumes "p + length xs \<le> length m"
  shows "length (patch p xs m) = length m" "map ((!) (patch p xs m)) [p..<p + length xs] = xs"
    "\<forall>i \<in> set ps. i < p \<or> p + length xs \<le> i \<Longrightarrow> \<forall>i \<in> set ps. i < length m \<Longrightarrow> map ((!) (patch p xs m)) ps = map ((!) m) ps"
  using assms by (auto simp: patch_def nth_append intro!: nth_equalityI)

lemma posns_less: "rb_ok s \<Longrightarrow> i \<in> set (posns s) \<Longrightarrow> i < length (address s)"
  by (auto simp: rb_ok_def posns_def cells_def split: if_splits)

text \<open>The last step of a write: a write point at the end goes to the start.\<close>

lemma end_run:
  assumes "drainer mv intr" and "flow mv E new s t" and "wp t = capacity t \<longrightarrow> 0 < unat (rp t)"
  shows "\<exists>s'. rb_end intr len t = Inr (len, s') \<and> flow mv E new s s' \<and> wp s' \<noteq> capacity s'"
proof (cases "wp t = capacity t")
  case False
  then have "\<not> wp t \<ge> capacity t" using flow_ok [OF assms(2)] by (auto simp: rb_ok_def word_le_nat_alt [symmetric])
  then show ?thesis using assms(2) False by (auto simp: rb_end_def bindM_run)
next
  case True
  from drainerE [OF assms(1) flow_ok [OF assms(2)]] obtain t1 where t1: "intr 4 t = Inr ((), t1)" "drains mv t t1" .
  have f: "flow mv E new s t1" by (rule flow_drains [OF assms(2) t1(2)])
  have r: "0 < unat (rp t1)" "unat (rp t1) \<le> unat (capacity t1)" "wp t1 = capacity t1"
    using True t1(2) assms(3) flow_ok [OF f] flow_ok [OF assms(2)] by (auto simp: drains_def later_def flow_def rb_ok_def)
  let ?s = "t1\<lparr>wp := 0\<rparr>"
  have "posns ?s = posns t1" using cells_reset [OF r(1,2)] r(3) by (simp add: posns_def)
  then have "flow mv [] [] t1 ?s" using flow_ok [OF f] by (intro flow_publish) (auto simp: rb_ok_def held_def)
  then have "flow mv E new s ?s" using flow_trans [OF f, of "[]" "[]" ?s] by simp
  moreover have "capacity ?s \<noteq> 0" using r(1,2) by auto
  moreover have "rp t \<noteq> 0" using True assms(3) by auto
  ultimately show ?thesis using t1(1) True by (auto simp: rb_end_def bindM_run)
qed

text \<open>A write in one piece, to the cells after the write point.\<close>

lemma straight_run:
  assumes "drainer mv intr" and "rb_ok s" and "later (unat (capacity s)) W R (unat (rp s))" and "W = unat (wp s)"
    and "unat len = length xs" and "W + length xs \<le> unat (capacity s)" and "R \<le> W \<or> W + length xs < R"
    and "W + length xs = unat (capacity s) \<longrightarrow> 0 < R \<and> R \<le> W"
  shows "\<exists>s' E. thenM (rb_store (wp s) xs) (thenM (intr 1) (thenM (modM (\<lambda>s. s\<lparr>wp := wp s + len\<rparr>)) (thenM (intr 2) (rb_end intr len)))) s
      = Inr (len, s') \<and> flow mv E xs s s' \<and> wp s' \<noteq> capacity s'"
proof -
  let ?C = "unat (capacity s)" and ?E = "[W..<W + length xs]"
  define sA where "sA = s\<lparr>address := patch W xs (address s)\<rparr>"
  have len: "W + length xs \<le> length (address s)" using assms(2,6) by (simp add: rb_ok_def)
  have sA: "rb_store (wp s) xs s = Inr ((), sA)" using len assms(4) by (simp add: store_run sA_def)
  have free: "\<forall>i \<in> set (posns s). i < W \<or> W + length xs \<le> i"
  proof
    fix i assume i: "i \<in> set (posns s)"
    have "W \<le> ?C" using assms(2,4) by (simp add: rb_ok_def)
    with cells_free [OF assms(3), of i] i assms(4,7) show "i < W \<or> W + length xs \<le> i" by (force simp: posns_def)
  qed
  then have keep: "map ((!) (address sA)) (posns s) = held s" "map ((!) (address sA)) ?E = xs"
    using patch_facts [OF len] posns_less [OF assms(2)] by (simp_all add: sA_def held_def)
  have posA: "posns sA = posns s" "rb_ok sA" using assms(2) len patch_facts(1) [OF len] by (simp_all add: sA_def posns_def rb_ok_def)
  then have fA: "flow mv [] [] s sA" using keep(1) by (intro flow_publish) (simp_all add: sA_def)
  from drainerE [OF assms(1) posA(2)] obtain sB where sB: "intr 1 sA = Inr ((), sB)" "drains mv sA sB" .
  have fB: "flow mv [] [] s sB" by (rule flow_drains [OF fA sB(2)])
  have B: "wp sB = wp s" "capacity sB = capacity s" "address sB = address sA" "later ?C W R (unat (rp sB))"
    using sB(2) assms(2,3,4) later_trans by (auto simp: drains_def flow_def sA_def rb_ok_def)
  define sC where "sC = sB\<lparr>wp := wp sB + len\<rparr>"
  have w: "unat (wp sC) = W + length xs" using unat_add_small [of "wp s" len "capacity s"] assms(4-6) B(1) by (simp add: sC_def)
  have posC: "posns sC = posns sB @ ?E" using cells_grow [OF B(4) assms(6,7)] w B(1,2) assms(4) by (simp add: posns_def sC_def)
  have okC: "rb_ok sC" using flow_ok [OF fB] w assms(6) B(2) by (simp add: rb_ok_def sC_def)
  have "flow mv ?E xs sB sC" using posC okC keep(2) B(3) by (intro flow_publish) (simp_all add: sC_def held_def)
  then have fC: "flow mv ?E xs s sC" using flow_trans [OF fB] by simp
  from drainerE [OF assms(1) okC] obtain sD where sD: "intr 2 sC = Inr ((), sD)" "drains mv sC sD" .
  have fD: "flow mv ?E xs s sD" by (rule flow_drains [OF fC sD(2)])
  have "wp sD = capacity sD \<longrightarrow> 0 < unat (rp sD)"
    using sD(2) w assms(8) B(2,4) by (auto simp: drains_def flow_def later_def sC_def split: if_splits)
  from end_run [OF assms(1) fD this, of len] show ?thesis using sA sB(1) sD(1) by (auto simp: sC_def)
qed

text \<open>A write around the end, if the interrupt leaves the ring alone between the move of the write point and the second copy.\<close>

lemma around_run:
  assumes "drainer mv intr" and "rb_ok s" and "later (unat (capacity s)) W R (unat (rp s))" and "W = unat (wp s)" and "R \<le> W"
    and "length xs = unat (capacity s - wp s)" and "unat m = length ys" and "length ys < R" and "\<And>t. intr 2 t = Inr ((), t)"
    and "ys = take (unat m) zs"
  shows "\<exists>s' E. thenM (rb_store (wp s) xs) (thenM (intr 1) (thenM (modM (\<lambda>s. s\<lparr>wp := m\<rparr>)) (thenM (intr 2)
      (thenM (bindM (getM wp) (\<lambda>w'. rb_store 0 (take (unat w') zs))) (thenM (intr 3) (rb_end intr len)))))) s
      = Inr (len, s') \<and> flow mv E (xs @ ys) s s' \<and> wp s' \<noteq> capacity s'"
proof -
  let ?C = "unat (capacity s)" and ?E = "[W..<unat (capacity s)] @ [0..<length ys]"
  have WC: "W \<le> ?C" "?C = length (address s)" using assms(2,4) by (simp_all add: rb_ok_def)
  have xs: "W + length xs = ?C" using WC assms(4,6) by (simp add: unat_sub_le word_le_nat_alt)
  define sA where "sA = s\<lparr>address := patch W xs (address s)\<rparr>"
  have len: "W + length xs \<le> length (address s)" using xs WC by simp
  have sA: "rb_store (wp s) xs s = Inr ((), sA)" using len assms(4) by (simp add: store_run sA_def)
  have free: "R \<le> i \<and> i < W" if "i \<in> set (posns s)" for i using cells_free(1) [OF assms(3) WC(1) assms(5)] that assms(4) by (simp add: posns_def)
  have k0: "map ((!) (address sA)) (posns s) = held s"
    using patch_facts(3) [OF len, of "posns s"] posns_less [OF assms(2)] free by (simp add: sA_def held_def)
  then have keep: "map ((!) (address sA)) (posns s) = held s" "map ((!) (address sA)) [W..<?C] = xs" "length (address sA) = ?C"
    using patch_facts(1,2) [OF len] xs WC by (simp_all add: sA_def)
  have posA: "posns sA = posns s" "rb_ok sA" using assms(2) len patch_facts(1) [OF len] by (simp_all add: sA_def posns_def rb_ok_def)
  then have fA: "flow mv [] [] s sA" using keep(1) by (intro flow_publish) (simp_all add: sA_def)
  from drainerE [OF assms(1) posA(2)] obtain sB where sB: "intr 1 sA = Inr ((), sB)" "drains mv sA sB" .
  have fB: "flow mv [] [] s sB" by (rule flow_drains [OF fA sB(2)])
  have B: "wp sB = wp s" "capacity sB = capacity s" "address sB = address sA" "later ?C W R (unat (rp sB))"
    using sB(2) assms(2,3,4) later_trans by (auto simp: drains_def flow_def sA_def rb_ok_def)
  define sC where "sC = sB\<lparr>wp := m, address := patch 0 ys (address sB)\<rparr>"
  have l2: "0 + length ys \<le> length (address sB)" using assms(5,8) WC(1) keep(3) B(3) by simp
  have st: "rb_store 0 (take (unat m) zs) (sB\<lparr>wp := m\<rparr>) = Inr ((), sC)" using l2 unfolding assms(10) [symmetric] by (simp add: store_run sC_def)
  have posC: "posns sC = posns sB @ ?E" using cells_wrap [OF B(4) assms(5) WC(1) assms(8)] B(1,2) assms(4,7) by (simp add: posns_def sC_def)
  have okC: "rb_ok sC" using flow_ok [OF fB] assms(5,7,8) WC B patch_facts(1) [OF l2] by (simp add: rb_ok_def sC_def)
  have "length ys \<le> i \<and> i < length (address sB)" if "i \<in> set (posns sB @ [W..<?C])" for i
    using that free [of i] flow_posns [OF fB] assms(5,8) WC keep(3) B(3) by fastforce
  then have "map ((!) (address sC)) (posns sB @ [W..<?C]) = map ((!) (address sB)) (posns sB @ [W..<?C])"
    using patch_facts(3) [OF l2, of "posns sB @ [W..<?C]"] by (simp add: sC_def)
  then have "flow mv ?E (xs @ ys) sB sC" using posC okC keep(2) B(3) patch_facts(2) [OF l2] by (intro flow_publish) (simp_all add: sC_def held_def)
  then have fC: "flow mv ?E (xs @ ys) s sC" using flow_trans [OF fB] by simp
  from drainerE [OF assms(1) okC] obtain sD where sD: "intr 3 sC = Inr ((), sD)" "drains mv sC sD" .
  have "wp sD = m" "capacity sD = capacity s" using sD(2) B(2) by (simp_all add: drains_def flow_def sC_def)
  moreover from this have "wp sD \<noteq> capacity sD" using assms(5,7,8) WC(1) by auto
  ultimately show ?thesis using end_run [OF assms(1) flow_drains [OF fC sD(2)], of len] sA sB(1) sD(1) st assms(9) by auto
qed

lemma put_run:
  fixes len rp0 :: u32
  assumes "drainer mv intr" and "rb_ok s" and "later (unat (capacity s)) (unat (wp s)) (unat rp0) (unat (rp s))" and "rp0 \<le> capacity s"
    and "unat len \<le> length bs" and "unat len + 4 < 2 ^ 32" and "0 < unat len"
    and "unat rp0 \<le> unat (wp s) \<and> unat (capacity s) < unat (wp s) + unat len \<longrightarrow> (\<forall>t. intr 2 t = Inr ((), t))"
  defines "room \<equiv> (if unat rp0 \<le> unat (wp s) then unat (capacity s) - unat (wp s) + unat rp0 else unat rp0 - unat (wp s))"
  shows "unat len + 4 \<le> room \<Longrightarrow> \<exists>s' E. rb_put intr rp0 bs len s = Inr (len, s') \<and> flow mv E (take (unat len) bs) s s' \<and> wp s' \<noteq> capacity s'"
    and "room < unat len + 4 \<Longrightarrow> rb_put intr rp0 bs len s = Inr (0, s)"
proof -
  let ?C = "unat (capacity s)" and ?W = "unat (wp s)" and ?R = "unat rp0" and ?n = "unat len"
  have le: "?W \<le> ?C" "?R \<le> ?C" using assms(2,4) by (simp_all add: rb_ok_def word_le_nat_alt)
  have four: "unat (len + 4) = ?n + 4" using assms(6) by (simp add: unat_word_ariths)
  have cw: "unat (capacity s - wp s) = ?C - ?W" using le by (simp add: unat_sub_le word_le_nat_alt)
  have up: "unat (capacity s - wp s + rp0) = ?C - ?W + ?R" if "?R \<le> ?W"
    using that le cw unat_add_small [of "capacity s - wp s" rp0 "capacity s"] by simp
  have fits: "(if wp s \<ge> rp0 then capacity s - wp s + rp0 \<ge> len + 4 else rp0 - wp s \<ge> len + 4) \<longleftrightarrow> ?n + 4 \<le> room"
    using four up by (auto simp: room_def word_le_nat_alt unat_sub_le)
  show "rb_put intr rp0 bs len s = Inr (0, s)" if "room < ?n + 4"
    using that fits by (auto simp: rb_put_def bindM_run [of "getM _"] Let_def split: if_splits)
  show "\<exists>s' E. rb_put intr rp0 bs len s = Inr (len, s') \<and> flow mv E (take ?n bs) s s' \<and> wp s' \<noteq> capacity s'" if room: "?n + 4 \<le> room"
  proof (cases "?R \<le> ?W \<and> ?C < ?W + ?n")
    case True
    let ?k = "unat (capacity s - wp s)"
    have "\<not> ?n \<le> ?C - ?W" using True le by linarith
    then have big: "\<not> capacity s - wp s \<ge> len" by (simp add: word_le_nat_alt cw)
    then have m: "unat (len - (capacity s - wp s)) = ?n - ?k" by (intro unat_sub_le) simp
    define ys where "ys = take (?n - ?k) (drop ?k bs)"
    have xs: "length (take ?k bs) = ?k" "length ys = ?n - ?k" using assms(5) cw True by (auto simp: ys_def)
    have "?n + 4 \<le> ?C - ?W + ?R" using room True by (simp add: room_def)
    then have "length ys < ?R" unfolding xs(2) cw using True le by linarith
    moreover have "?k + (?n - ?k) = ?n" unfolding cw using True by linarith
    then have "take ?k bs @ ys = take ?n bs" unfolding ys_def by (metis take_add)
    moreover have "ys = take (unat (len - (capacity s - wp s))) (drop ?k bs)" by (simp add: ys_def m)
    ultimately have run: "\<exists>s' E. thenM (rb_store (wp s) (take ?k bs)) (thenM (intr 1) (thenM (modM (\<lambda>t. t\<lparr>wp := len - (capacity s - wp s)\<rparr>)) (thenM (intr 2)
      (thenM (bindM (getM wp) (\<lambda>w'. rb_store 0 (take (unat w') (drop ?k bs)))) (thenM (intr 3) (rb_end intr len)))))) s
      = Inr (len, s') \<and> flow mv E (take ?n bs) s s' \<and> wp s' \<noteq> capacity s'"
      using around_run [OF assms(1-3) refl, of "take ?k bs" "len - (capacity s - wp s)" ys "drop ?k bs" len] True xs m assms(8) by simp
    have "wp s \<ge> rp0" "capacity s - wp s + rp0 \<ge> len + 4" using True fits room by (simp_all add: word_le_nat_alt)
    then show ?thesis using run big assms(5) by (simp add: rb_put_def bindM_run [of "getM _"] Let_def)
  next
    case False
    have "?W + ?n \<le> ?C" using False room le by (auto simp: room_def split: if_splits)
    moreover have "?R \<le> ?W \<or> ?W + ?n < ?R" using room by (auto simp: room_def split: if_splits)
    moreover have "?W + ?n = ?C \<longrightarrow> 0 < ?R \<and> ?R \<le> ?W" using room le by (auto simp: room_def split: if_splits)
    moreover have "length (take ?n bs) = ?n" using assms(5) by simp
    ultimately have run: "\<exists>s' E. thenM (rb_store (wp s) (take ?n bs)) (thenM (intr 1) (thenM (modM (\<lambda>s. s\<lparr>wp := wp s + len\<rparr>)) (thenM (intr 2) (rb_end intr len)))) s
      = Inr (len, s') \<and> flow mv E (take ?n bs) s s' \<and> wp s' \<noteq> capacity s'"
      using straight_run [OF assms(1-3) refl, of len "take ?n bs"] by simp
    have "?R \<le> ?W \<longrightarrow> capacity s - wp s \<ge> len" using False cw by (auto simp: word_le_nat_alt)
    then show ?thesis using run fits room assms(5)
      by (auto simp: rb_put_def bindM_run [of "getM _"] Let_def word_le_nat_alt [symmetric] split: if_splits)
  qed
qed

end
