(* ===== verification/Ring_Props.thy ===== *)
theory Ring_Props
  imports Ring_Cells Kfifo
begin

text \<open>
  The rings hold a queue of bytes. A read in a task that is interrupted by writes, and a write that is interrupted
  by reads, neither lose nor change a byte, with one exception: a write around the end
  publishes its write point before it has copied the second part. Without interrupts a ring is a \<open>byte_stream\<close>, and so is
  one that a DMA channel plays.
\<close>

section \<open>Between a task and an interrupt\<close>

text \<open>A read without interruption changes the read point only.\<close>

lemma take_quiet:
  assumes "rb_take quiet wp0 req s = Inr (y, s')" and "rb_ok s" and "wp0 = wp s"
  shows "s' = s\<lparr>rp := rp s'\<rparr> \<and> later (unat (capacity s)) (unat (wp s)) (unat (rp s)) (unat (rp s'))"
proof -
  let ?C = "unat (capacity s)" and ?W = "unat (wp s)" and ?R = "unat (rp s)"
  have le: "?W \<le> ?C" "?R \<le> ?C" using assms(2) by (simp_all add: rb_ok_def)
  have cr: "unat (capacity s - rp s) = ?C - ?R" using le by (simp add: unat_sub_le word_le_nat_alt)
  show ?thesis
  proof (cases "rp s \<le> wp s")
    case True
    define x where "x = (if req > wp s - rp s then wp s - rp s else req)"
    have "s' = s\<lparr>rp := rp s + x\<rparr>" using assms(1,3) True
      by (auto simp: rb_take_def quiet_def bindM_run rb_load_def Let_def x_def split: if_splits)
    moreover have "unat x \<le> ?W - ?R" using True by (auto simp: x_def word_less_nat_alt word_le_nat_alt unat_sub_le)
    then have "?R + unat x \<le> ?W" using True by (simp add: word_le_nat_alt)
    ultimately show ?thesis using True unat_add_small [of "rp s" x "wp s"] by (simp add: later_def word_le_nat_alt)
  next
    case wrapped: False
    show ?thesis
    proof (cases "req > capacity s - rp s")
      case True
      then have "s' = s\<lparr>rp := if req - (capacity s - rp s) > wp s then wp s else req - (capacity s - rp s)\<rparr>" using assms(1,3) wrapped
        by (auto simp: rb_take_def quiet_def bindM_run rb_load_def Let_def split: if_splits)
      then show ?thesis using wrapped by (auto simp: later_def word_le_nat_alt word_less_nat_alt)
    next
      case False
      then have "s' = s\<lparr>rp := rp s + req\<rparr>" "?R + unat req \<le> ?C" using assms(1,3) wrapped cr le
        by (auto simp: rb_take_def quiet_def bindM_run rb_load_def Let_def word_less_nat_alt split: if_splits)
      then show ?thesis using wrapped unat_add_small [of "rp s" req "capacity s"] by (simp add: later_def word_le_nat_alt)
    qed
  qed
qed

text \<open>
  The state of a ring with an interrupt: the bytes that the interrupt has read or written so far are the extension of
  the record.
\<close>

type_synonym rb_isr = "u8 list RB_ST_scheme"

definition isr_read :: "u32 \<times> u32 \<Rightarrow> (rb_isr, unit) prog" where
  "isr_read x = bindM (rb_read quiet (fst x) (snd x)) (\<lambda>(r, bs). modM (RB_ST.more_update (\<lambda>b. b @ bs)))"

definition isr_write :: "u8 list \<times> u32 \<times> u32 \<Rightarrow> (rb_isr, unit) prog" where
  "isr_write x = (case x of (bs, sz, count) \<Rightarrow> bindM (rb_write quiet bs sz count) (\<lambda>r. modM (RB_ST.more_update (\<lambda>b. b @ take (unat r) bs))))"

lemma more_upd: "held (RB_ST.more_update f s) = held s" "posns (RB_ST.more_update f s) = posns s" "rb_ok (RB_ST.more_update f s) = rb_ok s"
  by (simp_all add: held_def posns_def rb_ok_def)

lemma isr_read_run:
  fixes x :: "u32 \<times> u32"
  assumes "rb_ok s"
  defines "n \<equiv> min (unat (fst x * snd x)) (length (held s))"
  shows "\<exists>s'. isr_read x s = Inr ((), s') \<and> wp s' = wp s \<and> address s' = address s \<and> capacity s' = capacity s \<and> rb_ok s'
    \<and> RB_ST.more s' = RB_ST.more s @ take n (held s) \<and> posns s' = drop n (posns s)
    \<and> later (unat (capacity s)) (unat (wp s)) (unat (rp s)) (unat (rp s'))"
proof -
  from read_run [OF feeder_quiet [of "\<lambda>_. []"] assms(1), of "fst x" "snd x"] obtain N t where
    r: "rb_read quiet (fst x) (snd x) s = Inr ((N, take n (held s)), t)" "step (\<lambda>_. []) n s t" unfolding n_def by blast
  have t: "t = s\<lparr>rp := rp t\<rparr> \<and> later (unat (capacity s)) (unat (wp s)) (unat (rp s)) (unat (rp t))"
  proof (cases "fst x * snd x = 0")
    case True
    then show ?thesis using r(1) assms(1) by (auto simp: rb_read_def bindM_run rb_ok_def intro: later_refl)
  next
    case False
    then have "rb_take quiet (wp s) (fst x * snd x) s = Inr ((N, take n (held s)), t)" using r(1) by (simp add: rb_read_def quiet_def)
    then show ?thesis using take_quiet assms(1) by blast
  qed
  then obtain y where y: "t = s\<lparr>rp := y\<rparr>" by blast
  then have "wp t = wp s" "address t = address s" "capacity t = capacity s" "RB_ST.more t = RB_ST.more s" by simp_all
  moreover have "posns t = drop n (posns s)" "rb_ok t" using r(2) by (auto simp: step_def)
  ultimately show ?thesis using r(1) t by (auto simp: isr_read_def more_upd)
qed

lemma isr_read_drains:
  assumes "rb_ok s"
  shows "\<exists>s'. isr_read x s = Inr ((), s') \<and> drains (\<lambda>b. b) s s'"
proof -
  let ?n = "min (unat (fst x * snd x)) (length (held s))"
  from isr_read_run [OF assms, of x] obtain s' where s': "isr_read x s = Inr ((), s')" "wp s' = wp s" "address s' = address s" "capacity s' = capacity s"
    "rb_ok s'" "RB_ST.more s' = RB_ST.more s @ take ?n (held s)" "posns s' = drop ?n (posns s)"
    "later (unat (capacity s)) (unat (wp s)) (unat (rp s)) (unat (rp s'))" by blast
  then have "held s' = drop ?n (held s)" by (simp add: held_def drop_map)
  then have "flow (\<lambda>b. b) [] [] s s'" using s' by (auto simp: flow_def held_length intro!: exI [of _ ?n])
  then show ?thesis using s' by (auto simp: drains_def)
qed

lemma put_quiet: "rb_put quiet rp0 bs len s = Inr (r, s') \<Longrightarrow> rp s' = rp s \<and> RB_ST.more s' = RB_ST.more s"
  by (auto simp: rb_put_def rb_end_def quiet_def bindM_run thenM_run rb_store_def Let_def split: if_splits)

lemma free_room:
  assumes "rb_ok s"
  shows "unat (rb_get_free_size s) = (if unat (rp s) \<le> unat (wp s) then unat (capacity s) - unat (wp s) + unat (rp s) else unat (rp s) - unat (wp s)) - 4"
proof -
  let ?f = "if wp s \<ge> rp s then capacity s - wp s + rp s else rp s - wp s"
  have le: "unat (wp s) \<le> unat (capacity s)" "unat (rp s) \<le> unat (capacity s)" using assms by (simp_all add: rb_ok_def)
  have "unat (capacity s - wp s) = unat (capacity s) - unat (wp s)" using le by (simp add: unat_sub_le word_le_nat_alt)
  then have f: "unat ?f = (if unat (rp s) \<le> unat (wp s) then unat (capacity s) - unat (wp s) + unat (rp s) else unat (rp s) - unat (wp s))"
    using le unat_add_small [of "capacity s - wp s" "rp s" "capacity s"] by (simp add: word_le_nat_alt unat_sub_le)
  have "unat (rb_get_free_size s) = unat ?f - 4"
    by (auto simp: rb_get_free_size_def Let_def word_less_nat_alt word_le_nat_alt unat_sub_le)
  then show ?thesis unfolding f .
qed

text \<open>The whole write, with interrupts that read.\<close>

lemma write_run:
  fixes sz count :: u32
  assumes "drainer mv intr" and "rb_ok s" and "unat (sz * count) \<le> length bs" and "unat (sz * count) + 4 < 2 ^ 32"
    and "unat (rp s) \<le> unat (wp s) \<and> unat (capacity s) < unat (wp s) + unat (sz * count) \<longrightarrow> (\<forall>t. intr 2 t = Inr ((), t))"
  defines "r \<equiv> (if unat (sz * count) \<le> unat (rb_get_free_size s) then sz * count else 0)"
  shows "\<exists>s' E. rb_write intr bs sz count s = Inr (r, s') \<and> flow mv E (take (unat r) bs) s s' \<and> (wp s' = capacity s' \<longrightarrow> wp s = capacity s)"
proof (cases "sz * count = 0")
  case True
  then show ?thesis using flow_refl [OF assms(2)] by (auto simp: rb_write_def r_def intro!: exI [of _ "[]"])
next
  case False
  from drainerE [OF assms(1,2)] obtain t where t: "intr 0 s = Inr ((), t)" "drains mv s t" .
  have tt: "wp t = wp s" "capacity t = capacity s" "rb_ok t" using t(2) by (simp_all add: drains_def flow_def)
  have lat: "later (unat (capacity t)) (unat (wp t)) (unat (rp s)) (unat (rp t))" using t(2) tt by (simp add: drains_def)
  have rp: "rp s \<le> capacity t" using assms(2) tt by (simp add: rb_ok_def word_le_nat_alt)
  have pos: "0 < unat (sz * count)" using False by (simp add: unat_gt_0)
  have q: "unat (rp s) \<le> unat (wp t) \<and> unat (capacity t) < unat (wp t) + unat (sz * count) \<longrightarrow> (\<forall>t. intr 2 t = Inr ((), t))"
    using assms(5) tt by simp
  note put = put_run [OF assms(1) tt(3) lat rp assms(3,4) pos q]
  have w: "rb_write intr bs sz count s = rb_put intr (rp s) bs (sz * count) t" using False t(1) by (simp add: rb_write_def)
  have whole: "flow mv E new s s'" if "flow mv E new t s'" for E new s' using flow_trans [of mv "[]" "[]" s t E new s'] t(2) that by (simp add: drains_def)
  define room where "room = (if unat (rp s) \<le> unat (wp t) then unat (capacity t) - unat (wp t) + unat (rp s) else unat (rp s) - unat (wp t))"
  have fits: "unat (sz * count) \<le> unat (rb_get_free_size s) \<longleftrightarrow> unat (sz * count) + 4 \<le> room"
    using pos by (auto simp: free_room [OF assms(2)] room_def tt)
  show ?thesis
  proof (cases "unat (sz * count) + 4 \<le> room")
    case True
    then obtain s' E where "rb_put intr (rp s) bs (sz * count) t = Inr (sz * count, s')"
      "flow mv E (take (unat (sz * count)) bs) t s'" "wp s' \<noteq> capacity s'" using put(1) unfolding room_def by blast
    then show ?thesis using True fits w whole by (auto simp: r_def)
  next
    case False
    then have "rb_write intr bs sz count s = Inr (0, t)" using put(2) w unfolding room_def by simp
    then show ?thesis using False fits t(2) tt by (auto simp: r_def drains_def intro!: exI [of _ "[]"])
  qed
qed

text \<open>Writes of fewer than \<open>2\<^sup>3\<^sup>2 - 4\<close> bytes that the caller has.\<close>

definition writable :: "u8 list \<times> u32 \<times> u32 \<Rightarrow> bool" where
  "writable x \<longleftrightarrow> (case x of (bs, sz, count) \<Rightarrow> unat (sz * count) \<le> length bs \<and> unat (sz * count) + 4 < 2 ^ 32)"

lemma write_quiet_eq: "rb_write quiet bs sz count s = (if sz * count = 0 then Inr (0, s) else rb_put quiet (rp s) bs (sz * count) s)"
  by (simp add: rb_write_def quiet_def)

lemma write_quiet:
  fixes sz count :: u32
  assumes "rb_ok s" and "writable (bs, sz, count)"
  defines "r \<equiv> (if unat (sz * count) \<le> unat (rb_get_free_size s) then sz * count else 0)"
  shows "\<exists>s' E. rb_write quiet bs sz count s = Inr (r, s') \<and> rp s' = rp s \<and> RB_ST.more s' = RB_ST.more s \<and> rb_ok s' \<and> capacity s' = capacity s
    \<and> posns s' = posns s @ E \<and> held s' = held s @ take (unat r) bs \<and> (wp s' = capacity s' \<longrightarrow> wp s = capacity s)"
proof -
  from write_run [OF drainer_quiet [of "\<lambda>_. []"] assms(1), of sz count bs] assms(2) obtain s' E where
    s': "rb_write quiet bs sz count s = Inr (r, s')" "flow (\<lambda>_. []) E (take (unat r) bs) s s'" "wp s' = capacity s' \<longrightarrow> wp s = capacity s"
    by (auto simp: writable_def quiet_def r_def)
  from s'(2) obtain k where k: "take k (held s @ take (unat r) bs) = []" "posns s' = drop k (posns s @ E)"
    "held s' = drop k (held s @ take (unat r) bs)" "rb_ok s'" "capacity s' = capacity s" "length E = length (take (unat r) bs)"
    by (auto simp: flow_def)
  have "k = 0 \<or> held s @ take (unat r) bs = []" using k(1) by (metis take_eq_Nil)
  then have "k = 0 \<or> posns s @ E = [] \<and> held s @ take (unat r) bs = []" using k(6) by (metis append_is_Nil_conv held_length length_0_conv)
  then have "posns s' = posns s @ E" "held s' = held s @ take (unat r) bs" using k(2,3) by (metis drop0 drop_Nil)+
  note k(4,5) this
  moreover have "rp s' = rp s \<and> RB_ST.more s' = RB_ST.more s"
    using s'(1) put_quiet [of "rp s" bs "sz * count" s r s'] by (auto simp: write_quiet_eq split: if_splits)
  ultimately show ?thesis using s'(1,3) by blast
qed

lemma isr_write_feeds:
  assumes "rb_ok s" and "writable x"
  shows "\<exists>s'. isr_write x s = Inr ((), s') \<and> feeds (\<lambda>b. b) s s'"
proof -
  obtain bs sz count where x: "x = (bs, sz, count)" by (cases x)
  from write_quiet [OF assms(1) assms(2) [unfolded x]] obtain r t E where
    t: "rb_write quiet bs sz count s = Inr (r, t)" "rp t = rp s" "RB_ST.more t = RB_ST.more s" "rb_ok t" "capacity t = capacity s"
      "posns t = posns s @ E" "held t = held s @ take (unat r) bs" "wp t = capacity t \<longrightarrow> wp s = capacity s" by blast
  let ?s = "RB_ST.more_update (\<lambda>b. b @ take (unat r) bs) t"
  have h: "map ((!) (address t)) (posns s) = held s" "map ((!) (address t)) E = take (unat r) bs"
    using t(6,7) by (simp_all add: held_def append_eq_append_conv)
  then have "\<forall>i \<in> set (posns s). address t ! i = address s ! i" by (simp add: held_def)
  then have "step (\<lambda>b. b) 0 s ?s" using t h by (simp add: step_def more_upd)
  then show ?thesis using t by (auto simp: x isr_write_def feeds_def)
qed

lemma isr_writes_feed: "rb_ok s \<Longrightarrow> \<forall>x \<in> set xs. writable x \<Longrightarrow> \<exists>s'. forM xs isr_write s = Inr ((), s') \<and> feeds (\<lambda>b. b) s s'"
proof (induction xs arbitrary: s)
  case (Cons x xs)
  from isr_write_feeds [OF Cons.prems(1), of x] Cons.prems(2) obtain s1 where "isr_write x s = Inr ((), s1)" "feeds (\<lambda>b. b) s s1" by auto
  moreover from this have "rb_ok s1" by (simp add: feeds_def step_def)
  ultimately show ?case using Cons.IH [of s1] Cons.prems(2) feeds_trans by fastforce
qed (simp add: feeds_refl)

lemma drains_trans: "rb_ok s \<Longrightarrow> drains mv s s1 \<Longrightarrow> drains mv s1 s2 \<Longrightarrow> drains mv s s2"
  using flow_drains [of mv "[]" "[]" s s1 s2] later_trans by (auto simp: drains_def flow_def rb_ok_def)

lemma isr_reads_drain: "rb_ok s \<Longrightarrow> \<exists>s'. forM xs isr_read s = Inr ((), s') \<and> drains (\<lambda>b. b) s s'"
proof (induction xs arbitrary: s)
  case (Cons x xs)
  from isr_read_drains [OF Cons.prems] obtain s1 where "isr_read x s = Inr ((), s1)" "drains (\<lambda>b. b) s s1" by blast
  moreover from this have "rb_ok s1" by (simp add: drains_def flow_def)
  ultimately show ?case using Cons.IH [of s1] drains_trans [OF Cons.prems] by fastforce
qed (simp add: drains_refl)

lemma flow_stream: "flow mv E new s s' \<Longrightarrow> mv (RB_ST.more s') @ held s' = mv (RB_ST.more s) @ held s @ new"
  unfolding flow_def by (metis append.assoc append_take_drop_id)

lemma fill_held:
  assumes "rb_ok s"
  shows "unat (rb_get_fill_size s) = length (held s)"
proof -
  have le: "unat (wp s) \<le> unat (capacity s)" "unat (rp s) \<le> unat (capacity s)" using assms by (simp_all add: rb_ok_def)
  have "unat (capacity s - rp s) = unat (capacity s) - unat (rp s)" using le by (simp add: unat_sub_le word_le_nat_alt)
  then show ?thesis using le unat_add_small [of "capacity s - rp s" "wp s" "capacity s"]
    by (auto simp: rb_get_fill_size_def held_length posns_def length_cells word_le_nat_alt unat_sub_le)
qed

text \<open>
  C15: a task that writes into the ring is not disturbed by an interrupt that reads from it. Whatever the interrupt reads at
  whatever points of the write (but nothing at the point between the move of the write point and the second
  copy, if the write goes around the end), the write is accepted exactly when it fits into the free size,
  and the bytes read by then, followed by the bytes still held, are those before, followed by
  the bytes accepted: none lost, changed or out of order.
\<close>

theorem rb_write_interrupted:
  fixes sz count :: u32
  assumes "rb_ok s" and "writable (bs, sz, count)"
    and "rp s \<le> wp s \<and> unat (capacity s) < unat (wp s) + unat (sz * count) \<longrightarrow> reads 2 = []"
  shows "\<exists>r s'. rb_write (\<lambda>i. forM (reads i) isr_read) bs sz count s = Inr (r, s') \<and> rb_ok s'
    \<and> r = (if unat (sz * count) \<le> unat (rb_get_free_size s) then sz * count else 0)
    \<and> RB_ST.more s' @ held s' = RB_ST.more s @ held s @ take (unat r) bs"
proof -
  have "drainer (\<lambda>b. b) (\<lambda>i. forM (reads i) isr_read)" unfolding drainer_def using isr_reads_drain by blast
  moreover have "unat (rp s) \<le> unat (wp s) \<and> unat (capacity s) < unat (wp s) + unat (sz * count)
      \<longrightarrow> (\<forall>t. forM (reads 2) isr_read t = Inr ((), t))" using assms(3) by (auto simp: word_le_nat_alt)
  moreover have "unat (sz * count) \<le> length bs" "unat (sz * count) + 4 < 2 ^ 32" using assms(2) by (simp_all add: writable_def)
  ultimately obtain s' E where "rb_write (\<lambda>i. forM (reads i) isr_read) bs sz count s
      = Inr (if unat (sz * count) \<le> unat (rb_get_free_size s) then sz * count else 0, s')"
    and fl: "flow (\<lambda>b. b) E (take (unat (if unat (sz * count) \<le> unat (rb_get_free_size s) then sz * count else 0)) bs) s s'"
    using write_run [OF _ assms(1)] by blast
  then show ?thesis using flow_stream [OF fl] flow_ok [OF fl] by blast
qed

text \<open>
  C16: a task that reads from the ring is not disturbed by an interrupt that writes into it, at whatever points and also around the
  end: the read returns the oldest bytes of what was held when it began, as many as it asks for or
  there are, and the ring then holds the others, followed by all that the interrupt got in.
\<close>

theorem rb_read_interrupted:
  fixes sz count :: u32
  assumes "rb_ok s" and "\<forall>i. \<forall>x \<in> set (writes i). writable x"
  shows "\<exists>r s' new. rb_read (\<lambda>i. forM (writes i) isr_write) sz count s = Inr ((r, take (unat r) (held s)), s') \<and> rb_ok s'
    \<and> unat r = min (unat (sz * count)) (unat (rb_get_fill_size s))
    \<and> RB_ST.more s' = RB_ST.more s @ new \<and> held s' = drop (unat r) (held s) @ new"
proof -
  have "feeder (\<lambda>b. b) (\<lambda>i. forM (writes i) isr_write)" unfolding feeder_def using isr_writes_feed assms(2) by blast
  from read_run [OF this assms(1), of sz count] obtain r s' where
    r: "rb_read (\<lambda>i. forM (writes i) isr_write) sz count s = Inr ((r, take (unat r) (held s)), s')"
      "unat r = min (unat (sz * count)) (length (held s))" "step (\<lambda>b. b) (unat r) s s'" by metis
  from step_held [OF r(3)] show ?thesis using r step_ok [OF r(3)] fill_held [OF assms(1)] by auto
qed

text \<open>The ring in the middle of a write that goes around the end.\<close>

lemma half_written:
  fixes len :: u32
  assumes "rb_ok s" and "rp s \<le> wp s" and "unat (capacity s) < unat (wp s) + unat len" and "unat len \<le> length bs"
    and "unat len \<le> unat (rb_get_free_size s)"
  defines "k \<equiv> unat (capacity s) - unat (wp s)"
  defines "sM \<equiv> s\<lparr>address := patch (unat (wp s)) (take k bs) (address s), wp := len - (capacity s - wp s)\<rparr>"
  shows "rb_ok sM" "held sM = held s @ take k bs @ take (unat len - k) (address s)" "unat (wp sM) = unat len - k"
    "unat (capacity s - wp s) = k" "k < unat len" "unat len + 4 \<le> k + unat (rp s)" "unat (wp s) + length (take k bs) = length (address s)"
proof -
  let ?C = "unat (capacity s)" and ?W = "unat (wp s)" and ?R = "unat (rp s)"
  have le: "?W \<le> ?C" "?R \<le> ?C" "?C = length (address s)" "?R \<le> ?W" using assms(1,2) by (simp_all add: rb_ok_def word_le_nat_alt)
  show k: "unat (capacity s - wp s) = k" "k < unat len" using le assms(3) by (simp_all add: k_def unat_sub_le word_le_nat_alt)
  show len: "?W + length (take k bs) = length (address s)" using k(2) le assms(4) by (simp add: k_def)
  show m: "unat (wp sM) = unat len - k" using k by (simp add: sM_def unat_sub_le word_le_nat_alt)
  show room: "unat len + 4 \<le> k + ?R" using assms(5) k(2) le by (simp add: free_room [OF assms(1)] k_def)
  show "rb_ok sM" using m room le k patch_facts(1) [of ?W "take k bs" "address s"] len by (simp add: rb_ok_def sM_def)
  have "later ?C ?W ?R ?R" using le by (simp add: later_def)
  then have posM: "posns sM = posns s @ [?W..<?C] @ [0..<unat len - k]"
    using cells_wrap [of ?C ?W ?R ?R "unat len - k"] le room k(2) m by (simp add: posns_def sM_def)
  have keep: "map ((!) (address sM)) ps = map ((!) (address s)) ps" if "\<forall>i \<in> set ps. i < ?W" for ps
    using patch_facts(3) [of ?W "take k bs" "address s" ps] that len le by (fastforce simp: sM_def)
  have "posns s = [?R..<?W]" using le by (simp add: posns_def cells_def)
  then have "map ((!) (address sM)) (posns s) = held s" using keep [of "posns s"] by (simp add: held_def)
  moreover have "map ((!) (address sM)) [?W..<?C] = take k bs" using patch_facts(2) [of ?W "take k bs" "address s"] len le by (simp add: sM_def)
  moreover have "map ((!) (address sM)) [0..<unat len - k] = take (unat len - k) (address s)"
  proof -
    have "\<forall>i \<in> set [0..<unat len - k]. i < ?W" using room k(2) le by auto
    from keep [OF this] show ?thesis using room k(2) le by (auto intro!: nth_equalityI)
  qed
  ultimately show "held sM = held s @ take k bs @ take (unat len - k) (address s)" by (simp add: held_def [of sM] posM)
qed

text \<open>
  C17: the exception. A write that goes around the end moves the write point before it copies the second part: an interrupt that
  reads there gets, after the bytes held and the first part, old contents of the buffer in place of
  the second part, and the second part is never played.
\<close>

theorem rb_write_race:
  fixes sz count :: u32
  assumes "rb_ok s" and "writable (bs, sz, count)" and "rp s \<le> wp s" and "unat (capacity s) < unat (wp s) + unat (sz * count)"
    and "unat (sz * count) \<le> unat (rb_get_free_size s)" and "length (held s) + unat (sz * count) \<le> unat n"
  shows "\<exists>s'. rb_write (\<lambda>i. forM (if i = 2 then [(1, n)] else []) isr_read) bs sz count s = Inr (sz * count, s')
    \<and> RB_ST.more s' = RB_ST.more s @ held s @ take (unat (capacity s) - unat (wp s)) bs
        @ take (unat (sz * count) - (unat (capacity s) - unat (wp s))) (address s) \<and> held s' = []"
proof -
  let ?C = "unat (capacity s)" and ?W = "unat (wp s)" and ?R = "unat (rp s)" and ?len = "sz * count"
  define k where "k = ?C - ?W"
  define sM where "sM = s\<lparr>address := patch ?W (take k bs) (address s), wp := ?len - (capacity s - wp s)\<rparr>"
  have bs: "unat ?len \<le> length bs" using assms(2) by (simp add: writable_def)
  note half = half_written [OF assms(1,3,4) bs assms(5), folded k_def, folded sM_def]
  have le: "?W \<le> ?C" "?R \<le> ?C" "?C = length (address s)" "?R \<le> ?W" using assms(1,3) by (simp_all add: rb_ok_def word_le_nat_alt)
  have all: "min (unat (fst (1, n) * snd (1, n))) (length (held sM)) = length (held sM)" using assms(6) bs half(2,5) by simp
  from isr_read_run [OF half(1), of "(1, n)", unfolded all] obtain s2 where s2: "isr_read (1, n) sM = Inr ((), s2)" "wp s2 = wp sM"
    "address s2 = address sM" "capacity s2 = capacity s" "RB_ST.more s2 = RB_ST.more s @ held sM" "posns s2 = []" "rb_ok s2"
    by (auto simp: held_length sM_def)
  define s3 where "s3 = s2\<lparr>address := patch 0 (take (unat (wp s2)) (drop k bs)) (address s2)\<rparr>"
  have "rb_store 0 (take (unat (wp s2)) (drop k bs)) s2 = Inr ((), s3)"
    using s2(2,3) half(3,5-7) le patch_facts(1) [of ?W "take k bs" "address s"] by (simp add: store_run s3_def sM_def)
  moreover have "wp s2 < capacity s2" using s2(2,4) half(3,5,6) le by (simp add: word_less_nat_alt)
  then have "\<not> capacity s2 \<le> wp s2" by simp
  then have "rb_end (\<lambda>i. forM (if i = 2 then [(1, n)] else []) isr_read) ?len s3 = Inr (?len, s3)" by (simp add: rb_end_def bindM_run s3_def)
  moreover have "rb_store (wp s) (take k bs) s = Inr ((), s\<lparr>address := patch ?W (take k bs) (address s)\<rparr>)" using half(7) by (simp add: store_run)
  moreover have "wp s \<ge> rp s" "capacity s - wp s + rp s \<ge> ?len + 4" "\<not> capacity s - wp s \<ge> ?len" "\<not> length bs < unat ?len" "?len \<noteq> 0"
  proof -
    have "unat (?len + 4) = unat ?len + 4" using assms(2) by (simp add: writable_def unat_word_ariths)
    moreover have "unat (capacity s - wp s + rp s) = k + ?R" using half(4) le unat_add_small [of "capacity s - wp s" "rp s" "capacity s"] by (simp add: k_def)
    ultimately show "capacity s - wp s + rp s \<ge> ?len + 4" using half(6) by (simp add: word_le_nat_alt)
    show "\<not> capacity s - wp s \<ge> ?len" using half(4,5) by (simp add: word_le_nat_alt)
    show "?len \<noteq> 0" using half(5) by auto
  qed (use assms(2,3) in \<open>simp_all add: writable_def\<close>)
  ultimately have "rb_write (\<lambda>i. forM (if i = 2 then [(1, n)] else []) isr_read) bs sz count s = Inr (?len, s3)"
    using s2(1) by (simp add: rb_write_def rb_put_def bindM_run [of "getM _"] Let_def half(4) sM_def)
  moreover have "held s3 = []" "RB_ST.more s3 = RB_ST.more s @ held sM" using s2(5,6) by (simp_all add: s3_def held_def posns_def)
  ultimately show ?thesis unfolding half(2) k_def by simp
qed

text \<open>A ring of sixteen bytes with two bytes near its end.\<close>

definition demo_ring :: rb_isr where
  "demo_ring = \<lparr>address = [1, 2, 3, 4, 5, 6, 7, 8, 9, 10, 11, 12, 13, 14, 15, 16], capacity = 16, wp = 12, rp = 10, \<dots> = []\<rparr>"

lemma demo_ring: "rb_ok demo_ring" "held demo_ring = [11, 12]" "RB_ST.more demo_ring = []" "rb_get_free_size demo_ring = 10"
    "rb_get_fill_size demo_ring = 2" "writable ([21, 22, 23, 24, 25, 26], 1, 6)"
  by (simp_all add: demo_ring_def rb_ok_def held_def posns_def cells_def rb_get_free_size_def rb_get_fill_size_def writable_def upt_rec)

theorem rb_write_interrupted_witness:
  "\<exists>s'. rb_write (\<lambda>i. forM (if i = 1 then [(1, 1)] else []) isr_read) [21, 22, 23, 24, 25, 26] 1 6 demo_ring = Inr (6, s')
    \<and> RB_ST.more s' @ held s' = [11, 12, 21, 22, 23, 24, 25, 26]"
  using rb_write_interrupted [OF demo_ring(1,6), of "\<lambda>i. if i = 1 then [(1, 1)] else []"] by (auto simp: demo_ring)

theorem rb_read_interrupted_witness:
  "\<exists>s' new. rb_read (\<lambda>i. forM (if i = 1 then [([21, 22, 23, 24, 25, 26], 1, 6)] else []) isr_write) 1 4 demo_ring = Inr ((2, [11, 12]), s')
    \<and> RB_ST.more s' = new \<and> held s' = new"
proof -
  have w: "\<forall>i. \<forall>x \<in> set (if i = (1 :: nat) then [([21, 22, 23, 24, 25, 26], 1, 6)] else []). writable x" using demo_ring(6) by simp
  have two: "unat r = 2 \<Longrightarrow> r = 2" for r :: u32 by (simp add: word_unat_eq_iff)
  from rb_read_interrupted [OF demo_ring(1) w, of 1 4] show ?thesis by (auto simp: demo_ring dest!: two)
qed

theorem rb_write_race_witness:
  "\<exists>s'. rb_write (\<lambda>i. forM (if i = 2 then [(1, 20)] else []) isr_read) [21, 22, 23, 24, 25, 26] 1 6 demo_ring = Inr (6, s')
    \<and> RB_ST.more s' = [11, 12, 21, 22, 23, 24, 1, 2] \<and> held s' = []"
  using rb_write_race [OF demo_ring(1,6), of 20] by (auto simp: demo_ring) (auto simp: demo_ring_def)

section \<open>One thread\<close>

interpretation rbq: byte_stream "\<lambda>bs len. rb_write quiet bs 1 len" "\<lambda>len. rb_read quiet 1 len" held "2 ^ 32 - 4" rb_ok
proof
  show "\<exists>q' r. rb_write quiet bs 1 len q = Inr (r, q') \<and> rb_ok q' \<and> held q' = held q @ take (unat r) bs"
    if "rb_ok q" "unat len \<le> length bs" "unat len < 2 ^ 32 - 4" for q :: "'a RB_ST_scheme" and len :: u32 and bs
    using write_quiet [OF that(1), of bs 1 len] that(2,3) by (auto simp: writable_def)
  show "\<exists>q' r. rb_read quiet 1 len q = Inr ((r, take (unat r) (held q)), q') \<and> rb_ok q' \<and> held q' = drop (unat r) (held q)"
    if "rb_ok q" for q :: "'a RB_ST_scheme" and len :: u32
    using read_run [OF feeder_quiet [of "\<lambda>_. []"] that, of 1 len] step_held [of "\<lambda>_. []"] step_ok by fastforce
qed simp

text \<open>
  without interrupts the ring is first in, first out for ever: after any sequence of writes (each taken whole or not at all) and
  reads from a ring made by \<open>rb_init\<close> over a buffer of any size, the bytes accepted are the bytes handed out
  followed by the bytes still held.
\<close>

theorem rb_fifo:
  assumes "unat cap = length buf" and "\<forall>bs. Inl bs \<in> set ops \<longrightarrow> length bs < 2 ^ 32 - 4"
  shows "\<exists>q accepted out q'. rb_init buf cap s = Inr ((), q)
    \<and> queue_calls (\<lambda>bs len. rb_write quiet bs 1 len) (\<lambda>len. rb_read quiet 1 len) ops q = Inr ((accepted, out), q') \<and> accepted = out @ held q'"
proof -
  let ?q = "s\<lparr>address := buf, capacity := cap, wp := 0, rp := 0\<rparr>"
  have "rb_ok ?q" "held ?q = []" using assms(1) by (simp_all add: rb_ok_def held_def posns_def cells_def)
  then show ?thesis using rbq.calls_fifo [of ?q ops] assms(2) by (fastforce simp: rb_init_def)
qed

theorem rb_fifo_witness:
  "\<exists>q accepted out q'. rb_init (replicate 8 0) 8 demo_ring = Inr ((), q)
    \<and> queue_calls (\<lambda>bs len. rb_write quiet bs 1 len) (\<lambda>len. rb_read quiet 1 len) [Inl [1, 2, 3], Inr 2, Inl [4, 5, 6], Inl [7, 8, 9], Inr 4] q = Inr ((accepted, out), q')
    \<and> accepted = out @ held q'"
  by (rule rb_fifo) auto

section \<open>With a DMA channel that plays\<close>

text \<open>
  The channel's part, as the driver relies on it: it reads byte after byte from its read address, goes on at the start of the ring
  when it reaches the end, and stops at the pause address.
\<close>

definition dma_pos :: "'a RB_DMA_ST_scheme \<Rightarrow> nat" where
  "dma_pos s = unat (src_read_addr s (dma_ch s) - base s)"

definition dma_stop :: "'a RB_DMA_ST_scheme \<Rightarrow> nat" where
  "dma_stop s = unat (src_pause_addr s (dma_ch s) - base s)"

definition dma_play :: "nat \<Rightarrow> ('a RB_DMA_ST_scheme, u8 list) prog" where
  "dma_play k s = (let todo = cells (unat (capacity s)) (dma_stop s) (dma_pos s); n = min k (length todo) in
     Inr (map ((!) (address s)) (take n todo),
       s\<lparr>src_read_addr := (src_read_addr s)(dma_ch s := base s + of_nat ((dma_pos s + n) mod unat (capacity s)))\<rparr>))"

text \<open>The channel stops where the next byte will be written.\<close>

definition dma_ok :: "'a RB_DMA_ST_scheme \<Rightarrow> bool" where
  "dma_ok s \<longleftrightarrow> unat (capacity s) = length (address s) \<and> unat (wp s) < unat (capacity s) \<and> dma_stop s = unat (wp s) \<and> dma_pos s < unat (capacity s)"

definition dma_todo :: "'a RB_DMA_ST_scheme \<Rightarrow> u8 list" where
  "dma_todo s = map ((!) (address s)) (cells (unat (capacity s)) (unat (wp s)) (dma_pos s))"

lemma play_run:
  assumes "dma_ok s"
  shows "\<exists>s'. dma_play k s = Inr (take k (dma_todo s), s') \<and> dma_ok s' \<and> dma_todo s' = drop k (dma_todo s)"
proof -
  let ?C = "unat (capacity s)" and ?W = "unat (wp s)" and ?P = "dma_pos s"
  define n where "n = min k (length (cells ?C ?W ?P))"
  define p where "p = (?P + n) mod ?C"
  define t where "t = s\<lparr>src_read_addr := (src_read_addr s)(dma_ch s := base s + of_nat p)\<rparr>"
  have ok: "?W < ?C" "?P < ?C" "dma_stop s = ?W" "?C = length (address s)" using assms by (simp_all add: dma_ok_def)
  have "0 < ?C" using ok(1) by linarith
  then have p: "p < ?C" unfolding p_def by (rule mod_less_divisor)
  then have "p < 2 ^ 32" using unsigned_less [of "capacity s", where 'a = nat] by simp
  then have pos: "dma_pos t = p" by (simp add: dma_pos_def t_def unat_of_nat)
  have a: "n \<le> length (cells ?C ?W ?P)" "?P \<le> ?C" "?W \<le> ?C" using ok by (simp_all add: n_def)
  have "p = ahead ?C ?P n \<or> p = 0 \<and> ahead ?C ?P n = ?C"
  proof (cases "?P + n < ?C")
    case False
    have "n \<le> ?C" using a(1) ok(1,2) by (simp add: length_cells split: if_splits)
    then have "?P + n - ?C < ?C" using ok(2) by linarith
    then have "p = ?P + n - ?C" unfolding p_def using False by (simp add: le_mod_geq)
    then show ?thesis using False by (simp add: ahead_def)
  qed (simp add: p_def ahead_def)
  then have "cells ?C ?W p = drop n (cells ?C ?W ?P)" using ahead_cells [OF a] cells_top [OF ok(1)] by auto
  then have "dma_todo t = drop n (dma_todo s)" using pos by (simp add: dma_todo_def t_def drop_map)
  then have "dma_todo t = drop k (dma_todo s)" by (simp add: n_def dma_todo_def min_def)
  moreover have "dma_ok t" using ok p pos by (simp add: dma_ok_def t_def dma_stop_def)
  moreover have "dma_play k s = Inr (take k (dma_todo s), t)"
    by (simp add: dma_play_def Let_def ok(3) n_def [symmetric] p_def [symmetric] t_def dma_todo_def take_map [symmetric])
       (simp add: n_def min_def)
  ultimately show ?thesis by blast
qed

lemma put_refused: "rb_put quiet rp0 bs len s = Inr (0, s') \<Longrightarrow> len \<noteq> 0 \<Longrightarrow> s' = s"
  by (auto simp: rb_put_def rb_end_def quiet_def bindM_run thenM_run rb_store_def Let_def split: if_splits)

lemma same_dma:
  assumes "RB_ST.more t = RB_ST.more (s :: 'a RB_DMA_ST_scheme)"
  shows "base t = base s" "dma_ch t = dma_ch s" "src_read_addr t = src_read_addr s" "src_pause_addr t = src_pause_addr s"
  using assms by (cases s; cases t; simp)+

lemma dma_write_run:
  fixes sz count :: u32
  assumes "dma_ok s" and "writable (bs, sz, count)"
  shows "\<exists>r s'. rb_write_dma_read bs sz count s = Inr (r, s') \<and> dma_ok s' \<and> dma_todo s' = dma_todo s @ take (unat r) bs"
proof (cases "sz * count = 0")
  case True
  then show ?thesis using assms(1) by (simp add: rb_write_dma_read_def)
next
  case False
  define s1 where "s1 = s\<lparr>rp := src_read_addr s (dma_ch s) - base s\<rparr>"
  have ok: "unat (capacity s) = length (address s)" "unat (wp s) < unat (capacity s)" "dma_stop s = unat (wp s)" "dma_pos s < unat (capacity s)"
    using assms(1) by (simp_all add: dma_ok_def)
  have fetch: "fetch_rp s = Inr (rp s1, s1)" by (simp add: fetch_rp_def s1_def)
  have s1: "rb_ok s1" "unat (rp s1) = dma_pos s" "held s1 = dma_todo s" "wp s1 \<noteq> capacity s1"
    using ok by (auto simp: rb_ok_def s1_def dma_pos_def held_def posns_def dma_todo_def)
  from write_quiet [OF s1(1) assms(2)] obtain r s2 where s2: "rb_put quiet (rp s1) bs (sz * count) s1 = Inr (r, s2)" "rp s2 = rp s1"
    "RB_ST.more s2 = RB_ST.more s1" "rb_ok s2" "capacity s2 = capacity s1" "held s2 = held s1 @ take (unat r) bs" "wp s2 = capacity s2 \<longrightarrow> wp s1 = capacity s1"
    using False by (auto simp: write_quiet_eq)
  note hw = same_dma [OF s2(3)]
  have pos: "dma_pos s2 = dma_pos s" using hw by (simp add: dma_pos_def s1_def)
  have w: "unat (wp s2) < unat (capacity s2)" using s2(4,5,7) s1(4) by (auto simp: rb_ok_def le_less word_unat_eq_iff)
  have todo: "dma_todo s2 = dma_todo s @ take (unat r) bs"
    using s2(2,6) s1(2,3) pos by (simp add: dma_todo_def held_def posns_def)
  show ?thesis
  proof (cases "r = 0")
    case True
    then have "s2 = s1" using put_refused s2(1) False by blast
    then have "dma_ok s2" using ok by (simp add: dma_ok_def s1_def dma_stop_def dma_pos_def)
    then show ?thesis using True fetch s2(1) False todo by (auto simp: rb_write_dma_read_def)
  next
    case r: False
    let ?s = "set_src_pause (base s2 + wp s2) s2"
    have "dma_ok ?s" using w pos ok s2(4,5) by (simp add: dma_ok_def set_src_pause_def dma_stop_def dma_pos_def rb_ok_def s1_def)
    moreover have "dma_todo ?s = dma_todo s2" by (simp add: dma_todo_def set_src_pause_def dma_pos_def)
    ultimately show ?thesis using r fetch s2(1) False todo by (auto simp: rb_write_dma_read_def)
  qed
qed

definition channel_get :: "u32 \<Rightarrow> ('a RB_DMA_ST_scheme, u32 \<times> u8 list) prog" where
  "channel_get len = bindM (dma_play (unat len)) (\<lambda>xs. retM (of_nat (length xs), xs))"

interpretation dma: byte_stream "\<lambda>bs len. rb_write_dma_read bs 1 len" channel_get dma_todo "2 ^ 32 - 4" dma_ok
proof
  show "\<exists>q' r. rb_write_dma_read bs 1 len q = Inr (r, q') \<and> dma_ok q' \<and> dma_todo q' = dma_todo q @ take (unat r) bs"
    if "dma_ok q" "unat len \<le> length bs" "unat len < 2 ^ 32 - 4" for q :: "'a RB_DMA_ST_scheme" and len :: u32 and bs
    using dma_write_run [OF that(1), of bs 1 len] that(2,3) by (auto simp: writable_def)
  show "\<exists>q' r. channel_get len q = Inr ((r, take (unat r) (dma_todo q)), q') \<and> dma_ok q' \<and> dma_todo q' = drop (unat r) (dma_todo q)"
    if "dma_ok q" for q :: "'a RB_DMA_ST_scheme" and len :: u32
  proof -
    define r :: u32 where "r = of_nat (length (take (unat len) (dma_todo q)))"
    have "length (take (unat len) (dma_todo q)) < 2 ^ 32" using unsigned_less [of len, where 'a = nat] by simp
    then have "unat r = min (unat len) (length (dma_todo q))" by (simp add: r_def unat_of_nat)
    then have "take (unat r) (dma_todo q) = take (unat len) (dma_todo q)" "drop (unat r) (dma_todo q) = drop (unat len) (dma_todo q)"
      by (simp_all add: min_def)
    moreover from play_run [OF that, of "unat len"] obtain q' where
      "dma_play (unat len) q = Inr (take (unat len) (dma_todo q), q')" "dma_ok q'" "dma_todo q' = drop (unat len) (dma_todo q)" by blast
    moreover from this have "channel_get len q = Inr ((r, take (unat len) (dma_todo q)), q')" unfolding channel_get_def r_def by simp
    ultimately show ?thesis by metis
  qed
qed simp

text \<open>
  C18: a DMA channel plays what is written, all of it and in order. After \<open>rb_init_dma_read\<close> with a channel that stands at the start of the
  buffer, whatever is written and however far the channel gets in between (it stops at the
  pause address and goes round the end), the bytes accepted are the bytes played followed by those that the channel
  has still to play.
\<close>

theorem dma_plays_all:
  assumes "unat cap = length buf" and "0 < length buf" and "src_read_addr s ch = ptr" and "\<forall>bs. Inl bs \<in> set ops \<longrightarrow> length bs < 2 ^ 32 - 4"
  shows "\<exists>q accepted played q'. rb_init_dma_read ptr buf cap ch s = Inr ((), q)
    \<and> queue_calls (\<lambda>bs len. rb_write_dma_read bs 1 len) channel_get ops q = Inr ((accepted, played), q') \<and> accepted = played @ dma_todo q'"
proof -
  from assms(1-3) have "\<exists>q. rb_init_dma_read ptr buf cap ch s = Inr ((), q) \<and> dma_ok q \<and> dma_todo q = []"
    by (simp add: rb_init_dma_read_def set_src_pause_def dma_enable_def dma_ok_def dma_stop_def dma_pos_def dma_todo_def cells_def)
  then show ?thesis using dma.calls_fifo [of _ ops] assms(4) by fastforce
qed

definition demo_dma :: RB_DMA_ST where
  "demo_dma = \<lparr>address = [], capacity = 0, wp = 0, rp = 0, base = 0, dma_ch = 0, src_read_addr = (\<lambda>_. 0x400000), src_pause_addr = (\<lambda>_. 0),
     dst_write_addr = (\<lambda>_. 0), dst_pause_addr = (\<lambda>_. 0), dma_enables = []\<rparr>"

theorem dma_plays_all_witness:
  "\<exists>q accepted played q'. rb_init_dma_read 0x400000 (replicate 8 0) 8 3 demo_dma = Inr ((), q)
    \<and> queue_calls (\<lambda>bs len. rb_write_dma_read bs 1 len) channel_get [Inl [1, 2, 3], Inr 2, Inl [4, 5, 6], Inr 9, Inl [7, 8, 9]] q = Inr ((accepted, played), q')
    \<and> accepted = played @ dma_todo q'"
  by (rule dma_plays_all) (auto simp: demo_dma_def)

end
