(* ===== verification/Spec2Isabelle.thy ===== *)
theory Spec2Isabelle
  imports Net_Param Http_Ota Http_Client Tftp_Props Role_Launch_Props Multi_Button Intc_Props Aware_Core Kfifo Core_Rx Core_Tx Clock_Props Ring_Props
begin

text \<open>
  Verification of the own code of the Beken BK7231U SDK (directory \<^verbatim>\<open>src/\<close>): the firmware
  library that surrounds a closed Wi-Fi MAC library with drivers, a device model, storage,
  connection management and utilities. Third-party projects that the repository carries
  (FreeRTOS, lwIP, wpa_supplicant, TLS libraries, USB stacks, FatFs and others) are left out.

  \<^bold>\<open>Programs.\<close> \<open>Prelude\<close> fixes how C is written here: a function that can stop the system is a
  program over its state that returns a value or ends in a \<open>fault\<close> (a failed
  \<^verbatim>\<open>ASSERT\<close>, a busy wait or loop that never ends, an array or pointer error); integers keep their
  width as words; a loop that may run for ever is a \<open>partial_function\<close> whose missing result
  is the fault \<open>Busy_Hang\<close>. Two loops count down a number instead: the test loops of
  \<open>Bk_Flash\<close> (the distance of their two bounds) and \<open>wr_loop\<close> of \<open>Http_Ota\<close>, which starts at the
  length of the page plus two and whose every round consumes a byte at least (\<open>wr_loop_bytes\<close>: enough
  for every page). \<open>Prelude\<close> also has byte memories, the little-endian layout and a simulation
  relation between programs.

  \<^bold>\<open>Storage stack.\<close> Four components, each calling the one before:
  \<^item> \<open>Flash\<close> models \<^verbatim>\<open>driver/flash/flash.c\<close>, every function, over the controller's registers
    as a parameter. \<open>Flash_Chip\<close> states what the driver relies on as the locale
    \<open>nor_controller\<close> (a simulation of a SPI-NOR chip: status register, page program, sector erase,
    read) and interprets it on an ideal and on a slow controller. \<open>Flash_Props\<close> shows, for every
    such controller, that writes, erases and reads have exactly their effect on the
    chip, that protection types survive the round trip through the status register, and where the
    bound check of a write lets bytes past the end of the flash.
  \<^item> \<open>Drv_Model\<close> models \<^verbatim>\<open>driver/common/drv_model.c\<close> and the walks of \<^verbatim>\<open>dd.c\<close>: the two device tables,
    handles, reference counts. A step relation over all entry points gives the
    well-formedness invariant; opens and closes are balanced; the device search of
    \<^verbatim>\<open>sddev_unregister_dev\<close> is shown to miss part of the table.
  \<^item> \<open>Flash_Dev\<close> joins the two: the flash operations as a device, \<^verbatim>\<open>flash_init\<close>. The locale
    \<open>nor_device\<close> is what its clients rely on; \<open>nor_controller\<close> provides it by \<open>sublocale\<close>.
  \<^item> \<open>Bk_Flash\<close> models \<^verbatim>\<open>components/user_driver/BkDriverFlash.c\<close> (partitions), \<open>Net_Param\<close> models
    \<^verbatim>\<open>components/net_param_intf/net_param.c\<close> (the type-length-value store). Their lemmas are proved in
    \<open>nor_device\<close>; the abstract specification is a list of typed items (\<open>tlv_save\<close>, \<open>tlv_get\<close>) that
    \<^verbatim>\<open>save_info_item\<close> and \<^verbatim>\<open>get_info_item\<close> refine through the bytes on the flash.

  \<^bold>\<open>Firmware download.\<close> Two clients of the storage stack write an image to the flash in blocks of
  1024 bytes and erase each sector as they reach it; \<open>Flash_Stream\<close> has what such a stream does to the
  contents.
  \<^item> \<open>Http_Ota\<close> models the download part of \<^verbatim>\<open>app/http/utils_httpc.c\<close> (\<^verbatim>\<open>http_flash_init\<close> to
    \<^verbatim>\<open>http_flash_deinit\<close>): however the bytes are cut into pages, the partition ends with the image and
    nothing outside it changes. \<open>Http_Client\<close> models the request side: splitting of a URL, the send
    buffer, credentials and their Base64 encoder, which agrees with the one of \<open>Base64\<close>.
  \<^item> \<open>Tftp\<close> models \<^verbatim>\<open>app/tftp/tftpclient.c\<close>, every function: packets, handler, timer and block store.
    \<open>Tftp_Props\<close> shows that a transfer with repeated blocks and expired timers leaves the image, and the
    boot header exactly when the checksum agrees. The record \<open>tftp_env\<close> holds what the
    client calls outside these sources (the checksum, sockets, allocation, kernel calls).

  \<^bold>\<open>Connection management.\<close> \<open>Role_Launch\<close> models \<^verbatim>\<open>components/joint_up/role_launch.c\<close> and the one-shot
  timers of \<^verbatim>\<open>os/FreeRTOSv9.0.0/rtos_pub.c\<close>: the queue of station and access-point requests with
  its entities in an explicit heap. \<open>Role_Launch_Props\<close> has its state machine
  (\<open>rl_exec\<close>, \<open>rl_reach\<close>), the invariant that the queue owns exactly the allocated entities, the
  absence of faults, and the behaviour of replacement, refusal, pausing and channel switching.
  The WLAN layer (\<^verbatim>\<open>components/wlan_ui/wlan_ui.c\<close>) is a parameter that answers a call with the
  role-launch functions it calls back; a handler is one step, since the code masks
  interrupts around its updates.

  \<^bold>\<open>Wi-Fi data path.\<close> The host side of the MAC library; its calls are entries of a log, its answers and the allocators
  are fields of \<open>msdu_env\<close>, its descriptors and tables have the fields that are used.
  \<^item> \<open>Rw_Msdu\<close> models \<^verbatim>\<open>components/rwnx_intf/rw_msdu.c\<close>: nodes in allocated memory, three lists of them, the
    descriptor of a frame, confirmations, frames kept for sleeping stations, look-ups in the interface and
    station tables, with the queue and timer functions of \<^verbatim>\<open>rtos_pub.c\<close> that it calls. \<open>Msdu_Props\<close> has the
    invariant (\<open>wifi_ok\<close>: every allocated node is in exactly one list or descriptor) over any sequence of calls
    (\<open>msdu_run\<close>), the order of the frames for a station and their announcement in the beacon. Each call is one step; the one walk that the
    code does with interrupts enabled (\<^verbatim>\<open>rwm_txling_list_node_count\<close>) is part of it. These
    hold with \<^verbatim>\<open>CFG_USE_AP_PS\<close> on, the option that keeps frames for sleeping stations (the shipped
    configurations have it off), and an environment with \<open>env_good\<close>.
  \<^item> \<open>Pbuf\<close> models what is used of lwIP's packet buffers, with its assertions off as the port has them.
    \<open>Core_Thread\<close> models the message queue of \<^verbatim>\<open>app/app.c\<close>: senders, handlers and the rounds of the thread; what the
    library does in \<^verbatim>\<open>ke_evt_core_scheduler\<close> comes back as calls of its own. A station that wakes up gets
    its frames, unless the queue was full. A raw frame with a callback stays in the sender's block until its message is handled.
  \<^item> \<open>Core_Frame\<close> has the locale \<open>msdu_observer\<close>: a view of the state that the writes of \<open>Rw_Msdu\<close> leave alone is left alone by
    all its functions. It is interpreted on the packet buffers and on the receive messages. \<open>Core_Tx\<close> composes
    the layers: a packet of lwIP arrives complete at \<^verbatim>\<open>rwm_transfer\<close> and no buffer is lost. \<open>Core_Rx\<close>: the receive
    messages refine a counter machine (\<open>rx_step\<close>), which bounds them and shows how the count goes wrong.

  \<^bold>\<open>Time keeping.\<close> \<open>Fake_Clock\<close> models \<^verbatim>\<open>components/misc/fake_clock.c\<close> (the tick interrupt, jumps of the clock, its calibration by
  a slow timer, watchdogs), \<^verbatim>\<open>components/power_save/mcu_ps.c\<close> (sleeping, calibration by the MAC's counter and by
  beacons) and the idle hook's \<^verbatim>\<open>bk_wlan_mcu_suppress_and_sleep\<close> of \<^verbatim>\<open>wlan_ui.c\<close>, configured for BK7231U and FreeRTOS with
  \<^verbatim>\<open>CFG_USE_TICK_CAL\<close> and \<^verbatim>\<open>CFG_USE_MCU_PS\<close>; the hardware and the kernel are the record \<open>clock_env\<close> and a log. \<open>Clock_Props\<close>: a jump
  is that many ticks, all hands of the clock agree after any sequence of calls (\<open>clock_exec\<close>; \<^verbatim>\<open>fclk_reset_count\<close>, which
  nothing calls, is not one of them), a clock that is ahead pays its debt and one that is behind is set
  right by a beacon where calibration by the network is switched on, and a sleep charges the debt in the wrong unit. The busy counter of \<^verbatim>\<open>mcu_ps.c\<close>
  is also in \<open>Flash\<close>, which uses it alone.

  \<^bold>\<open>Lists and their owners.\<close> \<open>Doubly_List\<close> models \<^verbatim>\<open>include/doubly_list.h\<close>: nodes with two pointers that may
  be NULL, every operation, and the walks as loops that may not end. \<open>ring\<close> is the list a header
  represents; the locale \<open>list_owner\<close> gives a component that keeps such a list in its state the
  effect of insertions, removals and walks. It is interpreted by \<open>Msdu_Props\<close> and by
  \<^item> \<open>Intc\<close>, which models \<^verbatim>\<open>driver/icu/icu.c\<close> and \<^verbatim>\<open>driver/intc/intc.c\<close> (service routines in a list sorted by
    priority, reached from the two interrupt lines through the device model). \<open>Intc_Props\<close>: registration
    refines ordered insertion, dispatch calls the pending routines in the order of their
    priorities, the table stays well formed as long as no number is registered twice, and a second
    registration can turn the list into a cycle.
  \<^item> \<open>Bk_Aware\<close>, which models \<^verbatim>\<open>components/bk_aware/bk_aware.c\<close> (peers in allocated memory, frames, the receiver).
    \<open>Bk_Aware_Props\<close>: the peer functions refine a list of peers and own exactly the allocated
    memory, the receiver gets out of a frame what was put into it, and it trusts the length byte. \<open>Aware_Core\<close> joins the
    sender with the core thread: the thread copies the frame out of a block that the sender frees without waiting, so
    the frame arrives when the thread is in time and is read from freed memory when it is not; with a full queue it is lost.

  \<^bold>\<open>Byte queue.\<close> \<open>Kfifo\<close> models \<^verbatim>\<open>include/fifo.h\<close> with its free-running 32-bit indices. The locales \<open>byte_stream\<close> and
  \<open>byte_queue\<close> state what a client relies on; first in, first out over any sequence of calls follows from it.

  \<^bold>\<open>Audio rings.\<close> \<open>Ring_Buffer\<close> models \<^verbatim>\<open>driver/audio/ring_buffer.c\<close>, which a task and the audio interrupt share, and its variants
  \<^verbatim>\<open>ring_buffer_dma_read.c\<close> and \<^verbatim>\<open>ring_buffer_dma_write.c\<close> with a DMA channel on one side. Its functions have the interrupt as a
  parameter, called between their accesses to the shared fields. \<open>Ring_Cells\<close> and \<open>Ring_Props\<close>: interrupted reads and writes
  lose and change nothing, with one exception, a write around the end, whose point of publication is too
  early; two interpretations of \<open>byte_stream\<close> (without interrupts, and with a channel that plays up to the pause address).

  \<^bold>\<open>Buttons.\<close> \<open>Multi_Button\<close> models \<^verbatim>\<open>components/key/multi_button.c\<close>: debouncing, the click state machine
  with its bit-field widths (and the wrap of the four-bit press counter), and the
  intrusive list of buttons, which refines a list.

  \<^bold>\<open>Base64.\<close> \<open>Base64\<close> models \<^verbatim>\<open>components/base64/base_64.c\<close>: round trip, buffer sizes, rejected input.

  \<^bold>\<open>Hypotheses.\<close> Properties of the storage stack hold for any controller that satisfies
  \<open>nor_controller\<close>; those of the role-launch queue assume that timer commands (sent with an
  infinite wait) and allocations succeed (\<open>env_ok\<close>); those of the data path allow failing allocations and ask
  for new blocks, a descriptor for every queue and timer commands that get through (\<open>env_good\<close>), and of the tables
  that the byte read as \<^verbatim>\<open>ap_id\<close> is a station index for every active interface (\<open>tab_ok\<close>; \<open>transfer_bad_index\<close> and
  \<open>transfer_null_desc\<close> show the faults otherwise). Witnesses instantiate them on concrete
  chips, devices and environments.

  \<^bold>\<open>Not modelled.\<close> Code that only pokes registers of single peripherals, prints, or passes
  messages to the MAC library (the other files of \<^verbatim>\<open>components/rwnx_intf\<close> and \<^verbatim>\<open>components/power_save\<close>, most of \<^verbatim>\<open>driver/\<close> and of \<^verbatim>\<open>components/wlan_ui\<close>), the
  vendored projects, and the command line and demos. Of the HTTP client, the request line and the
  response parser (formatted printing and scanning over a live connection). Of the interrupt
  controller, the storing of the exception vectors and the trap handlers; \<^verbatim>\<open>power_save_dtim_wake\<close>
  is a parameter. Of the data path, two plain allocations, a printing function and \<^verbatim>\<open>ps_msg_process\<close>, a
  dispatcher into the library. Interleaving inside a handler is not modelled where the code masks interrupts.
\<close>

end
